(* ===== verification/Prelude.thy ===== *)
theory Prelude
  imports Main "HOL-Library.Word" "HOL-Library.Monad_Syntax"
begin

text \<open>
  Shared material of the Miyako-Link development: the machine integer types of the C code, C
  characters and strings, little-endian byte images of integers, the result type of code that may
  fail to return, and the generic lemmas the component theories use.

  Conventions. A call that may block forever or fault (a read outside a buffer, a write through a
  null pointer) has result type \<open>'a option\<close> with \<open>None\<close> for ``does not return''; the
  state is passed explicitly and returned beside the value, and the steps are sequenced with the
  \<open>do\<close> notation of the option monad. A C string is the list of its characters before the
  terminating NUL; a buffer is the list of its bytes.
\<close>

unbundle bit_operations_syntax

subsection \<open>Machine integers, characters and strings\<close>

type_synonym u8 = "8 word"
type_synonym u16 = "16 word"
type_synonym u32 = "32 word"
type_synonym u64 = "64 word"

abbreviation ch :: "char \<Rightarrow> u8" where
  "ch \<equiv> of_char"

definition str :: "string \<Rightarrow> u8 list" where
  "str s = map of_char s"

text \<open>The C library's \<open>strlen\<close> view of a buffer: the characters before the first NUL.\<close>

definition cstr :: "u8 list \<Rightarrow> u8 list" where
  "cstr b = takeWhile (\<lambda>c. c \<noteq> 0) b"

text \<open>\<open>strncmp(s, t, n) == 0\<close> on C strings.\<close>

definition strncmp_eq :: "u8 list \<Rightarrow> u8 list \<Rightarrow> nat \<Rightarrow> bool" where
  "strncmp_eq s t n = (take n s = take n t)"

named_theorems str_simps \<comment> \<open>evaluation of string literals\<close>
named_theorems io_defs \<comment> \<open>definitions unfolded when a concrete run is evaluated\<close>

lemma str_Nil [simp, str_simps]: "str [] = []"
  by (simp add: str_def)

lemma str_Cons [simp, str_simps]: "str (c # cs) = ch c # str cs"
  by (simp add: str_def)

lemma length_str [simp]: "length (str s) = length s"
  by (simp add: str_def)

lemma cstr_simps [simp]:
  "cstr [] = []" "cstr (0 # b) = []" "c \<noteq> 0 \<Longrightarrow> cstr (c # b) = c # cstr b"
  by (simp_all add: cstr_def)

lemma cstr_append_NUL: "0 \<notin> set s \<Longrightarrow> cstr (s @ 0 # b) = s"
  by (induction s) (auto simp: cstr_def)

lemma cstr_no_NUL: "0 \<notin> set (cstr b)"
  by (auto simp: cstr_def dest: set_takeWhileD)

lemma cstr_id: "0 \<notin> set s \<Longrightarrow> cstr s = s"
  by (auto simp: cstr_def takeWhile_eq_all_conv)

lemma length_cstr_le: "length (cstr b) \<le> length b"
  by (simp add: cstr_def length_takeWhile_le)

subsection \<open>Writing into a buffer\<close>

text \<open>
  \<open>splice_at b i xs\<close> is \<open>memcpy(b + i, xs, len)\<close> on a buffer that is large enough; the
  code that writes outside a buffer checks the bound first and has no value there.
\<close>

definition splice_at :: "'a list \<Rightarrow> nat \<Rightarrow> 'a list \<Rightarrow> 'a list" where
  "splice_at b i xs = take i b @ xs @ drop (i + length xs) b"

lemma length_splice_at [simp]:
  "i + length xs \<le> length b \<Longrightarrow> length (splice_at b i xs) = length b"
  by (simp add: splice_at_def)

lemma nth_splice_at:
  assumes "i + length xs \<le> length b" and "k < length b"
  shows "splice_at b i xs ! k = (if i \<le> k \<and> k < i + length xs then xs ! (k - i) else b ! k)"
  using assms by (auto simp: splice_at_def nth_append min_def)

lemma take_list_update_last:
  "i < length b \<Longrightarrow> take (Suc i) (b[i := x]) = take i b @ [x]"
  by (simp add: take_Suc_conv_app_nth)

lemma splice_at_Nil [simp]: "splice_at b i [] = b"
  by (simp add: splice_at_def)

lemma splice_at_Cons:
  "i < length b \<Longrightarrow> splice_at b i (x # xs) = splice_at (b[i := x]) (Suc i) xs"
  by (simp add: splice_at_def take_list_update_last)

lemma nth_list_update_append:
  "i < length b \<Longrightarrow> take i (b[i := x]) = take i b"
  by simp

subsection \<open>Word lemmas\<close>

lemma u8_nibbles:
  fixes b :: u8
  shows "push_bit 4 (drop_bit 4 b) OR (b AND 0xF) = b"
proof (rule bit_word_eqI)
  have m: "(0xF :: u8) = mask 4" by (simp add: mask_eq_exp_minus_1)
  fix n assume "n < LENGTH(8)"
  then show "bit (push_bit 4 (drop_bit 4 b) OR (b AND 0xF)) n = bit b n"
    by (auto simp: bit_simps m)
qed

lemma unat_u8_nibbles:
  fixes b :: u8
  shows "unat (drop_bit 4 b) = unat b div 16" and "unat (b AND 0xF) = unat b mod 16"
proof -
  show "unat (drop_bit 4 b) = unat b div 16"
    by (simp add: unat_drop_bit_eq drop_bit_nat_def)
  have "b AND 0xF = take_bit 4 b"
    by (simp add: take_bit_eq_mask mask_eq_exp_minus_1)
  then show "unat (b AND 0xF) = unat b mod 16"
    by (simp add: take_bit_eq_mod unat_mod_distrib)
qed

lemma unat_u8_less: "unat (b :: u8) < 256"
  using unsigned_less [of b, where 'a = nat] by simp

lemma u8_nibble_bounds:
  fixes b :: u8
  shows "unat (drop_bit 4 b) < 16" and "unat (b AND 0xF) < 16"
  using unat_u8_less [of b] by (simp_all add: unat_u8_nibbles)

end
