(* ===== verification/Hex_Utils.thy ===== *)
theory Hex_Utils
  imports Prelude
begin

text \<open>
  \<open>src/src/hex_utils.c\<close>: conversion between byte buffers and strings of hexadecimal digits, used
  by every packet that carries register or memory contents. The round trip and the acceptance of
  upper-case digits are proved, together with the lengths the callers rely on.
\<close>

subsection \<open>Definitions\<close>

definition hexdigits :: "u8 list" where
  "hexdigits = str ''0123456789abcdef''"

text \<open>\<open>hexify\<close> writes two digits for each byte and then a NUL.\<close>

fun hexify_loop :: "u8 list \<Rightarrow> u8 list" where
  "hexify_loop [] = []"
| "hexify_loop (b # bs) =
     hexdigits ! unat (drop_bit 4 b) # hexdigits ! unat (b AND 0xF) # hexify_loop bs"

definition hexify :: "u8 list \<Rightarrow> u8 list" where
  "hexify buf = hexify_loop buf @ [0]"

definition unhex_digit :: "u8 \<Rightarrow> u8" where
  "unhex_digit hex =
     (let tmp = hex - ch CHR ''0'';
          tmp = (if tmp > 9 then tmp - (ch CHR ''A'' - ch CHR ''0'' - 10) else tmp)
      in if tmp > 16 then tmp - (ch CHR ''a'' - ch CHR ''A'') else tmp)"

text \<open>\<open>unhexify\<close> reads \<open>2 * size\<close> characters; \<open>None\<close> is a read past the end of the
  characters that are there.\<close>

fun unhexify :: "u8 list \<Rightarrow> nat \<Rightarrow> u8 list option" where
  "unhexify hex 0 = Some []"
| "unhexify (h # l # hex) (Suc n) =
     map_option (\<lambda>bs. (push_bit 4 (unhex_digit h) OR unhex_digit l) # bs) (unhexify hex n)"
| "unhexify _ (Suc n) = None"

subsection \<open>Lemmas\<close>

lemma length_hexify_loop [simp]: "length (hexify_loop bs) = 2 * length bs"
  by (induction bs) auto

lemma length_hexify [simp]: "length (hexify bs) = 2 * length bs + 1"
  by (simp add: hexify_def)

lemma take_hexify [simp]: "n = 2 * length bs \<Longrightarrow> take n (hexify bs) = hexify_loop bs"
  by (simp add: hexify_def)

lemma hexify_loop_append: "hexify_loop (xs @ ys) = hexify_loop xs @ hexify_loop ys"
  by (induction xs) auto

lemma upto16: "n < 16 \<Longrightarrow> n \<in> set [0, 1, 2, 3, 4, 5, 6, 7, 8, 9, 10, 11, 12, 13, 14, 15 :: nat]"
  by simp arith

lemma unhex_hexdigit:
  assumes "n < 16"
  shows "unhex_digit (hexdigits ! n) = word_of_nat n"
  using upto16 [OF assms] by (auto simp: hexdigits_def unhex_digit_def)

lemma hexdigit_plain:
  assumes "n < 16"
  shows "hexdigits ! n \<in> set hexdigits"
  using assms by (intro nth_mem) (simp add: hexdigits_def)

lemma unhexify_length: "unhexify hex n = Some bs \<Longrightarrow> length bs = n"
  by (induction hex n arbitrary: bs rule: unhexify.induct) auto

lemma unhexify_total: "2 * n \<le> length hex \<Longrightarrow> \<exists>bs. unhexify hex n = Some bs"
  by (induction hex n rule: unhexify.induct) auto

lemma unhexify_hexify_loop: "unhexify (hexify_loop bs @ rest) (length bs) = Some bs"
  by (induction bs) (simp_all add: unhex_hexdigit u8_nibble_bounds u8_nibbles)

lemma hexify_loop_chars: "set (hexify_loop bs) \<subseteq> set hexdigits"
  by (induction bs) (auto simp: hexdigit_plain u8_nibble_bounds)

lemma set_hexdigits: "set hexdigits = {48, 49, 50, 51, 52, 53, 54, 55, 56, 57, 97, 98, 99, 100, 101, 102}"
  by (simp add: hexdigits_def)

lemma hexify_no_NUL: "0 \<notin> set (hexify_loop bs)"
  using hexify_loop_chars [of bs] by (auto simp: set_hexdigits)

lemma cstr_hexify: "cstr (hexify bs) = hexify_loop bs"
  by (simp add: hexify_def cstr_append_NUL hexify_no_NUL)

text \<open>Letters of either case stand for the same digit.\<close>

definition upper_hex :: "u8 \<Rightarrow> u8" where
  "upper_hex c = (if c \<ge> 97 then c - 32 else c)"

lemma unhex_digit_upper:
  assumes "c \<in> set hexdigits"
  shows "unhex_digit (upper_hex c) = unhex_digit c"
  using assms by (auto simp: set_hexdigits unhex_digit_def upper_hex_def)

lemma unhexify_upper:
  "set hex \<subseteq> set hexdigits \<Longrightarrow> unhexify (map upper_hex hex) n = unhexify hex n"
  by (induction hex n rule: unhexify.induct) (simp_all add: unhex_digit_upper)

text \<open>
  What \<open>hexify\<close> prints \<open>unhexify\<close> reads back: for every byte string, whatever follows the
  terminator, and also when the digits came in upper case; the text has two characters for each byte,
  then the terminator and no NUL before it.
\<close>

theorem unhexify_hexify:
  "unhexify (hexify bs @ rest) (length bs) = Some bs \<and>
   unhexify (map upper_hex (hexify_loop bs)) (length bs) = Some bs \<and>
   length (hexify bs) = 2 * length bs + 1 \<and> cstr (hexify bs) = hexify_loop bs"
  using unhexify_hexify_loop [of bs "0 # rest"] unhexify_hexify_loop [of bs "[]"]
  by (simp add: unhexify_upper hexify_loop_chars cstr_hexify) (simp add: hexify_def)

end
