(* ===== verification/Gdb_If.thy ===== *)
theory Gdb_If
  imports Prelude
begin

text \<open>
  The character channel to GDB: the interface of \<open>src/src/include/gdb_if.h\<close> and its RubyLink
  implementation in \<open>src/src/main.c\<close> (\<open>gdb_if_putchar\<close>, \<open>gdb_if_getchar\<close>,
  \<open>gdb_if_getchar_to\<close> with their 256-byte buffers). The FreeRTOS stream buffers below the
  channel are not part of the repository: they are the parameter \<open>stream_ops\<close>, and the locale
  \<open>stream_buffer\<close> states what FreeRTOS documents of them. The locale \<open>gdb_channel\<close> is the
  contract the packet layer relies on; the buffering code is shown to provide it.
\<close>

subsection \<open>The channel interface and the stream buffers below it\<close>

record 'w gdb_io =
  io_getchar :: "'w \<Rightarrow> (u8 \<times> 'w) option"
  io_getchar_to :: "u32 \<Rightarrow> 'w \<Rightarrow> (u8 \<times> 'w) option"
  io_putchar :: "u8 \<Rightarrow> bool \<Rightarrow> 'w \<Rightarrow> 'w option"

record 's stream_ops =
  xStreamBufferBytesAvailable :: "'s \<Rightarrow> nat"
  xStreamBufferReceive :: "nat \<Rightarrow> nat \<Rightarrow> 's \<Rightarrow> u8 list \<times> 's"
  xStreamBufferSend :: "u8 list \<Rightarrow> 's \<Rightarrow> 's"

record 's gdb_if =
  rx_stream :: 's
  tx_stream :: 's
  gdb_tx_buf :: "u8 list"
  gdb_tx_count :: u32
  gdb_rx_buf :: "u8 list"
  gdb_rx_count :: u32
  gdb_rx_last_pos :: u32

text \<open>\<open>pdMS_TO_TICKS(20)\<close>: the code waits 20 ms in one receive call. Only that it is not 0
  matters.\<close>

definition ticks_20ms :: nat where
  "ticks_20ms = 20"

subsection \<open>The channel functions of main.c\<close>

definition gdb_if_init_state :: "'s \<Rightarrow> 's \<Rightarrow> 's gdb_if" where
  "gdb_if_init_state r t =
     \<lparr>rx_stream = r, tx_stream = t,
      gdb_tx_buf = replicate 256 0, gdb_tx_count = 0,
      gdb_rx_buf = replicate 256 0, gdb_rx_count = 0, gdb_rx_last_pos = 0\<rparr>"

definition gdb_if_putchar :: "'s stream_ops \<Rightarrow> u8 \<Rightarrow> bool \<Rightarrow> 's gdb_if \<Rightarrow> 's gdb_if option" where
  "gdb_if_putchar S c flush w =
     (if unat (gdb_tx_count w) < length (gdb_tx_buf w) then
        let w = w\<lparr>gdb_tx_buf := (gdb_tx_buf w)[unat (gdb_tx_count w) := c],
                  gdb_tx_count := gdb_tx_count w + 1\<rparr>
        in if gdb_tx_count w = word_of_nat (length (gdb_tx_buf w)) \<or> flush
           then Some (w\<lparr>tx_stream := xStreamBufferSend S (take (unat (gdb_tx_count w)) (gdb_tx_buf w)) (tx_stream w),
                        gdb_tx_count := 0\<rparr>)
           else Some w
      else None)"

text \<open>The common head of both read functions: hand out a character that is already buffered.\<close>

definition gdb_rx_pop :: "'s gdb_if \<Rightarrow> (u8 \<times> 's gdb_if) option" where
  "gdb_rx_pop w =
     (if unat (gdb_rx_last_pos w) < length (gdb_rx_buf w)
      then Some (gdb_rx_buf w ! unat (gdb_rx_last_pos w),
                 w\<lparr>gdb_rx_count := gdb_rx_count w - 1, gdb_rx_last_pos := gdb_rx_last_pos w + 1\<rparr>)
      else None)"

text \<open>One receive call: the bytes land at the start of \<open>gdb_rx_buf\<close>.\<close>

definition gdb_rx_receive :: "'s stream_ops \<Rightarrow> nat \<Rightarrow> 's gdb_if \<Rightarrow> nat \<times> 's gdb_if" where
  "gdb_rx_receive S timeout w =
     (let (bs, r) = xStreamBufferReceive S (length (gdb_rx_buf w)) timeout (rx_stream w)
      in (length bs, w\<lparr>rx_stream := r, gdb_rx_buf := splice_at (gdb_rx_buf w) 0 bs\<rparr>))"

text \<open>The common tail: the first of the received bytes is returned, the others stay buffered.\<close>

definition gdb_rx_take :: "nat \<Rightarrow> 's gdb_if \<Rightarrow> (u8 \<times> 's gdb_if) option" where
  "gdb_rx_take received w =
     (if 0 < length (gdb_rx_buf w)
      then Some (gdb_rx_buf w ! 0,
                 w\<lparr>gdb_rx_count := word_of_nat received - 1, gdb_rx_last_pos := 1\<rparr>)
      else None)"

text \<open>The receive loop of \<open>gdb_if_getchar\<close> runs until a byte arrives: \<open>None\<close> when none
  ever does.\<close>

partial_function (option) gdb_getchar_loop ::
  "'s stream_ops \<Rightarrow> nat \<Rightarrow> 's gdb_if \<Rightarrow> (nat \<times> 's gdb_if) option" where
  "gdb_getchar_loop S timeout w =
     (let (received, w') = gdb_rx_receive S timeout w
      in if received = 0 \<and> timeout \<noteq> 0 then gdb_getchar_loop S timeout w'
         else Some (received, w'))"

definition gdb_if_getchar :: "'s stream_ops \<Rightarrow> 's gdb_if \<Rightarrow> (u8 \<times> 's gdb_if) option" where
  "gdb_if_getchar S w =
     (if gdb_rx_count w \<noteq> 0 then gdb_rx_pop w
      else let timeout = (if xStreamBufferBytesAvailable S (rx_stream w) \<ge> 1 then 0 else ticks_20ms)
           in do { (received, w) \<leftarrow> gdb_getchar_loop S timeout w;
                   gdb_rx_take received w })"

text \<open>The loop of \<open>gdb_if_getchar_to\<close>: at most \<open>tries_limit + 1\<close> receive calls.\<close>

fun gdb_getchar_to_loop :: "'s stream_ops \<Rightarrow> nat \<Rightarrow> 's gdb_if \<Rightarrow> nat \<times> 's gdb_if" where
  "gdb_getchar_to_loop S 0 w = gdb_rx_receive S ticks_20ms w"
| "gdb_getchar_to_loop S (Suc tries_left) w =
     (let (received, w') = gdb_rx_receive S ticks_20ms w
      in if received = 0 then gdb_getchar_to_loop S tries_left w' else (received, w'))"

definition gdb_if_getchar_to :: "'s stream_ops \<Rightarrow> u32 \<Rightarrow> 's gdb_if \<Rightarrow> (u8 \<times> 's gdb_if) option" where
  "gdb_if_getchar_to S timeout w =
     (if gdb_rx_count w \<noteq> 0 then gdb_rx_pop w
      else let timeout = (if xStreamBufferBytesAvailable S (rx_stream w) \<ge> 1 then 0 else timeout);
               tries_limit = timeout div 20;
               (received, w) = gdb_getchar_to_loop S (unat tries_limit) w
           in if received = 0 then Some (-1, w) else gdb_rx_take received w)"

definition gdb_if_ops :: "'s stream_ops \<Rightarrow> 's gdb_if gdb_io" where
  "gdb_if_ops S =
     \<lparr>io_getchar = gdb_if_getchar S, io_getchar_to = gdb_if_getchar_to S, io_putchar = gdb_if_putchar S\<rparr>"

subsection \<open>The contract of the channel\<close>

text \<open>
  \<open>rx\<close> is the sequence of characters still to be read, \<open>tx\<close> everything written so far and
  \<open>sent\<close> the part of it that has been handed to the transport.
\<close>

locale gdb_channel =
  fixes io :: "'w gdb_io"
    and ok :: "'w \<Rightarrow> bool"
    and rx :: "'w \<Rightarrow> u8 list"
    and tx :: "'w \<Rightarrow> u8 list"
    and sent :: "'w \<Rightarrow> u8 list"
  assumes getchar_next: "\<lbrakk>ok w; rx w = c # cs\<rbrakk> \<Longrightarrow>
      \<exists>w'. io_getchar io w = Some (c, w') \<and> ok w' \<and> rx w' = cs \<and> tx w' = tx w \<and> sent w' = sent w"
    and getchar_blocks: "\<lbrakk>ok w; rx w = []\<rbrakk> \<Longrightarrow> io_getchar io w = None"
    and getchar_to_next: "ok w \<Longrightarrow>
      \<exists>c w'. io_getchar_to io t w = Some (c, w') \<and> ok w' \<and> tx w' = tx w \<and> sent w' = sent w \<and>
        (rx w = c # rx w' \<or> c = -1 \<and> rx w' = rx w)"
    and putchar_next: "ok w \<Longrightarrow>
      \<exists>w'. io_putchar io c flush w = Some w' \<and> ok w' \<and> rx w' = rx w \<and> tx w' = tx w @ [c] \<and>
        (flush \<longrightarrow> sent w' = tx w')"

text \<open>
  What FreeRTOS documents of stream buffers: bytes come out in the order they went in, a receive
  returns at most what fits and something when something is there, a receive that waits makes
  progress towards the next arrival, and a send without a time limit delivers every byte.
  \<open>future\<close> is all that will ever be received, \<open>delivered\<close> all that was sent.
\<close>

locale stream_buffer =
  fixes S :: "'s stream_ops"
    and future :: "'s \<Rightarrow> u8 list"
    and delivered :: "'s \<Rightarrow> u8 list"
    and wait :: "'s \<Rightarrow> nat"
  assumes receive: "xStreamBufferReceive S n t s = (bs, s') \<Longrightarrow>
      length bs \<le> n \<and> future s = bs @ future s'"
    and receive_available: "\<lbrakk>xStreamBufferReceive S n t s = (bs, s'); 0 < n;
      0 < xStreamBufferBytesAvailable S s\<rbrakk> \<Longrightarrow> bs \<noteq> []"
    and receive_waits: "\<lbrakk>xStreamBufferReceive S n t s = ([], s'); 0 < n; 0 < t; future s \<noteq> []\<rbrakk>
      \<Longrightarrow> wait s' < wait s"
    and send: "delivered (xStreamBufferSend S bs s) = delivered s @ bs"

subsection \<open>The buffers implement the channel\<close>

text \<open>The invariant of the two buffers, and the characters they hold.\<close>

definition gdb_if_ok :: "'s gdb_if \<Rightarrow> bool" where
  "gdb_if_ok w \<longleftrightarrow> length (gdb_tx_buf w) = 256 \<and> unat (gdb_tx_count w) < 256 \<and>
     length (gdb_rx_buf w) = 256 \<and> unat (gdb_rx_count w) + unat (gdb_rx_last_pos w) \<le> 256"

definition gdb_if_rx :: "('s \<Rightarrow> u8 list) \<Rightarrow> 's gdb_if \<Rightarrow> u8 list" where
  "gdb_if_rx fut w =
     take (unat (gdb_rx_count w)) (drop (unat (gdb_rx_last_pos w)) (gdb_rx_buf w)) @ fut (rx_stream w)"

definition gdb_if_tx :: "('s \<Rightarrow> u8 list) \<Rightarrow> 's gdb_if \<Rightarrow> u8 list" where
  "gdb_if_tx dlv w = dlv (tx_stream w) @ take (unat (gdb_tx_count w)) (gdb_tx_buf w)"

definition gdb_if_sent :: "('s \<Rightarrow> u8 list) \<Rightarrow> 's gdb_if \<Rightarrow> u8 list" where
  "gdb_if_sent dlv w = dlv (tx_stream w)"

lemmas gdb_if_views = gdb_if_ok_def gdb_if_rx_def gdb_if_tx_def gdb_if_sent_def

lemma unat_u32_minus_1: "(x :: u32) \<noteq> 0 \<Longrightarrow> unat (x - 1) = unat x - 1"
  by (simp add: unat_minus_one)

lemma unat_u32_plus_1: "unat (x :: u32) < 256 \<Longrightarrow> unat (x + 1) = unat x + 1"
  by (simp add: unat_word_ariths)

lemma gdb_rx_pop_correct:
  assumes ok: "gdb_if_ok w" and ne: "gdb_rx_count w \<noteq> 0"
  shows "\<exists>c w'. gdb_rx_pop w = Some (c, w') \<and> gdb_if_ok w' \<and> gdb_if_rx fut w = c # gdb_if_rx fut w' \<and>
    gdb_if_tx dlv w' = gdb_if_tx dlv w \<and> gdb_if_sent dlv w' = gdb_if_sent dlv w"
proof -
  let ?p = "unat (gdb_rx_last_pos w)" and ?n = "unat (gdb_rx_count w)"
  from ne have n: "0 < ?n" by (simp add: unat_gt_0)
  with ok have p: "?p < length (gdb_rx_buf w)" by (simp add: gdb_if_ok_def)
  with ok have "drop ?p (gdb_rx_buf w) = gdb_rx_buf w ! ?p # drop (Suc ?p) (gdb_rx_buf w)"
    by (simp add: Cons_nth_drop_Suc)
  then have "take ?n (drop ?p (gdb_rx_buf w)) =
      gdb_rx_buf w ! ?p # take (?n - 1) (drop (Suc ?p) (gdb_rx_buf w))"
    using n by (simp add: take_Cons')
  then show ?thesis
    using ok ne n p
    by (simp add: gdb_rx_pop_def gdb_if_views unat_u32_minus_1 unat_u32_plus_1)
qed

lemma gdb_if_putchar_correct:
  assumes ok: "gdb_if_ok w" and dlv: "\<And>bs s. dlv (xStreamBufferSend S bs s) = dlv s @ bs"
  shows "\<exists>w'. gdb_if_putchar S c flush w = Some w' \<and> gdb_if_ok w' \<and>
    gdb_if_rx fut w' = gdb_if_rx fut w \<and> gdb_if_tx dlv w' = gdb_if_tx dlv w @ [c] \<and>
    (flush \<longrightarrow> gdb_if_sent dlv w' = gdb_if_tx dlv w')"
proof -
  let ?n = "unat (gdb_tx_count w)"
  from ok have n: "?n < length (gdb_tx_buf w)" "?n < 256" "length (gdb_tx_buf w) = 256"
    by (simp_all add: gdb_if_ok_def)
  have s: "unat (gdb_tx_count w + 1) = Suc ?n" using n by (simp add: unat_u32_plus_1)
  have e: "gdb_tx_count w + 1 = 256 \<longleftrightarrow> Suc ?n = 256"
    using s by (auto simp: word_unat_eq_iff)
  show ?thesis
    using ok n s e
    by (auto simp: gdb_if_putchar_def gdb_if_views Let_def take_list_update_last dlv)
qed

context stream_buffer
begin

lemma rx_receive:
  assumes ok: "gdb_if_ok w" and c0: "gdb_rx_count w = 0" and r: "gdb_rx_receive S t w = (n, w')"
  shows "gdb_if_ok w'" "gdb_rx_count w' = 0" "n \<le> 256"
    "gdb_if_rx future w = take n (gdb_rx_buf w') @ gdb_if_rx future w'"
    "gdb_if_tx dlv w' = gdb_if_tx dlv w" "gdb_if_sent dlv w' = gdb_if_sent dlv w"
proof -
  obtain bs s' where b: "xStreamBufferReceive S (length (gdb_rx_buf w)) t (rx_stream w) = (bs, s')"
    by (cases "xStreamBufferReceive S (length (gdb_rx_buf w)) t (rx_stream w)")
  from receive [OF b] ok have l: "length bs \<le> 256" "future (rx_stream w) = bs @ future s'"
    by (simp_all add: gdb_if_ok_def)
  from b r have w': "n = length bs"
    "w' = w\<lparr>rx_stream := s', gdb_rx_buf := splice_at (gdb_rx_buf w) 0 bs\<rparr>"
    by (simp_all add: gdb_rx_receive_def)
  from l ok c0 show "gdb_if_ok w'" "gdb_rx_count w' = 0" "n \<le> 256"
    "gdb_if_rx future w = take n (gdb_rx_buf w') @ gdb_if_rx future w'"
    "gdb_if_tx dlv w' = gdb_if_tx dlv w" "gdb_if_sent dlv w' = gdb_if_sent dlv w"
    by (simp_all add: w' gdb_if_views) (simp add: splice_at_def)
qed

lemma rx_take:
  assumes ok: "gdb_if_ok w" and n: "0 < n" "n \<le> 256" and c0: "gdb_rx_count w = 0"
  shows "\<exists>c w'. gdb_rx_take n w = Some (c, w') \<and> gdb_if_ok w' \<and>
    take n (gdb_rx_buf w) @ gdb_if_rx future w = c # gdb_if_rx future w' \<and>
    gdb_if_tx dlv w' = gdb_if_tx dlv w \<and> gdb_if_sent dlv w' = gdb_if_sent dlv w"
proof -
  from ok have b: "length (gdb_rx_buf w) = 256" by (simp add: gdb_if_ok_def)
  have u: "unat (word_of_nat n - 1 :: u32) = n - 1"
    using n by (subst unat_u32_minus_1) (auto simp: unat_of_nat word_of_nat_eq_0_iff take_bit_nat_eq_self_iff dest: nat_dvd_not_less)
  from b obtain x xs where "gdb_rx_buf w = x # xs" by (cases "gdb_rx_buf w") auto
  with ok n u c0 show ?thesis
    by (auto simp: gdb_rx_take_def gdb_if_views take_Cons')
qed

text \<open>The blocking loop returns as soon as something is still to come, and only then.\<close>

lemma getchar_loop_returns:
  assumes "gdb_if_ok w" "gdb_rx_count w = 0" "future (rx_stream w) \<noteq> []"
    and "t \<noteq> 0 \<or> 0 < xStreamBufferBytesAvailable S (rx_stream w)"
  shows "\<exists>n w'. gdb_getchar_loop S t w = Some (n, w') \<and> 0 < n \<and> n \<le> 256 \<and> gdb_if_ok w' \<and>
    gdb_rx_count w' = 0 \<and> gdb_if_rx future w = take n (gdb_rx_buf w') @ gdb_if_rx future w' \<and>
    gdb_if_tx dlv w' = gdb_if_tx dlv w \<and> gdb_if_sent dlv w' = gdb_if_sent dlv w"
  using assms
proof (induction "wait (rx_stream w)" arbitrary: w rule: less_induct)
  case less
  obtain n w1 where r: "gdb_rx_receive S t w = (n, w1)" by (cases "gdb_rx_receive S t w")
  note rr = rx_receive [OF less.prems(1,2) r]
  show ?case
  proof (cases "n = 0 \<and> t \<noteq> 0")
    case False
    moreover have "0 < n"
      using False r less.prems receive_available
      by (fastforce simp: gdb_rx_receive_def gdb_if_ok_def split: prod.splits)
    ultimately show ?thesis using r rr by (subst gdb_getchar_loop.simps) auto
  next
    case True
    then have n0: "n = 0" and t0: "t \<noteq> 0" by auto
    from rr(4) less.prems(2) n0 rr(2) have f: "future (rx_stream w1) = future (rx_stream w)"
      by (simp add: gdb_if_rx_def)
    from r n0 have "xStreamBufferReceive S (length (gdb_rx_buf w)) t (rx_stream w) = ([], rx_stream w1)"
      by (auto simp: gdb_rx_receive_def split: prod.splits)
    then have "wait (rx_stream w1) < wait (rx_stream w)"
      using receive_waits t0 less.prems(1,3) by (fastforce simp: gdb_if_ok_def)
    from less.hyps [OF this rr(1,2)] f less.prems(3) t0
    show ?thesis using r n0 t0 rr by (subst gdb_getchar_loop.simps) (auto simp: rr(4))
  qed
qed

lemma getchar_loop_blocks:
  assumes ret: "gdb_getchar_loop S t w = Some r"
    and ok: "gdb_if_ok w" "gdb_rx_count w = 0" "t \<noteq> 0"
  shows "gdb_if_rx future w \<noteq> []"
proof -
  let ?P = "\<lambda>S' t w r. S' = S \<and> gdb_if_ok w \<and> gdb_rx_count w = 0 \<and> t \<noteq> 0 \<longrightarrow> gdb_if_rx future w \<noteq> []"
  have "?P S t w r"
  proof (rule gdb_getchar_loop.raw_induct [where P = ?P, OF _ ret], intro impI)
    fix f S' t w r
    assume IH: "\<And>S' t w r. f S' t w = Some r \<Longrightarrow> ?P S' t w r"
      and eq: "(let (received, w') = gdb_rx_receive S' t w
        in if received = 0 \<and> t \<noteq> 0 then f S' t w' else Some (received, w')) = Some r"
      and pre: "S' = S \<and> gdb_if_ok w \<and> gdb_rx_count w = 0 \<and> t \<noteq> 0"
    obtain n w1 where rc: "gdb_rx_receive S t w = (n, w1)" by (cases "gdb_rx_receive S t w")
    from pre have "gdb_if_ok w" "gdb_rx_count w = 0" by auto
    note rr = rx_receive [OF this rc]
    show "gdb_if_rx future w \<noteq> []"
    proof (cases "n = 0")
      case True
      with eq pre rc have "f S t w1 = Some r" by simp
      from IH [OF this] pre rr show ?thesis by simp
    next
      case False
      with rr(1,4) show ?thesis by (auto simp: gdb_if_ok_def)
    qed
  qed
  with ok show ?thesis by blast
qed

lemma getchar_to_loop:
  assumes "gdb_if_ok w" "gdb_rx_count w = 0" "gdb_getchar_to_loop S k w = (n, w')"
  shows "n \<le> 256 \<and> gdb_if_ok w' \<and> gdb_rx_count w' = 0 \<and>
    gdb_if_rx future w = take n (gdb_rx_buf w') @ gdb_if_rx future w' \<and>
    gdb_if_tx dlv w' = gdb_if_tx dlv w \<and> gdb_if_sent dlv w' = gdb_if_sent dlv w"
  using assms
proof (induction k arbitrary: w)
  case 0
  then show ?case using rx_receive [OF 0(1,2)] by simp
next
  case (Suc k)
  obtain m w1 where r: "gdb_rx_receive S ticks_20ms w = (m, w1)"
    by (cases "gdb_rx_receive S ticks_20ms w")
  note rr = rx_receive [OF Suc.prems(1,2) r]
  show ?case
  proof (cases "m = 0")
    case True
    with Suc.prems(3) r have "gdb_getchar_to_loop S k w1 = (n, w')" by simp
    from Suc.IH [OF rr(1,2) this] rr True show ?thesis by simp
  next
    case False
    with Suc.prems(3) r rr show ?thesis by auto
  qed
qed

lemma getchar_correct:
  assumes ok: "gdb_if_ok w" and rx: "gdb_if_rx future w = c # cs"
  shows "\<exists>w'. gdb_if_getchar S w = Some (c, w') \<and> gdb_if_ok w' \<and> gdb_if_rx future w' = cs \<and>
    gdb_if_tx delivered w' = gdb_if_tx delivered w \<and> gdb_if_sent delivered w' = gdb_if_sent delivered w"
proof (cases "gdb_rx_count w = 0")
  case False
  from gdb_rx_pop_correct [OF ok this, of future delivered] rx False show ?thesis
    by (auto simp: gdb_if_getchar_def)
next
  case True
  let ?t = "if xStreamBufferBytesAvailable S (rx_stream w) \<ge> 1 then 0 else ticks_20ms"
  from rx True have "future (rx_stream w) \<noteq> []" by (simp add: gdb_if_rx_def)
  moreover have "?t \<noteq> 0 \<or> 0 < xStreamBufferBytesAvailable S (rx_stream w)"
    by (auto simp: ticks_20ms_def)
  ultimately obtain n w1 where l: "gdb_getchar_loop S ?t w = Some (n, w1)" "0 < n" "n \<le> 256" "gdb_if_ok w1"
      "gdb_rx_count w1 = 0" "gdb_if_rx future w = take n (gdb_rx_buf w1) @ gdb_if_rx future w1"
      "gdb_if_tx delivered w1 = gdb_if_tx delivered w" "gdb_if_sent delivered w1 = gdb_if_sent delivered w"
    using getchar_loop_returns [OF ok True, of ?t delivered] by blast
  from rx_take [OF l(4,2,3,5), of delivered] l rx True show ?thesis
    by (auto simp: gdb_if_getchar_def Let_def)
qed

lemma getchar_blocks_when_silent:
  assumes ok: "gdb_if_ok w" and rx: "gdb_if_rx future w = []"
  shows "gdb_if_getchar S w = None"
proof -
  have c0: "gdb_rx_count w = 0"
  proof -
    from ok rx have "unat (gdb_rx_count w) = 0" by (auto simp: gdb_if_views)
    then show ?thesis by (simp add: unsigned_eq_0_iff)
  qed
  have "\<not> xStreamBufferBytesAvailable S (rx_stream w) \<ge> 1"
  proof
    assume a: "xStreamBufferBytesAvailable S (rx_stream w) \<ge> 1"
    obtain bs s' where r: "xStreamBufferReceive S 1 0 (rx_stream w) = (bs, s')" by fastforce
    from receive_available [OF r] a receive [OF r] rx show False by (auto simp: gdb_if_rx_def)
  qed
  moreover have "gdb_getchar_loop S ticks_20ms w = None"
    using getchar_loop_blocks [OF _ ok c0, of ticks_20ms] rx
    by (cases "gdb_getchar_loop S ticks_20ms w") (auto simp: ticks_20ms_def)
  ultimately show ?thesis using c0 by (simp add: gdb_if_getchar_def Let_def)
qed

lemma getchar_to_correct:
  assumes ok: "gdb_if_ok w"
  shows "\<exists>c w'. gdb_if_getchar_to S t w = Some (c, w') \<and> gdb_if_ok w' \<and>
    gdb_if_tx delivered w' = gdb_if_tx delivered w \<and> gdb_if_sent delivered w' = gdb_if_sent delivered w \<and>
    (gdb_if_rx future w = c # gdb_if_rx future w' \<or> c = -1 \<and> gdb_if_rx future w' = gdb_if_rx future w)"
proof (cases "gdb_rx_count w = 0")
  case False
  from gdb_rx_pop_correct [OF ok this, of future delivered] False show ?thesis
    by (auto simp: gdb_if_getchar_to_def)
next
  case True
  let ?t = "if xStreamBufferBytesAvailable S (rx_stream w) \<ge> 1 then 0 else t"
  obtain n w1 where l: "gdb_getchar_to_loop S (unat (?t div 20)) w = (n, w1)" by fastforce
  note ll = getchar_to_loop [OF ok True l, of delivered]
  show ?thesis
  proof (cases "n = 0")
    case True
    with ll l \<open>gdb_rx_count w = 0\<close> show ?thesis by (auto simp: gdb_if_getchar_to_def Let_def)
  next
    case False
    with ll have "0 < n" "n \<le> 256" "gdb_if_ok w1" "gdb_rx_count w1 = 0" by auto
    from rx_take [OF this(3,1,2,4), of delivered] False ll l \<open>gdb_rx_count w = 0\<close>
    show ?thesis by (auto simp: gdb_if_getchar_to_def Let_def)
  qed
qed

end

sublocale stream_buffer \<subseteq> channel: gdb_channel "gdb_if_ops S" gdb_if_ok "gdb_if_rx future" "gdb_if_tx delivered" "gdb_if_sent delivered"
  by unfold_locales
    (simp_all add: gdb_if_ops_def getchar_correct getchar_blocks_when_silent getchar_to_correct
      gdb_if_putchar_correct send)

context stream_buffer
begin

lemma is_channel:
  "gdb_channel (gdb_if_ops S) gdb_if_ok (gdb_if_rx future) (gdb_if_tx delivered) (gdb_if_sent delivered)"
  by (rule channel.gdb_channel_axioms)

end

subsection \<open>A stream buffer that satisfies the documented behaviour\<close>

text \<open>
  A queue with a schedule of arrivals (an empty arrival is a receive that times out), the bytes that
  are waiting, and the bytes that were sent: a concrete stream buffer, on which the statements about
  the channel can be evaluated.
\<close>

type_synonym fifo = "u8 list list \<times> u8 list \<times> u8 list"

fun fifo_receive :: "nat \<Rightarrow> nat \<Rightarrow> fifo \<Rightarrow> u8 list \<times> fifo" where
  "fifo_receive n t (arrivals, avail, out) =
     (if avail \<noteq> [] then (take n avail, (arrivals, drop n avail, out))
      else if t = 0 then ([], (arrivals, avail, out))
      else case arrivals of
             [] \<Rightarrow> ([], ([], [], out))
           | a # arrivals' \<Rightarrow> (take n a, (arrivals', drop n a, out)))"

definition fifo_ops :: "fifo stream_ops" where
  "fifo_ops =
     \<lparr>xStreamBufferBytesAvailable = (\<lambda>(arrivals, avail, out). length avail),
      xStreamBufferReceive = fifo_receive,
      xStreamBufferSend = (\<lambda>bs (arrivals, avail, out). (arrivals, avail, out @ bs))\<rparr>"

definition fifo_future :: "fifo \<Rightarrow> u8 list" where
  "fifo_future = (\<lambda>(arrivals, avail, out). avail @ concat arrivals)"

definition fifo_delivered :: "fifo \<Rightarrow> u8 list" where
  "fifo_delivered = (\<lambda>(arrivals, avail, out). out)"

definition fifo_wait :: "fifo \<Rightarrow> nat" where
  "fifo_wait = (\<lambda>(arrivals, avail, out). length arrivals)"

lemmas fifo_defs = fifo_ops_def fifo_future_def fifo_delivered_def fifo_wait_def

interpretation fifo: stream_buffer fifo_ops fifo_future fifo_delivered fifo_wait
proof unfold_locales
  fix n t s bs s'
  assume "xStreamBufferReceive fifo_ops n t s = (bs, s')"
  then show "length bs \<le> n \<and> fifo_future s = bs @ fifo_future s'"
    by (cases s) (auto simp: fifo_defs split: if_splits list.splits)
next
  fix n t s bs s'
  assume "xStreamBufferReceive fifo_ops n t s = (bs, s')" "0 < n"
    "0 < xStreamBufferBytesAvailable fifo_ops s"
  then show "bs \<noteq> []"
    by (cases s) (auto simp: fifo_defs split: if_splits list.splits)
next
  fix n t s s'
  assume "xStreamBufferReceive fifo_ops n t s = ([], s')" "0 < n" "0 < t" "fifo_future s \<noteq> []"
  then show "fifo_wait s' < fifo_wait s"
    by (cases s) (auto simp: fifo_defs split: if_splits list.splits)
next
  fix bs s
  show "fifo_delivered (xStreamBufferSend fifo_ops bs s) = fifo_delivered s @ bs"
    by (cases s) (simp add: fifo_defs)
qed

text \<open>
  C12. The two 256-byte buffers of \<open>main.c\<close> are transparent: over any stream buffers that behave
  as FreeRTOS documents, \<open>gdb_if_getchar\<close>, \<open>gdb_if_getchar_to\<close> and
  \<open>gdb_if_putchar\<close> implement the character channel. Reads return the received bytes in order
  and lose none, the blocking read returns exactly when a byte is still to come, the timed read
  returns the next byte or -1, no index leaves a buffer, and a flushing write hands everything
  written so far to the transport.
\<close>

theorem gdb_if_implements_channel:
  assumes "stream_buffer S fut dlv wt"
  shows "gdb_channel (gdb_if_ops S) gdb_if_ok (gdb_if_rx fut) (gdb_if_tx dlv) (gdb_if_sent dlv)"
  by (rule stream_buffer.is_channel [OF assms])

theorem gdb_if_implements_channel_witness:
  "gdb_channel (gdb_if_ops fifo_ops) gdb_if_ok (gdb_if_rx fifo_future) (gdb_if_tx fifo_delivered)
     (gdb_if_sent fifo_delivered) \<and>
   map_option fst (gdb_if_getchar fifo_ops (gdb_if_init_state ([[], [7, 8]], [], []) ([], [], []))) = Some 7"
  using gdb_if_implements_channel [OF fifo.stream_buffer_axioms]
  by (simp add: gdb_if_getchar_def gdb_if_init_state_def gdb_getchar_loop.simps gdb_rx_receive_def
      gdb_rx_take_def fifo_ops_def ticks_20ms_def splice_at_def)

end
