(* ===== verification/Mem_Manager.thy ===== *)
theory Mem_Manager
  imports Prelude
begin

text \<open>
  \<open>src/src/platforms/RubyLink/mem_manager.c\<close>: the pool allocator behind every dynamic buffer of
  the probe. A pool is a FreeRTOS queue of free items; FreeRTOS and its heap are parameters
  (\<open>queue_ops\<close> and the \<open>malloc\<close> argument of the initialisation), with the documented
  behaviour in the locales \<open>rtos_queue\<close> and \<open>rtos_heap\<close>. An item is identified by the
  address of its data, which is what the allocator hands out; the C code converts between the item
  and its data by a constant offset. The locale \<open>allocator\<close> is the contract other components
  use.
\<close>

subsection \<open>Definitions\<close>

record 'q queue_ops =
  xQueueCreate :: "nat \<Rightarrow> 'q"
  xQueueReceive :: "'q \<Rightarrow> (nat \<times> 'q) option"
  xQueueSendToFront :: "nat \<Rightarrow> 'q \<Rightarrow> 'q option"

record 'q pool =
  bufSize :: nat
  bufCount :: nat
  queue :: 'q

record 'q mem_manager =
  memManagerPools :: "'q pool list"
  item_size :: "nat \<rightharpoonup> nat"
  item_data :: "nat \<Rightarrow> u8 list"

definition MEM_MANAGER_POOL_CONFIG :: "(nat \<times> nat \<times> string) list" where
  "MEM_MANAGER_POOL_CONFIG =
     [(16,   200, ''Pool 16 bytes''),
      (64,   100, ''Pool 64 bytes''),
      (128,  50,  ''Pool 128 bytes''),
      (256,  10,  ''Pool 256 bytes''),
      (512,  10,  ''Pool 512 bytes''),
      (1024, 10,  ''Pool 1024 bytes''),
      (2048, 3,   ''Pool 2048 bytes''),
      (4096, 3,   ''Pool 4096 bytes'')]"

text \<open>
  The inner loop of \<open>MemManager_Init\<close>: \<open>j\<close> items are taken from the RTOS heap and put into
  the queue. The code writes the size into the new item, so a null pointer faults (\<open>None\<close>); the
  result of the send is ignored.
\<close>

fun MemManager_Init_items ::
  "'q queue_ops \<Rightarrow> (nat \<Rightarrow> 'm \<Rightarrow> nat option \<times> 'm) \<Rightarrow> nat \<Rightarrow> nat \<Rightarrow> 'q \<Rightarrow> (nat \<rightharpoonup> nat) \<Rightarrow> 'm
   \<Rightarrow> ('q \<times> (nat \<rightharpoonup> nat) \<times> 'm) option" where
  "MemManager_Init_items Q malloc sz 0 q sizes m = Some (q, sizes, m)"
| "MemManager_Init_items Q malloc sz (Suc j) q sizes m =
     (case malloc (8 + (sz - 1)) m of
        (None, m) \<Rightarrow> None
      | (Some p, m) \<Rightarrow>
          MemManager_Init_items Q malloc sz j
            (case xQueueSendToFront Q p q of Some q' \<Rightarrow> q' | None \<Rightarrow> q) (sizes(p \<mapsto> sz)) m)"

fun MemManager_Init_pools ::
  "'q queue_ops \<Rightarrow> (nat \<Rightarrow> 'm \<Rightarrow> nat option \<times> 'm) \<Rightarrow> (nat \<times> nat \<times> string) list
   \<Rightarrow> (nat \<rightharpoonup> nat) \<Rightarrow> 'm \<Rightarrow> ('q pool list \<times> (nat \<rightharpoonup> nat) \<times> 'm) option" where
  "MemManager_Init_pools Q malloc [] sizes m = Some ([], sizes, m)"
| "MemManager_Init_pools Q malloc ((sz, cnt, name) # cfg) sizes m =
     do { (q, sizes, m) \<leftarrow> MemManager_Init_items Q malloc sz cnt (xQueueCreate Q cnt) sizes m;
          (ps, sizes, m) \<leftarrow> MemManager_Init_pools Q malloc cfg sizes m;
          Some (\<lparr>bufSize = sz, bufCount = cnt, queue = q\<rparr> # ps, sizes, m) }"

definition MemManager_Init ::
  "'q queue_ops \<Rightarrow> (nat \<Rightarrow> 'm \<Rightarrow> nat option \<times> 'm) \<Rightarrow> 'm \<Rightarrow> ('q mem_manager \<times> 'm) option" where
  "MemManager_Init Q malloc m =
     do { (ps, sizes, m) \<leftarrow> MemManager_Init_pools Q malloc MEM_MANAGER_POOL_CONFIG Map.empty m;
          Some (\<lparr>memManagerPools = ps, item_size = sizes, item_data = (\<lambda>_. [])\<rparr>, m) }"

text \<open>The search loop of \<open>MemManager_Alloc\<close>: only the first pool whose buffers are large enough is
  asked; when it is empty the loop breaks and the request fails.\<close>

fun MemManager_Alloc_loop :: "'q queue_ops \<Rightarrow> nat \<Rightarrow> 'q pool list \<Rightarrow> (nat \<times> 'q pool list) option" where
  "MemManager_Alloc_loop Q n [] = None"
| "MemManager_Alloc_loop Q n (p # ps) =
     (if n \<le> bufSize p then
        (case xQueueReceive Q (queue p) of
           Some (item, q') \<Rightarrow> Some (item, p\<lparr>queue := q'\<rparr> # ps)
         | None \<Rightarrow> None)
      else map_option (\<lambda>(item, ps'). (item, p # ps')) (MemManager_Alloc_loop Q n ps))"

definition MemManager_Alloc ::
  "'q queue_ops \<Rightarrow> bool \<Rightarrow> nat \<Rightarrow> 'q mem_manager \<Rightarrow> nat option \<times> 'q mem_manager" where
  "MemManager_Alloc Q in_interrupt n m =
     (if in_interrupt then (None, m)
      else case MemManager_Alloc_loop Q n (memManagerPools m) of
             Some (item, ps) \<Rightarrow>
               (Some item,
                m\<lparr>memManagerPools := ps,
                  item_data := (item_data m)(item := replicate (the (item_size m item)) 0)\<rparr>)
           | None \<Rightarrow> (None, m))"

fun MemManager_Free_loop :: "'q queue_ops \<Rightarrow> nat \<Rightarrow> nat \<Rightarrow> 'q pool list \<Rightarrow> 'q pool list" where
  "MemManager_Free_loop Q item sz [] = []"
| "MemManager_Free_loop Q item sz (p # ps) =
     (if sz = bufSize p then
        (case xQueueSendToFront Q item (queue p) of
           Some q' \<Rightarrow> p\<lparr>queue := q'\<rparr> # ps
         | None \<Rightarrow> p # ps)
      else p # MemManager_Free_loop Q item sz ps)"

text \<open>\<open>MemManager_Free\<close> takes a pointer or NULL (\<open>None\<close>).\<close>

definition MemManager_Free ::
  "'q queue_ops \<Rightarrow> bool \<Rightarrow> nat option \<Rightarrow> 'q mem_manager \<Rightarrow> 'q mem_manager" where
  "MemManager_Free Q in_interrupt pBuffer m =
     (if in_interrupt then m
      else case pBuffer of
             None \<Rightarrow> m
           | Some item \<Rightarrow>
               m\<lparr>memManagerPools := MemManager_Free_loop Q item (the (item_size m item)) (memManagerPools m)\<rparr>)"

subsection \<open>Interfaces\<close>

locale rtos_queue =
  fixes Q :: "'q queue_ops"
    and items :: "'q \<Rightarrow> nat list"
    and capacity :: "'q \<Rightarrow> nat"
  assumes create: "items (xQueueCreate Q n) = []" "capacity (xQueueCreate Q n) = n"
    and receive_empty: "items q = [] \<Longrightarrow> xQueueReceive Q q = None"
    and receive_front: "items q = x # xs \<Longrightarrow>
      \<exists>q'. xQueueReceive Q q = Some (x, q') \<and> items q' = xs \<and> capacity q' = capacity q"
    and send_front: "length (items q) < capacity q \<Longrightarrow>
      \<exists>q'. xQueueSendToFront Q x q = Some q' \<and> items q' = x # items q \<and> capacity q' = capacity q"

locale rtos_heap =
  fixes malloc :: "nat \<Rightarrow> 'm \<Rightarrow> nat option \<times> 'm"
    and used :: "'m \<Rightarrow> nat set"
  assumes malloc_fresh: "malloc n m = (Some p, m') \<Longrightarrow> p \<notin> used m \<and> used m' = insert p (used m)"

text \<open>The two calls as other components see them, on the state they run in.\<close>

record 'w heap_ops =
  mm_alloc :: "nat \<Rightarrow> 'w \<Rightarrow> nat option \<times> 'w"
  mm_free :: "nat option \<Rightarrow> 'w \<Rightarrow> 'w"

text \<open>What the rest of the firmware relies on: \<open>live\<close> are the blocks handed out and not yet
  returned.\<close>

locale allocator =
  fixes alloc :: "nat \<Rightarrow> 'h \<Rightarrow> nat option \<times> 'h"
    and free :: "nat option \<Rightarrow> 'h \<Rightarrow> 'h"
    and ok :: "'h \<Rightarrow> bool"
    and live :: "'h \<Rightarrow> nat set"
    and block :: "'h \<Rightarrow> nat \<Rightarrow> u8 list"
  assumes alloc_some: "\<lbrakk>ok h; alloc n h = (Some p, h')\<rbrakk> \<Longrightarrow>
      ok h' \<and> p \<notin> live h \<and> live h' = insert p (live h) \<and> n \<le> length (block h' p) \<and> set (block h' p) \<subseteq> {0}"
    and alloc_none: "\<lbrakk>ok h; alloc n h = (None, h')\<rbrakk> \<Longrightarrow> h' = h"
    and free_some: "\<lbrakk>ok h; p \<in> live h\<rbrakk> \<Longrightarrow> ok (free (Some p) h) \<and> live (free (Some p) h) = live h - {p}"
    and free_null: "free None h = h"

subsection \<open>The search loops\<close>

lemma alloc_loop_hit:
  assumes "\<forall>u \<in> set us. bufSize u < n" "n \<le> bufSize p"
  shows "MemManager_Alloc_loop Q n (us @ p # vs) =
    (case xQueueReceive Q (queue p) of
       Some (x, q') \<Rightarrow> Some (x, us @ p\<lparr>queue := q'\<rparr> # vs) | None \<Rightarrow> None)"
  using assms by (induction us) (auto split: option.splits)

lemma alloc_loop_SomeE:
  assumes "MemManager_Alloc_loop Q n ps = Some (x, ps')"
  obtains us p vs q' where "ps = us @ p # vs" "\<forall>u \<in> set us. bufSize u < n" "n \<le> bufSize p"
    "xQueueReceive Q (queue p) = Some (x, q')" "ps' = us @ p\<lparr>queue := q'\<rparr> # vs"
  using assms
proof (induction ps arbitrary: ps' thesis)
  case Nil
  then show ?case by simp
next
  case (Cons a ps)
  show ?case
  proof (cases "n \<le> bufSize a")
    case True
    with Cons.prems(2) obtain q' where "xQueueReceive Q (queue a) = Some (x, q')" "ps' = a\<lparr>queue := q'\<rparr> # ps"
      by (auto split: option.splits)
    with True show ?thesis by (intro Cons.prems(1) [of "[]" a ps q']) simp_all
  next
    case False
    with Cons.prems(2) obtain ps1 where "MemManager_Alloc_loop Q n ps = Some (x, ps1)" "ps' = a # ps1"
      by auto
    from Cons.IH [OF _ this(1)] obtain us p vs q' where "ps = us @ p # vs" "\<forall>u \<in> set us. bufSize u < n"
      "n \<le> bufSize p" "xQueueReceive Q (queue p) = Some (x, q')" "ps1 = us @ p\<lparr>queue := q'\<rparr> # vs"
      by blast
    with False \<open>ps' = a # ps1\<close> show ?thesis by (intro Cons.prems(1) [of "a # us" p vs q']) simp_all
  qed
qed

lemma free_loop_split:
  assumes "ps = us @ p # vs" "\<forall>u \<in> set us. bufSize u \<noteq> bufSize p" "xQueueSendToFront Q x (queue p) = Some q'"
  shows "MemManager_Free_loop Q x (bufSize p) ps = us @ p\<lparr>queue := q'\<rparr> # vs"
  using assms by (induction us arbitrary: ps) auto

lemma pool_split:
  assumes "sz \<in> set (map bufSize ps)" "distinct (map bufSize ps)"
  obtains us p vs where "ps = us @ p # vs" "bufSize p = sz" "\<forall>u \<in> set us. bufSize u \<noteq> bufSize p"
    "\<forall>u \<in> set vs. bufSize u \<noteq> bufSize p"
proof -
  from assms(1) obtain p where "p \<in> set ps" "bufSize p = sz" by auto
  then obtain us vs where "ps = us @ p # vs" by (auto dest: split_list)
  with assms(2) \<open>bufSize p = sz\<close> show ?thesis by (intro that [of us p vs]) (auto simp: rev_image_eqI)
qed

subsection \<open>The invariant\<close>

definition blocks_of :: "'q mem_manager \<Rightarrow> nat \<Rightarrow> nat set" where
  "blocks_of m sz = {x. item_size m x = Some sz}"

definition pool_sizes :: "nat list" where
  "pool_sizes = [16, 64, 128, 256, 512, 1024, 2048, 4096]"

definition pool_ok :: "('q \<Rightarrow> nat list) \<Rightarrow> ('q \<Rightarrow> nat) \<Rightarrow> 'q mem_manager \<Rightarrow> 'q pool \<Rightarrow> bool" where
  "pool_ok items capacity m p \<longleftrightarrow>
     distinct (items (queue p)) \<and> set (items (queue p)) \<subseteq> blocks_of m (bufSize p) \<and>
     finite (blocks_of m (bufSize p)) \<and> card (blocks_of m (bufSize p)) \<le> capacity (queue p)"

definition mm_ok :: "('q \<Rightarrow> nat list) \<Rightarrow> ('q \<Rightarrow> nat) \<Rightarrow> 'q mem_manager \<Rightarrow> bool" where
  "mm_ok items capacity m \<longleftrightarrow>
     map bufSize (memManagerPools m) = pool_sizes \<and> ran (item_size m) \<subseteq> set pool_sizes \<and>
     (\<forall>p \<in> set (memManagerPools m). pool_ok items capacity m p)"

definition free_blocks :: "('q \<Rightarrow> nat list) \<Rightarrow> 'q mem_manager \<Rightarrow> nat set" where
  "free_blocks items m = (\<Union>p \<in> set (memManagerPools m). set (items (queue p)))"

definition live_blocks :: "('q \<Rightarrow> nat list) \<Rightarrow> 'q mem_manager \<Rightarrow> nat set" where
  "live_blocks items m = dom (item_size m) - free_blocks items m"

lemma distinct_pool_sizes: "distinct pool_sizes"
  by (simp add: pool_sizes_def)

lemma blocks_of_update [simp]:
  "blocks_of (m\<lparr>memManagerPools := ps\<rparr>) = blocks_of m"
  "blocks_of (m\<lparr>memManagerPools := ps, item_data := d\<rparr>) = blocks_of m"
  by (simp_all add: blocks_of_def fun_eq_iff)

lemma blocks_of_disjoint: "sz \<noteq> sz' \<Longrightarrow> blocks_of m sz \<inter> blocks_of m sz' = {}"
  by (auto simp: blocks_of_def)

text \<open>Replacing the queue of one pool by one with more or fewer blocks of that pool.\<close>

lemma mm_ok_replace:
  assumes ok: "mm_ok items capacity m" and ps: "memManagerPools m = us @ p # vs"
    and q: "distinct (items q')" "set (items q') \<subseteq> blocks_of m (bufSize p)" "capacity q' = capacity (queue p)"
    and m': "m' = m\<lparr>memManagerPools := us @ p\<lparr>queue := q'\<rparr> # vs\<rparr> \<or>
             m' = m\<lparr>memManagerPools := us @ p\<lparr>queue := q'\<rparr> # vs, item_data := d\<rparr>"
  shows "mm_ok items capacity m'"
    "live_blocks items m' = live_blocks items m \<union> (set (items (queue p)) - set (items q')) - set (items q')"
proof -
  from m' show "mm_ok items capacity m'"
    by (elim disjE) (use ok ps q in \<open>simp_all add: mm_ok_def pool_ok_def\<close>)
  have sz: "distinct (map bufSize (us @ p # vs))"
    using ok ps distinct_pool_sizes by (metis mm_ok_def)
  have other: "set (items (queue u)) \<inter> blocks_of m (bufSize p) = {}" if "u \<in> set us \<union> set vs" for u
  proof -
    from that sz have "bufSize u \<noteq> bufSize p" by (auto simp: rev_image_eqI)
    moreover from that ok ps have "set (items (queue u)) \<subseteq> blocks_of m (bufSize u)"
      by (auto simp: mm_ok_def pool_ok_def)
    ultimately show ?thesis using blocks_of_disjoint [of "bufSize u" "bufSize p" m] by blast
  qed
  let ?F = "\<Union>u \<in> set us \<union> set vs. set (items (queue u))"
  have p: "set (items (queue p)) \<subseteq> blocks_of m (bufSize p)" "set (items (queue p)) \<subseteq> dom (item_size m)"
    using ok ps by (auto simp: mm_ok_def pool_ok_def blocks_of_def)
  have F: "?F \<inter> set (items (queue p)) = {}" using other p(1) by blast
  have d: "dom (item_size m') = dom (item_size m)" using m' by auto
  have "free_blocks items m = ?F \<union> set (items (queue p))" using ps by (auto simp: free_blocks_def)
  moreover have "free_blocks items m' = ?F \<union> set (items q')" using m' by (auto simp: free_blocks_def)
  ultimately have "live_blocks items m = dom (item_size m) - (?F \<union> set (items (queue p)))"
    "live_blocks items m' = dom (item_size m) - (?F \<union> set (items q'))"
    using d by (simp_all add: live_blocks_def)
  with F p(2) show "live_blocks items m' =
      live_blocks items m \<union> (set (items (queue p)) - set (items q')) - set (items q')"
    by (simp only:) blast
qed

context rtos_queue
begin

lemma alloc_success:
  assumes ok: "mm_ok items capacity m" and a: "MemManager_Alloc Q irq n m = (Some x, m')"
  shows "mm_ok items capacity m'" "x \<notin> live_blocks items m"
    "live_blocks items m' = insert x (live_blocks items m)" "item_size m' = item_size m"
    "\<exists>sz \<in> set pool_sizes. item_size m x = Some sz \<and> n \<le> sz \<and> (\<forall>s \<in> set pool_sizes. n \<le> s \<longrightarrow> sz \<le> s) \<and>
       item_data m' x = replicate sz 0"
proof -
  from a obtain ps where l: "MemManager_Alloc_loop Q n (memManagerPools m) = Some (x, ps)"
    and m': "m' = m\<lparr>memManagerPools := ps, item_data := (item_data m)(x := replicate (the (item_size m x)) 0)\<rparr>"
    by (auto simp: MemManager_Alloc_def split: if_splits option.splits)
  from l obtain us p vs q' where s: "memManagerPools m = us @ p # vs" "\<forall>u \<in> set us. bufSize u < n" "n \<le> bufSize p"
      "xQueueReceive Q (queue p) = Some (x, q')" "ps = us @ p\<lparr>queue := q'\<rparr> # vs"
    by (rule alloc_loop_SomeE)
  from s(4) receive_empty have "items (queue p) \<noteq> []" by fastforce
  then obtain y ys where "items (queue p) = y # ys" by (cases "items (queue p)") auto
  with receive_front [OF this] s(4) have it: "items (queue p) = x # items q'" "capacity q' = capacity (queue p)"
    by auto
  from ok s(1) have pk: "pool_ok items capacity m p" by (simp add: mm_ok_def)
  from pk it have q: "distinct (items q')" "set (items q') \<subseteq> blocks_of m (bufSize p)" "x \<notin> set (items q')"
    "x \<in> blocks_of m (bufSize p)"
    by (auto simp: pool_ok_def)
  note r = mm_ok_replace [where m' = m', OF ok s(1) q(1,2) it(2) disjI2 [OF m' [unfolded s(5)]]]
  show "mm_ok items capacity m'" by (rule r(1))
  have "x \<in> free_blocks items m" using it s(1) by (auto simp: free_blocks_def)
  then show "x \<notin> live_blocks items m" by (simp add: live_blocks_def)
  have "set (items q') \<inter> live_blocks items m = {}"
    using it s(1) by (auto simp: live_blocks_def free_blocks_def)
  with r(2) it q(3) show "live_blocks items m' = insert x (live_blocks items m)" by auto
  show "item_size m' = item_size m" by (simp add: m')
  have x: "item_size m x = Some (bufSize p)" using q(4) by (simp add: blocks_of_def)
  from ok s(1) have ms: "map bufSize us @ bufSize p # map bufSize vs = pool_sizes" by (simp add: mm_ok_def)
  have "bufSize p \<le> sz" if "sz \<in> set pool_sizes" "n \<le> sz" for sz
  proof -
    have "sorted pool_sizes" by (simp add: pool_sizes_def)
    with ms have "sorted (map bufSize us @ bufSize p # map bufSize vs)" by simp
    moreover from that ms have "sz \<in> set (map bufSize us @ bufSize p # map bufSize vs)" by simp
    ultimately show ?thesis using s(2) that(2) by (auto simp: sorted_append not_le [symmetric])
  qed
  moreover have "bufSize p \<in> set pool_sizes" using ms by (metis in_set_conv_decomp)
  ultimately show "\<exists>sz \<in> set pool_sizes. item_size m x = Some sz \<and> n \<le> sz \<and> (\<forall>s \<in> set pool_sizes. n \<le> s \<longrightarrow> sz \<le> s) \<and>
       item_data m' x = replicate sz 0"
    using x s(3) by (intro bexI [of _ "bufSize p"]) (auto simp: m')
qed

lemma alloc_failure:
  "MemManager_Alloc Q irq n m = (None, m') \<Longrightarrow> m' = m"
  by (auto simp: MemManager_Alloc_def split: if_splits option.splits)

lemma free_NULL: "MemManager_Free Q irq None m = m"
  by (simp add: MemManager_Free_def)

lemma free_success:
  assumes ok: "mm_ok items capacity m" and x: "x \<in> live_blocks items m"
  shows "mm_ok items capacity (MemManager_Free Q False (Some x) m)"
    "live_blocks items (MemManager_Free Q False (Some x) m) = live_blocks items m - {x}"
    "item_size (MemManager_Free Q False (Some x) m) = item_size m"
    "\<exists>us p vs q'. memManagerPools m = us @ p # vs \<and> items q' = x # items (queue p) \<and>
       memManagerPools (MemManager_Free Q False (Some x) m) = us @ p\<lparr>queue := q'\<rparr> # vs"
proof -
  from x obtain sz where sz: "item_size m x = Some sz" by (auto simp: live_blocks_def)
  with ok have "sz \<in> set (map bufSize (memManagerPools m))" "distinct (map bufSize (memManagerPools m))"
    using distinct_pool_sizes by (auto simp: mm_ok_def ran_def)
  then obtain us p vs where s: "memManagerPools m = us @ p # vs" "bufSize p = sz" "\<forall>u \<in> set us. bufSize u \<noteq> bufSize p"
    by (metis pool_split)
  from ok s(1) have pk: "pool_ok items capacity m p" by (simp add: mm_ok_def)
  have xb: "x \<in> blocks_of m (bufSize p)" using sz s(2) by (simp add: blocks_of_def)
  have xq: "x \<notin> set (items (queue p))" using x s(1) by (auto simp: live_blocks_def free_blocks_def)
  have "length (items (queue p)) = card (set (items (queue p)))"
    using pk by (simp add: pool_ok_def distinct_card)
  also have "\<dots> < card (blocks_of m (bufSize p))"
    using pk xb xq by (intro psubset_card_mono) (auto simp: pool_ok_def)
  also have "\<dots> \<le> capacity (queue p)" using pk by (simp add: pool_ok_def)
  finally obtain q' where q': "xQueueSendToFront Q x (queue p) = Some q'" "items q' = x # items (queue p)"
      "capacity q' = capacity (queue p)"
    using send_front by blast
  let ?m = "m\<lparr>memManagerPools := us @ p\<lparr>queue := q'\<rparr> # vs\<rparr>"
  have m': "MemManager_Free Q False (Some x) m = ?m"
    using free_loop_split [OF s(1,3) q'(1)] s(2) sz by (simp add: MemManager_Free_def)
  have q: "distinct (items q')" "set (items q') \<subseteq> blocks_of m (bufSize p)"
    using pk xb xq q'(2) by (auto simp: pool_ok_def)
  note r = mm_ok_replace [where m' = ?m, OF ok s(1) q q'(3) disjI1 [OF refl]]
  show "mm_ok items capacity (MemManager_Free Q False (Some x) m)" by (simp add: m' r(1))
  have "set (items (queue p)) \<inter> live_blocks items m = {}"
    using s(1) by (auto simp: live_blocks_def free_blocks_def)
  with r(2) q'(2) show "live_blocks items (MemManager_Free Q False (Some x) m) = live_blocks items m - {x}"
    by (auto simp: m')
  show "item_size (MemManager_Free Q False (Some x) m) = item_size m" by (simp add: m')
  show "\<exists>us p vs q'. memManagerPools m = us @ p # vs \<and> items q' = x # items (queue p) \<and>
       memManagerPools (MemManager_Free Q False (Some x) m) = us @ p\<lparr>queue := q'\<rparr> # vs"
    using s(1) q'(2) m' by auto
qed

end

sublocale rtos_queue \<subseteq> mm: allocator "MemManager_Alloc Q False" "MemManager_Free Q False"
  "mm_ok items capacity" "live_blocks items" item_data
proof unfold_locales
  fix h n p h'
  assume "mm_ok items capacity h" "MemManager_Alloc Q False n h = (Some p, h')"
  from alloc_success [OF this] show "mm_ok items capacity h' \<and> p \<notin> live_blocks items h \<and>
      live_blocks items h' = insert p (live_blocks items h) \<and> n \<le> length (item_data h' p) \<and>
      set (item_data h' p) \<subseteq> {0}"
    by auto
qed (auto simp: free_NULL free_success dest: alloc_failure)

subsection \<open>Initialisation\<close>

locale mm_environment = rtos_queue Q items capacity + rtos_heap malloc used
  for Q :: "'q queue_ops" and items and capacity and malloc :: "nat \<Rightarrow> 'm \<Rightarrow> nat option \<times> 'm" and used
begin

lemma init_items:
  assumes "MemManager_Init_items Q malloc sz j q sizes m = Some (q', sizes', m')"
    and "length (items q) + j \<le> capacity q"
  shows "\<exists>new. length new = j \<and> distinct new \<and> set new \<inter> used m = {} \<and> items q' = rev new @ items q \<and>
    capacity q' = capacity q \<and> used m' = used m \<union> set new \<and>
    sizes' = (\<lambda>x. if x \<in> set new then Some sz else sizes x)"
  using assms
proof (induction j arbitrary: q sizes m)
  case 0
  then show ?case by auto
next
  case (Suc j)
  from Suc.prems(1) obtain p m1 where p: "malloc (8 + (sz - 1)) m = (Some p, m1)"
    by (auto split: prod.splits option.splits)
  from Suc.prems(2) obtain q1 where q1: "xQueueSendToFront Q p q = Some q1" "items q1 = p # items q"
      "capacity q1 = capacity q"
    using send_front [of q p] by auto
  from Suc.prems(1) p q1 have "MemManager_Init_items Q malloc sz j q1 (sizes(p \<mapsto> sz)) m1 = Some (q', sizes', m')"
    by simp
  from Suc.IH [OF this] Suc.prems(2) q1 obtain new where n: "length new = j" "distinct new" "set new \<inter> used m1 = {}"
      "items q' = rev new @ items q1" "capacity q' = capacity q1" "used m' = used m1 \<union> set new"
      "sizes' = (\<lambda>x. if x \<in> set new then Some sz else (sizes(p \<mapsto> sz)) x)"
    by auto
  from malloc_fresh [OF p] n q1 show ?case
    by (intro exI [of _ "p # new"]) (auto simp: fun_eq_iff)
qed

lemma init_pools:
  assumes "MemManager_Init_pools Q malloc cfg sizes m = Some (ps, sizes', m')"
    and "distinct (map fst cfg)" "ran sizes \<inter> set (map fst cfg) = {}" "dom sizes \<subseteq> used m"
  shows "map bufSize ps = map fst cfg \<and> map bufCount ps = map (fst \<circ> snd) cfg \<and> dom sizes' \<subseteq> used m' \<and>
    ran sizes' \<subseteq> ran sizes \<union> set (map fst cfg) \<and>
    (\<forall>x z. z \<notin> set (map fst cfg) \<longrightarrow> (sizes' x = Some z \<longleftrightarrow> sizes x = Some z)) \<and>
    (\<forall>p \<in> set ps. distinct (items (queue p)) \<and> set (items (queue p)) = {x. sizes' x = Some (bufSize p)} \<and>
       length (items (queue p)) = bufCount p \<and> capacity (queue p) = bufCount p)"
  using assms
proof (induction cfg arbitrary: sizes m ps)
  case Nil
  then show ?case by auto
next
  case (Cons c cfg)
  obtain sz cnt name where c: "c = (sz, cnt, name)" by (cases c)
  from Cons.prems(1) c obtain q1 sizes1 m1 ps1 where
      i: "MemManager_Init_items Q malloc sz cnt (xQueueCreate Q cnt) sizes m = Some (q1, sizes1, m1)"
    and p: "MemManager_Init_pools Q malloc cfg sizes1 m1 = Some (ps1, sizes', m')"
    and ps: "ps = \<lparr>bufSize = sz, bufCount = cnt, queue = q1\<rparr> # ps1"
    by (auto simp: bind_eq_Some_conv)
  from init_items [OF i] create obtain new where n: "length new = cnt" "distinct new" "set new \<inter> used m = {}"
      "items q1 = rev new" "capacity q1 = cnt" "used m1 = used m \<union> set new"
      "sizes1 = (\<lambda>x. if x \<in> set new then Some sz else sizes x)"
    by auto
  have r1: "ran sizes1 \<subseteq> insert sz (ran sizes)" using n(7) by (auto simp: ran_def)
  have d1: "dom sizes1 \<subseteq> used m1" using n(6,7) Cons.prems(4) by (auto simp: dom_def split: if_splits)
  from Cons.prems(2) c have sz: "sz \<notin> set (map fst cfg)" and dc: "distinct (map fst cfg)" by auto
  have "ran sizes1 \<inter> set (map fst cfg) = {}"
    using r1 sz Cons.prems(3) c by auto
  note IH = Cons.IH [OF p dc this d1]
  have "sizes1 x = Some sz \<longleftrightarrow> x \<in> set new" for x
    using n(7) Cons.prems(3) c by (auto simp: ran_def)
  with IH sz have new: "{x. sizes' x = Some sz} = set new" by auto
  have other: "sizes' x = Some z \<longleftrightarrow> sizes x = Some z" if "z \<notin> set (map fst (c # cfg))" for x z
  proof -
    from that c IH have "sizes' x = Some z \<longleftrightarrow> sizes1 x = Some z" by auto
    moreover have "sizes1 x = Some z \<longleftrightarrow> sizes x = Some z"
      using that c n(3,7) Cons.prems(4) by (auto simp: dom_def)
    ultimately show ?thesis by simp
  qed
  from IH new other n ps c r1 show ?case by auto
qed

lemma init_ok:
  assumes "MemManager_Init Q malloc m0 = Some (m, m')"
  shows "mm_ok items capacity m \<and> live_blocks items m = {} \<and>
    (\<forall>(sz, cnt, name) \<in> set MEM_MANAGER_POOL_CONFIG. card (blocks_of m sz) = cnt)"
proof -
  from assms obtain ps sizes where i: "MemManager_Init_pools Q malloc MEM_MANAGER_POOL_CONFIG Map.empty m0 = Some (ps, sizes, m')"
    and m: "m = \<lparr>memManagerPools = ps, item_size = sizes, item_data = (\<lambda>_. [])\<rparr>"
    by (auto simp: MemManager_Init_def bind_eq_Some_conv)
  have cs: "map fst MEM_MANAGER_POOL_CONFIG = pool_sizes"
    by (simp add: MEM_MANAGER_POOL_CONFIG_def pool_sizes_def)
  note p = init_pools [OF i, unfolded cs, simplified, OF distinct_pool_sizes]
  have "pool_ok items capacity m p" if "p \<in> set ps" for p
    using p that by (auto simp: pool_ok_def m blocks_of_def distinct_card [symmetric] simp del: distinct_card
        dest!: bspec [of _ _ p]) (metis List.finite_set card_length distinct_card order_refl)+
  with p have "mm_ok items capacity m" by (simp add: mm_ok_def m)
  moreover have "live_blocks items m = {}"
  proof -
    have "x \<in> free_blocks items m" if "sizes x = Some z" for x z
    proof -
      from p that have "z \<in> set (map bufSize ps)" by (auto simp: ran_def)
      then obtain q where "q \<in> set ps" "bufSize q = z" by auto
      with p that show ?thesis by (auto simp: free_blocks_def m)
    qed
    then show ?thesis by (auto simp: live_blocks_def m)
  qed
  moreover have "card (blocks_of m sz) = cnt" if c: "(sz, cnt, name) \<in> set MEM_MANAGER_POOL_CONFIG" for sz cnt name
  proof -
    from c obtain k where k: "k < length MEM_MANAGER_POOL_CONFIG" "MEM_MANAGER_POOL_CONFIG ! k = (sz, cnt, name)"
      by (auto simp: in_set_conv_nth)
    from p have l: "length ps = length MEM_MANAGER_POOL_CONFIG" by (metis cs length_map)
    from p k l have "bufSize (ps ! k) = sz" "bufCount (ps ! k) = cnt"
      by (metis comp_apply cs fst_conv nth_map snd_conv)+
    with p k l show ?thesis
      by (auto simp: blocks_of_def m dest!: bspec [of _ _ "ps ! k"] simp flip: distinct_card)
  qed
  ultimately show ?thesis by auto
qed

end

subsection \<open>Every history of requests\<close>

text \<open>
  The states the allocator reaches under any sequence of requests, with the set of blocks the clients
  hold. Clients return only blocks they hold; a request or a return made from an interrupt handler is
  ignored by the code.
\<close>

inductive mm_reachable ::
  "'q queue_ops \<Rightarrow> (nat \<Rightarrow> 'm \<Rightarrow> nat option \<times> 'm) \<Rightarrow> 'm \<Rightarrow> 'q mem_manager \<Rightarrow> nat set \<Rightarrow> bool"
  for Q malloc m0 where
  init: "MemManager_Init Q malloc m0 = Some (m, m1) \<Longrightarrow> mm_reachable Q malloc m0 m {}"
| alloc: "mm_reachable Q malloc m0 m L \<Longrightarrow> MemManager_Alloc Q irq n m = (Some x, m') \<Longrightarrow>
     mm_reachable Q malloc m0 m' (insert x L)"
| alloc_fails: "mm_reachable Q malloc m0 m L \<Longrightarrow> MemManager_Alloc Q irq n m = (None, m') \<Longrightarrow>
     mm_reachable Q malloc m0 m' L"
| free: "mm_reachable Q malloc m0 m L \<Longrightarrow> x \<in> L \<Longrightarrow>
     mm_reachable Q malloc m0 (MemManager_Free Q False (Some x) m) (L - {x})"
| free_ignored: "mm_reachable Q malloc m0 m L \<Longrightarrow>
     mm_reachable Q malloc m0 (MemManager_Free Q True p m) L"

lemma card_Diff_less_iff: "finite B \<Longrightarrow> A \<subseteq> B \<Longrightarrow> card (B - A) < card B \<longleftrightarrow> A \<noteq> {}"
  by (cases "A = {}") (auto intro: psubset_card_mono)

definition config_ok :: "'q mem_manager \<Rightarrow> bool" where
  "config_ok m \<longleftrightarrow> (\<forall>(sz, cnt, name) \<in> set MEM_MANAGER_POOL_CONFIG. card (blocks_of m sz) = cnt)"

lemma config_ok_cong: "item_size m' = item_size m \<Longrightarrow> config_ok m' = config_ok m"
  by (simp add: config_ok_def blocks_of_def)

context mm_environment
begin

lemma reachable_inv:
  "mm_reachable Q malloc m0 m L \<Longrightarrow> mm_ok items capacity m \<and> live_blocks items m = L \<and> config_ok m"
proof (induction rule: mm_reachable.induct)
  case (init m m1)
  then show ?case using init_ok by (auto simp: config_ok_def)
next
  case (alloc m L irq n x m')
  then show ?case using alloc_success [OF _ alloc.hyps(2)] config_ok_cong by metis
next
  case (alloc_fails m L irq n m')
  then show ?case using alloc_failure by metis
next
  case (free m L x)
  then show ?case using free_success config_ok_cong by metis
next
  case (free_ignored m L p)
  then show ?case by (simp add: MemManager_Free_def)
qed

lemma reachable_alloc:
  assumes r: "mm_reachable Q malloc m0 m L" and a: "MemManager_Alloc Q irq n m = (Some x, m')"
  shows "x \<notin> L" "\<exists>sz \<in> set pool_sizes. item_size m x = Some sz \<and> n \<le> sz \<and>
    (\<forall>s \<in> set pool_sizes. n \<le> s \<longrightarrow> sz \<le> s) \<and> item_data m' x = replicate sz 0"
  using reachable_inv [OF r] alloc_success(2,5) [OF _ a] by auto

text \<open>A request succeeds exactly when the smallest pool that fits still has a block.\<close>

lemma alloc_iff:
  assumes r: "mm_reachable Q malloc m0 m L" and c: "(sz, cnt, name) \<in> set MEM_MANAGER_POOL_CONFIG"
    and n: "n \<le> sz" "\<forall>s \<in> set pool_sizes. n \<le> s \<longrightarrow> sz \<le> s"
  shows "(\<exists>x m'. MemManager_Alloc Q False n m = (Some x, m')) \<longleftrightarrow>
    card {x \<in> L. item_size m x = Some sz} < cnt"
proof -
  from reachable_inv [OF r] have ok: "mm_ok items capacity m" and L: "live_blocks items m = L"
    and cfg: "config_ok m" by auto
  from c have sz: "sz \<in> set (map bufSize (memManagerPools m))" and d: "distinct (map bufSize (memManagerPools m))"
    using ok distinct_pool_sizes by (auto simp: mm_ok_def MEM_MANAGER_POOL_CONFIG_def pool_sizes_def)
  then obtain us p vs where s: "memManagerPools m = us @ p # vs" "bufSize p = sz"
      "\<forall>u \<in> set us. bufSize u \<noteq> bufSize p" "\<forall>u \<in> set vs. bufSize u \<noteq> bufSize p"
    by (metis pool_split)
  have us: "\<forall>u \<in> set us. bufSize u < n"
  proof
    fix u assume u: "u \<in> set us"
    have ps: "map bufSize us @ sz # map bufSize vs = pool_sizes" using ok s by (simp add: mm_ok_def)
    moreover have "sorted pool_sizes" by (simp add: pool_sizes_def)
    ultimately have "sorted (map bufSize us @ sz # map bufSize vs)" by simp
    with u have "bufSize u \<le> sz" by (auto simp: sorted_append)
    moreover have "bufSize u \<in> set pool_sizes"
      using u ps by (metis UnI1 image_eqI list.set_map set_append)
    ultimately show "bufSize u < n" using n(2) s(2,3) u by fastforce
  qed
  have pk: "pool_ok items capacity m p" using ok s(1) by (simp add: mm_ok_def)
  have free_p: "free_blocks items m \<inter> blocks_of m sz = set (items (queue p))"
  proof -
    have "set (items (queue u)) \<inter> blocks_of m sz = {}" if "u \<in> set us \<union> set vs" for u
    proof -
      have "set (items (queue u)) \<subseteq> blocks_of m (bufSize u)" using ok s(1) that by (auto simp: mm_ok_def pool_ok_def)
      moreover have "bufSize u \<noteq> sz" using that s by auto
      ultimately show ?thesis using blocks_of_disjoint by blast
    qed
    then show ?thesis using pk s by (auto simp: free_blocks_def pool_ok_def)
  qed
  have "{x \<in> L. item_size m x = Some sz} = blocks_of m sz - set (items (queue p))"
    using L free_p by (auto simp: live_blocks_def blocks_of_def)
  moreover have "card (blocks_of m sz) = cnt" using cfg c by (auto simp: config_ok_def)
  moreover have "set (items (queue p)) \<subseteq> blocks_of m sz" "finite (blocks_of m sz)"
    using pk s(2) by (auto simp: pool_ok_def)
  ultimately have "card {x \<in> L. item_size m x = Some sz} < cnt \<longleftrightarrow> items (queue p) \<noteq> []"
    using card_Diff_less_iff [of "blocks_of m sz" "set (items (queue p))"] by simp
  moreover have "(\<exists>x m'. MemManager_Alloc Q False n m = (Some x, m')) \<longleftrightarrow> items (queue p) \<noteq> []"
    using alloc_loop_hit [OF us, of p Q vs] n(1) s(1,2) receive_empty [of "queue p"] receive_front [of "queue p"]
    by (cases "items (queue p)") (auto simp: MemManager_Alloc_def)
  ultimately show ?thesis by simp
qed

end

subsection \<open>Properties\<close>

text \<open>A queue and a heap with the documented behaviour, for evaluation.\<close>

definition list_queue :: "(nat list \<times> nat) queue_ops" where
  "list_queue =
     \<lparr>xQueueCreate = (\<lambda>n. ([], n)),
      xQueueReceive = (\<lambda>(xs, n). case xs of [] \<Rightarrow> None | x # xs \<Rightarrow> Some (x, (xs, n))),
      xQueueSendToFront = (\<lambda>x (xs, n). if length xs < n then Some (x # xs, n) else None)\<rparr>"

definition bump_malloc :: "nat \<Rightarrow> nat \<Rightarrow> nat option \<times> nat" where
  "bump_malloc n m = (Some m, Suc m)"

interpretation lq: mm_environment list_queue fst snd bump_malloc "\<lambda>m. {..<m}"
proof unfold_locales
  fix q :: "nat list \<times> nat" and x xs
  assume "fst q = x # xs"
  then show "\<exists>q'. xQueueReceive list_queue q = Some (x, q') \<and> fst q' = xs \<and> snd q' = snd q"
    by (cases q) (simp add: list_queue_def)
next
  fix q :: "nat list \<times> nat" and x
  assume "length (fst q) < snd q"
  then show "\<exists>q'. xQueueSendToFront list_queue x q = Some q' \<and> fst q' = x # fst q \<and> snd q' = snd q"
    by (cases q) (simp add: list_queue_def)
qed (auto simp: list_queue_def bump_malloc_def)

lemma init_items_total:
  "(\<And>n m. fst (malloc n m) \<noteq> None) \<Longrightarrow> MemManager_Init_items Q malloc sz j q sizes m \<noteq> None"
proof (induction j arbitrary: q sizes m)
  case (Suc j)
  obtain p m' where "malloc (8 + (sz - 1)) m = (Some p, m')"
    using Suc.prems [of "8 + (sz - 1)" m] by (cases "malloc (8 + (sz - 1)) m") auto
  with Suc.IH [OF Suc.prems] show ?case by simp
qed simp

lemma init_pools_total:
  "(\<And>n m. fst (malloc n m) \<noteq> None) \<Longrightarrow> MemManager_Init_pools Q malloc cfg sizes m \<noteq> None"
proof (induction cfg arbitrary: sizes m)
  case (Cons c cfg)
  obtain sz cnt name where c: "c = (sz, cnt, name)" by (cases c)
  have "MemManager_Init_items Q malloc sz cnt (xQueueCreate Q cnt) sizes m \<noteq> None"
    by (rule init_items_total) (rule Cons.prems)
  then obtain q s m1 where "MemManager_Init_items Q malloc sz cnt (xQueueCreate Q cnt) sizes m = Some (q, s, m1)"
    by auto
  moreover obtain r where "MemManager_Init_pools Q malloc cfg s m1 = Some r"
    using Cons.IH [OF Cons.prems] by blast
  ultimately show ?case by (cases r) (simp add: c)
qed simp

lemma lq_reachable_init: "\<exists>m. mm_reachable list_queue bump_malloc 0 m {}"
proof -
  have "MemManager_Init_pools list_queue bump_malloc MEM_MANAGER_POOL_CONFIG Map.empty 0 \<noteq> None"
    by (rule init_pools_total) (simp add: bump_malloc_def)
  then obtain m m' where "MemManager_Init list_queue bump_malloc 0 = Some (m, m')"
    by (auto simp: MemManager_Init_def)
  then show ?thesis by (blast intro: mm_reachable.init)
qed



text \<open>
  C17. Exhaustion of one size: a request of at most 4096 bytes fails exactly when the clients hold
  every block of the smallest size that fits, whatever larger blocks are free (the search does not
  continue in the next pool).
\<close>

theorem MemManager_Alloc_succeeds_iff:
  assumes "mm_environment Q items capacity malloc used"
    and "mm_reachable Q malloc m0 m L"
    and "(sz, cnt, name) \<in> set MEM_MANAGER_POOL_CONFIG" and "n \<le> sz"
    and "\<forall>s \<in> {16, 64, 128, 256, 512, 1024, 2048, 4096}. n \<le> s \<longrightarrow> sz \<le> s"
  shows "(\<exists>x m'. MemManager_Alloc Q False n m = (Some x, m')) \<longleftrightarrow>
    card {x \<in> L. item_size m x = Some sz} < cnt"
  using mm_environment.alloc_iff [OF assms(1-4)] assms(5) by (simp add: pool_sizes_def)

theorem MemManager_Alloc_succeeds_iff_witness:
  "\<exists>m x m'. mm_reachable list_queue bump_malloc 0 m {} \<and> MemManager_Alloc list_queue False 4000 m = (Some x, m')"
proof -
  obtain m where m: "mm_reachable list_queue bump_malloc 0 m {}" using lq_reachable_init by blast
  have c: "(4096, 3, ''Pool 4096 bytes'') \<in> set MEM_MANAGER_POOL_CONFIG" by (simp add: MEM_MANAGER_POOL_CONFIG_def)
  from MemManager_Alloc_succeeds_iff [OF lq.mm_environment_axioms m c, of 4000] m show ?thesis by auto
qed

end
