(* ===== verification/Gdb_Packet.thy ===== *)
theory Gdb_Packet
  imports Gdb_If Hex_Utils Mem_Manager
begin

text \<open>
  \<open>src/src/gdb_packet.c\<close>: reception and transmission of packets of the GDB remote serial
  protocol over the character channel. The remote-control handler \<open>remotePacketProcess\<close>, which
  reception calls, is an argument. The printf-style functions take the expanded text, since the
  expansion is the C library's. The lemmas are proved once over the contract \<open>gdb_channel\<close>.
\<close>

subsection \<open>C library routines the code uses\<close>

definition isspace :: "u8 \<Rightarrow> bool" where
  "isspace c \<longleftrightarrow> c = 32 \<or> (9 \<le> c \<and> c \<le> 13)"

definition isdigit :: "u8 \<Rightarrow> bool" where
  "isdigit c \<longleftrightarrow> 48 \<le> c \<and> c \<le> 57"

definition isxdigit :: "u8 \<Rightarrow> bool" where
  "isxdigit c \<longleftrightarrow> isdigit c \<or> (97 \<le> c \<and> c \<le> 102) \<or> (65 \<le> c \<and> c \<le> 70)"

definition xdigit_val :: "u8 \<Rightarrow> nat" where
  "xdigit_val c =
     (if isdigit c then unat c - 48 else if 97 \<le> c then unat c - 87 else unat c - 55)"

definition digits_val :: "nat \<Rightarrow> u8 list \<Rightarrow> nat" where
  "digits_val base ds = foldl (\<lambda>v c. base * v + xdigit_val c) 0 ds"

text \<open>\<open>strtol(s, NULL, 16)\<close> with a 32-bit \<open>long\<close>: white space, a sign, an optional \<open>0x\<close>, digits.\<close>

definition strtol_hex :: "u8 list \<Rightarrow> int" where
  "strtol_hex s =
     (let s = dropWhile isspace (cstr s);
          neg = (s \<noteq> [] \<and> hd s = ch CHR ''-'');
          s = (if s \<noteq> [] \<and> (hd s = ch CHR ''-'' \<or> hd s = ch CHR ''+'') then tl s else s);
          s = (if length s \<ge> 3 \<and> s ! 0 = ch CHR ''0'' \<and> (s ! 1 = ch CHR ''x'' \<or> s ! 1 = ch CHR ''X'') \<and>
                  isxdigit (s ! 2) then drop 2 s else s);
          v = int (digits_val 16 (takeWhile isxdigit s));
          v = (if neg then - v else v)
      in max (- (2 ^ 31)) (min (2 ^ 31 - 1) v))"

definition hexdigits_upper :: "u8 list" where
  "hexdigits_upper = str ''0123456789ABCDEF''"

text \<open>\<open>snprintf(xmit_csum, 3, "%02X", csum)\<close>.\<close>

definition fmt_02X :: "u8 \<Rightarrow> u8 list" where
  "fmt_02X b = [hexdigits_upper ! unat (drop_bit 4 b), hexdigits_upper ! unat (b AND 0xF)]"

subsection \<open>Definitions\<close>

definition REMOTE_SOM :: u8 where "REMOTE_SOM = ch CHR ''!''"
definition REMOTE_EOM :: u8 where "REMOTE_EOM = ch CHR ''#''"

abbreviation DOLLAR :: u8 where "DOLLAR \<equiv> ch CHR ''$''"
abbreviation HASH :: u8 where "HASH \<equiv> ch CHR ''#''"
abbreviation ESC :: u8 where "ESC \<equiv> ch CHR ''}''"
abbreviation PLUS :: u8 where "PLUS \<equiv> ch CHR ''+''"
abbreviation MINUS :: u8 where "MINUS \<equiv> ch CHR ''-''"

type_synonym 'w remote_handler = "nat \<Rightarrow> u8 list \<Rightarrow> 'w \<Rightarrow> (u8 list \<times> 'w) option"

text \<open>
  The inner loop that collects a remote-control packet. Writes go through the buffer bounds: an index
  outside \<open>packet\<close> has no result.
\<close>

partial_function (option) gdb_remote_loop ::
  "'w gdb_io \<Rightarrow> 'w remote_handler \<Rightarrow> nat \<Rightarrow> u8 list \<Rightarrow> nat \<Rightarrow> 'w \<Rightarrow> (u8 list \<times> 'w) option" where
  "gdb_remote_loop io remotePacketProcess sz packet i w =
     do { (c, w) \<leftarrow> io_getchar io w;
          if c = REMOTE_SOM then gdb_remote_loop io remotePacketProcess sz packet 0 w
          else if c = REMOTE_EOM then
            (if i < length packet then remotePacketProcess i (packet[i := 0]) w else None)
          else if c = DOLLAR then Some (packet[0 := DOLLAR], w)
          else if i < sz then
            (if i < length packet
             then gdb_remote_loop io remotePacketProcess sz (packet[i := c]) (i + 1) w else None)
          else Some (packet, w) }"

text \<open>Waiting for the start of a packet: \<open>True\<close> when the end-of-transmission character 0x04 came
  instead.\<close>

partial_function (option) gdb_wait_start ::
  "'w gdb_io \<Rightarrow> 'w remote_handler \<Rightarrow> nat \<Rightarrow> u8 list \<Rightarrow> 'w \<Rightarrow> ((bool \<times> u8 list) \<times> 'w) option" where
  "gdb_wait_start io remotePacketProcess sz packet w =
     (if packet = [] then None else
      do { (c, w) \<leftarrow> io_getchar io w;
           let packet = packet[0 := c];
           if c = 0x04 then Some ((True, packet), w)
           else if c \<noteq> DOLLAR \<and> c \<noteq> REMOTE_SOM then gdb_wait_start io remotePacketProcess sz packet w
           else if c = REMOTE_SOM then
             do { (packet, w) \<leftarrow> gdb_remote_loop io remotePacketProcess sz packet 0 w;
                  if packet \<noteq> [] \<and> packet ! 0 = DOLLAR then Some ((False, packet), w)
                  else gdb_wait_start io remotePacketProcess sz packet w }
           else Some ((False, packet), w) })"

text \<open>Capture of the packet data: buffer, length and checksum.\<close>

partial_function (option) gdb_capture ::
  "'w gdb_io \<Rightarrow> nat \<Rightarrow> u8 list \<Rightarrow> nat \<Rightarrow> u8 \<Rightarrow> 'w \<Rightarrow> ((u8 list \<times> nat \<times> u8) \<times> 'w) option" where
  "gdb_capture io sz packet i csum w =
     do { (c, w) \<leftarrow> io_getchar io w;
          if c = HASH \<or> i = sz then Some ((packet, i, csum), w)
          else if c = DOLLAR then gdb_capture io sz packet 0 0 w
          else if \<not> i < length packet then None
          else if c = ESC then
            do { (c, w) \<leftarrow> io_getchar io w;
                 gdb_capture io sz (packet[i := c XOR 0x20]) (i + 1) (csum + (c + ESC)) w }
          else gdb_capture io sz (packet[i := c]) (i + 1) (csum + c) w }"

partial_function (option) gdb_getpacket ::
  "'w gdb_io \<Rightarrow> 'w remote_handler \<Rightarrow> nat \<Rightarrow> u8 list \<Rightarrow> 'w \<Rightarrow> ((nat \<times> u8 list) \<times> 'w) option" where
  "gdb_getpacket io remotePacketProcess sz packet w =
     do { ((eot, packet), w) \<leftarrow> gdb_wait_start io remotePacketProcess sz packet w;
          if eot then Some ((1, packet), w)
          else do {
            ((packet, i, csum), w) \<leftarrow> gdb_capture io sz packet 0 0 w;
            (r0, w) \<leftarrow> io_getchar io w;
            (r1, w) \<leftarrow> io_getchar io w;
            if uint csum = strtol_hex [r0, r1, 0]
            then do { w \<leftarrow> io_putchar io PLUS True w;
                      if i < length packet then Some ((i, packet[i := 0]), w) else None }
            else do { w \<leftarrow> io_putchar io MINUS True w;
                      gdb_getpacket io remotePacketProcess sz packet w } } }"

text \<open>Transmission: the data loop, one frame, and the repetitions until acknowledged.\<close>

fun gdb_put_data :: "'w gdb_io \<Rightarrow> u8 list \<Rightarrow> u8 \<Rightarrow> 'w \<Rightarrow> (u8 \<times> 'w) option" where
  "gdb_put_data io [] csum w = Some (csum, w)"
| "gdb_put_data io (c # cs) csum w =
     (if c = DOLLAR \<or> c = HASH \<or> c = ESC
      then do { w \<leftarrow> io_putchar io ESC False w;
                w \<leftarrow> io_putchar io (c XOR 0x20) False w;
                gdb_put_data io cs (csum + (ESC + (c XOR 0x20))) w }
      else do { w \<leftarrow> io_putchar io c False w;
                gdb_put_data io cs (csum + c) w })"

definition gdb_put_frame :: "'w gdb_io \<Rightarrow> u8 list \<Rightarrow> 'w \<Rightarrow> 'w option" where
  "gdb_put_frame io data w =
     do { w \<leftarrow> io_putchar io DOLLAR False w;
          (csum, w) \<leftarrow> gdb_put_data io data 0 w;
          w \<leftarrow> io_putchar io HASH False w;
          w \<leftarrow> io_putchar io (fmt_02X csum ! 0) False w;
          io_putchar io (fmt_02X csum ! 1) True w }"

fun gdb_put_tries :: "'w gdb_io \<Rightarrow> u8 list \<Rightarrow> nat \<Rightarrow> 'w \<Rightarrow> 'w option" where
  "gdb_put_tries io data tries_left w =
     do { w \<leftarrow> gdb_put_frame io data w;
          (a, w) \<leftarrow> io_getchar_to io 2000 w;
          if a \<noteq> PLUS \<and> tries_left > 0 then gdb_put_tries io data (tries_left - 1) w else Some w }"

declare gdb_put_tries.simps [simp del]

definition gdb_putpacket :: "'w gdb_io \<Rightarrow> u8 list \<Rightarrow> nat \<Rightarrow> 'w \<Rightarrow> 'w option" where
  "gdb_putpacket io packet sz w =
     (if sz \<le> length packet then gdb_put_tries io (take sz packet) 3 w else None)"

text \<open>The macro \<open>gdb_putpacketz\<close>.\<close>

definition gdb_putpacketz :: "'w gdb_io \<Rightarrow> u8 list \<Rightarrow> 'w \<Rightarrow> 'w option" where
  "gdb_putpacketz io packet w = gdb_putpacket io packet (length packet) w"

text \<open>\<open>vsnprintf(buf, n, ...)\<close> of a text of any length: what the \<open>n\<close>-byte buffer holds.\<close>

definition vsnprintf_buf :: "nat \<Rightarrow> u8 list \<Rightarrow> u8 list" where
  "vsnprintf_buf n txt = (if n = 0 then [] else
     take (n - 1) txt @ 0 # replicate (n - 1 - length txt) 0)"

definition gdb_putpacket_f :: "'w gdb_io \<Rightarrow> 'w heap_ops \<Rightarrow> u8 list \<Rightarrow> 'w \<Rightarrow> 'w option" where
  "gdb_putpacket_f io hp txt w =
     (case mm_alloc hp 4096 w of
        (None, w) \<Rightarrow> None
      | (Some buf, w) \<Rightarrow>
          do { w \<leftarrow> (if length txt > 0
                     then gdb_putpacket io (vsnprintf_buf 4096 txt) (length txt) w else Some w);
               Some (mm_free hp (Some buf) w) })"

definition gdb_out :: "'w gdb_io \<Rightarrow> 'w heap_ops \<Rightarrow> u8 list \<Rightarrow> 'w \<Rightarrow> 'w option" where
  "gdb_out io hp buf w =
     (let i = length buf * 2 + 1 in
      if i \<ge> 4096 then Some w
      else case mm_alloc hp (i + 1) w of
             (None, w) \<Rightarrow> None
           | (Some hexdata, w) \<Rightarrow>
               do { w \<leftarrow> gdb_putpacket io (ch CHR ''O'' # hexify buf) i w;
                    Some (mm_free hp (Some hexdata) w) })"

definition gdb_voutf :: "'w gdb_io \<Rightarrow> 'w heap_ops \<Rightarrow> u8 list \<Rightarrow> 'w \<Rightarrow> 'w option" where
  "gdb_voutf io hp txt w =
     (case mm_alloc hp 2048 w of
        (None, w) \<Rightarrow> None
      | (Some buf, w) \<Rightarrow>
          do { w \<leftarrow> (if length txt > 0 then gdb_out io hp (cstr (vsnprintf_buf 2048 txt)) w else Some w);
               Some (mm_free hp (Some buf) w) })"

definition gdb_outf :: "'w gdb_io \<Rightarrow> 'w heap_ops \<Rightarrow> u8 list \<Rightarrow> 'w \<Rightarrow> 'w option" where
  "gdb_outf io hp txt w = gdb_voutf io hp txt w"

subsection \<open>The framing\<close>

text \<open>The data of a frame as it appears on the wire, and the whole frame.\<close>

definition gdb_encode :: "u8 list \<Rightarrow> u8 list" where
  "gdb_encode p =
     concat (map (\<lambda>c. if c = DOLLAR \<or> c = HASH \<or> c = ESC then [ESC, c XOR 0x20] else [c]) p)"

definition gdb_frame :: "u8 list \<Rightarrow> u8 list" where
  "gdb_frame p = DOLLAR # gdb_encode p @ HASH # fmt_02X (sum_list (gdb_encode p))"

lemma gdb_encode_simps [simp]:
  "gdb_encode [] = []"
  "gdb_encode (c # p) =
     (if c = DOLLAR \<or> c = HASH \<or> c = ESC then ESC # (c XOR 0x20) # gdb_encode p else c # gdb_encode p)"
  by (simp_all add: gdb_encode_def)

lemma hexdigits_upper_props:
  assumes "n < 16"
  shows "isxdigit (hexdigits_upper ! n)" "xdigit_val (hexdigits_upper ! n) = n" "\<not> isspace (hexdigits_upper ! n)"
    "hexdigits_upper ! n \<noteq> 0" "hexdigits_upper ! n \<noteq> MINUS" "hexdigits_upper ! n \<noteq> PLUS"
  using upto16 [OF assms]
  by (auto simp: hexdigits_upper_def isxdigit_def isdigit_def xdigit_val_def isspace_def)

lemma strtol_fmt_02X: "strtol_hex [fmt_02X b ! 0, fmt_02X b ! 1, 0] = uint b"
proof -
  let ?h = "hexdigits_upper ! (unat b div 16)" and ?l = "hexdigits_upper ! (unat b mod 16)"
  have b: "unat b div 16 < 16" "unat b mod 16 < 16" using unat_u8_less [of b] by auto
  note h = hexdigits_upper_props [OF b(1)] and l = hexdigits_upper_props [OF b(2)]
  have "digits_val 16 [?h, ?l] = 16 * (unat b div 16) + unat b mod 16"
    by (simp add: digits_val_def h l)
  then have "digits_val 16 [?h, ?l] = unat b" by simp
  moreover have "int (unat b) \<le> 255" using unat_u8_less [of b] by linarith
  moreover have "- 2147483648 \<le> uint b" by (rule order_trans [of _ 0]) simp_all
  ultimately show ?thesis
    using h l by (simp add: strtol_hex_def fmt_02X_def unat_u8_nibbles Let_def max_def)
qed

lemma xor_20_20 [simp]: "(c XOR 0x20) XOR 0x20 = (c :: u8)"
  by (simp add: xor.assoc)

context gdb_channel
begin

lemma put_data:
  "ok w \<Longrightarrow> \<exists>w'. gdb_put_data io p csum w = Some (csum + sum_list (gdb_encode p), w') \<and> ok w' \<and>
     rx w' = rx w \<and> tx w' = tx w @ gdb_encode p"
proof (induction p arbitrary: csum w)
  case Nil
  then show ?case by simp
next
  case (Cons c p)
  show ?case
  proof (cases "c = DOLLAR \<or> c = HASH \<or> c = ESC")
    case True
    from putchar_next [OF Cons.prems, of ESC False] obtain w1 where
      1: "io_putchar io ESC False w = Some w1" "ok w1" "rx w1 = rx w" "tx w1 = tx w @ [ESC]" by auto
    from putchar_next [OF 1(2), of "c XOR 0x20" False] obtain w2 where
      2: "io_putchar io (c XOR 0x20) False w1 = Some w2" "ok w2" "rx w2 = rx w1" "tx w2 = tx w1 @ [c XOR 0x20]"
      by auto
    from Cons.IH [OF 2(2), of "csum + (ESC + (c XOR 0x20))"] True 1 2 show ?thesis
      by (auto simp: add.assoc)
  next
    case False
    from putchar_next [OF Cons.prems, of c False] obtain w1 where
      1: "io_putchar io c False w = Some w1" "ok w1" "rx w1 = rx w" "tx w1 = tx w @ [c]" by auto
    from Cons.IH [OF 1(2), of "csum + c"] False 1 show ?thesis
      by (auto simp: add.assoc)
  qed
qed

lemma put_frame:
  assumes "ok w"
  shows "\<exists>w'. gdb_put_frame io p w = Some w' \<and> ok w' \<and> rx w' = rx w \<and> tx w' = tx w @ gdb_frame p \<and>
    sent w' = tx w'"
proof -
  let ?s = "sum_list (gdb_encode p)"
  from putchar_next [OF assms, of DOLLAR False] obtain w1 where
    1: "io_putchar io DOLLAR False w = Some w1" "ok w1" "rx w1 = rx w" "tx w1 = tx w @ [DOLLAR]" by auto
  from put_data [OF 1(2), of p 0] obtain w2 where
    2: "gdb_put_data io p 0 w1 = Some (?s, w2)" "ok w2" "rx w2 = rx w1" "tx w2 = tx w1 @ gdb_encode p" by auto
  from putchar_next [OF 2(2), of HASH False] obtain w3 where
    3: "io_putchar io HASH False w2 = Some w3" "ok w3" "rx w3 = rx w2" "tx w3 = tx w2 @ [HASH]" by auto
  from putchar_next [OF 3(2), of "fmt_02X ?s ! 0" False] obtain w4 where
    4: "io_putchar io (fmt_02X ?s ! 0) False w3 = Some w4" "ok w4" "rx w4 = rx w3" "tx w4 = tx w3 @ [fmt_02X ?s ! 0]"
    by auto
  from putchar_next [OF 4(2), of "fmt_02X ?s ! 1" True] 1 2 3 4 show ?thesis
    by (auto simp: gdb_put_frame_def gdb_frame_def fmt_02X_def)
qed

lemma put_tries:
  assumes "ok w"
  shows "\<exists>k w'. gdb_put_tries io p n w = Some w' \<and> ok w' \<and> 1 \<le> k \<and> k \<le> Suc n \<and>
    tx w' = tx w @ concat (replicate k (gdb_frame p)) \<and> sent w' = tx w' \<and> (\<exists>as. rx w = as @ rx w' \<and> length as \<le> k) \<and>
    (k \<le> n \<longrightarrow> (\<exists>as. rx w = as @ PLUS # rx w'))"
  using assms
proof (induction n arbitrary: w)
  case 0
  from put_frame [OF 0, of p] obtain w1 where
    1: "gdb_put_frame io p w = Some w1" "ok w1" "rx w1 = rx w" "tx w1 = tx w @ gdb_frame p" "sent w1 = tx w1" by auto
  from getchar_to_next [OF 1(2), of 2000] obtain c w2 where
    2: "io_getchar_to io 2000 w1 = Some (c, w2)" "ok w2" "tx w2 = tx w1" "sent w2 = sent w1"
      "rx w1 = c # rx w2 \<or> c = -1 \<and> rx w2 = rx w1" by auto
  from 2(5) 1(3) have "\<exists>as. rx w = as @ rx w2 \<and> length as \<le> 1"
    by (elim disjE) (force intro: exI [of _ "[c]"])+
  with 1 2 show ?case
    by (intro exI [of _ 1] exI [of _ w2]) (simp add: gdb_put_tries.simps)
next
  case (Suc n)
  from put_frame [OF Suc.prems, of p] obtain w1 where
    1: "gdb_put_frame io p w = Some w1" "ok w1" "rx w1 = rx w" "tx w1 = tx w @ gdb_frame p" "sent w1 = tx w1" by auto
  from getchar_to_next [OF 1(2), of 2000] obtain c w2 where
    2: "io_getchar_to io 2000 w1 = Some (c, w2)" "ok w2" "tx w2 = tx w1" "sent w2 = sent w1"
      "rx w1 = c # rx w2 \<or> c = -1 \<and> rx w2 = rx w1" by auto
  from 2(5) 1(3) have "\<exists>as. rx w = as @ rx w2 \<and> length as \<le> 1"
    by (elim disjE) (force intro: exI [of _ "[c]"])+
  then obtain as where as: "rx w = as @ rx w2" "length as \<le> 1" by blast
  show ?case
  proof (cases "c = PLUS")
    case True
    with 2(5) 1(3) have "rx w = [] @ PLUS # rx w2" by auto
    with True 1 2 as show ?thesis
      by (intro exI [of _ 1] exI [of _ w2]) (auto simp: gdb_put_tries.simps intro: exI [of _ "[]"])
  next
    case False
    from Suc.IH [OF 2(2)] obtain k w' where
      3: "gdb_put_tries io p n w2 = Some w'" "ok w'" "1 \<le> k" "k \<le> Suc n"
        "tx w' = tx w2 @ concat (replicate k (gdb_frame p))" "sent w' = tx w'"
        "\<exists>bs. rx w2 = bs @ rx w' \<and> length bs \<le> k"
        "k \<le> n \<longrightarrow> (\<exists>as. rx w2 = as @ PLUS # rx w')" by blast
    then obtain bs where bs: "rx w2 = bs @ rx w'" "length bs \<le> k" by blast
    have "\<exists>cs. rx w = cs @ rx w' \<and> length cs \<le> Suc k"
      using as bs by (intro exI [of _ "as @ bs"]) auto
    moreover have "Suc k \<le> Suc n \<longrightarrow> (\<exists>cs. rx w = cs @ PLUS # rx w')"
      using 3(8) as by (metis Suc_le_mono append_assoc)
    ultimately show ?thesis
      using False 1 2 3 by (intro exI [of _ "Suc k"] exI [of _ w']) (simp add: gdb_put_tries.simps)
  qed
qed

lemma capture_encoded:
  assumes "ok w" "rx w = gdb_encode p @ HASH # rest" "i + length p \<le> sz" "sz < length pkt"
  shows "\<exists>w'. gdb_capture io sz pkt i csum w =
      Some ((splice_at pkt i p, i + length p, csum + sum_list (gdb_encode p)), w') \<and>
    ok w' \<and> rx w' = rest \<and> tx w' = tx w \<and> sent w' = sent w"
  using assms
proof (induction p arbitrary: w i pkt csum)
  case Nil
  from getchar_next [of w HASH rest] Nil show ?case
    by (subst gdb_capture.simps) auto
next
  case (Cons c p)
  show ?case
  proof (cases "c = DOLLAR \<or> c = HASH \<or> c = ESC")
    case True
    then have e: "gdb_encode (c # p) = ESC # (c XOR 0x20) # gdb_encode p" by simp
    from Cons.prems(2) have "rx w = ESC # (c XOR 0x20) # gdb_encode p @ HASH # rest"
      unfolding e by simp
    from getchar_next [OF Cons.prems(1) this] obtain w1 where
      1: "io_getchar io w = Some (ESC, w1)" "ok w1" "rx w1 = (c XOR 0x20) # gdb_encode p @ HASH # rest"
        "tx w1 = tx w" "sent w1 = sent w" by blast
    from getchar_next [OF 1(2,3)] obtain w2 where
      2: "io_getchar io w1 = Some (c XOR 0x20, w2)" "ok w2" "rx w2 = gdb_encode p @ HASH # rest"
        "tx w2 = tx w1" "sent w2 = sent w1" by blast
    from Cons.IH [OF 2(2,3), of "Suc i" "pkt[i := c]" "csum + ((c XOR 0x20) + ESC)"] Cons.prems(3,4)
    obtain w3 where 3: "gdb_capture io sz (pkt[i := c]) (Suc i) (csum + ((c XOR 0x20) + ESC)) w2 =
        Some ((splice_at (pkt[i := c]) (Suc i) p, Suc i + length p,
          csum + ((c XOR 0x20) + ESC) + sum_list (gdb_encode p)), w3)"
      "ok w3" "rx w3 = rest" "tx w3 = tx w2" "sent w3 = sent w2" by auto
    have "csum + ((c XOR 0x20) + ESC) + sum_list (gdb_encode p) = csum + sum_list (gdb_encode (c # p))"
      unfolding e by (simp add: ac_simps)
    with 1 2 3 Cons.prems(3,4) show ?thesis
      by (subst gdb_capture.simps) (simp add: splice_at_Cons del: gdb_encode_simps)
  next
    case False
    with Cons.prems have "rx w = c # gdb_encode p @ HASH # rest" by simp
    from getchar_next [OF Cons.prems(1) this] obtain w1 where
      1: "io_getchar io w = Some (c, w1)" "ok w1" "rx w1 = gdb_encode p @ HASH # rest"
        "tx w1 = tx w" "sent w1 = sent w" by blast
    from Cons.IH [OF 1(2,3), of "Suc i" "pkt[i := c]" "csum + c"] Cons.prems False 1
    show ?thesis by (subst gdb_capture.simps) (auto simp: splice_at_Cons ac_simps)
  qed
qed

lemma wait_start_junk:
  assumes "ok w" "rx w = junk @ DOLLAR # rest" "set junk \<inter> {0x04, DOLLAR, REMOTE_SOM} = {}" "pkt \<noteq> []"
  shows "\<exists>w'. gdb_wait_start io rp sz pkt w = Some ((False, pkt[0 := DOLLAR]), w') \<and>
    ok w' \<and> rx w' = rest \<and> tx w' = tx w \<and> sent w' = sent w"
  using assms
proof (induction junk arbitrary: w pkt)
  case Nil
  from getchar_next [of w DOLLAR rest] Nil show ?case
    by (subst gdb_wait_start.simps) (auto simp: REMOTE_SOM_def)
next
  case (Cons c junk)
  from getchar_next [OF Cons.prems(1), of c "junk @ DOLLAR # rest"] Cons.prems obtain w1 where
    1: "io_getchar io w = Some (c, w1)" "ok w1" "rx w1 = junk @ DOLLAR # rest" "tx w1 = tx w" "sent w1 = sent w"
    by auto
  from Cons.IH [OF 1(2,3), of "pkt[0 := c]"] Cons.prems 1 show ?case
    by (subst gdb_wait_start.simps) auto
qed

text \<open>A correct frame is received, acknowledged and returned.\<close>

lemma getpacket_frame:
  assumes "ok w" "rx w = junk @ gdb_frame p @ rest" "set junk \<inter> {0x04, DOLLAR, REMOTE_SOM} = {}"
    "length p \<le> sz" "sz < length pkt"
  shows "\<exists>pkt' w'. gdb_getpacket io rp sz pkt w = Some ((length p, pkt'), w') \<and>
    take (length p) pkt' = p \<and> pkt' ! length p = 0 \<and> length pkt' = length pkt \<and>
    ok w' \<and> rx w' = rest \<and> tx w' = tx w @ [PLUS] \<and> sent w' = tx w'"
proof -
  let ?s = "sum_list (gdb_encode p)" and ?pkt = "splice_at (pkt[0 := DOLLAR]) 0 p"
  have "rx w = junk @ DOLLAR # gdb_encode p @ HASH # fmt_02X ?s @ rest"
    using assms(2) by (simp add: gdb_frame_def)
  from wait_start_junk [OF assms(1) this assms(3), of pkt rp sz] assms(5) obtain w1 where
    1: "gdb_wait_start io rp sz pkt w = Some ((False, pkt[0 := DOLLAR]), w1)" "ok w1"
      "rx w1 = gdb_encode p @ HASH # fmt_02X ?s @ rest" "tx w1 = tx w" "sent w1 = sent w" by fastforce
  from capture_encoded [OF 1(2,3), of 0 sz "pkt[0 := DOLLAR]" 0] assms(4,5) obtain w2 where
    2: "gdb_capture io sz (pkt[0 := DOLLAR]) 0 0 w1 = Some ((?pkt, length p, ?s), w2)" "ok w2"
      "rx w2 = fmt_02X ?s ! 0 # fmt_02X ?s ! 1 # rest" "tx w2 = tx w1" "sent w2 = sent w1"
    by (auto simp: fmt_02X_def)
  from getchar_next [OF 2(2,3)] obtain w3 where
    3: "io_getchar io w2 = Some (fmt_02X ?s ! 0, w3)" "ok w3" "rx w3 = fmt_02X ?s ! 1 # rest" "tx w3 = tx w2" by blast
  from getchar_next [OF 3(2,3)] obtain w4 where
    4: "io_getchar io w3 = Some (fmt_02X ?s ! 1, w4)" "ok w4" "rx w4 = rest" "tx w4 = tx w3" by blast
  from putchar_next [OF 4(2), of PLUS True] obtain w5 where
    5: "io_putchar io PLUS True w4 = Some w5" "ok w5" "rx w5 = rest" "tx w5 = tx w @ [PLUS]" "sent w5 = tx w5"
    using 1 2 3 4 by auto
  have l: "length ?pkt = length pkt" using assms(4,5) by simp
  have "gdb_getpacket io rp sz pkt w = Some ((length p, ?pkt[length p := 0]), w5)"
    using 1(1) 2(1) 3(1) 4(1) 5(1) l assms(4,5)
    by (subst gdb_getpacket.simps) (simp add: strtol_fmt_02X [simplified])
  moreover have "take (length p) (?pkt[length p := 0]) = p"
    using assms(4,5) by (simp add: splice_at_def)
  ultimately show ?thesis using 5 l assms(4,5) by auto
qed

text \<open>A frame whose checksum does not match is refused and reception starts again after it.\<close>

lemma getpacket_bad_frame:
  assumes "ok w" "rx w = DOLLAR # gdb_encode p @ HASH # a # b # rest" "length p \<le> sz" "sz < length pkt"
    "uint (sum_list (gdb_encode p)) \<noteq> strtol_hex [a, b, 0]"
  shows "\<exists>pkt' w'. gdb_getpacket io rp sz pkt w = gdb_getpacket io rp sz pkt' w' \<and> length pkt' = length pkt \<and>
    ok w' \<and> rx w' = rest \<and> tx w' = tx w @ [MINUS]"
proof -
  let ?s = "sum_list (gdb_encode p)" and ?pkt = "splice_at (pkt[0 := DOLLAR]) 0 p"
  from wait_start_junk [of w "[]", OF assms(1), of _ pkt rp sz] assms(2,4) obtain w1 where
    1: "gdb_wait_start io rp sz pkt w = Some ((False, pkt[0 := DOLLAR]), w1)" "ok w1"
      "rx w1 = gdb_encode p @ HASH # a # b # rest" "tx w1 = tx w" by fastforce
  from capture_encoded [OF 1(2,3), of 0 sz "pkt[0 := DOLLAR]" 0] assms(3,4) obtain w2 where
    2: "gdb_capture io sz (pkt[0 := DOLLAR]) 0 0 w1 = Some ((?pkt, length p, ?s), w2)" "ok w2"
      "rx w2 = a # b # rest" "tx w2 = tx w1" by auto
  from getchar_next [OF 2(2,3)] obtain w3 where
    3: "io_getchar io w2 = Some (a, w3)" "ok w3" "rx w3 = b # rest" "tx w3 = tx w2" by blast
  from getchar_next [OF 3(2,3)] obtain w4 where
    4: "io_getchar io w3 = Some (b, w4)" "ok w4" "rx w4 = rest" "tx w4 = tx w3" by blast
  from putchar_next [OF 4(2), of MINUS True] obtain w5 where
    5: "io_putchar io MINUS True w4 = Some w5" "ok w5" "rx w5 = rest" "tx w5 = tx w @ [MINUS]"
    using 1 2 3 4 by auto
  have "gdb_getpacket io rp sz pkt w = gdb_getpacket io rp sz ?pkt w5"
    using 1(1) 2(1) 3(1) 4(1) 5(1) assms(5) by (subst gdb_getpacket.simps) simp
  moreover have "length ?pkt = length pkt" using assms(3,4) by simp
  ultimately show ?thesis using 5 by blast
qed

end

definition bad_frame :: "nat \<Rightarrow> u8 list \<Rightarrow> bool" where
  "bad_frame sz f \<longleftrightarrow> (\<exists>p a b. f = DOLLAR # gdb_encode p @ [HASH, a, b] \<and> length p \<le> sz \<and>
     uint (sum_list (gdb_encode p)) \<noteq> strtol_hex [a, b, 0])"

context gdb_channel
begin

lemma getpacket_retransmission:
  assumes "ok w" "rx w = concat bads @ gdb_frame p @ rest" "\<forall>f \<in> set bads. bad_frame sz f"
    "length p \<le> sz" "sz < length pkt"
  shows "\<exists>pkt' w'. gdb_getpacket io rp sz pkt w = Some ((length p, pkt'), w') \<and>
    take (length p) pkt' = p \<and> pkt' ! length p = 0 \<and> length pkt' = length pkt \<and>
    ok w' \<and> rx w' = rest \<and> tx w' = tx w @ replicate (length bads) MINUS @ [PLUS] \<and> sent w' = tx w'"
  using assms
proof (induction bads arbitrary: w pkt)
  case Nil
  with getpacket_frame [of w "[]" p rest sz pkt rp] show ?case by simp
next
  case (Cons f bads)
  from Cons.prems(3) obtain q a b where f: "f = DOLLAR # gdb_encode q @ [HASH, a, b]" "length q \<le> sz"
      "uint (sum_list (gdb_encode q)) \<noteq> strtol_hex [a, b, 0]"
    by (auto simp: bad_frame_def)
  have "rx w = DOLLAR # gdb_encode q @ HASH # a # b # (concat bads @ gdb_frame p @ rest)"
    using Cons.prems(2) f(1) by simp
  from getpacket_bad_frame [OF Cons.prems(1) this f(2) Cons.prems(5) f(3), of rp] obtain pkt1 w1 where
    1: "gdb_getpacket io rp sz pkt w = gdb_getpacket io rp sz pkt1 w1" "length pkt1 = length pkt"
      "ok w1" "rx w1 = concat bads @ gdb_frame p @ rest" "tx w1 = tx w @ [MINUS]" by blast
  from Cons.IH [OF 1(3,4), of pkt1] Cons.prems 1 show ?case by simp
qed

end

subsection \<open>Bounds\<close>

text \<open>The three receive loops keep the length of the buffer and stay inside it.\<close>

lemma gdb_capture_bounds:
  assumes "gdb_capture io sz pkt i csum w = Some ((pkt', i', csum'), w')" "i \<le> sz"
  shows "i' \<le> sz \<and> length pkt' = length pkt"
proof -
  let ?P = "\<lambda>io sz pkt i csum w r. i \<le> sz \<longrightarrow> fst (snd (fst r)) \<le> sz \<and> length (fst (fst r)) = length pkt"
  have "?P io sz pkt i csum w ((pkt', i', csum'), w')"
  proof (rule gdb_capture.raw_induct [where P = ?P, OF _ assms(1)])
    fix f io sz pkt i csum w r
    assume IH: "\<And>io sz pkt i csum w r. f io sz pkt i csum w = Some r \<Longrightarrow> ?P io sz pkt i csum w r"
      and eq: "do { (c, w) \<leftarrow> io_getchar io w;
          if c = HASH \<or> i = sz then Some ((pkt, i, csum), w)
          else if c = DOLLAR then f io sz pkt 0 0 w
          else if \<not> i < length pkt then None
          else if c = ESC then
            do { (c, w) \<leftarrow> io_getchar io w; f io sz (pkt[i := c XOR 0x20]) (i + 1) (csum + (c + ESC)) w }
          else f io sz (pkt[i := c]) (i + 1) (csum + c) w } = Some r"
    show "?P io sz pkt i csum w r"
      using eq by (auto simp: bind_eq_Some_conv split: if_splits dest!: IH)
  qed
  with assms(2) show ?thesis by simp
qed

definition keeps_length :: "'w remote_handler \<Rightarrow> bool" where
  "keeps_length rp \<longleftrightarrow> (\<forall>i pkt w pkt' w'. rp i pkt w = Some (pkt', w') \<longrightarrow> length pkt' = length pkt)"

lemma keeps_lengthD: "keeps_length rp \<Longrightarrow> rp i pkt w = Some (pkt', w') \<Longrightarrow> length pkt' = length pkt"
  unfolding keeps_length_def by blast

lemma gdb_remote_loop_length:
  assumes "gdb_remote_loop io rp sz pkt i w = Some r" "keeps_length rp"
  shows "length (fst r) = length pkt"
proof -
  let ?P = "\<lambda>io rp sz pkt i w r. keeps_length rp \<longrightarrow> length (fst r) = length pkt"
  have "?P io rp sz pkt i w r"
  proof (rule gdb_remote_loop.raw_induct [where P = ?P, OF _ assms(1)])
    fix f io rp sz pkt i w r
    assume IH: "\<And>io rp sz pkt i w r. f io rp sz pkt i w = Some r \<Longrightarrow> ?P io rp sz pkt i w r"
      and eq: "do { (c, w) \<leftarrow> io_getchar io w;
          if c = REMOTE_SOM then f io rp sz pkt 0 w
          else if c = REMOTE_EOM then (if i < length pkt then rp i (pkt[i := 0]) w else None)
          else if c = DOLLAR then Some (pkt[0 := DOLLAR], w)
          else if i < sz then (if i < length pkt then f io rp sz (pkt[i := c]) (i + 1) w else None)
          else Some (pkt, w) } = Some r"
    show "?P io rp sz pkt i w r"
      using eq by (cases r) (auto simp: bind_eq_Some_conv split: if_splits dest!: IH dest: keeps_lengthD)
  qed
  with assms(2) show ?thesis by simp
qed

lemma gdb_wait_start_length:
  assumes "gdb_wait_start io rp sz pkt w = Some r" "keeps_length rp"
  shows "length (snd (fst r)) = length pkt \<and> (fst (fst r) \<longrightarrow> snd (fst r) ! 0 = 0x04)"
proof -
  let ?P = "\<lambda>io rp sz pkt w r. keeps_length rp \<longrightarrow>
    length (snd (fst r)) = length pkt \<and> (fst (fst r) \<longrightarrow> snd (fst r) ! 0 = 0x04)"
  have "?P io rp sz pkt w r"
  proof (rule gdb_wait_start.raw_induct [where P = ?P, OF _ assms(1)])
    fix f io rp sz pkt w r
    assume IH: "\<And>io rp sz pkt w r. f io rp sz pkt w = Some r \<Longrightarrow> ?P io rp sz pkt w r"
      and eq: "(if pkt = [] then None else
        do { (c, w) \<leftarrow> io_getchar io w;
             let packet = pkt[0 := c];
             if c = 0x04 then Some ((True, packet), w)
             else if c \<noteq> DOLLAR \<and> c \<noteq> REMOTE_SOM then f io rp sz packet w
             else if c = REMOTE_SOM then
               do { (packet, w) \<leftarrow> gdb_remote_loop io rp sz packet 0 w;
                    if packet \<noteq> [] \<and> packet ! 0 = DOLLAR then Some ((False, packet), w)
                    else f io rp sz packet w }
             else Some ((False, packet), w) }) = Some r"
    show "?P io rp sz pkt w r"
      using eq by (auto simp: bind_eq_Some_conv Let_def split: if_splits
          dest!: IH gdb_remote_loop_length)
  qed
  with assms(2) show ?thesis by simp
qed

lemma gdb_getpacket_length:
  assumes "gdb_getpacket io rp sz pkt w = Some r" "keeps_length rp" "sz < length pkt"
  shows "length (snd (fst r)) = length pkt \<and>
    (fst (fst r) \<le> sz \<and> snd (fst r) ! fst (fst r) = 0 \<or> fst (fst r) = 1 \<and> snd (fst r) ! 0 = 0x04)"
proof -
  let ?P = "\<lambda>io rp sz pkt w r. keeps_length rp \<and> sz < length pkt \<longrightarrow> length (snd (fst r)) = length pkt \<and>
    (fst (fst r) \<le> sz \<and> snd (fst r) ! fst (fst r) = 0 \<or> fst (fst r) = 1 \<and> snd (fst r) ! 0 = 0x04)"
  have "?P io rp sz pkt w r"
  proof (rule gdb_getpacket.raw_induct [where P = ?P, OF _ assms(1)], intro impI)
    fix f io rp sz pkt w r
    assume IH: "\<And>io rp sz pkt w r. f io rp sz pkt w = Some r \<Longrightarrow> ?P io rp sz pkt w r"
      and eq: "do { ((eot, packet), w) \<leftarrow> gdb_wait_start io rp sz pkt w;
          if eot then Some ((1, packet), w)
          else do {
            ((packet, i, csum), w) \<leftarrow> gdb_capture io sz packet 0 0 w;
            (r0, w) \<leftarrow> io_getchar io w;
            (r1, w) \<leftarrow> io_getchar io w;
            if uint csum = strtol_hex [r0, r1, 0]
            then do { w \<leftarrow> io_putchar io PLUS True w;
                      if i < length packet then Some ((i, packet[i := 0]), w) else None }
            else do { w \<leftarrow> io_putchar io MINUS True w; f io rp sz packet w } } } = Some r"
      and pre: "keeps_length rp \<and> sz < length pkt"
    from eq obtain eot p1 w1 where 1: "gdb_wait_start io rp sz pkt w = Some ((eot, p1), w1)"
      by (auto simp: bind_eq_Some_conv)
    from gdb_wait_start_length [OF 1] pre have p1: "length p1 = length pkt" "eot \<longrightarrow> p1 ! 0 = 0x04" by auto
    show "length (snd (fst r)) = length pkt \<and>
      (fst (fst r) \<le> sz \<and> snd (fst r) ! fst (fst r) = 0 \<or> fst (fst r) = 1 \<and> snd (fst r) ! 0 = 0x04)"
    proof (cases eot)
      case True
      with eq 1 p1 show ?thesis by auto
    next
      case False
      with eq 1 obtain p2 i csum w2 where 2: "gdb_capture io sz p1 0 0 w1 = Some ((p2, i, csum), w2)"
        by (auto simp: bind_eq_Some_conv)
      from gdb_capture_bounds [OF 2] p1 have p2: "i \<le> sz" "length p2 = length pkt" by auto
      from eq 1 2 False show ?thesis
        using p2 pre by (auto simp: bind_eq_Some_conv split: if_splits dest!: IH)
    qed
  qed
  with assms(2,3) show ?thesis by simp
qed

subsection \<open>Properties\<close>

text \<open>
  C1. Round trip: the bytes \<open>gdb_putpacket\<close> puts on the wire for a packet \<open>p\<close> are, for a
  receiver with room for it, received as \<open>p\<close>: \<open>gdb_getpacket\<close> skips what precedes the frame,
  returns the length of \<open>p\<close> with \<open>p\<close> and a terminating NUL in the buffer, consumes the frame
  and nothing else, and has sent one acknowledgement. Corrupted copies received before it
  (wrong checksum) are each answered with a negative acknowledgement.
\<close>

theorem gdb_getpacket_roundtrip:
  assumes "gdb_channel io ok rx tx sent" and "ok w"
    and "rx w = concat bads @ gdb_frame p @ rest" and "\<forall>f \<in> set bads. bad_frame sz f"
    and "length p \<le> sz" and "sz < length pkt"
  shows "\<exists>pkt' w'. gdb_getpacket io rp sz pkt w = Some ((length p, pkt'), w') \<and>
    take (length p) pkt' = p \<and> pkt' ! length p = 0 \<and> length pkt' = length pkt \<and>
    rx w' = rest \<and> tx w' = tx w @ replicate (length bads) MINUS @ [PLUS] \<and> sent w' = tx w'"
  using gdb_channel.getpacket_retransmission [OF assms, of rp] by blast

abbreviation demo_if :: "u8 list \<Rightarrow> fifo gdb_if" where
  "demo_if bytes \<equiv> gdb_if_init_state ([bytes], [], []) ([], [], [])"

lemma demo_if_channel:
  "gdb_channel (gdb_if_ops fifo_ops) gdb_if_ok (gdb_if_rx fifo_future) (gdb_if_tx fifo_delivered)
     (gdb_if_sent fifo_delivered)"
  by (rule fifo.is_channel)

lemma demo_if_views [simp]:
  "gdb_if_ok (demo_if bs)" "gdb_if_rx fifo_future (demo_if bs) = bs" "gdb_if_tx fifo_delivered (demo_if bs) = []"
  by (simp_all add: gdb_if_views gdb_if_init_state_def fifo_future_def fifo_delivered_def)

lemma demo_frames:
  "gdb_frame (str ''g'') = str ''$g#67''" "gdb_frame (str ''a#b'') = str ''$a}'' @ 3 # str ''b#43''"
  "bad_frame 3 (str ''$x#00'')"
proof -
  show "gdb_frame (str ''g'') = str ''$g#67''" "gdb_frame (str ''a#b'') = str ''$a}'' @ 3 # str ''b#43''"
    by (simp_all add: gdb_frame_def fmt_02X_def hexdigits_upper_def)
  have "strtol_hex [48, 48, 0] = 0"
    by (simp add: strtol_hex_def isspace_def isxdigit_def isdigit_def digits_val_def xdigit_val_def)
  then show "bad_frame 3 (str ''$x#00'')"
    unfolding bad_frame_def by (intro exI [of _ "str ''x''"] exI [of _ 48]) simp
qed

theorem gdb_getpacket_roundtrip_witness:
  "\<exists>pkt' w'. gdb_getpacket (gdb_if_ops fifo_ops) (\<lambda>i p w. None) 3 [0, 0, 0, 0]
       (demo_if (str ''$x#00'' @ str ''$a}'' @ 3 # str ''b#43'')) = Some ((3, pkt'), w') \<and>
     take 3 pkt' = str ''a#b'' \<and> gdb_if_tx fifo_delivered w' = str ''-+''"
  using gdb_getpacket_roundtrip [OF demo_if_channel, of "demo_if (str ''$x#00'' @ gdb_frame (str ''a#b''))"
      "[str ''$x#00'']" "str ''a#b''" "[]" 3 "[0, 0, 0, 0]" "\<lambda>i p w. None"]
  unfolding demo_frames(2) using demo_frames(3) by (auto simp: numeral_3_eq_3)




lemma demo_getpacket_eot:
  "\<exists>w'. gdb_getpacket (gdb_if_ops fifo_ops) rp 3 [0, 0, 0, 0] (demo_if [0x04]) = Some ((1, [0x04, 0, 0, 0]), w')"
proof -
  from gdb_channel.getchar_next [OF demo_if_channel, of "demo_if [0x04]" "0x04" "[]"]
  obtain w' where "io_getchar (gdb_if_ops fifo_ops) (demo_if [0x04]) = Some (0x04, w')" by auto
  then show ?thesis by (simp add: gdb_getpacket.simps gdb_wait_start.simps)
qed


subsection \<open>Console output\<close>

text \<open>The channel and the allocator on one state, neither touching the other.\<close>

locale gdb_world = gdb_channel io ok rx tx sent + allocator "mm_alloc hp" "mm_free hp" ok live block
  for io :: "'w gdb_io" and hp :: "'w heap_ops" and ok rx tx sent live block +
  assumes alloc_frame: "mm_alloc hp n w = (r, w') \<Longrightarrow> rx w' = rx w \<and> tx w' = tx w \<and> sent w' = sent w"
    and free_frame: "rx (mm_free hp q w) = rx w" "tx (mm_free hp q w) = tx w" "sent (mm_free hp q w) = sent w"
    and getchar_to_live: "io_getchar_to io t w = Some (c, w') \<Longrightarrow> live w' = live w"
    and putchar_live: "io_putchar io c flush w = Some w' \<Longrightarrow> live w' = live w"
begin

lemma put_data_live: "gdb_put_data io p csum w = Some (s, w') \<Longrightarrow> live w' = live w"
  by (induction p arbitrary: csum w) (auto simp: bind_eq_Some_conv putchar_live split: if_splits)

lemma put_frame_live: "gdb_put_frame io p w = Some w' \<Longrightarrow> live w' = live w"
  by (auto simp: gdb_put_frame_def bind_eq_Some_conv dest!: put_data_live putchar_live)

lemma put_tries_live: "gdb_put_tries io p n w = Some w' \<Longrightarrow> live w' = live w"
proof (induction n arbitrary: w)
  case 0
  then show ?case
    by (subst (asm) gdb_put_tries.simps) (auto simp: bind_eq_Some_conv dest!: put_frame_live getchar_to_live)
next
  case (Suc n)
  from Suc.prems show ?case
    by (subst (asm) gdb_put_tries.simps)
      (auto simp: bind_eq_Some_conv split: if_splits dest!: Suc.IH put_frame_live getchar_to_live)
qed

lemma putpacket_world:
  assumes "ok w" "n \<le> length packet"
  shows "\<exists>k w'. gdb_putpacket io packet n w = Some w' \<and> ok w' \<and> 1 \<le> k \<and> k \<le> 4 \<and> live w' = live w \<and>
    tx w' = tx w @ concat (replicate k (gdb_frame (take n packet))) \<and> sent w' = tx w'"
proof -
  from put_tries [OF assms(1), of "take n packet" 3] obtain k w' where
    t: "gdb_put_tries io (take n packet) 3 w = Some w'" "ok w'" "1 \<le> k" "k \<le> Suc 3"
    "tx w' = tx w @ concat (replicate k (gdb_frame (take n packet)))" "sent w' = tx w'" by blast
  with put_tries_live [OF t(1)] assms(2) show ?thesis
    by (intro exI [of _ k] exI [of _ w']) (simp add: gdb_putpacket_def)
qed

lemma out_world:
  assumes "ok w" "length buf * 2 + 1 < 4096" "mm_alloc hp (length buf * 2 + 2) w = (Some b, w1)"
  shows "\<exists>k w'. gdb_out io hp buf w = Some w' \<and> ok w' \<and> 1 \<le> k \<and> k \<le> 4 \<and> live w' = live w \<and>
    tx w' = tx w @ concat (replicate k (gdb_frame (ch CHR ''O'' # hexify_loop buf))) \<and> sent w' = tx w'"
proof -
  let ?p = "ch CHR ''O'' # hexify buf" and ?n = "length buf * 2 + 1"
  have tk: "take ?n ?p = ch CHR ''O'' # hexify_loop buf" by (simp add: mult.commute)
  from alloc_some [OF assms(1,3)] have b: "ok w1" "b \<notin> live w" "live w1 = insert b (live w)" by auto
  from putpacket_world [OF b(1), of ?n ?p] obtain k w2 where
    2: "gdb_putpacket io ?p ?n w1 = Some w2" "ok w2" "1 \<le> k" "k \<le> 4" "live w2 = live w1"
      "tx w2 = tx w1 @ concat (replicate k (gdb_frame (ch CHR ''O'' # hexify_loop buf)))" "sent w2 = tx w2"
    unfolding tk by auto
  from b 2 have "b \<in> live w2" by simp
  from free_some [OF 2(2) this] 2 b alloc_frame [OF assms(3)] assms(2,3) show ?thesis
    by (intro exI [of _ k] exI [of _ "mm_free hp (Some b) w2"])
      (auto simp: gdb_out_def Let_def free_frame)
qed

lemma voutf_world:
  assumes "ok w" "txt \<noteq> []" "0 \<notin> set txt" "mm_alloc hp 2048 w = (Some b, w1)"
    "mm_alloc hp (min 2047 (length txt) * 2 + 2) w1 = (Some b', w2)"
  shows "\<exists>k w'. gdb_voutf io hp txt w = Some w' \<and> ok w' \<and> 1 \<le> k \<and> k \<le> 4 \<and> live w' = live w \<and>
    tx w' = tx w @ concat (replicate k (gdb_frame (ch CHR ''O'' # hexify_loop (take 2047 txt)))) \<and> sent w' = tx w'"
proof -
  have buf: "cstr (vsnprintf_buf 2048 txt) = take 2047 txt"
    using assms(3) by (auto simp: vsnprintf_buf_def intro!: cstr_append_NUL dest: in_set_takeD)
  from alloc_some [OF assms(1,4)] have b: "ok w1" "b \<notin> live w" "live w1 = insert b (live w)" by auto
  have l: "length (take 2047 txt) = min 2047 (length txt)" by (simp add: min.commute)
  have "length (take 2047 txt) * 2 + 1 < 4096" by simp
  from out_world [OF b(1) this, unfolded l, OF assms(5)] obtain k w3 where
    3: "gdb_out io hp (take 2047 txt) w1 = Some w3" "ok w3" "1 \<le> k" "k \<le> 4" "live w3 = live w1"
      "tx w3 = tx w1 @ concat (replicate k (gdb_frame (ch CHR ''O'' # hexify_loop (take 2047 txt))))" "sent w3 = tx w3"
    by auto
  from b 3 have "b \<in> live w3" by simp
  from free_some [OF 3(2) this] 3 b alloc_frame [OF assms(4)] assms(2,4) show ?thesis
    by (intro exI [of _ k] exI [of _ "mm_free hp (Some b) w3"])
      (auto simp: gdb_voutf_def buf free_frame)
qed

end

text \<open>The probe's state puts the channel beside the allocator.\<close>

definition fst_io :: "'a gdb_io \<Rightarrow> ('a \<times> 'b) gdb_io" where
  "fst_io io =
     \<lparr>io_getchar = (\<lambda>(a, b). map_option (\<lambda>(c, a). (c, (a, b))) (io_getchar io a)),
      io_getchar_to = (\<lambda>t (a, b). map_option (\<lambda>(c, a). (c, (a, b))) (io_getchar_to io t a)),
      io_putchar = (\<lambda>c f (a, b). map_option (\<lambda>a. (a, b)) (io_putchar io c f a))\<rparr>"

definition snd_heap :: "(nat \<Rightarrow> 'b \<Rightarrow> nat option \<times> 'b) \<Rightarrow> (nat option \<Rightarrow> 'b \<Rightarrow> 'b) \<Rightarrow> ('a \<times> 'b) heap_ops" where
  "snd_heap al fr =
     \<lparr>mm_alloc = (\<lambda>n (a, b). case al n b of (p, b) \<Rightarrow> (p, (a, b))), mm_free = (\<lambda>p (a, b). (a, fr p b))\<rparr>"

lemma gdb_world_product:
  assumes c: "gdb_channel io ok rx tx sent" and a: "allocator al fr hok live block"
  shows "gdb_world (fst_io io) (snd_heap al fr) (\<lambda>w. ok (fst w) \<and> hok (snd w)) (rx \<circ> fst) (tx \<circ> fst)
    (sent \<circ> fst) (live \<circ> snd) (block \<circ> snd)"
proof -
  note g = gdb_channel.getchar_next [OF c] gdb_channel.getchar_blocks [OF c]
    gdb_channel.getchar_to_next [OF c] gdb_channel.putchar_next [OF c]
  note al = allocator.alloc_some [OF a] allocator.alloc_none [OF a] allocator.free_some [OF a] allocator.free_null [OF a]
  show ?thesis
  proof unfold_locales
    fix w :: "'a \<times> 'b" and c cs
    assume "ok (fst w) \<and> hok (snd w)" "(rx \<circ> fst) w = c # cs"
    then show "\<exists>w'. io_getchar (fst_io io) w = Some (c, w') \<and> (ok (fst w') \<and> hok (snd w')) \<and>
        (rx \<circ> fst) w' = cs \<and> (tx \<circ> fst) w' = (tx \<circ> fst) w \<and> (sent \<circ> fst) w' = (sent \<circ> fst) w"
      using g(1) [of "fst w" c cs] by (cases w) (auto simp: fst_io_def)
  next
    fix w :: "'a \<times> 'b"
    assume "ok (fst w) \<and> hok (snd w)" "(rx \<circ> fst) w = []"
    then show "io_getchar (fst_io io) w = None"
      using g(2) [of "fst w"] by (cases w) (auto simp: fst_io_def)
  next
    fix w :: "'a \<times> 'b" and t
    assume "ok (fst w) \<and> hok (snd w)"
    then show "\<exists>c w'. io_getchar_to (fst_io io) t w = Some (c, w') \<and> (ok (fst w') \<and> hok (snd w')) \<and>
        (tx \<circ> fst) w' = (tx \<circ> fst) w \<and> (sent \<circ> fst) w' = (sent \<circ> fst) w \<and>
        ((rx \<circ> fst) w = c # (rx \<circ> fst) w' \<or> c = - 1 \<and> (rx \<circ> fst) w' = (rx \<circ> fst) w)"
      using g(3) [of "fst w" t] by (cases w) (auto simp: fst_io_def)
  next
    fix w :: "'a \<times> 'b" and c flush
    assume "ok (fst w) \<and> hok (snd w)"
    then show "\<exists>w'. io_putchar (fst_io io) c flush w = Some w' \<and> (ok (fst w') \<and> hok (snd w')) \<and>
        (rx \<circ> fst) w' = (rx \<circ> fst) w \<and> (tx \<circ> fst) w' = (tx \<circ> fst) w @ [c] \<and>
        (flush \<longrightarrow> (sent \<circ> fst) w' = (tx \<circ> fst) w')"
      using g(4) [of "fst w" c flush] by (cases w) (auto simp: fst_io_def)
  next
    fix w w' :: "'a \<times> 'b" and n p
    assume "ok (fst w) \<and> hok (snd w)" "mm_alloc (snd_heap al fr) n w = (Some p, w')"
    then show "(ok (fst w') \<and> hok (snd w')) \<and> p \<notin> (live \<circ> snd) w \<and> (live \<circ> snd) w' = insert p ((live \<circ> snd) w) \<and>
        n \<le> length ((block \<circ> snd) w' p) \<and> set ((block \<circ> snd) w' p) \<subseteq> {0}"
      using al(1) [of "snd w" n p "snd w'"] by (cases w) (auto simp: snd_heap_def split: prod.splits)
  qed (use al(2-) in \<open>auto simp: fst_io_def snd_heap_def split: prod.splits\<close>)
qed

text \<open>
  Console output: when the allocator can serve the two requests, \<open>gdb_voutf\<close> sends the text,
  cut to the 2047 characters its buffer holds, as an \<open>O\<close> packet of hexadecimal digits (never
  dropped for its length), flushed to the transport, and returns every block it took.
\<close>

theorem gdb_voutf_sends_console_packet:
  assumes "gdb_world io hp ok rx tx sent live block" and "ok w" and "txt \<noteq> []" and "0 \<notin> set txt"
    and "mm_alloc hp 2048 w = (Some b, w1)"
    and "mm_alloc hp (min 2047 (length txt) * 2 + 2) w1 = (Some b', w2)"
  shows "\<exists>k w'. gdb_voutf io hp txt w = Some w' \<and> 1 \<le> k \<and> k \<le> 4 \<and> live w' = live w \<and>
    tx w' = tx w @ concat (replicate k (gdb_frame (ch CHR ''O'' # hexify_loop (take 2047 txt)))) \<and> sent w' = tx w'"
  using gdb_world.voutf_world [OF assms] by blast

type_synonym demo_world = "fifo gdb_if \<times> (nat list \<times> nat) mem_manager"

definition demo_io :: "demo_world gdb_io" where
  "demo_io = fst_io (gdb_if_ops fifo_ops)"

definition demo_heap :: "demo_world heap_ops" where
  "demo_heap = snd_heap (MemManager_Alloc list_queue False) (MemManager_Free list_queue False)"

definition demo_ok :: "demo_world \<Rightarrow> bool" where
  "demo_ok = (\<lambda>w. gdb_if_ok (fst w) \<and> mm_ok fst snd (snd w))"

interpretation demo: gdb_world demo_io demo_heap demo_ok "gdb_if_rx fifo_future \<circ> fst"
  "gdb_if_tx fifo_delivered \<circ> fst" "gdb_if_sent fifo_delivered \<circ> fst" "live_blocks fst \<circ> snd" "item_data \<circ> snd"
  unfolding demo_io_def demo_heap_def demo_ok_def
  by (rule gdb_world_product [OF demo_if_channel lq.mm.allocator_axioms])

lemma demo_memory:
  "\<exists>m x m1 y m2. mm_ok fst snd m \<and> MemManager_Alloc list_queue False 2048 m = (Some x, m1) \<and>
     MemManager_Alloc list_queue False 12 m1 = (Some y, m2)"
proof -
  obtain m where m: "mm_reachable list_queue bump_malloc 0 m {}" using lq_reachable_init by blast
  have "(2048, 3, ''Pool 2048 bytes'') \<in> set MEM_MANAGER_POOL_CONFIG" by (simp add: MEM_MANAGER_POOL_CONFIG_def)
  from lq.alloc_iff [OF m this, of 2048] obtain x m1
    where x: "MemManager_Alloc list_queue False 2048 m = (Some x, m1)" by (auto simp: pool_sizes_def)
  have m1: "mm_reachable list_queue bump_malloc 0 m1 {x}" using mm_reachable.alloc [OF m x] by simp
  have c: "(16, 200, ''Pool 16 bytes'') \<in> set MEM_MANAGER_POOL_CONFIG" by (simp add: MEM_MANAGER_POOL_CONFIG_def)
  have "card {z \<in> {x}. item_size m1 z = Some 16} \<le> card {x}" by (rule card_mono) auto
  then obtain y m2 where "MemManager_Alloc list_queue False 12 m1 = (Some y, m2)"
    using lq.alloc_iff [OF m1 c, of 12] by (auto simp: pool_sizes_def)
  with x lq.reachable_inv [OF m] show ?thesis by blast
qed

theorem gdb_voutf_sends_console_packet_witness:
  "\<exists>m k w'. gdb_voutf demo_io demo_heap (str ''hello'') (demo_if [PLUS], m) = Some w' \<and> 1 \<le> k \<and>
     gdb_if_tx fifo_delivered (fst w') = concat (replicate k (gdb_frame (str ''O68656c6c6f'')))"
proof -
  obtain m x m1 y m2 where m: "mm_ok fst snd m" "MemManager_Alloc list_queue False 2048 m = (Some x, m1)"
    "MemManager_Alloc list_queue False 12 m1 = (Some y, m2)"
    using demo_memory by blast
  have "demo_ok (demo_if [PLUS], m)" by (simp add: demo_ok_def m)
  moreover have "mm_alloc demo_heap 2048 (demo_if [PLUS], m) = (Some x, (demo_if [PLUS], m1))"
    "mm_alloc demo_heap (min 2047 (length (str ''hello'')) * 2 + 2) (demo_if [PLUS], m1) = (Some y, (demo_if [PLUS], m2))"
    using m by (simp_all add: demo_heap_def snd_heap_def)
  ultimately obtain k w' where "gdb_voutf demo_io demo_heap (str ''hello'') (demo_if [PLUS], m) = Some w'" "1 \<le> k"
    "(gdb_if_tx fifo_delivered \<circ> fst) w' = (gdb_if_tx fifo_delivered \<circ> fst) (demo_if [PLUS], m) @
       concat (replicate k (gdb_frame (ch CHR ''O'' # hexify_loop (take 2047 (str ''hello'')))))"
    using gdb_voutf_sends_console_packet [OF demo.gdb_world_axioms, of "(demo_if [PLUS], m)" "str ''hello''" x
        "(demo_if [PLUS], m1)" y "(demo_if [PLUS], m2)"] by auto
  moreover have "ch CHR ''O'' # hexify_loop (take 2047 (str ''hello'')) = str ''O68656c6c6f''"
    by (simp add: hexdigits_def)
  ultimately show ?thesis by (intro exI [of _ m] exI [of _ k] exI [of _ w']) simp
qed

end
