(* ===== verification/Target.thy ===== *)
theory Target
  imports Mem_Manager
begin

text \<open>
  \<open>src/src/target/target.c\<close> and the data of \<open>target_internal.h\<close>: the generic target
  object. The methods a driver installs (function pointers of \<open>struct target_s\<close> and
  \<open>struct target_flash\<close>) are function-valued record fields over the state \<open>'w\<close> of
  everything outside the object: the device, the transport and the heap. A method that does not return
  (it blocks, faults or leaves by an exception) has the value \<open>None\<close>.

  Here: registration of memory regions, the GDB memory map, buffered flash programming, memory and
  register access, break- and watchpoints. Pointers between targets and controllers are the matter of
  \<open>Target_List\<close>.
\<close>

subsection \<open>Data\<close>

datatype target_halt_reason =
    TARGET_HALT_RUNNING
  | TARGET_HALT_ERROR
  | TARGET_HALT_REQUEST
  | TARGET_HALT_STEPPING
  | TARGET_HALT_BREAKPOINT
  | TARGET_HALT_WATCHPOINT
  | TARGET_HALT_FAULT

record target_ram =
  r_start :: u32
  r_length :: u32

record 'w target_flash =
  f_start :: u32
  f_length :: u32
  f_blocksize :: u32
  f_erase :: "u32 \<Rightarrow> u32 \<Rightarrow> 'w \<Rightarrow> (int \<times> 'w) option"
  f_write :: "u32 \<Rightarrow> u8 list \<Rightarrow> 'w \<Rightarrow> (int \<times> 'w) option"
  f_done :: "('w \<Rightarrow> (int \<times> 'w) option) option"
  f_erased :: u8
  f_buf_size :: u32
  f_buf_addr :: u32
  f_buf :: "(nat \<times> u8 list) option" \<comment> \<open>NULL, or the block and its contents\<close>

record breakwatch =
  bw_type :: int
  bw_addr :: u32
  bw_size :: u32
  bw_reserved :: "u32 list"

text \<open>A monitor command: its name, its help text and its handler (0 is success for the caller).\<close>

record 'w command_s =
  cmd :: "u8 list"
  cmd_handler :: "u8 list list \<Rightarrow> 'w \<Rightarrow> (bool \<times> 'w) option"
  cmd_help :: "u8 list"

record 'w target_command_s =
  specific_name :: "u8 list"
  cmds :: "'w command_s list"

record 'w target_s =
  t_attached :: bool
  t_tc :: "nat option"
  t_attach :: "'w \<Rightarrow> (bool \<times> 'w) option"
  t_detach :: "'w \<Rightarrow> 'w option"
  t_check_error :: "'w \<Rightarrow> (bool \<times> 'w) option"
  t_mem_read :: "u32 \<Rightarrow> nat \<Rightarrow> 'w \<Rightarrow> (u8 list \<times> 'w) option"
  t_mem_write :: "u32 \<Rightarrow> u8 list \<Rightarrow> 'w \<Rightarrow> 'w option"
  t_regs_size :: nat
  t_tdesc :: "u8 list option"
  t_regs_read :: "('w \<Rightarrow> (u8 list \<times> 'w) option) option"
  t_regs_write :: "(u8 list \<Rightarrow> 'w \<Rightarrow> 'w option) option"
  t_reg_read :: "nat \<Rightarrow> nat \<Rightarrow> 'w \<Rightarrow> ((int \<times> u8 list) \<times> 'w) option"
  t_reg_write :: "nat \<Rightarrow> u8 list \<Rightarrow> 'w \<Rightarrow> (int \<times> 'w) option"
  t_reset :: "'w \<Rightarrow> 'w option"
  t_extended_reset :: "('w \<Rightarrow> 'w option) option"
  t_halt_request :: "'w \<Rightarrow> 'w option"
  t_halt_poll :: "'w \<Rightarrow> ((target_halt_reason \<times> u32) \<times> 'w) option"
  t_halt_resume :: "bool \<Rightarrow> 'w \<Rightarrow> 'w option"
  t_breakwatch_set :: "(breakwatch \<Rightarrow> 'w \<Rightarrow> ((int \<times> breakwatch) \<times> 'w) option) option"
  t_breakwatch_clear :: "(breakwatch \<Rightarrow> 'w \<Rightarrow> ((int \<times> breakwatch) \<times> 'w) option) option"
  t_bw_list :: "(nat \<times> breakwatch) list" \<comment> \<open>each entry in its heap block\<close>
  t_target_options :: u32
  t_designer :: u16
  t_idcode :: u16
  t_target_storage :: "nat option"
  t_unsafe_enabled :: bool \<comment> \<open>shares its place with \<open>ke04_mode\<close>\<close>
  t_ram :: "(nat \<times> target_ram) list"
  t_flash :: "(nat \<times> 'w target_flash) list"
  t_driver :: "u8 list"
  t_cpuid :: u32
  t_core :: "u8 list"
  t_cmdline :: "u8 list"
  t_heapinfo :: "u32 list"
  t_commands :: "(nat \<times> 'w target_command_s) list"
  t_priv :: "nat option"
  t_priv_free :: "nat \<Rightarrow> 'w \<Rightarrow> 'w option"

subsection \<open>Memory regions\<close>

definition target_add_ram :: "'w heap_ops \<Rightarrow> nat \<Rightarrow> u32 \<Rightarrow> u32 \<Rightarrow> 'w target_s \<Rightarrow> 'w \<Rightarrow> 'w target_s \<times> 'w" where
  "target_add_ram hp sizeof_ram start len t w =
     (case mm_alloc hp sizeof_ram w of
        (None, w) \<Rightarrow> (t, w)
      | (Some p, w) \<Rightarrow> (t\<lparr>t_ram := (p, \<lparr>r_start = start, r_length = len\<rparr>) # t_ram t\<rparr>, w))"

definition target_add_flash :: "nat \<times> 'w target_flash \<Rightarrow> 'w target_s \<Rightarrow> 'w target_s" where
  "target_add_flash pf t =
     (let f = snd pf;
          f = (if f_buf_size f = 0 then f\<lparr>f_buf_size := (if f_blocksize f < 0x400 then f_blocksize f else 0x400)\<rparr> else f)
      in t\<lparr>t_flash := (fst pf, f) # t_flash t\<rparr>)"

fun free_all :: "'w heap_ops \<Rightarrow> nat list \<Rightarrow> 'w \<Rightarrow> 'w" where
  "free_all hp [] w = w"
| "free_all hp (p # ps) w = free_all hp ps (mm_free hp (Some p) w)"

fun free_flash :: "'w heap_ops \<Rightarrow> (nat \<times> 'w target_flash) list \<Rightarrow> 'w \<Rightarrow> 'w" where
  "free_flash hp [] w = w"
| "free_flash hp ((p, f) # fs) w =
     (let w = (case f_buf f of Some (b, _) \<Rightarrow> mm_free hp (Some b) w | None \<Rightarrow> w)
      in free_flash hp fs (mm_free hp (Some p) w))"

definition target_mem_map_free :: "'w heap_ops \<Rightarrow> 'w target_s \<Rightarrow> 'w \<Rightarrow> 'w target_s \<times> 'w" where
  "target_mem_map_free hp t w =
     (let w = free_all hp (map fst (t_ram t)) w;
          w = free_flash hp (t_flash t) w
      in (t\<lparr>t_ram := [], t_flash := []\<rparr>, w))"

subsection \<open>The memory map for GDB\<close>

definition hexdigit :: "nat \<Rightarrow> u8" where
  "hexdigit n = (if n < 10 then word_of_nat (48 + n) else word_of_nat (87 + n))"

fun hex_of_nat :: "nat \<Rightarrow> u8 list" where
  "hex_of_nat n = (if n < 16 then [hexdigit n] else hex_of_nat (n div 16) @ [hexdigit (n mod 16)])"

declare hex_of_nat.simps [simp del]

text \<open>\<open>%x\<close> and \<open>%08x\<close> of \<open>printf\<close>.\<close>

definition fmt_x :: "u32 \<Rightarrow> u8 list" where
  "fmt_x v = hex_of_nat (unat v)"

definition fmt_08x :: "u32 \<Rightarrow> u8 list" where
  "fmt_08x v = replicate (8 - length (fmt_x v)) (ch CHR ''0'') @ fmt_x v"

text \<open>
  \<open>i += snprintf(\<amp>tmp[i], len - i, ...)\<close>: the text in the buffer so far (cut to \<open>len - 1\<close>
  characters) and the position \<open>i\<close>. A position beyond \<open>len\<close> makes the unsigned
  \<open>len - i\<close> wrap and the write leave the buffer: no result.
\<close>

definition snprintf_at :: "nat \<Rightarrow> u8 list \<Rightarrow> u8 list \<times> nat \<Rightarrow> (u8 list \<times> nat) option" where
  "snprintf_at len txt b =
     (case b of (buf, i) \<Rightarrow>
        if i \<le> len then Some (take (len - 1) (buf @ txt), i + length txt) else None)"

definition map_ram :: "nat \<Rightarrow> target_ram \<Rightarrow> u8 list \<times> nat \<Rightarrow> (u8 list \<times> nat) option" where
  "map_ram len r b =
     snprintf_at len (str ''<memory type=\"ram\" start=\"0x'' @ fmt_08x (r_start r) @
       str ''\" length=\"0x'' @ fmt_x (r_length r) @ str ''\"/>'') b"

definition map_flash :: "nat \<Rightarrow> 'w target_flash \<Rightarrow> u8 list \<times> nat \<Rightarrow> (u8 list \<times> nat) option" where
  "map_flash len f b =
     do { b \<leftarrow> snprintf_at len (str ''<memory type=\"flash\" start=\"0x'' @ fmt_08x (f_start f) @
              str ''\" length=\"0x'' @ fmt_x (f_length f) @ str ''\">'') b;
          snprintf_at len (str ''<property name=\"blocksize\">0x'' @ fmt_x (f_blocksize f) @
              str ''</property></memory>'') b }"

fun map_each :: "('a \<Rightarrow> 'b \<Rightarrow> 'b option) \<Rightarrow> 'a list \<Rightarrow> 'b \<Rightarrow> 'b option" where
  "map_each g [] b = Some b"
| "map_each g (x # xs) b = do { b \<leftarrow> g x b; map_each g xs b }"

definition target_mem_map :: "'w target_s \<Rightarrow> nat \<Rightarrow> (bool \<times> u8 list) option" where
  "target_mem_map t len =
     do { b \<leftarrow> snprintf_at len (str ''<memory-map>'') ([], 0);
          b \<leftarrow> map_each (map_ram len) (map snd (t_ram t)) b;
          b \<leftarrow> map_each (map_flash len) (map snd (t_flash t)) b;
          (buf, i) \<leftarrow> snprintf_at len (str ''</memory-map>'') b;
          Some (\<not> (i > len - 2), buf) }"

subsection \<open>Flash operations\<close>

definition flash_end :: "'w target_flash \<Rightarrow> u32" where
  "flash_end f = f_start f + f_length f"

fun flash_find :: "(nat \<times> 'w target_flash) list \<Rightarrow> u32 \<Rightarrow> nat option" where
  "flash_find [] addr = None"
| "flash_find ((p, f) # fs) addr =
     (if f_start f \<le> addr \<and> addr < flash_end f then Some 0 else map_option Suc (flash_find fs addr))"

text \<open>\<open>flash_for_addr\<close> returns a pointer into the list: here the position.\<close>

definition flash_for_addr :: "'w target_s \<Rightarrow> u32 \<Rightarrow> nat option" where
  "flash_for_addr t addr = flash_find (t_flash t) addr"

definition MIN_u32 :: "u32 \<Rightarrow> u32 \<Rightarrow> u32" where
  "MIN_u32 x y = (if x < y then x else y)"

lemma flash_find_Some:
  "flash_find fs addr = Some i \<Longrightarrow>
     i < length fs \<and> f_start (snd (fs ! i)) \<le> addr \<and> addr < flash_end (snd (fs ! i))"
  by (induction fs arbitrary: i) (auto split: if_splits)

lemma chunk_bounds:
  fixes a l e :: u32
  assumes "a < e" "l \<noteq> 0"
  shows "MIN_u32 (a + l) e - a \<noteq> 0" "MIN_u32 (a + l) e - a \<le> l"
proof -
  show "MIN_u32 (a + l) e - a \<noteq> 0" using assms by (auto simp: MIN_u32_def)
  show "MIN_u32 (a + l) e - a \<le> l"
  proof (cases "a + l < e")
    case True
    then show ?thesis by (simp add: MIN_u32_def)
  next
    case False
    have "e - a \<le> l"
    proof (rule ccontr)
      assume "\<not> e - a \<le> l"
      then have "unat l < unat (e - a)" by (simp add: word_le_nat_alt)
      moreover have "unat (e - a) = unat e - unat a" using assms(1) by (simp add: unat_sub less_imp_le)
      ultimately have "unat a + unat l < unat e" using assms(1) by (simp add: word_less_nat_alt)
      moreover then have "unat (a + l) = unat a + unat l"
        using unsigned_less [of e, where 'a = nat] by (simp add: unat_word_ariths)
      ultimately show False using False by (simp add: word_less_nat_alt)
    qed
    with False show ?thesis by (simp add: MIN_u32_def)
  qed
qed

lemma chunk_neq: "a < e \<Longrightarrow> l \<noteq> 0 \<Longrightarrow> MIN_u32 (a + l) e \<noteq> a"
  using chunk_bounds(1) [of a e l] by auto

lemma unat_minus_less: "(c :: u32) \<noteq> 0 \<Longrightarrow> c \<le> l \<Longrightarrow> unat (l - c) < unat l"
  by (metis diff_less order_less_le_trans unat_gt_0 unat_sub word_le_nat_alt)

function target_flash_erase_loop ::
  "'w target_s \<Rightarrow> u32 \<Rightarrow> u32 \<Rightarrow> int \<Rightarrow> 'w \<Rightarrow> (int \<times> 'w) option" where
  "target_flash_erase_loop t addr len ret w =
     (if len = 0 then Some (ret, w)
      else case flash_for_addr t addr of
             None \<Rightarrow> Some (ret, w)
           | Some i \<Rightarrow>
               let f = snd (t_flash t ! i);
                   tmptarget = MIN_u32 (addr + len) (flash_end f);
                   tmplen = tmptarget - addr
               in do { (r, w) \<leftarrow> f_erase f addr tmplen w;
                       target_flash_erase_loop t (addr + tmplen) (len - tmplen) (ret OR r) w })"
  by pat_completeness auto
termination
  by (relation "measure (\<lambda>(t, addr, len, ret, w). unat len)")
    (auto simp: flash_for_addr_def chunk_neq dest!: flash_find_Some intro!: unat_minus_less chunk_bounds)

declare target_flash_erase_loop.simps [simp del]

definition target_flash_erase :: "'w target_s \<Rightarrow> u32 \<Rightarrow> u32 \<Rightarrow> 'w \<Rightarrow> (int \<times> 'w) option" where
  "target_flash_erase t addr len w = target_flash_erase_loop t addr len 0 w"

text \<open>
  The sector loop of \<open>target_flash_write_buffered\<close>. The loop copies what falls into the current
  sector and goes on behind it; it ends because a non-empty piece is copied each time. A zero buffer
  size would be a division by zero: no result.
\<close>

function flash_write_sectors :: "'w target_flash \<Rightarrow> u32 \<Rightarrow> u8 list \<Rightarrow> int \<Rightarrow> 'w \<Rightarrow> ((int \<times> 'w target_flash) \<times> 'w) option" where
  "flash_write_sectors f dest src ret w =
     (if src = [] then Some ((ret, f), w)
      else if f_buf_size f = 0 then None
      else case f_buf f of
        None \<Rightarrow> None
      | Some (p, b) \<Rightarrow>
         let offset = dest mod f_buf_size f;
             base = dest - offset
         in do {
              ((ret, b, f), w) \<leftarrow>
                (if base \<noteq> f_buf_addr f then
                   do { (ret, w) \<leftarrow> (if f_buf_addr f \<noteq> -1
                          then do { (r, w) \<leftarrow> f_write f (f_buf_addr f) b w; Some (ret OR r, w) }
                          else Some (ret, w));
                        Some ((ret, replicate (unat (f_buf_size f)) (f_erased f), f\<lparr>f_buf_addr := base\<rparr>), w) }
                 else Some ((ret, b, f), w));
              let sectlen = min (unat (f_buf_size f - offset)) (length src);
              if 0 < sectlen \<and> unat offset + sectlen \<le> length b
              then flash_write_sectors (f\<lparr>f_buf := Some (p, splice_at b (unat offset) (take sectlen src))\<rparr>)
                     (dest + word_of_nat sectlen) (drop sectlen src) ret w
              else None })"
  by pat_completeness auto
termination
  by (relation "measure (\<lambda>(f, dest, src, ret, w). length src)") auto

declare flash_write_sectors.simps [simp del]

definition target_flash_write_buffered ::
  "'w heap_ops \<Rightarrow> 'w target_flash \<Rightarrow> u32 \<Rightarrow> u8 list \<Rightarrow> 'w \<Rightarrow> ((int \<times> 'w target_flash) \<times> 'w) option" where
  "target_flash_write_buffered hp f dest src w =
     (case f_buf f of
        None \<Rightarrow>
          (case mm_alloc hp (unat (f_buf_size f)) w of
             (None, w) \<Rightarrow> Some ((1, f), w)
           | (Some p, w) \<Rightarrow>
               flash_write_sectors (f\<lparr>f_buf := Some (p, replicate (unat (f_buf_size f)) 0), f_buf_addr := -1\<rparr>) dest src 0 w)
      | Some _ \<Rightarrow> flash_write_sectors f dest src 0 w)"

definition target_flash_done_buffered ::
  "'w heap_ops \<Rightarrow> 'w target_flash \<Rightarrow> 'w \<Rightarrow> ((int \<times> 'w target_flash) \<times> 'w) option" where
  "target_flash_done_buffered hp f w =
     (case f_buf f of
        Some (p, b) \<Rightarrow>
          if f_buf_addr f \<noteq> -1
          then do { (ret, w) \<leftarrow> f_write f (f_buf_addr f) b w;
                    Some ((ret, f\<lparr>f_buf_addr := -1, f_buf := None\<rparr>), mm_free hp (Some p) w) }
          else Some ((0, f), w)
      | None \<Rightarrow> Some ((0, f), w))"

definition set_flash :: "nat \<Rightarrow> 'w target_flash \<Rightarrow> 'w target_s \<Rightarrow> 'w target_s" where
  "set_flash i f t = t\<lparr>t_flash := (t_flash t)[i := (fst (t_flash t ! i), f)]\<rparr>"

text \<open>The length of a request is a \<open>size_t\<close> of 32 bits; the data are \<open>src\<close>.\<close>

function target_flash_write_loop ::
  "'w heap_ops \<Rightarrow> 'w target_s \<Rightarrow> u32 \<Rightarrow> u8 list \<Rightarrow> u32 \<Rightarrow> int \<Rightarrow> 'w \<Rightarrow> ((int \<times> 'w target_s) \<times> 'w) option" where
  "target_flash_write_loop hp t dest src len ret w =
     (if len = 0 then Some ((ret, t), w)
      else case flash_for_addr t dest of
             None \<Rightarrow> Some ((1, t), w)
           | Some i \<Rightarrow>
               let f = snd (t_flash t ! i);
                   tmptarget = MIN_u32 (dest + len) (flash_end f);
                   tmplen = tmptarget - dest
               in if unat tmplen \<le> length src
                  then do { ((r, f), w) \<leftarrow> target_flash_write_buffered hp f dest (take (unat tmplen) src) w;
                            target_flash_write_loop hp (set_flash i f t) (dest + tmplen)
                              (drop (unat tmplen) src) (len - tmplen) (ret OR r) w }
                  else None)"
  by pat_completeness auto
termination
  by (relation "measure (\<lambda>(hp, t, dest, src, len, ret, w). unat len)")
    (auto simp: flash_for_addr_def chunk_neq dest!: flash_find_Some intro!: unat_minus_less chunk_bounds)

declare target_flash_write_loop.simps [simp del]

definition target_flash_write ::
  "'w heap_ops \<Rightarrow> 'w target_s \<Rightarrow> u32 \<Rightarrow> u8 list \<Rightarrow> 'w \<Rightarrow> ((int \<times> 'w target_s) \<times> 'w) option" where
  "target_flash_write hp t dest src w = target_flash_write_loop hp t dest src (word_of_nat (length src)) 0 w"

fun flash_done_all :: "'w heap_ops \<Rightarrow> (nat \<times> 'w target_flash) list \<Rightarrow> 'w \<Rightarrow> ((int \<times> (nat \<times> 'w target_flash) list) \<times> 'w) option" where
  "flash_done_all hp [] w = Some ((0, []), w)"
| "flash_done_all hp ((p, f) # fs) w =
     do { ((tmp, f), w) \<leftarrow> target_flash_done_buffered hp f w;
          if tmp \<noteq> 0 then Some ((tmp, (p, f) # fs), w)
          else do {
            (tmp, w) \<leftarrow> (case f_done f of None \<Rightarrow> Some (0, w) | Some done \<Rightarrow> done w);
            if tmp \<noteq> 0 then Some ((tmp, (p, f) # fs), w)
            else do { ((r, fs), w) \<leftarrow> flash_done_all hp fs w; Some ((r, (p, f) # fs), w) } } }"

definition target_flash_done :: "'w heap_ops \<Rightarrow> 'w target_s \<Rightarrow> 'w \<Rightarrow> ((int \<times> 'w target_s) \<times> 'w) option" where
  "target_flash_done hp t w =
     do { ((r, fs), w) \<leftarrow> flash_done_all hp (t_flash t) w; Some ((r, t\<lparr>t_flash := fs\<rparr>), w) }"

subsection \<open>Memory and register access\<close>

definition target_detach :: "'w target_s \<Rightarrow> 'w \<Rightarrow> ('w target_s \<times> 'w) option" where
  "target_detach t w = do { w \<leftarrow> t_detach t w; Some (t\<lparr>t_attached := False\<rparr>, w) }"

definition target_check_error :: "'w target_s option \<Rightarrow> 'w \<Rightarrow> (bool \<times> 'w) option" where
  "target_check_error t w = (case t of Some t \<Rightarrow> t_check_error t w | None \<Rightarrow> Some (False, w))"

definition target_mem_read :: "'w target_s \<Rightarrow> u32 \<Rightarrow> nat \<Rightarrow> 'w \<Rightarrow> ((bool \<times> u8 list) \<times> 'w) option" where
  "target_mem_read t src len w =
     do { (bs, w) \<leftarrow> t_mem_read t src len w;
          (e, w) \<leftarrow> target_check_error (Some t) w;
          Some ((e, bs), w) }"

definition target_mem_write :: "'w target_s \<Rightarrow> u32 \<Rightarrow> u8 list \<Rightarrow> 'w \<Rightarrow> (bool \<times> 'w) option" where
  "target_mem_write t dest src w = do { w \<leftarrow> t_mem_write t dest src w; target_check_error (Some t) w }"

definition target_reg_read :: "'w target_s \<Rightarrow> nat \<Rightarrow> nat \<Rightarrow> 'w \<Rightarrow> ((int \<times> u8 list) \<times> 'w) option" where
  "target_reg_read t reg mx w = t_reg_read t reg mx w"

definition target_reg_write :: "'w target_s \<Rightarrow> nat \<Rightarrow> u8 list \<Rightarrow> 'w \<Rightarrow> (int \<times> 'w) option" where
  "target_reg_write t reg data w = t_reg_write t reg data w"

text \<open>
  Reading all registers one by one: \<open>x\<close> bytes are there, register \<open>i\<close> is next. The position
  is a \<open>size_t\<close>: a driver that reports an error (-1) moves it back.
\<close>

partial_function (option) target_regs_read_loop ::
  "'w target_s \<Rightarrow> u32 \<Rightarrow> nat \<Rightarrow> u8 list \<Rightarrow> 'w \<Rightarrow> (u8 list \<times> 'w) option" where
  "target_regs_read_loop t x i data w =
     (if unat x < t_regs_size t
      then do { ((n, bs), w) \<leftarrow> t_reg_read t i (t_regs_size t - unat x) w;
                target_regs_read_loop t (x + word_of_int n) (i + 1) (splice_at data (unat x) bs) w }
      else Some (data, w))"

definition target_regs_read :: "'w target_s \<Rightarrow> 'w \<Rightarrow> (u8 list \<times> 'w) option" where
  "target_regs_read t w =
     (case t_regs_read t of
        Some g \<Rightarrow> g w
      | None \<Rightarrow> target_regs_read_loop t 0 0 (replicate (t_regs_size t) 0) w)"

partial_function (option) target_regs_write_loop :: "'w target_s \<Rightarrow> u32 \<Rightarrow> nat \<Rightarrow> u8 list \<Rightarrow> 'w \<Rightarrow> 'w option" where
  "target_regs_write_loop t x i data w =
     (if unat x < t_regs_size t
      then do { (n, w) \<leftarrow> t_reg_write t i (take (t_regs_size t - unat x) (drop (unat x) data)) w;
                target_regs_write_loop t (x + word_of_int n) (i + 1) data w }
      else Some w)"

definition target_regs_write :: "'w target_s \<Rightarrow> u8 list \<Rightarrow> 'w \<Rightarrow> 'w option" where
  "target_regs_write t data w =
     (case t_regs_write t of Some g \<Rightarrow> g data w | None \<Rightarrow> target_regs_write_loop t 0 0 data w)"

definition target_reset :: "'w target_s \<Rightarrow> 'w \<Rightarrow> 'w option" where
  "target_reset t w = t_reset t w"

definition target_halt_request :: "'w target_s \<Rightarrow> 'w \<Rightarrow> 'w option" where
  "target_halt_request t w = t_halt_request t w"

definition target_halt_poll :: "'w target_s \<Rightarrow> 'w \<Rightarrow> ((target_halt_reason \<times> u32) \<times> 'w) option" where
  "target_halt_poll t w = t_halt_poll t w"

definition target_halt_resume :: "'w target_s \<Rightarrow> bool \<Rightarrow> 'w \<Rightarrow> 'w option" where
  "target_halt_resume t step w = t_halt_resume t step w"

definition MAX_CMDLINE :: nat where
  "MAX_CMDLINE = 81"

text \<open>\<open>strncpy(dst, s, n)\<close>: at most \<open>n\<close> characters, padded with NUL up to \<open>n\<close>.\<close>

definition strncpy_bytes :: "u8 list \<Rightarrow> nat \<Rightarrow> u8 list" where
  "strncpy_bytes s n = take n (s @ replicate n 0)"

definition target_set_cmdline :: "u8 list \<Rightarrow> 'w target_s \<Rightarrow> 'w target_s" where
  "target_set_cmdline cmdline t =
     (let len_dst = MAX_CMDLINE - 1
      in t\<lparr>t_cmdline := splice_at (t_cmdline t) 0 (strncpy_bytes cmdline (len_dst - 1))\<rparr>)"

definition target_set_heapinfo :: "u32 \<Rightarrow> u32 \<Rightarrow> u32 \<Rightarrow> u32 \<Rightarrow> 'w target_s option \<Rightarrow> 'w target_s option" where
  "target_set_heapinfo heap_base heap_limit stack_base stack_limit t =
     (case t of
        None \<Rightarrow> None
      | Some t \<Rightarrow> Some (t\<lparr>t_heapinfo := [heap_base, heap_limit, stack_base, stack_limit]\<rparr>))"

subsection \<open>Break- and watchpoints\<close>

definition target_breakwatch_set ::
  "'w heap_ops \<Rightarrow> nat \<Rightarrow> 'w target_s \<Rightarrow> int \<Rightarrow> u32 \<Rightarrow> u32 \<Rightarrow> 'w \<Rightarrow> ((int \<times> 'w target_s) \<times> 'w) option" where
  "target_breakwatch_set hp sizeof_bw t type addr len w =
     (let bw = \<lparr>bw_type = type, bw_addr = addr, bw_size = len, bw_reserved = [0, 0, 0, 0]\<rparr>
      in do { ((ret, bw), w) \<leftarrow> (case t_breakwatch_set t of Some g \<Rightarrow> g bw w | None \<Rightarrow> Some ((1, bw), w));
              if ret = 0
              then (case mm_alloc hp sizeof_bw w of
                      (None, w) \<Rightarrow> Some ((1, t), w)
                    | (Some p, w) \<Rightarrow> Some ((ret, t\<lparr>t_bw_list := (p, bw) # t_bw_list t\<rparr>), w))
              else Some ((ret, t), w) })"

fun bw_matches :: "int \<Rightarrow> u32 \<Rightarrow> u32 \<Rightarrow> nat \<times> breakwatch \<Rightarrow> bool" where
  "bw_matches type addr len (p, bw) = (bw_type bw = type \<and> bw_addr bw = addr \<and> bw_size bw = len)"

text \<open>The list walk with \<open>bw\<close> and its predecessor \<open>bwp\<close>: what precedes the entry, the entry,
  and what follows it.\<close>

fun bw_search :: "int \<Rightarrow> u32 \<Rightarrow> u32 \<Rightarrow> (nat \<times> breakwatch) list \<Rightarrow>
  ((nat \<times> breakwatch) list \<times> (nat \<times> breakwatch) \<times> (nat \<times> breakwatch) list) option" where
  "bw_search type addr len [] = None"
| "bw_search type addr len (b # bs) =
     (if bw_matches type addr len b then Some ([], b, bs)
      else map_option (\<lambda>(us, x, vs). (b # us, x, vs)) (bw_search type addr len bs))"

definition target_breakwatch_clear ::
  "'w heap_ops \<Rightarrow> 'w target_s \<Rightarrow> int \<Rightarrow> u32 \<Rightarrow> u32 \<Rightarrow> 'w \<Rightarrow> ((int \<times> 'w target_s) \<times> 'w) option" where
  "target_breakwatch_clear hp t type addr len w =
     (case bw_search type addr len (t_bw_list t) of
        None \<Rightarrow> Some ((-1, t), w)
      | Some (before, (p, bw), after) \<Rightarrow>
          do { ((ret, bw), w) \<leftarrow> (case t_breakwatch_clear t of Some g \<Rightarrow> g bw w | None \<Rightarrow> Some ((1, bw), w));
               if ret = 0
               then Some ((ret, t\<lparr>t_bw_list := before @ after\<rparr>), mm_free hp (Some p) w)
               else Some ((ret, t\<lparr>t_bw_list := before @ (p, bw) # after\<rparr>), w) })"

subsection \<open>Accessors and word access\<close>

definition target_regs_size :: "'w target_s \<Rightarrow> nat" where
  "target_regs_size t = t_regs_size t"

definition target_tdesc :: "'w target_s \<Rightarrow> u8 list" where
  "target_tdesc t = (case t_tdesc t of Some d \<Rightarrow> d | None \<Rightarrow> [])"

definition le_word :: "u8 list \<Rightarrow> nat" where
  "le_word bs = foldr (\<lambda>b v. unat b + 256 * v) bs 0"

fun le_bytes :: "nat \<Rightarrow> nat \<Rightarrow> u8 list" where
  "le_bytes 0 v = []"
| "le_bytes (Suc n) v = word_of_nat (v mod 256) # le_bytes n (v div 256)"

definition target_mem_read32 :: "'w target_s \<Rightarrow> u32 \<Rightarrow> 'w \<Rightarrow> (u32 \<times> 'w) option" where
  "target_mem_read32 t addr w = do { (bs, w) \<leftarrow> t_mem_read t addr 4 w; Some (word_of_nat (le_word bs), w) }"

definition target_mem_write32 :: "'w target_s \<Rightarrow> u32 \<Rightarrow> u32 \<Rightarrow> 'w \<Rightarrow> 'w option" where
  "target_mem_write32 t addr v w = t_mem_write t addr (le_bytes 4 (unat v)) w"

definition target_mem_read16 :: "'w target_s \<Rightarrow> u32 \<Rightarrow> 'w \<Rightarrow> (u16 \<times> 'w) option" where
  "target_mem_read16 t addr w = do { (bs, w) \<leftarrow> t_mem_read t addr 2 w; Some (word_of_nat (le_word bs), w) }"

definition target_mem_write16 :: "'w target_s \<Rightarrow> u32 \<Rightarrow> u16 \<Rightarrow> 'w \<Rightarrow> 'w option" where
  "target_mem_write16 t addr v w = t_mem_write t addr (le_bytes 2 (unat v)) w"

definition target_mem_read8 :: "'w target_s \<Rightarrow> u32 \<Rightarrow> 'w \<Rightarrow> (u8 \<times> 'w) option" where
  "target_mem_read8 t addr w = do { (bs, w) \<leftarrow> t_mem_read t addr 1 w; Some (word_of_nat (le_word bs), w) }"

definition target_mem_write8 :: "'w target_s \<Rightarrow> u32 \<Rightarrow> u8 \<Rightarrow> 'w \<Rightarrow> 'w option" where
  "target_mem_write8 t addr v w = t_mem_write t addr (le_bytes 1 (unat v)) w"

text \<open>\<open>target_command\<close>: the first command, in registration order, whose name starts with
  \<open>argv[0]\<close>; 0 on success, 1 on failure, -1 when none matches.\<close>

definition target_command :: "'w target_s \<Rightarrow> u8 list list \<Rightarrow> 'w \<Rightarrow> (int \<times> 'w) option" where
  "target_command t argv w =
     (case argv of
        [] \<Rightarrow> None
      | a # _ \<Rightarrow>
          (case find (\<lambda>c. strncmp_eq a (cmd c) (length a)) (concat (map (cmds \<circ> snd) (t_commands t))) of
             None \<Rightarrow> Some (-1, w)
           | Some c \<Rightarrow> do { (ok, w) \<leftarrow> cmd_handler c argv w; Some (if ok then 0 else 1, w) }))"

end
