(* ===== verification/Target_Flash.thy ===== *)
theory Target_Flash
  imports Target
begin

text \<open>
  Properties of the buffered flash programming of \<open>target.c\<close>: what a write and the final
  \<open>target_flash_done\<close> leave in the flash, and how requests are cut at the region bounds.
\<close>

subsection \<open>Flash programming through the sector buffer\<close>

definition overlay :: "(nat \<Rightarrow> u8) \<Rightarrow> nat \<Rightarrow> u8 list \<Rightarrow> nat \<Rightarrow> u8" where
  "overlay m a bs = (\<lambda>x. if a \<le> x \<and> x < a + length bs then bs ! (x - a) else m x)"

text \<open>
  What the generic layer relies on of a driver and of the heap: the driver's write programs the bytes
  at the address it is given, reports success, and returns; the allocator leaves the device alone.
\<close>

definition flash_device :: "'w heap_ops \<Rightarrow> (u32 \<Rightarrow> u8 list \<Rightarrow> 'w \<Rightarrow> (int \<times> 'w) option) \<Rightarrow> ('w \<Rightarrow> nat \<Rightarrow> u8) \<Rightarrow> ('w \<Rightarrow> bool) \<Rightarrow> bool" where
  "flash_device hp write content ok \<longleftrightarrow>
     (\<forall>a bs w. ok w \<longrightarrow> (\<exists>w'. write a bs w = Some (0, w') \<and> ok w' \<and> content w' = overlay (content w) (unat a) bs)) \<and>
     (\<forall>n w r w'. ok w \<longrightarrow> mm_alloc hp n w = (r, w') \<longrightarrow> ok w' \<and> content w' = content w) \<and>
     (\<forall>p w. ok w \<longrightarrow> ok (mm_free hp p w) \<and> content (mm_free hp p w) = content w)"

text \<open>The flash as it will be once the buffered sector is programmed.\<close>

definition flash_view :: "('w \<Rightarrow> nat \<Rightarrow> u8) \<Rightarrow> 'w target_flash \<Rightarrow> 'w \<Rightarrow> nat \<Rightarrow> u8" where
  "flash_view content f w =
     (case f_buf f of
        Some (p, b) \<Rightarrow> if f_buf_addr f \<noteq> -1 then overlay (content w) (unat (f_buf_addr f)) b else content w
      | None \<Rightarrow> content w)"

definition flash_open :: "'w target_flash \<Rightarrow> nat option" where
  "flash_open f = (case f_buf f of
     Some _ \<Rightarrow> if f_buf_addr f \<noteq> -1 then Some (unat (f_buf_addr f) div unat (f_buf_size f)) else None
   | None \<Rightarrow> None)"

definition flash_ok :: "'w target_flash \<Rightarrow> bool" where
  "flash_ok f \<longleftrightarrow> f_buf_size f \<noteq> 0 \<and>
     (\<forall>p b. f_buf f = Some (p, b) \<longrightarrow> length b = unat (f_buf_size f) \<and>
        (f_buf_addr f \<noteq> -1 \<longrightarrow> unat (f_buf_size f) dvd unat (f_buf_addr f)))"

text \<open>
  The abstract effect of a write: the data at their addresses; the rest of every sector the data touch
  reads erased, except in the first one when it is the sector already open in the buffer; everything
  else as before.
\<close>

definition flash_merge :: "nat \<Rightarrow> u8 \<Rightarrow> nat option \<Rightarrow> (nat \<Rightarrow> u8) \<Rightarrow> nat \<Rightarrow> u8 list \<Rightarrow> nat \<Rightarrow> u8" where
  "flash_merge n er opn v d src = (\<lambda>x.
     if src = [] then v x
     else if d \<le> x \<and> x < d + length src then src ! (x - d)
     else if d div n \<le> x div n \<and> x div n \<le> (d + length src - 1) div n \<and> \<not> (x div n = d div n \<and> opn = Some (d div n))
     then er else v x)"

lemma flash_merge_Nil [simp]: "flash_merge n er opn v d [] = v"
  by (simp add: flash_merge_def fun_eq_iff)

text \<open>The data split at the end of the first sector.\<close>

lemma flash_merge_split:
  assumes n: "0 < n" and s: "0 < s" "s < length src" and e: "d + s = (d div n + 1) * n"
  shows "flash_merge n er (Some (d div n)) (flash_merge n er opn v d (take s src)) (d + s) (drop s src) =
    flash_merge n er opn v d src"
proof
  fix x
  let ?k = "d div n" and ?K = "(d + length src - 1) div n"
  have k1: "(d + s) div n = ?k + 1" using e n by simp
  have k0: "(d + s - 1) div n = ?k"
  proof -
    have "d \<le> d + s - 1" using s by simp
    then have "?k \<le> (d + s - 1) div n" by (rule div_le_mono)
    moreover have "(d + s - 1) div n < ?k + 1"
      using e n s by (simp add: less_mult_imp_div_less)
    ultimately show ?thesis by simp
  qed
  have "d + s \<le> d + length src - 1" using s by simp
  from div_le_mono [OF this, of n] have kK: "?k + 1 \<le> ?K" by (simp only: k1)
  have L: "d + s + length (drop s src) = d + length src" using s by simp
  show "flash_merge n er (Some ?k) (flash_merge n er opn v d (take s src)) (d + s) (drop s src) x =
    flash_merge n er opn v d src x"
  proof (cases "d \<le> x \<and> x < d + length src")
    case True
    then show ?thesis
    proof (cases "x < d + s")
      case True
      then have "x \<le> d + s - 1" by simp
      from div_le_mono [OF this, of n] have "x div n \<le> ?k" by (simp only: k0)
      with True \<open>d \<le> x \<and> x < d + length src\<close> k1 s show ?thesis by (auto simp: flash_merge_def)
    next
      case False
      with \<open>d \<le> x \<and> x < d + length src\<close> s show ?thesis by (auto simp: flash_merge_def)
    qed
  next
    case False
    then show ?thesis using k0 k1 kK s by (auto simp: flash_merge_def L)
  qed
qed

text \<open>One sector: the chunk copied into the buffer, seen through the view.\<close>

lemma sector_iff:
  assumes "0 < n"
  shows "(d - d mod n \<le> x \<and> x < d - d mod n + n) \<longleftrightarrow> x div n = d div (n :: nat)"
proof -
  have b: "d - d mod n = d div n * n" by (simp add: minus_mod_eq_div_mult)
  show ?thesis
  proof
    assume "d - d mod n \<le> x \<and> x < d - d mod n + n"
    then show "x div n = d div n"
      unfolding b by (intro div_nat_eqI) (auto simp: mult.commute)
  next
    assume "x div n = d div n"
    with div_times_less_eq_dividend [of x n] dividend_less_div_times [OF assms, of x]
    show "d - d mod n \<le> x \<and> x < d - d mod n + n" unfolding b by simp
  qed
qed

lemma overlay_splice:
  assumes "length b = n" "d mod n + length c \<le> n"
  shows "overlay m (d - d mod n) (splice_at b (d mod n) c) =
    (\<lambda>x. if d \<le> x \<and> x < d + length c then c ! (x - d) else overlay m (d - d mod n) b x)"
proof
  fix x
  have "d mod n \<le> d" by simp
  with assms show "overlay m (d - d mod n) (splice_at b (d mod n) c) x =
    (if d \<le> x \<and> x < d + length c then c ! (x - d) else overlay m (d - d mod n) b x)"
    by (auto simp: overlay_def nth_splice_at)
qed

lemma chunk_sector:
  assumes "0 < n" "d mod n + l \<le> n" "0 < (l :: nat)"
  shows "(d + l - 1) div n = d div n"
proof -
  have "d - d mod n \<le> d + l - 1 \<and> d + l - 1 < d - d mod n + n"
    using assms mod_less_eq_dividend [of d n] by linarith
  then show ?thesis by (simp only: sector_iff [OF assms(1)])
qed

lemma overlay_splice_open:
  assumes "0 < n" "length b = n" "d mod n + length c \<le> n" "c \<noteq> []"
  shows "overlay m (d - d mod n) (splice_at b (d mod n) c) =
    flash_merge n er (Some (d div n)) (overlay m (d - d mod n) b) d c"
proof -
  have "(d + length c - 1) div n = d div n" using assms by (intro chunk_sector) auto
  with assms show ?thesis by (auto simp: overlay_splice flash_merge_def fun_eq_iff)
qed

lemma overlay_splice_fresh:
  assumes "0 < n" "d mod n + length c \<le> n" "c \<noteq> []" "opn \<noteq> Some (d div n)"
  shows "overlay m (d - d mod n) (splice_at (replicate n er) (d mod n) c) = flash_merge n er opn m d c"
proof
  fix x
  have k: "(d + length c - 1) div n = d div n" using assms by (intro chunk_sector) auto
  have "overlay m (d - d mod n) (replicate n er) x = (if x div n = d div n then er else m x)"
    using sector_iff [OF assms(1), of d x] by (auto simp: overlay_def)
  with assms k show "overlay m (d - d mod n) (splice_at (replicate n er) (d mod n) c) x = flash_merge n er opn m d c x"
    by (auto simp: overlay_splice flash_merge_def)
qed

subsection \<open>The sector loop refines the merge\<close>

lemma unat_u32_bound: "unat (x :: u32) < 2 ^ 32"
  using unsigned_less [of x, where 'a = nat] by simp

lemma sector_words:
  fixes dest sz :: u32
  assumes "sz \<noteq> 0"
  shows "unat (dest mod sz) = unat dest mod unat sz"
    and "unat (dest - dest mod sz) = unat dest - unat dest mod unat sz"
    and "unat (sz - dest mod sz) = unat sz - unat dest mod unat sz"
proof -
  have z: "0 < unat sz" using assms by (simp only: unat_gt_0 not_False_eq_True)
  show o: "unat (dest mod sz) = unat dest mod unat sz" by (simp add: unat_mod_distrib)
  have "dest mod sz \<le> dest" unfolding word_le_nat_alt o by simp
  then show "unat (dest - dest mod sz) = unat dest - unat dest mod unat sz" by (simp add: unat_sub o)
  have "dest mod sz \<le> sz" unfolding word_le_nat_alt o using mod_less_divisor [OF z, of "unat dest"] by simp
  then show "unat (sz - dest mod sz) = unat sz - unat dest mod unat sz" by (simp add: unat_sub o)
qed

lemma flash_ok_size:
  assumes "flash_ok f"
  shows "f_buf_size f \<noteq> 0" and "0 < unat (f_buf_size f)"
  using assms unfolding unat_gt_0 by (auto simp: flash_ok_def)

lemma flash_open_iff:
  assumes "flash_ok f" "f_buf f = Some (p, b)" "dest - dest mod f_buf_size f \<noteq> -1"
  shows "dest - dest mod f_buf_size f = f_buf_addr f \<longleftrightarrow> flash_open f = Some (unat dest div unat (f_buf_size f))"
proof -
  let ?n = "unat (f_buf_size f)" and ?base = "dest - dest mod f_buf_size f"
  have z: "f_buf_size f \<noteq> 0" "0 < ?n" using flash_ok_size [OF assms(1)] .
  have ub: "unat ?base = unat dest div ?n * ?n"
    unfolding sector_words [OF z(1)] by (rule minus_mod_eq_div_mult)
  show ?thesis
  proof
    assume e: "?base = f_buf_addr f"
    with assms(3) have "f_buf_addr f \<noteq> -1" by simp
    with assms(2) z ub show "flash_open f = Some (unat dest div ?n)"
      by (simp add: flash_open_def flip: e)
  next
    assume o: "flash_open f = Some (unat dest div ?n)"
    with assms(2) have a: "f_buf_addr f \<noteq> -1" and d: "unat (f_buf_addr f) div ?n = unat dest div ?n"
      by (auto simp: flash_open_def split: if_splits)
    from a assms(1,2) have "?n dvd unat (f_buf_addr f)" by (simp add: flash_ok_def)
    then have "unat (f_buf_addr f) = unat (f_buf_addr f) div ?n * ?n" by simp
    then have "unat (f_buf_addr f) = unat ?base" by (simp only: d ub)
    then show "?base = f_buf_addr f" by (metis word_unat_eq_iff)
  qed
qed

text \<open>Opening another sector programs the one in the buffer: the flash is then what the view was.\<close>

definition flash_flush :: "'w target_flash \<Rightarrow> u8 list \<Rightarrow> int \<Rightarrow> 'w \<Rightarrow> (int \<times> 'w) option" where
  "flash_flush f b ret w = (if f_buf_addr f \<noteq> -1
     then do { (r, w) \<leftarrow> f_write f (f_buf_addr f) b w; Some (ret OR r, w) } else Some (ret, w))"

lemma flash_flush_commits:
  assumes "flash_device hp (f_write f) content ok" and "f_buf f = Some (p, b)" and "ok w"
  obtains w1 where "flash_flush f b ret w = Some (ret, w1)" "ok w1" "content w1 = flash_view content f w"
proof (cases "f_buf_addr f = -1")
  case True
  with assms show thesis by (intro that [of w]) (simp_all add: flash_flush_def flash_view_def)
next
  case False
  from assms(1,3) obtain w1 where "f_write f (f_buf_addr f) b w = Some (0, w1)" "ok w1"
    "content w1 = overlay (content w) (unat (f_buf_addr f)) b"
    unfolding flash_device_def by blast
  with False assms show thesis by (intro that [of w1]) (simp_all add: flash_flush_def flash_view_def)
qed

lemma sector_base_valid:
  fixes dest :: u32
  assumes "sz \<noteq> 0" "src \<noteq> []" "unat dest + length src < 2 ^ 32"
  shows "dest - dest mod sz \<noteq> -1"
proof
  assume e: "dest - dest mod sz = -1"
  have "unat (-1 :: u32) = 2 ^ 32 - 1" by (simp add: unsigned_minus_1_eq_mask mask_eq_exp_minus_1)
  then have "unat dest - unat dest mod unat sz = 2 ^ 32 - 1" by (simp only: e flip: sector_words(2) [OF assms(1)])
  moreover have "unat dest < 2 ^ 32 - 1" using assms by (cases src) auto
  ultimately show False by linarith
qed

text \<open>One turn of the loop.\<close>

lemma flash_write_sectors_step:
  fixes dest :: u32
  assumes dev: "flash_device hp (f_write f) content ok" and f: "flash_ok f" "f_buf f = Some (p, b)"
    and src: "src \<noteq> []" "unat dest + length src < 2 ^ 32" and w: "ok w"
    and n: "n = unat (f_buf_size f)" and s: "s = min (n - unat dest mod n) (length src)"
  shows "\<exists>b1 w1. flash_write_sectors f dest src ret w =
      flash_write_sectors (f\<lparr>f_buf_addr := dest - dest mod f_buf_size f, f_buf := Some (p, b1)\<rparr>)
        (dest + word_of_nat s) (drop s src) ret w1 \<and>
    ok w1 \<and> length b1 = n \<and> dest - dest mod f_buf_size f \<noteq> -1 \<and>
    overlay (content w1) (unat dest - unat dest mod n) b1 =
      flash_merge n (f_erased f) (flash_open f) (flash_view content f w) (unat dest) (take s src)"
    (is "\<exists>b1 w1. ?run b1 w1 \<and> ?post b1 w1")
proof -
  let ?base = "dest - dest mod f_buf_size f" and ?o = "unat dest mod n"
  note z = flash_ok_size [OF f(1), folded n]
  note sw = sector_words [OF z(1), of dest, folded n]
  note nb = sector_base_valid [OF z(1) src]
  have l: "length b = n" using f by (simp add: flash_ok_def n)
  have m: "?o < n" using z by simp
  have s0: "0 < s" "?o + s \<le> n" "take s src \<noteq> []" "length (take s src) = s" using m src s by auto
  have sl: "min (unat (f_buf_size f - dest mod f_buf_size f)) (length src) = s" by (simp only: sw s)
  show ?thesis
  proof (cases "?base = f_buf_addr f")
    case True
    let ?b1 = "splice_at b ?o (take s src)"
    have "flash_open f = Some (unat dest div n)" using flash_open_iff [OF f nb] True unfolding n by blast
    moreover have "flash_view content f w = overlay (content w) (unat dest - ?o) b"
      using f nb by (simp add: flash_view_def flip: True) (simp only: sw)
    ultimately have "?post ?b1 w" using z s0 l w nb by (simp add: overlay_splice_open)
    moreover have "?run ?b1 w"
      using True z(1) f(2) src(1) s0 l
      by (subst flash_write_sectors.simps) (simp only: Let_def sl, simp add: sw flip: s)
    ultimately show ?thesis by blast
  next
    case False
    let ?b1 = "splice_at (replicate n (f_erased f)) ?o (take s src)"
    obtain w1 where w1: "flash_flush f b ret w = Some (ret, w1)" "ok w1" "content w1 = flash_view content f w"
      using flash_flush_commits [OF dev f(2) w] .
    have "flash_open f \<noteq> Some (unat dest div n)" using flash_open_iff [OF f nb] False unfolding n by blast
    then have "?post ?b1 w1" using z s0 w1 nb by (simp add: overlay_splice_fresh)
    moreover have "?run ?b1 w1"
      using False z(1) f(2) src(1) s0
      by (subst flash_write_sectors.simps)
        (simp only: Let_def sl flash_flush_def [symmetric] w1(1), simp add: sw w1(1) flash_flush_def [symmetric] flip: n s)
    ultimately show ?thesis by blast
  qed
qed

lemma sector_dvd:
  fixes dest :: u32
  assumes "sz \<noteq> 0"
  shows "unat sz dvd unat (dest - dest mod sz)"
  unfolding sector_words [OF assms] by (simp only: minus_mod_eq_div_mult dvd_triv_right)

text \<open>The sector open after a write.\<close>

definition flash_last :: "nat \<Rightarrow> nat option \<Rightarrow> nat \<Rightarrow> u8 list \<Rightarrow> nat option" where
  "flash_last n opn d src = (if src = [] then opn else Some ((d + length src - 1) div n))"

lemma flash_write_sectors_refines:
  assumes "flash_device hp (f_write f) content ok" and "flash_ok f" "f_buf f = Some (p, b)"
    and "unat dest + length src < 2 ^ 32" and "ok w"
  shows "\<exists>f' w'. flash_write_sectors f dest src ret w = Some ((ret, f'), w') \<and> ok w' \<and> flash_ok f' \<and>
    (\<exists>a b'. f' = f\<lparr>f_buf_addr := a, f_buf := Some (p, b')\<rparr>) \<and>
    flash_open f' = flash_last (unat (f_buf_size f)) (flash_open f) (unat dest) src \<and>
    flash_view content f' w' =
      flash_merge (unat (f_buf_size f)) (f_erased f) (flash_open f) (flash_view content f w) (unat dest) src"
  using assms
proof (induction "length src" arbitrary: f b dest src w rule: less_induct)
  case less
  show ?case
  proof (cases "src = []")
    case True
    have "f = f\<lparr>f_buf_addr := f_buf_addr f, f_buf := Some (p, b)\<rparr>" using less.prems(3) by simp
    then have "\<exists>a b'. f = f\<lparr>f_buf_addr := a, f_buf := Some (p, b')\<rparr>" by blast
    moreover have "flash_write_sectors f dest src ret w = Some ((ret, f), w)"
      using True by (subst flash_write_sectors.simps) simp
    ultimately show ?thesis using True less.prems by (intro exI [of _ f] exI [of _ w]) (auto simp: flash_last_def)
  next
    case False
    define n where "n = unat (f_buf_size f)"
    define s where "s = min (n - unat dest mod n) (length src)"
    note z = flash_ok_size [OF less.prems(2), folded n_def]
    from flash_write_sectors_step [OF less.prems(1-3) False less.prems(4,5) n_def s_def, of ret]
    obtain b1 w1 where step: "flash_write_sectors f dest src ret w =
        flash_write_sectors (f\<lparr>f_buf_addr := dest - dest mod f_buf_size f, f_buf := Some (p, b1)\<rparr>)
          (dest + word_of_nat s) (drop s src) ret w1"
      and w1: "ok w1" "length b1 = n" "dest - dest mod f_buf_size f \<noteq> -1"
      and v1: "overlay (content w1) (unat dest - unat dest mod n) b1 =
        flash_merge n (f_erased f) (flash_open f) (flash_view content f w) (unat dest) (take s src)"
      by blast
    let ?f1 = "f\<lparr>f_buf_addr := dest - dest mod f_buf_size f, f_buf := Some (p, b1)\<rparr>"
    have s0: "0 < s" "s \<le> length src" using False mod_less_divisor [OF z(2), of "unat dest"] by (auto simp: s_def)
    have f1: "flash_ok ?f1" using z w1 sector_dvd [OF z(1)] by (simp add: flash_ok_def n_def)
    have o1: "flash_open ?f1 = Some (unat dest div n)"
      using flash_open_iff [OF f1, of p b1 dest] w1 by (simp add: n_def)
    have d1: "unat (dest + word_of_nat s) = unat dest + s"
      using less.prems(4) s0 by (simp add: unat_word_ariths unsigned_of_nat take_bit_eq_mod)
    have vv: "flash_view content ?f1 w1 =
      flash_merge n (f_erased f) (flash_open f) (flash_view content f w) (unat dest) (take s src)"
      using w1 v1 by (simp add: flash_view_def sector_words [OF z(1)] flip: n_def)
    have "\<exists>f' w'. flash_write_sectors ?f1 (dest + word_of_nat s) (drop s src) ret w1 = Some ((ret, f'), w') \<and> ok w' \<and>
      flash_ok f' \<and> (\<exists>a b'. f' = ?f1\<lparr>f_buf_addr := a, f_buf := Some (p, b')\<rparr>) \<and>
      flash_open f' = flash_last n (Some (unat dest div n)) (unat dest + s) (drop s src) \<and>
      flash_view content f' w' = flash_merge n (f_erased f) (Some (unat dest div n)) (flash_view content ?f1 w1)
        (unat dest + s) (drop s src)"
      using less.hyps [of "drop s src" ?f1 b1 "dest + word_of_nat s" w1] less.prems s0 w1 f1 False
      by (simp add: o1 d1 flip: n_def)
    moreover have "flash_merge n (f_erased f) (Some (unat dest div n)) (flash_view content ?f1 w1) (unat dest + s) (drop s src) =
      flash_merge n (f_erased f) (flash_open f) (flash_view content f w) (unat dest) src"
    proof (cases "s = length src")
      case True
      then show ?thesis by (simp add: vv)
    next
      case ns: False
      then have "s = n - unat dest mod n" "s < length src" using s0 by (auto simp: s_def)
      moreover then have "unat dest + s = (unat dest div n + 1) * n"
        using mod_less_divisor [OF z(2), of "unat dest"] div_mult_mod_eq [of "unat dest" n]
        unfolding add_mult_distrib by linarith
      ultimately show ?thesis using z s0 unfolding vv by (intro flash_merge_split)
    qed
    moreover have "flash_last n (Some (unat dest div n)) (unat dest + s) (drop s src) = flash_last n (flash_open f) (unat dest) src"
    proof (cases "s = length src")
      case True
      then have "unat dest mod n + length src \<le> n" using mod_less_divisor [OF z(2), of "unat dest"] by (simp add: s_def)
      from chunk_sector [OF z(2) this] True False show ?thesis by (simp add: flash_last_def)
    next
      case ns: False
      then show ?thesis using s0 by (auto simp: flash_last_def)
    qed
    ultimately show ?thesis unfolding step n_def by fastforce
  qed
qed

text \<open>A closed buffer is opened by the first write; the allocator must have a block for it.\<close>

definition flash_buffer_available :: "'w heap_ops \<Rightarrow> 'w target_flash \<Rightarrow> 'w \<Rightarrow> bool" where
  "flash_buffer_available hp f w \<longleftrightarrow> f_buf f \<noteq> None \<or> fst (mm_alloc hp (unat (f_buf_size f)) w) \<noteq> None"

lemma flash_write_buffered_merges:
  assumes dev: "flash_device hp (f_write f) content ok" and f: "flash_ok f"
    and av: "flash_buffer_available hp f w"
    and len: "unat dest + length src < 2 ^ 32" and w: "ok w"
  obtains f' w' a p b where "target_flash_write_buffered hp f dest src w = Some ((0, f'), w')"
    "ok w'" "flash_ok f'" "f' = f\<lparr>f_buf_addr := a, f_buf := Some (p, b)\<rparr>"
    "flash_open f' = flash_last (unat (f_buf_size f)) (flash_open f) (unat dest) src"
    "flash_view content f' w' =
      flash_merge (unat (f_buf_size f)) (f_erased f) (flash_open f) (flash_view content f w) (unat dest) src"
proof (cases "f_buf f")
  case (Some pb)
  obtain p b where pb: "f_buf f = Some (p, b)" using Some by (cases pb) auto
  from flash_write_sectors_refines [OF dev f pb len w, of 0] pb show thesis
    by (auto simp: target_flash_write_buffered_def intro: that)
next
  case None
  obtain q w0 where alloc: "mm_alloc hp (unat (f_buf_size f)) w = (q, w0)" by (cases "mm_alloc hp (unat (f_buf_size f)) w")
  then obtain p where q: "q = Some p" using av None by (auto simp: flash_buffer_available_def)
  have w0: "ok w0" "content w0 = content w" using dev w alloc unfolding flash_device_def by blast+
  let ?f0 = "f\<lparr>f_buf := Some (p, replicate (unat (f_buf_size f)) 0), f_buf_addr := -1\<rparr>"
  have "flash_device hp (f_write ?f0) content ok" "flash_ok ?f0" "f_buf ?f0 = Some (p, replicate (unat (f_buf_size f)) 0)"
    using dev f by (simp_all add: flash_ok_def)
  from flash_write_sectors_refines [OF this len w0(1), of 0] None alloc q w0 show thesis
    by (auto simp: target_flash_write_buffered_def flash_view_def flash_open_def intro: that)
qed

lemma flash_done_buffered_commits:
  assumes dev: "flash_device hp (f_write f) content ok" and w: "ok w"
  obtains f' w' where "target_flash_done_buffered hp f w = Some ((0, f'), w')" "ok w'"
    "content w' = flash_view content f w" "flash_open f' = None"
proof (cases "f_buf f")
  case None
  with w show thesis by (intro that [of f w]) (simp_all add: target_flash_done_buffered_def flash_view_def flash_open_def)
next
  case (Some pb)
  obtain p b where pb: "f_buf f = Some (p, b)" using Some by (cases pb) auto
  show thesis
  proof (cases "f_buf_addr f = -1")
    case True
    with w pb show thesis
      by (intro that [of f w]) (simp_all add: target_flash_done_buffered_def flash_view_def flash_open_def)
  next
    case False
    from dev w obtain w1 where w1: "f_write f (f_buf_addr f) b w = Some (0, w1)" "ok w1"
      "content w1 = overlay (content w) (unat (f_buf_addr f)) b"
      unfolding flash_device_def by blast
    from dev w1(2) have "ok (mm_free hp (Some p) w1)" "content (mm_free hp (Some p) w1) = content w1"
      unfolding flash_device_def by blast+
    with False pb w1 show thesis
      by (intro that [of "f\<lparr>f_buf_addr := -1, f_buf := None\<rparr>" "mm_free hp (Some p) w1"])
        (simp_all add: target_flash_done_buffered_def flash_view_def flash_open_def)
  qed
qed

subsection \<open>What the host gets\<close>

text \<open>
  C8. Writing \<open>src\<close> at \<open>dest\<close> through the sector buffer and then finishing programs the
  flash with exactly the specified merge: the data at their addresses, the rest of the touched
  sectors erased (except what the buffer already held for the sector open at the start), every other
  byte as it was. Both calls report success and no sector is left open.
\<close>

theorem flash_write_done_programs:
  assumes "flash_device hp (f_write f) content ok" and "flash_ok f" and "flash_buffer_available hp f w"
    and "unat dest + length src < 2 ^ 32" and "ok w"
  shows "\<exists>f' w' f'' w''. target_flash_write_buffered hp f dest src w = Some ((0, f'), w') \<and>
    target_flash_done_buffered hp f' w' = Some ((0, f''), w'') \<and> flash_open f'' = None \<and>
    content w'' =
      flash_merge (unat (f_buf_size f)) (f_erased f) (flash_open f) (flash_view content f w) (unat dest) src"
proof -
  obtain f' w' a p b where 1: "target_flash_write_buffered hp f dest src w = Some ((0, f'), w')" "ok w'"
    "f' = f\<lparr>f_buf_addr := a, f_buf := Some (p, b)\<rparr>" "flash_view content f' w' =
      flash_merge (unat (f_buf_size f)) (f_erased f) (flash_open f) (flash_view content f w) (unat dest) src"
    using flash_write_buffered_merges [OF assms] by metis
  then have "flash_device hp (f_write f') content ok" using assms(1) by simp
  from flash_done_buffered_commits [OF this 1(2)] 1 show ?thesis by metis
qed

text \<open>Writing in pieces is writing at once.\<close>

lemma flash_merge_append:
  assumes n: "0 < n"
  shows "flash_merge n er (flash_last n opn d xs) (flash_merge n er opn v d xs) (d + length xs) ys =
    flash_merge n er opn v d (xs @ ys)"
proof (cases "xs = [] \<or> ys = []")
  case True
  then show ?thesis by (auto simp: flash_last_def)
next
  case False
  then have ne: "xs \<noteq> []" "ys \<noteq> []" by auto
  let ?s = "length xs" and ?L = "length xs + length ys"
  let ?k = "(d + ?s - 1) div n" and ?k' = "(d + ?s) div n" and ?K = "(d + ?L - 1) div n"
  have o: "flash_last n opn d xs = Some ?k" using ne by (simp add: flash_last_def)
  have "0 < ?s" "0 < length ys" using ne by auto
  then have le: "d \<le> d + ?s - 1" "d + ?s - 1 \<le> d + ?s" "d + ?s \<le> d + ?L - 1" by linarith+
  have ks: "d div n \<le> ?k" "?k \<le> ?k'" "?k' \<le> ?K" using le by (simp_all only: div_le_mono)
  have "d + ?s = Suc (d + ?s - 1)" using ne by (cases xs) auto
  with div_Suc [of "d + ?s - 1" n] have k1: "?k' \<le> ?k + 1" by (auto split: if_splits)
  show ?thesis
  proof
    fix x
    consider "x < d" | "d \<le> x" "x < d + ?s" | "d + ?s \<le> x" "x < d + ?L" | "d + ?L \<le> x" by linarith
    then show "flash_merge n er (flash_last n opn d xs) (flash_merge n er opn v d xs) (d + ?s) ys x =
      flash_merge n er opn v d (xs @ ys) x"
    proof cases
      case 1
      then show ?thesis using ne ks k1 o by (auto simp: flash_merge_def add.assoc)
    next
      case 2
      then have "x \<le> d + ?s - 1" by simp
      from div_le_mono [OF this, of n] have "x div n \<le> ?k" .
      with 2 show ?thesis using ne ks k1 o by (auto simp: flash_merge_def nth_append add.assoc)
    next
      case 3
      then show ?thesis using ne by (auto simp: flash_merge_def nth_append add.assoc)
    next
      case 4
      then have "d + ?L - 1 \<le> x" by simp
      from div_le_mono [OF this, of n] have "?K \<le> x div n" .
      with 4 show ?thesis using ne ks k1 o by (auto simp: flash_merge_def add.assoc)
    qed
  qed
qed

lemma flash_last_append:
  "flash_last n (flash_last n opn d xs) (d + length xs) ys = flash_last n opn d (xs @ ys)"
  by (simp add: flash_last_def add.assoc)

text \<open>
  C13. The host may cut the image as it likes: two writes of adjacent pieces leave the same view of the
  flash, with the same sector open, as one write of the whole, even where the cut is inside a sector.
\<close>

theorem flash_write_in_pieces:
  assumes "flash_device hp (f_write f) content ok" and "flash_ok f" and "flash_buffer_available hp f w"
    and "unat dest + length (xs @ ys) < 2 ^ 32" and "ok w"
  shows "\<exists>f1 w1 f2 w2 f3 w3.
    target_flash_write_buffered hp f dest xs w = Some ((0, f1), w1) \<and>
    target_flash_write_buffered hp f1 (dest + word_of_nat (length xs)) ys w1 = Some ((0, f2), w2) \<and>
    target_flash_write_buffered hp f dest (xs @ ys) w = Some ((0, f3), w3) \<and>
    flash_view content f2 w2 = flash_view content f3 w3 \<and> flash_open f2 = flash_open f3"
proof -
  let ?n = "unat (f_buf_size f)" and ?d1 = "dest + word_of_nat (length xs)"
  note z = flash_ok_size(2) [OF assms(2)]
  have len: "unat dest + length xs < 2 ^ 32" using assms(4) by simp
  obtain f1 w1 a p b where 1: "target_flash_write_buffered hp f dest xs w = Some ((0, f1), w1)" "ok w1" "flash_ok f1"
    and f1: "f1 = f\<lparr>f_buf_addr := a, f_buf := Some (p, b)\<rparr>" "flash_open f1 = flash_last ?n (flash_open f) (unat dest) xs"
      "flash_view content f1 w1 = flash_merge ?n (f_erased f) (flash_open f) (flash_view content f w) (unat dest) xs"
    using flash_write_buffered_merges [OF assms(1-3) len assms(5)] .
  have d1: "unat ?d1 = unat dest + length xs"
    using len by (simp add: unat_word_ariths unsigned_of_nat take_bit_eq_mod)
  have "flash_device hp (f_write f1) content ok" "flash_buffer_available hp f1 w1" "unat ?d1 + length ys < 2 ^ 32"
    using assms(1,4) f1(1) d1 by (simp_all add: flash_buffer_available_def)
  from flash_write_buffered_merges [OF this(1) 1(3) this(2,3) 1(2)]
  obtain f2 w2 where 2: "target_flash_write_buffered hp f1 ?d1 ys w1 = Some ((0, f2), w2)"
    "flash_open f2 = flash_last (unat (f_buf_size f1)) (flash_open f1) (unat ?d1) ys"
    "flash_view content f2 w2 =
      flash_merge (unat (f_buf_size f1)) (f_erased f1) (flash_open f1) (flash_view content f1 w1) (unat ?d1) ys"
    by metis
  obtain f3 w3 where 3: "target_flash_write_buffered hp f dest (xs @ ys) w = Some ((0, f3), w3)"
    "flash_open f3 = flash_last ?n (flash_open f) (unat dest) (xs @ ys)"
    "flash_view content f3 w3 = flash_merge ?n (f_erased f) (flash_open f) (flash_view content f w) (unat dest) (xs @ ys)"
    using flash_write_buffered_merges [OF assms] by metis
  have sz: "f_buf_size f1 = f_buf_size f" "f_erased f1 = f_erased f" using f1(1) by simp_all
  have "flash_view content f2 w2 = flash_view content f3 w3"
    unfolding 2 3 f1(2,3) sz d1 by (rule flash_merge_append [OF z])
  moreover have "flash_open f2 = flash_open f3" unfolding 2 3 f1(2) sz d1 by (rule flash_last_append)
  ultimately show ?thesis using 1(1) 2(1) 3(1) by blast
qed

text \<open>A memory as the flash, for the witnesses: 4-byte sectors.\<close>

definition ram_heap :: "(nat \<Rightarrow> u8) heap_ops" where
  "ram_heap = \<lparr>mm_alloc = (\<lambda>n m. (Some 7, m)), mm_free = (\<lambda>p m. m)\<rparr>"

definition ram_flash :: "(nat \<Rightarrow> u8) target_flash" where
  "ram_flash = \<lparr>f_start = 0x100, f_length = 0x20, f_blocksize = 8,
     f_erase = (\<lambda>a l m. Some (0, overlay m (unat a) (replicate (unat l) 0xFF))),
     f_write = (\<lambda>a bs m. Some (0, overlay m (unat a) bs)), f_done = None,
     f_erased = 0xFF, f_buf_size = 4, f_buf_addr = 0, f_buf = None\<rparr>"

lemma ram_flash_hyps:
  "flash_device ram_heap (f_write ram_flash) (\<lambda>m. m) (\<lambda>m. True)" "flash_ok ram_flash"
  "flash_buffer_available ram_heap ram_flash m" "f_buf_size ram_flash = 4" "f_erased ram_flash = 0xFF"
  "flash_open ram_flash = None" "flash_view (\<lambda>m. m) ram_flash m = m"
  by (simp_all add: flash_device_def ram_heap_def ram_flash_def flash_ok_def flash_buffer_available_def
      flash_open_def flash_view_def)

theorem flash_write_done_programs_witness:
  "\<exists>f' w' f'' w''. target_flash_write_buffered ram_heap ram_flash 0x106 [1, 2, 3] (\<lambda>x. 0x55) = Some ((0, f'), w') \<and>
    target_flash_done_buffered ram_heap f' w' = Some ((0, f''), w'') \<and>
    map w'' [0x103..<0x10D] = [0x55, 0xFF, 0xFF, 1, 2, 3, 0xFF, 0xFF, 0xFF, 0x55]"
proof -
  from flash_write_done_programs [of ram_heap ram_flash "\<lambda>m. m" "\<lambda>m. True" "\<lambda>x. 0x55" "0x106" "[1, 2, 3]", OF ram_flash_hyps(1-3)]
  obtain f' w' f'' w'' where 1: "target_flash_write_buffered ram_heap ram_flash 0x106 [1, 2, 3] (\<lambda>x. 0x55) = Some ((0, f'), w')"
    "target_flash_done_buffered ram_heap f' w' = Some ((0, f''), w'')"
    and w'': "w'' = flash_merge 4 0xFF None (\<lambda>x. 0x55) 0x106 [1, 2, 3]"
    by (auto simp: ram_flash_hyps)
  have "map w'' [0x103..<0x10D] = [0x55, 0xFF, 0xFF, 1, 2, 3, 0xFF, 0xFF, 0xFF, 0x55]"
    by (simp add: w'' flash_merge_def upt_rec)
  with 1 show ?thesis by (intro exI [of _ f'] exI [of _ w'] exI [of _ f''] exI [of _ w'']) simp
qed

theorem flash_write_in_pieces_witness:
  "\<exists>f1 w1 f2 w2 f3 w3. target_flash_write_buffered ram_heap ram_flash 0x106 [1, 2, 3] (\<lambda>x. 0) = Some ((0, f1), w1) \<and>
    target_flash_write_buffered ram_heap f1 0x109 [4] w1 = Some ((0, f2), w2) \<and>
    target_flash_write_buffered ram_heap ram_flash 0x106 [1, 2, 3, 4] (\<lambda>x. 0) = Some ((0, f3), w3) \<and>
    flash_view (\<lambda>m. m) f2 w2 = flash_view (\<lambda>m. m) f3 w3"
  using flash_write_in_pieces [of ram_heap ram_flash "\<lambda>m. m" "\<lambda>m. True" "\<lambda>x. 0" "0x106" "[1, 2, 3]" "[4]", OF ram_flash_hyps(1-3)] by auto

subsection \<open>Erasing across regions\<close>

definition flash_eraser :: "u8 \<Rightarrow> ('w \<Rightarrow> nat \<Rightarrow> u8) \<Rightarrow> ('w \<Rightarrow> bool) \<Rightarrow> 'w target_flash \<Rightarrow> bool" where
  "flash_eraser er content ok f \<longleftrightarrow>
     (\<forall>a l w. f_start f \<le> a \<longrightarrow> unat a + unat l \<le> unat (f_start f) + unat (f_length f) \<longrightarrow> ok w \<longrightarrow>
        (\<exists>w'. f_erase f a l w = Some (0, w') \<and> ok w' \<and>
           content w' = overlay (content w) (unat a) (replicate (unat l) er)))"

definition flash_covers :: "'w target_s \<Rightarrow> nat \<Rightarrow> nat \<Rightarrow> bool" where
  "flash_covers t a e \<longleftrightarrow> (\<forall>x. a \<le> x \<and> x < e \<longrightarrow> (\<exists>(p, f) \<in> set (t_flash t). unat (f_start f) \<le> x \<and> x < unat (flash_end f)))"

lemma flash_find_None:
  "flash_find fs addr = None \<longleftrightarrow> (\<forall>(p, f) \<in> set fs. \<not> (f_start f \<le> addr \<and> addr < flash_end f))"
  by (induction fs) (auto split: if_splits)

lemma overlay_replicate_append:
  "overlay (overlay m a (replicate j er)) (a + j) (replicate k er) = overlay m a (replicate (j + k) er)"
  by (auto simp: overlay_def fun_eq_iff)

lemma flash_piece:
  fixes a l e :: u32
  assumes "a < e" "unat a + unat l < 2 ^ 32"
  defines "c \<equiv> MIN_u32 (a + l) e - a"
  shows "unat c = min (unat l) (unat e - unat a)"
proof -
  have al: "unat (a + l) = unat a + unat l" using assms(2) by (simp add: unat_word_ariths)
  have ae: "unat (e - a) = unat e - unat a" using assms(1) by (simp add: unat_sub less_imp_le)
  show ?thesis
  proof (cases "a + l < e")
    case True
    then have "unat a + unat l < unat e" using al by (simp add: word_less_nat_alt)
    with True show ?thesis by (simp add: c_def MIN_u32_def)
  next
    case False
    then have "unat e \<le> unat a + unat l" using al by (simp add: word_less_nat_alt)
    with False ae show ?thesis by (simp add: c_def MIN_u32_def)
  qed
qed

lemma target_flash_erase_loop_erases:
  assumes "\<forall>(p, f) \<in> set (t_flash t). flash_eraser er content ok f \<and> unat (f_start f) + unat (f_length f) < 2 ^ 32"
    and "unat addr + unat len < 2 ^ 32" and "flash_covers t (unat addr) (unat addr + unat len)" and "ok w"
  shows "\<exists>w'. target_flash_erase_loop t addr len ret w = Some (ret, w') \<and> ok w' \<and>
    content w' = overlay (content w) (unat addr) (replicate (unat len) er)"
  using assms(2-)
proof (induction "unat len" arbitrary: addr len w rule: less_induct)
  case less
  show ?case
  proof (cases "len = 0")
    case True
    with less.prems show ?thesis by (subst target_flash_erase_loop.simps) (auto simp: overlay_def fun_eq_iff)
  next
    case False
    then have l0: "0 < unat len" by (simp only: unat_gt_0 not_False_eq_True)
    obtain i where i: "flash_find (t_flash t) addr = Some i"
    proof (cases "flash_find (t_flash t) addr")
      case None
      with less.prems(2) l0 show thesis
        unfolding flash_find_None flash_covers_def word_le_nat_alt word_less_nat_alt by force
    qed
    define f where "f = snd (t_flash t ! i)"
    define c where "c = MIN_u32 (addr + len) (flash_end f) - addr"
    from flash_find_Some [OF i] have f: "f_start f \<le> addr" "addr < flash_end f" "(fst (t_flash t ! i), f) \<in> set (t_flash t)"
      by (auto simp: f_def)
    then have er: "flash_eraser er content ok f" and nw: "unat (f_start f) + unat (f_length f) < 2 ^ 32" using assms(1) by auto
    have e: "unat (flash_end f) = unat (f_start f) + unat (f_length f)" using nw by (simp add: flash_end_def unat_word_ariths)
    have uc: "unat c = min (unat len) (unat (flash_end f) - unat addr)" unfolding c_def by (rule flash_piece [OF f(2) less.prems(1)])
    have c0: "0 < unat c" "unat c \<le> unat len" "unat addr + unat c \<le> unat (flash_end f)"
      using l0 f(2) by (auto simp: uc word_less_nat_alt)
    from er f(1) c0(3) less.prems(3) obtain w1 where w1: "f_erase f addr c w = Some (0, w1)" "ok w1"
      "content w1 = overlay (content w) (unat addr) (replicate (unat c) er)"
      unfolding flash_eraser_def e by blast
    have a1: "unat (addr + c) = unat addr + unat c" using less.prems(1) c0 by (simp add: unat_word_ariths)
    have l1: "unat (len - c) = unat len - unat c" using c0 by (simp add: unat_sub word_le_nat_alt)
    have "\<exists>w'. target_flash_erase_loop t (addr + c) (len - c) ret w1 = Some (ret, w') \<and> ok w' \<and>
      content w' = overlay (content w1) (unat (addr + c)) (replicate (unat (len - c)) er)"
      using less.prems c0 w1(2) by (intro less.hyps) (auto simp: a1 l1 flash_covers_def)
    moreover have "target_flash_erase_loop t addr len ret w = target_flash_erase_loop t (addr + c) (len - c) ret w1"
      using False i w1(1)
      by (subst target_flash_erase_loop.simps) (simp add: flash_for_addr_def Let_def flip: f_def c_def, simp add: c_def)
    ultimately show ?thesis using c0 by (auto simp: w1(3) a1 l1 overlay_replicate_append)
  qed
qed

text \<open>
  C14. \<open>target_flash_erase\<close> over a range that the registered regions cover, possibly several
  adjacent ones, hands every driver pieces inside its own region, erases exactly the range and
  reports success; the range and the regions end below \<open>2 ^ 32\<close>.
\<close>

theorem target_flash_erase_erases:
  assumes "\<forall>(p, f) \<in> set (t_flash t). flash_eraser er content ok f \<and> unat (f_start f) + unat (f_length f) < 2 ^ 32"
    and "unat addr + unat len < 2 ^ 32" and "flash_covers t (unat addr) (unat addr + unat len)" and "ok w"
  shows "\<exists>w'. target_flash_erase t addr len w = Some (0, w') \<and> ok w' \<and>
    content w' = overlay (content w) (unat addr) (replicate (unat len) er)"
  using target_flash_erase_loop_erases [OF assms] by (simp add: target_flash_erase_def)

text \<open>A target over a memory: two adjacent flash regions, a RAM, one breakpoint unit.\<close>

definition ram_target :: "(nat \<Rightarrow> u8) target_s" where
  "ram_target = \<lparr>t_attached = True, t_tc = None, t_attach = (\<lambda>m. Some (True, m)), t_detach = Some,
     t_check_error = (\<lambda>m. Some (False, m)),
     t_mem_read = (\<lambda>a n m. Some (map (\<lambda>i. m (unat a + i)) [0..<n], m)),
     t_mem_write = (\<lambda>a bs m. Some (overlay m (unat a) bs)),
     t_regs_size = 8, t_tdesc = None, t_regs_read = None, t_regs_write = None,
     t_reg_read = (\<lambda>i mx m. Some ((4, [word_of_nat i, 0, 0, 0]), m)),
     t_reg_write = (\<lambda>i d m. Some (4, m)),
     t_reset = Some, t_extended_reset = None, t_halt_request = Some,
     t_halt_poll = (\<lambda>m. Some ((TARGET_HALT_RUNNING, 0), m)), t_halt_resume = (\<lambda>s. Some),
     t_breakwatch_set = Some (\<lambda>b m. Some ((0, b), m)), t_breakwatch_clear = Some (\<lambda>b m. Some ((0, b), m)),
     t_bw_list = [], t_target_options = 0, t_designer = 0, t_idcode = 0, t_target_storage = None, t_unsafe_enabled = False,
     t_ram = [(9, \<lparr>r_start = 0x20000000, r_length = 0x400\<rparr>)],
     t_flash = [(7, ram_flash), (8, ram_flash\<lparr>f_start := 0x120\<rparr>)],
     t_driver = str ''RAM'', t_cpuid = 0, t_core = [], t_cmdline = replicate 81 0, t_heapinfo = [0, 0, 0, 0],
     t_commands = [], t_priv = None, t_priv_free = (\<lambda>p. Some)\<rparr>"

theorem target_flash_erase_erases_witness:
  "\<exists>m'. target_flash_erase ram_target 0x118 0x10 (\<lambda>x. 0) = Some (0, m') \<and>
    m' = overlay (\<lambda>x. 0) 0x118 (replicate 16 0xFF)"
proof -
  have "\<forall>(p, f) \<in> set (t_flash ram_target). flash_eraser 0xFF (\<lambda>m. m) (\<lambda>m. True) f \<and>
      unat (f_start f) + unat (f_length f) < 2 ^ 32"
    by (simp add: ram_target_def ram_flash_def flash_eraser_def)
  moreover have "flash_covers ram_target 0x118 (0x118 + 0x10)"
    by (auto simp: flash_covers_def ram_target_def ram_flash_def flash_end_def)
  ultimately show ?thesis
    using target_flash_erase_erases [of ram_target "0xFF" "\<lambda>m. m" "\<lambda>m. True" "0x118" "0x10" "\<lambda>x. 0"] by simp
qed

end
