(* ===== verification/Target_Access.thy ===== *)
theory Target_Access
  imports Target_Flash
begin

text \<open>
  Properties of the rest of \<open>target.c\<close>'s object-level interface: the break- and watchpoint
  list, the GDB memory map, the register file read and written one register at a time, and the word
  accessors.
\<close>

subsection \<open>Break- and watchpoints\<close>

lemma bw_search_Some:
  "bw_search type addr len bs = Some (us, b, vs) \<Longrightarrow>
     bs = us @ b # vs \<and> bw_matches type addr len b \<and> (\<forall>u \<in> set us. \<not> bw_matches type addr len u)"
  by (induction bs arbitrary: us) (auto simp del: bw_matches.simps split: if_splits)

lemma bw_search_None:
  "bw_search type addr len bs = None \<longleftrightarrow> (\<forall>b \<in> set bs. \<not> bw_matches type addr len b)"
  by (induction bs) auto

text \<open>A driver may fill in the reserved words of a breakpoint, not its type, address and size.\<close>

definition bw_driver :: "(breakwatch \<Rightarrow> 'w \<Rightarrow> ((int \<times> breakwatch) \<times> 'w) option) option \<Rightarrow> bool" where
  "bw_driver g \<longleftrightarrow> (\<forall>d b w r b' w'. g = Some d \<longrightarrow> d b w = Some ((r, b'), w') \<longrightarrow>
     bw_type b' = bw_type b \<and> bw_addr b' = bw_addr b \<and> bw_size b' = bw_size b)"

text \<open>
  A breakpoint that was set can be cleared: after a successful \<open>target_breakwatch_set\<close>
  the same request to \<open>target_breakwatch_clear\<close> finds the new entry, whatever was in the list,
  reaches the driver with the entry the driver made, and, when the driver agrees, restores the target
  and frees the block of the entry.
\<close>

theorem breakwatch_set_clear:
  assumes "bw_driver (t_breakwatch_set t)"
    and set: "target_breakwatch_set hp sz t type addr len w = Some ((0, t1), w1)"
  shows "\<exists>p bw. t_bw_list t1 = (p, bw) # t_bw_list t \<and> bw_type bw = type \<and> bw_addr bw = addr \<and> bw_size bw = len \<and>
    target_breakwatch_clear hp t1 type addr len w1 =
      (case t_breakwatch_clear t of
         None \<Rightarrow> Some ((1, t1), w1)
       | Some h \<Rightarrow> do { ((r, bw'), w2) \<leftarrow> h bw w1;
             Some (if r = 0 then ((0, t), mm_free hp (Some p) w2)
                   else ((r, t\<lparr>t_bw_list := (p, bw') # t_bw_list t\<rparr>), w2)) })"
proof -
  let ?bw = "\<lparr>bw_type = type, bw_addr = addr, bw_size = len, bw_reserved = [0, 0, 0, 0]\<rparr>"
  from set obtain r bw w0 where d: "(case t_breakwatch_set t of Some g \<Rightarrow> g ?bw w | None \<Rightarrow> Some ((1, ?bw), w)) = Some ((r, bw), w0)"
    and a: "(if r = 0 then (case mm_alloc hp sz w0 of
         (None, w) \<Rightarrow> Some ((1, t), w) | (Some p, w) \<Rightarrow> Some ((r, t\<lparr>t_bw_list := (p, bw) # t_bw_list t\<rparr>), w))
       else Some ((r, t), w0)) = Some ((0, t1), w1)"
    unfolding target_breakwatch_set_def Let_def by (auto simp: bind_eq_Some_conv)
  then have r: "r = 0" by (auto split: if_splits)
  with a obtain p where p: "t1 = t\<lparr>t_bw_list := (p, bw) # t_bw_list t\<rparr>"
    by (auto split: option.splits prod.splits)
  from d r obtain g where "t_breakwatch_set t = Some g" "g ?bw w = Some ((0, bw), w0)"
    by (auto split: option.splits)
  with assms(1) have "bw_type bw = type" "bw_addr bw = addr" "bw_size bw = len"
    by (fastforce simp: bw_driver_def)+
  with p show ?thesis
    by (intro exI [of _ p] exI [of _ bw])
      (simp add: target_breakwatch_clear_def split: option.split prod.split, intro allI impI bind_option_cong, auto)
qed

theorem breakwatch_set_clear_witness:
  "\<exists>t1. target_breakwatch_set ram_heap 32 ram_target 0 0x104 2 (\<lambda>x. 0) = Some ((0, t1), \<lambda>x. 0) \<and>
    target_breakwatch_clear ram_heap t1 0 0x104 2 (\<lambda>x. 0) = Some ((0, ram_target), \<lambda>x. 0)"
proof -
  have d: "bw_driver (t_breakwatch_set ram_target)" by (simp add: bw_driver_def ram_target_def)
  obtain t1 where t1: "target_breakwatch_set ram_heap 32 ram_target 0 0x104 2 (\<lambda>x. 0) = Some ((0, t1), \<lambda>x. 0)"
    by (simp add: target_breakwatch_set_def ram_target_def ram_heap_def)
  from breakwatch_set_clear [OF d t1] t1 show ?thesis
    by (auto simp: ram_target_def ram_heap_def)
qed

text \<open>
  Clearing is exact: with no entry of that type, address and size the call reports -1 and changes
  nothing; otherwise only the most recent such entry is concerned: it leaves the list when the
  driver reports success and stays otherwise, and every other entry stays, in order.
\<close>

theorem breakwatch_clear_exact:
  assumes "target_breakwatch_clear hp t type addr len w = Some ((r, t'), w')"
  shows "(r = -1 \<and> t' = t \<and> w' = w \<and> (\<forall>b \<in> set (t_bw_list t). \<not> bw_matches type addr len b)) \<or>
    (\<exists>us p bw vs. t_bw_list t = us @ (p, bw) # vs \<and> bw_matches type addr len (p, bw) \<and>
       (\<forall>u \<in> set us. \<not> bw_matches type addr len u) \<and>
       (\<exists>bw'. t' = t\<lparr>t_bw_list := us @ (if r = 0 then [] else [(p, bw')]) @ vs\<rparr>))"
proof (cases "bw_search type addr len (t_bw_list t)")
  case None
  with assms show ?thesis by (auto simp: target_breakwatch_clear_def bw_search_None)
next
  case (Some q)
  obtain us p bw vs where q: "q = (us, (p, bw), vs)" by (cases q) auto
  from bw_search_Some [OF Some [unfolded q]] have
    "t_bw_list t = us @ (p, bw) # vs \<and> bw_matches type addr len (p, bw) \<and> (\<forall>u \<in> set us. \<not> bw_matches type addr len u)" .
  moreover obtain bw' where "t' = t\<lparr>t_bw_list := us @ (if r = 0 then [] else [(p, bw')]) @ vs\<rparr>"
  proof -
    from assms Some q obtain r1 bw1 w1 where "(if r1 = 0 then Some ((r1, t\<lparr>t_bw_list := us @ vs\<rparr>), mm_free hp (Some p) w1)
        else Some ((r1, t\<lparr>t_bw_list := us @ (p, bw1) # vs\<rparr>), w1)) = Some ((r, t'), w')"
      by (auto simp: target_breakwatch_clear_def bind_eq_Some_conv)
    then show thesis by (intro that [of bw1]) (auto split: if_splits)
  qed
  ultimately show ?thesis by blast
qed

theorem breakwatch_clear_exact_witness:
  "\<exists>t'. target_breakwatch_clear ram_heap (ram_target\<lparr>t_bw_list :=
        [(5, \<lparr>bw_type = 0, bw_addr = 0x100, bw_size = 2, bw_reserved = []\<rparr>),
         (6, \<lparr>bw_type = 0, bw_addr = 0x104, bw_size = 2, bw_reserved = []\<rparr>)]\<rparr>) 0 0x104 2 (\<lambda>x. 0) = Some ((0, t'), \<lambda>x. 0) \<and>
     length (t_bw_list t') = 1"
proof -
  let ?t = "ram_target\<lparr>t_bw_list :=
        [(5, \<lparr>bw_type = 0, bw_addr = 0x100, bw_size = 2, bw_reserved = []\<rparr>),
         (6, \<lparr>bw_type = 0, bw_addr = 0x104, bw_size = 2, bw_reserved = []\<rparr>)]\<rparr>"
  obtain t' where c: "target_breakwatch_clear ram_heap ?t 0 0x104 2 (\<lambda>x. 0) = Some ((0, t'), \<lambda>x. 0)"
    by (simp add: target_breakwatch_clear_def ram_target_def ram_heap_def)
  from breakwatch_clear_exact [OF c] have "length (t_bw_list t') + 1 = length (t_bw_list ?t)"
  proof (elim disjE exE conjE)
    fix us p bw vs bw'
    assume "t_bw_list ?t = us @ (p, bw) # vs" "t' = ?t\<lparr>t_bw_list := us @ (if (0 :: int) = 0 then [] else [(p, bw')]) @ vs\<rparr>"
    from arg_cong [OF this(1), of length] arg_cong [OF this(2), of "\<lambda>t. length (t_bw_list t)"] show ?thesis by simp
  qed simp
  with c show ?thesis by (intro exI [of _ t']) simp
qed

subsection \<open>The memory map\<close>

definition ram_text :: "target_ram \<Rightarrow> u8 list" where
  "ram_text r = str ''<memory type=\"ram\" start=\"0x'' @ fmt_08x (r_start r) @
     str ''\" length=\"0x'' @ fmt_x (r_length r) @ str ''\"/>''"

definition flash_head :: "'w target_flash \<Rightarrow> u8 list" where
  "flash_head f = str ''<memory type=\"flash\" start=\"0x'' @ fmt_08x (f_start f) @
     str ''\" length=\"0x'' @ fmt_x (f_length f) @ str ''\">''"

definition flash_tail :: "'w target_flash \<Rightarrow> u8 list" where
  "flash_tail f = str ''<property name=\"blocksize\">0x'' @ fmt_x (f_blocksize f) @ str ''</property></memory>''"

definition flash_text :: "'w target_flash \<Rightarrow> u8 list" where
  "flash_text f = flash_head f @ flash_tail f"

definition mem_map_text :: "'w target_s \<Rightarrow> u8 list" where
  "mem_map_text t = ((str ''<memory-map>'' @ concat (map (ram_text \<circ> snd) (t_ram t))) @
     concat (map (flash_text \<circ> snd) (t_flash t))) @ str ''</memory-map>''"

text \<open>The printer after the text \<open>s\<close>: the buffer holds what fits, the position counts all of
  it; no state once the position has passed the end.\<close>

definition snp_rel :: "nat \<Rightarrow> u8 list \<Rightarrow> (u8 list \<times> nat) option \<Rightarrow> bool" where
  "snp_rel len s r \<longleftrightarrow> (case r of Some b \<Rightarrow> b = (take (len - 1) s, length s) | None \<Rightarrow> len < length s)"

lemma snp_rel_snprintf:
  "snp_rel len s r \<Longrightarrow> snp_rel len (s @ txt) (Option.bind r (snprintf_at len txt))"
  by (cases r) (auto simp: snp_rel_def snprintf_at_def min_def)

lemma snp_rel_each:
  assumes "\<And>x s r. snp_rel len s r \<Longrightarrow> snp_rel len (s @ txt x) (Option.bind r (g x))" and "snp_rel len s r"
  shows "snp_rel len (s @ concat (map txt xs)) (Option.bind r (map_each g xs))"
  using assms(2)
proof (induction xs arbitrary: s r)
  case Nil
  then show ?case by (cases r) simp_all
next
  case (Cons x xs)
  from Cons.IH [OF assms(1) [OF Cons.prems, of x]] show ?case by (cases r) simp_all
qed

lemma snp_rel_ram: "snp_rel len s r \<Longrightarrow> snp_rel len (s @ ram_text x) (Option.bind r (map_ram len x))"
  using snp_rel_snprintf [of len s r "ram_text x"] by (simp only: map_ram_def [abs_def] ram_text_def)

lemma snp_rel_flash:
  assumes "snp_rel len s r"
  shows "snp_rel len (s @ flash_text x) (Option.bind r (map_flash len x))"
proof -
  have "snp_rel len ((s @ flash_head x) @ flash_tail x)
    (Option.bind (Option.bind r (snprintf_at len (flash_head x))) (snprintf_at len (flash_tail x)))"
    by (intro snp_rel_snprintf assms)
  moreover have "map_flash len x b = Option.bind (snprintf_at len (flash_head x) b) (snprintf_at len (flash_tail x))" for b
    by (simp only: map_flash_def flash_head_def flash_tail_def)
  ultimately show ?thesis by (cases r) (simp_all only: flash_text_def append_assoc bind.simps)
qed

lemma snp_rel_done:
  "snp_rel len s r \<Longrightarrow> 2 \<le> len \<Longrightarrow>
     Option.bind r (\<lambda>(buf, i). Some (\<not> (i > len - 2), buf)) = Some (True, txt) \<longleftrightarrow> length s \<le> len - 2 \<and> txt = s"
  by (cases r) (auto simp: snp_rel_def)

text \<open>
  C18. \<open>target_mem_map\<close> succeeds exactly when the map fits into \<open>len - 2\<close> characters, and then
  the buffer holds the whole map: every RAM and flash region in list order, with its start, length and
  block size. A map that does not fit is reported as failure or leaves the buffer (no result), never as
  success.
\<close>

theorem target_mem_map_complete:
  assumes "2 \<le> len"
  shows "target_mem_map t len = Some (True, txt) \<longleftrightarrow> length (mem_map_text t) \<le> len - 2 \<and> txt = mem_map_text t"
proof -
  let ?start = "snprintf_at len (str ''<memory-map>'') ([], 0)"
  let ?full = "Option.bind (Option.bind (Option.bind ?start (map_each (map_ram len) (map snd (t_ram t))))
    (map_each (map_flash len) (map snd (t_flash t)))) (snprintf_at len (str ''</memory-map>''))"
  have "snp_rel len [] (Some ([], 0))" by (simp add: snp_rel_def)
  from snp_rel_snprintf [OF this, of "str ''<memory-map>''"]
  have "snp_rel len (str ''<memory-map>'') ?start"
    by (simp only: append_Nil bind.bind_lunit)
  from snp_rel_each [of len ram_text "map_ram len", OF snp_rel_ram this, of "map snd (t_ram t)"]
  have "snp_rel len (str ''<memory-map>'' @ concat (map (ram_text \<circ> snd) (t_ram t)))
    (Option.bind ?start (map_each (map_ram len) (map snd (t_ram t))))" by (simp only: map_map)
  from snp_rel_each [of len flash_text "map_flash len", OF snp_rel_flash this, of "map snd (t_flash t)"]
    snp_rel_snprintf
  have "snp_rel len (mem_map_text t) ?full" by (simp only: map_map mem_map_text_def)
  from snp_rel_done [OF this assms]
  show ?thesis by (simp only: target_mem_map_def bind_assoc)
qed

theorem target_mem_map_complete_witness:
  "target_mem_map ram_target 400 = Some (True, mem_map_text ram_target) \<and> length (mem_map_text ram_target) \<le> 398"
proof -
  have "length (mem_map_text ram_target) \<le> 398"
    by (simp add: mem_map_text_def ram_text_def flash_text_def flash_head_def flash_tail_def fmt_08x_def fmt_x_def
        hex_of_nat.simps ram_target_def ram_flash_def del: str_Cons)
  then show ?thesis using target_mem_map_complete [of 400 ram_target] by simp
qed

subsection \<open>The register file\<close>

text \<open>
  A driver without whole-file access: register \<open>i\<close> has the bytes \<open>rf w ! i\<close>, none empty, together
  \<open>t_regs_size\<close> of them; reading does not change them, writing puts the data there.
\<close>

definition reg_driver :: "('w \<Rightarrow> u8 list list) \<Rightarrow> nat list \<Rightarrow> 'w target_s \<Rightarrow> bool" where
  "reg_driver rf szs t \<longleftrightarrow> t_regs_read t = None \<and> t_regs_write t = None \<and> sum_list szs = t_regs_size t \<and>
     t_regs_size t < 2 ^ 31 \<and> (\<forall>s \<in> set szs. 0 < s) \<and>
     (\<forall>i mx w. map length (rf w) = szs \<longrightarrow> i < length szs \<longrightarrow> szs ! i \<le> mx \<longrightarrow>
        t_reg_read t i mx w = Some ((int (szs ! i), rf w ! i), w)) \<and>
     (\<forall>i d w. map length (rf w) = szs \<longrightarrow> i < length szs \<longrightarrow> szs ! i \<le> length d \<longrightarrow>
        (\<exists>w'. t_reg_write t i d w = Some (int (szs ! i), w') \<and> rf w' = (rf w)[i := take (szs ! i) d]))"

lemma sum_take_Suc: "i < length xs \<Longrightarrow> sum_list (take (Suc i) xs) = sum_list (take i xs) + xs ! i"
  by (simp add: take_Suc_conv_app_nth)

lemma sum_take_less:
  assumes "i < length xs" "\<forall>s \<in> set xs. 0 < (s :: nat)"
  shows "sum_list (take i xs) < sum_list xs" "xs ! i \<le> sum_list xs - sum_list (take i xs)"
proof -
  have "sum_list xs = sum_list (take i xs) + (xs ! i + sum_list (drop (Suc i) xs))"
    using assms(1) by (metis Cons_nth_drop_Suc append_take_drop_id sum_list.Cons sum_list_append)
  moreover have "0 < xs ! i" using assms by simp
  ultimately show "sum_list (take i xs) < sum_list xs" "xs ! i \<le> sum_list xs - sum_list (take i xs)" by simp_all
qed

lemma unat_small: "n < 2 ^ 31 \<Longrightarrow> unat (word_of_nat n :: u32) = n"
  by (simp add: unsigned_of_nat take_bit_eq_mod)

lemma take_splice_at:
  "i \<le> length b \<Longrightarrow> take (i + length xs) (splice_at b i xs) = take i b @ xs"
  by (simp add: splice_at_def)

lemma regs_read_loop:
  assumes d: "reg_driver rf szs t" and w: "map length (rf w) = szs"
    and "i \<le> length szs" "length data = t_regs_size t"
  shows "target_regs_read_loop t (word_of_nat (sum_list (take i szs))) i data w =
    Some (take (sum_list (take i szs)) data @ concat (drop i (rf w)), w)"
  using assms(3-)
proof (induction "length szs - i" arbitrary: i data)
  case 0
  moreover have "length (rf w) = length szs" using w by (metis length_map)
  ultimately have "take i szs = szs" "drop i (rf w) = []" by simp_all
  then show ?case using d 0 by (subst target_regs_read_loop.simps) (simp add: reg_driver_def unat_small)
next
  case (Suc n)
  let ?S = "sum_list (take i szs)"
  have i: "i < length szs" using Suc by simp
  have d': "sum_list szs = t_regs_size t" "t_regs_size t < 2 ^ 31" "\<forall>s \<in> set szs. 0 < s" using d by (auto simp: reg_driver_def)
  note S = sum_take_less [OF i d'(3), unfolded d'(1)] sum_take_Suc [OF i]
  have rd: "t_reg_read t i (t_regs_size t - ?S) w = Some ((int (szs ! i), rf w ! i), w)"
    using d w i S unfolding reg_driver_def by blast
  have li: "length (rf w ! i) = szs ! i" "i < length (rf w)" using w i by auto
  have dr: "drop i (rf w) = rf w ! i # drop (Suc i) (rf w)" using li by (simp add: Cons_nth_drop_Suc)
  have "target_regs_read_loop t (word_of_nat ?S) i data w =
    target_regs_read_loop t (word_of_nat (sum_list (take (Suc i) szs))) (i + 1) (splice_at data ?S (rf w ! i)) w"
    using S(1) d'(2) rd by (subst target_regs_read_loop.simps) (simp add: unat_small S(3))
  also have "\<dots> = Some (take (sum_list (take (Suc i) szs)) (splice_at data ?S (rf w ! i)) @ concat (drop (i + 1) (rf w)), w)"
    unfolding Suc_eq_plus1 [symmetric] using Suc.hyps(2) Suc.prems i S li by (intro Suc.hyps(1)) auto
  also have "take (sum_list (take (Suc i) szs)) (splice_at data ?S (rf w ! i)) @ concat (drop (i + 1) (rf w)) =
    take ?S data @ concat (drop i (rf w))"
    using S Suc.prems li take_splice_at [of ?S data "rf w ! i"] by (simp add: dr)
  finally show ?case .
qed

lemma regs_write_loop:
  assumes d: "reg_driver rf szs t" and "map length (rf w) = szs" "i \<le> length szs" "length data = t_regs_size t"
  shows "\<exists>w'. target_regs_write_loop t (word_of_nat (sum_list (take i szs))) i data w = Some w' \<and>
    map length (rf w') = szs \<and> take i (rf w') = take i (rf w) \<and> concat (drop i (rf w')) = drop (sum_list (take i szs)) data"
  using assms(2-)
proof (induction "length szs - i" arbitrary: i w)
  case 0
  moreover have "length (rf w) = length szs" using 0(2) by (metis length_map)
  ultimately have "take i szs = szs" "drop i (rf w) = []" by simp_all
  then show ?case using d 0 by (subst target_regs_write_loop.simps) (simp add: reg_driver_def unat_small)
next
  case (Suc n)
  let ?S = "sum_list (take i szs)"
  have i: "i < length szs" using Suc by simp
  have d': "sum_list szs = t_regs_size t" "t_regs_size t < 2 ^ 31" "\<forall>s \<in> set szs. 0 < s" using d by (auto simp: reg_driver_def)
  note S = sum_take_less [OF i d'(3), unfolded d'(1)] sum_take_Suc [OF i]
  let ?d = "take (t_regs_size t - ?S) (drop ?S data)"
  have "szs ! i \<le> length ?d" using S Suc.prems(3) by simp
  with d Suc.prems(1) i obtain w1 where w1: "t_reg_write t i ?d w = Some (int (szs ! i), w1)"
    "rf w1 = (rf w)[i := take (szs ! i) ?d]" unfolding reg_driver_def by blast
  have r1: "map length (rf w1) = szs"
    using Suc.prems(1,3) S i by (simp add: w1(2) map_update min_def)
  have nn: "n = length szs - Suc i" using Suc.hyps(2) by simp
  obtain w' where w': "target_regs_write_loop t (word_of_nat (sum_list (take (Suc i) szs))) (Suc i) data w1 = Some w'"
    "map length (rf w') = szs" "take (Suc i) (rf w') = take (Suc i) (rf w1)"
    "concat (drop (Suc i) (rf w')) = drop (sum_list (take (Suc i) szs)) data"
    using Suc.hyps(1) [OF nn r1 _ Suc.prems(3)] i by auto
  have lp: "target_regs_write_loop t (word_of_nat ?S) i data w = Some w'"
    using S(1) d'(2) w1(1) w'(1) by (subst target_regs_write_loop.simps) (simp add: unat_small S(3))
  have li: "i < length (rf w')" "i < length (rf w1)" "i < length (rf w)"
    using i w'(2) r1 Suc.prems(1) by (metis length_map)+
  have "rf w' ! i = take (Suc i) (rf w') ! i" by simp
  also have "\<dots> = take (szs ! i) (drop ?S data)"
    unfolding w'(3) using li S by (simp add: w1(2) min_def)
  finally have wi: "rf w' ! i = take (szs ! i) (drop ?S data)" .
  have "drop i (rf w') = rf w' ! i # drop (Suc i) (rf w')" using li by (simp add: Cons_nth_drop_Suc)
  then have "concat (drop i (rf w')) = take (szs ! i) (drop ?S data) @ drop (sum_list (take (Suc i) szs)) data"
    using wi w'(4) by simp
  also have "\<dots> = drop ?S data" by (simp add: S(3)) (metis append_take_drop_id drop_drop add.commute)
  finally have "concat (drop i (rf w')) = drop ?S data" .
  with lp have "target_regs_write_loop t (word_of_nat ?S) i data w = Some w' \<and> concat (drop i (rf w')) = drop ?S data" ..
  moreover have "take i (rf w') = take i (rf w)"
    using arg_cong [OF w'(3), of "take i"] by (simp add: w1(2) min_def)
  ultimately show ?case using w'(2) by blast
qed

text \<open>
  With a driver that accesses registers one at a time, writing a whole register file and reading
  it back gives the same bytes: the offsets of the generic loops agree with the register sizes, every
  register is written and read once, and both loops end.
\<close>

theorem target_regs_roundtrip:
  assumes "reg_driver rf szs t" and "map length (rf w) = szs" and "length data = t_regs_size t"
  shows "\<exists>w'. target_regs_write t data w = Some w' \<and> target_regs_read t w' = Some (data, w')"
proof -
  have n: "t_regs_read t = None" "t_regs_write t = None" using assms(1) by (simp_all add: reg_driver_def)
  from regs_write_loop [OF assms(1,2) _ assms(3), of 0] obtain w' where w':
    "target_regs_write_loop t 0 0 data w = Some w'" "map length (rf w') = szs" "concat (rf w') = data" by auto
  from regs_read_loop [OF assms(1) w'(2), of 0 "replicate (t_regs_size t) 0"]
  have "target_regs_read_loop t 0 0 (replicate (t_regs_size t) 0) w' = Some (concat (rf w'), w')" by simp
  with w' n show ?thesis by (simp add: target_regs_write_def target_regs_read_def)
qed

text \<open>Two registers of four and two bytes, kept at the addresses 0 and 4.\<close>

definition reg_target :: "(nat \<Rightarrow> u8) target_s" where
  "reg_target = ram_target\<lparr>t_regs_size := 6,
     t_reg_read := (\<lambda>i mx m. if i = 0 then Some ((4, map m [0..<4]), m) else Some ((2, map m [4..<6]), m)),
     t_reg_write := (\<lambda>i d m. if i = 0 then Some (4, overlay m 0 (take 4 d)) else Some (2, overlay m 4 (take 2 d)))\<rparr>"

lemma map_overlay_same: "map (overlay m a bs) [a..<a + length bs] = bs"
  by (rule nth_equalityI) (simp_all add: overlay_def)

lemma map_overlay_other: "a + length bs \<le> x \<or> y \<le> a \<Longrightarrow> map (overlay m a bs) [x..<y] = map m [x..<y]"
  by (auto simp: overlay_def)

definition reg_file :: "(nat \<Rightarrow> u8) \<Rightarrow> u8 list list" where
  "reg_file m = [map m [0..<4], map m [4..<6]]"

lemma reg_file_overlay:
  "4 \<le> length d \<Longrightarrow> reg_file (overlay m 0 (take 4 d)) = (reg_file m)[0 := take 4 d]"
  "2 \<le> length d \<Longrightarrow> reg_file (overlay m 4 (take 2 d)) = (reg_file m)[1 := take 2 d]"
proof -
  assume "4 \<le> length d"
  then have "length (take 4 d) = 4" by simp
  with map_overlay_same [of m 0 "take 4 d"] map_overlay_other [of 0 "take 4 d" 4 6 m]
  show "reg_file (overlay m 0 (take 4 d)) = (reg_file m)[0 := take 4 d]"
    unfolding reg_file_def by (simp only: add_0 list_update_code order_refl simp_thms)
next
  assume "2 \<le> length d"
  then have "length (take 2 d) = 2" by simp
  with map_overlay_same [of m 4 "take 2 d"] map_overlay_other [of 4 "take 2 d" 0 4 m]
  show "reg_file (overlay m 4 (take 2 d)) = (reg_file m)[1 := take 2 d]"
    unfolding reg_file_def by (simp add: upt_rec_numeral del: upt_rec_numeral)
qed

lemma reg_target_simps:
  "t_reg_write reg_target 0 d m = Some (4, overlay m 0 (take 4 d))"
  "t_reg_write reg_target 1 d m = Some (2, overlay m 4 (take 2 d))"
  "t_reg_read reg_target 0 mx m = Some ((4, reg_file m ! 0), m)"
  "t_reg_read reg_target 1 mx m = Some ((2, reg_file m ! 1), m)"
  "t_regs_read reg_target = None" "t_regs_write reg_target = None" "t_regs_size reg_target = 6"
  by (simp_all add: reg_target_def ram_target_def reg_file_def del: upt_rec_numeral)

lemma reg_target_driver: "reg_driver reg_file [4, 2] reg_target"
proof -
  have i: "i = 0 \<or> i = 1" if "i < length [4 :: nat, 2]" for i using that by auto
  have rd: "t_reg_read reg_target i mx m = Some ((int ([4, 2] ! i), reg_file m ! i), m)" if "i < length [4 :: nat, 2]" for i mx m
    using i [OF that] by (elim disjE) (simp_all add: reg_target_simps del: One_nat_def)
  have wr: "\<exists>m'. t_reg_write reg_target i d m = Some (int ([4, 2] ! i), m') \<and> reg_file m' = (reg_file m)[i := take ([4, 2] ! i) d]"
    if "i < length [4 :: nat, 2]" "[4, 2] ! i \<le> length d" for i d m
    using i [OF that(1)] that(2) reg_file_overlay [of d m] by (elim disjE) (simp_all add: reg_target_simps del: One_nat_def)
  show ?thesis unfolding reg_driver_def using rd wr by (simp add: reg_target_simps)
qed

theorem target_regs_roundtrip_witness:
  "\<exists>m'. target_regs_write reg_target [1, 2, 3, 4, 5, 6] (\<lambda>x. 0) = Some m' \<and>
    target_regs_read reg_target m' = Some ([1, 2, 3, 4, 5, 6], m')"
  using target_regs_roundtrip [OF reg_target_driver, of "\<lambda>x. 0" "[1, 2, 3, 4, 5, 6]"]
  by (simp add: reg_target_simps reg_file_def)

subsection \<open>Word access\<close>

lemma length_le_bytes [simp]: "length (le_bytes n v) = n"
  by (induction n arbitrary: v) simp_all

lemma le_bytes_numeral [simp]:
  "le_bytes (numeral k) v = word_of_nat (v mod 256) # le_bytes (pred_numeral k) (v div 256)"
  unfolding numeral_eq_Suc [of k] by simp

lemma le_word_le_bytes: "le_word (le_bytes n v) = v mod 256 ^ n"
proof (induction n arbitrary: v)
  case 0
  then show ?case by (simp add: le_word_def)
next
  case (Suc n)
  have "unat (word_of_nat (v mod 256) :: u8) = v mod 256" by (simp add: unsigned_of_nat take_bit_eq_mod)
  with Suc.IH [of "v div 256"] show ?case by (simp add: le_word_def mod_mult2_eq)
qed

text \<open>A memory-like target: reads return what the last writes put there.\<close>

definition mem_device :: "('w \<Rightarrow> nat \<Rightarrow> u8) \<Rightarrow> 'w target_s \<Rightarrow> bool" where
  "mem_device content t \<longleftrightarrow>
     (\<forall>a n w. t_mem_read t a n w = Some (map (\<lambda>i. content w (unat a + i)) [0..<n], w)) \<and>
     (\<forall>a bs w. \<exists>w'. t_mem_write t a bs w = Some w' \<and> content w' = overlay (content w) (unat a) bs)"

lemma map_overlay_back: "n = length bs \<Longrightarrow> map (\<lambda>i. overlay m a bs (a + i)) [0..<n] = bs"
  by (rule nth_equalityI) (simp_all add: overlay_def)

lemma mem_word_roundtrips:
  assumes "mem_device content t"
  shows "\<exists>w'. target_mem_write32 t a v32 w = Some w' \<and> target_mem_read32 t a w' = Some (v32, w') \<and>
      content w' = overlay (content w) (unat a) (le_bytes 4 (unat v32))"
    and "\<exists>w'. target_mem_write16 t a v16 w = Some w' \<and> target_mem_read16 t a w' = Some (v16, w')"
    and "\<exists>w'. target_mem_write8 t a v8 w = Some w' \<and> target_mem_read8 t a w' = Some (v8, w')"
proof -
  have step: "\<exists>w'. t_mem_write t a (le_bytes n v) w = Some w' \<and> content w' = overlay (content w) (unat a) (le_bytes n v) \<and>
      t_mem_read t a n w' = Some (le_bytes n v, w')" for n v
  proof -
    obtain w' where "t_mem_write t a (le_bytes n v) w = Some w'" "content w' = overlay (content w) (unat a) (le_bytes n v)"
      using assms unfolding mem_device_def by blast
    moreover have "t_mem_read t a n w' = Some (map (\<lambda>i. content w' (unat a + i)) [0..<n], w')"
      using assms unfolding mem_device_def by blast
    ultimately show ?thesis by (simp add: map_overlay_back)
  qed
  from step [of 4 "unat v32"] obtain w4 where "t_mem_write t a (le_bytes 4 (unat v32)) w = Some w4"
    "content w4 = overlay (content w) (unat a) (le_bytes 4 (unat v32))"
    "t_mem_read t a 4 w4 = Some (le_bytes 4 (unat v32), w4)" by blast
  moreover have "unat v32 mod 256 ^ 4 = unat v32" using unat_u32_bound [of v32] by simp
  ultimately show "\<exists>w'. target_mem_write32 t a v32 w = Some w' \<and> target_mem_read32 t a w' = Some (v32, w') \<and>
      content w' = overlay (content w) (unat a) (le_bytes 4 (unat v32))"
    by (simp add: target_mem_write32_def target_mem_read32_def le_word_le_bytes del: le_bytes_numeral le_bytes.simps)
  from step [of 2 "unat v16"] obtain w2 where "t_mem_write t a (le_bytes 2 (unat v16)) w = Some w2"
    "t_mem_read t a 2 w2 = Some (le_bytes 2 (unat v16), w2)" by blast
  moreover have "unat v16 mod 256 ^ 2 = unat v16" using unsigned_less [of v16, where 'a = nat] by simp
  ultimately show "\<exists>w'. target_mem_write16 t a v16 w = Some w' \<and> target_mem_read16 t a w' = Some (v16, w')"
    by (simp add: target_mem_write16_def target_mem_read16_def le_word_le_bytes del: le_bytes_numeral le_bytes.simps)
  from step [of 1 "unat v8"] obtain w1 where "t_mem_write t a (le_bytes 1 (unat v8)) w = Some w1"
    "t_mem_read t a 1 w1 = Some (le_bytes 1 (unat v8), w1)" by blast
  moreover have "unat v8 mod 256 ^ 1 = unat v8" using unsigned_less [of v8, where 'a = nat] by simp
  ultimately show "\<exists>w'. target_mem_write8 t a v8 w = Some w' \<and> target_mem_read8 t a w' = Some (v8, w')"
    by (simp add: target_mem_write8_def target_mem_read8_def le_word_le_bytes del: One_nat_def le_bytes.simps)
qed

text \<open>
  The word accessors agree: on a memory, what \<open>target_mem_write32\<close> (16, 8) stores is what
  \<open>target_mem_read32\<close> (16, 8) returns, and the stored bytes are the little-endian ones.
\<close>

theorem target_mem_word_roundtrip:
  assumes "mem_device content t"
  shows "(\<exists>w'. target_mem_write32 t a v32 w = Some w' \<and> target_mem_read32 t a w' = Some (v32, w') \<and>
      content w' = overlay (content w) (unat a) (le_bytes 4 (unat v32))) \<and>
    (\<exists>w'. target_mem_write16 t a v16 w = Some w' \<and> target_mem_read16 t a w' = Some (v16, w')) \<and>
    (\<exists>w'. target_mem_write8 t a v8 w = Some w' \<and> target_mem_read8 t a w' = Some (v8, w'))"
  using mem_word_roundtrips [OF assms] by blast

theorem target_mem_word_roundtrip_witness:
  "\<exists>m'. target_mem_write32 ram_target 0x10 0x12345678 (\<lambda>x. 0) = Some m' \<and>
     target_mem_read32 ram_target 0x10 m' = Some (0x12345678, m') \<and> m' 0x10 = 0x78"
proof -
  have d: "mem_device (\<lambda>m. m) ram_target" by (simp add: mem_device_def ram_target_def)
  from target_mem_word_roundtrip [OF d, of "0x10" "0x12345678" "\<lambda>x. 0" 0 0] obtain m'
    where "target_mem_write32 ram_target 0x10 0x12345678 (\<lambda>x. 0) = Some m'"
      "target_mem_read32 ram_target 0x10 m' = Some (0x12345678, m')"
      and m': "m' = overlay (\<lambda>x. 0) 0x10 (le_bytes 4 0x12345678)" by auto
  moreover have "m' 0x10 = 0x78" by (simp add: m' overlay_def)
  ultimately show ?thesis by blast
qed

end
