(* ===== verification/Crc32.thy ===== *)
theory Crc32
  imports Target_Access Gdb_If
begin

text \<open>
  \<open>src/src/crc32.c\<close>: the checksum behind GDB's \<open>compare-sections\<close> (packet \<open>qCRC\<close>), for the
  build without a hardware CRC unit. The table is the one of the source; it is proved to be the table of
  the CRC-32 polynomial, and the block-wise loop to compute the bit-serial CRC of the whole range.
\<close>

subsection \<open>Definitions\<close>

definition crc32_table :: "u32 list" where
  "crc32_table =
    [0x00000000, 0x04C11DB7, 0x09823B6E, 0x0D4326D9, 0x130476DC, 0x17C56B6B, 0x1A864DB2, 0x1E475005,
     0x2608EDB8, 0x22C9F00F, 0x2F8AD6D6, 0x2B4BCB61, 0x350C9B64, 0x31CD86D3, 0x3C8EA00A, 0x384FBDBD,
     0x4C11DB70, 0x48D0C6C7, 0x4593E01E, 0x4152FDA9, 0x5F15ADAC, 0x5BD4B01B, 0x569796C2, 0x52568B75,
     0x6A1936C8, 0x6ED82B7F, 0x639B0DA6, 0x675A1011, 0x791D4014, 0x7DDC5DA3, 0x709F7B7A, 0x745E66CD,
     0x9823B6E0, 0x9CE2AB57, 0x91A18D8E, 0x95609039, 0x8B27C03C, 0x8FE6DD8B, 0x82A5FB52, 0x8664E6E5,
     0xBE2B5B58, 0xBAEA46EF, 0xB7A96036, 0xB3687D81, 0xAD2F2D84, 0xA9EE3033, 0xA4AD16EA, 0xA06C0B5D,
     0xD4326D90, 0xD0F37027, 0xDDB056FE, 0xD9714B49, 0xC7361B4C, 0xC3F706FB, 0xCEB42022, 0xCA753D95,
     0xF23A8028, 0xF6FB9D9F, 0xFBB8BB46, 0xFF79A6F1, 0xE13EF6F4, 0xE5FFEB43, 0xE8BCCD9A, 0xEC7DD02D,
     0x34867077, 0x30476DC0, 0x3D044B19, 0x39C556AE, 0x278206AB, 0x23431B1C, 0x2E003DC5, 0x2AC12072,
     0x128E9DCF, 0x164F8078, 0x1B0CA6A1, 0x1FCDBB16, 0x018AEB13, 0x054BF6A4, 0x0808D07D, 0x0CC9CDCA,
     0x7897AB07, 0x7C56B6B0, 0x71159069, 0x75D48DDE, 0x6B93DDDB, 0x6F52C06C, 0x6211E6B5, 0x66D0FB02,
     0x5E9F46BF, 0x5A5E5B08, 0x571D7DD1, 0x53DC6066, 0x4D9B3063, 0x495A2DD4, 0x44190B0D, 0x40D816BA,
     0xACA5C697, 0xA864DB20, 0xA527FDF9, 0xA1E6E04E, 0xBFA1B04B, 0xBB60ADFC, 0xB6238B25, 0xB2E29692,
     0x8AAD2B2F, 0x8E6C3698, 0x832F1041, 0x87EE0DF6, 0x99A95DF3, 0x9D684044, 0x902B669D, 0x94EA7B2A,
     0xE0B41DE7, 0xE4750050, 0xE9362689, 0xEDF73B3E, 0xF3B06B3B, 0xF771768C, 0xFA325055, 0xFEF34DE2,
     0xC6BCF05F, 0xC27DEDE8, 0xCF3ECB31, 0xCBFFD686, 0xD5B88683, 0xD1799B34, 0xDC3ABDED, 0xD8FBA05A,
     0x690CE0EE, 0x6DCDFD59, 0x608EDB80, 0x644FC637, 0x7A089632, 0x7EC98B85, 0x738AAD5C, 0x774BB0EB,
     0x4F040D56, 0x4BC510E1, 0x46863638, 0x42472B8F, 0x5C007B8A, 0x58C1663D, 0x558240E4, 0x51435D53,
     0x251D3B9E, 0x21DC2629, 0x2C9F00F0, 0x285E1D47, 0x36194D42, 0x32D850F5, 0x3F9B762C, 0x3B5A6B9B,
     0x0315D626, 0x07D4CB91, 0x0A97ED48, 0x0E56F0FF, 0x1011A0FA, 0x14D0BD4D, 0x19939B94, 0x1D528623,
     0xF12F560E, 0xF5EE4BB9, 0xF8AD6D60, 0xFC6C70D7, 0xE22B20D2, 0xE6EA3D65, 0xEBA91BBC, 0xEF68060B,
     0xD727BBB6, 0xD3E6A601, 0xDEA580D8, 0xDA649D6F, 0xC423CD6A, 0xC0E2D0DD, 0xCDA1F604, 0xC960EBB3,
     0xBD3E8D7E, 0xB9FF90C9, 0xB4BCB610, 0xB07DABA7, 0xAE3AFBA2, 0xAAFBE615, 0xA7B8C0CC, 0xA379DD7B,
     0x9B3660C6, 0x9FF77D71, 0x92B45BA8, 0x9675461F, 0x8832161A, 0x8CF30BAD, 0x81B02D74, 0x857130C3,
     0x5D8A9099, 0x594B8D2E, 0x5408ABF7, 0x50C9B640, 0x4E8EE645, 0x4A4FFBF2, 0x470CDD2B, 0x43CDC09C,
     0x7B827D21, 0x7F436096, 0x7200464F, 0x76C15BF8, 0x68860BFD, 0x6C47164A, 0x61043093, 0x65C52D24,
     0x119B4BE9, 0x155A565E, 0x18197087, 0x1CD86D30, 0x029F3D35, 0x065E2082, 0x0B1D065B, 0x0FDC1BEC,
     0x3793A651, 0x3352BBE6, 0x3E119D3F, 0x3AD08088, 0x2497D08D, 0x2056CD3A, 0x2D15EBE3, 0x29D4F654,
     0xC5A92679, 0xC1683BCE, 0xCC2B1D17, 0xC8EA00A0, 0xD6AD50A5, 0xD26C4D12, 0xDF2F6BCB, 0xDBEE767C,
     0xE3A1CBC1, 0xE760D676, 0xEA23F0AF, 0xEEE2ED18, 0xF0A5BD1D, 0xF464A0AA, 0xF9278673, 0xFDE69BC4,
     0x89B8FD09, 0x8D79E0BE, 0x803AC667, 0x84FBDBD0, 0x9ABC8BD5, 0x9E7D9662, 0x933EB0BB, 0x97FFAD0C,
     0xAFB010B1, 0xAB710D06, 0xA6322BDF, 0xA2F33668, 0xBCB4666D, 0xB8757BDA, 0xB5365D03, 0xB1F740B4]"

definition crc32_calc :: "u32 \<Rightarrow> u8 \<Rightarrow> u32" where
  "crc32_calc crc data = push_bit 8 crc XOR crc32_table ! unat ((drop_bit 24 crc XOR ucast data) AND 255)"

text \<open>The loop over the 128-byte blocks; a keep-alive character every second. The length is a
  \<open>size_t\<close>; the error value -1 leaves the result unset.\<close>

function generic_crc32_loop ::
  "'w gdb_io \<Rightarrow> ('w \<Rightarrow> u32 \<times> 'w) \<Rightarrow> 'w target_s \<Rightarrow> u32 \<Rightarrow> u32 \<Rightarrow> nat \<Rightarrow> u32 \<Rightarrow> 'w \<Rightarrow> ((int \<times> u32 option) \<times> 'w) option" where
  "generic_crc32_loop io clk t crc base len last_time w =
     (if len = 0 then Some ((0, Some crc), w)
      else do {
        let (actual_time, w) = clk w;
        (last_time, w) \<leftarrow> (if actual_time > last_time + 1000
           then do { w \<leftarrow> io_putchar io 0 True w; Some (actual_time, w) } else Some (last_time, w));
        let read_len = min 128 len;
        ((err, bytes), w) \<leftarrow> target_mem_read t base read_len w;
        if err then Some ((-1, None), w)
        else generic_crc32_loop io clk t (foldl crc32_calc crc (take read_len bytes)) (base + word_of_nat read_len) (len - read_len) last_time w })"
  by pat_completeness auto
termination
  by (relation "measure (\<lambda>(io, clk, t, crc, base, len, last_time, w). len)") auto

declare generic_crc32_loop.simps [simp del]

definition generic_crc32 ::
  "'w gdb_io \<Rightarrow> ('w \<Rightarrow> u32 \<times> 'w) \<Rightarrow> 'w target_s \<Rightarrow> u32 \<Rightarrow> nat \<Rightarrow> 'w \<Rightarrow> ((int \<times> u32 option) \<times> 'w) option" where
  "generic_crc32 io clk t base len w =
     (let (start_time, w) = clk w in generic_crc32_loop io clk t (-1) base len start_time w)"

subsection \<open>The bit-serial CRC\<close>

definition crc_shift :: "u32 \<Rightarrow> u32" where
  "crc_shift x = (if bit x 31 then push_bit 1 x XOR 0x04C11DB7 else push_bit 1 x)"

definition crc_bits :: "u32 \<Rightarrow> u8 \<Rightarrow> u32" where
  "crc_bits crc data = (crc_shift ^^ 8) (crc XOR push_bit 24 (ucast data))"

lemma crc_shift_xor: "crc_shift (x XOR y) = crc_shift x XOR crc_shift y"
  by (auto simp: crc_shift_def bit_xor_iff push_bit_xor ac_simps)

lemma crc_shifts_xor: "(crc_shift ^^ n) (x XOR y) = (crc_shift ^^ n) x XOR (crc_shift ^^ n) y"
  by (induction n) (simp_all add: crc_shift_xor)

lemma take_bit_idem: "take_bit n (take_bit n x) = take_bit n (x :: u32)"
  by simp

lemma crc_shifts_low:
  assumes "take_bit 24 x = x" "n \<le> 8"
  shows "(crc_shift ^^ n) x = push_bit n x"
  using assms(2)
proof (induction n)
  case (Suc n)
  have "\<not> bit (push_bit n x) 31"
  proof
    assume "bit (push_bit n x) 31"
    then have "bit x (31 - n)" by (simp add: bit_push_bit_iff)
    then have "bit (take_bit 24 x) (31 - n)" by (simp add: assms(1))
    with Suc.prems show False by (auto simp: bit_take_bit_iff)
  qed
  with Suc show ?case by (simp add: crc_shift_def)
qed simp

text \<open>The table doubles: entry \<open>2 i\<close> is one more shift of entry \<open>i\<close>, and entry
  \<open>2 i + 1\<close> adds the polynomial.\<close>

fun crc_double :: "u32 list \<Rightarrow> u32 list" where
  "crc_double [] = []"
| "crc_double (x # xs) = crc_shift x # (crc_shift x XOR 0x04C11DB7) # crc_double xs"

lemma crc_double_nth:
  "i < length xs \<Longrightarrow> crc_double xs ! (2 * i) = crc_shift (xs ! i) \<and>
     crc_double xs ! (2 * i + 1) = crc_shift (xs ! i) XOR 0x04C11DB7"
proof (induction xs arbitrary: i)
  case (Cons x xs)
  then show ?case by (cases i) auto
qed simp

lemma crc32_table_doubles: "crc32_table = crc_double (take 128 crc32_table)"
  by code_simp

lemma length_crc32_table: "length crc32_table = 256"
  by (simp add: crc32_table_def)

lemma crc_shift_0 [simp]: "crc_shift 0 = 0"
  by (simp add: crc_shift_def)

lemma crc_shifts_0 [simp]: "(crc_shift ^^ n) 0 = 0"
  by (induction n) simp_all

lemma crc_of_one: "(crc_shift ^^ 8) (push_bit 24 1) = 0x04C11DB7"
  by code_simp

lemma crc_word_even: "(word_of_nat (2 * j) :: u32) = push_bit 1 (word_of_nat j)"
  by (simp add: push_bit_eq_mult)

lemma crc_word_odd: "(word_of_nat (2 * j + 1) :: u32) = word_of_nat (2 * j) XOR 1"
  by (simp add: xor_one_eq)

lemma crc_no_carry:
  assumes "j < 128"
  shows "\<not> bit (push_bit 24 (word_of_nat j :: u32)) 31"
proof -
  have "\<not> bit j 7" using assms by (simp add: bit_iff_odd)
  then show ?thesis by (simp add: bit_push_bit_iff bit_of_nat_iff)
qed

lemma crc32_table_nth:
  "i < 256 \<Longrightarrow> crc32_table ! i = (crc_shift ^^ 8) (push_bit 24 (word_of_nat i))"
proof (induction i rule: less_induct)
  case (less i)
  define j where "j = i div 2"
  show ?case
  proof (cases "i = 0")
    case True
    then show ?thesis by (simp add: crc32_table_def)
  next
    case False
    then have j: "j < i" "j < 128" "i = 2 * j \<or> i = 2 * j + 1" using less.prems by (auto simp: j_def)
    have t: "crc32_table ! (2 * j) = crc_shift (crc32_table ! j)"
      "crc32_table ! (2 * j + 1) = crc_shift (crc32_table ! j) XOR 0x04C11DB7"
      using crc_double_nth [of j "take 128 crc32_table"] j(2) length_crc32_table
      by (simp_all flip: crc32_table_doubles)
    have "crc_shift (crc32_table ! j) = crc_shift ((crc_shift ^^ 8) (push_bit 24 (word_of_nat j)))"
      using less.IH [OF j(1)] j(2) by simp
    also have "\<dots> = (crc_shift ^^ 8) (crc_shift (push_bit 24 (word_of_nat j)))"
      by (simp only: funpow_swap1)
    also have "crc_shift (push_bit 24 (word_of_nat j)) = push_bit 24 (word_of_nat (2 * j))"
      unfolding crc_word_even crc_shift_def using crc_no_carry [OF j(2)] by (simp only: if_False push_bit_push_bit add.commute)
    finally have e: "crc_shift (crc32_table ! j) = (crc_shift ^^ 8) (push_bit 24 (word_of_nat (2 * j)))" .
    have "push_bit 24 (word_of_nat (2 * j + 1) :: u32) = push_bit 24 (word_of_nat (2 * j)) XOR push_bit 24 1"
      by (simp only: crc_word_odd push_bit_xor)
    then have "(crc_shift ^^ 8) (push_bit 24 (word_of_nat (2 * j + 1))) =
        (crc_shift ^^ 8) (push_bit 24 (word_of_nat (2 * j))) XOR 0x04C11DB7"
      by (simp only: crc_shifts_xor crc_of_one)
    with j(3) t e show ?thesis by (elim disjE) (simp_all only:)
  qed
qed

text \<open>One table step is eight shifts.\<close>

lemma crc_word_split:
  fixes y :: u32
  shows "y = push_bit 24 (drop_bit 24 y) XOR take_bit 24 y"
  by (rule bit_word_eqI) (auto simp: bit_simps)

lemma crc_high:
  fixes crc :: u32 and d :: u8
  shows "drop_bit 24 (crc XOR push_bit 24 (ucast d)) = (drop_bit 24 crc XOR ucast d) AND 255"
proof (rule bit_word_eqI)
  fix n assume n: "n < LENGTH(32)"
  have "bit (255 :: u32) n \<longleftrightarrow> n < 8"
    using bit_mask_iff [of 8 n, where 'a = u32] n by (simp add: mask_eq_exp_minus_1)
  then show "bit (drop_bit 24 (crc XOR push_bit 24 (ucast d))) n = bit ((drop_bit 24 crc XOR ucast d) AND 255) n"
    using n by (auto simp: bit_simps dest: bit_imp_le_length)
qed

lemma crc_low:
  fixes crc :: u32 and d :: u8
  shows "take_bit 24 (crc XOR push_bit 24 (ucast d)) = take_bit 24 crc" "push_bit 8 (take_bit 24 crc) = push_bit 8 crc"
  by (rule bit_word_eqI; auto simp: bit_simps)+

lemma crc32_calc_bits: "crc32_calc crc d = crc_bits crc d"
proof -
  let ?y = "crc XOR push_bit 24 (ucast d)" and ?i = "unat ((drop_bit 24 crc XOR ucast d) AND 255)"
  have "(drop_bit 24 crc XOR ucast d) AND 255 \<le> (255 :: u32)" by (rule word_and_le1)
  then have i: "?i < 256" by (simp add: word_le_nat_alt)
  have w: "word_of_nat (unat z) = z" for z :: u32 by simp
  have "crc_bits crc d = (crc_shift ^^ 8) (push_bit 24 (drop_bit 24 ?y) XOR take_bit 24 ?y)"
    unfolding crc_bits_def by (subst crc_word_split [of ?y]) (rule refl)
  also have "\<dots> = (crc_shift ^^ 8) (push_bit 24 (word_of_nat ?i)) XOR push_bit 8 (take_bit 24 crc)"
    unfolding crc_shifts_xor crc_high crc_low(1) by (simp only: w crc_shifts_low [OF take_bit_idem] order_refl)
  also have "\<dots> = crc32_calc crc d"
    unfolding crc32_calc_def crc_low crc32_table_nth [OF i] by (rule xor.commute)
  finally show ?thesis by (rule sym)
qed

subsection \<open>The block loop\<close>

text \<open>What the loop needs of its surroundings: the target reads as a memory and reports no error; the
  clock and the keep-alive character leave the memory alone.\<close>

definition crc_env :: "('w \<Rightarrow> nat \<Rightarrow> u8) \<Rightarrow> 'w gdb_io \<Rightarrow> ('w \<Rightarrow> u32 \<times> 'w) \<Rightarrow> 'w target_s \<Rightarrow> bool" where
  "crc_env content io clk t \<longleftrightarrow> mem_device content t \<and>
     (\<forall>w. \<exists>w'. t_check_error t w = Some (False, w') \<and> content w' = content w) \<and>
     (\<forall>w. content (snd (clk w)) = content w) \<and>
     (\<forall>c f w. \<exists>w'. io_putchar io c f w = Some w' \<and> content w' = content w)"

definition mem_range :: "(nat \<Rightarrow> u8) \<Rightarrow> nat \<Rightarrow> nat \<Rightarrow> u8 list" where
  "mem_range m a n = map (\<lambda>i. m (a + i)) [0..<n]"

lemma mem_range_split: "k \<le> n \<Longrightarrow> mem_range m a n = mem_range m a k @ mem_range m (a + k) (n - k)"
  by (rule nth_equalityI) (auto simp: mem_range_def nth_append)

lemma crc_block:
  assumes "crc_env content io clk t"
  obtains w' where "target_mem_read t a n w = Some ((False, mem_range (content w) (unat a) n), w')" "content w' = content w"
proof -
  from assms have "t_mem_read t a n w = Some (mem_range (content w) (unat a) n, w)"
    by (simp add: crc_env_def mem_device_def mem_range_def)
  moreover from assms obtain w' where "t_check_error t w = Some (False, w')" "content w' = content w"
    unfolding crc_env_def by blast
  ultimately show thesis by (intro that [of w']) (simp_all add: target_mem_read_def target_check_error_def)
qed

lemma crc_keep_alive:
  fixes now prev :: u32
  assumes "crc_env content io clk t"
  obtains l w' where "(if now > prev + 1000 then do { w \<leftarrow> io_putchar io 0 True w; Some (now, w) } else Some (prev, w)) = Some (l, w')"
    "content w' = content w"
proof (cases "now > prev + 1000")
  case True
  from assms obtain w' where "io_putchar io 0 True w = Some w'" "content w' = content w"
    unfolding crc_env_def by blast
  with True show thesis by (intro that [of now w']) simp_all
next
  case False
  then show thesis by (intro that [of prev w]) simp_all
qed

lemma generic_crc32_loop_value:
  assumes env: "crc_env content io clk t" and "unat base + len \<le> 2 ^ 32"
  shows "\<exists>w'. generic_crc32_loop io clk t crc base len prev w =
      Some ((0, Some (foldl crc_bits crc (mem_range (content w) (unat base) len))), w') \<and> content w' = content w"
  using assms(2)
proof (induction len arbitrary: crc base prev w rule: less_induct)
  case (less len)
  show ?case
  proof (cases "len = 0")
    case True
    then show ?thesis by (subst generic_crc32_loop.simps) (simp add: mem_range_def)
  next
    case False
    let ?r = "min 128 len" and ?c1 = "snd (clk w)"
    obtain l w1 where w1: "(if fst (clk w) > prev + 1000 then do { x \<leftarrow> io_putchar io 0 True ?c1; Some (fst (clk w), x) }
        else Some (prev, ?c1)) = Some (l, w1)" "content w1 = content ?c1"
      by (rule crc_keep_alive [OF env, where now = "fst (clk w)" and prev = prev and w = ?c1])
    have c1: "content w1 = content w" using w1(2) env by (simp add: crc_env_def)
    obtain w2 where w2: "target_mem_read t base ?r w1 = Some ((False, mem_range (content w) (unat base) ?r), w2)"
      "content w2 = content w"
      using crc_block [OF env, of base ?r w1] c1 by metis
    let ?crc = "foldl crc32_calc crc (mem_range (content w) (unat base) ?r)"
    have step: "generic_crc32_loop io clk t crc base len prev w =
      generic_crc32_loop io clk t ?crc (base + word_of_nat ?r) (len - ?r) l w2"
      using False w1(1) w2(1)
      by (subst generic_crc32_loop.simps) (simp add: case_prod_unfold mem_range_def Let_def)
    have f: "crc32_calc = crc_bits" by (simp add: crc32_calc_bits fun_eq_iff)
    show ?thesis
    proof (cases "len \<le> 128")
      case True
      then show ?thesis unfolding step using w2(2) by (subst generic_crc32_loop.simps) (simp add: f)
    next
      case long: False
      have b: "unat (base + word_of_nat ?r) = unat base + ?r"
        using less.prems long by (simp add: unat_word_ariths)
      have "\<exists>w'. generic_crc32_loop io clk t ?crc (base + word_of_nat ?r) (len - ?r) l w2 =
          Some ((0, Some (foldl crc_bits ?crc (mem_range (content w2) (unat (base + word_of_nat ?r)) (len - ?r)))), w') \<and>
        content w' = content w2"
        using less.prems False by (intro less.IH) (simp_all add: b)
      then show ?thesis unfolding step b using w2(2) mem_range_split [of ?r len "content w" "unat base"] by (simp add: f)
    qed
  qed
qed

text \<open>
  C19. \<open>generic_crc32\<close> over any range of a readable target returns the bit-serial CRC (polynomial
  0x04C11DB7, most significant bit first, start value -1, no final inversion) of exactly the bytes of
  the range: the table and the cut into blocks of 128 bytes do not show. It always returns, with 0.
\<close>

theorem generic_crc32_correct:
  assumes "crc_env content io clk t" and "unat base + len \<le> 2 ^ 32"
  shows "\<exists>w'. generic_crc32 io clk t base len w =
      Some ((0, Some (foldl crc_bits (-1) (mem_range (content w) (unat base) len))), w') \<and> content w' = content w"
proof -
  have "content (snd (clk w)) = content w" using assms(1) by (simp add: crc_env_def)
  with generic_crc32_loop_value [OF assms, of "-1" "fst (clk w)" "snd (clk w)"] show ?thesis
    by (simp add: generic_crc32_def case_prod_unfold Let_def)
qed

definition quiet_io :: "'w gdb_io" where
  "quiet_io = \<lparr>io_getchar = (\<lambda>w. None), io_getchar_to = (\<lambda>n w. Some (0xFF, w)), io_putchar = (\<lambda>c f w. Some w)\<rparr>"

lemma crc_steps:
  "crc32_calc 0xFFFFFFFF 0xFF = 0xFFFFFF00" "crc32_calc 0xFFFFFF00 0xFF = 0xFFFF0000"
  "crc32_calc 0xFFFF0000 0xFF = 0xFF000000" "crc32_calc 0xFF000000 0xFF = 0" "crc32_calc 0 1 = 0x04C11DB7"
  by (simp_all add: crc32_calc_def crc32_table_def)

lemma crc_start: "(-1 :: u32) = 0xFFFFFFFF"
  by simp

lemma unat_numeral_0x10: "unat (0x10 :: u32) = 0x10"
  by simp

theorem generic_crc32_correct_witness:
  "\<exists>m'. generic_crc32 quiet_io (\<lambda>m. (0, m)) ram_target 0x10 5 (overlay (\<lambda>x. 0) 0x10 [0xFF, 0xFF, 0xFF, 0xFF, 1]) =
    Some ((0, Some 0x04C11DB7), m')"
proof -
  have e: "crc_env (\<lambda>m. m) quiet_io (\<lambda>m. (0, m)) ram_target"
    by (simp add: crc_env_def mem_device_def ram_target_def quiet_io_def)
  let ?m = "overlay (\<lambda>x. 0) 0x10 [0xFF, 0xFF, 0xFF, 0xFF, 1]"
  have r: "mem_range ?m (unat (0x10 :: u32)) 5 = [0xFF, 0xFF, 0xFF, 0xFF, 1]"
    unfolding mem_range_def unat_numeral_0x10 by (rule map_overlay_back) simp
  have c: "foldl crc_bits (-1) [0xFF, 0xFF, 0xFF, 0xFF, 1] = 0x04C11DB7"
    unfolding crc_start by (simp add: crc_steps flip: crc32_calc_bits)
  have b: "unat (0x10 :: u32) + 5 \<le> 2 ^ 32" by simp
  from generic_crc32_correct [OF e b, of ?m] show ?thesis unfolding r c by blast
qed

end
