(* ===== verification/Stdio.thy ===== *)
theory Stdio
  imports Gdb_Packet Target
begin

text \<open>
  The parts of the C library's \<open>sscanf\<close> and \<open>printf\<close> that the packet handlers use. A scan yields
  the values it stored, in order; what it did not store is not in the list, and a caller that uses such
  a variable reads an uninitialised one (it has no result).
\<close>

subsection \<open>Definitions\<close>

datatype scan_fmt =
    Lit u8 \<comment> \<open>a literal character\<close>
  | ScanX "nat option" \<comment> \<open>\<open>%x\<close>, with a field width\<close>
  | ScanD \<comment> \<open>\<open>%d\<close>\<close>
  | ScanC \<comment> \<open>\<open>%c\<close>\<close>
  | ScanN \<comment> \<open>\<open>%n\<close>, the number of characters read so far\<close>

definition scan_sign :: "u8 list \<Rightarrow> bool \<times> nat" where
  "scan_sign s = (case s of
     c # _ \<Rightarrow> if c = MINUS then (True, 1) else if c = PLUS then (False, 1) else (False, 0)
   | [] \<Rightarrow> (False, 0))"

definition scan_0x :: "u8 list \<Rightarrow> nat" where
  "scan_0x s = (case s of
     z # x # _ \<Rightarrow> if z = ch CHR ''0'' \<and> (x = ch CHR ''x'' \<or> x = ch CHR ''X'') then 2 else 0
   | _ \<Rightarrow> 0)"

text \<open>The value of a hexadecimal field (as \<open>strtoul\<close> on 32 bits, saturating) and how many
  characters it took.\<close>

definition scan_hex :: "nat option \<Rightarrow> u8 list \<Rightarrow> (u32 \<times> nat) option" where
  "scan_hex width s =
     (let sp = length (takeWhile isspace s);
          fld = (case width of None \<Rightarrow> drop sp s | Some n \<Rightarrow> take n (drop sp s));
          (neg, sg) = scan_sign fld;
          pre = scan_0x (drop sg fld);
          digs = takeWhile isxdigit (drop (sg + pre) fld);
          m = digits_val 16 digs;
          v = (if m \<ge> 2 ^ 32 then -1 else if neg then - word_of_nat m else word_of_nat m)
      in if digs = [] then None else Some (v, sp + sg + pre + length digs))"

definition scan_dec :: "u8 list \<Rightarrow> (int \<times> nat) option" where
  "scan_dec s =
     (let sp = length (takeWhile isspace s);
          (neg, sg) = scan_sign (drop sp s);
          digs = takeWhile isdigit (drop (sp + sg) s);
          m = int (digits_val 10 digs);
          v = (if neg then max (- m) (- (2 ^ 31)) else min m (2 ^ 31 - 1))
      in if digs = [] then None else Some (v, sp + sg + length digs))"

fun sscanf_from :: "nat \<Rightarrow> u8 list \<Rightarrow> scan_fmt list \<Rightarrow> int list" where
  "sscanf_from k s [] = []"
| "sscanf_from k s (Lit c # fs) = (case s of [] \<Rightarrow> [] | x # xs \<Rightarrow> if x = c then sscanf_from (k + 1) xs fs else [])"
| "sscanf_from k s (ScanX w # fs) =
     (case scan_hex w s of None \<Rightarrow> [] | Some (v, n) \<Rightarrow> uint v # sscanf_from (k + n) (drop n s) fs)"
| "sscanf_from k s (ScanD # fs) =
     (case scan_dec s of None \<Rightarrow> [] | Some (v, n) \<Rightarrow> v # sscanf_from (k + n) (drop n s) fs)"
| "sscanf_from k s (ScanC # fs) = (case s of [] \<Rightarrow> [] | x # xs \<Rightarrow> uint x # sscanf_from (k + 1) xs fs)"
| "sscanf_from k s (ScanN # fs) = int k # sscanf_from k s fs"

text \<open>\<open>sscanf\<close> on a buffer: its C string against the directives.\<close>

definition sscanf :: "u8 list \<Rightarrow> scan_fmt list \<Rightarrow> int list" where
  "sscanf buf fs = sscanf_from 0 (cstr buf) fs"

definition lits :: "string \<Rightarrow> scan_fmt list" where
  "lits s = map Lit (str s)"

definition fmt_X :: "u32 \<Rightarrow> u8 list" where
  "fmt_X v = map upper_hex (fmt_x v)"

definition fmt_08X :: "u32 \<Rightarrow> u8 list" where
  "fmt_08X v = map upper_hex (fmt_08x v)"

subsection \<open>Scanning what was printed\<close>

lemma hexdigit_props:
  assumes "n < 16"
  shows "isxdigit (hexdigit n)" "xdigit_val (hexdigit n) = n" "\<not> isspace (hexdigit n)"
    "hexdigit n \<noteq> MINUS" "hexdigit n \<noteq> PLUS" "hexdigit n \<noteq> ch CHR ''x''" "hexdigit n \<noteq> ch CHR ''X''" "hexdigit n \<noteq> 0"
  using upto16 [OF assms]
  by (auto simp: hexdigit_def isxdigit_def isdigit_def xdigit_val_def isspace_def)

lemma digits_val_append: "digits_val b (xs @ [x]) = b * digits_val b xs + xdigit_val x"
  by (simp add: digits_val_def)

lemma hex_of_nat_props:
  "set (hex_of_nat n) \<subseteq> hexdigit ` {..<16} \<and> hex_of_nat n \<noteq> [] \<and> digits_val 16 (hex_of_nat n) = n"
proof (induction n rule: hex_of_nat.induct)
  case (1 n)
  show ?case
  proof (cases "n < 16")
    case True
    then have "digits_val 16 [hexdigit n] = n" by (simp add: digits_val_def hexdigit_props)
    with True show ?thesis by (subst (1 2 3) hex_of_nat.simps) simp
  next
    case False
    then have e: "hex_of_nat n = hex_of_nat (n div 16) @ [hexdigit (n mod 16)]" by (subst hex_of_nat.simps) simp
    have "digits_val 16 (hex_of_nat (n div 16) @ [hexdigit (n mod 16)]) = 16 * (n div 16) + n mod 16"
      using 1 [OF False] by (simp add: digits_val_append hexdigit_props)
    with 1 [OF False] show ?thesis unfolding e by auto
  qed
qed

lemma length_hex_of_nat: "n < 16 ^ Suc k \<Longrightarrow> length (hex_of_nat n) \<le> Suc k"
proof (induction k arbitrary: n)
  case 0
  then show ?case by (subst hex_of_nat.simps) simp
next
  case (Suc k)
  show ?case
  proof (cases "n < 16")
    case True
    then show ?thesis by (subst hex_of_nat.simps) simp
  next
    case False
    have "n div 16 < 16 ^ Suc k" using Suc.prems by (simp add: less_mult_imp_div_less)
    from Suc.IH [OF this] False show ?thesis by (subst hex_of_nat.simps) simp
  qed
qed

lemma length_fmt_x: "length (fmt_x v) \<le> 8"
  using length_hex_of_nat [of "unat v" 7] unsigned_less [of v, where 'a = nat] by (simp add: fmt_x_def)

text \<open>A character that ends a hexadecimal field.\<close>

definition ends_hex :: "u8 list \<Rightarrow> bool" where
  "ends_hex s \<longleftrightarrow> (case s of [] \<Rightarrow> True | c # _ \<Rightarrow> \<not> isxdigit c \<and> c \<noteq> ch CHR ''x'' \<and> c \<noteq> ch CHR ''X'')"

lemma ends_hex_simps [simp]:
  "ends_hex []" "ends_hex (c # s) \<longleftrightarrow> \<not> isxdigit c \<and> c \<noteq> ch CHR ''x'' \<and> c \<noteq> ch CHR ''X''"
  by (simp_all add: ends_hex_def)

lemma ends_hex_take: "ends_hex s \<Longrightarrow> ends_hex (take n s)"
  by (cases s; cases n) simp_all

lemma scan_hex_field:
  assumes d: "set ds \<subseteq> hexdigit ` {..<16}" "ds \<noteq> []" and r: "ends_hex rest"
  shows "takeWhile isspace (ds @ s) = []" "scan_sign (ds @ rest) = (False, 0)" "scan_0x (ds @ rest) = 0"
    "takeWhile isxdigit (ds @ rest) = ds"
proof -
  have p: "isxdigit c \<and> \<not> isspace c \<and> c \<noteq> MINUS \<and> c \<noteq> PLUS \<and> c \<noteq> ch CHR ''x'' \<and> c \<noteq> ch CHR ''X''" if "c \<in> set ds" for c
  proof -
    from that d(1) obtain n where "n < 16" "c = hexdigit n" by auto
    with hexdigit_props [of n] show ?thesis by simp
  qed
  obtain c cs where ds: "ds = c # cs" using d(2) by (cases ds) auto
  show "takeWhile isspace (ds @ s) = []" "scan_sign (ds @ rest) = (False, 0)"
    using p [of c] by (simp_all add: ds scan_sign_def)
  show "takeWhile isxdigit (ds @ rest) = ds"
    using p r by (cases rest) (simp_all add: takeWhile_append)
  show "scan_0x (ds @ rest) = 0"
    using p r ds by (cases cs; cases rest) (auto simp: scan_0x_def)
qed

lemma scan_hex_fmt_x:
  assumes "ends_hex rest" and "width = None \<or> width = Some 8"
  shows "scan_hex width (fmt_x v @ rest) = Some (v, length (fmt_x v))"
proof -
  have d: "set (fmt_x v) \<subseteq> hexdigit ` {..<16}" "fmt_x v \<noteq> []" "digits_val 16 (fmt_x v) = unat v"
    using hex_of_nat_props [of "unat v"] by (simp_all add: fmt_x_def)
  have sp: "takeWhile isspace (fmt_x v @ rest) = []" by (rule scan_hex_field(1) [OF d(1,2) assms(1)])
  obtain r where r: "(case width of None \<Rightarrow> drop (length (takeWhile isspace (fmt_x v @ rest))) (fmt_x v @ rest)
      | Some n \<Rightarrow> take n (drop (length (takeWhile isspace (fmt_x v @ rest))) (fmt_x v @ rest))) = fmt_x v @ r" "ends_hex r"
    using assms length_fmt_x [of v] ends_hex_take by (auto simp: sp)
  note f = scan_hex_field [OF d(1,2) r(2)]
  have "unat v < 2 ^ 32" using unsigned_less [of v, where 'a = nat] by simp
  then show ?thesis
    unfolding scan_hex_def Let_def r(1) f(2) prod.case drop0 f(3) add_0_right f(4) using d(2,3) by (simp add: sp)
qed

lemma sscanf_from_hex [simp]:
  "ends_hex rest \<Longrightarrow> width = None \<or> width = Some 8 \<Longrightarrow>
     sscanf_from k (fmt_x v @ rest) (ScanX width # fs) = uint v # sscanf_from (k + length (fmt_x v)) rest fs"
  by (simp add: scan_hex_fmt_x)

lemma sscanf_from_lits [simp]: "sscanf_from k (str s @ rest) (lits s @ fs) = sscanf_from (k + length s) rest fs"
  by (induction s arbitrary: k) (simp_all add: lits_def)

lemma fmt_x_no_NUL: "0 \<notin> set (fmt_x v)"
  using hex_of_nat_props [of "unat v"] by (auto simp: fmt_x_def hexdigit_props)

end
