(* ===== verification/Target_List.thy ===== *)
theory Target_List
  imports Target Gdb_Packet
begin

text \<open>
  The pointer level of \<open>target.c\<close> and the controllers of \<open>include/target.h\<close>: which targets exist,
  the list each controller keeps, and the pointers between them. A target and a controller are known
  by their addresses; a freed target has no entry, so that an access through a dangling pointer has no
  result. The list linked through \<open>next\<close> from \<open>target_list\<close> is the list of its addresses.
\<close>

subsection \<open>Controllers and the probe state\<close>

datatype host_call =
    HOST_OPEN | HOST_CLOSE | HOST_READ | HOST_WRITE | HOST_LSEEK | HOST_RENAME | HOST_UNLINK
  | HOST_STAT | HOST_FSTAT | HOST_GETTIMEOFDAY | HOST_ISATTY | HOST_SYSTEM

text \<open>The only functions ever installed as callbacks are those of \<open>gdb_main.c\<close> and
  \<open>gdb_hostio.c\<close>, so a function pointer is the fact that it is set.\<close>

record controller =
  destroy_callback :: bool
  printf_callback :: bool
  host_callback :: "host_call \<Rightarrow> bool"
  errno_ :: int
  interrupted :: bool
  running_status :: u8
  cur_target :: "nat option"
  last_target :: "nat option"
  target_list :: "nat list"
  flash_mode :: u8
  connect_assert_srst :: bool
  cortexm_wait_timeout :: u32

record 'w probe =
  p_targets :: "nat \<Rightarrow> 'w target_s option"
  p_ctls :: "nat \<Rightarrow> controller option"
  p_pbuf :: "u8 list"
  p_world :: 'w

definition set_ctl :: "nat \<Rightarrow> (controller \<Rightarrow> controller) \<Rightarrow> 'w probe \<Rightarrow> 'w probe" where
  "set_ctl c f p = p\<lparr>p_ctls := (p_ctls p)(c := map_option f (p_ctls p c))\<rparr>"

definition set_target :: "nat \<Rightarrow> 'w target_s \<Rightarrow> 'w probe \<Rightarrow> 'w probe" where
  "set_target a t p = p\<lparr>p_targets := (p_targets p)(a \<mapsto> t)\<rparr>"

text \<open>A call of a method of the target a pointer leads to, and one that also changes the target.\<close>

definition on_target :: "nat option \<Rightarrow> ('w target_s \<Rightarrow> 'w \<Rightarrow> ('a \<times> 'w) option) \<Rightarrow> 'w probe \<Rightarrow> ('a \<times> 'w probe) option" where
  "on_target tp f p =
     do { a \<leftarrow> tp; t \<leftarrow> p_targets p a; (x, w) \<leftarrow> f t (p_world p); Some (x, p\<lparr>p_world := w\<rparr>) }"

definition upd_target :: "nat option \<Rightarrow> ('w target_s \<Rightarrow> 'w \<Rightarrow> (('a \<times> 'w target_s) \<times> 'w) option) \<Rightarrow> 'w probe \<Rightarrow> ('a \<times> 'w probe) option" where
  "upd_target tp f p =
     do { a \<leftarrow> tp; t \<leftarrow> p_targets p a; ((x, t), w) \<leftarrow> f t (p_world p);
          Some (x, (set_target a t p)\<lparr>p_world := w\<rparr>) }"

definition do_target :: "nat option \<Rightarrow> ('w target_s \<Rightarrow> 'w \<Rightarrow> 'w option) \<Rightarrow> 'w probe \<Rightarrow> 'w probe option" where
  "do_target tp f p = do { a \<leftarrow> tp; t \<leftarrow> p_targets p a; w \<leftarrow> f t (p_world p); Some (p\<lparr>p_world := w\<rparr>) }"

subsection \<open>The life of a target\<close>

text \<open>What \<open>target_new\<close> puts into the cleared block: every method is the function that returns
  true (as a halt reason: \<open>TARGET_HALT_ERROR\<close>, as a size: 1), the error check the one that returns
  0. A read through it leaves the caller's buffer uninitialised.\<close>

definition nop_target :: "'w target_s" where
  "nop_target = \<lparr>t_attached = False, t_tc = None, t_attach = (\<lambda>w. Some (True, w)), t_detach = Some,
     t_check_error = (\<lambda>w. Some (False, w)),
     t_mem_read = (\<lambda>a n w. None), t_mem_write = (\<lambda>a bs w. Some w),
     t_regs_size = 0, t_tdesc = None, t_regs_read = Some (\<lambda>w. None), t_regs_write = Some (\<lambda>d w. Some w),
     t_reg_read = (\<lambda>i mx w. None), t_reg_write = (\<lambda>i d w. Some (1, w)),
     t_reset = Some, t_extended_reset = None, t_halt_request = Some,
     t_halt_poll = (\<lambda>w. Some ((TARGET_HALT_ERROR, 0), w)), t_halt_resume = (\<lambda>s. Some),
     t_breakwatch_set = None, t_breakwatch_clear = None, t_bw_list = [],
     t_target_options = 0, t_designer = 0, t_idcode = 0, t_target_storage = None, t_unsafe_enabled = False,
     t_ram = [], t_flash = [], t_driver = [], t_cpuid = 0, t_core = [], t_cmdline = replicate MAX_CMDLINE 0,
     t_heapinfo = [0, 0, 0, 0], t_commands = [], t_priv = None, t_priv_free = (\<lambda>q w. None)\<rparr>"

definition target_new :: "'w heap_ops \<Rightarrow> nat \<Rightarrow> nat option \<Rightarrow> 'w probe \<Rightarrow> nat option \<times> 'w probe" where
  "target_new hp sizeof_target c p =
     (case c of
        None \<Rightarrow> (None, p)
      | Some c \<Rightarrow>
          (case mm_alloc hp sizeof_target (p_world p) of
             (None, w) \<Rightarrow> (None, p\<lparr>p_world := w\<rparr>)
           | (Some a, w) \<Rightarrow>
               (Some a, set_ctl c (\<lambda>k. k\<lparr>target_list := target_list k @ [a]\<rparr>)
                          (set_target a nop_target (p\<lparr>p_world := w\<rparr>)))))"

definition forget_target :: "nat \<Rightarrow> controller \<Rightarrow> controller" where
  "forget_target a k =
     k\<lparr>cur_target := (if cur_target k = Some a then None else cur_target k),
       last_target := (if last_target k = Some a then None else last_target k)\<rparr>"

definition gdb_target_destroy_callback :: "nat \<Rightarrow> nat \<Rightarrow> 'w probe \<Rightarrow> 'w probe" where
  "gdb_target_destroy_callback c a p = set_ctl c (forget_target a) p"

lemma forget_target_simps [simp]:
  "destroy_callback (forget_target a k) = destroy_callback k" "target_list (forget_target a k) = target_list k"
  "cur_target (forget_target a k) = Some b \<longleftrightarrow> cur_target k = Some b \<and> b \<noteq> a"
  "last_target (forget_target a k) = Some b \<longleftrightarrow> last_target k = Some b \<and> b \<noteq> a"
  "forget_target a (k\<lparr>target_list := as\<rparr>) = (forget_target a k)\<lparr>target_list := as\<rparr>"
  by (auto simp: forget_target_def)

text \<open>What \<open>target_list_free\<close> gives back for one target: its private data, commands, storage,
  memory map, breakpoints and the target itself.\<close>

definition free_target_blocks :: "'w heap_ops \<Rightarrow> nat \<Rightarrow> 'w target_s \<Rightarrow> 'w \<Rightarrow> 'w option" where
  "free_target_blocks hp a t w =
     do { w \<leftarrow> (case t_priv t of None \<Rightarrow> Some w | Some q \<Rightarrow> t_priv_free t q w);
          let w = free_all hp (map fst (t_commands t)) w;
          let w = mm_free hp (t_target_storage t) w;
          let w = snd (target_mem_map_free hp t w);
          let w = free_all hp (map fst (t_bw_list t)) w;
          Some (mm_free hp (Some a) w) }"

definition tell_controller :: "nat \<Rightarrow> 'w target_s \<Rightarrow> 'w probe \<Rightarrow> 'w probe option" where
  "tell_controller a t p =
     (case t_tc t of
        None \<Rightarrow> Some p
      | Some c \<Rightarrow> do { k \<leftarrow> p_ctls p c;
          Some (if destroy_callback k then gdb_target_destroy_callback c a p else p) })"

fun free_targets :: "'w heap_ops \<Rightarrow> nat list \<Rightarrow> 'w probe \<Rightarrow> 'w probe option" where
  "free_targets hp [] p = Some p"
| "free_targets hp (a # as) p =
     do { t \<leftarrow> p_targets p a;
          p \<leftarrow> tell_controller a t p;
          w \<leftarrow> free_target_blocks hp a t (p_world p);
          free_targets hp as (p\<lparr>p_targets := (p_targets p)(a := None), p_world := w\<rparr>) }"

definition target_list_free :: "'w heap_ops \<Rightarrow> nat \<Rightarrow> 'w probe \<Rightarrow> 'w probe option" where
  "target_list_free hp c p =
     do { k \<leftarrow> p_ctls p c;
          p \<leftarrow> free_targets hp (target_list k) p;
          Some (set_ctl c (\<lambda>k. k\<lparr>target_list := []\<rparr>) p) }"

definition target_add_commands ::
  "'w heap_ops \<Rightarrow> nat \<Rightarrow> 'w command_s list \<Rightarrow> u8 list \<Rightarrow> 'w target_s \<Rightarrow> 'w \<Rightarrow> 'w target_s \<times> 'w" where
  "target_add_commands hp sizeof_tc cs name t w =
     (case mm_alloc hp sizeof_tc w of
        (None, w) \<Rightarrow> (t, w)
      | (Some q, w) \<Rightarrow> (t\<lparr>t_commands := t_commands t @ [(q, \<lparr>specific_name = name, cmds = cs\<rparr>)]\<rparr>, w))"

definition target_attach :: "nat option \<Rightarrow> nat \<Rightarrow> 'w probe \<Rightarrow> (nat option \<times> 'w probe) option" where
  "target_attach tp c p =
     do { a \<leftarrow> tp;
          t \<leftarrow> p_targets p a;
          p \<leftarrow> (case t_tc t of
                  None \<Rightarrow> Some p
                | Some c' \<Rightarrow> do { k \<leftarrow> p_ctls p c';
                    if destroy_callback k then Some (gdb_target_destroy_callback c' a p) else None });
          let p = set_target a (t\<lparr>t_tc := Some c\<rparr>) p;
          (ok, w) \<leftarrow> t_attach t (p_world p);
          let p = p\<lparr>p_world := w\<rparr>;
          if ok then Some (Some a, set_target a (t\<lparr>t_tc := Some c, t_attached := True\<rparr>) p)
          else Some (None, p) }"

definition target_attach_n :: "int \<Rightarrow> nat \<Rightarrow> 'w probe \<Rightarrow> (nat option \<times> 'w probe) option" where
  "target_attach_n n c p =
     do { k \<leftarrow> p_ctls p c;
          if 1 \<le> n \<and> nat n \<le> length (target_list k)
          then target_attach (Some (target_list k ! (nat n - 1))) c p
          else Some (None, p) }"

text \<open>\<open>target_foreach\<close>: the callback on every target with its number, from 1; the count plus one
  is returned.\<close>

fun target_foreach_from :: "(nat \<Rightarrow> nat \<Rightarrow> 'p \<Rightarrow> 'p option) \<Rightarrow> nat \<Rightarrow> nat list \<Rightarrow> 'p \<Rightarrow> (nat \<times> 'p) option" where
  "target_foreach_from cb i [] p = Some (i, p)"
| "target_foreach_from cb i (a # as) p = do { p \<leftarrow> cb i a p; target_foreach_from cb (i + 1) as p }"

definition target_foreach :: "nat list \<Rightarrow> (nat \<Rightarrow> nat \<Rightarrow> 'p \<Rightarrow> 'p option) \<Rightarrow> 'p \<Rightarrow> (nat \<times> 'p) option" where
  "target_foreach as cb p = target_foreach_from cb 1 as p"

subsection \<open>Accessors and console output\<close>

definition target_attached :: "'w target_s \<Rightarrow> bool" where
  "target_attached t = t_attached t"

definition target_driver_name :: "'w target_s \<Rightarrow> u8 list" where
  "target_driver_name t = t_driver t"

definition target_core_name :: "'w target_s \<Rightarrow> u8 list" where
  "target_core_name t = t_core t"

definition target_designer :: "'w target_s \<Rightarrow> u16" where
  "target_designer t = t_designer t"

definition target_idcode :: "'w target_s \<Rightarrow> u16" where
  "target_idcode t = t_idcode t"

definition tc_printf :: "'w gdb_io \<Rightarrow> 'w heap_ops \<Rightarrow> nat option \<Rightarrow> u8 list \<Rightarrow> 'w probe \<Rightarrow> 'w probe option" where
  "tc_printf io hp tp txt p =
     do { a \<leftarrow> tp; t \<leftarrow> p_targets p a;
          case t_tc t of
            None \<Rightarrow> Some p
          | Some c \<Rightarrow> do { k \<leftarrow> p_ctls p c;
              if printf_callback k then do { w \<leftarrow> gdb_voutf io hp txt (p_world p); Some (p\<lparr>p_world := w\<rparr>) }
              else None } }"

fun print_all :: "'w gdb_io \<Rightarrow> 'w heap_ops \<Rightarrow> nat option \<Rightarrow> u8 list list \<Rightarrow> 'w probe \<Rightarrow> 'w probe option" where
  "print_all io hp tp [] p = Some p"
| "print_all io hp tp (x # xs) p = do { p \<leftarrow> tc_printf io hp tp x p; print_all io hp tp xs p }"

definition target_command_help :: "'w gdb_io \<Rightarrow> 'w heap_ops \<Rightarrow> nat option \<Rightarrow> 'w probe \<Rightarrow> 'w probe option" where
  "target_command_help io hp tp p =
     do { a \<leftarrow> tp; t \<leftarrow> p_targets p a;
          print_all io hp tp
            (concat (map (\<lambda>(q, s). (specific_name s @ str '' specific commands:'' @ [10]) #
               map (\<lambda>c. 9 # cmd c @ str '' -- '' @ cmd_help c @ [10]) (cmds s)) (t_commands t))) p }"

subsection \<open>No pointer dangles\<close>

text \<open>
  The invariant of the pointers: the targets of a list exist and are in no other list; a target that is
  the current or the last one of a controller exists and names that controller as its own, so that
  freeing it will tell that controller.
\<close>

definition tc_wf :: "'w probe \<Rightarrow> bool" where
  "tc_wf p \<longleftrightarrow>
     (\<forall>c k. p_ctls p c = Some k \<longrightarrow> destroy_callback k \<and> distinct (target_list k) \<and>
        (\<forall>a \<in> set (target_list k). p_targets p a \<noteq> None) \<and>
        (\<forall>a. cur_target k = Some a \<or> last_target k = Some a \<longrightarrow> (\<exists>t. p_targets p a = Some t \<and> t_tc t = Some c))) \<and>
     (\<forall>a t c. p_targets p a = Some t \<longrightarrow> t_tc t = Some c \<longrightarrow> p_ctls p c \<noteq> None) \<and>
     (\<forall>c c' k k'. p_ctls p c = Some k \<longrightarrow> p_ctls p c' = Some k' \<longrightarrow> c \<noteq> c' \<longrightarrow>
        set (target_list k) \<inter> set (target_list k') = {})"

lemma p_simps [simp]:
  "p_targets (set_ctl c f p) = p_targets p" "p_world (set_ctl c f p) = p_world p" "p_pbuf (set_ctl c f p) = p_pbuf p"
  "p_ctls (set_target a t p) = p_ctls p" "p_world (set_target a t p) = p_world p" "p_pbuf (set_target a t p) = p_pbuf p"
  "p_targets (set_target a t p) = (p_targets p)(a \<mapsto> t)"
  "p_ctls (set_ctl c f p) = (p_ctls p)(c := map_option f (p_ctls p c))"
  by (simp_all add: set_ctl_def set_target_def)

lemma tc_wfD:
  assumes "tc_wf p" "p_ctls p c = Some k"
  shows "destroy_callback k" "distinct (target_list k)" "a \<in> set (target_list k) \<Longrightarrow> p_targets p a \<noteq> None"
    "cur_target k = Some a \<Longrightarrow> \<exists>t. p_targets p a = Some t \<and> t_tc t = Some c"
    "last_target k = Some a \<Longrightarrow> \<exists>t. p_targets p a = Some t \<and> t_tc t = Some c"
  using assms unfolding tc_wf_def by blast+

lemma tc_wf_world: "tc_wf (p\<lparr>p_world := w\<rparr>) \<longleftrightarrow> tc_wf p"
  by (simp add: tc_wf_def)

text \<open>After the callback of its controller no controller points to the target.\<close>

definition unseen :: "nat \<Rightarrow> 'w probe \<Rightarrow> bool" where
  "unseen a p \<longleftrightarrow> (\<forall>c k. p_ctls p c = Some k \<longrightarrow> cur_target k \<noteq> Some a \<and> last_target k \<noteq> Some a)"

lemma tc_wf_unattached:
  assumes "tc_wf p" "p_targets p a = Some t" "t_tc t = None"
  shows "unseen a p"
  unfolding unseen_def using tc_wfD(4,5) [OF assms(1)] assms(2,3) by fastforce

lemma destroy_unseen:
  assumes "tc_wf p" "p_targets p a = Some t" "t_tc t = Some c"
  shows "unseen a (gdb_target_destroy_callback c a p)"
  unfolding unseen_def
proof (intro allI impI)
  fix c' k'
  assume k': "p_ctls (gdb_target_destroy_callback c a p) c' = Some k'"
  show "cur_target k' \<noteq> Some a \<and> last_target k' \<noteq> Some a"
  proof (cases "c' = c")
    case True
    with k' show ?thesis by (auto simp: gdb_target_destroy_callback_def)
  next
    case False
    with k' have "p_ctls p c' = Some k'" by (simp add: gdb_target_destroy_callback_def)
    from tc_wfD(4,5) [OF assms(1) this] assms(2,3) False show ?thesis by fastforce
  qed
qed

lemma tc_wf_set_ctl:
  assumes wf: "tc_wf p"
    and f: "\<And>k. p_ctls p c = Some k \<Longrightarrow> destroy_callback (f k) \<and> distinct (target_list (f k)) \<and>
      set (target_list (f k)) \<subseteq> set (target_list k) \<and>
      (\<forall>a. cur_target (f k) = Some a \<or> last_target (f k) = Some a \<longrightarrow> (\<exists>t. p_targets p a = Some t \<and> t_tc t = Some c))"
  shows "tc_wf (set_ctl c f p)"
proof -
  have old: "\<exists>k0. p_ctls p x = Some k0 \<and> set (target_list k) \<subseteq> set (target_list k0) \<and> k = (if x = c then f k0 else k0)"
    if "p_ctls (set_ctl c f p) x = Some k" for x k
    using that f by (auto split: if_splits)
  have some: "p_ctls p x \<noteq> None \<Longrightarrow> p_ctls (set_ctl c f p) x \<noteq> None" for x by auto
  show ?thesis unfolding tc_wf_def
  proof (intro conjI allI impI)
    fix x k assume "p_ctls (set_ctl c f p) x = Some k"
    from old [OF this] obtain k0 where k0: "p_ctls p x = Some k0" "set (target_list k) \<subseteq> set (target_list k0)"
      "k = (if x = c then f k0 else k0)" by blast
    note w = tc_wfD [OF wf k0(1)]
    show "destroy_callback k" "distinct (target_list k)" using w f k0 by (auto split: if_splits)
    show "\<forall>a \<in> set (target_list k). p_targets (set_ctl c f p) a \<noteq> None" using w(3) k0(2) unfolding p_simps by blast
    fix a assume "cur_target k = Some a \<or> last_target k = Some a"
    then show "\<exists>t. p_targets (set_ctl c f p) a = Some t \<and> t_tc t = Some x"
      using w(4,5) f k0 by (auto split: if_splits)
  next
    fix a t x assume "p_targets (set_ctl c f p) a = Some t" "t_tc t = Some x"
    then have "p_ctls p x \<noteq> None" using wf unfolding tc_wf_def p_simps by blast
    then show "p_ctls (set_ctl c f p) x \<noteq> None" by (rule some)
  next
    fix x y k k' assume "p_ctls (set_ctl c f p) x = Some k" "p_ctls (set_ctl c f p) y = Some k'" "x \<noteq> y"
    from old [OF this(1)] old [OF this(2)] obtain k0 k1 where "p_ctls p x = Some k0" "p_ctls p y = Some k1"
      "set (target_list k) \<subseteq> set (target_list k0)" "set (target_list k') \<subseteq> set (target_list k1)" by blast
    moreover then have "set (target_list k0) \<inter> set (target_list k1) = {}"
      using \<open>x \<noteq> y\<close> wf unfolding tc_wf_def by metis
    ultimately show "set (target_list k) \<inter> set (target_list k') = {}" by blast
  qed
qed

lemma destroy_wf:
  assumes "tc_wf p"
  shows "tc_wf (gdb_target_destroy_callback c a p)"
  unfolding gdb_target_destroy_callback_def
  using tc_wfD [OF assms] by (intro tc_wf_set_ctl [OF assms]) (auto split: if_splits)

lemma destroy_simps [simp]:
  "p_targets (gdb_target_destroy_callback c a p) = p_targets p"
  "p_world (gdb_target_destroy_callback c a p) = p_world p"
  "map_option target_list (p_ctls (gdb_target_destroy_callback c a p) x) = map_option target_list (p_ctls p x)"
  "p_ctls (gdb_target_destroy_callback c a p) x = None \<longleftrightarrow> p_ctls p x = None"
  by (auto simp: gdb_target_destroy_callback_def option.map_comp comp_def)

lemma tc_wf_retarget:
  assumes "tc_wf p" "unseen a p" "p_ctls p c \<noteq> None"
    and "t_tc t = Some c"
  shows "tc_wf (set_target a t p)"
  using assms unfolding tc_wf_def unseen_def by (auto split: if_splits)

lemma tc_wf_remove:
  assumes "tc_wf p" "unseen a p" "\<forall>c k. p_ctls p c = Some k \<longrightarrow> a \<notin> set (target_list k)"
  shows "tc_wf (p\<lparr>p_targets := (p_targets p)(a := None)\<rparr>)"
  using assms unfolding tc_wf_def unseen_def by (auto split: if_splits)

subsection \<open>The operations keep the invariant\<close>

lemma target_attach_wf:
  assumes wf: "tc_wf p" and c: "p_ctls p c \<noteq> None" and ret: "target_attach (Some a) c p = Some (r, p')"
  shows "tc_wf p'" "r = None \<or> r = Some a" "\<exists>t. p_targets p' a = Some t \<and> t_tc t = Some c"
    "p_ctls p' x = None \<longleftrightarrow> p_ctls p x = None" "map_option target_list (p_ctls p' x) = map_option target_list (p_ctls p x)"
proof -
  from ret obtain t where t: "p_targets p a = Some t" by (auto simp: target_attach_def bind_eq_Some_conv)
  obtain p1 where p1: "(case t_tc t of None \<Rightarrow> Some p | Some c' \<Rightarrow> do { k \<leftarrow> p_ctls p c';
      if destroy_callback k then Some (gdb_target_destroy_callback c' a p) else None }) = Some p1"
    and ret1: "(let p = set_target a (t\<lparr>t_tc := Some c\<rparr>) p1 in do { (ok, w) \<leftarrow> t_attach t (p_world p);
      let p = p\<lparr>p_world := w\<rparr>;
      if ok then Some (Some a, set_target a (t\<lparr>t_tc := Some c, t_attached := True\<rparr>) p) else Some (None, p) }) = Some (r, p')"
    using ret t unfolding target_attach_def by (auto simp: bind_eq_Some_conv)
  have p1_wf: "tc_wf p1 \<and> unseen a p1 \<and> (\<forall>x. p_ctls p1 x = None \<longleftrightarrow> p_ctls p x = None) \<and>
      (\<forall>x. map_option target_list (p_ctls p1 x) = map_option target_list (p_ctls p x))"
  proof (cases "t_tc t")
    case None
    with p1 tc_wf_unattached [OF wf t] wf show ?thesis by simp
  next
    case (Some c')
    with p1 have "p1 = gdb_target_destroy_callback c' a p" by (auto simp: bind_eq_Some_conv split: if_splits)
    with destroy_unseen [OF wf t Some] destroy_wf [OF wf] show ?thesis by simp
  qed
  then have c1: "p_ctls p1 c \<noteq> None" using c by metis
  define t1 where "t1 = t\<lparr>t_tc := Some c\<rparr>"
  define t2 where "t2 = t\<lparr>t_tc := Some c, t_attached := True\<rparr>"
  have tt: "t_tc t1 = Some c" "t_tc t2 = Some c" by (simp_all add: t1_def t2_def)
  from p1_wf have wf1: "tc_wf p1" and u1: "unseen a p1" by blast+
  have w1: "tc_wf (set_target a t1 p1)" by (rule tc_wf_retarget [OF wf1 u1 c1 tt(1)])
  have u2: "unseen a ((set_target a t1 p1)\<lparr>p_world := w\<rparr>)" for w using u1 by (simp add: unseen_def)
  have w2: "tc_wf (set_target a t2 ((set_target a t1 p1)\<lparr>p_world := w\<rparr>))" for w
    using w1 c1 u2 tt(2) by (intro tc_wf_retarget) (simp_all add: tc_wf_world)
  from ret1 obtain ok w where "(if ok then Some (Some a, set_target a t2 ((set_target a t1 p1)\<lparr>p_world := w\<rparr>))
      else Some (None, (set_target a t1 p1)\<lparr>p_world := w\<rparr>)) = Some (r, p')"
    unfolding Let_def bind_eq_Some_conv t1_def t2_def by (auto simp only: split_paired_Ex prod.case)
  then have e: "(r, p') = (if ok then (Some a, set_target a t2 ((set_target a t1 p1)\<lparr>p_world := w\<rparr>))
      else (None, (set_target a t1 p1)\<lparr>p_world := w\<rparr>))"
    by (auto split: if_splits)
  show "tc_wf p'" using e w1 w2 by (auto simp: tc_wf_world split: if_splits)
  show "r = None \<or> r = Some a" using e by (auto split: if_splits)
  show "\<exists>t. p_targets p' a = Some t \<and> t_tc t = Some c" using e tt by (auto split: if_splits)
  show "p_ctls p' x = None \<longleftrightarrow> p_ctls p x = None" using e p1_wf by (auto split: if_splits)
  show "map_option target_list (p_ctls p' x) = map_option target_list (p_ctls p x)"
    using e p1_wf by (auto split: if_splits)
qed

lemma nop_target_tc [simp]: "t_tc nop_target = None"
  by (simp add: nop_target_def)

lemma target_new_wf:
  assumes wf: "tc_wf p" and ret: "target_new hp sz (Some c) p = (r, p')"
    and fresh: "\<And>a w. mm_alloc hp sz (p_world p) = (Some a, w) \<Longrightarrow> p_targets p a = None"
  shows "tc_wf p'"
proof (cases "mm_alloc hp sz (p_world p)")
  case (Pair q w)
  show ?thesis
  proof (cases q)
    case None
    with ret Pair wf show ?thesis by (auto simp: target_new_def tc_wf_world)
  next
    case (Some a)
    then have a: "p_targets p a = None" using fresh Pair by blast
    let ?p1 = "set_target a nop_target (p\<lparr>p_world := w\<rparr>)"
    have p': "p' = set_ctl c (\<lambda>k. k\<lparr>target_list := target_list k @ [a]\<rparr>) ?p1" using ret Pair Some by (simp add: target_new_def)
    have no: "a \<notin> set (target_list k) \<and> cur_target k \<noteq> Some a \<and> last_target k \<noteq> Some a" if "p_ctls p x = Some k" for x k
      using tc_wfD(3-5) [OF wf that, of a] a by auto
    show ?thesis unfolding tc_wf_def
    proof (intro conjI allI impI)
      fix x k assume "p_ctls p' x = Some k"
      then obtain k0 where k0: "p_ctls p x = Some k0" "k = (if x = c then k0\<lparr>target_list := target_list k0 @ [a]\<rparr> else k0)"
        by (auto simp: p' split: if_splits)
      note w = tc_wfD [OF wf k0(1)] and n = no [OF k0(1)]
      show "destroy_callback k" "distinct (target_list k)" "\<forall>b \<in> set (target_list k). p_targets p' b \<noteq> None"
        using w n k0(2) by (auto simp: p')
      fix b assume "cur_target k = Some b \<or> last_target k = Some b"
      then show "\<exists>t. p_targets p' b = Some t \<and> t_tc t = Some x"
        using w n k0(2) by (auto simp: p' split: if_splits)
    next
      fix b t x assume "p_targets p' b = Some t" "t_tc t = Some x"
      from this have "p_targets p b = Some t" by (auto simp: p' split: if_splits)
      then have "p_ctls p x \<noteq> None" using \<open>t_tc t = Some x\<close> wf unfolding tc_wf_def by blast
      then show "p_ctls p' x \<noteq> None" by (auto simp: p')
    next
      fix x y k k' assume "p_ctls p' x = Some k" "p_ctls p' y = Some k'" "x \<noteq> y"
      then obtain k0 k1 where k: "p_ctls p x = Some k0" "p_ctls p y = Some k1"
        "set (target_list k) = set (target_list k0) \<union> (if x = c then {a} else {})"
        "set (target_list k') = set (target_list k1) \<union> (if y = c then {a} else {})"
        by (auto simp: p' split: if_splits)
      have "set (target_list k0) \<inter> set (target_list k1) = {}" using wf k(1,2) \<open>x \<noteq> y\<close> unfolding tc_wf_def by metis
      then show "set (target_list k) \<inter> set (target_list k') = {}"
        using no [OF k(1)] no [OF k(2)] \<open>x \<noteq> y\<close> unfolding k(3,4) by auto
    qed
  qed
qed

text \<open>While a list is being freed, the controller still lists what has gone: the invariant there is
  that of the state in which the freed part has left the list.\<close>

lemma set_ctl_set_ctl: "set_ctl c f (set_ctl c g p) = set_ctl c (f \<circ> g) p"
  by (simp add: set_ctl_def option.map_comp)

lemma set_ctl_target_update:
  "set_ctl c f (p\<lparr>p_targets := T, p_world := w\<rparr>) = (set_ctl c f p)\<lparr>p_targets := T, p_world := w\<rparr>"
  by (simp add: set_ctl_def)

abbreviation with_list :: "nat \<Rightarrow> nat list \<Rightarrow> 'w probe \<Rightarrow> 'w probe" where
  "with_list c as p \<equiv> set_ctl c (\<lambda>k. k\<lparr>target_list := as\<rparr>) p"

lemma set_ctl_commute: "c \<noteq> d \<Longrightarrow> set_ctl c f (set_ctl d g p) = set_ctl d g (set_ctl c f p)"
  by (simp add: set_ctl_def fun_upd_twist)

lemma destroy_with_list:
  "gdb_target_destroy_callback d a (with_list c as p) = with_list c as (gdb_target_destroy_callback d a p)"
proof (cases "d = c")
  case True
  have "forget_target a \<circ> (\<lambda>k. k\<lparr>target_list := as\<rparr>) = (\<lambda>k. k\<lparr>target_list := as\<rparr>) \<circ> forget_target a"
    by (simp add: fun_eq_iff)
  with True show ?thesis unfolding gdb_target_destroy_callback_def by (simp only: set_ctl_set_ctl)
next
  case False
  then show ?thesis unfolding gdb_target_destroy_callback_def by (rule set_ctl_commute)
qed

lemma tc_wf_disjoint:
  "tc_wf p \<Longrightarrow> p_ctls p c = Some k \<Longrightarrow> p_ctls p d = Some k' \<Longrightarrow> c \<noteq> d \<Longrightarrow> a \<in> set (target_list k) \<Longrightarrow> a \<notin> set (target_list k')"
  unfolding tc_wf_def by blast

lemma tc_wf_ctl: "tc_wf p \<Longrightarrow> p_targets p a = Some t \<Longrightarrow> t_tc t = Some c \<Longrightarrow> \<exists>k. p_ctls p c = Some k"
  unfolding tc_wf_def by blast

lemma tc_wf_shorten:
  assumes wf: "tc_wf (with_list c (a # as) p)" and c: "p_ctls p c = Some k0"
  shows "tc_wf (with_list c as p)" "\<forall>d k. p_ctls (with_list c as p) d = Some k \<longrightarrow> a \<notin> set (target_list k)"
proof -
  let ?q = "with_list c (a # as) p"
  have kc: "p_ctls ?q c = Some (k0\<lparr>target_list := a # as\<rparr>)" using c by simp
  note w = tc_wfD [OF wf kc]
  have e: "with_list c as p = with_list c as ?q" by (simp add: set_ctl_set_ctl comp_def)
  show "tc_wf (with_list c as p)" unfolding e
  proof (rule tc_wf_set_ctl [OF wf])
    fix k assume "p_ctls ?q c = Some k"
    then have k: "k = k0\<lparr>target_list := a # as\<rparr>" using kc by (metis option.inject)
    show "destroy_callback (k\<lparr>target_list := as\<rparr>) \<and> distinct (target_list (k\<lparr>target_list := as\<rparr>)) \<and>
      set (target_list (k\<lparr>target_list := as\<rparr>)) \<subseteq> set (target_list k) \<and>
      (\<forall>b. cur_target (k\<lparr>target_list := as\<rparr>) = Some b \<or> last_target (k\<lparr>target_list := as\<rparr>) = Some b \<longrightarrow>
        (\<exists>t. p_targets ?q b = Some t \<and> t_tc t = Some c))"
      using w(1,2) w(4,5) unfolding k by auto
  qed
  show "\<forall>d k. p_ctls (with_list c as p) d = Some k \<longrightarrow> a \<notin> set (target_list k)"
  proof (intro allI impI)
    fix d k assume k: "p_ctls (with_list c as p) d = Some k"
    show "a \<notin> set (target_list k)"
    proof (cases "d = c")
      case True
      then have "target_list k = as" using k c by auto
      with w(2) show ?thesis by simp
    next
      case False
      then have "p_ctls ?q d = Some k" using k by simp
      from tc_wf_disjoint [OF wf kc this False [symmetric], of a] show ?thesis by simp
    qed
  qed
qed

lemma tell_controller_wf:
  assumes wf: "tc_wf (with_list c as p)" and t: "p_targets p a = Some t" and p1: "tell_controller a t p = Some p1"
  shows "tc_wf (with_list c as p1)" "unseen a (with_list c as p1)" "p_targets p1 = p_targets p"
    "map_option target_list (p_ctls p1 d) = map_option target_list (p_ctls p d)"
proof -
  have t': "p_targets (with_list c as p) a = Some t" using t by simp
  have "tc_wf (with_list c as p1) \<and> unseen a (with_list c as p1) \<and> p_targets p1 = p_targets p \<and>
    map_option target_list (p_ctls p1 d) = map_option target_list (p_ctls p d)"
  proof (cases "t_tc t")
    case None
    with p1 have "p1 = p" by (simp add: tell_controller_def)
    with wf tc_wf_unattached [OF wf t' None] show ?thesis by simp
  next
    case (Some x)
    with p1 obtain k where k: "p_ctls p x = Some k"
      "p1 = (if destroy_callback k then gdb_target_destroy_callback x a p else p)"
      by (auto simp: tell_controller_def bind_eq_Some_conv)
    have "p_ctls (with_list c as p) x = Some (if x = c then k\<lparr>target_list := as\<rparr> else k)" using k(1) by auto
    from tc_wfD(1) [OF wf this] have "destroy_callback k" by (simp split: if_splits)
    with k(2) have e: "p1 = gdb_target_destroy_callback x a p" by simp
    then have "with_list c as p1 = gdb_target_destroy_callback x a (with_list c as p)" by (simp add: destroy_with_list)
    with destroy_unseen [OF wf t' Some] destroy_wf [OF wf, of x a] e show ?thesis by simp
  qed
  then show "tc_wf (with_list c as p1)" "unseen a (with_list c as p1)" "p_targets p1 = p_targets p"
    "map_option target_list (p_ctls p1 d) = map_option target_list (p_ctls p d)" by blast+
qed

lemma free_targets_wf:
  assumes "tc_wf (with_list c as p)" and "p_ctls p c = Some k0" and "free_targets hp as p = Some p'"
  shows "tc_wf (with_list c [] p') \<and> (\<forall>a. p_targets p' a = (if a \<in> set as then None else p_targets p a)) \<and>
    (\<forall>d. map_option target_list (p_ctls p' d) = map_option target_list (p_ctls p d))"
  using assms
proof (induction as arbitrary: p k0)
  case Nil
  then show ?case by simp
next
  case (Cons a as)
  note short = tc_wf_shorten [OF Cons.prems(1,2)]
  from Cons.prems(3) obtain t p1 w where t: "p_targets p a = Some t" and p1: "tell_controller a t p = Some p1"
    and rest: "free_targets hp as (p1\<lparr>p_targets := (p_targets p1)(a := None), p_world := w\<rparr>) = Some p'"
    by (auto simp: bind_eq_Some_conv)
  let ?p2 = "p1\<lparr>p_targets := (p_targets p1)(a := None), p_world := w\<rparr>"
  note tell = tell_controller_wf [OF short(1) t p1]
  have k1: "map_option target_list (p_ctls p1 c) = Some (target_list k0)" using tell(4) [of c] Cons.prems(2) by simp
  then obtain k1 where "p_ctls p1 c = Some k1" by blast
  then have c2: "p_ctls ?p2 c = Some k1" by simp
  have "\<forall>d k. p_ctls (with_list c as p1) d = Some k \<longrightarrow> a \<notin> set (target_list k)"
  proof (intro allI impI)
    fix d k assume k: "p_ctls (with_list c as p1) d = Some k"
    then obtain k' where "p_ctls (with_list c as p) d = Some k'" "target_list k' = target_list k"
      using tell(4) [of d] by (cases "d = c"; cases "p_ctls p d") auto
    with short(2) show "a \<notin> set (target_list k)" by metis
  qed
  from tc_wf_remove [OF tell(1,2) this] have "tc_wf (with_list c as ?p2)" by (simp add: set_ctl_def tc_wf_def)
  from Cons.IH [OF this c2 rest] tell(3,4) show ?case by auto
qed

lemma target_list_free_wf:
  assumes "tc_wf p" and "p_ctls p c = Some k" and "target_list_free hp c p = Some p'"
  shows "tc_wf p'" "\<forall>a \<in> set (target_list k). p_targets p' a = None"
    "\<forall>a. a \<notin> set (target_list k) \<longrightarrow> p_targets p' a = p_targets p a"
    "map_option target_list (p_ctls p' c) = Some []"
proof -
  have e: "with_list c (target_list k) p = p" using assms(2) by (simp add: set_ctl_def fun_upd_idem)
  from assms(2,3) obtain q where q: "free_targets hp (target_list k) p = Some q" "p' = with_list c [] q"
    by (auto simp: target_list_free_def bind_eq_Some_conv)
  from free_targets_wf [OF _ assms(2) q(1)] assms(1) e have r: "tc_wf (with_list c [] q)"
    "\<forall>a. p_targets q a = (if a \<in> set (target_list k) then None else p_targets p a)"
    "map_option target_list (p_ctls q c) = map_option target_list (p_ctls p c)" by auto
  show "tc_wf p'" using r(1) q(2) by simp
  show "\<forall>a \<in> set (target_list k). p_targets p' a = None" "\<forall>a. a \<notin> set (target_list k) \<longrightarrow> p_targets p' a = p_targets p a"
    using r(2) q(2) by simp_all
  show "map_option target_list (p_ctls p' c) = Some []"
    using r(3) assms(2) q(2) by (auto simp: option.map_comp comp_def)
qed

subsection \<open>Sessions\<close>

text \<open>\<open>gdb_main_init_target_controller\<close> (\<open>gdb_main.c\<close>): everything cleared, the callbacks set.\<close>

definition gdb_main_init_target_controller :: controller where
  "gdb_main_init_target_controller =
     \<lparr>destroy_callback = True, printf_callback = True, host_callback = (\<lambda>h. True), errno_ = 0, interrupted = False,
      running_status = 0, cur_target = None, last_target = None, target_list = [], flash_mode = 0,
      connect_assert_srst = False, cortexm_wait_timeout = 2000\<rparr>"

text \<open>
  The steps by which a session moves the pointers, each controller with targets of its own or of
  another: a probe finds a target, a controller attaches one (and takes it as the current one), detaches
  the current one, gives its whole list back; drivers change a target but not its controller.
\<close>

inductive tc_step :: "'w heap_ops \<Rightarrow> nat \<Rightarrow> 'w probe \<Rightarrow> 'w probe \<Rightarrow> bool" for hp sz where
  step_new: "target_new hp sz (Some c) p = (r, p') \<Longrightarrow>
    (\<And>a w. mm_alloc hp sz (p_world p) = (Some a, w) \<Longrightarrow> p_targets p a = None) \<Longrightarrow> tc_step hp sz p p'"
| step_attach: "p_ctls p c = Some k \<Longrightarrow> target_attach tp c p = Some (r, p') \<Longrightarrow>
    tc_step hp sz p (set_ctl c (\<lambda>k. k\<lparr>cur_target := r\<rparr>) p')"
| step_detach: "tc_step hp sz p (set_ctl c (\<lambda>k. k\<lparr>last_target := cur_target k, cur_target := None\<rparr>) p)"
| step_free: "target_list_free hp c p = Some p' \<Longrightarrow> tc_step hp sz p p'"
| step_driver: "p_targets p a = Some t \<Longrightarrow> t_tc t' = t_tc t \<Longrightarrow> tc_step hp sz p ((set_target a t' p)\<lparr>p_world := w\<rparr>)"

inductive_cases tc_stepE: "tc_step hp sz p p'"

lemma tc_wf_same_tc:
  assumes wf: "tc_wf p" and "p_targets p a = Some t" "t_tc t' = t_tc t"
  shows "tc_wf (set_target a t' p)"
  unfolding tc_wf_def
proof (intro conjI allI impI)
  fix c k assume "p_ctls (set_target a t' p) c = Some k"
  then have k: "p_ctls p c = Some k" by simp
  show "destroy_callback k" "distinct (target_list k)" "\<forall>b \<in> set (target_list k). p_targets (set_target a t' p) b \<noteq> None"
    using tc_wfD(1-3) [OF wf k] by auto
  fix b assume "cur_target k = Some b \<or> last_target k = Some b"
  then have "\<exists>t. p_targets p b = Some t \<and> t_tc t = Some c" using tc_wfD(4,5) [OF wf k] by blast
  then show "\<exists>t. p_targets (set_target a t' p) b = Some t \<and> t_tc t = Some c" using assms(2,3) by auto
next
  fix b u c assume "p_targets (set_target a t' p) b = Some u" "t_tc u = Some c"
  then have "\<exists>u. p_targets p b = Some u \<and> t_tc u = Some c" using assms(2,3) by (auto split: if_splits)
  then show "p_ctls (set_target a t' p) c \<noteq> None" using tc_wf_ctl [OF wf] by auto
next
  fix c c' k k' assume "p_ctls (set_target a t' p) c = Some k" "p_ctls (set_target a t' p) c' = Some k'" "c \<noteq> c'"
  then show "set (target_list k) \<inter> set (target_list k') = {}" using tc_wf_disjoint [OF wf, of c k c' k'] by auto
qed

lemma tc_step_wf:
  assumes "tc_step hp sz p p'" and wf: "tc_wf p"
  shows "tc_wf p'"
  using assms
proof (cases rule: tc_step.cases)
  case (step_new c r)
  then show ?thesis using target_new_wf [OF wf] by blast
next
  case (step_attach c k tp r q)
  from step_attach(3) obtain a where tp: "tp = Some a" by (auto simp: target_attach_def bind_eq_Some_conv)
  have c: "p_ctls p c \<noteq> None" using step_attach by simp
  note w = target_attach_wf [OF wf c step_attach(3) [unfolded tp]]
  have "tc_wf (set_ctl c (\<lambda>k. k\<lparr>cur_target := r\<rparr>) q)"
  proof (rule tc_wf_set_ctl [OF w(1)])
    fix k assume "p_ctls q c = Some k"
    from tc_wfD [OF w(1) this] w(2,3)
    show "destroy_callback (k\<lparr>cur_target := r\<rparr>) \<and> distinct (target_list (k\<lparr>cur_target := r\<rparr>)) \<and>
      set (target_list (k\<lparr>cur_target := r\<rparr>)) \<subseteq> set (target_list k) \<and>
      (\<forall>b. cur_target (k\<lparr>cur_target := r\<rparr>) = Some b \<or> last_target (k\<lparr>cur_target := r\<rparr>) = Some b \<longrightarrow>
        (\<exists>t. p_targets q b = Some t \<and> t_tc t = Some c))"
      by auto
  qed
  then show ?thesis using step_attach by simp
next
  case (step_detach c)
  have "tc_wf (set_ctl c (\<lambda>k. k\<lparr>last_target := cur_target k, cur_target := None\<rparr>) p)"
  proof (rule tc_wf_set_ctl [OF wf])
    fix k assume "p_ctls p c = Some k"
    from tc_wfD [OF wf this]
    show "destroy_callback (k\<lparr>last_target := cur_target k, cur_target := None\<rparr>) \<and>
      distinct (target_list (k\<lparr>last_target := cur_target k, cur_target := None\<rparr>)) \<and>
      set (target_list (k\<lparr>last_target := cur_target k, cur_target := None\<rparr>)) \<subseteq> set (target_list k) \<and>
      (\<forall>b. cur_target (k\<lparr>last_target := cur_target k, cur_target := None\<rparr>) = Some b \<or>
          last_target (k\<lparr>last_target := cur_target k, cur_target := None\<rparr>) = Some b \<longrightarrow>
        (\<exists>t. p_targets p b = Some t \<and> t_tc t = Some c))"
      by auto
  qed
  then show ?thesis using step_detach by simp
next
  case (step_free c)
  then obtain k where "p_ctls p c = Some k" by (auto simp: target_list_free_def bind_eq_Some_conv)
  from target_list_free_wf(1) [OF wf this step_free] show ?thesis .
next
  case (step_driver a t t' w)
  have "tc_wf (set_target a t' p)" by (rule tc_wf_same_tc [OF wf step_driver(2,3)])
  then show ?thesis using step_driver by (simp add: tc_wf_world)
qed

definition init_probe :: "nat set \<Rightarrow> 'w \<Rightarrow> 'w probe" where
  "init_probe C w = \<lparr>p_targets = (\<lambda>a. None), p_ctls = (\<lambda>c. if c \<in> C then Some gdb_main_init_target_controller else None),
     p_pbuf = replicate 1025 0, p_world = w\<rparr>"

lemma init_probe_wf: "tc_wf (init_probe C w)"
  by (auto simp: tc_wf_def init_probe_def gdb_main_init_target_controller_def split: if_splits)

lemma tc_reachable_wf: "(tc_step hp sz)\<^sup>*\<^sup>* (init_probe C w) p \<Longrightarrow> tc_wf p"
  by (induction rule: rtranclp_induct) (auto intro: init_probe_wf tc_step_wf)


text \<open>One target of the controller 0, attached by the controller 1.\<close>

definition count_heap :: "nat heap_ops" where
  "count_heap = \<lparr>mm_alloc = (\<lambda>n w. (Some w, w + 1)), mm_free = (\<lambda>q w. w)\<rparr>"


end
