(* ===== verification/Gdb_Main.thy ===== *)
theory Gdb_Main
  imports Target_List Crc32 Stdio
begin

text \<open>
  \<open>src/src/gdb_main.c\<close>: the command interpreter for the packets of GDB, one definition for each
  packet, over the probe state of \<open>Target_List\<close>. The surroundings are the record \<open>env\<close>: the character
  channel, the allocator, the clock, the remote-control handler, the indicator outputs, the address of the
  file's own \<open>gdb_controller\<close>, and the values that uninitialised variables happen to have. The
  interpreter of the monitor commands is an argument; that of \<open>command.c\<close> is in \<open>Command\<close>.
\<close>

subsection \<open>Surroundings and replies\<close>

record 'w env =
  e_io :: "'w gdb_io"
  e_heap :: "'w heap_ops"
  e_clk :: "'w \<Rightarrow> u32 \<times> 'w"
  e_remote :: "'w remote_handler"
  e_morse :: "u8 list option \<Rightarrow> bool \<Rightarrow> 'w \<Rightarrow> 'w"
  e_idle :: "nat \<Rightarrow> bool \<Rightarrow> 'w \<Rightarrow> 'w"
  e_gdb_controller :: nat
  e_sizeof_bw :: nat
  e_uninit :: "nat \<Rightarrow> int"

type_synonym 'w command_handler = "nat \<Rightarrow> u8 list \<Rightarrow> 'w probe \<Rightarrow> (int \<times> 'w probe) option"

definition BUF_SIZE :: nat where
  "BUF_SIZE = 1024"

text \<open>The value a scan stored in its \<open>i\<close>-th variable.\<close>

definition scanned :: "'w env \<Rightarrow> int list \<Rightarrow> nat \<Rightarrow> int" where
  "scanned e vals i = (if i < length vals then vals ! i else e_uninit e i)"

abbreviation scanned_u32 :: "'w env \<Rightarrow> int list \<Rightarrow> nat \<Rightarrow> u32" where
  "scanned_u32 e vals i \<equiv> word_of_int (scanned e vals i)"

text \<open>The packet buffer from an offset on.\<close>

definition pbuf_from :: "int \<Rightarrow> 'w probe \<Rightarrow> u8 list option" where
  "pbuf_from n p = (if 0 \<le> n \<and> n \<le> int (length (p_pbuf p)) then Some (drop (nat n) (p_pbuf p)) else None)"

definition put :: "'w env \<Rightarrow> u8 list \<Rightarrow> nat \<Rightarrow> 'w probe \<Rightarrow> 'w probe option" where
  "put e packet n p = do { w \<leftarrow> gdb_putpacket (e_io e) packet n (p_world p); Some (p\<lparr>p_world := w\<rparr>) }"

definition putz :: "'w env \<Rightarrow> string \<Rightarrow> 'w probe \<Rightarrow> 'w probe option" where
  "putz e s p = do { w \<leftarrow> gdb_putpacketz (e_io e) (str s) (p_world p); Some (p\<lparr>p_world := w\<rparr>) }"

definition putf :: "'w env \<Rightarrow> u8 list \<Rightarrow> 'w probe \<Rightarrow> 'w probe option" where
  "putf e txt p = do { w \<leftarrow> gdb_putpacket_f (e_io e) (e_heap e) txt (p_world p); Some (p\<lparr>p_world := w\<rparr>) }"

text \<open>\<open>gdb_putpacket(hexify(pbuf, data, n), 2 * n)\<close>: the digits and the terminator must fit into
  the packet buffer.\<close>

definition put_hex :: "'w env \<Rightarrow> u8 list \<Rightarrow> 'w probe \<Rightarrow> 'w probe option" where
  "put_hex e data p =
     (if 2 * length data + 1 \<le> length (p_pbuf p)
      then put e (hexify data) (2 * length data) (p\<lparr>p_pbuf := splice_at (p_pbuf p) 0 (hexify data)\<rparr>)
      else None)"

definition the_ctl :: "nat \<Rightarrow> 'w probe \<Rightarrow> controller option" where
  "the_ctl c p = p_ctls p c"

definition set_cur :: "nat \<Rightarrow> nat option \<Rightarrow> 'w probe \<Rightarrow> 'w probe" where
  "set_cur c r p = set_ctl c (\<lambda>k. k\<lparr>cur_target := r\<rparr>) p"

text \<open>\<open>ERROR_IF_NO_TARGET\<close>\<close>

definition with_target :: "'w env \<Rightarrow> nat \<Rightarrow> 'w probe \<Rightarrow> (nat \<Rightarrow> 'w probe option) \<Rightarrow> 'w probe option" where
  "with_target e c p f =
     do { k \<leftarrow> p_ctls p c; case cur_target k of None \<Rightarrow> putz e ''EFF'' p | Some a \<Rightarrow> f a }"

subsection \<open>Registers and memory\<close>

definition packet_g :: "'w env \<Rightarrow> nat \<Rightarrow> 'w probe \<Rightarrow> 'w probe option" where
  "packet_g e c p = with_target e c p (\<lambda>a.
     do { (regs, p) \<leftarrow> on_target (Some a) target_regs_read p; put_hex e regs p })"

definition packet_m :: "'w env \<Rightarrow> nat \<Rightarrow> 'w probe \<Rightarrow> 'w probe option" where
  "packet_m e c p = with_target e c p (\<lambda>a.
     let vals = sscanf (p_pbuf p) (lits ''m'' @ [ScanX None] @ lits '','' @ [ScanX None]);
         addr = scanned_u32 e vals 0;
         len = scanned_u32 e vals 1
     in if unat len > (BUF_SIZE + 1) div 2 then putz e ''E02'' p
        else do { ((err, mem), p) \<leftarrow> on_target (Some a) (\<lambda>t. target_mem_read t addr (unat len)) p;
                  if err then putz e ''E01'' p else put_hex e mem p })"

definition packet_G :: "'w env \<Rightarrow> nat \<Rightarrow> 'w probe \<Rightarrow> 'w probe option" where
  "packet_G e c p = with_target e c p (\<lambda>a.
     do { t \<leftarrow> p_targets p a;
          regs \<leftarrow> unhexify (drop 1 (p_pbuf p)) (target_regs_size t);
          p \<leftarrow> do_target (Some a) (\<lambda>t. target_regs_write t regs) p;
          putz e ''OK'' p })"

definition packet_M :: "'w env \<Rightarrow> nat \<Rightarrow> nat \<Rightarrow> 'w probe \<Rightarrow> 'w probe option" where
  "packet_M e c sz p = with_target e c p (\<lambda>a.
     let vals = sscanf (p_pbuf p) (lits ''M'' @ [ScanX None] @ lits '','' @ [ScanX None] @ lits '':'' @ [ScanN]);
         addr = scanned_u32 e vals 0;
         len = scanned_u32 e vals 1;
         hex = scanned e vals 2
     in if len > (word_of_int (int sz - hex) :: u32) div 2 then putz e ''E02'' p
        else do { s \<leftarrow> pbuf_from hex p;
                  mem \<leftarrow> unhexify s (unat len);
                  (err, p) \<leftarrow> on_target (Some a) (\<lambda>t. target_mem_write t addr mem) p;
                  putz e (if err then ''E01'' else ''OK'') p })"

definition packet_X :: "'w env \<Rightarrow> nat \<Rightarrow> nat \<Rightarrow> 'w probe \<Rightarrow> 'w probe option" where
  "packet_X e c sz p = with_target e c p (\<lambda>a.
     let vals = sscanf (p_pbuf p) (lits ''X'' @ [ScanX None] @ lits '','' @ [ScanX None] @ lits '':'' @ [ScanN]);
         addr = scanned_u32 e vals 0;
         len = scanned_u32 e vals 1;
         bin = scanned e vals 2
     in if len > (word_of_int (int sz - bin) :: u32) then putz e ''E02'' p
        else do { s \<leftarrow> pbuf_from bin p;
                  if unat len \<le> length s
                  then do { (err, p) \<leftarrow> on_target (Some a) (\<lambda>t. target_mem_write t addr (take (unat len) s)) p;
                            putz e (if err then ''E01'' else ''OK'') p }
                  else None })"

text \<open>A negative result of \<open>reg_read\<close> becomes a huge \<open>size_t\<close>: the dump of that many bytes leaves
  the 8-byte buffer (no result).\<close>

definition packet_p :: "'w env \<Rightarrow> nat \<Rightarrow> 'w probe \<Rightarrow> 'w probe option" where
  "packet_p e c p = with_target e c p (\<lambda>a.
     let vals = sscanf (p_pbuf p) (lits ''p'' @ [ScanX None]);
         reg = scanned_u32 e vals 0
     in do { ((s, val), p) \<leftarrow> on_target (Some a) (\<lambda>t. target_reg_read t (unat reg) 8) p;
             if s = 0 then putz e ''EFF'' p
             else if 0 < s \<and> s \<le> 8 \<and> nat s \<le> length val then put_hex e (take (nat s) val) p
             else None })"

definition packet_P :: "'w env \<Rightarrow> nat \<Rightarrow> 'w probe \<Rightarrow> 'w probe option" where
  "packet_P e c p = with_target e c p (\<lambda>a.
     let vals = sscanf (p_pbuf p) (lits ''P'' @ [ScanX None] @ lits ''='' @ [ScanN]);
         reg = scanned_u32 e vals 0;
         n = scanned e vals 1
     in do { s \<leftarrow> pbuf_from n p;
             val \<leftarrow> unhexify s (length (cstr s) div 2);
             (r, p) \<leftarrow> on_target (Some a) (\<lambda>t. target_reg_write t (unat reg) val) p;
             putz e (if r > 0 then ''OK'' else ''EFF'') p })"

subsection \<open>Run control\<close>

text \<open>Waiting for the target to halt; \<open>^C\<close> and end of transmission request a halt.\<close>

partial_function (option) halt_wait :: "'w env \<Rightarrow> nat \<Rightarrow> 'w probe \<Rightarrow> ((target_halt_reason \<times> u32) \<times> 'w probe) option" where
  "halt_wait e a p =
     do { ((reason, watch), p) \<leftarrow> on_target (Some a) target_halt_poll p;
          if reason \<noteq> TARGET_HALT_RUNNING then Some ((reason, watch), p)
          else do {
            (ch, w) \<leftarrow> io_getchar_to (e_io e) 0 (p_world p);
            let p = p\<lparr>p_world := w\<rparr>;
            p \<leftarrow> (if ch = 3 \<or> ch = 4 then do_target (Some a) target_halt_request p else Some p);
            halt_wait e a p } }"

definition GDB_SIGINT :: u8 where "GDB_SIGINT = 2"
definition GDB_SIGTRAP :: u8 where "GDB_SIGTRAP = 5"
definition GDB_SIGSEGV :: u8 where "GDB_SIGSEGV = 11"
definition GDB_SIGLOST :: u8 where "GDB_SIGLOST = 29"

definition halt_reply :: "'w env \<Rightarrow> target_halt_reason \<Rightarrow> u32 \<Rightarrow> 'w probe \<Rightarrow> 'w probe option" where
  "halt_reply e reason watch p =
     (case reason of
        TARGET_HALT_ERROR \<Rightarrow>
          do { p \<leftarrow> putf e (str ''X'' @ fmt_02X GDB_SIGLOST) p;
               Some (p\<lparr>p_world := e_morse e (Some (str ''TARGET LOST.'')) True (p_world p)\<rparr>) }
      | TARGET_HALT_REQUEST \<Rightarrow> putf e (str ''T'' @ fmt_02X GDB_SIGINT) p
      | TARGET_HALT_WATCHPOINT \<Rightarrow>
          putf e (str ''T'' @ fmt_02X GDB_SIGTRAP @ str ''watch:'' @ fmt_08X watch @ str '';'') p
      | TARGET_HALT_FAULT \<Rightarrow> putf e (str ''T'' @ fmt_02X GDB_SIGSEGV) p
      | _ \<Rightarrow> putf e (str ''T'' @ fmt_02X GDB_SIGTRAP) p)"

definition packet_halt_reason :: "'w env \<Rightarrow> nat \<Rightarrow> 'w probe \<Rightarrow> 'w probe option" where
  "packet_halt_reason e c p =
     do { k \<leftarrow> p_ctls p c;
          case cur_target k of
            None \<Rightarrow> putz e ''W00'' p
          | Some a \<Rightarrow>
              do { ((reason, watch), p) \<leftarrow> halt_wait e a p;
                   halt_reply e reason watch (set_ctl c (\<lambda>k. k\<lparr>running_status := 0\<rparr>) p) } }"

text \<open>Packets \<open>s\<close> and \<open>c\<close>. The result is the flag \<open>single_step\<close>, which only a resume clears.\<close>

definition packet_resume :: "'w env \<Rightarrow> nat \<Rightarrow> bool \<Rightarrow> 'w probe \<Rightarrow> (bool \<times> 'w probe) option" where
  "packet_resume e c single_step p =
     do { k \<leftarrow> p_ctls p c;
          case cur_target k of
            None \<Rightarrow> do { p \<leftarrow> putz e ''X1D'' p; Some (single_step, p) }
          | Some a \<Rightarrow>
              do { p \<leftarrow> do_target (Some a) (\<lambda>t. target_halt_resume t single_step) p;
                   p \<leftarrow> packet_halt_reason e c (set_ctl c (\<lambda>k. k\<lparr>running_status := 1\<rparr>) p);
                   Some (False, p) } }"

text \<open>\<open>target_detach\<close> on the target a pointer leads to.\<close>

definition detach_at :: "nat \<Rightarrow> 'w probe \<Rightarrow> 'w probe option" where
  "detach_at a p =
     do { t \<leftarrow> p_targets p a; (t, w) \<leftarrow> target_detach t (p_world p); Some ((set_target a t p)\<lparr>p_world := w\<rparr>) }"

definition drop_target :: "nat \<Rightarrow> 'w probe \<Rightarrow> 'w probe" where
  "drop_target c p = set_ctl c (\<lambda>k. k\<lparr>last_target := cur_target k, cur_target := None\<rparr>) p"

definition packet_D :: "'w env \<Rightarrow> nat \<Rightarrow> 'w probe \<Rightarrow> 'w probe option" where
  "packet_D e c p =
     do { k \<leftarrow> p_ctls p c;
          p \<leftarrow> (case cur_target k of
                  None \<Rightarrow> Some p
                | Some a \<Rightarrow> detach_at a (set_ctl c (\<lambda>k. k\<lparr>running_status := 1\<rparr>) p));
          putz e ''OK'' (drop_target c p) }"

definition packet_k :: "'w env \<Rightarrow> nat \<Rightarrow> 'w probe \<Rightarrow> 'w probe option" where
  "packet_k e c p =
     do { k \<leftarrow> p_ctls p c;
          case cur_target k of
            None \<Rightarrow> Some p
          | Some a \<Rightarrow> do { p \<leftarrow> do_target (Some a) target_reset p; p \<leftarrow> detach_at a p; Some (drop_target c p) } }"

text \<open>Attaching the last target again, with the controller of this file.\<close>

definition reattach :: "'w env \<Rightarrow> nat \<Rightarrow> nat \<Rightarrow> 'w probe \<Rightarrow> (nat option \<times> 'w probe) option" where
  "reattach e c a p =
     do { (r, p) \<leftarrow> target_attach (Some a) (e_gdb_controller e) p; Some (r, set_cur c r p) }"

definition morse_off :: "'w env \<Rightarrow> 'w probe \<Rightarrow> 'w probe" where
  "morse_off e p = p\<lparr>p_world := e_morse e None False (p_world p)\<rparr>"

text \<open>Packets \<open>r\<close> and \<open>R\<close>: after a failed attachment the reset goes through a null pointer.\<close>

definition packet_R :: "'w env \<Rightarrow> nat \<Rightarrow> 'w probe \<Rightarrow> 'w probe option" where
  "packet_R e c p =
     do { k \<leftarrow> p_ctls p c;
          case cur_target k of
            Some a \<Rightarrow> do_target (Some a) target_reset p
          | None \<Rightarrow>
              (case last_target k of
                 None \<Rightarrow> Some p
               | Some a \<Rightarrow>
                   do { (r, p) \<leftarrow> reattach e c a p;
                        do_target r target_reset (if r \<noteq> None then morse_off e p else p) }) }"

subsection \<open>General queries\<close>

definition handle_q_string_reply :: "'w env \<Rightarrow> u8 list \<Rightarrow> u8 list \<Rightarrow> 'w probe \<Rightarrow> 'w probe option" where
  "handle_q_string_reply e s param p =
     (let vals = sscanf param ([ScanX (Some 8)] @ lits '','' @ [ScanX (Some 8)])
      in if length vals \<noteq> 2 then putz e ''E01'' p
         else let addr = nat (vals ! 0);
                  len = min (nat (vals ! 1)) (length s - addr)
              in if addr < length s then put e (ch CHR ''m'' # take len (drop addr s)) (len + 1) p
                 else if addr = length s then putz e ''l'' p
                 else putz e ''E01'' p)"

definition starts_with :: "string \<Rightarrow> u8 list \<Rightarrow> bool" where
  "starts_with s buf = strncmp_eq (cstr buf) (str s) (length s)"

text \<open>The current target, after attaching the last one again if there is none.\<close>

definition cur_or_last :: "'w env \<Rightarrow> nat \<Rightarrow> 'w probe \<Rightarrow> (nat option \<times> 'w probe) option" where
  "cur_or_last e c p =
     do { k \<leftarrow> p_ctls p c;
          case cur_target k of
            Some a \<Rightarrow> Some (Some a, p)
          | None \<Rightarrow> (case last_target k of Some a \<Rightarrow> reattach e c a p | None \<Rightarrow> Some (None, p)) }"

definition q_Rcmd :: "'w env \<Rightarrow> 'w command_handler \<Rightarrow> nat \<Rightarrow> nat \<Rightarrow> 'w probe \<Rightarrow> 'w probe option" where
  "q_Rcmd e command_process c len p =
     (let datalen = (len - 6) div 2
      in case mm_alloc (e_heap e) (datalen + 1) (p_world p) of
           (None, w) \<Rightarrow> None
         | (Some q, w) \<Rightarrow>
             do { data \<leftarrow> unhexify (drop 6 (p_pbuf p)) datalen;
                  (r, p) \<leftarrow> command_process c (cstr data) (p\<lparr>p_world := w\<rparr>);
                  p \<leftarrow> (if r < 0 then putz e [] p
                        else if r = 0 then putz e ''OK'' p
                        else put_hex e (str ''Failed'' @ [10]) p);
                  Some (p\<lparr>p_world := mm_free (e_heap e) (Some q) (p_world p)\<rparr>) })"

definition q_memory_map :: "'w env \<Rightarrow> nat \<Rightarrow> 'w probe \<Rightarrow> 'w probe option" where
  "q_memory_map e c p =
     do { (r, p) \<leftarrow> cur_or_last e c p;
          case r of
            None \<Rightarrow> putz e ''E01'' p
          | Some a \<Rightarrow> do { t \<leftarrow> p_targets p a;
                           (fits, buf) \<leftarrow> target_mem_map t 1024;
                           handle_q_string_reply e buf (drop 23 (p_pbuf p)) p } }"

definition q_features :: "'w env \<Rightarrow> nat \<Rightarrow> 'w probe \<Rightarrow> 'w probe option" where
  "q_features e c p =
     do { (r, p) \<leftarrow> cur_or_last e c p;
          case r of
            None \<Rightarrow> putz e ''E01'' p
          | Some a \<Rightarrow> do { t \<leftarrow> p_targets p a; handle_q_string_reply e (target_tdesc t) (drop 31 (p_pbuf p)) p } }"

definition q_CRC :: "'w env \<Rightarrow> nat \<Rightarrow> u32 \<Rightarrow> u32 \<Rightarrow> 'w probe \<Rightarrow> 'w probe option" where
  "q_CRC e c addr alen p =
     do { k \<leftarrow> p_ctls p c;
          case cur_target k of
            None \<Rightarrow> putz e ''E01'' p
          | Some a \<Rightarrow>
              do { ((res, crc), p) \<leftarrow> on_target (Some a) (\<lambda>t. generic_crc32 (e_io e) (e_clk e) t addr (unat alen)) p;
                   if res \<noteq> 0 then putz e ''E03'' p
                   else do { crc \<leftarrow> crc; putf e (str ''C'' @ fmt_x crc) p } } }"

definition handle_q_packet :: "'w env \<Rightarrow> 'w command_handler \<Rightarrow> nat \<Rightarrow> nat \<Rightarrow> 'w probe \<Rightarrow> 'w probe option" where
  "handle_q_packet e command_process c len p =
     (let packet = p_pbuf p;
          vals = sscanf packet (lits ''qCRC:'' @ [ScanX None] @ lits '','' @ [ScanX None])
      in if starts_with ''qRcmd,'' packet then q_Rcmd e command_process c len p
         else if starts_with ''qSupported'' packet
         then putf e (str ''PacketSize='' @ fmt_X (word_of_nat BUF_SIZE) @ str '';qXfer:memory-map:read+;qXfer:features:read+'') p
         else if starts_with ''qXfer:memory-map:read::'' packet then q_memory_map e c p
         else if starts_with ''qXfer:features:read:target.xml:'' packet then q_features e c p
         else if length vals = 2 then q_CRC e c (word_of_int (vals ! 0)) (word_of_int (vals ! 1)) p
         else put e [] 0 p)"

subsection \<open>The \<open>v\<close> and \<open>z\<close> packets\<close>

text \<open>
  The command line of \<open>vRun\<close>: hex pairs are decoded into \<open>cmdline[83]\<close>, semicolons become
  blanks, blanks and backslashes are escaped. \<open>pos\<close> is \<open>pcmdline - cmdline\<close>; a write outside the
  array has no result. \<open>unhexify\<close> is called for two bytes, of which the second is overwritten.
\<close>

definition put_at :: "u8 list \<Rightarrow> nat \<Rightarrow> u8 \<Rightarrow> u8 list option" where
  "put_at b i x = (if i < length b then Some (b[i := x]) else None)"

function vrun_args :: "u8 list \<Rightarrow> nat \<Rightarrow> u8 list \<Rightarrow> u8 list option" where
  "vrun_args cmdline pos tok =
     (case tok of
        [] \<Rightarrow> None
      | c # rest \<Rightarrow>
          if c = 0 \<or> length (cstr cmdline) + 3 \<ge> length cmdline then Some cmdline
          else if c = ch CHR '';''
          then do { cmdline \<leftarrow> put_at cmdline pos (ch CHR '' '');
                    cmdline \<leftarrow> put_at cmdline (pos + 1) 0;
                    vrun_args cmdline (pos + 1) rest }
          else if isxdigit c \<and> rest \<noteq> [] \<and> isxdigit (hd rest)
          then do { bs \<leftarrow> unhexify tok 2;
                    cmdline \<leftarrow> put_at cmdline pos (bs ! 0);
                    cmdline \<leftarrow> put_at cmdline (pos + 1) (bs ! 1);
                    (cmdline, pos) \<leftarrow>
                      (if bs ! 0 = ch CHR '' '' \<or> bs ! 0 = 92
                       then do { cmdline \<leftarrow> put_at cmdline (pos + 1) (bs ! 0);
                                 cmdline \<leftarrow> put_at cmdline pos 92;
                                 Some (cmdline, pos + 1) }
                       else Some (cmdline, pos));
                    cmdline \<leftarrow> put_at cmdline (pos + 1) 0;
                    vrun_args cmdline (pos + 1) (tl rest) }
          else Some cmdline)"
  by pat_completeness auto
termination
  by (relation "measure (\<lambda>(cmdline, pos, tok). length tok)") auto

declare vrun_args.simps [simp del]

definition vrun_cmdline :: "u8 list \<Rightarrow> u8 list option" where
  "vrun_cmdline tok = vrun_args (replicate 83 0) 0 (if tok \<noteq> [] \<and> hd tok = ch CHR '';'' then tl tok else tok)"

definition v_Attach :: "'w env \<Rightarrow> nat \<Rightarrow> u32 \<Rightarrow> 'w probe \<Rightarrow> 'w probe option" where
  "v_Attach e c addr p =
     do { (r, p) \<leftarrow> target_attach_n (sint addr) (e_gdb_controller e) p;
          let p = set_cur c r p;
          if r \<noteq> None then putz e ''T05'' (morse_off e p) else putz e ''E01'' p }"

definition start_program :: "nat \<Rightarrow> u8 list \<Rightarrow> 'w probe \<Rightarrow> 'w probe option" where
  "start_program a cmdline p =
     do { t \<leftarrow> p_targets p a; do_target (Some a) target_reset (set_target a (target_set_cmdline (cstr cmdline) t) p) }"

definition v_Run :: "'w env \<Rightarrow> nat \<Rightarrow> 'w probe \<Rightarrow> 'w probe option" where
  "v_Run e c p =
     do { cmdline \<leftarrow> vrun_cmdline (drop 4 (p_pbuf p));
          k \<leftarrow> p_ctls p c;
          case cur_target k of
            Some a \<Rightarrow> do { p \<leftarrow> start_program a cmdline p; putz e ''T05'' p }
          | None \<Rightarrow>
              (case last_target k of
                 None \<Rightarrow> putz e ''E01'' p
               | Some a \<Rightarrow>
                   do { (r, p) \<leftarrow> reattach e c a p;
                        case r of
                          None \<Rightarrow> putz e ''E01'' p
                        | Some a \<Rightarrow> do { p \<leftarrow> start_program a cmdline p; putz e ''T05'' (morse_off e p) } }) }"

definition set_flash_mode :: "nat \<Rightarrow> u8 \<Rightarrow> 'w probe \<Rightarrow> 'w probe" where
  "set_flash_mode c m p = set_ctl c (\<lambda>k. k\<lparr>flash_mode := m\<rparr>) p"

definition v_FlashErase :: "'w env \<Rightarrow> nat \<Rightarrow> u32 \<Rightarrow> u32 \<Rightarrow> 'w probe \<Rightarrow> 'w probe option" where
  "v_FlashErase e c addr len p =
     do { k \<leftarrow> p_ctls p c;
          case cur_target k of
            None \<Rightarrow> putz e ''EFF'' p
          | Some a \<Rightarrow>
              do { p \<leftarrow> (if flash_mode k = 0
                         then do { p \<leftarrow> do_target (Some a) target_reset p; Some (set_flash_mode c 1 p) } else Some p);
                   (r, p) \<leftarrow> on_target (Some a) (\<lambda>t. target_flash_erase t addr len) p;
                   if r = 0 then putz e ''OK'' p else putz e ''EFF'' (set_flash_mode c 0 p) } }"

definition v_FlashWrite :: "'w env \<Rightarrow> nat \<Rightarrow> u32 \<Rightarrow> u8 list \<Rightarrow> 'w probe \<Rightarrow> 'w probe option" where
  "v_FlashWrite e c addr data p =
     do { k \<leftarrow> p_ctls p c;
          (r, p) \<leftarrow> (case cur_target k of
             None \<Rightarrow> Some (1, p)
           | Some a \<Rightarrow> upd_target (Some a) (\<lambda>t. target_flash_write (e_heap e) t addr data) p);
          if r = 0 then putz e ''OK'' p else putz e ''EFF'' (set_flash_mode c 0 p) }"

text \<open>\<open>vFlashDone\<close> uses the current target without looking whether there is one.\<close>

definition v_FlashDone :: "'w env \<Rightarrow> nat \<Rightarrow> 'w probe \<Rightarrow> 'w probe option" where
  "v_FlashDone e c p =
     do { k \<leftarrow> p_ctls p c;
          (r, p) \<leftarrow> upd_target (cur_target k) (target_flash_done (e_heap e)) p;
          p \<leftarrow> putz e (if r \<noteq> 0 then ''EFF'' else ''OK'') p;
          Some (set_flash_mode c 0 p) }"

definition handle_v_packet :: "'w env \<Rightarrow> nat \<Rightarrow> nat \<Rightarrow> 'w probe \<Rightarrow> 'w probe option" where
  "handle_v_packet e c plen p =
     (let packet = p_pbuf p;
          attach = sscanf packet (lits ''vAttach;'' @ [ScanX (Some 8)]);
          erase = sscanf packet (lits ''vFlashErase:'' @ [ScanX (Some 8)] @ lits '','' @ [ScanX (Some 8)]);
          wr = sscanf packet (lits ''vFlashWrite:'' @ [ScanX (Some 8)] @ lits '':'' @ [ScanN])
      in if attach \<noteq> [] then v_Attach e c (word_of_int (attach ! 0)) p
         else if starts_with ''vRun'' packet then v_Run e c p
         else if length erase = 2 then v_FlashErase e c (word_of_int (erase ! 0)) (word_of_int (erase ! 1)) p
         else if wr \<noteq> []
         then do { s \<leftarrow> pbuf_from (scanned e wr 1) p;
                   let len = unat (word_of_int (int plen - scanned e wr 1) :: u32);
                   if len \<le> length s then v_FlashWrite e c (word_of_int (wr ! 0)) (take len s) p else None }
         else if cstr packet = str ''vFlashDone'' then v_FlashDone e c p
         else put e [] 0 p)"

definition handle_z_packet :: "'w env \<Rightarrow> nat \<Rightarrow> 'w probe \<Rightarrow> 'w probe option" where
  "handle_z_packet e a p =
     (let packet = p_pbuf p;
          set = (packet ! 0 = ch CHR ''Z'');
          type = int (unat (packet ! 1)) - 48;
          vals = sscanf (drop 2 packet) (lits '','' @ [ScanX None] @ lits '','' @ [ScanD]);
          addr = scanned_u32 e vals 0;
          len = scanned_u32 e vals 1
      in do { (ret, p) \<leftarrow> upd_target (Some a)
                (\<lambda>t. if set then target_breakwatch_set (e_heap e) (e_sizeof_bw e) t type addr len
                     else target_breakwatch_clear (e_heap e) t type addr len) p;
              if ret < 0 then putz e ''E01'' p else if ret > 0 then putz e [] p else putz e ''OK'' p })"

subsection \<open>The main loop\<close>

text \<open>\<open>hostio_reply\<close> (\<open>gdb_hostio.c\<close>): the reply to a semihosting request. The return value and the
  error number are left uninitialised when the reply does not have them.\<close>

definition hostio_reply :: "'w env \<Rightarrow> nat \<Rightarrow> 'w probe \<Rightarrow> int \<times> 'w probe" where
  "hostio_reply e c p =
     (let neg = (p_pbuf p ! 1 = MINUS);
          vals = sscanf (drop (if neg then 2 else 1) (p_pbuf p)) ([ScanX None] @ lits '','' @ [ScanX None] @ lits '','' @ [ScanC]);
          retcode = sint (scanned_u32 e vals 0);
          retcode = (if neg then sint (- word_of_int retcode :: u32) else retcode)
      in (retcode,
          set_ctl c (\<lambda>k. k\<lparr>interrupted := (length vals = 3 \<and> vals ! 2 = uint (ch CHR ''C'')),
                           errno_ := sint (scanned_u32 e vals 1)\<rparr>) p))"

datatype loop_result = Continue bool \<comment> \<open>with the flag \<open>single_step\<close>\<close> | Return int

definition cont :: "bool \<Rightarrow> 'w probe option \<Rightarrow> (loop_result \<times> 'w probe) option" where
  "cont single_step r = map_option (\<lambda>p. (Continue single_step, p)) r"

definition gdb_dispatch ::
  "'w env \<Rightarrow> 'w command_handler \<Rightarrow> nat \<Rightarrow> bool \<Rightarrow> nat \<Rightarrow> bool \<Rightarrow> 'w probe \<Rightarrow> (loop_result \<times> 'w probe) option" where
  "gdb_dispatch e command_process c in_syscall sz single_step p =
     (let x = p_pbuf p ! 0 in
      if x = ch CHR ''g'' then cont single_step (packet_g e c p)
      else if x = ch CHR ''m'' then cont single_step (packet_m e c p)
      else if x = ch CHR ''G'' then cont single_step (packet_G e c p)
      else if x = ch CHR ''M'' then cont single_step (packet_M e c sz p)
      else if x = ch CHR ''s'' then map_option (\<lambda>(s, p). (Continue s, p)) (packet_resume e c True p)
      else if x = ch CHR ''c'' then map_option (\<lambda>(s, p). (Continue s, p)) (packet_resume e c single_step p)
      else if x = ch CHR ''?'' then cont single_step (packet_halt_reason e c p)
      else if x = ch CHR ''p'' then cont single_step (packet_p e c p)
      else if x = ch CHR ''P'' then cont single_step (packet_P e c p)
      else if x = ch CHR ''F'' then
        (if in_syscall then (case hostio_reply e c p of (r, p) \<Rightarrow> Some (Return r, p))
         else cont single_step (putz e [] p))
      else if x = ch CHR ''!'' then cont single_step (putz e ''OK'' p)
      else if x = 4 \<or> x = ch CHR ''D'' then cont single_step (packet_D e c p)
      else if x = ch CHR ''k'' then cont single_step (packet_k e c p)
      else if x = ch CHR ''r'' \<or> x = ch CHR ''R'' then cont single_step (packet_R e c p)
      else if x = ch CHR ''X'' then cont single_step (packet_X e c sz p)
      else if x = ch CHR ''q'' then cont single_step (handle_q_packet e command_process c sz p)
      else if x = ch CHR ''v'' then cont single_step (handle_v_packet e c sz p)
      else if x = ch CHR ''Z'' \<or> x = ch CHR ''z'' then cont single_step (with_target e c p (\<lambda>a. handle_z_packet e a p))
      else cont single_step (putz e [] p))"

definition receive_packet :: "'w env \<Rightarrow> nat \<Rightarrow> 'w probe \<Rightarrow> (nat \<times> 'w probe) option" where
  "receive_packet e c p =
     do { ((sz, buf), w) \<leftarrow> gdb_getpacket (e_io e) (e_remote e) BUF_SIZE (p_pbuf p) (e_idle e c True (p_world p));
          Some (sz, p\<lparr>p_pbuf := buf, p_world := e_idle e c False w\<rparr>) }"

partial_function (option) gdb_loop_from ::
  "'w env \<Rightarrow> 'w command_handler \<Rightarrow> nat \<Rightarrow> bool \<Rightarrow> bool \<Rightarrow> 'w probe \<Rightarrow> (int \<times> 'w probe) option" where
  "gdb_loop_from e command_process c in_syscall single_step p =
     do { (sz, p) \<leftarrow> receive_packet e c p;
          (r, p) \<leftarrow> gdb_dispatch e command_process c in_syscall sz single_step p;
          case r of Continue s \<Rightarrow> gdb_loop_from e command_process c in_syscall s p | Return n \<Rightarrow> Some (n, p) }"

definition gdb_main_loop :: "'w env \<Rightarrow> 'w command_handler \<Rightarrow> nat \<Rightarrow> bool \<Rightarrow> 'w probe \<Rightarrow> (int \<times> 'w probe) option" where
  "gdb_main_loop e command_process c in_syscall p = gdb_loop_from e command_process c in_syscall False p"

text \<open>The loop of the other platforms, on the controller of \<open>gdb_main.c\<close> itself.\<close>

definition gdb_main :: "'w env \<Rightarrow> 'w command_handler \<Rightarrow> 'w probe \<Rightarrow> (int \<times> 'w probe) option" where
  "gdb_main e command_process p = gdb_main_loop e command_process (e_gdb_controller e) False p"

end
