(* ===== verification/Gdb_Session.thy ===== *)
theory Gdb_Session
  imports Gdb_Main Target_Access
begin

text \<open>
  Properties of the packet handlers of \<open>gdb_main.c\<close>: what the packets that GDB sends do, branch by
  branch, and what compositions of them give the host: memory written is memory read back, a document
  fetched in pieces is the document, the command line of \<open>vRun\<close> stays in its array unless it decodes
  to NUL characters, and where the two controllers get in each other's way.
\<close>

subsection \<open>Scanning the packets\<close>

lemma cstr_append: "0 \<notin> set s \<Longrightarrow> cstr (s @ b) = s @ cstr b"
  by (induction s) (auto simp: cstr_def)

text \<open>A request of two numbers, and what the scan of it stores; \<open>tail\<close> is what follows.\<close>

definition request :: "string \<Rightarrow> u32 \<Rightarrow> string \<Rightarrow> u32 \<Rightarrow> u8 list" where
  "request pre a sep l = str pre @ fmt_x a @ str sep @ fmt_x l"

definition plain :: "string \<Rightarrow> bool" where
  "plain s \<longleftrightarrow> 0 \<notin> set (str s)"

definition separator :: "string \<Rightarrow> bool" where
  "separator s \<longleftrightarrow> s \<noteq> [] \<and> ends_hex (str s) \<and> plain s"

lemma separator_ends: "separator s \<Longrightarrow> ends_hex (str s @ rest)"
  by (cases s) (simp_all add: separator_def)

lemma separators [simp]: "separator '',''" "separator '':''" "separator ''=''"
  by (simp_all add: separator_def plain_def isxdigit_def isdigit_def)

lemma request_no_NUL: "plain pre \<Longrightarrow> separator sep \<Longrightarrow> 0 \<notin> set (request pre a sep l)"
  using fmt_x_no_NUL by (auto simp: request_def plain_def separator_def)

lemma sscanf_request:
  assumes "plain pre" "separator sep" "ends_hex (cstr tail)" and "w = None \<or> w = Some 8"
  shows "sscanf (request pre a sep l @ tail) (lits pre @ [ScanX w] @ lits sep @ [ScanX w] @ fs) =
    uint a # uint l # sscanf_from (length (request pre a sep l)) (cstr tail) fs"
proof -
  have c: "cstr (request pre a sep l @ tail) = str pre @ fmt_x a @ str sep @ fmt_x l @ cstr tail"
    using request_no_NUL [OF assms(1,2), of a l] by (simp add: cstr_append) (simp add: request_def)
  have "ends_hex (str sep @ fmt_x l @ cstr tail)" using assms(2) by (rule separator_ends)
  from sscanf_from_hex [OF this assms(4)] sscanf_from_hex [OF assms(3,4)]
  show ?thesis unfolding sscanf_def c sscanf_from_lits
    by (simp only: sscanf_from_lits request_def length_append length_str add.assoc add_0 append_Cons append_Nil)
qed

lemma sscanf_addr_len:
  "plain pre \<Longrightarrow> w = None \<or> w = Some 8 \<Longrightarrow>
     sscanf (request pre a '','' l @ 0 # rest) (lits pre @ [ScanX w] @ lits '','' @ [ScanX w]) = [uint a, uint l]"
  using sscanf_request [of pre "'',''" "0 # rest" w a l "[]"] by simp

lemma sscanf_addr_len_data:
  assumes "plain pre"
  shows "sscanf (request pre a '','' l @ str '':'' @ data) (lits pre @ [ScanX None] @ lits '','' @ [ScanX None] @ lits '':'' @ [ScanN]) =
    [uint a, uint l, int (length (request pre a '','' l) + 1)]"
proof -
  have c: "cstr (str '':'' @ data) = str '':'' @ cstr data" by (simp add: cstr_append)
  have e: "ends_hex (cstr (str '':'' @ data))" unfolding c by (rule separator_ends) simp
  have "sscanf_from n (str '':'' @ cstr data) (lits '':'' @ [ScanN]) = [int (n + 1)]" for n
    by (simp only: sscanf_from_lits) simp
  then show ?thesis
    using sscanf_request [OF assms separators(1) e, of None a l "lits '':'' @ [ScanN]"] unfolding c by simp
qed

subsection \<open>Memory over packets\<close>

text \<open>The packet handlers talk to the host and to the indicators, not to the target's memory.\<close>

definition quiet_env :: "('w \<Rightarrow> 'v) \<Rightarrow> 'w env \<Rightarrow> bool" where
  "quiet_env content e \<longleftrightarrow>
     (\<forall>buf n w. n \<le> length buf \<longrightarrow> (\<exists>w'. gdb_putpacket (e_io e) buf n w = Some w' \<and> content w' = content w))"

lemma put_quiet:
  assumes "quiet_env content e" "n \<le> length buf"
  obtains w' where "put e buf n p = Some (p\<lparr>p_world := w'\<rparr>)" "content w' = content (p_world p)"
proof -
  from assms obtain w' where "gdb_putpacket (e_io e) buf n (p_world p) = Some w'" "content w' = content (p_world p)"
    unfolding quiet_env_def by blast
  then show thesis by (intro that [of w']) (simp_all add: put_def)
qed

lemma putz_quiet:
  assumes "quiet_env content e"
  obtains w' where "putz e s p = Some (p\<lparr>p_world := w'\<rparr>)" "content w' = content (p_world p)"
proof -
  from assms obtain w' where "gdb_putpacket (e_io e) (str s) (length (str s)) (p_world p) = Some w'" "content w' = content (p_world p)"
    unfolding quiet_env_def by blast
  then show thesis by (intro that [of w']) (simp_all add: putz_def gdb_putpacketz_def)
qed

definition has_target :: "nat \<Rightarrow> nat \<Rightarrow> 'w target_s \<Rightarrow> 'w probe \<Rightarrow> bool" where
  "has_target c a t p \<longleftrightarrow> (\<exists>k. p_ctls p c = Some k \<and> cur_target k = Some a) \<and> p_targets p a = Some t"

lemma with_target_has [simp]: "has_target c a t p \<Longrightarrow> with_target e c p f = f a"
  by (auto simp: has_target_def with_target_def)

lemma has_target_world [simp]: "has_target c a t (p\<lparr>p_world := w\<rparr>) = has_target c a t p"
  "has_target c a t (p\<lparr>p_pbuf := b\<rparr>) = has_target c a t p"
  by (simp_all add: has_target_def)

lemma on_target_has: "has_target c a t p \<Longrightarrow> on_target (Some a) f p = do { (x, w) \<leftarrow> f t (p_world p); Some (x, p\<lparr>p_world := w\<rparr>) }"
  by (auto simp: has_target_def on_target_def)

lemma scanned_u32_nth: "i < length vals \<Longrightarrow> vals ! i = uint v \<Longrightarrow> scanned_u32 e vals i = v"
  by (simp add: scanned_def)

lemma packet_m_cases:
  assumes buf: "p_pbuf p = request ''m'' addr '','' len @ 0 # rest" "length (p_pbuf p) = BUF_SIZE + 1"
    and t: "has_target c a t p" "target_mem_read t addr (unat len) (p_world p) = Some ((err, mem), w)" "length mem = unat len"
  shows "packet_m e c p =
    (if unat len > 512 then putz e ''E02'' p
     else if err then putz e ''E01'' (p\<lparr>p_world := w\<rparr>)
     else put e (hexify mem) (2 * unat len) (p\<lparr>p_world := w, p_pbuf := splice_at (p_pbuf p) 0 (hexify mem)\<rparr>))"
proof -
  have v: "sscanf (p_pbuf p) (lits ''m'' @ [ScanX None] @ lits '','' @ [ScanX None]) = [uint addr, uint len]"
    unfolding buf(1) by (rule sscanf_addr_len) (simp_all add: plain_def)
  have s: "scanned_u32 e [uint addr, uint len] 0 = addr" "scanned_u32 e [uint addr, uint len] 1 = len"
    by (simp_all add: scanned_def)
  have h: "put_hex e mem (p\<lparr>p_world := w\<rparr>) =
      put e (hexify mem) (2 * unat len) (p\<lparr>p_world := w, p_pbuf := splice_at (p_pbuf p) 0 (hexify mem)\<rparr>)"
    if "unat len \<le> 512"
    using that buf(2) t(3) by (simp add: put_hex_def BUF_SIZE_def)
  show ?thesis
    unfolding packet_m_def with_target_has [OF t(1)] Let_def v s on_target_has [OF t(1)] t(2)
    using h by (simp add: BUF_SIZE_def)
qed

text \<open>
  The memory-read packet, on every branch: without a target the answer is \<open>EFF\<close>, a length above
  512 is refused with \<open>E02\<close>, an error of the target is \<open>E01\<close>, and otherwise the answer is the bytes of
  the range in hexadecimal; the packet buffer always has room for them.
\<close>

theorem packet_m_replies:
  assumes buf: "p_pbuf p = request ''m'' addr '','' len @ 0 # rest" "length (p_pbuf p) = BUF_SIZE + 1"
    and t: "has_target c a t p" "target_mem_read t addr (unat len) (p_world p) = Some ((err, mem), w)" "length mem = unat len"
  shows "packet_m e c p =
    (if unat len > 512 then putz e ''E02'' p
     else if err then putz e ''E01'' (p\<lparr>p_world := w\<rparr>)
     else put e (hexify mem) (2 * unat len) (p\<lparr>p_world := w, p_pbuf := splice_at (p_pbuf p) 0 (hexify mem)\<rparr>))"
  by (rule packet_m_cases [OF assms])

text \<open>The same packets on a memory.\<close>

definition memory_target :: "('w \<Rightarrow> nat \<Rightarrow> u8) \<Rightarrow> 'w target_s \<Rightarrow> bool" where
  "memory_target content t \<longleftrightarrow> mem_device content t \<and> (\<forall>w. \<exists>w'. t_check_error t w = Some (False, w') \<and> content w' = content w)"

lemma memory_target_read:
  assumes "memory_target content t"
  obtains w' where "target_mem_read t a n w = Some ((False, mem_range (content w) (unat a) n), w')" "content w' = content w"
proof -
  from assms have "t_mem_read t a n w = Some (mem_range (content w) (unat a) n, w)"
    by (simp add: memory_target_def mem_device_def mem_range_def)
  moreover from assms obtain w' where "t_check_error t w = Some (False, w')" "content w' = content w"
    unfolding memory_target_def by blast
  ultimately show thesis by (intro that [of w']) (simp_all add: target_mem_read_def target_check_error_def)
qed

lemma memory_target_write:
  assumes "memory_target content t"
  obtains w' where "target_mem_write t a bs w = Some (False, w')" "content w' = overlay (content w) (unat a) bs"
proof -
  from assms obtain w1 where w1: "t_mem_write t a bs w = Some w1" "content w1 = overlay (content w) (unat a) bs"
    unfolding memory_target_def mem_device_def by blast
  from assms obtain w' where "t_check_error t w1 = Some (False, w')" "content w' = content w1"
    unfolding memory_target_def by blast
  with w1 show thesis by (intro that [of w']) (simp_all add: target_mem_write_def target_check_error_def)
qed

lemma mem_range_overlay: "mem_range (overlay m a bs) a (length bs) = bs"
  unfolding mem_range_def by (rule map_overlay_back) simp

lemma unat_u32_of_nat: "n < 2 ^ 32 \<Longrightarrow> unat (word_of_nat n :: u32) = n"
  by (simp add: unsigned_of_nat take_bit_eq_mod)

lemma packet_X_writes:
  assumes q: "quiet_env content e" and m: "memory_target content t" and t: "has_target c a t p"
    and buf: "p_pbuf p = (request ''X'' addr '','' len @ str '':'') @ data @ rest"
    and len: "unat len = length data" "length data \<le> 512"
    and sz: "sz = length (request ''X'' addr '','' len) + 1 + length data"
  obtains w where "packet_X e c sz p = Some (p\<lparr>p_world := w\<rparr>)"
    "content w = overlay (content (p_world p)) (unat addr) data"
proof -
  let ?n = "length (request ''X'' addr '','' len)"
  let ?vals = "[uint addr, uint len, int (?n + 1)]"
  have v: "sscanf (p_pbuf p) (lits ''X'' @ [ScanX None] @ lits '','' @ [ScanX None] @ lits '':'' @ [ScanN]) = ?vals"
    using sscanf_addr_len_data [of "''X''" addr len "data @ rest"] unfolding buf append_assoc by (simp add: plain_def)
  have s: "scanned_u32 e ?vals 0 = addr" "scanned_u32 e ?vals 1 = len" "scanned e ?vals 2 = int (?n + 1)"
    by (simp_all add: scanned_def)
  have "int sz - int (?n + 1) = int (length data)" by (simp add: sz)
  then have "(word_of_int (int sz - int (?n + 1)) :: u32) = word_of_nat (length data)" by simp
  then have room: "\<not> len > (word_of_int (int sz - int (?n + 1)) :: u32)"
    using len by (simp add: word_less_nat_alt unat_u32_of_nat)
  have n1: "?n + 1 = length (request ''X'' addr '','' len @ str '':'')" by simp
  have b: "pbuf_from (int (?n + 1)) p = Some (data @ rest)"
    unfolding pbuf_from_def buf nat_int n1 by (simp del: str_Cons)
  obtain w1 where w1: "target_mem_write t addr data (p_world p) = Some (False, w1)"
    "content w1 = overlay (content (p_world p)) (unat addr) data" by (rule memory_target_write [OF m])
  obtain w2 where w2: "putz e ''OK'' (p\<lparr>p_world := w1\<rparr>) = Some (p\<lparr>p_world := w1, p_world := w2\<rparr>)" "content w2 = content w1"
    using putz_quiet [OF q, of "''OK''" "p\<lparr>p_world := w1\<rparr>"] by auto
  have "packet_X e c sz p = Some (p\<lparr>p_world := w2\<rparr>)"
    unfolding packet_X_def with_target_has [OF t] Let_def v s on_target_has [OF t]
    using room b len w1(1) w2(1) by simp
  with w1(2) w2(2) show thesis by (intro that [of w2]) simp_all
qed

text \<open>
  Written memory is read memory: after the packet \<open>X\<close> with some data the packet \<open>m\<close> for the same
  range answers with exactly these data in hexadecimal, whatever bytes they are, if only the target
  behaves as a memory and nothing else writes to it in between.
\<close>

theorem write_then_read_packets:
  assumes "quiet_env content e" and "memory_target content t" and "has_target c a t p"
    and "p_pbuf p = (request ''X'' addr '','' len @ str '':'') @ data @ rest"
    and "unat len = length data" "length data \<le> 512"
    and "sz = length (request ''X'' addr '','' len) + 1 + length data"
  shows "\<exists>w1. packet_X e c sz p = Some (p\<lparr>p_world := w1\<rparr>) \<and>
    (\<forall>w2 rest'. content w2 = content w1 \<and> length (request ''m'' addr '','' len @ 0 # rest') = BUF_SIZE + 1 \<longrightarrow>
      (\<exists>p3. packet_m e c (p\<lparr>p_world := w2, p_pbuf := request ''m'' addr '','' len @ 0 # rest'\<rparr>) =
         put e (hexify data) (2 * length data) p3))"
proof -
  obtain w1 where w1: "packet_X e c sz p = Some (p\<lparr>p_world := w1\<rparr>)"
    "content w1 = overlay (content (p_world p)) (unat addr) data"
    by (rule packet_X_writes [OF assms])
  have "\<exists>p3. packet_m e c (p\<lparr>p_world := w2, p_pbuf := request ''m'' addr '','' len @ 0 # rest'\<rparr>) =
      put e (hexify data) (2 * length data) p3"
    if c: "content w2 = content w1" and l: "length (request ''m'' addr '','' len @ 0 # rest') = BUF_SIZE + 1" for w2 rest'
  proof -
    let ?p2 = "p\<lparr>p_world := w2, p_pbuf := request ''m'' addr '','' len @ 0 # rest'\<rparr>"
    obtain w3 where "target_mem_read t addr (unat len) w2 = Some ((False, mem_range (content w2) (unat addr) (unat len)), w3)"
      by (rule memory_target_read [OF assms(2)])
    then have r: "target_mem_read t addr (unat len) (p_world ?p2) = Some ((False, data), w3)"
      by (simp add: c w1(2) mem_range_overlay assms(5))
    have t2: "has_target c a t ?p2" using assms(3) by simp
    have b2: "p_pbuf ?p2 = request ''m'' addr '','' len @ 0 # rest'" "length (p_pbuf ?p2) = BUF_SIZE + 1" using l by simp_all
    have no: "\<not> 512 < length data" using assms(6) by simp
    show ?thesis
      unfolding packet_m_cases [OF b2 t2 r assms(5) [symmetric]] assms(5) if_not_P [OF no] if_False by blast
  qed
  with w1(1) show ?thesis by blast
qed

subsection \<open>Documents in pieces\<close>

definition q_reply :: "u8 list \<Rightarrow> nat \<Rightarrow> nat \<Rightarrow> u8 list" where
  "q_reply s addr len =
     (if addr < length s then ch CHR ''m'' # take len (drop addr s)
      else if addr = length s then str ''l'' else str ''E01'')"

text \<open>The host asks for \<open>len\<close> characters at a time, from where it stands, until the end is reported.\<close>

function q_fetch :: "u8 list \<Rightarrow> nat \<Rightarrow> nat \<Rightarrow> u8 list" where
  "q_fetch s addr len =
     (if addr < length s \<and> 0 < len
      then tl (q_reply s addr len) @ q_fetch s (addr + length (tl (q_reply s addr len))) len else [])"
  by pat_completeness auto
termination
  by (relation "measure (\<lambda>(s, addr, len). length s - addr)") (auto simp: q_reply_def)

declare q_fetch.simps [simp del]

lemma q_fetch_rest: "addr \<le> length s \<Longrightarrow> 0 < len \<Longrightarrow> q_fetch s addr len = drop addr s"
proof (induction s addr len rule: q_fetch.induct)
  case (1 s addr len)
  show ?case
  proof (cases "addr < length s")
    case True
    let ?n = "length (take len (drop addr s))"
    have "q_fetch s addr len = take len (drop addr s) @ q_fetch s (addr + ?n) len"
      using True 1(3) by (subst q_fetch.simps) (simp add: q_reply_def)
    also have "q_fetch s (addr + ?n) len = drop (addr + ?n) s"
      using 1(1) True 1(3) by (simp add: q_reply_def)
    also have "drop (addr + ?n) s = drop len (drop addr s)"
      by (cases "len \<le> length s - addr") (simp_all add: min_def add.commute)
    finally show ?thesis using append_take_drop_id [of len "drop addr s"] by simp
  next
    case False
    with 1(2) show ?thesis by (subst q_fetch.simps) simp
  qed
qed


subsection \<open>The command line of \<open>vRun\<close>\<close>

text \<open>No hex pair that is decoded stands for NUL.\<close>

fun NUL_free :: "u8 list \<Rightarrow> bool" where
  "NUL_free [] = True"
| "NUL_free [c] = True"
| "NUL_free (c # d # tok) =
     (if c = ch CHR '';'' then NUL_free (d # tok)
      else if isxdigit c \<and> isxdigit d then unhexify [c, d] 1 \<noteq> Some [0] \<and> NUL_free tok
      else True)"

definition cmdline_ok :: "u8 list \<Rightarrow> nat \<Rightarrow> bool" where
  "cmdline_ok b pos \<longleftrightarrow> length b = 83 \<and> pos \<le> 81 \<and> b ! pos = 0 \<and> (\<forall>i < pos. b ! i \<noteq> 0)"

lemma cstr_length_at:
  assumes "i < length b" "b ! i = 0" "\<forall>j < i. b ! j \<noteq> 0"
  shows "length (cstr b) = i"
proof -
  have b: "b = take i b @ 0 # drop (Suc i) b" using id_take_nth_drop [OF assms(1)] assms(2) by simp
  have "0 \<notin> set (take i b)" using assms by (auto simp: in_set_conv_nth)
  from cstr_append_NUL [OF this, of "drop (Suc i) b"] b assms(1) show ?thesis by simp
qed

lemma cmdline_ok_length: "cmdline_ok b pos \<Longrightarrow> length (cstr b) = pos"
  by (intro cstr_length_at) (auto simp: cmdline_ok_def)

lemma put_at_simps: "i < length b \<Longrightarrow> put_at b i x = Some (b[i := x])" "\<not> i < length b \<Longrightarrow> put_at b i x = None"
  by (simp_all add: put_at_def)

lemma cmdline_ok_put1:
  "cmdline_ok b pos \<Longrightarrow> pos \<le> 80 \<Longrightarrow> x \<noteq> 0 \<Longrightarrow> cmdline_ok ((b[pos := x])[pos + 1 := 0]) (pos + 1)"
  by (auto simp: cmdline_ok_def nth_list_update less_Suc_eq)

lemma cmdline_ok_put2:
  "cmdline_ok b pos \<Longrightarrow> pos \<le> 79 \<Longrightarrow> x \<noteq> 0 \<Longrightarrow> y \<noteq> 0 \<Longrightarrow>
     cmdline_ok (((b[pos := x])[pos + 1 := y])[pos + 2 := 0]) (pos + 2)"
  by (auto simp: cmdline_ok_def nth_list_update less_Suc_eq)

lemma unhexify_2:
  assumes "2 \<le> length rest"
  shows "\<exists>y. unhexify (c # d # rest) 2 = Some [hd (the (unhexify [c, d] 1)), y]"
proof -
  obtain x1 x2 r where "rest = x1 # x2 # r" using assms by (cases rest; cases "tl rest") auto
  then show ?thesis by (simp add: numeral_2_eq_2)
qed

lemma vrun_args_hex:
  assumes ok: "cmdline_ok b pos" and room: "pos \<le> 79" and c: "c \<noteq> 0" "c \<noteq> ch CHR '';''" "isxdigit c" "isxdigit d"
    and len: "2 \<le> length rest" and x0: "unhexify [c, d] 1 \<noteq> Some [0]"
  obtains b1 n1 where "vrun_args b pos (c # d # rest) = vrun_args b1 n1 rest" "cmdline_ok b1 n1"
proof -
  have lb: "length b = 83" using ok by (simp add: cmdline_ok_def)
  have l: "length (cstr b) = pos" by (rule cmdline_ok_length [OF ok])
  define x where "x = hd (the (unhexify [c, d] 1))"
  have "x \<noteq> 0" using x0 by (simp add: x_def)
  obtain y where u: "unhexify (c # d # rest) 2 = Some [x, y]" using unhexify_2 [OF len] x_def by blast
  show thesis
  proof (cases "x = ch CHR '' '' \<or> x = 92")
    case True
    let ?b1 = "((b[pos := 92])[pos + 1 := x])[pos + 2 := 0]"
    have e: "(((b[pos := x])[Suc pos := x])[pos := 92])[Suc (Suc pos) := 0] = ?b1"
      using room lb by (intro nth_equalityI) (simp_all add: nth_list_update)
    have "vrun_args b pos (c # d # rest) = vrun_args ?b1 (pos + 2) rest"
      using room lb c l True by (subst vrun_args.simps) (simp add: u put_at_simps e)
    moreover have "cmdline_ok ?b1 (pos + 2)" using room \<open>x \<noteq> 0\<close> by (intro cmdline_ok_put2 [OF ok]) simp_all
    ultimately show thesis by (rule that)
  next
    case False
    let ?b1 = "(b[pos := x])[pos + 1 := 0]"
    have "vrun_args b pos (c # d # rest) = vrun_args ?b1 (pos + 1) rest"
      using room lb c l False by (subst vrun_args.simps) (simp add: u put_at_simps)
    moreover have "cmdline_ok ?b1 (pos + 1)" using room \<open>x \<noteq> 0\<close> by (intro cmdline_ok_put1 [OF ok]) simp_all
    ultimately show thesis by (rule that)
  qed
qed

lemma vrun_args_safe:
  assumes "cmdline_ok b pos" "pad \<noteq> []" "0 \<notin> set t" "NUL_free (t @ 0 # pad)"
  shows "\<exists>b' n. vrun_args b pos (t @ 0 # pad) = Some b' \<and> cmdline_ok b' n"
  using assms
proof (induction "length t" arbitrary: b pos t rule: less_induct)
  case less
  note ok = less.prems(1) and l = cmdline_ok_length [OF less.prems(1)]
  have lb: "length b = 83" using ok by (simp add: cmdline_ok_def)
  show ?case
  proof (cases t)
    case Nil
    with ok show ?thesis by (subst vrun_args.simps) auto
  next
    case (Cons c t')
    then have c0: "c \<noteq> 0" using less.prems(3) by auto
    obtain d rest where dr: "t' @ 0 # pad = d # rest" by (cases t') auto
    consider "83 \<le> pos + 3" | "pos \<le> 79" "c = ch CHR '';''"
      | "pos \<le> 79" "c \<noteq> ch CHR '';''" "isxdigit c" "isxdigit d"
      | "pos \<le> 79" "c \<noteq> ch CHR '';''" "\<not> (isxdigit c \<and> isxdigit d)" by linarith
    then show ?thesis
    proof cases
      case 1
      then have "vrun_args b pos (t @ 0 # pad) = Some b" by (subst vrun_args.simps) (simp add: Cons l lb)
      with ok show ?thesis by blast
    next
      case 2
      let ?b = "(b[pos := ch CHR '' ''])[pos + 1 := 0]"
      have "vrun_args b pos (t @ 0 # pad) = vrun_args ?b (pos + 1) (t' @ 0 # pad)"
        using 2 lb by (subst vrun_args.simps) (simp add: Cons l put_at_simps)
      moreover have "cmdline_ok ?b (pos + 1)" using 2 by (intro cmdline_ok_put1 [OF ok]) simp_all
      moreover have "NUL_free (t' @ 0 # pad)" using less.prems(4) 2 by (simp add: Cons dr)
      ultimately show ?thesis using less.hyps [of t' ?b "pos + 1"] less.prems(2,3) Cons by simp
    next
      case 3
      then have "d \<noteq> 0" by (auto simp: isxdigit_def isdigit_def)
      then obtain t2 where t2: "t' = d # t2" "rest = t2 @ 0 # pad" using dr by (cases t') auto
      have len: "2 \<le> length rest" using t2 less.prems(2) by (cases pad) auto
      have nf: "unhexify [c, d] 1 \<noteq> Some [0]" "NUL_free rest" using less.prems(4) 3 by (simp_all add: Cons dr)
      obtain b1 n1 where s: "vrun_args b pos (c # d # rest) = vrun_args b1 n1 rest" "cmdline_ok b1 n1"
        by (rule vrun_args_hex [OF ok 3(1) c0 3(2-4) len nf(1)])
      have "\<exists>b' n. vrun_args b1 n1 (t2 @ 0 # pad) = Some b' \<and> cmdline_ok b' n"
        using s(2) less.prems(2,3) nf(2) t2 Cons by (intro less.hyps) auto
      then show ?thesis using s(1) t2 Cons by simp
    next
      case 4
      then have "vrun_args b pos (t @ 0 # pad) = Some b"
        using lb by (subst vrun_args.simps) (auto simp: Cons dr l)
      with ok show ?thesis by blast
    qed
  qed
qed

text \<open>
  C23. The command line of a \<open>vRun\<close> packet that decodes to no NUL stays inside its array of 83
  characters, for a packet of any length: at most 81 characters and a terminator, and the handler goes
  on with them.
\<close>

theorem vrun_cmdline_safe:
  assumes "0 \<notin> set t" and "pad \<noteq> []" and "NUL_free (if t \<noteq> [] \<and> hd t = ch CHR '';'' then tl t @ 0 # pad else t @ 0 # pad)"
  shows "\<exists>b. vrun_cmdline (t @ 0 # pad) = Some b \<and> length b = 83 \<and> length (cstr b) \<le> 81"
proof -
  let ?t = "if t \<noteq> [] \<and> hd t = ch CHR '';'' then tl t else t"
  have ok: "cmdline_ok (replicate 83 0) 0" by (simp add: cmdline_ok_def)
  have "0 \<notin> set ?t" using assms(1) by (auto dest: list.set_sel(2))
  moreover have "NUL_free (?t @ 0 # pad)" using assms(3) by (auto split: if_splits)
  ultimately obtain b n where b: "vrun_args (replicate 83 0) 0 (?t @ 0 # pad) = Some b" "cmdline_ok b n"
    using vrun_args_safe [OF ok assms(2)] by blast
  have "vrun_cmdline (t @ 0 # pad) = vrun_args (replicate 83 0) 0 (?t @ 0 # pad)"
    by (cases t) (simp_all add: vrun_cmdline_def)
  with b cmdline_ok_length [OF b(2)] show ?thesis by (auto simp: cmdline_ok_def)
qed

text \<open>With NUL characters the guard, which measures the text up to the first one, never ends the
  loop.\<close>

lemma vrun_args_NULs:
  "length b = 83 \<Longrightarrow> b ! 0 = 0 \<Longrightarrow> pos \<le> 82 \<Longrightarrow> 83 \<le> pos + n \<Longrightarrow>
     vrun_args b pos (concat (replicate n [ch CHR ''0'', ch CHR ''0'']) @ tail) = None"
proof (induction n arbitrary: b pos)
  case 0
  then show ?case by simp
next
  case (Suc n)
  let ?rest = "concat (replicate n [ch CHR ''0'', ch CHR ''0'']) @ tail"
  let ?z = "ch CHR ''0''"
  have l: "length (cstr b) = 0" using Suc.prems by (cases b) auto
  have z: "unhex_digit 48 = 0" by (simp add: unhex_digit_def)
  show ?case
  proof (cases "pos = 82 \<or> length ?rest < 2")
    case True
    then show ?thesis
    proof
      assume "pos = 82"
      with Suc.prems l show ?thesis
        by (subst vrun_args.simps)
          (auto simp: put_at_def bind_eq_None_conv isxdigit_def isdigit_def split: option.splits)
    next
      assume "length ?rest < 2"
      then have "unhexify (?z # ?z # ?rest) 2 = None"
        by (cases ?rest; cases "tl ?rest") (auto simp: numeral_2_eq_2)
      with Suc.prems l show ?thesis
        by (subst vrun_args.simps) (simp add: isxdigit_def isdigit_def)
    qed
  next
    case False
    then obtain y where u: "unhexify (?z # ?z # ?rest) 2 = Some [0, y]"
      using unhexify_2 [of ?rest ?z ?z] by (auto simp: z)
    have "vrun_args b pos (?z # ?z # ?rest) = vrun_args ((b[pos := 0])[pos + 1 := 0]) (pos + 1) ?rest"
      using Suc.prems l False u by (subst vrun_args.simps) (simp add: isxdigit_def isdigit_def put_at_simps)
    moreover have "((b[pos := 0])[pos + 1 := 0]) ! 0 = 0" using Suc.prems by (cases pos) simp_all
    ultimately show ?thesis using Suc False by simp
  qed
qed

text \<open>
  A defect: 83 times the pair \<open>00\<close> make the handler of \<open>vRun\<close> write beyond its array.
\<close>

theorem vrun_cmdline_overflow:
  assumes "83 \<le> n"
  shows "vrun_cmdline (ch CHR '';'' # concat (replicate n [ch CHR ''0'', ch CHR ''0'']) @ tail) = None"
  using vrun_args_NULs [of "replicate 83 0" 0 n tail] assms by (simp add: vrun_cmdline_def)

subsection \<open>Registers over packets\<close>

lemma do_target_has: "has_target c a t p \<Longrightarrow> do_target (Some a) f p = do { w \<leftarrow> f t (p_world p); Some (p\<lparr>p_world := w\<rparr>) }"
  by (auto simp: has_target_def do_target_def)

text \<open>
  Written registers are read registers: with a driver that accesses registers one at a time, the
  packet \<open>G\<close> with the register file in hexadecimal is answered \<open>OK\<close> and the next packet \<open>g\<close> with
  exactly these digits.
\<close>

theorem registers_over_packets:
  assumes "quiet_env rf e" and "reg_driver rf szs t" and "has_target c a t p" and "map length (rf (p_world p)) = szs"
    and "length data = t_regs_size t" and "p_pbuf p = ch CHR ''G'' # hexify_loop data @ rest" and "length (p_pbuf p) = BUF_SIZE + 1"
  shows "\<exists>w1. packet_G e c p = Some (p\<lparr>p_world := w1\<rparr>) \<and>
    (\<exists>p2. packet_g e c (p\<lparr>p_world := w1\<rparr>) = put e (hexify data) (2 * length data) p2)"
proof -
  have n: "t_regs_read t = None" "t_regs_write t = None" using assms(2) by (simp_all add: reg_driver_def)
  have read: "target_regs_read t w = Some (concat (rf w), w)" if "map length (rf w) = szs" for w
    using regs_read_loop [OF assms(2) that, of 0 "replicate (t_regs_size t) 0"] n by (simp add: target_regs_read_def)
  from regs_write_loop [OF assms(2,4) _ assms(5), of 0] obtain w1 where w1:
    "target_regs_write t data (p_world p) = Some w1" "map length (rf w1) = szs" "concat (rf w1) = data"
    using n by (auto simp: target_regs_write_def)
  obtain w2 where w2: "putz e ''OK'' (p\<lparr>p_world := w1\<rparr>) = Some (p\<lparr>p_world := w2\<rparr>)" "rf w2 = rf w1"
    using putz_quiet [OF assms(1), of "''OK''" "p\<lparr>p_world := w1\<rparr>"] by auto
  have t: "p_targets p a = Some t" using assms(3) by (simp add: has_target_def)
  have u: "unhexify (drop 1 (p_pbuf p)) (target_regs_size t) = Some data"
    unfolding assms(6) target_regs_size_def using unhexify_hexify_loop [of data rest] assms(5) by simp
  have "packet_G e c p = Some (p\<lparr>p_world := w2\<rparr>)"
    unfolding packet_G_def with_target_has [OF assms(3)] do_target_has [OF assms(3)] t using w1(1) w2(1) u by simp
  moreover have "\<exists>p2. packet_g e c (p\<lparr>p_world := w2\<rparr>) = put e (hexify data) (2 * length data) p2"
  proof -
    have t2: "has_target c a t (p\<lparr>p_world := w2\<rparr>)" using assms(3) by simp
    have "2 * length data \<le> BUF_SIZE"
      using assms(6,7) by simp
    then have "2 * length data + 1 \<le> length (p_pbuf p)" using assms(7) by simp
    then show ?thesis
      unfolding packet_g_def with_target_has [OF t2] on_target_has [OF t2] using read [of w2] w1(2,3) w2(2)
      by (auto simp: put_hex_def)
  qed
  ultimately show ?thesis by blast
qed

subsection \<open>Without a target\<close>

definition no_target :: "nat \<Rightarrow> 'w probe \<Rightarrow> bool" where
  "no_target c p \<longleftrightarrow> (\<exists>k. p_ctls p c = Some k \<and> cur_target k = None)"

lemma with_target_none: "no_target c p \<Longrightarrow> with_target e c p f = putz e ''EFF'' p"
  by (auto simp: no_target_def with_target_def)

text \<open>
  The error behaviour without a target: the register and memory packets and the breakpoint packets
  are answered \<open>EFF\<close>, \<open>?\<close> is answered \<open>W00\<close>, a resume \<open>X1D\<close>, and the loop goes on;
  but the single-step flag of an \<open>s\<close> stays set for the next \<open>c\<close>.
\<close>

theorem no_target_replies:
  assumes "no_target c p"
  shows "(p_pbuf p ! 0 \<in> set (str ''gmGMXpPzZ'') \<longrightarrow> gdb_dispatch e h c sys sz s p = cont s (putz e ''EFF'' p)) \<and>
    (p_pbuf p ! 0 = ch CHR ''?'' \<longrightarrow> gdb_dispatch e h c sys sz s p = cont s (putz e ''W00'' p)) \<and>
    (p_pbuf p ! 0 = ch CHR ''c'' \<longrightarrow> gdb_dispatch e h c sys sz s p = cont s (putz e ''X1D'' p)) \<and>
    (p_pbuf p ! 0 = ch CHR ''s'' \<longrightarrow> gdb_dispatch e h c sys sz s p = cont True (putz e ''X1D'' p))"
proof -
  obtain k where k: "p_ctls p c = Some k" "cur_target k = None" using assms by (auto simp: no_target_def)
  have w: "with_target e c p f = putz e ''EFF'' p" for f using assms by (rule with_target_none)
  have r: "packet_resume e c x p = map_option (\<lambda>p. (x, p)) (putz e ''X1D'' p)" for x
    using k by (cases "putz e ''X1D'' p") (simp_all add: packet_resume_def)
  have h: "packet_halt_reason e c p = putz e ''W00'' p" using k by (simp add: packet_halt_reason_def)
  show ?thesis
    by (auto simp: gdb_dispatch_def cont_def packet_g_def packet_m_def packet_G_def packet_M_def packet_X_def
        packet_p_def packet_P_def w r h option.map_comp comp_def)
qed

text \<open>
  Only a reply to a semihosting request ends the loop: whatever the packet does, the loop goes on,
  except for \<open>F\<close> inside a system call, whose decoded result it returns.
\<close>

theorem only_F_returns:
  assumes "gdb_dispatch e h c sys sz s p = Some (Return n, p')"
  shows "sys \<and> p_pbuf p ! 0 = ch CHR ''F'' \<and> hostio_reply e c p = (n, p')"
  using assms unfolding gdb_dispatch_def Let_def cont_def by (auto split: if_splits prod.splits)

subsection \<open>Two controllers\<close>

text \<open>
  The interpreter attaches on behalf of the controller of its own file. When the probe's targets are
  in the list of another controller, \<open>vAttach\<close> finds none: it answers \<open>E01\<close> and drops the current
  target.
\<close>

text \<open>
  A defect: \<open>vAttach\<close> fails on a controller other than the one of \<open>gdb_main.c\<close>, for every
  target number and whatever targets that controller has.
\<close>

theorem vAttach_other_controller:
  assumes "p_ctls p (e_gdb_controller e) = Some g" and "target_list g = []"
  shows "v_Attach e c n p = putz e ''E01'' (set_cur c None p)"
  using assms by (auto simp: v_Attach_def target_attach_n_def)

text \<open>
  A defect: a reattachment gives the target to the controller of \<open>gdb_main.c\<close>, so the release of
  the list that holds it no longer tells the controller whose current target it is: the pointer dangles,
  and the next packet that uses it has no result.
\<close>

theorem reattach_dangles:
  assumes "p_ctls p c = Some k" and "destroy_callback k" and "last_target k = Some a" and "target_list k = [a]"
    and "p_targets p a = Some t" and "t_tc t = Some c" and "e_gdb_controller e \<noteq> c"
    and "reattach e c a p = Some (Some a, p1)" and "target_list_free hp c p1 = Some p2"
  shows "\<exists>k2. p_ctls p2 c = Some k2 \<and> cur_target k2 = Some a \<and> p_targets p2 a = None \<and> packet_g e c p2 = None"
proof -
  let ?k = "(forget_target a k)\<lparr>cur_target := Some a\<rparr>" and ?g = "e_gdb_controller e"
  from assms(1,2,5-8) have 1: "p_ctls p1 c = Some ?k" "\<exists>t1. p_targets p1 a = Some t1 \<and> t_tc t1 = Some ?g"
    by (auto simp: reattach_def target_attach_def bind_eq_Some_conv gdb_target_destroy_callback_def set_cur_def
        Let_def split: if_splits)
  then obtain t1 where t1: "p_targets p1 a = Some t1" "t_tc t1 = Some ?g" by blast
  from assms(9) 1(1) t1 assms(4,7) have "p_ctls p2 c = Some (?k\<lparr>target_list := []\<rparr>)" "p_targets p2 a = None"
    by (auto simp: target_list_free_def tell_controller_def gdb_target_destroy_callback_def bind_eq_Some_conv
        split: if_splits)
  then show ?thesis by (auto simp: packet_g_def with_target_def on_target_def)
qed

subsection \<open>A session on a memory\<close>

definition demo_env :: "(nat \<Rightarrow> u8) env" where
  "demo_env = \<lparr>e_io = quiet_io, e_heap = ram_heap, e_clk = (\<lambda>w. (0, w)), e_remote = (\<lambda>i p w. Some (p, w)),
     e_morse = (\<lambda>m b w. w), e_idle = (\<lambda>c b w. w), e_gdb_controller = 1, e_sizeof_bw = 32, e_uninit = (\<lambda>i. 0)\<rparr>"

lemma quiet_io_put: "n \<le> length b \<Longrightarrow> gdb_putpacket quiet_io b n w = Some w"
proof -
  have d: "\<exists>s. gdb_put_data quiet_io cs csum w = Some (s, w)" for cs csum
    by (induction cs arbitrary: csum) (auto simp: quiet_io_def)
  have f: "gdb_put_frame quiet_io cs w = Some w" for cs
    using d [of cs 0] by (auto simp: gdb_put_frame_def quiet_io_def)
  have "gdb_put_tries quiet_io cs k w = Some w" for cs k
  proof (induction k)
    case 0
    show ?case unfolding gdb_put_tries.simps [of quiet_io cs 0] f by (simp add: quiet_io_def)
  next
    case (Suc k)
    show ?case unfolding gdb_put_tries.simps [of quiet_io cs "Suc k"] f using Suc by (simp add: quiet_io_def)
  qed
  then show "n \<le> length b \<Longrightarrow> gdb_putpacket quiet_io b n w = Some w" by (simp add: gdb_putpacket_def)
qed

lemma demo_env_quiet: "quiet_env f demo_env"
  by (simp add: quiet_env_def demo_env_def quiet_io_put)

lemma ram_target_memory: "memory_target (\<lambda>m. m) ram_target"
  by (simp add: memory_target_def mem_device_def ram_target_def)

definition demo_probe :: "(nat \<Rightarrow> u8) target_s \<Rightarrow> u8 list \<Rightarrow> (nat \<Rightarrow> u8) probe" where
  "demo_probe t text = \<lparr>p_targets = [100 \<mapsto> t\<lparr>t_tc := Some 0\<rparr>],
     p_ctls = [0 \<mapsto> gdb_main_init_target_controller\<lparr>target_list := [100], cur_target := Some 100\<rparr>,
               1 \<mapsto> gdb_main_init_target_controller],
     p_pbuf = text @ replicate (BUF_SIZE + 1 - length text) 0, p_world = (\<lambda>x. 0)\<rparr>"

lemma demo_probe_has: "has_target 0 100 (t\<lparr>t_tc := Some 0\<rparr>) (demo_probe t text)"
  by (simp add: has_target_def demo_probe_def)

lemma small_fmt_x: "fmt_x 2 = str ''2''" "fmt_x 0x10 = str ''10''"
  by (simp_all add: fmt_x_def hex_of_nat.simps hexdigit_def hexdigits_def)

lemma memory_target_tc: "memory_target f (t\<lparr>t_tc := x\<rparr>) \<longleftrightarrow> memory_target f t"
  by (simp add: memory_target_def mem_device_def)

theorem packet_m_replies_witness:
  "\<exists>p. packet_m demo_env 0 (demo_probe ram_target (str ''m10,2'')) = put demo_env (hexify [0, 0]) 4 p"
proof -
  let ?p = "demo_probe ram_target (str ''m10,2'')"
  have b: "p_pbuf ?p = request ''m'' 0x10 '','' 2 @ 0 # replicate (BUF_SIZE + 1 - 5 - 1) 0"
    using replicate_Suc [of 1019 "0 :: u8"]
    by (simp add: demo_probe_def request_def small_fmt_x BUF_SIZE_def del: replicate_Suc)
  have l: "length (p_pbuf ?p) = BUF_SIZE + 1" by (simp add: demo_probe_def BUF_SIZE_def)
  have r: "target_mem_read (ram_target\<lparr>t_tc := Some 0\<rparr>) 0x10 (unat (2 :: u32)) (p_world ?p) = Some ((False, [0, 0]), \<lambda>x. 0)"
    by (simp add: target_mem_read_def target_check_error_def ram_target_def demo_probe_def upt_rec)
  from packet_m_replies [OF b l demo_probe_has r, of demo_env] show ?thesis by auto
qed

theorem write_then_read_packets_witness:
  "\<exists>w1 p3. packet_X demo_env 0 8 (demo_probe ram_target (str ''X10,2:'' @ [0xAB, 0])) =
      Some ((demo_probe ram_target (str ''X10,2:'' @ [0xAB, 0]))\<lparr>p_world := w1\<rparr>) \<and>
    packet_m demo_env 0 ((demo_probe ram_target (str ''X10,2:'' @ [0xAB, 0]))\<lparr>p_world := w1,
        p_pbuf := str ''m10,2'' @ 0 # replicate 1019 0\<rparr>) = put demo_env (hexify [0xAB, 0]) 4 p3"
proof -
  let ?p = "demo_probe ram_target (str ''X10,2:'' @ [0xAB, 0])"
  have b: "p_pbuf ?p = (request ''X'' 0x10 '','' 2 @ str '':'') @ [0xAB, 0] @ replicate (BUF_SIZE + 1 - 8) 0"
    by (simp add: demo_probe_def request_def small_fmt_x)
  have m: "memory_target (\<lambda>m. m) (ram_target\<lparr>t_tc := Some 0\<rparr>)" by (simp add: memory_target_tc ram_target_memory)
  have n: "unat (2 :: u32) = length [0xAB, 0 :: u8]" "length [0xAB, 0 :: u8] \<le> 512"
    "8 = length (request ''X'' 0x10 '','' 2) + 1 + length [0xAB, 0 :: u8]" by (simp_all add: request_def small_fmt_x)
  have q: "request ''m'' 0x10 '','' 2 @ 0 # replicate 1019 0 = str ''m10,2'' @ 0 # replicate 1019 0"
    by (simp add: request_def small_fmt_x)
  have l: "length (request ''m'' 0x10 '','' 2 @ 0 # replicate 1019 0) = BUF_SIZE + 1"
    by (simp add: request_def small_fmt_x BUF_SIZE_def)
  from write_then_read_packets [OF demo_env_quiet m demo_probe_has b n] obtain w1 where
    "packet_X demo_env 0 8 ?p = Some (?p\<lparr>p_world := w1\<rparr>)"
    and "\<forall>w2 rest'. w2 = w1 \<and> length (request ''m'' 0x10 '','' 2 @ 0 # rest') = BUF_SIZE + 1 \<longrightarrow>
      (\<exists>p3. packet_m demo_env 0 (?p\<lparr>p_world := w2, p_pbuf := request ''m'' 0x10 '','' 2 @ 0 # rest'\<rparr>) =
         put demo_env (hexify [0xAB, 0]) (2 * length [0xAB, 0 :: u8]) p3)" by blast
  moreover from this(2) l obtain p3 where
    "packet_m demo_env 0 (?p\<lparr>p_world := w1, p_pbuf := request ''m'' 0x10 '','' 2 @ 0 # replicate 1019 0\<rparr>) =
         put demo_env (hexify [0xAB, 0]) (2 * length [0xAB, 0 :: u8]) p3" by blast
  ultimately show ?thesis unfolding q by (intro exI [of _ w1] exI [of _ p3] conjI) simp_all
qed


theorem vrun_cmdline_safe_witness:
  "\<exists>b. vrun_cmdline (str '';61;62'' @ [0, 0]) = Some b \<and> length (cstr b) \<le> 81"
  using vrun_cmdline_safe [of "str '';61;62''" "[0]"] by (auto simp: isxdigit_def isdigit_def unhex_digit_def)

theorem vrun_cmdline_overflow_witness:
  "vrun_cmdline (str '';'' @ concat (replicate 83 (str ''00'')) @ [0]) = None"
  using vrun_cmdline_overflow [of 83 "[0]"] by simp

theorem registers_over_packets_witness:
  "\<exists>w1 p2. packet_G demo_env 0 (demo_probe reg_target (ch CHR ''G'' # hexify_loop [1, 2, 3, 4, 5, 6])) =
      Some ((demo_probe reg_target (ch CHR ''G'' # hexify_loop [1, 2, 3, 4, 5, 6]))\<lparr>p_world := w1\<rparr>) \<and>
    packet_g demo_env 0 ((demo_probe reg_target (ch CHR ''G'' # hexify_loop [1, 2, 3, 4, 5, 6]))\<lparr>p_world := w1\<rparr>) =
      put demo_env (hexify [1, 2, 3, 4, 5, 6]) 12 p2"
proof -
  let ?t = "reg_target\<lparr>t_tc := Some 0\<rparr>" and ?p = "demo_probe reg_target (ch CHR ''G'' # hexify_loop [1, 2, 3, 4, 5, 6])"
  have d: "reg_driver reg_file [4, 2] ?t" using reg_target_driver by (simp add: reg_driver_def)
  have s: "map length (reg_file (p_world ?p)) = [4, 2]" by (simp add: reg_file_def)
  have n: "length [1, 2, 3, 4, 5, 6 :: u8] = t_regs_size ?t" by (simp add: reg_target_simps)
  have b: "p_pbuf ?p = ch CHR ''G'' # hexify_loop [1, 2, 3, 4, 5, 6] @ replicate (BUF_SIZE + 1 - 13) 0"
    "length (p_pbuf ?p) = BUF_SIZE + 1" by (simp_all add: demo_probe_def BUF_SIZE_def)
  from registers_over_packets [OF demo_env_quiet d demo_probe_has s n b] show ?thesis by auto
qed

theorem no_target_replies_witness:
  "gdb_dispatch demo_env (\<lambda>c s p. None) 1 False 1 False (demo_probe ram_target (str ''g'')) =
      cont False (putz demo_env ''EFF'' (demo_probe ram_target (str ''g'')))"
proof -
  have "no_target 1 (demo_probe ram_target (str ''g''))"
    by (simp add: no_target_def demo_probe_def gdb_main_init_target_controller_def)
  from no_target_replies [OF this] show ?thesis by (simp add: demo_probe_def)
qed

lemma scan_F5: "sscanf (str ''5,0,'' @ [0]) ([ScanX None] @ lits '','' @ [ScanX None] @ lits '','' @ [ScanC]) = [5, 0]"
proof -
  have f: "fmt_x 5 = str ''5''" "fmt_x 0 = str ''0''" by (simp_all add: fmt_x_def hex_of_nat.simps hexdigit_def hexdigits_def)
  have "sscanf (request [] 5 '','' 0 @ str '','' @ [0]) (lits [] @ [ScanX None] @ lits '','' @ [ScanX None] @ lits '','' @ [ScanC]) =
    uint (5 :: u32) # uint (0 :: u32) # sscanf_from (length (request [] 5 '','' 0)) (cstr (str '','' @ [0])) (lits '','' @ [ScanC])"
    by (rule sscanf_request) (simp_all add: plain_def cstr_append isxdigit_def isdigit_def)
  then show ?thesis by (simp add: request_def f lits_def cstr_def)
qed

theorem only_F_returns_witness:
  "\<exists>n p'. gdb_dispatch demo_env (\<lambda>c s p. None) 0 True 2 False (demo_probe ram_target (str ''F5'')) = Some (Return n, p') \<and>
     hostio_reply demo_env 0 (demo_probe ram_target (str ''F5'')) = (n, p')"
proof -
  obtain n p' where "gdb_dispatch demo_env (\<lambda>c s p. None) 0 True 2 False (demo_probe ram_target (str ''F5'')) = Some (Return n, p')"
    by (cases "hostio_reply demo_env 0 (demo_probe ram_target (str ''F5''))") (auto simp: gdb_dispatch_def demo_probe_def)
  with only_F_returns [OF this] show ?thesis by blast
qed

theorem vAttach_other_controller_witness:
  "v_Attach demo_env 0 1 (demo_probe ram_target []) = putz demo_env ''E01'' (set_cur 0 None (demo_probe ram_target []))"
  using vAttach_other_controller [of "demo_probe ram_target []" demo_env gdb_main_init_target_controller 0 1]
  by (simp add: demo_probe_def demo_env_def gdb_main_init_target_controller_def)

lemma ram_target_attach: "t_attach ram_target w = Some (True, w)" "t_priv ram_target = None"
  by (simp_all add: ram_target_def)

lemma free_target_blocks_no_priv: "t_priv t = None \<Longrightarrow> \<exists>w'. free_target_blocks hp a t w = Some w'"
  by (simp add: free_target_blocks_def)

theorem reattach_dangles_witness:
  "\<exists>p1 p2 k2. reattach demo_env 0 100 (drop_target 0 (demo_probe ram_target [])) = Some (Some 100, p1) \<and>
     target_list_free ram_heap 0 p1 = Some p2 \<and> p_ctls p2 0 = Some k2 \<and> cur_target k2 = Some 100 \<and> p_targets p2 100 = None"
proof -
  let ?p = "drop_target 0 (demo_probe ram_target [])"
  let ?k = "gdb_main_init_target_controller\<lparr>target_list := [100], cur_target := None, last_target := Some 100\<rparr>"
  have k: "p_ctls ?p 0 = Some ?k" by (simp add: drop_target_def demo_probe_def)
  have t: "p_targets ?p 100 = Some (ram_target\<lparr>t_tc := Some 0\<rparr>)" by (simp add: drop_target_def demo_probe_def)
  obtain p1 where p1: "reattach demo_env 0 100 ?p = Some (Some 100, p1)"
    and t1: "p_ctls p1 0 = Some (?k\<lparr>last_target := None, cur_target := Some 100\<rparr>)"
      "p_targets p1 100 = Some (ram_target\<lparr>t_tc := Some 1, t_attached := True\<rparr>)" "p_ctls p1 1 \<noteq> None"
    by (simp add: reattach_def target_attach_def t k ram_target_attach gdb_target_destroy_callback_def forget_target_def
        set_cur_def demo_env_def gdb_main_init_target_controller_def drop_target_def demo_probe_def)
  obtain p2 where p2: "target_list_free ram_heap 0 p1 = Some p2"
  proof -
    obtain k1 where k1: "p_ctls p1 1 = Some k1" using t1(3) by blast
    let ?q = "if destroy_callback k1 then gdb_target_destroy_callback 1 100 p1 else p1"
    have n: "t_priv (ram_target\<lparr>t_tc := Some 1, t_attached := True\<rparr>) = None" by (simp add: ram_target_attach)
    obtain w where "free_target_blocks ram_heap 100 (ram_target\<lparr>t_tc := Some 1, t_attached := True\<rparr>) (p_world ?q) = Some w"
      using free_target_blocks_no_priv [OF n, of ram_heap 100 "p_world ?q"] by blast
    then have "\<exists>p2. target_list_free ram_heap 0 p1 = Some p2"
      by (simp add: target_list_free_def t1 k1 tell_controller_def del: One_nat_def split del: if_split)
    then show thesis using that by blast
  qed
  from reattach_dangles [OF k _ _ _ t _ _ p1 p2] p1 p2 show ?thesis
    by (auto simp: gdb_main_init_target_controller_def demo_env_def)
qed

end
