(* ===== verification/Gdb_Hostio.thy ===== *)
theory Gdb_Hostio
  imports Gdb_Session
begin

text \<open>
  \<open>src/src/gdb_hostio.c\<close> and the end of \<open>target.c\<close>: the system calls of a semihosted program. A call
  is a packet to GDB and a run of the command interpreter that lasts until GDB replies. The C types
  \<open>int\<close>, \<open>long\<close> and \<open>size_t\<close> of the arguments are printed as 32-bit words, and are words here.
\<close>

subsection \<open>The requests\<close>

abbreviation COMMA :: "u8 list" where "COMMA \<equiv> str '',''"

definition hostio_call :: "'w env \<Rightarrow> 'w command_handler \<Rightarrow> nat \<Rightarrow> u8 list \<Rightarrow> 'w probe \<Rightarrow> (int \<times> 'w probe) option" where
  "hostio_call e h c msg p = do { p \<leftarrow> putf e msg p; gdb_main_loop e h c True p }"

definition hostio_open :: "'w env \<Rightarrow> 'w command_handler \<Rightarrow> nat \<Rightarrow> u32 \<Rightarrow> u32 \<Rightarrow> u32 \<Rightarrow> u32 \<Rightarrow> 'w probe \<Rightarrow> (int \<times> 'w probe) option" where
  "hostio_open e h c path path_len flags mode p =
     hostio_call e h c (str ''Fopen,'' @ fmt_08X path @ str ''/'' @ fmt_X path_len @ COMMA @ fmt_08X flags @ COMMA @ fmt_08X mode) p"

definition hostio_close :: "'w env \<Rightarrow> 'w command_handler \<Rightarrow> nat \<Rightarrow> u32 \<Rightarrow> 'w probe \<Rightarrow> (int \<times> 'w probe) option" where
  "hostio_close e h c fd p = hostio_call e h c (str ''Fclose,'' @ fmt_08X fd) p"

definition hostio_read :: "'w env \<Rightarrow> 'w command_handler \<Rightarrow> nat \<Rightarrow> u32 \<Rightarrow> u32 \<Rightarrow> u32 \<Rightarrow> 'w probe \<Rightarrow> (int \<times> 'w probe) option" where
  "hostio_read e h c fd buf count p =
     hostio_call e h c (str ''Fread,'' @ fmt_08X fd @ COMMA @ fmt_08X buf @ COMMA @ fmt_08X count) p"

definition hostio_write :: "'w env \<Rightarrow> 'w command_handler \<Rightarrow> nat \<Rightarrow> u32 \<Rightarrow> u32 \<Rightarrow> u32 \<Rightarrow> 'w probe \<Rightarrow> (int \<times> 'w probe) option" where
  "hostio_write e h c fd buf count p =
     hostio_call e h c (str ''Fwrite,'' @ fmt_08X fd @ COMMA @ fmt_08X buf @ COMMA @ fmt_08X count) p"

definition hostio_lseek :: "'w env \<Rightarrow> 'w command_handler \<Rightarrow> nat \<Rightarrow> u32 \<Rightarrow> u32 \<Rightarrow> u32 \<Rightarrow> 'w probe \<Rightarrow> (int \<times> 'w probe) option" where
  "hostio_lseek e h c fd offset flag p =
     hostio_call e h c (str ''Flseek,'' @ fmt_08X fd @ COMMA @ fmt_08X offset @ COMMA @ fmt_08X flag) p"

definition hostio_rename :: "'w env \<Rightarrow> 'w command_handler \<Rightarrow> nat \<Rightarrow> u32 \<Rightarrow> u32 \<Rightarrow> u32 \<Rightarrow> u32 \<Rightarrow> 'w probe \<Rightarrow> (int \<times> 'w probe) option" where
  "hostio_rename e h c oldpath old_len newpath new_len p =
     hostio_call e h c (str ''Frename,'' @ fmt_08X oldpath @ str ''/'' @ fmt_X old_len @ COMMA @
       fmt_08X newpath @ str ''/'' @ fmt_X new_len) p"

definition hostio_unlink :: "'w env \<Rightarrow> 'w command_handler \<Rightarrow> nat \<Rightarrow> u32 \<Rightarrow> u32 \<Rightarrow> 'w probe \<Rightarrow> (int \<times> 'w probe) option" where
  "hostio_unlink e h c path path_len p = hostio_call e h c (str ''Funlink,'' @ fmt_08X path @ str ''/'' @ fmt_X path_len) p"

definition hostio_stat :: "'w env \<Rightarrow> 'w command_handler \<Rightarrow> nat \<Rightarrow> u32 \<Rightarrow> u32 \<Rightarrow> u32 \<Rightarrow> 'w probe \<Rightarrow> (int \<times> 'w probe) option" where
  "hostio_stat e h c path path_len buf p =
     hostio_call e h c (str ''Fstat,'' @ fmt_08X path @ str ''/'' @ fmt_X path_len @ COMMA @ fmt_08X buf) p"

definition hostio_fstat :: "'w env \<Rightarrow> 'w command_handler \<Rightarrow> nat \<Rightarrow> u32 \<Rightarrow> u32 \<Rightarrow> 'w probe \<Rightarrow> (int \<times> 'w probe) option" where
  "hostio_fstat e h c fd buf p = hostio_call e h c (str ''Ffstat,'' @ fmt_X fd @ COMMA @ fmt_08X buf) p"

definition hostio_gettimeofday :: "'w env \<Rightarrow> 'w command_handler \<Rightarrow> nat \<Rightarrow> u32 \<Rightarrow> u32 \<Rightarrow> 'w probe \<Rightarrow> (int \<times> 'w probe) option" where
  "hostio_gettimeofday e h c tv tz p =
     hostio_call e h c (str ''Fgettimeofday,'' @ fmt_08X tv @ COMMA @ fmt_08X tz) p"

definition hostio_isatty :: "'w env \<Rightarrow> 'w command_handler \<Rightarrow> nat \<Rightarrow> u32 \<Rightarrow> 'w probe \<Rightarrow> (int \<times> 'w probe) option" where
  "hostio_isatty e h c fd p = hostio_call e h c (str ''Fisatty,'' @ fmt_08X fd) p"

definition hostio_system :: "'w env \<Rightarrow> 'w command_handler \<Rightarrow> nat \<Rightarrow> u32 \<Rightarrow> u32 \<Rightarrow> 'w probe \<Rightarrow> (int \<times> 'w probe) option" where
  "hostio_system e h c command cmd_len p = hostio_call e h c (str ''Fsystem,'' @ fmt_08X command @ str ''/'' @ fmt_X cmd_len) p"

subsection \<open>The calls of a target\<close>

definition TARGET_ENOENT :: int where "TARGET_ENOENT = 2"
definition TARGET_EBADF :: int where "TARGET_EBADF = 9"
definition TARGET_ENFILE :: int where "TARGET_ENFILE = 23"

text \<open>\<open>t->tc\<close> and what it points to; a null pointer has no result.\<close>

definition tc_of :: "nat option \<Rightarrow> 'w probe \<Rightarrow> (nat \<times> controller) option" where
  "tc_of tp p = do { a \<leftarrow> tp; t \<leftarrow> p_targets p a; c \<leftarrow> t_tc t; k \<leftarrow> p_ctls p c; Some (c, k) }"

definition tc_default :: "nat \<Rightarrow> int option \<Rightarrow> int \<Rightarrow> 'w probe \<Rightarrow> (int \<times> 'w probe) option" where
  "tc_default c err r p =
     Some (r, case err of None \<Rightarrow> p | Some n \<Rightarrow> set_ctl c (\<lambda>k. k\<lparr>errno_ := n\<rparr>) p)"

definition tc_open :: "'w env \<Rightarrow> 'w command_handler \<Rightarrow> nat option \<Rightarrow> u32 \<Rightarrow> u32 \<Rightarrow> u32 \<Rightarrow> u32 \<Rightarrow> 'w probe \<Rightarrow> (int \<times> 'w probe) option" where
  "tc_open e h tp path plen flags mode p = do { (c, k) \<leftarrow> tc_of tp p;
     if \<not> host_callback k HOST_OPEN then tc_default c (Some TARGET_ENFILE) (-1) p else hostio_open e h c path plen flags mode p }"

definition tc_close :: "'w env \<Rightarrow> 'w command_handler \<Rightarrow> nat option \<Rightarrow> u32 \<Rightarrow> 'w probe \<Rightarrow> (int \<times> 'w probe) option" where
  "tc_close e h tp fd p = do { (c, k) \<leftarrow> tc_of tp p;
     if \<not> host_callback k HOST_CLOSE then tc_default c (Some TARGET_EBADF) (-1) p else hostio_close e h c fd p }"

definition tc_read :: "'w env \<Rightarrow> 'w command_handler \<Rightarrow> nat option \<Rightarrow> u32 \<Rightarrow> u32 \<Rightarrow> u32 \<Rightarrow> 'w probe \<Rightarrow> (int \<times> 'w probe) option" where
  "tc_read e h tp fd buf count p = do { (c, k) \<leftarrow> tc_of tp p;
     if \<not> host_callback k HOST_READ then tc_default c None 0 p else hostio_read e h c fd buf count p }"

definition tc_write :: "'w env \<Rightarrow> 'w command_handler \<Rightarrow> nat option \<Rightarrow> u32 \<Rightarrow> u32 \<Rightarrow> u32 \<Rightarrow> 'w probe \<Rightarrow> (int \<times> 'w probe) option" where
  "tc_write e h tp fd buf count p = do { (c, k) \<leftarrow> tc_of tp p;
     if \<not> host_callback k HOST_WRITE then tc_default c None 0 p else hostio_write e h c fd buf count p }"

definition tc_lseek :: "'w env \<Rightarrow> 'w command_handler \<Rightarrow> nat option \<Rightarrow> u32 \<Rightarrow> u32 \<Rightarrow> u32 \<Rightarrow> 'w probe \<Rightarrow> (int \<times> 'w probe) option" where
  "tc_lseek e h tp fd offset flag p = do { (c, k) \<leftarrow> tc_of tp p;
     if \<not> host_callback k HOST_LSEEK then tc_default c None 0 p else hostio_lseek e h c fd offset flag p }"

definition tc_rename :: "'w env \<Rightarrow> 'w command_handler \<Rightarrow> nat option \<Rightarrow> u32 \<Rightarrow> u32 \<Rightarrow> u32 \<Rightarrow> u32 \<Rightarrow> 'w probe \<Rightarrow> (int \<times> 'w probe) option" where
  "tc_rename e h tp oldpath oldlen newpath newlen p = do { (c, k) \<leftarrow> tc_of tp p;
     if \<not> host_callback k HOST_RENAME then tc_default c (Some TARGET_ENOENT) (-1) p
     else hostio_rename e h c oldpath oldlen newpath newlen p }"

definition tc_unlink :: "'w env \<Rightarrow> 'w command_handler \<Rightarrow> nat option \<Rightarrow> u32 \<Rightarrow> u32 \<Rightarrow> 'w probe \<Rightarrow> (int \<times> 'w probe) option" where
  "tc_unlink e h tp path plen p = do { (c, k) \<leftarrow> tc_of tp p;
     if \<not> host_callback k HOST_UNLINK then tc_default c (Some TARGET_ENOENT) (-1) p else hostio_unlink e h c path plen p }"

definition tc_stat :: "'w env \<Rightarrow> 'w command_handler \<Rightarrow> nat option \<Rightarrow> u32 \<Rightarrow> u32 \<Rightarrow> u32 \<Rightarrow> 'w probe \<Rightarrow> (int \<times> 'w probe) option" where
  "tc_stat e h tp path plen buf p = do { (c, k) \<leftarrow> tc_of tp p;
     if \<not> host_callback k HOST_STAT then tc_default c (Some TARGET_ENOENT) (-1) p else hostio_stat e h c path plen buf p }"

definition tc_fstat :: "'w env \<Rightarrow> 'w command_handler \<Rightarrow> nat option \<Rightarrow> u32 \<Rightarrow> u32 \<Rightarrow> 'w probe \<Rightarrow> (int \<times> 'w probe) option" where
  "tc_fstat e h tp fd buf p = do { (c, k) \<leftarrow> tc_of tp p;
     if \<not> host_callback k HOST_FSTAT then tc_default c None 0 p else hostio_fstat e h c fd buf p }"

definition tc_gettimeofday :: "'w env \<Rightarrow> 'w command_handler \<Rightarrow> nat option \<Rightarrow> u32 \<Rightarrow> u32 \<Rightarrow> 'w probe \<Rightarrow> (int \<times> 'w probe) option" where
  "tc_gettimeofday e h tp tv tz p = do { (c, k) \<leftarrow> tc_of tp p;
     if \<not> host_callback k HOST_GETTIMEOFDAY then tc_default c None (-1) p else hostio_gettimeofday e h c tv tz p }"

definition tc_isatty :: "'w env \<Rightarrow> 'w command_handler \<Rightarrow> nat option \<Rightarrow> u32 \<Rightarrow> 'w probe \<Rightarrow> (int \<times> 'w probe) option" where
  "tc_isatty e h tp fd p = do { (c, k) \<leftarrow> tc_of tp p;
     if \<not> host_callback k HOST_ISATTY then tc_default c None 1 p else hostio_isatty e h c fd p }"

definition tc_system :: "'w env \<Rightarrow> 'w command_handler \<Rightarrow> nat option \<Rightarrow> u32 \<Rightarrow> u32 \<Rightarrow> 'w probe \<Rightarrow> (int \<times> 'w probe) option" where
  "tc_system e h tp command cmdlen p = do { (c, k) \<leftarrow> tc_of tp p;
     if \<not> host_callback k HOST_SYSTEM then tc_default c None (-1) p else hostio_system e h c command cmdlen p }"

subsection \<open>What a call returns\<close>

text \<open>The reply of GDB: a sign, the result, the error number, and \<open>C\<close> when the user interrupted it.\<close>

definition host_reply :: "bool \<Rightarrow> u32 \<Rightarrow> u32 \<Rightarrow> u8 list" where
  "host_reply neg r err = (if neg then [MINUS] else []) @ request [] r '','' err @ str '',C''"

lemma scan_host_reply:
  "sscanf (request [] r '','' err @ str '',C'' @ 0 # rest) ([ScanX None] @ lits '','' @ [ScanX None] @ lits '','' @ [ScanC]) =
     [uint r, uint err, uint (ch CHR ''C'')]"
proof -
  have c: "cstr (str '',C'' @ 0 # rest) = str '','' @ [ch CHR ''C'']" by (simp add: cstr_def)
  have e: "ends_hex (cstr (str '',C'' @ 0 # rest))" unfolding c by (rule separator_ends) simp
  have s: "sscanf_from n (str '','' @ [ch CHR ''C'']) (lits '','' @ [ScanC]) = [uint (ch CHR ''C'')]" for n
    by (simp only: sscanf_from_lits) simp
  show ?thesis
    using sscanf_request [of "[]" "'',''" _ None r err "lits '','' @ [ScanC]", OF _ _ e] unfolding c s
    by (simp add: plain_def lits_def)
qed

lemma fmt_x_hd: "\<exists>d ds. fmt_x v = d # ds \<and> d \<noteq> MINUS"
  using hex_of_nat_props [of "unat v"] hexdigit_props by (cases "hex_of_nat (unat v)") (auto simp: fmt_x_def)

lemma hostio_reply_decodes:
  assumes "p_pbuf p = ch CHR ''F'' # host_reply neg r err @ 0 # rest"
  shows "hostio_reply e c p = (sint (if neg then - r else r),
    set_ctl c (\<lambda>k. k\<lparr>interrupted := True, errno_ := sint err\<rparr>) p)"
proof -
  obtain d ds where d: "fmt_x r = d # ds" "d \<noteq> MINUS" using fmt_x_hd by blast
  have n: "(p_pbuf p ! 1 = MINUS) = neg"
    unfolding assms host_reply_def request_def d(1) using d(2) by simp
  have dr: "drop (if neg then 2 else 1) (p_pbuf p) = request [] r '','' err @ str '',C'' @ 0 # rest"
    unfolding assms host_reply_def by simp
  have s: "scanned_u32 e [uint r, uint err, uint (ch CHR ''C'')] 0 = r"
    "scanned_u32 e [uint r, uint err, uint (ch CHR ''C'')] 1 = err" by (simp_all add: scanned_def)
  show ?thesis
    unfolding hostio_reply_def Let_def n dr scan_host_reply s by simp
qed

text \<open>
  A system call of the target returns what the host answers: when the request has been sent and the
  next packet is the reply, the call ends with its number, negative if it has the sign, and the
  controller holds the error number and the request to stop.
\<close>

theorem host_call_returns:
  assumes "putf e msg p = Some p1" and "receive_packet e c p1 = Some (sz, p2)"
    and "p_pbuf p2 = ch CHR ''F'' # host_reply neg r err @ 0 # rest"
  shows "hostio_call e h c msg p = Some (sint (if neg then - r else r),
    set_ctl c (\<lambda>k. k\<lparr>interrupted := True, errno_ := sint err\<rparr>) p2)"
  using assms hostio_reply_decodes [OF assms(3), of e c]
  by (simp add: hostio_call_def gdb_main_loop_def gdb_loop_from.simps gdb_dispatch_def)

text \<open>
  Without a host interface every system call of the target returns at once with the value that
  stands for it, no packet is sent, and only the error number of the controller changes, in the calls
  that have one.
\<close>

theorem host_calls_without_host:
  assumes "tc_of tp p = Some (c, k)" and "\<forall>x. \<not> host_callback k x"
  shows "tc_open e h tp a1 a2 a3 a4 p = Some (-1, set_ctl c (\<lambda>k. k\<lparr>errno_ := 23\<rparr>) p) \<and>
    tc_close e h tp a1 p = Some (-1, set_ctl c (\<lambda>k. k\<lparr>errno_ := 9\<rparr>) p) \<and>
    tc_rename e h tp a1 a2 a3 a4 p = Some (-1, set_ctl c (\<lambda>k. k\<lparr>errno_ := 2\<rparr>) p) \<and>
    tc_unlink e h tp a1 a2 p = Some (-1, set_ctl c (\<lambda>k. k\<lparr>errno_ := 2\<rparr>) p) \<and>
    tc_stat e h tp a1 a2 a3 p = Some (-1, set_ctl c (\<lambda>k. k\<lparr>errno_ := 2\<rparr>) p) \<and>
    tc_read e h tp a1 a2 a3 p = Some (0, p) \<and> tc_write e h tp a1 a2 a3 p = Some (0, p) \<and>
    tc_lseek e h tp a1 a2 a3 p = Some (0, p) \<and> tc_fstat e h tp a1 a2 p = Some (0, p) \<and>
    tc_gettimeofday e h tp a1 a2 p = Some (-1, p) \<and> tc_isatty e h tp a1 p = Some (1, p) \<and>
    tc_system e h tp a1 a2 p = Some (-1, p)"
  using assms
  by (simp add: tc_open_def tc_close_def tc_rename_def tc_unlink_def tc_stat_def tc_read_def tc_write_def tc_lseek_def
      tc_fstat_def tc_gettimeofday_def tc_isatty_def tc_system_def tc_default_def TARGET_ENFILE_def TARGET_EBADF_def
      TARGET_ENOENT_def)

definition no_host :: "(nat \<Rightarrow> u8) probe" where
  "no_host = (demo_probe ram_target [])\<lparr>p_ctls := [0 \<mapsto> gdb_main_init_target_controller\<lparr>host_callback := \<lambda>x. False\<rparr>]\<rparr>"

theorem host_calls_without_host_witness:
  "tc_isatty demo_env (\<lambda>c s p. None) (Some 100) 1 no_host = Some (1, no_host)"
proof -
  let ?k = "gdb_main_init_target_controller\<lparr>host_callback := \<lambda>x. False\<rparr>"
  have t: "tc_of (Some 100) no_host = Some (0, ?k)" by (simp add: tc_of_def no_host_def demo_probe_def)
  have n: "\<forall>x. \<not> host_callback ?k x" by simp
  from host_calls_without_host [OF t n] show ?thesis by blast
qed

text \<open>A line whose characters come from a list.\<close>

definition list_io :: "u8 list gdb_io" where
  "list_io = \<lparr>io_getchar = (\<lambda>w. case w of [] \<Rightarrow> None | c # cs \<Rightarrow> Some (c, cs)),
     io_getchar_to = (\<lambda>n w. case w of [] \<Rightarrow> Some (0xFF, []) | c # cs \<Rightarrow> Some (c, cs)), io_putchar = (\<lambda>c f w. Some w)\<rparr>"

definition list_env :: "u8 list env" where
  "list_env = \<lparr>e_io = list_io, e_heap = \<lparr>mm_alloc = (\<lambda>n w. (Some 7, w)), mm_free = (\<lambda>q w. w)\<rparr>, e_clk = (\<lambda>w. (0, w)),
     e_remote = (\<lambda>i p w. None), e_morse = (\<lambda>m b w. w), e_idle = (\<lambda>c b w. w), e_gdb_controller = 0, e_sizeof_bw = 32,
     e_uninit = (\<lambda>i. 0)\<rparr>"

definition list_probe :: "u8 list \<Rightarrow> u8 list probe" where
  "list_probe input = \<lparr>p_targets = (\<lambda>a. None), p_ctls = [0 \<mapsto> gdb_main_init_target_controller],
     p_pbuf = replicate 1025 0, p_world = input\<rparr>"

lemma list_put_frame: "gdb_put_frame list_io cs w = Some w"
proof -
  have "\<exists>s. gdb_put_data list_io cs csum w = Some (s, w)" for csum
    by (induction cs arbitrary: csum) (auto simp: list_io_def)
  from this [of 0] show ?thesis by (auto simp: gdb_put_frame_def list_io_def)
qed

lemma list_putf:
  "txt \<noteq> [] \<Longrightarrow> length txt < 4096 \<Longrightarrow> putf list_env txt (list_probe (PLUS # w)) = Some (list_probe w)"
proof -
  have t: "gdb_put_tries list_io cs 3 (PLUS # w) = Some w" for cs
    unfolding gdb_put_tries.simps [of list_io cs 3] list_put_frame by (simp add: list_io_def)
  show "txt \<noteq> [] \<Longrightarrow> length txt < 4096 \<Longrightarrow> putf list_env txt (list_probe (PLUS # w)) = Some (list_probe w)"
    by (simp add: putf_def gdb_putpacket_f_def list_env_def list_probe_def gdb_putpacket_def t [simplified] vsnprintf_buf_def)
qed

lemma list_capture:
  "i + length cs < sz \<Longrightarrow> sz \<le> length packet \<Longrightarrow> \<forall>c \<in> set cs. c \<noteq> HASH \<and> c \<noteq> DOLLAR \<and> c \<noteq> ESC \<Longrightarrow>
     gdb_capture list_io sz packet i csum (cs @ HASH # rest) =
       Some ((splice_at packet i cs, i + length cs, csum + sum_list cs), rest)"
proof (induction cs arbitrary: i packet csum)
  case Nil
  then show ?case by (subst gdb_capture.simps) (simp add: list_io_def splice_at_def)
next
  case (Cons c cs)
  have g: "io_getchar list_io (c # w) = Some (c, w)" for w by (simp add: list_io_def)
  have s: "splice_at (packet[i := c]) (Suc i) cs = splice_at packet i (c # cs)"
    using Cons.prems by (simp add: splice_at_def take_Suc_conv_app_nth)
  from Cons show ?case
    by (subst gdb_capture.simps) (simp add: g s add.assoc)
qed

lemma list_getpacket:
  assumes "length cs < sz" "sz < length pkt" "\<forall>c \<in> set cs. c \<noteq> HASH \<and> c \<noteq> DOLLAR \<and> c \<noteq> ESC"
    and "strtol_hex [a, b, 0] = uint (sum_list cs)"
  shows "gdb_getpacket list_io rp sz pkt (DOLLAR # cs @ HASH # [a, b]) = Some ((length cs, cs @ 0 # drop (Suc (length cs)) pkt), [])"
proof -
  have st: "gdb_wait_start list_io rp sz pkt (DOLLAR # w) = Some ((False, pkt[0 := DOLLAR]), w)" for w
    using assms(2) by (subst gdb_wait_start.simps) (auto simp: list_io_def REMOTE_SOM_def)
  have cap: "gdb_capture list_io sz (pkt[0 := DOLLAR]) 0 0 (cs @ HASH # [a, b]) =
      Some ((splice_at (pkt[0 := DOLLAR]) 0 cs, length cs, sum_list cs), [a, b])"
    using list_capture [of 0 cs sz "pkt[0 := DOLLAR]" 0 "[a, b]"] assms(1-3) by simp
  have g: "io_getchar list_io (c # w) = Some (c, w)" "io_putchar list_io c f w' = Some w'" for c w f w'
    by (simp_all add: list_io_def)
  have n: "length cs < length pkt" using assms(1,2) by simp
  have e: "(splice_at (pkt[0 := DOLLAR]) 0 cs)[length cs := 0] = cs @ 0 # drop (Suc (length cs)) pkt"
  proof -
    obtain x xs where x: "drop (length cs) (pkt[0 := DOLLAR]) = x # xs" using n by (cases "drop (length cs) (pkt[0 := DOLLAR])") auto
    then have "xs = drop (Suc (length cs)) (pkt[0 := DOLLAR])" by (metis drop_Suc list.sel(3) tl_drop)
    also have "\<dots> = drop (Suc (length cs)) pkt" by (cases pkt) simp_all
    finally show ?thesis using x by (simp add: splice_at_def)
  qed
  have l: "length (splice_at (pkt[0 := DOLLAR]) 0 cs) = length pkt" using n by (simp add: splice_at_def)
  show ?thesis
    unfolding gdb_getpacket.simps [of list_io rp sz pkt] st using cap assms(4) n
    by (simp add: g e [simplified] l)
qed

theorem host_call_returns_witness:
  "\<exists>p'. hostio_isatty list_env (\<lambda>c s p. None) 0 1 (list_probe (PLUS # str ''$F5,4,C#4a'')) = Some (5, p') \<and>
     p_ctls p' 0 = Some (gdb_main_init_target_controller\<lparr>interrupted := True, errno_ := 4\<rparr>)"
proof -
  let ?msg = "str ''Fisatty,'' @ fmt_08X 1" and ?p1 = "list_probe (str ''$F5,4,C#4a'')"
  have 1: "putf list_env ?msg (list_probe (PLUS # str ''$F5,4,C#4a'')) = Some ?p1"
    by (rule list_putf) (simp_all add: fmt_08X_def fmt_08x_def fmt_x_def hex_of_nat.simps)
  have cs: "strtol_hex [ch CHR ''4'', ch CHR ''a'', 0] = uint (sum_list (str ''F5,4,C''))"
    by (simp add: strtol_hex_def isspace_def isxdigit_def isdigit_def digits_val_def xdigit_val_def cstr_def)
  define b where "b = p_pbuf ?p1"
  have lb: "length b = 1025" by (simp add: b_def list_probe_def)
  have "gdb_getpacket list_io rp 1024 b (DOLLAR # str ''F5,4,C'' @ HASH # [ch CHR ''4'', ch CHR ''a'']) =
      Some ((length (str ''F5,4,C''), str ''F5,4,C'' @ 0 # drop (Suc (length (str ''F5,4,C''))) b), [])" for rp
    by (rule list_getpacket [OF _ _ _ cs]) (simp_all add: lb)
  then have "gdb_getpacket list_io rp 1024 b (str ''$F5,4,C#4a'') = Some ((6, str ''F5,4,C'' @ 0 # drop 7 b), [])" for rp
    by (simp add: eval_nat_numeral)
  then have 2: "receive_packet list_env 0 ?p1 = Some (6, ?p1\<lparr>p_world := [], p_pbuf := str ''F5,4,C'' @ 0 # drop 7 b\<rparr>)"
    unfolding receive_packet_def b_def by (simp add: list_env_def list_probe_def BUF_SIZE_def)
  have r: "fmt_x 5 = str ''5''" "fmt_x 4 = str ''4''"
    by (simp_all add: fmt_x_def hex_of_nat.simps hexdigit_def hexdigits_def)
  have 3: "p_pbuf (?p1\<lparr>p_world := [], p_pbuf := str ''F5,4,C'' @ 0 # drop 7 b\<rparr>) =
      ch CHR ''F'' # host_reply False 5 4 @ 0 # drop 7 b"
    by (simp add: host_reply_def request_def r)
  show ?thesis
    unfolding hostio_isatty_def host_call_returns [OF 1 2 3] by (simp add: list_probe_def)
qed

end
