(* ===== verification/Exception.thy ===== *)
theory Exception
  imports Prelude
begin

text \<open>
  \<open>src/src/exception.c\<close>, \<open>exception.h\<close> and \<open>timing.c\<close>. Exceptions unwind the C stack with
  \<open>longjmp\<close>; here a computation returns the exception or a value, with the state, and \<open>andthen\<close>
  passes an exception on. \<open>None\<close> is a run that does not return (or aborts). The chain of frames that
  \<open>raise_exception\<close> walks is modelled too, and shown to pick the handler that \<open>try_catch\<close> picks.
\<close>

subsection \<open>Raising and catching\<close>

datatype exn = Exn (exn_type: u32) (exn_msg: string)

type_synonym ('s, 'a) outcome = "((exn + 'a) \<times> 's) option"

abbreviation (input) EXCEPTION_ERROR :: u32 where "EXCEPTION_ERROR \<equiv> 1"
abbreviation (input) EXCEPTION_TIMEOUT :: u32 where "EXCEPTION_TIMEOUT \<equiv> 2"
abbreviation (input) EXCEPTION_ALL :: u32 where "EXCEPTION_ALL \<equiv> -1"

definition return :: "'a \<Rightarrow> 's \<Rightarrow> ('s, 'a) outcome" where
  "return x s = Some (Inr x, s)"

definition raise_exn :: "u32 \<Rightarrow> string \<Rightarrow> 's \<Rightarrow> ('s, 'a) outcome" where
  "raise_exn type msg s = Some (Inl (Exn type msg), s)"

definition andthen :: "('s, 'a) outcome \<Rightarrow> ('a \<Rightarrow> 's \<Rightarrow> ('s, 'b) outcome) \<Rightarrow> ('s, 'b) outcome" where
  "andthen m f =
     (case m of None \<Rightarrow> None | Some (Inl e, s) \<Rightarrow> Some (Inl e, s) | Some (Inr x, s) \<Rightarrow> f x s)"

text \<open>\<open>TRY_CATCH (e, mask) body\<close>: afterwards \<open>e.type\<close> tells whether an exception was caught; one
  that the mask does not select goes on to the outer frame. The state is what it was when the exception
  was raised: \<open>longjmp\<close> does not restore memory.\<close>

definition try_catch :: "u32 \<Rightarrow> ('s, 'a) outcome \<Rightarrow> (exn option \<Rightarrow> 'a option \<Rightarrow> 's \<Rightarrow> ('s, 'b) outcome) \<Rightarrow> ('s, 'b) outcome" where
  "try_catch msk m k =
     (case m of
        None \<Rightarrow> None
      | Some (Inr x, s) \<Rightarrow> k None (Some x) s
      | Some (Inl e, s) \<Rightarrow> if msk AND exn_type e \<noteq> 0 then k (Some e) None s else Some (Inl e, s))"

lemma andthen_simps [simp]:
  "andthen None f = None" "andthen (Some (Inl e, s)) f = Some (Inl e, s)" "andthen (Some (Inr x, s)) f = f x s"
  "andthen (return x s) f = f x s" "andthen (raise_exn ty msg s) f = raise_exn ty msg s"
  by (simp_all add: andthen_def return_def raise_exn_def)

lemma andthen_assoc: "andthen (andthen m f) g = andthen m (\<lambda>x s. andthen (f x s) g)"
  by (simp add: andthen_def split: option.splits sum.splits prod.splits)

lemma andthen_Some_iff:
  "andthen m f = Some r \<longleftrightarrow> (\<exists>e s. m = Some (Inl e, s) \<and> r = (Inl e, s)) \<or> (\<exists>x s. m = Some (Inr x, s) \<and> f x s = Some r)"
  by (auto simp: andthen_def split: option.splits sum.splits prod.splits)

lemma andthen_cong [fundef_cong]:
  "m = m' \<Longrightarrow> (\<And>x s. m' = Some (Inr x, s) \<Longrightarrow> f x s = f' x s) \<Longrightarrow> andthen m f = andthen m' f'"
  by (auto simp: andthen_def split: option.splits sum.splits prod.splits)

lemma andthen_mono [partial_function_mono]:
  fixes B :: "('i \<Rightarrow> 'j option) \<Rightarrow> ('s, 'a) outcome"
  assumes mf: "mono_option B" and mg: "\<And>y s. mono_option (\<lambda>f. C y s f)"
  shows "mono_option (\<lambda>f. andthen (B f) (\<lambda>y s. C y s f))"
proof (rule monotoneI)
  fix f g :: "'i \<Rightarrow> 'j option"
  assume fg: "fun_ord option_ord f g"
  have 1: "option_ord (B f) (B g)" using mf fg by (rule monotoneD [of _ _ _ f g])
  have 2: "option_ord (C y s f) (C y s g)" for y s using mg [of y s] fg by (rule monotoneD [of _ _ _ f g])
  show "option_ord (andthen (B f) (\<lambda>y s. C y s f)) (andthen (B g) (\<lambda>y s. C y s g))"
  proof (cases "B f")
    case None
    then show ?thesis by (simp add: flat_ord_def)
  next
    case (Some r)
    then have g: "B g = Some r" using 1 by (simp add: flat_ord_def)
    obtain y s where "r = (y, s)" by (cases r)
    then show ?thesis using Some g 2 by (cases y) (simp_all add: flat_ord_def)
  qed
qed

subsection \<open>The chain of frames\<close>

text \<open>A frame of the chain is its mask. \<open>raise_exception\<close> takes the innermost frame that the type is
  in, makes its outer frame the innermost one and jumps there: the frames it leaves are returned. No
  frame: \<open>abort\<close>.\<close>

fun raise_exception :: "u32 \<Rightarrow> u32 list \<Rightarrow> (u32 \<times> u32 list) option" where
  "raise_exception type [] = None"
| "raise_exception type (msk # outer) =
     (if msk AND type \<noteq> 0 then Some (msk, outer) else raise_exception type outer)"

text \<open>Nested \<open>TRY_CATCH\<close> blocks around a computation, the masks from the innermost block outwards. The
  result is the number of the block that caught the exception, if one was raised and caught.\<close>

fun nested_catch :: "nat \<Rightarrow> u32 list \<Rightarrow> ('s, nat option) outcome \<Rightarrow> ('s, nat option) outcome" where
  "nested_catch i [] m = m"
| "nested_catch i (msk # outer) m =
     nested_catch (i + 1) outer
       (try_catch msk m (\<lambda>e x. return (case x of Some r \<Rightarrow> r | None \<Rightarrow> Some i)))"

lemma nested_catch_value: "nested_catch i frames (return x s) = return x s"
  by (induction frames arbitrary: i) (simp_all add: try_catch_def return_def)

lemma raise_exception_outer: "raise_exception type frames = Some (m, outer) \<Longrightarrow> length outer < length frames"
  by (induction frames) (auto split: if_splits)

lemma nested_catch_raise:
  fixes s :: 's
  shows "nested_catch i frames (raise_exn type msg s) =
     (case raise_exception type frames of
        None \<Rightarrow> raise_exn type msg s
      | Some (m, outer) \<Rightarrow> return (Some (i + (length frames - length outer - 1))) s)"
proof (induction frames arbitrary: i)
  case Nil
  then show ?case by simp
next
  case (Cons m frames)
  show ?case
  proof (cases "m AND type = 0")
    case True
    then have "try_catch m (raise_exn type msg s) k = raise_exn type msg s" for k :: "exn option \<Rightarrow> nat option option \<Rightarrow> 's \<Rightarrow> ('s, nat option) outcome"
      by (simp add: try_catch_def raise_exn_def)
    moreover have "Suc (i + length frames - Suc n) = i + length frames - n" if "n < length frames" for n
      using that by simp
    ultimately show ?thesis
      using True Cons [of "Suc i"] raise_exception_outer [of type frames]
      by (cases "raise_exception type frames") auto
  next
    case False
    then have "try_catch m (raise_exn type msg s) k = k (Some (Exn type msg)) None s" for k :: "exn option \<Rightarrow> nat option option \<Rightarrow> 's \<Rightarrow> ('s, nat option) outcome"
      by (simp add: try_catch_def raise_exn_def)
    with False show ?thesis by (simp add: nested_catch_value)
  qed
qed


subsection \<open>Timeouts\<close>

text \<open>The clock in milliseconds is an argument; a reading may change the state. A timeout is its end.\<close>

type_synonym 's clock = "'s \<Rightarrow> u32 \<times> 's"

definition platform_timeout_set :: "'s clock \<Rightarrow> u32 \<Rightarrow> 's \<Rightarrow> u32 \<times> 's" where
  "platform_timeout_set clk ms s = (let (now, s) = clk s in (now + ms, s))"

definition platform_timeout_is_expired :: "'s clock \<Rightarrow> u32 \<Rightarrow> 's \<Rightarrow> bool \<times> 's" where
  "platform_timeout_is_expired clk t s = (let (now, s) = clk s in (now > t, s))"

end
