(* ===== verification/Word_Bits.thy ===== *)
theory Word_Bits
  imports Prelude
begin

text \<open>Bits and fields of machine words, for the register-level components.\<close>

unbundle bit_operations_syntax

lemma word_and_exp: "(x :: 'a :: len word) AND 2 ^ n = (if bit x n then 2 ^ n else 0)"
  by (rule bit_word_eqI) (auto simp: bit_simps)

lemmas and_flag = word_and_exp [of _ 0, simplified] word_and_exp [of _ 1, simplified] word_and_exp [of _ 2, simplified]
  word_and_exp [of _ 3, simplified] word_and_exp [of _ 4, simplified] word_and_exp [of _ 5, simplified]
  word_and_exp [of _ 6, simplified] word_and_exp [of _ 7, simplified] word_and_exp [of _ 8, simplified]

lemma mask_split: "(x :: 'a :: len word) AND NOT (mask n) OR x AND mask n = x"
  by (rule bit_word_eqI) (auto simp: bit_simps)

lemma same_upper_bits:
  fixes x y :: "'a :: len word"
  shows "(x XOR y) AND NOT (mask n) = 0 \<longleftrightarrow> x AND NOT (mask n) = y AND NOT (mask n)"
  by (auto simp: bit_eq_iff bit_simps)

text \<open>Incrementing within the low bits, when the upper bits do not change.\<close>

lemma low_increment:
  fixes x d :: "'a :: len word"
  assumes "(x + d) AND NOT (mask n) = x AND NOT (mask n)"
  shows "(x AND NOT (mask n)) OR ((x + d) AND mask n) = x + d"
  using mask_split [of "x + d" n] assms by simp

lemma word_le_1: "(x :: 'a :: len word) \<le> 1 \<Longrightarrow> x = 0 \<or> x = 1"
  by (cases "x = 0") (auto simp: word_le_nat_alt word_unat_eq_iff le_Suc_eq dest!: iffD1 [OF word_unat_eq_iff])

end
