(* ===== verification/Tap_Generic.thy ===== *)
theory Tap_Generic
  imports Word_Bits
begin

text \<open>
  The bit-level transport: \<open>src/src/target/swdptap_generic.c\<close> (the two-wire sequences) and
  \<open>jtagtap_generic.c\<close> (the four-wire ones), over one function that moves a single bit, which the
  platform provides.
\<close>

subsection \<open>Two wires\<close>

record 'w swd_bits =
  swdptap_bit_in :: "'w \<Rightarrow> bool \<times> 'w"
  swdptap_bit_out :: "bool \<Rightarrow> 'w \<Rightarrow> 'w"

fun seq_in_loop :: "'w swd_bits \<Rightarrow> nat \<Rightarrow> u32 \<Rightarrow> u32 \<Rightarrow> 'w \<Rightarrow> u32 \<times> 'w" where
  "seq_in_loop B 0 index ret w = (ret, w)"
| "seq_in_loop B (Suc ticks) index ret w =
     (let (b, w) = swdptap_bit_in B w
      in seq_in_loop B ticks (push_bit 1 index) (if b then ret OR index else ret) w)"

definition swdptap_seq_in :: "'w swd_bits \<Rightarrow> nat \<Rightarrow> 'w \<Rightarrow> u32 \<times> 'w" where
  "swdptap_seq_in B ticks w = seq_in_loop B ticks 1 0 w"

fun seq_in_parity_loop :: "'w swd_bits \<Rightarrow> nat \<Rightarrow> u32 \<Rightarrow> u32 \<Rightarrow> u8 \<Rightarrow> 'w \<Rightarrow> (u32 \<times> u8) \<times> 'w" where
  "seq_in_parity_loop B 0 index ret parity w = ((ret, parity), w)"
| "seq_in_parity_loop B (Suc ticks) index ret parity w =
     (let (b, w) = swdptap_bit_in B w
      in if b then seq_in_parity_loop B ticks (push_bit 1 index) (ret OR index) (parity XOR 1) w
         else seq_in_parity_loop B ticks (push_bit 1 index) ret parity w)"

definition swdptap_seq_in_parity :: "'w swd_bits \<Rightarrow> nat \<Rightarrow> 'w \<Rightarrow> (bool \<times> u32) \<times> 'w" where
  "swdptap_seq_in_parity B ticks w =
     (let ((ret, parity), w) = seq_in_parity_loop B ticks 1 0 0 w;
          (b, w) = swdptap_bit_in B w;
          parity = (if b then parity XOR 1 else parity)
      in ((parity \<noteq> 0, ret), w))"

fun swdptap_seq_out :: "'w swd_bits \<Rightarrow> u32 \<Rightarrow> nat \<Rightarrow> 'w \<Rightarrow> 'w" where
  "swdptap_seq_out B MS 0 w = w"
| "swdptap_seq_out B MS (Suc ticks) w = swdptap_seq_out B (drop_bit 1 MS) ticks (swdptap_bit_out B (MS AND 1 \<noteq> 0) w)"

fun seq_out_parity_loop :: "'w swd_bits \<Rightarrow> u32 \<Rightarrow> nat \<Rightarrow> u8 \<Rightarrow> 'w \<Rightarrow> u8 \<times> 'w" where
  "seq_out_parity_loop B MS 0 parity w = (parity, w)"
| "seq_out_parity_loop B MS (Suc ticks) parity w =
     seq_out_parity_loop B (drop_bit 1 MS) ticks (parity XOR ucast MS) (swdptap_bit_out B (MS AND 1 \<noteq> 0) w)"

definition swdptap_seq_out_parity :: "'w swd_bits \<Rightarrow> u32 \<Rightarrow> nat \<Rightarrow> 'w \<Rightarrow> 'w" where
  "swdptap_seq_out_parity B MS ticks w =
     (let (parity, w) = seq_out_parity_loop B MS ticks 0 w in swdptap_bit_out B (parity AND 1 \<noteq> 0) w)"

subsection \<open>Four wires\<close>

type_synonym 'w jtag_next = "bool \<Rightarrow> bool \<Rightarrow> 'w \<Rightarrow> bool \<times> 'w" \<comment> \<open>\<open>jtagtap_next (TMS, TDI)\<close>, the result is TDO\<close>

fun jtagtap_tms_seq :: "'w jtag_next \<Rightarrow> u32 \<Rightarrow> nat \<Rightarrow> 'w \<Rightarrow> 'w" where
  "jtagtap_tms_seq N MS 0 w = w"
| "jtagtap_tms_seq N MS (Suc ticks) w = jtagtap_tms_seq N (drop_bit 1 MS) ticks (snd (N (MS AND 1 \<noteq> 0) True w))"

text \<open>The pointers into the byte arrays are indices; an index outside has no result. \<open>index\<close> is the
  mask of the bit, which starts again at 1 after it left the byte.\<close>

fun tdi_tdo_loop :: "'w jtag_next \<Rightarrow> bool \<Rightarrow> u8 list \<Rightarrow> nat \<Rightarrow> u8 list \<Rightarrow> nat \<Rightarrow> u8 \<Rightarrow> 'w \<Rightarrow> (u8 list \<times> 'w) option" where
  "tdi_tdo_loop N final_tms DI 0 DO p index w = Some (DO, w)"
| "tdi_tdo_loop N final_tms DI (Suc ticks) DO p index w =
     (if p < length DI \<and> p < length DO then
        let (b, w) = N (if ticks \<noteq> 0 then False else final_tms) (DI ! p AND index \<noteq> 0) w;
            DO = DO[p := (if b then DO ! p OR index else DO ! p AND NOT index)]
        in if push_bit 1 index = 0 then tdi_tdo_loop N final_tms DI ticks DO (p + 1) 1 w
           else tdi_tdo_loop N final_tms DI ticks DO p (push_bit 1 index) w
      else None)"

definition jtagtap_tdi_tdo_seq :: "'w jtag_next \<Rightarrow> u8 list \<Rightarrow> bool \<Rightarrow> u8 list \<Rightarrow> nat \<Rightarrow> 'w \<Rightarrow> (u8 list \<times> 'w) option" where
  "jtagtap_tdi_tdo_seq N DO final_tms DI ticks w = tdi_tdo_loop N final_tms DI ticks DO 0 1 w"

fun tdi_loop :: "'w jtag_next \<Rightarrow> bool \<Rightarrow> u8 list \<Rightarrow> nat \<Rightarrow> nat \<Rightarrow> u8 \<Rightarrow> 'w \<Rightarrow> 'w option" where
  "tdi_loop N final_tms DI 0 p index w = Some w"
| "tdi_loop N final_tms DI (Suc ticks) p index w =
     (if p < length DI then
        let w = snd (N (if ticks \<noteq> 0 then False else final_tms) (DI ! p AND index \<noteq> 0) w)
        in if push_bit 1 index = 0 then tdi_loop N final_tms DI ticks (p + 1) 1 w
           else tdi_loop N final_tms DI ticks p (push_bit 1 index) w
      else None)"

definition jtagtap_tdi_seq :: "'w jtag_next \<Rightarrow> bool \<Rightarrow> u8 list \<Rightarrow> nat \<Rightarrow> 'w \<Rightarrow> 'w option" where
  "jtagtap_tdi_seq N final_tms DI ticks w = tdi_loop N final_tms DI ticks 0 1 w"

subsection \<open>A word with parity over two wires\<close>

text \<open>A line: \<open>tx\<close> is what has been sent, \<open>rx\<close> what will be received.\<close>

definition swd_line :: "'w swd_bits \<Rightarrow> ('w \<Rightarrow> bool list) \<Rightarrow> ('w \<Rightarrow> bool list) \<Rightarrow> bool" where
  "swd_line B tx rx \<longleftrightarrow> (\<forall>b w. tx (swdptap_bit_out B b w) = tx w @ [b]) \<and>
     (\<forall>w b bs. rx w = b # bs \<longrightarrow> (\<exists>w'. swdptap_bit_in B w = (b, w') \<and> rx w' = bs))"

definition word_bits :: "u32 \<Rightarrow> nat \<Rightarrow> bool list" where
  "word_bits v n = map (bit v) [0..<n]"

definition parity_bit :: "u32 \<Rightarrow> nat \<Rightarrow> bool" where
  "parity_bit v n \<longleftrightarrow> odd (length (filter id (word_bits v n)))"

lemma word_bits_Suc: "word_bits v (Suc n) = bit v 0 # word_bits (drop_bit 1 v) n"
  by (simp add: word_bits_def map_upt_Suc bit_simps del: upt_Suc)

lemma seq_out_bits: "swd_line B tx rx \<Longrightarrow> tx (swdptap_seq_out B MS n w) = tx w @ word_bits MS n"
proof (induction n arbitrary: MS w)
  case 0
  then show ?case by (simp add: word_bits_def)
next
  case (Suc n)
  then show ?case by (simp add: word_bits_Suc and_flag) (simp add: swd_line_def)
qed

lemma seq_out_parity_bits:
  assumes "swd_line B tx rx"
  shows "\<exists>p w'. seq_out_parity_loop B MS n parity w = (p, w') \<and> tx w' = tx w @ word_bits MS n \<and>
    bit p 0 = (bit parity 0 \<noteq> parity_bit MS n)"
proof (induction n arbitrary: MS w parity)
  case 0
  then show ?case by (simp add: word_bits_def parity_bit_def)
next
  case (Suc n)
  from Suc.IH [of "drop_bit 1 MS" "parity XOR ucast MS" "swdptap_bit_out B (MS AND 1 \<noteq> 0) w"] obtain p w' where
    "seq_out_parity_loop B (drop_bit 1 MS) n (parity XOR ucast MS) (swdptap_bit_out B (MS AND 1 \<noteq> 0) w) = (p, w')"
    "tx w' = tx (swdptap_bit_out B (MS AND 1 \<noteq> 0) w) @ word_bits (drop_bit 1 MS) n"
    "bit p 0 = (bit (parity XOR ucast MS) 0 \<noteq> parity_bit (drop_bit 1 MS) n)" by blast
  moreover have "tx (swdptap_bit_out B (MS AND 1 \<noteq> 0) w) = tx w @ [bit MS 0]"
    using assms by (simp add: swd_line_def and_flag)
  ultimately show ?case
    by (auto simp: word_bits_Suc parity_bit_def bit_xor_iff bit_ucast_iff)
qed

definition adds_bits :: "nat \<Rightarrow> bool list \<Rightarrow> u32 \<Rightarrow> u32 \<Rightarrow> bool" where
  "adds_bits k bs ret v \<longleftrightarrow> (\<forall>i < 32. bit v i \<longleftrightarrow> bit ret i \<or> (k \<le> i \<and> i < k + length bs \<and> bs ! (i - k)))"

lemma adds_bits_Cons:
  assumes "adds_bits (Suc k) bs (if b then ret OR push_bit k 1 else ret) v" "k < 32"
  shows "adds_bits k (b # bs) ret v"
  unfolding adds_bits_def
proof (intro allI impI)
  fix i :: nat assume "i < 32"
  with assms have "bit v i \<longleftrightarrow> bit (if b then ret OR push_bit k 1 else ret) i \<or> (Suc k \<le> i \<and> i < Suc k + length bs \<and> bs ! (i - Suc k))"
    by (simp add: adds_bits_def)
  moreover have "i - k = Suc (i - Suc k)" if "Suc k \<le> i" using that by simp
  ultimately show "bit v i \<longleftrightarrow> bit ret i \<or> (k \<le> i \<and> i < k + length (b # bs) \<and> (b # bs) ! (i - k))"
    using assms(2) by (cases "i = k"; cases "Suc k \<le> i") (auto simp: bit_or_iff bit_exp_iff)
qed

lemma seq_in_parity_bits:
  assumes "swd_line B tx rx"
  shows "rx w = bs @ rest \<Longrightarrow> k + length bs \<le> 32 \<Longrightarrow> parity \<le> 1 \<Longrightarrow>
    \<exists>v p w'. seq_in_parity_loop B (length bs) (push_bit k 1) ret parity w = ((v, p), w') \<and> rx w' = rest \<and>
      adds_bits k bs ret v \<and> p \<le> 1 \<and> (p \<noteq> 0 \<longleftrightarrow> ((parity \<noteq> 0) \<noteq> odd (length (filter id bs))))"
proof (induction bs arbitrary: w k ret parity)
  case Nil
  then show ?case by (auto simp: adds_bits_def)
next
  case (Cons b bs)
  from Cons.prems(1) assms obtain w1 where w1: "swdptap_bit_in B w = (b, w1)" "rx w1 = bs @ rest"
    unfolding swd_line_def by (metis append_Cons)
  have k: "k < 32" "Suc k + length bs \<le> 32" using Cons.prems(2) by simp_all
  let ?ret = "if b then ret OR push_bit k 1 else ret" and ?par = "if b then parity XOR 1 else parity"
  have "parity = 0 \<or> parity = 1" using Cons.prems(3) by (rule word_le_1)
  then have par: "?par \<le> 1" "?par \<noteq> 0 \<longleftrightarrow> ((parity \<noteq> 0) \<noteq> b)" by auto
  from Cons.IH [OF w1(2) k(2) par(1), of ?ret] obtain v p w' where
    r: "seq_in_parity_loop B (length bs) (push_bit (Suc k) 1) ?ret ?par w1 = ((v, p), w')" "rx w' = rest"
      "adds_bits (Suc k) bs ?ret v" "p \<le> 1" "p \<noteq> 0 \<longleftrightarrow> ((?par \<noteq> 0) \<noteq> odd (length (filter id bs)))" by blast
  have "seq_in_parity_loop B (length (b # bs)) (push_bit k 1) ret parity w = ((v, p), w')"
    using r(1) w1(1) by (cases b) (simp_all add: mult.commute)
  moreover have "p \<noteq> 0 \<longleftrightarrow> ((parity \<noteq> 0) \<noteq> odd (length (filter id (b # bs))))"
    using r(5) par(2) by auto
  ultimately show ?case using r(2,4) adds_bits_Cons [OF r(3) k(1)] by blast
qed

text \<open>What goes over the line for a word: its lowest bits, the first one first, and their parity.\<close>

definition swd_frame :: "u32 \<Rightarrow> nat \<Rightarrow> bool list" where
  "swd_frame v n = word_bits v n @ [parity_bit v n]"

lemma seq_in_parity_value:
  assumes "swd_line B tx rx" "rx w = bs @ p # rest" "length bs \<le> 32"
  shows "\<exists>v w'. swdptap_seq_in_parity B (length bs) w = ((odd (length (filter id (bs @ [p]))), v), w') \<and> rx w' = rest \<and> adds_bits 0 bs 0 v"
proof -
  from seq_in_parity_bits [OF assms(1,2), of 0 0 0] assms(3) obtain v q w1 where
    l: "seq_in_parity_loop B (length bs) 1 0 0 w = ((v, q), w1)" "rx w1 = p # rest" "adds_bits 0 bs 0 v" "q \<le> 1"
      "q \<noteq> 0 \<longleftrightarrow> odd (length (filter id bs))" by auto
  from l(2) assms(1) obtain w2 where w2: "swdptap_bit_in B w1 = (p, w2)" "rx w2 = rest" unfolding swd_line_def by blast
  have "q = 0 \<or> q = 1" using l(4) by (rule word_le_1)
  then show ?thesis using l(1,3,5) w2 by (auto simp: swdptap_seq_in_parity_def)
qed

lemma adds_bits_word: "n \<le> 32 \<Longrightarrow> adds_bits 0 (word_bits x n) 0 v \<Longrightarrow> v = take_bit n x"
  by (rule bit_word_eqI) (auto simp: adds_bits_def word_bits_def bit_take_bit_iff)

lemma count_flip:
  "i < length bs \<Longrightarrow> odd (length (filter id (bs[i := \<not> bs ! i]))) \<longleftrightarrow> even (length (filter id bs))"
proof (induction bs arbitrary: i)
  case Nil
  then show ?case by simp
next
  case (Cons b bs)
  then show ?case by (cases i) auto
qed

lemma even_frame: "even (length (filter id (swd_frame v n)))"
  by (simp add: swd_frame_def parity_bit_def)

text \<open>
  A word with parity over the line: the sender puts the word's bits and the parity on the line, the
  receiver of these bits gets the word with no parity error and consumes exactly the frame, and if any
  single bit of the frame was flipped, the receiver reports a parity error.
\<close>

theorem swd_parity_word:
  assumes "swd_line B tx rx" and "n \<le> 32"
  shows "tx (swdptap_seq_out_parity B v n w) = tx w @ swd_frame v n \<and>
    (rx w1 = swd_frame v n @ rest \<longrightarrow>
      (\<exists>w'. swdptap_seq_in_parity B n w1 = ((False, take_bit n v), w') \<and> rx w' = rest)) \<and>
    (\<forall>i \<le> n. rx w2 = (swd_frame v n)[i := \<not> swd_frame v n ! i] @ rest \<longrightarrow> fst (fst (swdptap_seq_in_parity B n w2)))"
proof (intro conjI allI impI)
  from seq_out_parity_bits [OF assms(1), of v n 0 w] obtain p w' where
    "seq_out_parity_loop B v n 0 w = (p, w')" "tx w' = tx w @ word_bits v n" "bit p 0 = parity_bit v n" by auto
  then show "tx (swdptap_seq_out_parity B v n w) = tx w @ swd_frame v n"
    using assms(1) by (simp add: swdptap_seq_out_parity_def swd_frame_def swd_line_def and_flag)
next
  assume r: "rx w1 = swd_frame v n @ rest"
  have l: "length (word_bits v n) = n" by (simp add: word_bits_def)
  from seq_in_parity_value [OF assms(1), of w1 "word_bits v n" "parity_bit v n" rest] r assms(2) l obtain x w' where
    "swdptap_seq_in_parity B n w1 = ((odd (length (filter id (swd_frame v n))), x), w')" "rx w' = rest" "adds_bits 0 (word_bits v n) 0 x"
    by (auto simp: swd_frame_def)
  with adds_bits_word [OF assms(2), of v x] even_frame [of v n] show
    "\<exists>w'. swdptap_seq_in_parity B n w1 = ((False, take_bit n v), w') \<and> rx w' = rest" by auto
next
  fix i assume i: "i \<le> n" and r: "rx w2 = (swd_frame v n)[i := \<not> swd_frame v n ! i] @ rest"
  let ?f = "(swd_frame v n)[i := \<not> swd_frame v n ! i]"
  have l: "length ?f = Suc n" by (simp add: swd_frame_def word_bits_def)
  then obtain bs p where f: "?f = bs @ [p]" "length bs = n" by (cases ?f rule: rev_cases) auto
  from seq_in_parity_value [OF assms(1), of w2 bs p rest] r f assms(2)
  have "fst (fst (swdptap_seq_in_parity B n w2)) = odd (length (filter id ?f))" by auto
  then show "fst (fst (swdptap_seq_in_parity B n w2))"
    using count_flip [of i "swd_frame v n"] i even_frame [of v n] l by simp
qed

text \<open>A line whose two ends are lists.\<close>

definition list_bits :: "(bool list \<times> bool list) swd_bits" where
  "list_bits = \<lparr>swdptap_bit_in = (\<lambda>(tx, rx). case rx of [] \<Rightarrow> (False, (tx, [])) | b # bs \<Rightarrow> (b, (tx, bs))),
     swdptap_bit_out = (\<lambda>b (tx, rx). (tx @ [b], rx))\<rparr>"

theorem swd_parity_word_witness:
  "\<exists>w'. swdptap_seq_in_parity list_bits 4 ([], swd_frame 5 4) = ((False, 5), w') \<and> snd w' = []"
proof -
  have l: "swd_line list_bits fst snd" by (auto simp: swd_line_def list_bits_def)
  from swd_parity_word [OF l, of 4 5 "([], [])" "([], swd_frame 5 4)" "[]"] show ?thesis
    by (auto simp: take_bit_eq_mask mask_numeral)
qed

end
