(* ===== verification/Adiv5_Swdp.thy ===== *)
theory Adiv5_Swdp
  imports Exception Word_Bits
begin

unbundle bit_operations_syntax

text \<open>
  \<open>src/src/target/adiv5_swdp.c\<close>: the debug port over the two-wire interface. The four bit-sequence
  functions of the probe and the clock are the record \<open>swd_ops\<close>; the state is the debug port with the
  world behind it. \<open>dp->abort\<close> and \<open>dp->low_access\<close> are the functions of this file.
\<close>

subsection \<open>Registers and requests\<close>

abbreviation (input) ADIV5_APnDP :: u16 where "ADIV5_APnDP \<equiv> 0x100"
abbreviation (input) ADIV5_DP_IDCODE :: u16 where "ADIV5_DP_IDCODE \<equiv> 0x0"
abbreviation (input) ADIV5_DP_ABORT :: u16 where "ADIV5_DP_ABORT \<equiv> 0x0"
abbreviation (input) ADIV5_DP_CTRLSTAT :: u16 where "ADIV5_DP_CTRLSTAT \<equiv> 0x4"
abbreviation (input) ADIV5_DP_SELECT :: u16 where "ADIV5_DP_SELECT \<equiv> 0x8"
abbreviation (input) ADIV5_DP_RDBUFF :: u16 where "ADIV5_DP_RDBUFF \<equiv> 0xC"
abbreviation (input) ADIV5_DP_TARGETSEL :: u16 where "ADIV5_DP_TARGETSEL \<equiv> 0xC"
abbreviation (input) ADIV5_DP_VERSION_MASK :: u32 where "ADIV5_DP_VERSION_MASK \<equiv> 0xF000"
abbreviation (input) ADIV5_DPv2 :: u32 where "ADIV5_DPv2 \<equiv> 0x2000"
abbreviation (input) ADIV5_DP_ABORT_DAPABORT :: u32 where "ADIV5_DP_ABORT_DAPABORT \<equiv> 1"
abbreviation (input) SWDP_ACK_OK :: u32 where "SWDP_ACK_OK \<equiv> 1"
abbreviation (input) SWDP_ACK_WAIT :: u32 where "SWDP_ACK_WAIT \<equiv> 2"
abbreviation (input) SWDP_ACK_FAULT :: u32 where "SWDP_ACK_FAULT \<equiv> 4"

definition make_packet_request :: "bool \<Rightarrow> u16 \<Rightarrow> u32" where
  "make_packet_request RnW addr =
     (let APnDP = (addr AND ADIV5_APnDP \<noteq> 0);
          addr = addr AND 0xFF;
          request = 0x81;
          request = (if APnDP then request XOR 0x22 else request);
          request = (if RnW then request XOR 0x24 else request);
          addr = addr AND 0xC;
          request = request OR (ucast (push_bit 1 addr) AND 0x18)
      in if addr = 4 \<or> addr = 8 then request XOR 0x20 else request)"

record 'w swd_ops =
  sw_seq_out :: "u32 \<Rightarrow> nat \<Rightarrow> 'w \<Rightarrow> 'w"
  sw_seq_out_parity :: "u32 \<Rightarrow> nat \<Rightarrow> 'w \<Rightarrow> 'w"
  sw_seq_in :: "nat \<Rightarrow> 'w \<Rightarrow> u32 \<times> 'w"
  sw_seq_in_parity :: "nat \<Rightarrow> 'w \<Rightarrow> (bool \<times> u32) \<times> 'w"
  sw_time :: "'w clock"

record 'w swdp =
  dp_idcode :: u32
  dp_targetid :: u32
  dp_fault :: bool
  dp_world :: 'w

definition seq_out :: "'w swd_ops \<Rightarrow> u32 \<Rightarrow> nat \<Rightarrow> 'w swdp \<Rightarrow> 'w swdp" where
  "seq_out W v n s = s\<lparr>dp_world := sw_seq_out W v n (dp_world s)\<rparr>"

subsection \<open>One access\<close>

text \<open>A request and its acknowledgement, which the probe delivers in the upper bits.\<close>

definition swd_exchange :: "'w swd_ops \<Rightarrow> u32 \<Rightarrow> 'w \<Rightarrow> u32 \<times> 'w" where
  "swd_exchange W request w =
     (let (a, w) = sw_seq_in W 3 (sw_seq_out W request 8 w) in (drop_bit 29 a, w))"

partial_function (option) swd_request_loop :: "'w swd_ops \<Rightarrow> u32 \<Rightarrow> u32 \<Rightarrow> 'w \<Rightarrow> (u32 \<times> 'w) option" where
  "swd_request_loop W request t w =
     (case swd_exchange W request w of (ack, w) \<Rightarrow>
        if ack \<noteq> SWDP_ACK_WAIT then Some (ack, w)
        else (case platform_timeout_is_expired (sw_time W) t w of (expired, w) \<Rightarrow>
                if expired then Some (ack, w) else swd_request_loop W request t w))"

partial_function (option) firmware_swdp_low_access ::
  "'w swd_ops \<Rightarrow> bool \<Rightarrow> u16 \<Rightarrow> u32 \<Rightarrow> 'w swdp \<Rightarrow> ('w swdp, u32) outcome" where
  "firmware_swdp_low_access W RnW addr value s =
     (if addr AND ADIV5_APnDP \<noteq> 0 \<and> dp_fault s then return 0 s
      else case platform_timeout_set (sw_time W) 20 (dp_world s) of (t, w) \<Rightarrow>
        do {
          (ack, w) \<leftarrow> swd_request_loop W (make_packet_request RnW addr) t w;
          let s = s\<lparr>dp_world := w\<rparr>;
          if ack = SWDP_ACK_FAULT then return 0 (s\<lparr>dp_fault := True\<rparr>)
          else if ack = SWDP_ACK_WAIT then
            andthen (firmware_swdp_low_access W False ADIV5_DP_ABORT ADIV5_DP_ABORT_DAPABORT s)
              (\<lambda>x s. return 0 (s\<lparr>dp_fault := True\<rparr>))
          else if ack \<noteq> SWDP_ACK_OK then raise_exn EXCEPTION_ERROR ''SWDP invalid ACK'' s
          else if RnW then
            (case sw_seq_in_parity W 32 w of ((bad, response), w) \<Rightarrow>
               if bad then raise_exn EXCEPTION_ERROR ''SWDP Parity error'' (s\<lparr>dp_world := w, dp_fault := True\<rparr>)
               else return response (s\<lparr>dp_world := w\<rparr>))
          else return 0 (s\<lparr>dp_world := sw_seq_out W 0 8 (sw_seq_out_parity W value 32 w)\<rparr>) })"

abbreviation swdp_write :: "'w swd_ops \<Rightarrow> u16 \<Rightarrow> u32 \<Rightarrow> 'w swdp \<Rightarrow> ('w swdp, u32) outcome" where
  "swdp_write W addr v \<equiv> firmware_swdp_low_access W False addr v"

definition firmware_swdp_abort :: "'w swd_ops \<Rightarrow> u32 \<Rightarrow> 'w swdp \<Rightarrow> ('w swdp, u32) outcome" where
  "firmware_swdp_abort W abort s = swdp_write W ADIV5_DP_ABORT abort s"

text \<open>An access-port read is posted: its value comes with the next read, of \<open>RDBUFF\<close>.\<close>

definition firmware_swdp_read :: "'w swd_ops \<Rightarrow> u16 \<Rightarrow> 'w swdp \<Rightarrow> ('w swdp, u32) outcome" where
  "firmware_swdp_read W addr s =
     (if addr AND ADIV5_APnDP \<noteq> 0
      then andthen (firmware_swdp_low_access W True addr 0 s)
             (\<lambda>x s. firmware_swdp_low_access W True ADIV5_DP_RDBUFF 0 s)
      else firmware_swdp_low_access W True addr 0 s)"

definition dp_line_reset :: "'w swd_ops \<Rightarrow> 'w swdp \<Rightarrow> 'w swdp" where
  "dp_line_reset W s = seq_out W 0x0FFFFFFF 32 (seq_out W 0xFFFFFFFF 32 s)"

text \<open>A write without timeout and exception; true when the acknowledgement is not \<open>OK\<close> (compared
  without the shift of \<open>firmware_swdp_low_access\<close>).\<close>

definition firmware_dp_low_write :: "'w swd_ops \<Rightarrow> u16 \<Rightarrow> u32 \<Rightarrow> 'w swdp \<Rightarrow> bool \<times> 'w swdp" where
  "firmware_dp_low_write W addr data s =
     (let s = seq_out W (make_packet_request False (addr AND 0xF)) 8 s;
          (res, w) = sw_seq_in W 3 (dp_world s)
      in (res \<noteq> SWDP_ACK_OK, s\<lparr>dp_world := sw_seq_out_parity W data 32 w\<rparr>))"

subsection \<open>Clearing errors\<close>

abbreviation (input) STICKYORUN :: u32 where "STICKYORUN \<equiv> 0x02"
abbreviation (input) STICKYCMP :: u32 where "STICKYCMP \<equiv> 0x10"
abbreviation (input) STICKYERR :: u32 where "STICKYERR \<equiv> 0x20"
abbreviation (input) WDATAERR :: u32 where "WDATAERR \<equiv> 0x80"

text \<open>The bits of \<open>ABORT\<close> that clear the errors \<open>err\<close>.\<close>

definition abort_clear_bits :: "u32 \<Rightarrow> u32" where
  "abort_clear_bits err =
     (let clr = 0;
          clr = (if err AND STICKYORUN \<noteq> 0 then clr OR 0x10 else clr);
          clr = (if err AND STICKYCMP \<noteq> 0 then clr OR 0x02 else clr);
          clr = (if err AND STICKYERR \<noteq> 0 then clr OR 0x04 else clr);
          clr = (if err AND WDATAERR \<noteq> 0 then clr OR 0x08 else clr)
      in clr)"

text \<open>\<open>low_write\<close> is \<open>dp->dp_low_write\<close>, which a probe may not have.\<close>

type_synonym 'w low_write = "u16 \<Rightarrow> u32 \<Rightarrow> 'w swdp \<Rightarrow> bool \<times> 'w swdp"

definition firmware_swdp_error :: "'w swd_ops \<Rightarrow> 'w low_write option \<Rightarrow> 'w swdp \<Rightarrow> ('w swdp, u32) outcome" where
  "firmware_swdp_error W low_write s =
     andthen
       (case low_write of
          Some lw \<Rightarrow>
            if dp_fault s \<and> dp_idcode s AND ADIV5_DP_VERSION_MASK = ADIV5_DPv2
            then andthen (firmware_swdp_read W ADIV5_DP_IDCODE
                   (snd (lw ADIV5_DP_TARGETSEL (dp_targetid s) (dp_line_reset W s)))) (\<lambda>x. return ())
            else return () s
        | None \<Rightarrow> return () s)
       (\<lambda>x s. andthen (firmware_swdp_read W ADIV5_DP_CTRLSTAT s)
         (\<lambda>v s. let err = v AND (STICKYORUN OR STICKYCMP OR STICKYERR OR WDATAERR)
                in andthen (swdp_write W ADIV5_DP_ABORT (abort_clear_bits err) s)
                     (\<lambda>x s. return err (s\<lparr>dp_fault := False\<rparr>))))"

subsection \<open>Scanning\<close>

text \<open>What the scan calls: the release of the old targets, \<open>swdptap_init\<close> (true: it failed), the allocator, \<open>adiv5_dp_init\<close> on a copy of
  the port (it may raise), and whether the controller has targets at the end.\<close>

record 'w scan_ops =
  sc_free :: "'w \<Rightarrow> 'w"
  sc_swdptap_init :: "'w \<Rightarrow> bool \<times> 'w"
  sc_alloc :: "'w \<Rightarrow> bool \<times> 'w"
  sc_init :: "'w swdp \<Rightarrow> ('w, unit) outcome"
  sc_found :: "'w \<Rightarrow> bool"

text \<open>Reading \<open>IDCODE\<close> with all exceptions caught: nothing after an exception or with the fault flag
  set.\<close>

definition try_idcode :: "'w swd_ops \<Rightarrow> 'w swdp \<Rightarrow> ('w swdp, u32 option) outcome" where
  "try_idcode W s =
     try_catch EXCEPTION_ALL (firmware_swdp_read W ADIV5_DP_IDCODE s)
       (\<lambda>e x s. return (if e \<noteq> None \<or> dp_fault s then None else x) s)"

definition new_dp :: "'w scan_ops \<Rightarrow> u32 \<Rightarrow> u32 \<Rightarrow> 'w swdp \<Rightarrow> ('w swdp, unit) outcome" where
  "new_dp P idcode targetid s =
     (case sc_alloc P (dp_world s) of
        (False, w) \<Rightarrow> return () (s\<lparr>dp_world := w\<rparr>)
      | (True, w) \<Rightarrow>
          (case sc_init P (s\<lparr>dp_idcode := idcode, dp_targetid := targetid, dp_world := w\<rparr>) of
             None \<Rightarrow> None
           | Some (r, w) \<Rightarrow> Some (r, s\<lparr>dp_world := w\<rparr>)))"

fun swdp_multidrop_loop ::
  "'w swd_ops \<Rightarrow> 'w low_write \<Rightarrow> 'w scan_ops \<Rightarrow> u32 \<Rightarrow> nat list \<Rightarrow> 'w swdp \<Rightarrow> ('w swdp, unit) outcome" where
  "swdp_multidrop_loop W lw P target_id [] s = return () s"
| "swdp_multidrop_loop W lw P target_id (i # is) s =
     (let dp_targetid = push_bit 28 (word_of_nat i) OR (target_id AND 0x0FFFFFFF);
          s = snd (lw ADIV5_DP_TARGETSEL dp_targetid (dp_line_reset W s))
      in andthen (try_idcode W s)
           (\<lambda>id s. andthen (case id of None \<Rightarrow> return () s | Some idcode \<Rightarrow> new_dp P idcode dp_targetid s)
              (\<lambda>x s. swdp_multidrop_loop W lw P target_id is s)))"

text \<open>Finding a port when no target id was given: the id, the target id and whether to look for more
  ports; nothing if no port answers.\<close>

definition swdp_first_dp ::
  "'w swd_ops \<Rightarrow> bool \<Rightarrow> 'w swdp \<Rightarrow> ('w swdp, (u32 \<times> u32 \<times> bool) option) outcome" where
  "swdp_first_dp W has_low_write s =
     andthen (try_idcode W (dp_line_reset W s))
       (\<lambda>id s. andthen
          (case id of
             Some idcode \<Rightarrow> return (Some idcode) s
           | None \<Rightarrow>
               let s = seq_out W 0xE79E 16 (seq_out W 0xFFFFFFFF 32 (seq_out W 0xFFFFFFFF 32 s))
               in try_idcode W ((dp_line_reset W s)\<lparr>dp_fault := False\<rparr>))
          (\<lambda>id s. case id of
             None \<Rightarrow> return None s
           | Some idcode \<Rightarrow>
               if idcode AND ADIV5_DP_VERSION_MASK = ADIV5_DPv2
               then andthen (swdp_write W ADIV5_DP_SELECT 2 s) (\<lambda>x s.
                    andthen (firmware_swdp_read W ADIV5_DP_CTRLSTAT s) (\<lambda>target_id s.
                    andthen (swdp_write W ADIV5_DP_SELECT 0 s) (\<lambda>x s.
                    andthen (if target_id = 0x01002927 then swdp_write W ADIV5_DP_CTRLSTAT 0 s else return 0 s) (\<lambda>x s.
                    return (Some (idcode, target_id, has_low_write)) s))))
               else return (Some (idcode, 0, False)) s))"

definition dormant_to_swd :: "(u32 \<times> nat) list" where
  "dormant_to_swd = [(0xFFFFFFFF, 32), (0xFFFFFFFF, 32), (0x6209F392, 32), (0x86852D95, 32),
     (0xE3DDAFE9, 32), (0x19BC0EA2, 32), (0x1A0, 12)]"

definition adiv5_swdp_scan ::
  "'w swd_ops \<Rightarrow> 'w low_write option \<Rightarrow> 'w scan_ops \<Rightarrow> u32 \<Rightarrow> 'w \<Rightarrow> ('w swdp, int) outcome" where
  "adiv5_swdp_scan W low_write P targetid w =
     (let (failed, w) = sc_swdptap_init P (sc_free P w);
          idp = \<lparr>dp_idcode = 0, dp_targetid = 0, dp_fault = False, dp_world = w\<rparr>;
          s = foldl (\<lambda>s (v, n). seq_out W v n s) idp dormant_to_swd
      in if failed then return (-1) idp
         else andthen
           (if targetid = 0 \<or> low_write = None then swdp_first_dp W (low_write \<noteq> None) s
            else return (Some (0, targetid, True)) s)
           (\<lambda>r s. case r of
              None \<Rightarrow> return 0 s
            | Some (idcode, target_id, multidrop) \<Rightarrow>
                andthen
                  (if multidrop
                   then (case low_write of
                           None \<Rightarrow> None | Some lw \<Rightarrow> swdp_multidrop_loop W lw P target_id [0..<16] s)
                   else new_dp P idcode target_id s)
                  (\<lambda>x s. return (if sc_found P (dp_world s) then 1 else 0) s)))"

subsection \<open>The request byte\<close>

lemma and_0xC: "((addr AND 0xFF) AND 0xC :: u16) = (if bit addr 2 then 4 else 0) OR (if bit addr 3 then 8 else 0)"
proof -
  have "(addr AND 0xFF) AND 0xC = addr AND 0xC" by (simp add: and.assoc)
  also have "addr AND 0xC = (addr AND 4) OR (addr AND 8)" by (simp flip: bit.conj_disj_distrib)
  finally show ?thesis by (simp add: and_flag)
qed

text \<open>
  The request byte has the format of the protocol, for every register and direction: start bit, port
  select, direction, the two address bits, their even parity, stop and park bit, from the lowest bit.
\<close>

theorem make_packet_request_format:
  "let r = make_packet_request RnW addr in
     bit r 0 \<and> (bit r 1 \<longleftrightarrow> bit addr 8) \<and> (bit r 2 \<longleftrightarrow> RnW) \<and> (bit r 3 \<longleftrightarrow> bit addr 2) \<and> (bit r 4 \<longleftrightarrow> bit addr 3) \<and>
     (bit r 5 \<longleftrightarrow> ((bit r 1 \<noteq> bit r 2) \<noteq> (bit r 3 \<noteq> bit r 4))) \<and> \<not> bit r 6 \<and> bit r 7 \<and> r < 0x100"
proof -
  have "make_packet_request RnW addr =
      (if bit addr 8 then 0x22 else 0) XOR (if RnW then 0x24 else 0) XOR 0x81 XOR
      (if bit addr 2 then 8 else 0) XOR (if bit addr 3 then 16 else 0) XOR (if bit addr 2 \<noteq> bit addr 3 then 0x20 else 0)"
    unfolding make_packet_request_def Let_def and_0xC by (simp add: and_flag)
  then show ?thesis
    by (cases "bit addr 8"; cases "bit addr 2"; cases "bit addr 3"; cases RnW) (simp_all add: Let_def)
qed

subsection \<open>Outcomes of an access\<close>

subsection \<open>Outcomes of an access\<close>

definition harmless :: "bool \<Rightarrow> 'w swdp \<Rightarrow> (exn + u32) \<times> 'w swdp \<Rightarrow> bool" where
  "harmless RnW s q \<longleftrightarrow> (\<forall>e. fst q = Inl e \<longrightarrow> exn_type e = EXCEPTION_ERROR) \<and> (dp_fault s \<longrightarrow> dp_fault (snd q)) \<and>
     dp_idcode (snd q) = dp_idcode s \<and> dp_targetid (snd q) = dp_targetid s \<and> (\<not> RnW \<longrightarrow> (\<forall>v. fst q = Inr v \<longrightarrow> v = 0))"

lemma low_access_harmless:
  assumes "firmware_swdp_low_access W RnW addr value s = Some q"
  shows "harmless RnW s q"
  apply (rule firmware_swdp_low_access.raw_induct [OF _ assms, where P = "\<lambda>W RnW addr v s q. harmless RnW s q"])
  subgoal premises prems for f W RnW addr v s q
    using prems(2)
    by (auto simp: harmless_def bind_eq_Some_conv andthen_Some_iff return_def raise_exn_def Let_def split: if_splits prod.splits
        dest!: prems(1))
  done

text \<open>
  Whatever the target answers, an access that returns raises at most a communication error, never
  clears the fault flag, keeps the identification of the port, and a write yields 0; with the flag set an
  access to an access port does nothing at all.
\<close>

theorem swdp_access_outcome:
  "(firmware_swdp_low_access W RnW addr v s = Some (r, s') \<longrightarrow>
     (\<forall>e. r = Inl e \<longrightarrow> exn_type e = EXCEPTION_ERROR) \<and> (dp_fault s \<longrightarrow> dp_fault s') \<and>
     dp_idcode s' = dp_idcode s \<and> dp_targetid s' = dp_targetid s \<and> (\<not> RnW \<longrightarrow> (\<forall>x. r = Inr x \<longrightarrow> x = 0))) \<and>
   (dp_fault s \<and> bit addr 8 \<longrightarrow> firmware_swdp_low_access W RnW addr v s = Some (Inr 0, s))"
proof -
  have "firmware_swdp_low_access W RnW addr v s = Some (Inr 0, s)" if "dp_fault s \<and> bit addr 8"
    using that by (subst firmware_swdp_low_access.simps) (simp add: and_flag return_def)
  with low_access_harmless [of W RnW addr v s "(r, s')"] show ?thesis by (auto simp: harmless_def)
qed

subsection \<open>Retries\<close>

text \<open>The target answers \<open>WAIT\<close> a number of times, each time before the end of the timeout.\<close>

inductive waits :: "'w swd_ops \<Rightarrow> u32 \<Rightarrow> u32 \<Rightarrow> nat \<Rightarrow> 'w \<Rightarrow> 'w \<Rightarrow> bool" for W req t where
  waits_0: "waits W req t 0 w w"
| waits_Suc: "swd_exchange W req w = (SWDP_ACK_WAIT, w1) \<Longrightarrow>
    platform_timeout_is_expired (sw_time W) t w1 = (False, w2) \<Longrightarrow> waits W req t n w2 w3 \<Longrightarrow> waits W req t (Suc n) w w3"

lemma request_loop_waits:
  "waits W req t n w w1 \<Longrightarrow> swd_exchange W req w1 = (ack, w2) \<Longrightarrow> ack \<noteq> SWDP_ACK_WAIT \<Longrightarrow>
     swd_request_loop W req t w = Some (ack, w2)"
  by (induction rule: waits.induct) (subst swd_request_loop.simps, simp)+

text \<open>
  C25. Retries: after any number of \<open>WAIT\<close> answers within the timeout, the first other answer decides:
  with \<open>OK\<close> a write sends its data and idle cycles, a read returns the word if its parity is right and
  raises and flags a fault if not; a \<open>FAULT\<close> answer is flagged and read as 0; any other answer raises.
\<close>

theorem swdp_access_retries:
  assumes "platform_timeout_set (sw_time W) 20 (dp_world s) = (t, w)" and "\<not> (bit addr 8 \<and> dp_fault s)"
    and "waits W (make_packet_request RnW addr) t n w w1"
    and "swd_exchange W (make_packet_request RnW addr) w1 = (ack, w2)" and "ack \<noteq> SWDP_ACK_WAIT"
  shows "firmware_swdp_low_access W RnW addr v s =
    (if ack = SWDP_ACK_FAULT then Some (Inr 0, s\<lparr>dp_world := w2, dp_fault := True\<rparr>)
     else if ack \<noteq> SWDP_ACK_OK then Some (Inl (Exn EXCEPTION_ERROR ''SWDP invalid ACK''), s\<lparr>dp_world := w2\<rparr>)
     else if \<not> RnW then Some (Inr 0, s\<lparr>dp_world := sw_seq_out W 0 8 (sw_seq_out_parity W v 32 w2)\<rparr>)
     else (case sw_seq_in_parity W 32 w2 of ((bad, x), w3) \<Rightarrow>
       if bad then Some (Inl (Exn EXCEPTION_ERROR ''SWDP Parity error''), s\<lparr>dp_world := w3, dp_fault := True\<rparr>)
       else Some (Inr x, s\<lparr>dp_world := w3\<rparr>)))"
proof -
  have l: "swd_request_loop W (make_packet_request RnW addr) t w = Some (ack, w2)"
    by (rule request_loop_waits [OF assms(3-5)])
  have f: "\<not> (addr AND ADIV5_APnDP \<noteq> 0 \<and> dp_fault s)" using assms(2) by (simp add: and_flag)
  show ?thesis
    unfolding firmware_swdp_low_access.simps [of W RnW addr v s] if_not_P [OF f] assms(1) using assms(5)
    by (auto simp: l Let_def return_def raise_exn_def split: prod.split)
qed

subsection \<open>Termination\<close>

lemma request_loop_returns:
  fixes T :: "'w \<Rightarrow> nat"
  assumes clk: "\<And>w. sw_time W w = (word_of_nat (T w), w)"
    and fwd: "\<And>w. T w < T (snd (swd_exchange W req w)) \<and> T (snd (swd_exchange W req w)) \<le> T w + d"
    and t: "tn + d < 2 ^ 32" and w: "T w \<le> tn"
  shows "\<exists>ack w'. swd_request_loop W req (word_of_nat tn) w = Some (ack, w') \<and> T w < T w' \<and> T w' \<le> tn + d"
  using w
proof (induction "tn - T w" arbitrary: w rule: less_induct)
  case less
  obtain ack w1 where x: "swd_exchange W req w = (ack, w1)" by (cases "swd_exchange W req w")
  with fwd [of w] less.prems have T: "T w < T w1" "T w1 \<le> tn + d" by simp_all
  show ?case
  proof (cases "ack = SWDP_ACK_WAIT \<and> T w1 \<le> tn")
    case False
    have "(word_of_nat (T w1) :: u32) > word_of_nat tn \<longleftrightarrow> T w1 > tn"
      using T(2) t by (simp add: word_less_nat_alt unsigned_of_nat take_bit_eq_mod)
    with False have "swd_request_loop W req (word_of_nat tn) w = Some (ack, w1)"
      by (subst swd_request_loop.simps) (auto simp: x platform_timeout_is_expired_def clk)
    with T show ?thesis by blast
  next
    case True
    have "\<not> (word_of_nat (T w1) :: u32) > word_of_nat tn"
      using T(2) t True by (simp add: word_less_nat_alt unsigned_of_nat take_bit_eq_mod)
    then have e: "swd_request_loop W req (word_of_nat tn) w = swd_request_loop W req (word_of_nat tn) w1"
      using True by (subst swd_request_loop.simps) (auto simp: x platform_timeout_is_expired_def clk)
    have "tn - T w1 < tn - T w" "T w1 \<le> tn" using True T(1) by auto
    from less.hyps [OF this] obtain ack' w' where
      "swd_request_loop W req (word_of_nat tn) w1 = Some (ack', w')" "T w1 < T w'" "T w' \<le> tn + d" by blast
    with e T(1) show ?thesis by auto
  qed
qed

text \<open>
  An access returns: with a clock that runs and stays within its 32 bits, and a target that accepts the
  write to \<open>ABORT\<close>, which the architecture always permits, every access ends, whatever the target
  answers otherwise, at the latest when the 20 milliseconds of its timeout and one more exchange are over.
\<close>

theorem swdp_access_returns:
  fixes T :: "'w \<Rightarrow> nat"
  assumes clk: "\<And>w. sw_time W w = (word_of_nat (T w), w)"
    and fwd: "\<And>req w. T w < T (snd (swd_exchange W req w)) \<and> T (snd (swd_exchange W req w)) \<le> T w + d"
    and abort: "\<And>w. fst (swd_exchange W (make_packet_request False ADIV5_DP_ABORT) w) \<noteq> SWDP_ACK_WAIT"
    and range: "T (dp_world s) + 20 + d < 2 ^ 32"
  shows "\<exists>q. firmware_swdp_low_access W RnW addr v s = Some q"
proof (cases "addr AND ADIV5_APnDP \<noteq> 0 \<and> dp_fault s")
  case True
  then show ?thesis by (subst firmware_swdp_low_access.simps) (simp add: return_def)
next
  case False
  let ?req = "make_packet_request RnW addr" and ?abort = "make_packet_request False ADIV5_DP_ABORT"
  have set: "platform_timeout_set (sw_time W) 20 w = (word_of_nat (T w + 20), w)" for w
    by (simp add: platform_timeout_set_def clk)
  obtain ack w1 where l: "swd_request_loop W ?req (word_of_nat (T (dp_world s) + 20)) (dp_world s) = Some (ack, w1)"
    using request_loop_returns [OF clk fwd, of "T (dp_world s) + 20" "dp_world s" ?req] range by auto
  have "\<exists>q. firmware_swdp_low_access W False ADIV5_DP_ABORT a s1 = Some q" for a s1
  proof -
    obtain ack2 w2 where x: "swd_exchange W ?abort (dp_world s1) = (ack2, w2)" by (cases "swd_exchange W ?abort (dp_world s1)")
    with abort [of "dp_world s1"] have n2: "ack2 \<noteq> SWDP_ACK_WAIT" by simp
    with x have l2: "swd_request_loop W ?abort t (dp_world s1) = Some (ack2, w2)" for t
      by (subst swd_request_loop.simps) simp
    show ?thesis using n2 by (subst firmware_swdp_low_access.simps) (auto simp: set l2 return_def raise_exn_def Let_def)
  qed
  then obtain q where q: "firmware_swdp_low_access W False ADIV5_DP_ABORT ADIV5_DP_ABORT_DAPABORT (s\<lparr>dp_world := w1\<rparr>) = Some q" by blast
  show ?thesis unfolding firmware_swdp_low_access.simps [of W RnW addr v s] if_not_P [OF False] set
    using l q by (cases q; cases "fst q") (auto simp: return_def raise_exn_def Let_def split: prod.split)
qed

lemma request_loop_always_waits:
  assumes "swd_request_loop W req t w = Some q" and "\<And>w. fst (swd_exchange W req w) = SWDP_ACK_WAIT"
  shows "fst q = SWDP_ACK_WAIT"
  apply (rule swd_request_loop.raw_induct [OF _ assms(1), where P = "\<lambda>W' req' t w q. W' = W \<and> req' = req \<longrightarrow> fst q = SWDP_ACK_WAIT", THEN mp])
  subgoal premises prems for f W' req' t w q
    using prems(2) assms(2) [of w] by (auto split: prod.splits if_splits dest!: prems(1))
  by simp

lemma abort_never_returns:
  assumes "firmware_swdp_low_access W False ADIV5_DP_ABORT v s = Some q"
    and "\<And>w. fst (swd_exchange W (make_packet_request False ADIV5_DP_ABORT) w) = SWDP_ACK_WAIT"
  shows False
  apply (rule firmware_swdp_low_access.raw_induct [OF _ assms(1),
      where P = "\<lambda>W' RnW addr v s q. \<not> (W' = W \<and> \<not> RnW \<and> addr = ADIV5_DP_ABORT)", THEN notE])
  subgoal premises prems for f W' RnW addr v s q
    using prems(2)
    by (auto simp: bind_eq_Some_conv andthen_Some_iff Let_def case_prod_unfold split: if_splits
        dest: prems(1) dest!: request_loop_always_waits [OF _ assms(2)])
  by simp

text \<open>
  A defect: if the target answers \<open>WAIT\<close> to the write of \<open>ABORT\<close> too, the access never returns:
  when the timeout is over, \<open>dp->abort\<close> calls the access function again, which calls \<open>dp->abort\<close>.
\<close>

theorem swdp_abort_recursion:
  assumes "\<And>w. fst (swd_exchange W (make_packet_request False ADIV5_DP_ABORT) w) = SWDP_ACK_WAIT"
  shows "firmware_swdp_abort W a s = None"
  using abort_never_returns [OF _ assms] by (cases "firmware_swdp_abort W a s") (auto simp: firmware_swdp_abort_def)

subsection \<open>The fault flag during a scan\<close>

lemma low_write_fault: "dp_fault (snd (firmware_dp_low_write W a d s)) = dp_fault s"
  by (simp add: firmware_dp_low_write_def seq_out_def case_prod_unfold Let_def)

lemma line_reset_fault: "dp_fault (dp_line_reset W s) = dp_fault s"
  by (simp add: dp_line_reset_def seq_out_def)

lemma idcode_with_fault:
  assumes "dp_fault s"
  shows "try_idcode W s = None \<or> (\<exists>s'. try_idcode W s = Some (Inr None, s') \<and> dp_fault s')"
proof -
  have r: "firmware_swdp_read W ADIV5_DP_IDCODE s = firmware_swdp_low_access W True ADIV5_DP_IDCODE 0 s"
    by (simp add: firmware_swdp_read_def)
  show ?thesis
  proof (cases "firmware_swdp_low_access W True ADIV5_DP_IDCODE 0 s")
    case None
    then show ?thesis by (simp add: try_idcode_def r try_catch_def)
  next
    case (Some q)
    obtain x s' where q: "q = (x, s')" by (cases q)
    from low_access_harmless [OF Some] assms q have "dp_fault s'" "\<forall>e. x = Inl e \<longrightarrow> exn_type e = 1"
      by (simp_all add: harmless_def)
    with Some q show ?thesis by (cases x) (simp_all add: try_idcode_def r try_catch_def return_def)
  qed
qed

text \<open>
  A defect: the scan for several ports never clears the fault flag of its own port, so after one
  faulty answer no further port is found: the rest of the loop does not depend on what the allocator and
  the initialisation of a port would do.
\<close>

theorem multidrop_fault_sticks:
  assumes "dp_fault s"
  shows "swdp_multidrop_loop W (firmware_dp_low_write W) P target_id is s =
    swdp_multidrop_loop W (firmware_dp_low_write W) P' target_id is s"
  using assms
proof (induction "is" arbitrary: s)
  case Nil
  then show ?case by simp
next
  case (Cons i "is")
  define s1 where "s1 = snd (firmware_dp_low_write W ADIV5_DP_TARGETSEL (push_bit 28 (word_of_nat i) OR (target_id AND 0x0FFFFFFF))
    (dp_line_reset W s))"
  have "dp_fault s1" using Cons.prems by (simp add: s1_def low_write_fault line_reset_fault)
  from idcode_with_fault [OF this, of W] show ?case
    using Cons.IH by (elim disjE exE conjE) (simp_all add: Let_def return_def flip: s1_def)
qed

subsection \<open>A scripted target\<close>

text \<open>The acknowledgements and the time; reads deliver 7 with the right parity.\<close>

definition script_ops :: "(u32 list \<times> nat) swd_ops" where
  "script_ops = \<lparr>sw_seq_out = (\<lambda>v n w. w), sw_seq_out_parity = (\<lambda>v n w. w),
     sw_seq_in = (\<lambda>n (acks, t). case acks of [] \<Rightarrow> (push_bit 29 1, ([], t + 1)) | a # as \<Rightarrow> (push_bit 29 a, (as, t + 1))),
     sw_seq_in_parity = (\<lambda>n w. ((False, 7), w)), sw_time = (\<lambda>(acks, t). (word_of_nat t, (acks, t)))\<rparr>"

definition script_dp :: "u32 list \<Rightarrow> (u32 list \<times> nat) swdp" where
  "script_dp acks = \<lparr>dp_idcode = 0, dp_targetid = 0, dp_fault = False, dp_world = (acks, 0)\<rparr>"

lemma script_exchange:
  "swd_exchange script_ops req (a # as, t) = (drop_bit 29 (push_bit 29 a), (as, t + 1))"
  "swd_exchange script_ops req ([], t) = (1, ([], t + 1))"
  "platform_timeout_is_expired (sw_time script_ops) lim (as, t) = (word_of_nat t > lim, (as, t))"
  "platform_timeout_set (sw_time script_ops) n (as, t) = (word_of_nat t + n, (as, t))"
  by (simp_all add: swd_exchange_def script_ops_def platform_timeout_is_expired_def platform_timeout_set_def)

theorem swdp_access_outcome_witness:
  "firmware_swdp_low_access script_ops True 0x10C 0 ((script_dp [])\<lparr>dp_fault := True\<rparr>) = Some (Inr 0, (script_dp [])\<lparr>dp_fault := True\<rparr>)"
  using swdp_access_outcome [of script_ops True "0x10C" 0 "(script_dp [])\<lparr>dp_fault := True\<rparr>"]
  by (simp add: script_dp_def)

theorem swdp_access_retries_witness:
  "firmware_swdp_low_access script_ops True 0x0 0 (script_dp [2, 1]) = Some (Inr 7, (script_dp [])\<lparr>dp_world := ([], 2)\<rparr>)"
proof -
  let ?req = "make_packet_request True 0x0"
  have w: "waits script_ops ?req 20 1 ([2, 1], 0) ([1], 1)"
    unfolding One_nat_def
    by (rule waits_Suc [of _ _ _ "([1], 1)" _ "([1], 1)"]) (simp_all add: script_exchange waits_0)
  have t: "platform_timeout_set (sw_time script_ops) 20 (dp_world (script_dp [2, 1])) = (20, ([2, 1], 0))"
    by (simp add: script_dp_def script_exchange)
  have x: "swd_exchange script_ops ?req ([1], 1) = (1, ([], 2))" by (simp add: script_exchange)
  have "sw_seq_in_parity script_ops 32 ([], 2) = ((False, 7), ([], 2))" by (simp add: script_ops_def)
  with swdp_access_retries [OF t _ w x, of 0] show ?thesis by (simp add: script_dp_def)
qed

text \<open>A target that always answers \<open>ack\<close>, one millisecond for each exchange.\<close>

definition const_ops :: "u32 \<Rightarrow> nat swd_ops" where
  "const_ops ack = \<lparr>sw_seq_out = (\<lambda>v n w. w), sw_seq_out_parity = (\<lambda>v n w. w), sw_seq_in = (\<lambda>n w. (push_bit 29 ack, w + 1)),
     sw_seq_in_parity = (\<lambda>n w. ((False, 7), w)), sw_time = (\<lambda>w. (word_of_nat w, w))\<rparr>"

lemma const_exchange: "swd_exchange (const_ops ack) req w = (drop_bit 29 (push_bit 29 ack), w + 1)"
  by (simp add: swd_exchange_def const_ops_def)

definition const_dp :: "nat swdp" where
  "const_dp = \<lparr>dp_idcode = 0, dp_targetid = 0, dp_fault = False, dp_world = 0\<rparr>"

theorem swdp_access_returns_witness:
  "\<exists>q. firmware_swdp_low_access (const_ops 1) True 0x10C 0 const_dp = Some q"
  by (rule swdp_access_returns [where T = "\<lambda>w. w" and d = 1]) (simp_all add: const_exchange, simp_all add: const_ops_def const_dp_def)

theorem swdp_abort_recursion_witness:
  "firmware_swdp_abort (const_ops 2) 1 const_dp = None"
  by (rule swdp_abort_recursion) (simp add: const_exchange)

theorem multidrop_fault_sticks_witness:
  "swdp_multidrop_loop (const_ops 1) (firmware_dp_low_write (const_ops 1))
      \<lparr>sc_free = (\<lambda>w. w), sc_swdptap_init = (\<lambda>w. (False, w)), sc_alloc = (\<lambda>w. (True, w)), sc_init = (\<lambda>s. None), sc_found = (\<lambda>w. True)\<rparr> 0 [1] (const_dp\<lparr>dp_fault := True\<rparr>) =
    swdp_multidrop_loop (const_ops 1) (firmware_dp_low_write (const_ops 1))
      \<lparr>sc_free = (\<lambda>w. w), sc_swdptap_init = (\<lambda>w. (False, w)), sc_alloc = (\<lambda>w. (False, w)), sc_init = (\<lambda>s. None), sc_found = (\<lambda>w. True)\<rparr> 0 [1] (const_dp\<lparr>dp_fault := True\<rparr>)"
  by (rule multidrop_fault_sticks) simp

end
