(* ===== verification/Jtag_Scan.thy ===== *)
theory Jtag_Scan
  imports Tap_Generic
begin

text \<open>
  \<open>src/src/target/jtag_scan.c\<close> and \<open>jtag_dev.h\<close>: the devices of a scan chain, the scan that finds
  them, and the access to the registers of one of them. The functions of the probe are the record
  \<open>jtag_ops\<close>; a sequence that would read beyond a byte array has no result.
\<close>

subsection \<open>Devices\<close>

text \<open>\<open>jd_dev\<close> is also \<open>dr_prescan\<close>: they share a union.\<close>

record jtag_dev =
  jd_dev :: u8
  dr_postscan :: u8
  ir_len :: u8
  ir_prescan :: u8
  ir_postscan :: u8
  jd_idcode :: u32
  jd_descr :: "string option"
  current_ir :: u32

record 'w jtag_proc =
  jtag_devs :: "jtag_dev list"
  jtag_dev_count :: nat
  jp_world :: 'w

record 'w jtag_ops =
  jt_tms_seq :: "u32 \<Rightarrow> nat \<Rightarrow> 'w \<Rightarrow> 'w"
  jt_tdi_tdo_seq :: "u8 list \<Rightarrow> bool \<Rightarrow> u8 list \<Rightarrow> nat \<Rightarrow> 'w \<Rightarrow> (u8 list \<times> 'w) option"
  jt_tdi_seq :: "bool \<Rightarrow> u8 list \<Rightarrow> nat \<Rightarrow> 'w \<Rightarrow> 'w option"
  jt_next :: "'w jtag_next"
  jt_init :: "'w \<Rightarrow> 'w"
  jt_reset :: "'w \<Rightarrow> 'w"

text \<open>\<open>JTAG_MAX_DEVS\<close>; the array of the devices has one more. The sequence macros of \<open>jtagtap.h\<close>.\<close>

definition JTAG_MAX_DEVS :: nat where "JTAG_MAX_DEVS = 32"

definition jtagtap_shift_ir :: "'w jtag_ops \<Rightarrow> 'w \<Rightarrow> 'w" where "jtagtap_shift_ir J = jt_tms_seq J 0x03 4"
definition jtagtap_shift_dr :: "'w jtag_ops \<Rightarrow> 'w \<Rightarrow> 'w" where "jtagtap_shift_dr J = jt_tms_seq J 0x01 3"
definition jtagtap_return_idle :: "'w jtag_ops \<Rightarrow> 'w \<Rightarrow> 'w" where "jtagtap_return_idle J = jt_tms_seq J 0x01 2"
definition jtagtap_soft_reset :: "'w jtag_ops \<Rightarrow> 'w \<Rightarrow> 'w" where "jtagtap_soft_reset J = jt_tms_seq J 0x1F 6"

definition ones :: "u8 list" where "ones = [0xFF, 0xFF, 0xFF, 0xFF]"

fun u32_bytes :: "nat \<Rightarrow> u32 \<Rightarrow> u8 list" where
  "u32_bytes 0 v = []"
| "u32_bytes (Suc n) v = ucast v # u32_bytes n (drop_bit 8 v)"

subsection \<open>Access to one device\<close>

definition jtag_dev_write_ir :: "'w jtag_ops \<Rightarrow> nat \<Rightarrow> u32 \<Rightarrow> 'w jtag_proc \<Rightarrow> 'w jtag_proc option" where
  "jtag_dev_write_ir J jd_index ir s =
     (if \<not> jd_index < length (jtag_devs s) then None
      else let d = jtag_devs s ! jd_index in
        if ir = current_ir d then Some s
        else do {
          let devs = map (\<lambda>(i, d). if i < jtag_dev_count s then d\<lparr>current_ir := -1\<rparr> else d) (enumerate 0 (jtag_devs s));
          let devs = devs[jd_index := (devs ! jd_index)\<lparr>current_ir := ir\<rparr>];
          let w = jtagtap_shift_ir J (jp_world s);
          w \<leftarrow> jt_tdi_seq J False ones (unat (ir_prescan d)) w;
          w \<leftarrow> jt_tdi_seq J (ir_postscan d = 0) (u32_bytes 4 ir) (unat (ir_len d)) w;
          w \<leftarrow> jt_tdi_seq J True ones (unat (ir_postscan d)) w;
          Some (s\<lparr>jtag_devs := devs, jp_world := jtagtap_return_idle J w\<rparr>) })"

text \<open>\<open>dout\<close> is the buffer for the answer, if there is one.\<close>

definition jtag_dev_shift_dr ::
  "'w jtag_ops \<Rightarrow> nat \<Rightarrow> u8 list option \<Rightarrow> u8 list \<Rightarrow> nat \<Rightarrow> 'w jtag_proc \<Rightarrow> (u8 list \<times> 'w jtag_proc) option" where
  "jtag_dev_shift_dr J jd_index dout din ticks s =
     (if \<not> jd_index < length (jtag_devs s) then None
      else let d = jtag_devs s ! jd_index in do {
        let w = jtagtap_shift_dr J (jp_world s);
        w \<leftarrow> jt_tdi_seq J False ones (unat (jd_dev d)) w;
        (dout, w) \<leftarrow> (case dout of
             Some buf \<Rightarrow> jt_tdi_tdo_seq J buf (dr_postscan d = 0) din ticks w
           | None \<Rightarrow> do { w \<leftarrow> jt_tdi_seq J (dr_postscan d = 0) din ticks w; Some ([], w) });
        w \<leftarrow> jt_tdi_seq J True ones (unat (dr_postscan d)) w;
        Some (dout, s\<lparr>jp_world := jtagtap_return_idle J w\<rparr>) })"

subsection \<open>The scan\<close>

definition AP_DESIGNER_ARM :: nat where "AP_DESIGNER_ARM = 0x43B"
definition AP_DESIGNER_STM :: nat where "AP_DESIGNER_STM = 0x020"
definition AP_DESIGNER_ATMEL :: nat where "AP_DESIGNER_ATMEL = 0x01F"
definition DESIGNER_XILINX :: nat where "DESIGNER_XILINX = 0x049"
definition DESIGNER_XAMBALA :: nat where "DESIGNER_XAMBALA = 0x61E"
definition AP_DESIGNER_GIGADEVICE :: nat where "AP_DESIGNER_GIGADEVICE = 0x751"

text \<open>The description (\<open>None\<close>: left as it is), the length of the instruction register if it is known,
  and whether the device has a handler. \<open>None\<close>: the scan stops (a Xilinx device without lengths).\<close>

definition identify :: "bool \<Rightarrow> nat \<Rightarrow> nat \<Rightarrow> (string option \<times> nat \<times> bool) option" where
  "identify have_irlens designer product =
     (if designer = AP_DESIGNER_ARM then
        (if product = 0xBA0 then Some (Some ''ADIv5 JTAG-DP port'', 4, True) else Some (Some ''ARM'', 0, False))
      else if designer = AP_DESIGNER_STM then Some (Some ''STM32 BSD'', 5, False)
      else if designer = AP_DESIGNER_ATMEL then
        (if 0x940 \<le> product \<and> product < 0x990 then Some (Some ''ATMEL AVR8'', 4, False) else Some (Some ''ATMEL'', 0, False))
      else if designer = DESIGNER_XILINX then (if have_irlens then Some (Some ''XILINX'', 0, False) else None)
      else if designer = DESIGNER_XAMBALA then Some (Some ''RVDBG013'', 5, False)
      else if designer = AP_DESIGNER_GIGADEVICE then Some (Some ''GIGADEVICE BSD'', 5, False)
      else Some (None, 0, False))"

text \<open>The length up to the next 1 in what the instruction registers captured.\<close>

function guess_irlen :: "u8 list \<Rightarrow> nat \<Rightarrow> nat \<Rightarrow> nat option" where
  "guess_irlen ir_chain advance guessed =
     (if advance div 8 < length ir_chain then
        let b = bit (ir_chain ! (advance div 8)) (advance mod 8)
        in if \<not> b \<and> advance + 1 < JTAG_MAX_DEVS * 16 then guess_irlen ir_chain (advance + 1) (guessed + 1)
           else Some (guessed + 1)
      else None)"
  by pat_completeness auto
termination
  by (relation "measure (\<lambda>(c, advance, g). JTAG_MAX_DEVS * 16 - advance)") auto

declare guess_irlen.simps [simp del]

text \<open>The length that is used for a device: what the caller provides, else what the table says, else the
  guess; with the rest of the provided lengths.\<close>

definition choose_irlen :: "u8 list option \<Rightarrow> nat \<Rightarrow> nat \<Rightarrow> (nat \<times> u8 list option) option" where
  "choose_irlen irlens expected guessed =
     (case irlens of
        None \<Rightarrow> Some (if expected = 0 then guessed else expected, None)
      | Some [] \<Rightarrow> None
      | Some (x # xs) \<Rightarrow> Some (if unat x = 0 then guessed else unat x, Some xs))"

text \<open>One device: its 4 identification bytes are read and its record filled in. The result is false when
  the scan has to stop; \<open>irbit\<close> and \<open>j\<close> are the positions in the instruction chain.\<close>

record 'w scan_state =
  ss_irbit :: nat
  ss_j :: nat
  ss_irlens :: "u8 list option"
  ss_handlers :: "bool list"
  ss_proc :: "'w jtag_proc"

definition fill_device :: "nat \<Rightarrow> nat \<Rightarrow> u32 \<Rightarrow> nat \<Rightarrow> nat \<Rightarrow> string option \<Rightarrow> jtag_dev \<Rightarrow> jtag_dev" where
  "fill_device i count idcode irlen j descr d =
     d\<lparr>ir_len := word_of_nat irlen, ir_prescan := word_of_nat j, jd_dev := word_of_nat i, jd_idcode := idcode,
       dr_postscan := word_of_nat (count - i - 1), current_ir := -1,
       jd_descr := (case descr of Some x \<Rightarrow> Some x | None \<Rightarrow> (case jd_descr d of Some x \<Rightarrow> Some x | None \<Rightarrow> Some ''Unknown''))\<rparr>"

definition scan_device :: "'w jtag_ops \<Rightarrow> u8 list \<Rightarrow> nat \<Rightarrow> 'w scan_state \<Rightarrow> (bool \<times> 'w scan_state) option" where
  "scan_device J ir_chain i s =
     do { (id, w) \<leftarrow> jt_tdi_tdo_seq J [0, 0, 0, 0] False ones 32 (jp_world (ss_proc s));
          let s = s\<lparr>ss_proc := (ss_proc s)\<lparr>jp_world := w\<rparr>\<rparr>;
          if length id < 4 then None
          else if \<not> bit (id ! 0) 0 then Some (False, s)
          else
            let idcode = word_of_nat (unat (id ! 0) + 2 ^ 8 * unat (id ! 1) + 2 ^ 16 * unat (id ! 2) + 2 ^ 24 * unat (id ! 3));
                designer = unat (id ! 1 AND 0xF) * 256 + unat (id ! 0) div 2;
                product = unat (id ! 2) + unat (id ! 3 AND 0xF) * 256
            in case identify (ss_irlens s \<noteq> None) designer product of
                 None \<Rightarrow> Some (False, s)
               | Some (descr, expected, handler) \<Rightarrow>
                   do { guessed \<leftarrow> guess_irlen ir_chain (ss_irbit s) 0;
                        (irlen, irlens) \<leftarrow> choose_irlen (ss_irlens s) expected guessed;
                        let p = ss_proc s;
                        if i < length (jtag_devs p)
                        then Some (True, s\<lparr>ss_irbit := ss_irbit s + irlen, ss_j := ss_j s + irlen, ss_irlens := irlens,
                               ss_handlers := ss_handlers s @ [handler],
                               ss_proc := p\<lparr>jtag_devs := (jtag_devs p)[i := fill_device i (jtag_dev_count p) idcode irlen (ss_j s)
                                 descr (jtag_devs p ! i)]\<rparr>\<rparr>)
                        else None } }"

fun scan_devices :: "'w jtag_ops \<Rightarrow> u8 list \<Rightarrow> nat list \<Rightarrow> 'w scan_state \<Rightarrow> (bool \<times> 'w scan_state) option" where
  "scan_devices J ir_chain [] s = Some (True, s)"
| "scan_devices J ir_chain (i # is) s =
     do { (ok, s) \<leftarrow> scan_device J ir_chain i s;
          if ok then scan_devices J ir_chain is s else Some (False, s) }"

text \<open>16 times 32 bits out of the instruction chain, the last bit leaving the shift state.\<close>

fun read_ir_chain :: "'w jtag_ops \<Rightarrow> nat \<Rightarrow> 'w \<Rightarrow> (u8 list \<times> 'w) option" where
  "read_ir_chain J 0 w = Some ([], w)"
| "read_ir_chain J (Suc i) w =
     do { (bs, w) \<leftarrow> jt_tdi_tdo_seq J [0, 0, 0, 0] (i = 0) ones 32 w;
          (rest, w) \<leftarrow> read_ir_chain J i w;
          Some (bs @ rest, w) }"

fun shift_zeros :: "'w jtag_ops \<Rightarrow> nat \<Rightarrow> 'w \<Rightarrow> 'w option" where
  "shift_zeros J 0 w = Some w"
| "shift_zeros J (Suc i) w = do { w \<leftarrow> jt_tdi_seq J False [0, 0, 0, 0] 32 w; shift_zeros J i w }"

text \<open>Counting the zeros before the first 1 that comes through the data chain. The counter of the loops
  before stands at -1, so that \<open>i++ < 6\<close> lets 7 zeros pass.\<close>

function count_devices :: "'w jtag_ops \<Rightarrow> int \<Rightarrow> nat \<Rightarrow> 'w \<Rightarrow> nat \<times> 'w" where
  "count_devices J i n w =
     (let (b, w) = jt_next J False True w
      in if \<not> b \<and> i < 6 then count_devices J (i + 1) (n + 1) w else (n, w))"
  by pat_completeness auto
termination
  by (relation "measure (\<lambda>(J, i, n, w). nat (6 - i))") auto

declare count_devices.simps [simp del]

text \<open>The bits of the devices behind each device, from the last one back.\<close>

fun fill_postscan :: "nat \<Rightarrow> jtag_dev list \<Rightarrow> jtag_dev list" where
  "fill_postscan 0 devs = devs"
| "fill_postscan (Suc i) devs =
     fill_postscan i (devs[i := (devs ! i)\<lparr>ir_postscan := ir_postscan (devs ! Suc i) + ir_len (devs ! Suc i)\<rparr>])"

fun run_handlers :: "(nat \<Rightarrow> 'w jtag_proc \<Rightarrow> 'w jtag_proc option) \<Rightarrow> nat \<Rightarrow> bool list \<Rightarrow> 'w jtag_proc \<Rightarrow> 'w jtag_proc option" where
  "run_handlers handler i [] p = Some p"
| "run_handlers handler i (h # hs) p =
     do { p \<leftarrow> (if h then handler i p else Some p); run_handlers handler (i + 1) hs p }"

text \<open>The part of the scan that follows the count.\<close>

definition scan_counted ::
  "'w jtag_ops \<Rightarrow> (nat \<Rightarrow> 'w jtag_proc \<Rightarrow> 'w jtag_proc option) \<Rightarrow> u8 list option \<Rightarrow> u8 list \<Rightarrow> 'w jtag_proc \<Rightarrow> (nat \<times> 'w jtag_proc) option" where
  "scan_counted J handler irlens ir_chain p =
     (let num_devices = jtag_dev_count p
      in if num_devices = 0 then Some (0, p)
         else do {
           (ok, s) \<leftarrow> scan_devices J ir_chain [0..<num_devices]
              \<lparr>ss_irbit = 1, ss_j = 0, ss_irlens = irlens, ss_handlers = [], ss_proc = p\<rparr>;
           let p = ss_proc s;
           if \<not> ok then Some (0, p)
           else do {
             let p = p\<lparr>jtag_devs := fill_postscan (num_devices - 1) (jtag_devs p), jp_world := jt_reset J (jp_world p)\<rparr>;
             p \<leftarrow> run_handlers handler 0 (ss_handlers s) p;
             Some (jtag_dev_count p, p) } })"

definition jtag_scan ::
  "'w jtag_ops \<Rightarrow> ('w \<Rightarrow> 'w) \<Rightarrow> (nat \<Rightarrow> 'w jtag_proc \<Rightarrow> 'w jtag_proc option) \<Rightarrow> u8 list option \<Rightarrow> 'w jtag_proc \<Rightarrow> (nat \<times> 'w jtag_proc) option" where
  "jtag_scan J target_list_free handler irlens p =
     do { let w = jtagtap_shift_ir J (jt_reset J (jt_init J (target_list_free (jp_world p))));
          (ir_chain, w) \<leftarrow> read_ir_chain J 16 w;
          if ir_chain = [] then None
          else if \<not> bit (ir_chain ! 0) 0 then Some (0, p\<lparr>jp_world := w\<rparr>)
          else do {
            w \<leftarrow> shift_zeros J 16 (jtagtap_shift_dr J (jtagtap_return_idle J w));
            let (num_devices, w) = count_devices J (-1) 0 w;
            scan_counted J handler irlens ir_chain
              (p\<lparr>jtag_dev_count := num_devices, jp_world := jtagtap_shift_dr J (jt_reset J w)\<rparr>) } }"

subsection \<open>What the scan leaves\<close>

lemma count_devices_bound: "i \<le> 6 \<Longrightarrow> fst (count_devices J i n w) \<le> n + nat (6 - i)"
proof (induction J i n w rule: count_devices.induct)
  case (1 J i n w)
  show ?case
  proof (cases "jt_next J False True w")
    case (Pair b w1)
    show ?thesis
    proof (cases "\<not> b \<and> i < 6")
      case True
      from 1(1) [OF Pair [symmetric] refl True] True have "fst (count_devices J (i + 1) (n + 1) w1) \<le> n + nat (6 - i)"
        by simp linarith
      with True Pair show ?thesis by (subst count_devices.simps) simp
    next
      case False
      with Pair show ?thesis by (subst count_devices.simps) auto
    qed
  qed
qed

lemma scan_device_keeps:
  assumes "scan_device J chain i s = Some (True, s')"
  obtains L idc d where "jtag_devs (ss_proc s') = (jtag_devs (ss_proc s))[i := fill_device i (jtag_dev_count (ss_proc s)) idc L (ss_j s) d (jtag_devs (ss_proc s) ! i)]"
    "ss_j s' = ss_j s + L" "jtag_dev_count (ss_proc s') = jtag_dev_count (ss_proc s)" "i < length (jtag_devs (ss_proc s))"
  using assms by (auto simp: scan_device_def bind_eq_Some_conv Let_def split: if_splits option.splits)

lemma fill_device_simps [simp]:
  "ir_len (fill_device i n idc L j descr d) = word_of_nat L" "ir_prescan (fill_device i n idc L j descr d) = word_of_nat j"
  "jd_dev (fill_device i n idc L j descr d) = word_of_nat i" "dr_postscan (fill_device i n idc L j descr d) = word_of_nat (n - i - 1)"
  "current_ir (fill_device i n idc L j descr d) = -1" "ir_postscan (fill_device i n idc L j descr d) = ir_postscan d"
  by (simp_all add: fill_device_def)

definition pre_layout :: "nat \<Rightarrow> nat \<Rightarrow> jtag_dev list \<Rightarrow> bool" where
  "pre_layout n m devs \<longleftrightarrow> m \<le> length devs \<and> (\<forall>i < m. jd_dev (devs ! i) = word_of_nat i \<and>
     dr_postscan (devs ! i) = word_of_nat (n - i - 1) \<and> ir_prescan (devs ! i) = sum_list (map ir_len (take i devs)))"

lemma pre_layout_Suc:
  assumes "pre_layout n m devs" "m < length devs" "word_of_nat j = sum_list (map ir_len (take m devs))"
  shows "pre_layout n (Suc m) (devs[m := fill_device m n idc L j d x])"
    "word_of_nat (j + L) = sum_list (map ir_len (take (Suc m) (devs[m := fill_device m n idc L j d x])))"
proof -
  have t: "take i (devs[m := y]) = take i devs" if "i \<le> m" for i y using that by simp
  show "pre_layout n (Suc m) (devs[m := fill_device m n idc L j d x])"
    using assms by (auto simp: pre_layout_def less_Suc_eq t)
  show "word_of_nat (j + L) = sum_list (map ir_len (take (Suc m) (devs[m := fill_device m n idc L j d x])))"
    using assms(2,3) by (simp add: take_Suc_conv_app_nth t)
qed

lemma scan_devices_layout:
  "scan_devices J chain [m..<n] s = Some (True, s') \<Longrightarrow> m \<le> n \<Longrightarrow> jtag_dev_count (ss_proc s) = n \<Longrightarrow>
     pre_layout n m (jtag_devs (ss_proc s)) \<Longrightarrow> word_of_nat (ss_j s) = sum_list (map ir_len (take m (jtag_devs (ss_proc s)))) \<Longrightarrow>
   pre_layout n n (jtag_devs (ss_proc s')) \<and> jtag_dev_count (ss_proc s') = n \<and>
     length (jtag_devs (ss_proc s')) = length (jtag_devs (ss_proc s)) \<and>
     (\<forall>i. ir_postscan (jtag_devs (ss_proc s') ! i) = ir_postscan (jtag_devs (ss_proc s) ! i))"
proof (induction "n - m" arbitrary: m s)
  case 0
  then show ?case by simp
next
  case (Suc k)
  then have u: "[m..<n] = m # [Suc m..<n]" by (simp add: upt_conv_Cons)
  from Suc.prems(1) obtain s1 where s1: "scan_device J chain m s = Some (True, s1)"
    and rest: "scan_devices J chain [Suc m..<n] s1 = Some (True, s')"
    unfolding u by (auto simp: bind_eq_Some_conv split: if_splits)
  from scan_device_keeps [OF s1] obtain L idc d where
    c: "jtag_devs (ss_proc s1) = (jtag_devs (ss_proc s))[m := fill_device m n idc L (ss_j s) d (jtag_devs (ss_proc s) ! m)]"
    "ss_j s1 = ss_j s + L" "jtag_dev_count (ss_proc s1) = n" "m < length (jtag_devs (ss_proc s))" using Suc.prems(3) by metis
  note l = pre_layout_Suc [OF Suc.prems(4) c(4) Suc.prems(5)]
  have "pre_layout n n (jtag_devs (ss_proc s')) \<and> jtag_dev_count (ss_proc s') = n \<and>
     length (jtag_devs (ss_proc s')) = length (jtag_devs (ss_proc s1)) \<and>
     (\<forall>i. ir_postscan (jtag_devs (ss_proc s') ! i) = ir_postscan (jtag_devs (ss_proc s1) ! i))"
  proof (rule Suc.hyps(1) [OF _ rest])
    show "k = n - Suc m" "Suc m \<le> n" "jtag_dev_count (ss_proc s1) = n" using Suc.hyps(2) Suc.prems(2) c(3) by simp_all
    show "pre_layout n (Suc m) (jtag_devs (ss_proc s1))" unfolding c(1) by (rule l(1))
    show "word_of_nat (ss_j s1) = sum_list (map ir_len (take (Suc m) (jtag_devs (ss_proc s1))))" unfolding c(1,2) by (rule l(2))
  qed
  moreover have "ir_postscan (jtag_devs (ss_proc s1) ! i) = ir_postscan (jtag_devs (ss_proc s) ! i)" for i
    unfolding c(1) using c(4) by (cases "i = m") simp_all
  ultimately show ?case by (simp add: c(1))
qed

lemma fill_postscan_props:
  "m < length devs \<Longrightarrow> length (fill_postscan m devs) = length devs \<and>
     (\<forall>i. ir_len (fill_postscan m devs ! i) = ir_len (devs ! i) \<and> ir_prescan (fill_postscan m devs ! i) = ir_prescan (devs ! i) \<and>
        jd_dev (fill_postscan m devs ! i) = jd_dev (devs ! i) \<and> dr_postscan (fill_postscan m devs ! i) = dr_postscan (devs ! i)) \<and>
     (\<forall>i. m \<le> i \<longrightarrow> fill_postscan m devs ! i = devs ! i) \<and>
     (\<forall>i \<le> m. ir_postscan (fill_postscan m devs ! i) = (\<Sum>k = i + 1..m. ir_len (devs ! k)) + ir_postscan (devs ! m))"
proof (induction m arbitrary: devs)
  case 0
  then show ?case by simp
next
  case (Suc m)
  let ?d = "devs[m := (devs ! m)\<lparr>ir_postscan := ir_postscan (devs ! Suc m) + ir_len (devs ! Suc m)\<rparr>]"
  have n: "ir_len (?d ! i) = ir_len (devs ! i)" "ir_prescan (?d ! i) = ir_prescan (devs ! i)"
      "jd_dev (?d ! i) = jd_dev (devs ! i)" "dr_postscan (?d ! i) = dr_postscan (devs ! i)" for i
    using Suc.prems by (cases "i = m"; simp)+
  have "m < length ?d" using Suc.prems by simp
  note IH = Suc.IH [OF this]
  have "ir_postscan (fill_postscan (Suc m) devs ! i) = (\<Sum>k = i + 1..Suc m. ir_len (devs ! k)) + ir_postscan (devs ! Suc m)"
    if "i \<le> Suc m" for i
  proof (cases "i = Suc m")
    case True
    with IH show ?thesis by simp
  next
    case False
    with that have i: "i \<le> m" by simp
    with IH have "ir_postscan (fill_postscan m ?d ! i) = (\<Sum>k = i + 1..m. ir_len (devs ! k)) + ir_postscan (?d ! m)" by (simp add: n)
    then show ?thesis using i Suc.prems by (simp add: algebra_simps)
  qed
  with IH show ?case by (auto simp: n)
qed

text \<open>What a handler may change of a device is the instruction it holds.\<close>

definition geometry :: "jtag_dev \<Rightarrow> jtag_dev" where
  "geometry d = d\<lparr>current_ir := 0\<rparr>"

definition keeps_geometry :: "(nat \<Rightarrow> 'w jtag_proc \<Rightarrow> 'w jtag_proc option) \<Rightarrow> bool" where
  "keeps_geometry handler \<longleftrightarrow> (\<forall>i p p'. handler i p = Some p' \<longrightarrow>
     map geometry (jtag_devs p') = map geometry (jtag_devs p) \<and> jtag_dev_count p' = jtag_dev_count p)"

lemma geometry_eq: "geometry d = geometry e \<Longrightarrow>
    jd_dev d = jd_dev e \<and> dr_postscan d = dr_postscan e \<and> ir_prescan d = ir_prescan e \<and> ir_postscan d = ir_postscan e \<and> ir_len d = ir_len e"
  by (cases d; cases e) (simp add: geometry_def)

lemma geometry_nth: "map geometry xs = map geometry ys \<Longrightarrow> i < length ys \<Longrightarrow> geometry (xs ! i) = geometry (ys ! i)"
  using map_eq_imp_length_eq [of geometry xs geometry ys] by (metis nth_map)

lemma run_handlers_geometry:
  "keeps_geometry handler \<Longrightarrow> run_handlers handler i hs p = Some p' \<Longrightarrow>
     map geometry (jtag_devs p') = map geometry (jtag_devs p) \<and> jtag_dev_count p' = jtag_dev_count p"
proof (induction hs arbitrary: i p)
  case Nil
  then show ?case by simp
next
  case (Cons h hs)
  from Cons.prems(2) obtain q where q: "(if h then handler i p else Some p) = Some q" "run_handlers handler (i + 1) hs q = Some p'"
    by (auto simp: bind_eq_Some_conv)
  have "map geometry (jtag_devs q) = map geometry (jtag_devs p) \<and> jtag_dev_count q = jtag_dev_count p"
    using q(1) Cons.prems(1) by (auto simp: keeps_geometry_def split: if_splits)
  with Cons.IH [OF Cons.prems(1) q(2)] show ?case by simp
qed

lemma ir_len_geometry: "ir_len (geometry d) = ir_len d"
  by (simp add: geometry_def)

lemma map_ir_len_geometry: "map geometry xs = map geometry ys \<Longrightarrow> map ir_len xs = map ir_len ys"
  by (metis (no_types, lifting) ir_len_geometry comp_apply list.map_comp map_eq_conv)

lemma fill_postscan_map: "m < length devs \<Longrightarrow> map ir_len (fill_postscan m devs) = map ir_len devs"
  using fill_postscan_props [of m devs] by (intro nth_equalityI) auto

text \<open>
  C27. The layout of a scan: the scan finds at most seven devices; device \<open>i\<close> has \<open>i\<close> one-bit bypass
  registers before and the others behind it, its instruction register comes after the sum of the lengths
  of the earlier ones, and before the sum of the lengths of the later ones. Only that last sum has a flaw:
  the scan does not clear what the last device had there from an earlier scan.
\<close>

theorem jtag_scan_layout:
  assumes "jtag_scan J target_list_free handler irlens p = Some (n, p')" and "keeps_geometry handler" and "0 < n" and "i < n"
  shows "n \<le> 7 \<and> jd_dev (jtag_devs p' ! i) = word_of_nat i \<and> dr_postscan (jtag_devs p' ! i) = word_of_nat (n - i - 1) \<and>
    ir_prescan (jtag_devs p' ! i) = sum_list (map ir_len (take i (jtag_devs p'))) \<and>
    ir_postscan (jtag_devs p' ! i) = (\<Sum>k = i + 1..n - 1. ir_len (jtag_devs p' ! k)) + ir_postscan (jtag_devs p ! (n - 1))"
proof -
  from assms(1,3) obtain chain w where
    "scan_counted J handler irlens chain (p\<lparr>jtag_dev_count := fst (count_devices J (-1) 0 w),
       jp_world := jtagtap_shift_dr J (jt_reset J (snd (count_devices J (-1) 0 w)))\<rparr>) = Some (n, p')"
    unfolding jtag_scan_def by (auto simp: bind_eq_Some_conv Let_def case_prod_unfold split: if_splits)
  moreover define m where "m = fst (count_devices J (-1) 0 w)"
  moreover define w3 where "w3 = jtagtap_shift_dr J (jt_reset J (snd (count_devices J (-1) 0 w)))"
  ultimately have sc0: "scan_counted J handler irlens chain (p\<lparr>jtag_dev_count := m, jp_world := w3\<rparr>) = Some (n, p')" by simp
  with assms(3) obtain s q where m: "0 < m" and
    sc: "scan_devices J chain [0..<m] \<lparr>ss_irbit = 1, ss_j = 0, ss_irlens = irlens, ss_handlers = [],
        ss_proc = p\<lparr>jtag_dev_count := m, jp_world := w3\<rparr>\<rparr> = Some (True, s)" and
    h: "run_handlers handler 0 (ss_handlers s)
        ((ss_proc s)\<lparr>jtag_devs := fill_postscan (m - 1) (jtag_devs (ss_proc s)), jp_world := jt_reset J (jp_world (ss_proc s))\<rparr>) = Some q"
    and r: "n = jtag_dev_count q" "p' = q"
    by (auto simp: scan_counted_def bind_eq_Some_conv Let_def split: if_splits)
  let ?d = "fill_postscan (m - 1) (jtag_devs (ss_proc s))"
  from scan_devices_layout [OF sc] have l: "pre_layout m m (jtag_devs (ss_proc s))" "jtag_dev_count (ss_proc s) = m"
      "\<And>i. ir_postscan (jtag_devs (ss_proc s) ! i) = ir_postscan (jtag_devs p ! i)"
    by (simp_all add: pre_layout_def)
  from run_handlers_geometry [OF assms(2) h] l(2) r have g: "map geometry (jtag_devs p') = map geometry ?d" "n = m" by simp_all
  have ml: "m - 1 < length (jtag_devs (ss_proc s))" using l(1) m unfolding pre_layout_def by linarith
  note f = fill_postscan_props [OF ml]
  have il: "i < length ?d" using f assms(4) g(2) l(1) by (simp add: pre_layout_def)
  note gi = geometry_eq [OF geometry_nth [OF g(1) il]]
  have len: "map ir_len (jtag_devs p') = map ir_len (jtag_devs (ss_proc s))"
    using map_ir_len_geometry [OF g(1)] fill_postscan_map [OF ml] by simp
  then have "length (jtag_devs p') = length (jtag_devs (ss_proc s))" by (rule map_eq_imp_length_eq)
  with len have k: "ir_len (jtag_devs (ss_proc s) ! k) = ir_len (jtag_devs p' ! k)" if "k < m" for k
    using that ml by (metis (no_types, lifting) Suc_pred' less_trans_Suc m not_less_eq nth_map order.strict_trans)
  have "m \<le> 7" using count_devices_bound [of "-1" J 0 w] by (simp add: m_def)
  moreover have "jd_dev (?d ! i) = word_of_nat i" "dr_postscan (?d ! i) = word_of_nat (m - i - 1)"
      "ir_prescan (?d ! i) = sum_list (map ir_len (take i (jtag_devs (ss_proc s))))"
    using f l(1) assms(4) g(2) by (simp_all add: pre_layout_def)
  moreover have "ir_postscan (?d ! i) = (\<Sum>k = i + 1..m - 1. ir_len (jtag_devs p' ! k)) + ir_postscan (jtag_devs p ! (m - 1))"
  proof -
    have "ir_len (jtag_devs (ss_proc s) ! k) = ir_len (jtag_devs p' ! k)" if "k \<in> {i + 1..m - 1}" for k
      using that m by (intro k) auto
    then have "(\<Sum>k = i + 1..m - 1. ir_len (jtag_devs (ss_proc s) ! k)) = (\<Sum>k = i + 1..m - 1. ir_len (jtag_devs p' ! k))"
      by (rule sum.cong [OF refl])
    moreover have "i \<le> m - 1" using assms(4) g(2) by simp
    ultimately show ?thesis using f l(3) by metis
  qed
  ultimately show ?thesis using gi g(2) len by (simp flip: take_map)
qed

subsection \<open>The test access port\<close>

text \<open>The state machine of the standard, which every device on the chain runs.\<close>

datatype tap_state =
    Test_Logic_Reset | Run_Test_Idle
  | Select_DR | Capture_DR | Shift_DR | Exit1_DR | Pause_DR | Exit2_DR | Update_DR
  | Select_IR | Capture_IR | Shift_IR | Exit1_IR | Pause_IR | Exit2_IR | Update_IR

fun tap_step :: "tap_state \<Rightarrow> bool \<Rightarrow> tap_state" where
  "tap_step Test_Logic_Reset tms = (if tms then Test_Logic_Reset else Run_Test_Idle)"
| "tap_step Run_Test_Idle tms = (if tms then Select_DR else Run_Test_Idle)"
| "tap_step Select_DR tms = (if tms then Select_IR else Capture_DR)"
| "tap_step Capture_DR tms = (if tms then Exit1_DR else Shift_DR)"
| "tap_step Shift_DR tms = (if tms then Exit1_DR else Shift_DR)"
| "tap_step Exit1_DR tms = (if tms then Update_DR else Pause_DR)"
| "tap_step Pause_DR tms = (if tms then Exit2_DR else Pause_DR)"
| "tap_step Exit2_DR tms = (if tms then Update_DR else Shift_DR)"
| "tap_step Update_DR tms = (if tms then Select_DR else Run_Test_Idle)"
| "tap_step Select_IR tms = (if tms then Test_Logic_Reset else Capture_IR)"
| "tap_step Capture_IR tms = (if tms then Exit1_IR else Shift_IR)"
| "tap_step Shift_IR tms = (if tms then Exit1_IR else Shift_IR)"
| "tap_step Exit1_IR tms = (if tms then Update_IR else Pause_IR)"
| "tap_step Pause_IR tms = (if tms then Exit2_IR else Pause_IR)"
| "tap_step Exit2_IR tms = (if tms then Update_IR else Shift_IR)"
| "tap_step Update_IR tms = (if tms then Select_DR else Run_Test_Idle)"

text \<open>A bus with such a chain: \<open>st\<close> is its state, \<open>log\<close> the bits that went in and out in the two
  shift states.\<close>

abbreviation shifting :: "tap_state \<Rightarrow> bool" where
  "shifting x \<equiv> x = Shift_DR \<or> x = Shift_IR"

definition tap_bus :: "'w jtag_next \<Rightarrow> ('w \<Rightarrow> tap_state) \<Rightarrow> ('w \<Rightarrow> (tap_state \<times> bool \<times> bool) list) \<Rightarrow> bool" where
  "tap_bus N st log \<longleftrightarrow> (\<forall>tms tdi w. st (snd (N tms tdi w)) = tap_step (st w) tms \<and>
     log (snd (N tms tdi w)) = log w @ (if shifting (st w) then [(st w, tdi, fst (N tms tdi w))] else []))"

definition generic_jtag :: "'w jtag_next \<Rightarrow> ('w \<Rightarrow> 'w) \<Rightarrow> ('w \<Rightarrow> 'w) \<Rightarrow> 'w jtag_ops" where
  "generic_jtag N init reset = \<lparr>jt_tms_seq = jtagtap_tms_seq N, jt_tdi_tdo_seq = jtagtap_tdi_tdo_seq N,
     jt_tdi_seq = jtagtap_tdi_seq N, jt_next = N, jt_init = init, jt_reset = reset\<rparr>"

definition byte_bit :: "u8 list \<Rightarrow> nat \<Rightarrow> bool" where
  "byte_bit bs k = bit (bs ! (k div 8)) (k mod 8)"

definition byte_bits :: "u8 list \<Rightarrow> nat \<Rightarrow> nat \<Rightarrow> bool list" where
  "byte_bits bs k n = map (byte_bit bs) [k..<k + n]"

lemma byte_bits_Suc: "byte_bits bs k (Suc n) = byte_bit bs k # byte_bits bs (Suc k) n"
  by (simp add: byte_bits_def upt_conv_Cons del: upt_Suc)

lemma index_byte: "r < 8 \<Longrightarrow> (8 * p + r) div 8 = p" "r < 8 \<Longrightarrow> (8 * p + r) mod 8 = (r :: nat)"
  by simp_all

lemma next_index: "r < 8 \<Longrightarrow> push_bit 1 (push_bit r (1 :: u8)) = 0 \<longleftrightarrow> r = 7"
proof -
  assume "r < 8"
  then have "r = 0 \<or> r = 1 \<or> r = 2 \<or> r = 3 \<or> r = 4 \<or> r = 5 \<or> r = 6 \<or> r = 7" by presburger
  then show ?thesis by (elim disjE) simp_all
qed

lemma next_index_mult: "r < 8 \<Longrightarrow> 2 * 2 ^ r = (0 :: u8) \<longleftrightarrow> r = 7"
  using next_index [of r] by (simp add: mult.commute)

lemma mask_index: "r < 8 \<Longrightarrow> (x :: u8) AND push_bit r 1 \<noteq> 0 \<longleftrightarrow> bit x r"
  using word_and_exp [of x r] by (auto simp: word_and_exp)

lemma tdi_loop_shifts:
  assumes B: "tap_bus N st log"
  shows "shifting (st w) \<Longrightarrow> r < 8 \<Longrightarrow> 0 < n \<Longrightarrow> 8 * p + r + n \<le> 8 * length DI \<Longrightarrow>
    \<exists>w'. tdi_loop N final DI n p (push_bit r 1) w = Some w' \<and> st w' = tap_step (st w) final \<and>
      map (\<lambda>(s, i, _). (s, i)) (log w') = map (\<lambda>(s, i, _). (s, i)) (log w) @ map (Pair (st w)) (byte_bits DI (8 * p + r) n)"
proof (induction n arbitrary: p r w)
  case 0
  then show ?case by simp
next
  case (Suc n)
  have p: "p < length DI" using Suc.prems by simp
  define w1 where "w1 = snd (N (if n \<noteq> 0 then False else final) (bit (DI ! p) r) w)"
  have w1: "st w1 = tap_step (st w) (if n \<noteq> 0 then False else final)"
    "map (\<lambda>(s, i, _). (s, i)) (log w1) = map (\<lambda>(s, i, _). (s, i)) (log w) @ [(st w, bit (DI ! p) r)]"
    using B Suc.prems(1) by (auto simp: tap_bus_def w1_def)
  have bb: "byte_bit DI (8 * p + r) = bit (DI ! p) r" using Suc.prems(2) by (simp add: byte_bit_def index_byte)
  let ?p = "if r = 7 then p + 1 else p" and ?r = "if r = 7 then 0 else r + 1"
  have pos: "8 * ?p + ?r = Suc (8 * p + r)" "?r < 8" using Suc.prems(2) by auto
  have step: "tdi_loop N final DI (Suc n) p (push_bit r 1) w = tdi_loop N final DI n ?p (push_bit ?r 1) w1"
    using p Suc.prems(2) by (simp add: Let_def next_index_mult mask_index [simplified] w1_def mult.commute)
  show ?case
  proof (cases "n = 0")
    case True
    with step w1 show ?thesis by (simp add: byte_bits_Suc bb) (simp add: byte_bits_def)
  next
    case False
    have "shifting (st w1)" "st w1 = st w" using w1(1) False Suc.prems(1) by auto
    from Suc.IH [OF this(1) pos(2), of ?p] pos(1) Suc.prems(4) False this(2) step w1(2) show ?thesis
      by (simp add: byte_bits_Suc bb)
  qed
qed

text \<open>The shifted bits in a state, and the answer that came out meanwhile.\<close>

abbreviation sent :: "(tap_state \<times> bool \<times> bool) list \<Rightarrow> (tap_state \<times> bool) list" where
  "sent l \<equiv> map (\<lambda>(s, i, _). (s, i)) l"

lemma tdi_seq_shifts:
  assumes "tap_bus N st log" "shifting (st w)" "n \<le> 8 * length DI"
  shows "\<exists>w'. jtagtap_tdi_seq N final DI n w = Some w' \<and> st w' = (if n = 0 then st w else tap_step (st w) final) \<and>
    sent (log w') = sent (log w) @ map (Pair (st w)) (byte_bits DI 0 n)"
proof (cases "n = 0")
  case True
  then show ?thesis by (simp add: jtagtap_tdi_seq_def byte_bits_def)
next
  case False
  with tdi_loop_shifts [OF assms(1,2), of 0 n 0 DI final] assms(3) show ?thesis by (simp add: jtagtap_tdi_seq_def)
qed

lemma tap_bus_quiet:
  "tap_bus N st log \<Longrightarrow> \<not> shifting (st w) \<Longrightarrow> st (snd (N tms tdi w)) = tap_step (st w) tms \<and> log (snd (N tms tdi w)) = log w"
  by (simp add: tap_bus_def)

lemma tms_seq_numeral [simp]:
  "jtagtap_tms_seq N MS (numeral k) w = jtagtap_tms_seq N (drop_bit 1 MS) (pred_numeral k) (snd (N (MS AND 1 \<noteq> 0) True w))"
  unfolding numeral_eq_Suc [of k] by simp

lemma tms_shift_ir:
  assumes "tap_bus N st log" "st w = Run_Test_Idle"
  shows "st (jtagtap_tms_seq N 0x03 4 w) = Shift_IR \<and> log (jtagtap_tms_seq N 0x03 4 w) = log w"
  using assms tap_bus_quiet [OF assms(1)] by simp

lemma tms_shift_dr:
  assumes "tap_bus N st log" "st w = Run_Test_Idle"
  shows "st (jtagtap_tms_seq N 0x01 3 w) = Shift_DR \<and> log (jtagtap_tms_seq N 0x01 3 w) = log w"
  using assms tap_bus_quiet [OF assms(1)] by simp

lemma tms_return_idle:
  assumes "tap_bus N st log" "st w = Exit1_DR \<or> st w = Exit1_IR"
  shows "st (jtagtap_tms_seq N 0x01 2 w) = Run_Test_Idle \<and> log (jtagtap_tms_seq N 0x01 2 w) = log w"
  using assms tap_bus_quiet [OF assms(1)] by auto

lemma byte_bits_ones: "n \<le> 32 \<Longrightarrow> byte_bits ones 0 n = replicate n True"
proof -
  have o: "byte_bit ones k" if "k < 32" for k
  proof -
    have "k div 8 < 4" "k mod 8 < 8" using that by simp_all
    have "m < 4 \<Longrightarrow> m = 0 \<or> m = 1 \<or> m = 2 \<or> m = 3" for m :: nat by presburger
    from this [OF \<open>k div 8 < 4\<close>] have "ones ! (k div 8) = 0xFF"
      by (elim disjE) (simp_all only: ones_def, simp_all)
    moreover have "bit (0xFF :: u8) i" if "i < 8" for i
    proof -
      have "(0xFF :: u8) = mask 8" by (simp add: mask_numeral)
      then show ?thesis using that by (simp only: bit_mask_iff) simp
    qed
    ultimately show ?thesis using \<open>k mod 8 < 8\<close> by (simp add: byte_bit_def)
  qed
  show "n \<le> 32 \<Longrightarrow> byte_bits ones 0 n = replicate n True"
    unfolding byte_bits_def by (rule nth_equalityI) (simp_all add: o)
qed

lemma u32_bytes_4: "u32_bytes 4 v = [ucast v, ucast (drop_bit 8 v), ucast (drop_bit 16 v), ucast (drop_bit 24 v)]"
proof -
  have "u32_bytes (Suc (Suc (Suc (Suc 0)))) v = [ucast v, ucast (drop_bit 8 v), ucast (drop_bit 16 v), ucast (drop_bit 24 v)]" by simp
  then show ?thesis by (simp only: numeral_nat)
qed

lemma bit_u32_bytes:
  assumes "q < 4" "r < 8"
  shows "bit (u32_bytes 4 v ! q) r = bit v (8 * q + r)"
proof -
  have "q = 0 \<or> q = 1 \<or> q = 2 \<or> q = 3" using assms(1) by presburger
  then show ?thesis using assms(2) by (elim disjE) (simp_all add: u32_bytes_4 bit_ucast_iff bit_drop_bit_eq)
qed

lemma byte_bits_u32: "n \<le> 32 \<Longrightarrow> byte_bits (u32_bytes 4 v) 0 n = word_bits v n"
proof -
  have b: "byte_bit (u32_bytes 4 v) k = bit v k" if "k < 32" for k
    using bit_u32_bytes [of "k div 8" "k mod 8" v] that by (simp add: byte_bit_def)
  show "n \<le> 32 \<Longrightarrow> byte_bits (u32_bytes 4 v) 0 n = word_bits v n"
    unfolding byte_bits_def word_bits_def by (rule nth_equalityI) (simp_all add: b)
qed

lemma generic_jtag_simps [simp]:
  "jt_tms_seq (generic_jtag N i r) = jtagtap_tms_seq N" "jt_tdi_tdo_seq (generic_jtag N i r) = jtagtap_tdi_tdo_seq N"
  "jt_tdi_seq (generic_jtag N i r) = jtagtap_tdi_seq N" "jt_next (generic_jtag N i r) = N"
  by (simp_all add: generic_jtag_def)

lemma length_u32_bytes [simp]: "length (u32_bytes n v) = n"
  by (induction n arbitrary: v) simp_all

lemma length_ones: "length ones = 4"
  by (simp add: ones_def)

text \<open>A shift of three pieces, the last bit of which leaves the shift state: what both accesses do.\<close>

lemma three_pieces:
  assumes B: "tap_bus N st log" and s: "shifting (st w)" and l: "a \<le> 32" "0 < b" "b \<le> 8 * length DI" "c \<le> 32"
  shows "\<exists>w1 w2 w3. jtagtap_tdi_seq N False ones a w = Some w1 \<and> jtagtap_tdi_seq N (c = 0) DI b w1 = Some w2 \<and>
    jtagtap_tdi_seq N True ones c w2 = Some w3 \<and> st w1 = st w \<and> st w3 = tap_step (st w) True \<and>
    sent (log w3) = sent (log w) @ map (Pair (st w)) (replicate a True @ byte_bits DI 0 b @ replicate c True)"
proof -
  have sh: "tap_step (st w) False = st w" using s by auto
  from tdi_seq_shifts [OF B s, of a ones False] l(1) sh obtain w1 where w1: "jtagtap_tdi_seq N False ones a w = Some w1"
    "st w1 = st w" "sent (log w1) = sent (log w) @ map (Pair (st w)) (replicate a True)"
    by (auto simp: length_ones byte_bits_ones split: if_splits)
  have s1: "shifting (st w1)" using s w1(2) by simp
  from tdi_seq_shifts [OF B s1 l(3), of "c = 0"] l(2) w1(2) obtain w2 where w2: "jtagtap_tdi_seq N (c = 0) DI b w1 = Some w2"
    "st w2 = tap_step (st w) (c = 0)" "sent (log w2) = sent (log w1) @ map (Pair (st w)) (byte_bits DI 0 b)" by auto
  have "\<exists>w3. jtagtap_tdi_seq N True ones c w2 = Some w3 \<and> st w3 = tap_step (st w) True \<and>
      sent (log w3) = sent (log w2) @ map (Pair (st w)) (replicate c True)"
  proof (cases "c = 0")
    case True
    with w2(2) show ?thesis by (simp add: jtagtap_tdi_seq_def)
  next
    case False
    with w2(2) sh have s2: "st w2 = st w" "shifting (st w2)" using s by auto
    from tdi_seq_shifts [OF B s2(2), of c ones True] l(4) False s2(1) show ?thesis
      by (auto simp: length_ones byte_bits_ones)
  qed
  then obtain w3 where "jtagtap_tdi_seq N True ones c w2 = Some w3" "st w3 = tap_step (st w) True"
    "sent (log w3) = sent (log w2) @ map (Pair (st w)) (replicate c True)" by blast
  with w1 w2 show ?thesis by auto
qed

text \<open>
  C28. Selecting an instruction: on a chain that is idle, a new instruction is shifted through the
  instruction registers as its own bits between ones for the devices before and behind (the bypass
  instruction), the chain is idle again afterwards, and the record remembers the instruction; for the
  instruction the device already holds nothing happens. Up to 32 bits may be on either side: the code has
  no more ones.
\<close>

theorem jtag_write_ir_shifts:
  assumes B: "tap_bus N st log" and "st (jp_world s) = Run_Test_Idle" and "k < length (jtag_devs s)"
    and "d = jtag_devs s ! k" and "unat (ir_prescan d) \<le> 32" "unat (ir_postscan d) \<le> 32" "0 < ir_len d" "unat (ir_len d) \<le> 32"
  shows "\<exists>s'. jtag_dev_write_ir (generic_jtag N i r) k ir s = Some s' \<and> st (jp_world s') = Run_Test_Idle \<and>
    current_ir (jtag_devs s' ! k) = ir \<and> map geometry (jtag_devs s') = map geometry (jtag_devs s) \<and>
    sent (log (jp_world s')) = sent (log (jp_world s)) @
      (if ir = current_ir d then []
       else map (Pair Shift_IR) (replicate (unat (ir_prescan d)) True @ word_bits ir (unat (ir_len d)) @ replicate (unat (ir_postscan d)) True))"
proof (cases "ir = current_ir d")
  case True
  with assms show ?thesis by (simp add: jtag_dev_write_ir_def)
next
  case False
  let ?w0 = "jtagtap_tms_seq N 3 4 (jp_world s)"
  have w0: "st ?w0 = Shift_IR" "log ?w0 = log (jp_world s)" using tms_shift_ir [OF B assms(2)] by simp_all
  have l: "0 < unat (ir_len d)" "unat (ir_len d) \<le> 8 * length (u32_bytes 4 ir)" "unat (ir_postscan d) = 0 \<longleftrightarrow> ir_postscan d = 0"
    using assms(7,8) by (simp_all add: unat_gt_0 unat_eq_zero word_neq_0_conv)
  have sh: "shifting (st ?w0)" using w0 by simp
  from three_pieces [OF B sh assms(5) l(1,2) assms(6)] w0 l(3) obtain w1 w2 w3 where w:
    "jtagtap_tdi_seq N False ones (unat (ir_prescan d)) ?w0 = Some w1"
    "jtagtap_tdi_seq N (ir_postscan d = 0) (u32_bytes 4 ir) (unat (ir_len d)) w1 = Some w2"
    "jtagtap_tdi_seq N True ones (unat (ir_postscan d)) w2 = Some w3" "st w3 = Exit1_IR"
    "sent (log w3) = sent (log (jp_world s)) @ map (Pair Shift_IR)
       (replicate (unat (ir_prescan d)) True @ word_bits ir (unat (ir_len d)) @ replicate (unat (ir_postscan d)) True)"
    using byte_bits_u32 [OF assms(8), of ir] by auto
  have idle: "st (jtagtap_tms_seq N 1 2 w3) = Run_Test_Idle" "log (jtagtap_tms_seq N 1 2 w3) = log w3"
    using tms_return_idle [OF B, of w3] w(4) by simp_all
  let ?devs = "map (\<lambda>(i, d). if i < jtag_dev_count s then d\<lparr>current_ir := -1\<rparr> else d) (enumerate 0 (jtag_devs s))"
  let ?devs' = "?devs[k := (?devs ! k)\<lparr>current_ir := ir\<rparr>]"
  have g: "map geometry ?devs' = map geometry (jtag_devs s)"
    using assms(3) by (intro nth_equalityI) (auto simp: nth_list_update nth_enumerate_eq geometry_def)
  have "jtag_dev_write_ir (generic_jtag N i r) k ir s = Some (s\<lparr>jtag_devs := ?devs', jp_world := jtagtap_tms_seq N 1 2 w3\<rparr>)"
    using False assms(3,4) w(1-3)
    by (simp add: jtag_dev_write_ir_def jtagtap_shift_ir_def jtagtap_return_idle_def Let_def del: tms_seq_numeral)
  with idle g w(5) False assms(3) show ?thesis by (simp del: tms_seq_numeral)
qed

lemma tdi_loop_overrun: "8 * length DI < 8 * p + r + n \<Longrightarrow> r < 8 \<Longrightarrow> 0 < n \<Longrightarrow> tdi_loop N final DI n p (push_bit r 1) w = None"
proof (induction n arbitrary: p r w)
  case 0
  then show ?case by simp
next
  case (Suc n)
  show ?case
  proof (cases "p < length DI")
    case False
    then show ?thesis by simp
  next
    case True
    have n: "0 < n" using Suc.prems(1,2) True by simp
    show ?thesis
    proof (cases "r = 7")
      case True
      have "tdi_loop N final DI n (p + 1) (push_bit 0 1) w' = None" for w'
        using Suc.prems(1) True n by (intro Suc.IH) simp_all
      then show ?thesis using \<open>p < length DI\<close> True n next_index_mult [of 7] by (simp add: Let_def)
    next
      case False
      have "tdi_loop N final DI n p (push_bit (r + 1) 1) w' = None" for w'
        using Suc.prems(1,2) False n by (intro Suc.IH) simp_all
      then show ?thesis using \<open>p < length DI\<close> Suc.prems(2) False n next_index_mult [of r] by (simp add: Let_def mult.commute)
    qed
  qed
qed

text \<open>
  A defect: with more than 32 instruction bits before or behind the device the sequence of ones is read
  beyond its end.
\<close>

theorem jtag_ones_overrun:
  assumes "k < length (jtag_devs s)" and "ir \<noteq> current_ir (jtag_devs s ! k)" and "32 < unat (ir_prescan (jtag_devs s ! k))"
  shows "jtag_dev_write_ir (generic_jtag N i r) k ir s = None"
proof -
  have "tdi_loop N False ones (unat (ir_prescan (jtag_devs s ! k))) 0 (push_bit 0 1) w = None" for w
    by (rule tdi_loop_overrun) (use assms(3) in \<open>simp_all add: length_ones\<close>)
  then show ?thesis using assms(1,2) by (simp add: jtag_dev_write_ir_def jtagtap_tdi_seq_def Let_def)
qed

subsection \<open>A chain of one device\<close>

definition demo_next :: "(tap_state \<times> (tap_state \<times> bool \<times> bool) list) jtag_next" where
  "demo_next tms tdi w = (True, (tap_step (fst w) tms, snd w @ (if shifting (fst w) then [(fst w, tdi, True)] else [])))"

lemma demo_bus: "tap_bus demo_next fst snd"
  by (simp add: tap_bus_def demo_next_def)

definition demo_dev :: jtag_dev where
  "demo_dev = \<lparr>jd_dev = 0, dr_postscan = 0, ir_len = 4, ir_prescan = 2, ir_postscan = 0, jd_idcode = 0, jd_descr = None, current_ir = -1\<rparr>"

theorem jtag_write_ir_shifts_witness:
  "\<exists>s'. jtag_dev_write_ir (generic_jtag demo_next id id) 0 0xA \<lparr>jtag_devs = [demo_dev], jtag_dev_count = 1, jp_world = (Run_Test_Idle, [])\<rparr> = Some s' \<and>
     sent (snd (jp_world s')) = map (Pair Shift_IR) [True, True, False, True, False, True]"
proof -
  let ?s = "\<lparr>jtag_devs = [demo_dev], jtag_dev_count = 1, jp_world = (Run_Test_Idle, [])\<rparr>"
  have b: "word_bits 0xA 4 = [False, True, False, True]" by (simp add: word_bits_def upt_rec)
  have r: "replicate 2 True = [True, True]" by (simp add: numeral_2_eq_2)
  have d: "current_ir demo_dev = -1" "ir_prescan demo_dev = 2" "ir_len demo_dev = 4" "ir_postscan demo_dev = 0"
    by (simp_all add: demo_dev_def)
  from jtag_write_ir_shifts [where N = demo_next and st = fst and log = snd and s = ?s and k = 0 and d = demo_dev
      and ir = "0xA" and i = id and r = id, OF demo_bus]
  show ?thesis by (auto simp: d b r)
qed

theorem jtag_ones_overrun_witness:
  "jtag_dev_write_ir (generic_jtag demo_next id id) 0 0xA
     \<lparr>jtag_devs = [demo_dev\<lparr>ir_prescan := 33\<rparr>], jtag_dev_count = 1, jp_world = (Run_Test_Idle, [])\<rparr> = None"
  by (rule jtag_ones_overrun) (simp_all add: demo_dev_def)

text \<open>A probe that answers every long shift with one identification, and sees one device.\<close>

definition stm_ops :: "nat jtag_ops" where
  "stm_ops = \<lparr>jt_tms_seq = (\<lambda>v n w. w), jt_tdi_tdo_seq = (\<lambda>DO f DI n w. Some ([0x41, 0, 0, 0], w)),
     jt_tdi_seq = (\<lambda>f DI n w. Some w), jt_next = (\<lambda>tms tdi w. (w = 1, w + 1)), jt_init = (\<lambda>w. w), jt_reset = (\<lambda>w. w)\<rparr>"

lemma stm_chain: "read_ir_chain stm_ops n w = Some (concat (replicate n [0x41, 0, 0, 0]), w)" "shift_zeros stm_ops n w = Some w"
  by (induction n) (simp_all add: stm_ops_def)

lemma stm_count: "count_devices stm_ops (-1) 0 0 = (1, 2)"
  by (subst count_devices.simps, simp add: stm_ops_def, subst count_devices.simps) simp

lemma replicate_numeral_16: "replicate 16 x = [x, x, x, x, x, x, x, x, x, x, x, x, x, x, x, x]"
  by (simp add: numeral_eq_Suc)

lemma stm_bits: "n < 8 \<Longrightarrow> bit (0x41 :: u8) n \<longleftrightarrow> n = 0 \<or> n = 6"
proof -
  assume "n < 8"
  then have "n = 0 \<or> n = 1 \<or> n = 2 \<or> n = 3 \<or> n = 4 \<or> n = 5 \<or> n = 6 \<or> n = 7" by presburger
  then show ?thesis by (elim disjE) simp_all
qed

theorem jtag_scan_layout_witness:
  "\<exists>p'. jtag_scan stm_ops id (\<lambda>i p. Some p) None \<lparr>jtag_devs = [demo_dev\<lparr>ir_postscan := 9\<rparr>], jtag_dev_count = 0, jp_world = 0\<rparr> = Some (1, p') \<and>
     ir_postscan (jtag_devs p' ! 0) = 9"
proof -
  let ?p = "\<lparr>jtag_devs = [demo_dev\<lparr>ir_postscan := 9\<rparr>], jtag_dev_count = 0, jp_world = 0\<rparr>"
  have ops: "jtagtap_shift_ir stm_ops w = w" "jtagtap_shift_dr stm_ops w = w" "jtagtap_return_idle stm_ops w = w"
    "jt_reset stm_ops w = w" "jt_init stm_ops w = w" for w
    by (simp_all add: jtagtap_shift_ir_def jtagtap_shift_dr_def jtagtap_return_idle_def stm_ops_def)
  let ?c = "concat (replicate 16 [0x41, 0, 0, 0 :: u8])"
  have c: "?c ! 0 = 0x41" "length ?c = 64" "?c \<noteq> []"
    by (simp_all add: replicate_numeral_16)
  have g: "guess_irlen ?c 1 0 = Some 6"
  proof -
    have z: "guess_irlen ?c a n = guess_irlen ?c (a + 1) (n + 1)" if "a < 6" "0 < a" for a n
      using that c stm_bits by (subst guess_irlen.simps) (simp add: JTAG_MAX_DEVS_def)
    have "guess_irlen ?c 6 5 = Some 6" using c stm_bits by (subst guess_irlen.simps) simp
    then show ?thesis using z [of 1 0] z [of 2 1] z [of 3 2] z [of 4 3] z [of 5 4] by (simp del: One_nat_def)
  qed
  have io: "jt_tdi_tdo_seq stm_ops DO f DI n w = Some ([0x41, 0, 0, 0], w)" for DO f DI n w by (simp add: stm_ops_def)
  have "\<exists>p'. scan_counted stm_ops (\<lambda>i p. Some p) None ?c (?p\<lparr>jtag_dev_count := 1, jp_world := 2\<rparr>) = Some (1, p')"
    using g by (simp add: scan_counted_def scan_device_def io ops stm_bits identify_def choose_irlen_def
      AP_DESIGNER_ARM_def AP_DESIGNER_STM_def)
  then obtain p' where "scan_counted stm_ops (\<lambda>i p. Some p) None ?c (?p\<lparr>jtag_dev_count := 1, jp_world := 2\<rparr>) = Some (1, p')" ..
  then have "jtag_scan stm_ops id (\<lambda>i p. Some p) None ?p = Some (1, p')"
    using c stm_bits by (simp add: jtag_scan_def stm_chain stm_count ops)
  moreover have "keeps_geometry (\<lambda>i p :: nat jtag_proc. Some p)" by (simp add: keeps_geometry_def)
  ultimately show ?thesis using jtag_scan_layout [of stm_ops id "\<lambda>i p. Some p" None ?p 1 p' 0] by simp
qed

end
