(* ===== verification/Adiv5_Mem.thy ===== *)
theory Adiv5_Mem
  imports Exception Word_Bits Target
begin

text \<open>
  The memory access of \<open>src/src/target/adiv5.c\<close>: memory is read and written through the registers
  \<open>CSW\<close>, \<open>TAR\<close> and \<open>DRW\<close> of a memory access port, which the debug port (\<open>dp_ops\<close>, either
  transport) reaches one register at a time. What the access port does with each register access is the
  relation \<open>port_step\<close>, after the architecture's description; the code is proved to transfer exactly the
  bytes asked for.
\<close>

unbundle bit_operations_syntax

subsection \<open>Ports\<close>

text \<open>The functions of a debug port that this file calls; the access port with what the probe knows of it.\<close>

record 'w dp_ops =
  dp_low_access :: "bool \<Rightarrow> u16 \<Rightarrow> u32 \<Rightarrow> 'w \<Rightarrow> ('w, u32) outcome"
  dp_read :: "u16 \<Rightarrow> 'w \<Rightarrow> ('w, u32) outcome"
  dp_error :: "'w \<Rightarrow> ('w, u32) outcome"
  dp_abort :: "u32 \<Rightarrow> 'w \<Rightarrow> ('w, unit) outcome"

record adiv5_ap =
  ap_refcnt :: int
  ap_apsel :: u8
  ap_idr :: u32
  ap_base :: u32
  ap_csw :: u32
  ap_cortexm_demcr :: u32
  ap_storage :: u32
  ap_designer :: u16
  ap_partno :: u16

definition AP_CSW :: u16 where "AP_CSW = 0x100"
definition AP_TAR :: u16 where "AP_TAR = 0x104"
definition AP_DRW :: u16 where "AP_DRW = 0x10C"
definition DP_SELECT :: u16 where "DP_SELECT = 0x8"
definition DP_RDBUFF :: u16 where "DP_RDBUFF = 0xC"

definition adiv5_dp_write :: "'w dp_ops \<Rightarrow> u16 \<Rightarrow> u32 \<Rightarrow> 'w \<Rightarrow> ('w, unit) outcome" where
  "adiv5_dp_write D addr value s = andthen (dp_low_access D False addr value s) (\<lambda>x. return ())"

definition ap_select :: "adiv5_ap \<Rightarrow> u16 \<Rightarrow> u32" where
  "ap_select ap addr = push_bit 24 (ucast (ap_apsel ap)) OR ucast (addr AND 0xF0)"

definition firmware_ap_write :: "'w dp_ops \<Rightarrow> adiv5_ap \<Rightarrow> u16 \<Rightarrow> u32 \<Rightarrow> 'w \<Rightarrow> ('w, unit) outcome" where
  "firmware_ap_write D ap addr value s =
     andthen (adiv5_dp_write D DP_SELECT (ap_select ap addr) s) (\<lambda>x. adiv5_dp_write D addr value)"

definition firmware_ap_read :: "'w dp_ops \<Rightarrow> adiv5_ap \<Rightarrow> u16 \<Rightarrow> 'w \<Rightarrow> ('w, u32) outcome" where
  "firmware_ap_read D ap addr s =
     andthen (adiv5_dp_write D DP_SELECT (ap_select ap addr) s) (\<lambda>x. dp_read D addr)"

subsection \<open>Access to memory\<close>

datatype align = ALIGN_BYTE | ALIGN_HALFWORD | ALIGN_WORD | ALIGN_DWORD

fun align_shift :: "align \<Rightarrow> nat" where \<comment> \<open>the number of the constant\<close>
  "align_shift ALIGN_BYTE = 0"
| "align_shift ALIGN_HALFWORD = 1"
| "align_shift ALIGN_WORD = 2"
| "align_shift ALIGN_DWORD = 3"

definition ALIGNOF :: "nat \<Rightarrow> align" where
  "ALIGNOF x = (if x mod 4 = 0 then ALIGN_WORD else if x mod 2 = 0 then ALIGN_HALFWORD else ALIGN_BYTE)"

definition MIN_align :: "align \<Rightarrow> align \<Rightarrow> align" where
  "MIN_align a b = (if align_shift a < align_shift b then a else b)"

definition ap_mem_access_setup :: "'w dp_ops \<Rightarrow> adiv5_ap \<Rightarrow> u32 \<Rightarrow> align \<Rightarrow> 'w \<Rightarrow> ('w, unit) outcome" where
  "ap_mem_access_setup D ap addr align s =
     (let csw = ap_csw ap OR 0x10;
          csw = (case align of ALIGN_BYTE \<Rightarrow> csw OR 0 | ALIGN_HALFWORD \<Rightarrow> csw OR 1 | ALIGN_DWORD \<Rightarrow> csw OR 2 | ALIGN_WORD \<Rightarrow> csw OR 2)
      in andthen (firmware_ap_write D ap AP_CSW csw s)
           (\<lambda>x s. andthen (dp_low_access D False AP_TAR addr s) (\<lambda>x. return ())))"

text \<open>The bytes that \<open>extract\<close> stores; the destination then advances by \<open>1 << align\<close>, which is their
  number but for \<open>ALIGN_DWORD\<close>, which \<open>ALIGNOF\<close> never gives.\<close>

fun extract_lane :: "u32 \<Rightarrow> u32 \<Rightarrow> align \<Rightarrow> u8 list" where
  "extract_lane src val ALIGN_BYTE = le_bytes 1 (unat (drop_bit (unat (push_bit 3 (src AND 3))) val AND 0xFF))"
| "extract_lane src val ALIGN_HALFWORD = le_bytes 2 (unat (drop_bit (unat (push_bit 3 (src AND 2))) val AND 0xFFFF))"
| "extract_lane src val ALIGN_WORD = le_bytes 4 (unat val)"
| "extract_lane src val ALIGN_DWORD = le_bytes 4 (unat val)"

fun mem_read_loop :: "'w dp_ops \<Rightarrow> align \<Rightarrow> nat \<Rightarrow> u32 \<Rightarrow> u32 \<Rightarrow> u8 list \<Rightarrow> 'w \<Rightarrow> ('w, u8 list \<times> u32) outcome" where
  "mem_read_loop D align 0 osrc src dest s = return (dest, src) s"
| "mem_read_loop D align (Suc len) osrc src dest s =
     andthen (dp_low_access D True AP_DRW 0 s) (\<lambda>tmp s.
       let dest = dest @ extract_lane src tmp align;
           src = src + 2 ^ align_shift align
       in if (src XOR osrc) AND 0xFFFFFC00 \<noteq> 0
          then andthen (dp_low_access D False AP_TAR src s) (\<lambda>x s.
               andthen (dp_low_access D True AP_DRW 0 s) (\<lambda>x s. mem_read_loop D align len src src dest s))
          else mem_read_loop D align len osrc src dest s)"

definition firmware_mem_read :: "'w dp_ops \<Rightarrow> adiv5_ap \<Rightarrow> u32 \<Rightarrow> nat \<Rightarrow> 'w \<Rightarrow> ('w, u8 list) outcome" where
  "firmware_mem_read D ap src len s =
     (let align = MIN_align (ALIGNOF (unat src)) (ALIGNOF len)
      in if len = 0 then return [] s
         else let len = len div 2 ^ align_shift align
              in andthen (ap_mem_access_setup D ap src align s) (\<lambda>x s.
                 andthen (dp_low_access D True AP_DRW 0 s) (\<lambda>x s.
                 andthen (mem_read_loop D align (len - 1) src src [] s) (\<lambda>(dest, src) s.
                 andthen (dp_low_access D True DP_RDBUFF 0 s) (\<lambda>tmp.
                 return (dest @ extract_lane src tmp align))))))"

text \<open>One unit of the source in the lanes it travels in; \<open>None\<close>: the source is too short.\<close>

fun pack :: "u32 \<Rightarrow> u8 list \<Rightarrow> align \<Rightarrow> u32 option" where
  "pack dest src ALIGN_BYTE = (if length src < 1 then None else Some (push_bit (unat (push_bit 3 (dest AND 3))) (word_of_nat (le_word (take 1 src)))))"
| "pack dest src ALIGN_HALFWORD = (if length src < 2 then None else Some (push_bit (unat (push_bit 3 (dest AND 2))) (word_of_nat (le_word (take 2 src)))))"
| "pack dest src ALIGN_WORD = (if length src < 4 then None else Some (word_of_nat (le_word (take 4 src))))"
| "pack dest src ALIGN_DWORD = (if length src < 4 then None else Some (word_of_nat (le_word (take 4 src))))"

fun mem_write_loop :: "'w dp_ops \<Rightarrow> align \<Rightarrow> nat \<Rightarrow> u32 \<Rightarrow> u32 \<Rightarrow> u8 list \<Rightarrow> 'w \<Rightarrow> ('w, unit) outcome" where
  "mem_write_loop D align 0 odest dest src s = return () s"
| "mem_write_loop D align (Suc len) odest dest src s =
     (case pack dest src align of
        None \<Rightarrow> None
      | Some tmp \<Rightarrow>
          let src = drop (2 ^ align_shift align) src;
              dest = dest + 2 ^ align_shift align
          in andthen (dp_low_access D False AP_DRW tmp s) (\<lambda>x s.
             if (dest XOR odest) AND 0xFFFFFC00 \<noteq> 0
             then andthen (dp_low_access D False AP_TAR dest s) (\<lambda>x s. mem_write_loop D align len dest dest src s)
             else mem_write_loop D align len odest dest src s))"

definition firmware_mem_write_sized :: "'w dp_ops \<Rightarrow> adiv5_ap \<Rightarrow> u32 \<Rightarrow> u8 list \<Rightarrow> nat \<Rightarrow> align \<Rightarrow> 'w \<Rightarrow> ('w, unit) outcome" where
  "firmware_mem_write_sized D ap dest src len align s =
     andthen (ap_mem_access_setup D ap dest align s)
       (\<lambda>x s. mem_write_loop D align (len div 2 ^ align_shift align) dest dest src s)"

definition adiv5_mem_write :: "'w dp_ops \<Rightarrow> adiv5_ap \<Rightarrow> u32 \<Rightarrow> u8 list \<Rightarrow> nat \<Rightarrow> 'w \<Rightarrow> ('w, unit) outcome" where
  "adiv5_mem_write D ap dest src len =
     firmware_mem_write_sized D ap dest src len (MIN_align (ALIGNOF (unat dest)) (ALIGNOF len))"

definition adiv5_mem_read32 :: "'w dp_ops \<Rightarrow> adiv5_ap \<Rightarrow> u32 \<Rightarrow> 'w \<Rightarrow> ('w, u32) outcome" where
  "adiv5_mem_read32 D ap addr s =
     andthen (firmware_mem_read D ap addr 4 s) (\<lambda>bs. return (word_of_nat (le_word bs)))"

subsection \<open>What a memory access port does\<close>

record mem_port =
  mp_fault :: bool \<comment> \<open>the fault flag of the debug port\<close>
  mp_select :: u32
  mp_csw :: u32
  mp_tar :: u32
  mp_posted :: u32 \<comment> \<open>the word of the last read of \<open>DRW\<close>, which the next read access delivers\<close>
  mp_mem :: "u32 \<Rightarrow> u8"

definition byte_lane :: "u32 \<Rightarrow> nat \<Rightarrow> u8" where
  "byte_lane x i = ucast (drop_bit (8 * i) x)"

abbreviation lane :: "u32 \<Rightarrow> nat" where "lane a \<equiv> unat a mod 4"

text \<open>The size of \<open>DRW\<close> accesses as a power of two; whether the address is a multiple of it. The address
  counts up after an access, in its low ten bits only.\<close>

definition port_size :: "mem_port \<Rightarrow> nat" where "port_size p = unat (mp_csw p AND 7)"

definition aligned :: "u32 \<Rightarrow> nat \<Rightarrow> bool" where "aligned a k \<longleftrightarrow> take_bit k a = 0"

definition port_ready :: "mem_port \<Rightarrow> bool" where
  "port_ready p \<longleftrightarrow> port_size p \<le> 2 \<and> mp_csw p AND 0x30 = 0x10 \<and> aligned (mp_tar p) (port_size p)"

definition tar_next :: "u32 \<Rightarrow> nat \<Rightarrow> u32" where
  "tar_next a k = ((a AND NOT (mask 10)) OR ((a + 2 ^ k) AND mask 10))"

definition store_lanes :: "(u32 \<Rightarrow> u8) \<Rightarrow> u32 \<Rightarrow> nat \<Rightarrow> u32 \<Rightarrow> u32 \<Rightarrow> u8" where
  "store_lanes m a k x = (\<lambda>b. if unat (b - a) < 2 ^ k then byte_lane x (lane b) else m b)"

definition posted_at :: "mem_port \<Rightarrow> u32 \<Rightarrow> nat \<Rightarrow> bool" where
  "posted_at p a k \<longleftrightarrow> (\<forall>i < 2 ^ k. byte_lane (mp_posted p) (lane a + i) = mp_mem p (a + word_of_nat i))"

text \<open>\<open>port_step a RnW addr v p x p'\<close>: the access returns \<open>x\<close> and leaves \<open>p'\<close>, for the port with number
  \<open>a\<close>. Lanes outside the access are not determined, nor is the posted word after a write or after it was fetched.\<close>

inductive port_step :: "u8 \<Rightarrow> bool \<Rightarrow> u16 \<Rightarrow> u32 \<Rightarrow> mem_port \<Rightarrow> u32 \<Rightarrow> mem_port \<Rightarrow> bool" for a where
  select: "\<not> mp_fault p \<Longrightarrow> port_step a False DP_SELECT v p x (p\<lparr>mp_select := v, mp_posted := y\<rparr>)"
| csw: "\<not> mp_fault p \<Longrightarrow> mp_select p = push_bit 24 (ucast a) \<Longrightarrow> port_step a False AP_CSW v p x (p\<lparr>mp_csw := v, mp_posted := y\<rparr>)"
| tar: "\<not> mp_fault p \<Longrightarrow> mp_select p = push_bit 24 (ucast a) \<Longrightarrow> port_step a False AP_TAR v p x (p\<lparr>mp_tar := v, mp_posted := y\<rparr>)"
| drw_write: "\<not> mp_fault p \<Longrightarrow> mp_select p = push_bit 24 (ucast a) \<Longrightarrow> port_ready p \<Longrightarrow>
    port_step a False AP_DRW v p x (p\<lparr>mp_mem := store_lanes (mp_mem p) (mp_tar p) (port_size p) v,
      mp_tar := tar_next (mp_tar p) (port_size p), mp_posted := y\<rparr>)"
| drw_read: "\<not> mp_fault p \<Longrightarrow> mp_select p = push_bit 24 (ucast a) \<Longrightarrow> port_ready p \<Longrightarrow>
    posted_at (p\<lparr>mp_posted := y\<rparr>) (mp_tar p) (port_size p) \<Longrightarrow>
    port_step a True AP_DRW v p (mp_posted p) (p\<lparr>mp_tar := tar_next (mp_tar p) (port_size p), mp_posted := y\<rparr>)"
| rdbuff: "\<not> mp_fault p \<Longrightarrow> port_step a True DP_RDBUFF v p (mp_posted p) (p\<lparr>mp_posted := y\<rparr>)"

lemmas dp_addresses = AP_CSW_def AP_TAR_def AP_DRW_def DP_SELECT_def DP_RDBUFF_def

lemma dp_distinct [simp]:
  "AP_CSW \<noteq> AP_TAR" "AP_CSW \<noteq> AP_DRW" "AP_CSW \<noteq> DP_SELECT" "AP_CSW \<noteq> DP_RDBUFF" "AP_TAR \<noteq> AP_CSW" "AP_TAR \<noteq> AP_DRW" "AP_TAR \<noteq> DP_SELECT" "AP_TAR \<noteq> DP_RDBUFF" "AP_DRW \<noteq> AP_CSW" "AP_DRW \<noteq> AP_TAR" "AP_DRW \<noteq> DP_SELECT" "AP_DRW \<noteq> DP_RDBUFF" "DP_SELECT \<noteq> AP_CSW" "DP_SELECT \<noteq> AP_TAR" "DP_SELECT \<noteq> AP_DRW" "DP_SELECT \<noteq> DP_RDBUFF" "DP_RDBUFF \<noteq> AP_CSW" "DP_RDBUFF \<noteq> AP_TAR" "DP_RDBUFF \<noteq> AP_DRW" "DP_RDBUFF \<noteq> DP_SELECT"
  by (simp_all add: dp_addresses)

inductive_simps port_step_simps [simp]:
  "port_step a False DP_SELECT v p x p'"
  "port_step a False AP_CSW v p x p'"
  "port_step a False AP_TAR v p x p'"
  "port_step a False AP_DRW v p x p'"
  "port_step a True AP_DRW v p x p'"
  "port_step a True DP_RDBUFF v p x p'"

text \<open>A debug port, with the observer \<open>st\<close> of what is behind it, that performs every access whose outcome
  is determined.\<close>

definition mem_port_ok :: "u8 \<Rightarrow> 'w dp_ops \<Rightarrow> ('w \<Rightarrow> mem_port) \<Rightarrow> bool" where
  "mem_port_ok a D st \<longleftrightarrow> (\<forall>RnW addr v w. (\<exists>x p. port_step a RnW addr v (st w) x p) \<longrightarrow>
     (\<exists>x w'. dp_low_access D RnW addr v w = Some (Inr x, w') \<and> port_step a RnW addr v (st w) x (st w')))"

lemma mem_port_access:
  assumes "mem_port_ok a D st" and "port_step a RnW addr v (st w) x p"
  obtains x' w' where "dp_low_access D RnW addr v w = Some (Inr x', w')" "port_step a RnW addr v (st w) x' (st w')"
  using assms unfolding mem_port_ok_def by blast

subsection \<open>Bytes and lanes\<close>

definition mem_bytes :: "(u32 \<Rightarrow> u8) \<Rightarrow> u32 \<Rightarrow> nat \<Rightarrow> u8 list" where
  "mem_bytes m a n = map (\<lambda>i. m (a + word_of_nat i)) [0..<n]"

definition poke :: "(u32 \<Rightarrow> u8) \<Rightarrow> u32 \<Rightarrow> u8 list \<Rightarrow> u32 \<Rightarrow> u8" where
  "poke m a bs = (\<lambda>b. if unat (b - a) < length bs then bs ! unat (b - a) else m b)"

lemma mem_bytes_add: "mem_bytes m a (i + j) = mem_bytes m a i @ mem_bytes m (a + word_of_nat i) j"
proof -
  have "[0..<i + j] = [0..<i] @ map (\<lambda>k. k + i) [0..<j]" using upt_add_eq_append [of 0 i j] by (simp add: map_add_upt add.commute)
  moreover have "a + word_of_nat (k + i) = a + word_of_nat i + word_of_nat k" for k by simp
  ultimately show ?thesis by (simp only: mem_bytes_def map_append map_map comp_def)
qed

lemma poke_Nil [simp]: "poke m a [] = m"
  by (simp add: poke_def)

lemma unat_add_of_nat: "unat ((a :: u32) + word_of_nat i) mod 4 = (unat a + i) mod 4"
proof -
  have "unat (a + word_of_nat i) = (unat a + i) mod 2 ^ 32" by (simp add: unat_word_ariths unat_of_nat mod_simps)
  then show ?thesis by (simp only:) (simp add: mod_mod_cancel)
qed

lemma poke_append:
  assumes "length xs + length ys \<le> 2 ^ 32"
  shows "poke (poke m a xs) (a + word_of_nat (length xs)) ys = poke m a (xs @ ys)"
proof
  fix b :: u32
  let ?i = "unat (b - a)" and ?n = "length xs"
  show "poke (poke m a xs) (a + word_of_nat ?n) ys b = poke m a (xs @ ys) b"
  proof (cases "ys = []")
    case True
    then show ?thesis by simp
  next
    case False
    then have n: "?n < 2 ^ 32" using assms by (cases ys) auto
    then have u: "unat (word_of_nat ?n :: u32) = ?n" by (simp add: unat_of_nat)
    have d: "b - (a + word_of_nat ?n) = (b - a) - word_of_nat ?n" by simp
    show ?thesis
    proof (cases "?n \<le> ?i")
      case True
      then have "unat ((b - a) - word_of_nat ?n) = ?i - ?n" using u by (simp add: unat_sub word_le_nat_alt)
      then show ?thesis using True unfolding poke_def d by (auto simp: nth_append)
    next
      case False
      then have "(b - a) < word_of_nat ?n" using u by (simp add: word_less_nat_alt)
      then have "unat ((b - a) - word_of_nat ?n) = 2 ^ 32 + ?i - ?n"
        using unat_sub_if_size [of "b - a" "word_of_nat ?n"] u False by (simp add: word_le_nat_alt word_size)
      then show ?thesis using False assms unfolding poke_def d by (auto simp: nth_append)
    qed
  qed
qed

lemma mem_bytes_poke: "length bs \<le> 2 ^ 32 \<Longrightarrow> mem_bytes (poke m a bs) a (length bs) = bs"
proof (rule nth_equalityI)
  fix i assume b: "length bs \<le> 2 ^ 32" and "i < length (mem_bytes (poke m a bs) a (length bs))"
  then have i: "i < length bs" by (simp add: mem_bytes_def)
  then have "unat (word_of_nat i :: u32) = i" using b by (simp add: unat_of_nat)
  then show "mem_bytes (poke m a bs) a (length bs) ! i = bs ! i" using i by (simp add: mem_bytes_def poke_def)
qed (simp add: mem_bytes_def)

lemma unat_take_bit: "unat (take_bit k (a :: u32)) = unat a mod 2 ^ k"
  by (simp only: unsigned_take_bit_eq) (simp only: take_bit_eq_mod)

text \<open>The shift that \<open>extract\<close> and the write loop compute, and the lane of an aligned address.\<close>

lemma lane_shift: "unat (push_bit 3 ((a :: u32) AND 3)) = 8 * lane a"
proof -
  have "a AND 3 = take_bit 2 a" by (simp add: take_bit_eq_mask mask_numeral)
  then have l: "unat (a AND 3) = lane a" using unat_take_bit [of 2 a] by simp
  then have "unat (a AND 3) < 4" by simp
  then have "unat (push_bit 3 (a AND 3)) = 8 * unat (a AND 3)" by (simp add: push_bit_eq_mult unat_mult_lem [THEN iffD1] unat_word_ariths)
  then show ?thesis using l by simp
qed

lemma lane_shift_half:
  assumes "aligned a 1"
  shows "a AND 2 = a AND 3"
proof (rule bit_word_eqI)
  fix n assume "n < LENGTH(32)"
  have "\<not> bit a 0" using assms by (simp add: aligned_def bit_0 take_bit_Suc_0 [unfolded One_nat_def [symmetric]] even_iff_mod_2_eq_zero flip: One_nat_def)
  moreover have "bit (2 :: u32) n \<longleftrightarrow> n = 1" using \<open>n < _\<close> bit_exp_iff [of 1 n, where 'a = "32 word"] by simp
  moreover have "bit (3 :: u32) n \<longleftrightarrow> n = 0 \<or> n = 1"
    using \<open>n < _\<close> bit_mask_iff [of 2 n, where 'a = "32 word"] by (auto simp: mask_numeral)
  ultimately show "bit (a AND 2) n = bit (a AND 3) n" by (auto simp: bit_and_iff)
qed

lemma lane_aligned: "aligned a 1 \<Longrightarrow> lane a = 0 \<or> lane a = 2" "aligned a 2 \<Longrightarrow> lane a = 0"
proof -
  have *: "unat a mod 2 ^ k = 0" if "aligned a k" for k
  proof -
    from that have "unat (take_bit k a) = unat (0 :: u32)" by (simp only: aligned_def)
    then show ?thesis by (simp only: unat_take_bit unat_0)
  qed
  show "aligned a 2 \<Longrightarrow> lane a = 0" using * [of 2] by simp
  show "aligned a 1 \<Longrightarrow> lane a = 0 \<or> lane a = 2" using * [of 1] by simp presburger
qed

lemma lane_room: "k \<le> 2 \<Longrightarrow> aligned a k \<Longrightarrow> i < 2 ^ k \<Longrightarrow> lane a + i < 4"
proof -
  assume a: "k \<le> 2" "aligned a k" "i < 2 ^ k"
  then have "k = 0 \<or> k = 1 \<or> k = 2" by presburger
  moreover have "lane a < 4" by simp
  ultimately show ?thesis using a lane_aligned [of a] by (elim disjE) auto
qed

lemma lane_add: "k \<le> 2 \<Longrightarrow> aligned a k \<Longrightarrow> i < 2 ^ k \<Longrightarrow> lane (a + word_of_nat i) = lane a + i"
  using lane_room [of k a i] unat_add_of_nat [of a i] by (simp add: mod_add_left_eq [of "unat a" 4 i, symmetric])

lemma le_bytes_lanes: "le_bytes n (unat (x :: u32)) = map (byte_lane x) [0..<n]"
proof (induction n arbitrary: x)
  case 0
  then show ?case by simp
next
  case (Suc n)
  have d: "unat x div 256 = unat (drop_bit 8 x)" by (simp add: unat_drop_bit_eq drop_bit_nat_def)
  have m: "word_of_nat (unat x mod 256) = byte_lane x 0"
    by (rule word_unat_eq_iff [THEN iffD2]) (simp add: byte_lane_def unat_of_nat unsigned_ucast_eq take_bit_eq_mod)
  have "byte_lane (drop_bit 8 x) = (\<lambda>i. byte_lane x (Suc i))" by (rule ext) (simp add: byte_lane_def add.commute)
  then show ?case by (simp add: d m Suc.IH map_upt_Suc del: upt_Suc)
qed

lemma bit_byte_lane: "bit (byte_lane x j) n \<longleftrightarrow> n < 8 \<and> bit x (8 * j + n)"
  by (simp add: byte_lane_def bit_ucast_iff bit_drop_bit_eq)

lemma byte_lane_low:
  "byte_lane (x AND 0xFF) 0 = byte_lane x 0" "i < 2 \<Longrightarrow> byte_lane (x AND 0xFFFF) i = byte_lane x i"
proof -
  have "(0xFF :: u32) = mask 8" "(0xFFFF :: u32) = mask 16" by (simp_all add: mask_numeral)
  then show "byte_lane (x AND 0xFF) 0 = byte_lane x 0" "i < 2 \<Longrightarrow> byte_lane (x AND 0xFFFF) i = byte_lane x i"
    by (auto simp: bit_eq_iff bit_byte_lane bit_and_iff bit_mask_iff simp del: mask_numeral)
qed

lemma byte_lane_drop: "byte_lane (drop_bit (8 * l) x) i = byte_lane x (l + i)"
  by (simp add: byte_lane_def algebra_simps)

lemma extract_lanes:
  assumes "align \<noteq> ALIGN_DWORD" "aligned a (align_shift align)"
  shows "extract_lane a v align = map (\<lambda>i. byte_lane v (lane a + i)) [0..<2 ^ align_shift align]"
proof (cases align)
  case ALIGN_BYTE
  have "extract_lane a v ALIGN_BYTE = le_bytes 1 (unat (drop_bit (8 * lane a) v AND 0xFF))"
    by (simp only: extract_lane.simps lane_shift)
  then show ?thesis using ALIGN_BYTE le_bytes_lanes [of 1 "drop_bit (8 * lane a) v AND 0xFF"]
    by (simp only: align_shift.simps) (simp add: byte_lane_low byte_lane_drop)
next
  case ALIGN_HALFWORD
  then have a: "aligned a 1" using assms by simp
  have "extract_lane a v ALIGN_HALFWORD = le_bytes 2 (unat (drop_bit (8 * lane a) v AND 0xFFFF))"
    by (simp only: extract_lane.simps lane_shift_half [OF a] lane_shift)
  moreover have "map (byte_lane (drop_bit (8 * lane a) v AND 0xFFFF)) [0..<2] = map (\<lambda>i. byte_lane v (lane a + i)) [0..<2]"
    by (rule map_cong) (simp_all add: byte_lane_low byte_lane_drop)
  ultimately show ?thesis using ALIGN_HALFWORD
    by (simp only: align_shift.simps le_bytes_lanes power_one_right)
next
  case ALIGN_WORD
  then show ?thesis using assms lane_aligned [of a] le_bytes_lanes [of 4 v] by simp
qed (use assms in simp)

lemma bit_le_word: "i < length bs \<Longrightarrow> n < 8 \<Longrightarrow> bit (le_word bs) (8 * i + n) \<longleftrightarrow> bit (bs ! i) n"
proof (induction bs arbitrary: i)
  case Nil
  then show ?case by simp
next
  case (Cons b bs)
  have w: "le_word (b # bs) = unat b + 256 * le_word bs" by (simp add: le_word_def)
  show ?case
  proof (cases i)
    case 0
    have "take_bit 8 (le_word (b # bs)) = unat b" using unat_u8_less [of b] by (simp add: w take_bit_eq_mod)
    then have "bit (take_bit 8 (le_word (b # bs))) n = bit (unat b) n" by simp
    then show ?thesis using 0 Cons.prems(2) by (simp add: bit_take_bit_iff bit_unsigned_iff)
  next
    case (Suc j)
    have "drop_bit 8 (le_word (b # bs)) = le_word bs" using unat_u8_less [of b] by (simp add: w drop_bit_eq_div)
    then have "bit (le_word (b # bs)) (8 + (8 * j + n)) = bit (le_word bs) (8 * j + n)" by (metis bit_drop_bit_eq comp_apply)
    then show ?thesis using Cons Suc by (simp add: algebra_simps)
  qed
qed

lemma byte_lane_le_word:
  assumes "i < length bs" "l + i < 4"
  shows "byte_lane (push_bit (8 * l) (word_of_nat (le_word bs))) (l + i) = bs ! i"
proof (rule bit_word_eqI)
  fix n assume "n < LENGTH(8)"
  then have n: "n < 8" by simp
  then have r: "8 * (l + i) + n < 32" using assms(2) by simp
  have "bit (byte_lane (push_bit (8 * l) (word_of_nat (le_word bs))) (l + i)) n \<longleftrightarrow> bit (word_of_nat (le_word bs) :: u32) (8 * i + n)"
    using n r by (simp add: bit_byte_lane bit_push_bit_iff algebra_simps)
  also have "\<dots> \<longleftrightarrow> bit (le_word bs) (8 * i + n)" using r by (simp add: bit_simps)
  also have "\<dots> \<longleftrightarrow> bit (bs ! i) n" using assms(1) n by (rule bit_le_word)
  finally show "bit (byte_lane (push_bit (8 * l) (word_of_nat (le_word bs))) (l + i)) n = bit (bs ! i) n" .
qed

lemma pack_lanes:
  assumes "align \<noteq> ALIGN_DWORD" "aligned a (align_shift align)" "2 ^ align_shift align \<le> length src"
  obtains tmp where "pack a src align = Some tmp" "\<forall>i < 2 ^ align_shift align. byte_lane tmp (lane a + i) = src ! i"
proof (cases align)
  case ALIGN_BYTE
  let ?x = "push_bit (8 * lane a) (word_of_nat (le_word (take 1 src)))"
  have "\<forall>i < 2 ^ 0. byte_lane ?x (lane a + i) = src ! i"
    using assms(3) ALIGN_BYTE byte_lane_le_word [of 0 "take 1 src" "lane a"] by simp
  moreover have "pack a src ALIGN_BYTE = Some ?x" using assms(3) ALIGN_BYTE by (simp only: pack.simps lane_shift) auto
  ultimately show ?thesis using that ALIGN_BYTE by (simp only: align_shift.simps)
next
  case ALIGN_HALFWORD
  then have a: "aligned a 1" using assms by simp
  let ?x = "push_bit (8 * lane a) (word_of_nat (le_word (take 2 src)))"
  have "\<forall>i < 2 ^ 1. byte_lane ?x (lane a + i) = src ! i"
  proof (intro allI impI)
    fix i :: nat assume "i < 2 ^ 1"
    then show "byte_lane ?x (lane a + i) = src ! i"
      using assms(3) ALIGN_HALFWORD lane_room [of 1 a i, OF _ a] by (subst byte_lane_le_word) simp_all
  qed
  moreover have "pack a src ALIGN_HALFWORD = Some ?x"
    using assms(3) ALIGN_HALFWORD by (simp only: pack.simps lane_shift_half [OF a] lane_shift) simp
  ultimately show ?thesis using that ALIGN_HALFWORD by (simp only: align_shift.simps)
next
  case ALIGN_WORD
  then have a: "aligned a 2" using assms by simp
  have "i < 4 \<Longrightarrow> byte_lane (push_bit (8 * 0) (word_of_nat (le_word (take 4 src)))) (0 + i) = src ! i" for i
    using assms(3) ALIGN_WORD by (subst byte_lane_le_word) simp_all
  then show ?thesis using that ALIGN_WORD assms(3) lane_aligned(2) [OF a] by simp
qed (use assms in simp)

lemma store_lanes_poke:
  assumes "k \<le> 2" "aligned a k" "length bs = 2 ^ k" "\<forall>i < 2 ^ k. byte_lane x (lane a + i) = bs ! i"
  shows "store_lanes m a k x = poke m a bs"
proof
  fix b
  have "b = a + word_of_nat (unat (b - a))" by simp
  then have "lane b = lane a + unat (b - a)" if "unat (b - a) < 2 ^ k" using lane_add [OF assms(1,2) that] by metis
  then show "store_lanes m a k x b = poke m a bs b" using assms(3,4) by (simp add: store_lanes_def poke_def)
qed

subsection \<open>The address that counts up\<close>

lemma page_mask: "(0xFFFFFC00 :: u32) = NOT (mask 10)"
  by (simp add: mask_numeral)

lemma aligned_next: "k \<le> 2 \<Longrightarrow> aligned a k \<Longrightarrow> aligned (a + 2 ^ k) k \<and> aligned (tar_next a k) k"
proof -
  assume k: "k \<le> 2" and a: "aligned a k"
  have z: "unat a mod 2 ^ k = 0" using a unat_take_bit [of k a] by (simp only: aligned_def unat_0)
  have "unat (a + 2 ^ k) = (unat a + 2 ^ k) mod 2 ^ 32"
  proof -
    have "k = 0 \<or> k = 1 \<or> k = 2" using k by presburger
    then have "unat (2 ^ k :: u32) = 2 ^ k" by (elim disjE) simp_all
    then show ?thesis by (simp add: unat_word_ariths)
  qed
  then have "unat (take_bit k (a + 2 ^ k)) = (unat a + 2 ^ k) mod 2 ^ 32 mod 2 ^ k" by (simp only: unat_take_bit)
  also have "\<dots> = (unat a + 2 ^ k) mod 2 ^ k" using k by (intro mod_mod_cancel le_imp_power_dvd) simp
  also have "\<dots> = 0" using z by simp
  finally have s: "take_bit k (a + 2 ^ k) = 0" by (simp only: unat_eq_zero)
  have "take_bit k (tar_next a k) = take_bit k a AND NOT (mask 10) OR take_bit k (a + 2 ^ k) AND mask 10"
    unfolding tar_next_def by (rule bit_word_eqI) (auto simp: bit_take_bit_iff bit_and_iff bit_or_iff bit_not_iff bit_mask_iff)
  then show ?thesis using a s by (simp add: aligned_def)
qed

lemma tar_next_same_page:
  assumes "((a + 2 ^ k) XOR oa) AND NOT (mask 10) = 0" and "a AND NOT (mask 10) = oa AND NOT (mask 10)"
  shows "tar_next a k = a + 2 ^ k"
  using assms low_increment [of a "2 ^ k" 10] by (simp add: same_upper_bits tar_next_def)

text \<open>The port in the middle of a transfer.\<close>

definition streaming :: "u8 \<Rightarrow> nat \<Rightarrow> mem_port \<Rightarrow> bool" where
  "streaming a k p \<longleftrightarrow> \<not> mp_fault p \<and> mp_select p = push_bit 24 (ucast a) \<and> port_size p = k \<and> mp_csw p AND 0x30 = 0x10"

lemma streaming_ready: "streaming a k p \<Longrightarrow> k \<le> 2 \<Longrightarrow> aligned (mp_tar p) k \<Longrightarrow> port_ready p"
  by (simp add: streaming_def port_ready_def)

lemma streaming_update [simp]:
  "streaming a k (p\<lparr>mp_tar := t\<rparr>) = streaming a k p" "streaming a k (p\<lparr>mp_posted := y\<rparr>) = streaming a k p"
  "streaming a k (p\<lparr>mp_mem := m\<rparr>) = streaming a k p"
  by (simp_all add: streaming_def port_size_def)

lemma access_tar:
  assumes "mem_port_ok a D st" "streaming a k (st w)"
  obtains x w' y where "dp_low_access D False AP_TAR v w = Some (Inr x, w')" "st w' = st w\<lparr>mp_tar := v, mp_posted := y\<rparr>"
proof -
  have "port_step a False AP_TAR v (st w) 0 (st w\<lparr>mp_tar := v, mp_posted := 0\<rparr>)" using assms(2) by (intro port_step.tar) (simp_all add: streaming_def)
  from mem_port_access [OF assms(1) this] obtain x w' where
    w: "dp_low_access D False AP_TAR v w = Some (Inr x, w')" "port_step a False AP_TAR v (st w) x (st w')" .
  from w(2) show ?thesis using that [OF w(1)] by auto
qed

lemma posted_exists:
  assumes "k \<le> 2" "aligned t k"
  shows "\<exists>y. posted_at (p\<lparr>mp_posted := y\<rparr>) t k"
proof -
  let ?bs = "mem_bytes (mp_mem p) t (2 ^ k)"
  have "byte_lane (push_bit (8 * lane t) (word_of_nat (le_word ?bs))) (lane t + i) = mp_mem p (t + word_of_nat i)"
    if "i < 2 ^ k" for i
    using byte_lane_le_word [of i ?bs "lane t"] lane_room [OF assms that] that by (simp add: mem_bytes_def)
  then show ?thesis by (auto simp: posted_at_def)
qed

lemma access_drw_read:
  assumes "mem_port_ok a D st" "streaming a k (st w)" "k \<le> 2" "aligned (mp_tar (st w)) k"
  obtains w' y where "dp_low_access D True AP_DRW v w = Some (Inr (mp_posted (st w)), w')"
    "st w' = st w\<lparr>mp_tar := tar_next (mp_tar (st w)) k, mp_posted := y\<rparr>" "posted_at (st w') (mp_tar (st w)) k"
proof -
  have s: "\<not> mp_fault (st w)" "mp_select (st w) = push_bit 24 (ucast a)" "port_size (st w) = k" using assms(2) by (simp_all add: streaming_def)
  from posted_exists [OF assms(3,4)] obtain y where y: "posted_at (st w\<lparr>mp_posted := y\<rparr>) (mp_tar (st w)) k" by blast
  have "port_step a True AP_DRW v (st w) (mp_posted (st w)) (st w\<lparr>mp_tar := tar_next (mp_tar (st w)) k, mp_posted := y\<rparr>)"
    using port_step.drw_read [of "st w" a y v, OF s(1,2) streaming_ready [OF assms(2-4)]] y unfolding s(3) by simp
  from mem_port_access [OF assms(1) this] obtain x w' where
    w: "dp_low_access D True AP_DRW v w = Some (Inr x, w')" "port_step a True AP_DRW v (st w) x (st w')" .
  from w(2) obtain z where "x = mp_posted (st w)" "st w' = st w\<lparr>mp_tar := tar_next (mp_tar (st w)) k, mp_posted := z\<rparr>"
    "posted_at (st w\<lparr>mp_posted := z\<rparr>) (mp_tar (st w)) k" by (auto simp: s)
  then show ?thesis using that [of w' z] w(1) by (simp add: posted_at_def)
qed

lemma access_drw_write:
  assumes "mem_port_ok a D st" "streaming a k (st w)" "k \<le> 2" "aligned (mp_tar (st w)) k"
  obtains x w' y where "dp_low_access D False AP_DRW v w = Some (Inr x, w')"
    "st w' = st w\<lparr>mp_mem := store_lanes (mp_mem (st w)) (mp_tar (st w)) k v, mp_tar := tar_next (mp_tar (st w)) k, mp_posted := y\<rparr>"
proof -
  have s: "\<not> mp_fault (st w)" "mp_select (st w) = push_bit 24 (ucast a)" "port_size (st w) = k" using assms(2) by (simp_all add: streaming_def)
  have "port_step a False AP_DRW v (st w) 0 (st w\<lparr>mp_mem := store_lanes (mp_mem (st w)) (mp_tar (st w)) k v,
      mp_tar := tar_next (mp_tar (st w)) k, mp_posted := 0\<rparr>)"
    using port_step.drw_write [of "st w" a v 0 0, OF s(1,2) streaming_ready [OF assms(2-4)]] unfolding s(3) .
  from mem_port_access [OF assms(1) this] obtain x w' where
    w: "dp_low_access D False AP_DRW v w = Some (Inr x, w')" "port_step a False AP_DRW v (st w) x (st w')" .
  from w(2) show ?thesis using that [OF w(1)] by (auto simp: s)
qed

lemma access_rdbuff:
  assumes "mem_port_ok a D st" "\<not> mp_fault (st w)"
  obtains w' y where "dp_low_access D True DP_RDBUFF v w = Some (Inr (mp_posted (st w)), w')" "st w' = st w\<lparr>mp_posted := y\<rparr>"
proof -
  from mem_port_access [OF assms(1) port_step.rdbuff [of "st w" a v 0, OF assms(2)]] obtain x w' where
    "dp_low_access D True DP_RDBUFF v w = Some (Inr x, w')" "port_step a True DP_RDBUFF v (st w) x (st w')" .
  then show ?thesis using that by auto
qed

subsection \<open>The transfers\<close>

lemma setup_streams:
  assumes P: "mem_port_ok (ap_apsel ap) D st" and c: "ap_csw ap AND 0x37 = 0" and al: "align \<noteq> ALIGN_DWORD"
    and f: "\<not> mp_fault (st w)"
  obtains w' where "ap_mem_access_setup D ap addr align w = Some (Inr (), w')" "streaming (ap_apsel ap) (align_shift align) (st w')"
    "mp_tar (st w') = addr" "mp_mem (st w') = mp_mem (st w)"
proof -
  let ?a = "ap_apsel ap" and ?k = "align_shift align"
  have sel: "ap_select ap AP_CSW = push_bit 24 (ucast ?a)" by (simp add: ap_select_def AP_CSW_def)
  from mem_port_access [OF P port_step.select [of "st w" ?a "ap_select ap AP_CSW" 0 0, OF f]] obtain x1 w1 where
    w1: "dp_low_access D False DP_SELECT (ap_select ap AP_CSW) w = Some (Inr x1, w1)"
    and "port_step ?a False DP_SELECT (ap_select ap AP_CSW) (st w) x1 (st w1)" .
  then have s1: "mp_select (st w1) = push_bit 24 (ucast ?a)" "mp_mem (st w1) = mp_mem (st w)" "\<not> mp_fault (st w1)" unfolding sel by auto
  define csw where "csw = (case align of ALIGN_BYTE \<Rightarrow> (ap_csw ap OR 0x10) OR 0 | ALIGN_HALFWORD \<Rightarrow> (ap_csw ap OR 0x10) OR 1
    | ALIGN_DWORD \<Rightarrow> (ap_csw ap OR 0x10) OR 2 | ALIGN_WORD \<Rightarrow> (ap_csw ap OR 0x10) OR 2)"
  from mem_port_access [OF P port_step.csw [of "st w1" ?a csw 0 0, OF s1(3,1)]] obtain x2 w2 where
    w2: "dp_low_access D False AP_CSW csw w1 = Some (Inr x2, w2)" and "port_step ?a False AP_CSW csw (st w1) x2 (st w2)" .
  then obtain y where s2: "st w2 = st w1\<lparr>mp_csw := csw, mp_posted := y\<rparr>" by auto
  have z: "ap_csw ap AND 7 = 0" "ap_csw ap AND 0x30 = 0"
  proof -
    have "ap_csw ap AND 7 = (ap_csw ap AND 0x37) AND 7" "ap_csw ap AND 0x30 = (ap_csw ap AND 0x37) AND 0x30" by (simp_all add: and.assoc)
    then show "ap_csw ap AND 7 = 0" "ap_csw ap AND 0x30 = 0" using c by simp_all
  qed
  have size: "csw AND 7 = word_of_nat ?k" "csw AND 0x30 = 0x10"
    using al z unfolding csw_def by (cases align; simp add: word_ao_dist)+
  have "streaming ?a ?k (st w2)"
    using s1(1,3) s2 size al by (cases align) (simp_all add: streaming_def port_size_def)
  from access_tar [OF P this] obtain x3 w3 y where
    w3: "dp_low_access D False AP_TAR addr w2 = Some (Inr x3, w3)" "st w3 = st w2\<lparr>mp_tar := addr, mp_posted := y\<rparr>" .
  have "ap_mem_access_setup D ap addr align w = Some (Inr (), w3)"
    using w1 w2 w3(1) unfolding csw_def
    by (simp add: ap_mem_access_setup_def firmware_ap_write_def adiv5_dp_write_def return_def Let_def)
  then show ?thesis using that w3(2) s2 s1(2) \<open>streaming ?a ?k (st w2)\<close> by simp
qed

lemma write_loop_pokes:
  assumes P: "mem_port_ok a D st" and al: "align \<noteq> ALIGN_DWORD" and k: "k = align_shift align"
  shows "streaming a k (st w) \<Longrightarrow> aligned dest k \<Longrightarrow> mp_tar (st w) = dest \<Longrightarrow>
    dest AND NOT (mask 10) = odest AND NOT (mask 10) \<Longrightarrow> n * 2 ^ k = length src \<Longrightarrow> length src \<le> 2 ^ 32 \<Longrightarrow>
    \<exists>w'. mem_write_loop D align n odest dest src w = Some (Inr (), w') \<and> mp_mem (st w') = poke (mp_mem (st w)) dest src \<and>
      \<not> mp_fault (st w')"
proof (induction n arbitrary: odest dest src w)
  case 0
  then show ?case by (simp add: return_def streaming_def)
next
  case (Suc n)
  have k2: "k \<le> 2" using al k by (cases align) simp_all
  have l: "2 ^ k \<le> length src" using Suc.prems(5) by simp
  let ?src = "drop (2 ^ k) src" and ?dest = "dest + 2 ^ k"
  from pack_lanes [OF al, of dest src] Suc.prems(2) l k obtain tmp where
    tmp: "pack dest src align = Some tmp" "\<forall>i < 2 ^ k. byte_lane tmp (lane dest + i) = src ! i" by auto
  from access_drw_write [OF P Suc.prems(1) k2, of tmp] Suc.prems(2,3) obtain x w1 y where
    w1: "dp_low_access D False AP_DRW tmp w = Some (Inr x, w1)"
    "st w1 = st w\<lparr>mp_mem := store_lanes (mp_mem (st w)) dest k tmp, mp_tar := tar_next dest k, mp_posted := y\<rparr>" by metis
  have m1: "mp_mem (st w1) = poke (mp_mem (st w)) dest (take (2 ^ k) src)"
    using store_lanes_poke [OF k2 Suc.prems(2), of "take (2 ^ k) src" tmp] l tmp(2) by (simp add: w1(2))
  have len: "n * 2 ^ k = length ?src" "length ?src \<le> 2 ^ 32" using Suc.prems(5,6) by simp_all
  have al': "aligned ?dest k" using aligned_next [OF k2 Suc.prems(2)] by simp
  have fin: "poke (poke (mp_mem (st w)) dest (take (2 ^ k) src)) ?dest ?src = poke (mp_mem (st w)) dest src"
    using poke_append [of "take (2 ^ k) src" ?src] l Suc.prems(6) by (simp add: min_absorb2)
  show ?case
  proof (cases "(?dest XOR odest) AND NOT (mask 10) = 0")
    case True
    have "streaming a k (st w1)" using Suc.prems(1) by (simp add: w1(2))
    moreover have "mp_tar (st w1) = ?dest" using tar_next_same_page [OF True Suc.prems(4)] by (simp add: w1(2))
    moreover have "?dest AND NOT (mask 10) = odest AND NOT (mask 10)" using True by (simp add: same_upper_bits)
    ultimately obtain w' where "mem_write_loop D align n odest ?dest ?src w1 = Some (Inr (), w')"
      "mp_mem (st w') = poke (mp_mem (st w1)) ?dest ?src" "\<not> mp_fault (st w')" using Suc.IH [of w1 ?dest odest ?src] al' len by blast
    then show ?thesis using tmp(1) w1(1) True m1 fin k by (simp add: Let_def page_mask del: mask_numeral)
  next
    case False
    have "streaming a k (st w1)" using Suc.prems(1) by (simp add: w1(2))
    from access_tar [OF P this] obtain x2 w2 y where
      w2: "dp_low_access D False AP_TAR ?dest w1 = Some (Inr x2, w2)" "st w2 = st w1\<lparr>mp_tar := ?dest, mp_posted := y\<rparr>" .
    have "streaming a k (st w2)" "mp_tar (st w2) = ?dest" "mp_mem (st w2) = mp_mem (st w1)"
      using \<open>streaming a k (st w1)\<close> by (simp_all add: w2(2))
    then obtain w' where "mem_write_loop D align n ?dest ?dest ?src w2 = Some (Inr (), w')"
      "mp_mem (st w') = poke (mp_mem (st w1)) ?dest ?src" "\<not> mp_fault (st w')" using Suc.IH [of w2 ?dest ?dest ?src] al' len by auto
    then show ?thesis using tmp(1) w1(1) w2(1) False m1 fin k by (simp add: Let_def page_mask del: mask_numeral)
  qed
qed

lemma posted_extract:
  assumes "align \<noteq> ALIGN_DWORD" "aligned a (align_shift align)" "posted_at p a (align_shift align)"
  shows "extract_lane a (mp_posted p) align = mem_bytes (mp_mem p) a (2 ^ align_shift align)"
  unfolding extract_lanes [OF assms(1,2)] mem_bytes_def by (rule map_cong) (use assms(3) in \<open>simp_all add: posted_at_def\<close>)

lemma read_loop_reads:
  assumes P: "mem_port_ok a D st" and al: "align \<noteq> ALIGN_DWORD" and k: "k = align_shift align"
  shows "streaming a k (st w) \<Longrightarrow> aligned src k \<Longrightarrow> mp_tar (st w) = tar_next src k \<Longrightarrow> posted_at (st w) src k \<Longrightarrow>
    src AND NOT (mask 10) = osrc AND NOT (mask 10) \<Longrightarrow>
    \<exists>w'. mem_read_loop D align n osrc src dest w =
        Some (Inr (dest @ mem_bytes (mp_mem (st w)) src (n * 2 ^ k), src + word_of_nat (n * 2 ^ k)), w') \<and>
      mp_mem (st w') = mp_mem (st w) \<and> \<not> mp_fault (st w') \<and> posted_at (st w') (src + word_of_nat (n * 2 ^ k)) k \<and>
      aligned (src + word_of_nat (n * 2 ^ k)) k"
proof (induction n arbitrary: osrc src dest w)
  case 0
  then show ?case by (simp add: return_def mem_bytes_def streaming_def)
next
  case (Suc n)
  have k2: "k \<le> 2" using al k by (cases align) simp_all
  let ?m = "mp_mem (st w)" and ?src = "src + 2 ^ k"
  let ?dest = "dest @ mem_bytes ?m src (2 ^ k)"
  note an = aligned_next [OF k2 Suc.prems(2)]
  have fin: "?dest @ mem_bytes ?m ?src (n * 2 ^ k) = dest @ mem_bytes ?m src (Suc n * 2 ^ k)"
    "?src + word_of_nat (n * 2 ^ k) = src + word_of_nat (Suc n * 2 ^ k)"
    using mem_bytes_add [of ?m src "2 ^ k" "n * 2 ^ k"] by simp_all
  have ex: "extract_lane src (mp_posted (st w)) align = mem_bytes ?m src (2 ^ k)"
    using posted_extract [OF al, of src "st w"] Suc.prems(2,4) k by simp
  from access_drw_read [OF P Suc.prems(1) k2] an Suc.prems(3) obtain w1 y where
    w1: "dp_low_access D True AP_DRW 0 w = Some (Inr (mp_posted (st w)), w1)"
    "st w1 = st w\<lparr>mp_tar := tar_next (tar_next src k) k, mp_posted := y\<rparr>" "posted_at (st w1) (tar_next src k) k" by metis
  have s1: "streaming a k (st w1)" "mp_mem (st w1) = ?m" using Suc.prems(1) by (simp_all add: w1(2))
  show ?case
  proof (cases "(?src XOR osrc) AND NOT (mask 10) = 0")
    case True
    have t: "tar_next src k = ?src" using tar_next_same_page [OF True Suc.prems(5)] .
    have "mp_tar (st w1) = tar_next ?src k" "posted_at (st w1) ?src k" using w1(2,3) t by simp_all
    moreover have "?src AND NOT (mask 10) = osrc AND NOT (mask 10)" using True by (simp add: same_upper_bits)
    ultimately obtain w' where
      "mem_read_loop D align n osrc ?src ?dest w1 = Some (Inr (dest @ mem_bytes ?m src (Suc n * 2 ^ k), src + word_of_nat (Suc n * 2 ^ k)), w')"
      "mp_mem (st w') = ?m" "\<not> mp_fault (st w')" "posted_at (st w') (src + word_of_nat (Suc n * 2 ^ k)) k" "aligned (src + word_of_nat (Suc n * 2 ^ k)) k"
      using Suc.IH [of w1 ?src osrc ?dest] s1 an unfolding fin s1(2) by metis
    then show ?thesis using w1(1) True k ex by (simp add: Let_def page_mask del: mask_numeral mult_Suc)
  next
    case False
    from access_tar [OF P s1(1)] obtain x2 w2 y where
      w2: "dp_low_access D False AP_TAR ?src w1 = Some (Inr x2, w2)" "st w2 = st w1\<lparr>mp_tar := ?src, mp_posted := y\<rparr>" .
    have s2: "streaming a k (st w2)" "mp_tar (st w2) = ?src" "mp_mem (st w2) = ?m" using s1 by (simp_all add: w2(2))
    from access_drw_read [OF P s2(1) k2] an s2(2) obtain w3 y where
      w3: "dp_low_access D True AP_DRW 0 w2 = Some (Inr (mp_posted (st w2)), w3)"
      "st w3 = st w2\<lparr>mp_tar := tar_next ?src k, mp_posted := y\<rparr>" "posted_at (st w3) ?src k" by metis
    have s3: "streaming a k (st w3)" "mp_tar (st w3) = tar_next ?src k" "mp_mem (st w3) = ?m" using s2 by (simp_all add: w3(2))
    obtain w' where
      "mem_read_loop D align n ?src ?src ?dest w3 = Some (Inr (dest @ mem_bytes ?m src (Suc n * 2 ^ k), src + word_of_nat (Suc n * 2 ^ k)), w')"
      "mp_mem (st w') = ?m" "\<not> mp_fault (st w')" "posted_at (st w') (src + word_of_nat (Suc n * 2 ^ k)) k" "aligned (src + word_of_nat (Suc n * 2 ^ k)) k"
      using Suc.IH [of w3 ?src ?src ?dest] s3 w3(3) an unfolding fin s3(3) by metis
    then show ?thesis using w1(1) w2(1) w3(1) False k ex by (simp add: Let_def page_mask del: mask_numeral mult_Suc)
  qed
qed

lemma align_choice:
  fixes x :: u32
  assumes "al = MIN_align (ALIGNOF (unat x)) (ALIGNOF n)"
  shows "al \<noteq> ALIGN_DWORD" "aligned x (align_shift al)" "n div 2 ^ align_shift al * 2 ^ align_shift al = n"
proof -
  have a: "aligned x j" if "unat x mod 2 ^ j = 0" for j
  proof -
    have "unat (take_bit j x) = 0" using that by (simp only: unat_take_bit)
    then show ?thesis by (simp only: aligned_def unat_eq_zero)
  qed
  have m: "unat x mod 2 = 0" "n mod 2 = 0" if "unat x mod 4 = 0" "n mod 4 = 0" using that by presburger+
  show "al \<noteq> ALIGN_DWORD" using assms by (auto simp: MIN_align_def ALIGNOF_def)
  show "aligned x (align_shift al)"
    using assms by (auto simp: MIN_align_def ALIGNOF_def split: if_splits intro!: a)
  show "n div 2 ^ align_shift al * 2 ^ align_shift al = n"
    using assms by (auto simp: MIN_align_def ALIGNOF_def split: if_splits)
qed

lemma mem_read_run:
  assumes "mem_port_ok (ap_apsel ap) D st" and "ap_csw ap AND 0x37 = 0" and "\<not> mp_fault (st w)"
  shows "\<exists>w'. firmware_mem_read D ap src len w = Some (Inr (mem_bytes (mp_mem (st w)) src len), w') \<and> mp_mem (st w') = mp_mem (st w) \<and> \<not> mp_fault (st w')"
proof (cases "len = 0")
  case True
  then show ?thesis using assms(3) by (simp add: firmware_mem_read_def return_def mem_bytes_def Let_def)
next
  case False
  define al where "al = MIN_align (ALIGNOF (unat src)) (ALIGNOF len)"
  define k where "k = align_shift al"
  define n where "n = len div 2 ^ k"
  note ac = align_choice [OF al_def, folded k_def]
  have k2: "k \<le> 2" using ac(1) by (cases al) (simp_all add: k_def)
  have "n * 2 ^ k = len" unfolding n_def by (rule ac(3))
  moreover from this have "n \<noteq> 0" using False by (cases n) simp_all
  ultimately have n: "Suc (n - 1) = n" "n * 2 ^ k = len" by simp_all
  from setup_streams [OF assms(1,2) ac(1) assms(3)] obtain w1 where w1: "ap_mem_access_setup D ap src al w = Some (Inr (), w1)"
    "streaming (ap_apsel ap) k (st w1)" "mp_tar (st w1) = src" "mp_mem (st w1) = mp_mem (st w)" unfolding k_def by metis
  from access_drw_read [OF assms(1) w1(2) k2] w1(3) ac(2) obtain w2 y where
    w2: "dp_low_access D True AP_DRW 0 w1 = Some (Inr (mp_posted (st w1)), w2)"
    "st w2 = st w1\<lparr>mp_tar := tar_next src k, mp_posted := y\<rparr>" "posted_at (st w2) src k" by metis
  have s2: "streaming (ap_apsel ap) k (st w2)" "mp_tar (st w2) = tar_next src k" "mp_mem (st w2) = mp_mem (st w)"
    using w1 by (simp_all add: w2(2))
  let ?src = "src + word_of_nat ((n - 1) * 2 ^ k)"
  from read_loop_reads [OF assms(1) ac(1) k_def s2(1) ac(2) s2(2) w2(3), of src "n - 1" "[]"] obtain w3 where
    w3: "mem_read_loop D al (n - 1) src src [] w2 = Some (Inr (mem_bytes (mp_mem (st w)) src ((n - 1) * 2 ^ k), ?src), w3)"
    "mp_mem (st w3) = mp_mem (st w)" "\<not> mp_fault (st w3)" "posted_at (st w3) ?src k" "aligned ?src k" by (auto simp: s2(3))
  from access_rdbuff [OF assms(1) w3(3)] obtain w4 y where
    w4: "dp_low_access D True DP_RDBUFF 0 w3 = Some (Inr (mp_posted (st w3)), w4)" "st w4 = st w3\<lparr>mp_posted := y\<rparr>" .
  have "extract_lane ?src (mp_posted (st w3)) al = mem_bytes (mp_mem (st w)) ?src (2 ^ k)"
    using posted_extract [OF ac(1), of ?src "st w3"] w3 by (simp add: k_def)
  moreover have "mem_bytes (mp_mem (st w)) src ((n - 1) * 2 ^ k) @ mem_bytes (mp_mem (st w)) ?src (2 ^ k) = mem_bytes (mp_mem (st w)) src len"
    using mem_bytes_add [of "mp_mem (st w)" src "(n - 1) * 2 ^ k" "2 ^ k"] n by (metis add.commute mult_Suc)
  ultimately have "firmware_mem_read D ap src len w = Some (Inr (mem_bytes (mp_mem (st w)) src len), w4)"
    using False w1(1) w2(1) w3(1) w4(1)
    by (simp add: firmware_mem_read_def Let_def return_def flip: al_def k_def n_def)
  then show ?thesis using w3(2,3) w4(2) by simp
qed

lemma mem_write_run:
  assumes "mem_port_ok (ap_apsel ap) D st" and "ap_csw ap AND 0x37 = 0" and "\<not> mp_fault (st w)" and "length data < 2 ^ 32"
  shows "\<exists>w'. adiv5_mem_write D ap dest data (length data) w = Some (Inr (), w') \<and> mp_mem (st w') = poke (mp_mem (st w)) dest data \<and> \<not> mp_fault (st w')"
proof -
  define al where "al = MIN_align (ALIGNOF (unat dest)) (ALIGNOF (length data))"
  note ac = align_choice [OF al_def]
  from setup_streams [OF assms(1,2) ac(1) assms(3)] obtain w1 where w1: "ap_mem_access_setup D ap dest al w = Some (Inr (), w1)"
    "streaming (ap_apsel ap) (align_shift al) (st w1)" "mp_tar (st w1) = dest" "mp_mem (st w1) = mp_mem (st w)" by metis
  from write_loop_pokes [OF assms(1) ac(1) refl w1(2) ac(2) w1(3) refl ac(3)] assms(4) show ?thesis
    using w1 by (auto simp: adiv5_mem_write_def firmware_mem_write_sized_def al_def)
qed

text \<open>
  C29. Reading memory: with a port that performs every determined access, \<open>firmware_mem_read\<close> returns the
  bytes of the range, whatever the alignment of address and length and however many kilobyte pages the
  range crosses, and leaves the memory as it is.
\<close>

theorem mem_read_correct:
  assumes "mem_port_ok (ap_apsel ap) D st" and "ap_csw ap AND 0x37 = 0" and "\<not> mp_fault (st w)"
  shows "\<exists>w'. firmware_mem_read D ap src len w = Some (Inr (mem_bytes (mp_mem (st w)) src len), w') \<and> mp_mem (st w') = mp_mem (st w)"
  using mem_read_run [OF assms, of src len] by blast

text \<open>
  C30. Writing memory: \<open>adiv5_mem_write\<close> changes exactly the bytes of the range to the data, whatever the
  alignment and however many pages the range crosses.
\<close>

theorem mem_write_correct:
  assumes "mem_port_ok (ap_apsel ap) D st" and "ap_csw ap AND 0x37 = 0" and "\<not> mp_fault (st w)" and "length data < 2 ^ 32"
  shows "\<exists>w'. adiv5_mem_write D ap dest data (length data) w = Some (Inr (), w') \<and> mp_mem (st w') = poke (mp_mem (st w)) dest data"
  using mem_write_run [OF assms, of dest] by blast

subsection \<open>A port that performs every access\<close>

definition ideal_access :: "bool \<Rightarrow> u16 \<Rightarrow> u32 \<Rightarrow> mem_port \<Rightarrow> (mem_port, u32) outcome" where
  "ideal_access RnW addr v p =
     (let k = port_size p; t = mp_tar p
      in if addr = AP_DRW \<and> RnW then
           return (mp_posted p) (p\<lparr>mp_tar := tar_next t k,
             mp_posted := push_bit (8 * lane t) (word_of_nat (le_word (mem_bytes (mp_mem p) t (2 ^ k))))\<rparr>)
         else if addr = AP_DRW then return 0 (p\<lparr>mp_mem := store_lanes (mp_mem p) t k v, mp_tar := tar_next t k\<rparr>)
         else if RnW then return (mp_posted p) p
         else if addr = DP_SELECT then return 0 (p\<lparr>mp_select := v\<rparr>)
         else if addr = AP_CSW then return 0 (p\<lparr>mp_csw := v\<rparr>)
         else return 0 (p\<lparr>mp_tar := v\<rparr>))"

definition ideal_dp :: "mem_port dp_ops" where
  "ideal_dp = \<lparr>dp_low_access = ideal_access, dp_read = (\<lambda>addr. ideal_access True addr 0), dp_error = return 0, dp_abort = (\<lambda>x. return ())\<rparr>"

lemma ideal_dp_ok: "mem_port_ok a ideal_dp id"
proof -
  have p: "p = p\<lparr>mp_posted := mp_posted p\<rparr>" for p :: mem_port by simp
  have r: "posted_at (p\<lparr>mp_posted := push_bit (8 * lane t) (word_of_nat (le_word (mem_bytes (mp_mem p) t (2 ^ k))))\<rparr>) t k"
    if "k \<le> 2" "aligned t k" for p t k
    using byte_lane_le_word [of _ "mem_bytes (mp_mem p) t (2 ^ k)" "lane t"] lane_room [OF that]
    by (simp add: posted_at_def mem_bytes_def)
  have "\<exists>x' w'. ideal_access RnW addr v w = Some (Inr x', w') \<and> port_step a RnW addr v w x' w'"
    if s: "port_step a RnW addr v w x q" for RnW addr v w x q
    using s
  proof cases
    case drw_read
    then have "port_size w \<le> 2" "aligned (mp_tar w) (port_size w)" by (simp_all add: port_ready_def)
    from r [OF this, of w] drw_read show ?thesis
      by (auto simp: ideal_access_def return_def Let_def simp del: port_step_simps intro!: port_step.drw_read)
  qed (auto simp: ideal_access_def return_def Let_def intro: exI [of _ "mp_posted w"])
  then show ?thesis by (auto simp: mem_port_ok_def ideal_dp_def)
qed

definition demo_ap :: adiv5_ap where
  "demo_ap = \<lparr>ap_refcnt = 1, ap_apsel = 1, ap_idr = 0, ap_base = 0, ap_csw = 0x23000040, ap_cortexm_demcr = 0, ap_storage = 0,
     ap_designer = 0, ap_partno = 0\<rparr>"

definition demo_port :: mem_port where
  "demo_port = \<lparr>mp_fault = False, mp_select = 0, mp_csw = 0, mp_tar = 0, mp_posted = 0, mp_mem = (\<lambda>a. ucast a)\<rparr>"

theorem mem_read_correct_witness:
  "\<exists>w'. firmware_mem_read ideal_dp demo_ap 0x200003FF 3 demo_port = Some (Inr [0xFF, 0, 1], w')"
proof -
  have "mem_bytes (mp_mem demo_port) 0x200003FF 3 = [0xFF, 0, 1]"
    by (simp add: mem_bytes_def demo_port_def upt_rec)
  then show ?thesis
    using mem_read_correct [OF ideal_dp_ok, of demo_ap demo_port "0x200003FF" 3] by (auto simp: demo_ap_def demo_port_def)
qed

theorem mem_write_correct_witness:
  "\<exists>w'. adiv5_mem_write ideal_dp demo_ap 0x200003FE [1, 2, 3, 4] (length [1, 2, 3, 4 :: u8]) demo_port = Some (Inr (), w') \<and> mp_mem w' 0x20000400 = 3"
proof -
  have "poke (mp_mem demo_port) 0x200003FE [1, 2, 3, 4] 0x20000400 = 3" by (simp add: poke_def)
  then show ?thesis
    using mem_write_correct [OF ideal_dp_ok, of demo_ap demo_port "[1, 2, 3, 4]" "0x200003FE"] by (auto simp: demo_ap_def demo_port_def)
qed

end
