(* ===== verification/Swd_Memory.thy ===== *)
theory Swd_Memory
  imports Adiv5_Swdp Adiv5_Mem
begin

text \<open>
  The memory access of \<open>adiv5.c\<close> over the debug port of \<open>adiv5_swdp.c\<close>: a target that answers the bit
  sequences of the two-wire protocol is, through \<open>firmware_swdp_low_access\<close>, a port in the sense of
  \<open>Adiv5_Mem\<close>, so that data written over the two wires are read back over them.
\<close>

unbundle bit_operations_syntax

definition swdp_dp :: "'w swd_ops \<Rightarrow> 'w low_write option \<Rightarrow> 'w swdp dp_ops" where
  "swdp_dp W low_write = \<lparr>dp_low_access = firmware_swdp_low_access W, dp_read = firmware_swdp_read W,
     dp_error = firmware_swdp_error W low_write, dp_abort = (\<lambda>v s. andthen (firmware_swdp_abort W v s) (\<lambda>x. return ()))\<rparr>"

text \<open>A target on the line that accepts every determined access: it acknowledges the request, and the
  data phase has the effect of the access. The clock does not disturb it.\<close>

definition swd_target :: "u8 \<Rightarrow> 'w swd_ops \<Rightarrow> ('w \<Rightarrow> mem_port) \<Rightarrow> bool" where
  "swd_target a W st \<longleftrightarrow>
     (\<forall>w. \<not> mp_fault (st w) \<and> st (snd (sw_time W w)) = st w) \<and>
     (\<forall>RnW addr v w. (\<exists>x p. port_step a RnW addr v (st w) x p) \<longrightarrow>
        (\<exists>w1. swd_exchange W (make_packet_request RnW addr) w = (1, w1) \<and>
          (if RnW then (\<exists>x w2. sw_seq_in_parity W 32 w1 = ((False, x), w2) \<and> port_step a True addr v (st w) x (st w2))
           else (\<exists>x. port_step a False addr v (st w) x (st (sw_seq_out W 0 8 (sw_seq_out_parity W v 32 w1)))))))"

definition port_of :: "('w \<Rightarrow> mem_port) \<Rightarrow> 'w swdp \<Rightarrow> mem_port" where
  "port_of st s = (st (dp_world s))\<lparr>mp_fault := dp_fault s\<rparr>"

lemma port_step_fault: "port_step a RnW addr v p x q \<Longrightarrow> \<not> mp_fault p \<and> \<not> mp_fault q"
  by (erule port_step.cases) auto

text \<open>The value that a write returns is not determined.\<close>

lemma port_step_write: "port_step a False addr v p x q \<Longrightarrow> port_step a False addr v p y q"
  by (erule port_step.cases) auto

lemma swd_port_ok:
  assumes T: "swd_target a W st"
  shows "mem_port_ok a (swdp_dp W low_write) (port_of st)"
  unfolding mem_port_ok_def
proof (intro allI impI, elim exE)
  fix RnW addr v s x p
  assume p: "port_step a RnW addr v (port_of st s) x p"
  from port_step_fault [OF p] have f: "\<not> dp_fault s" by (simp add: port_of_def)
  have st: "\<not> mp_fault (st w)" "st (snd (sw_time W w)) = st w" for w using T by (auto simp: swd_target_def)
  have e: "(st w)\<lparr>mp_fault := False\<rparr> = st w" for w using st(1) [of w] by (cases "st w") simp
  have po: "port_of st s = st (dp_world s)" using f st(1) [of "dp_world s"] by (simp add: port_of_def)
  obtain t w0 where t: "platform_timeout_set (sw_time W) 20 (dp_world s) = (t, w0)" by force
  then have w0: "st w0 = st (dp_world s)" using st(2) [of "dp_world s"] by (auto simp: platform_timeout_set_def split: prod.splits)
  have "\<exists>x p. port_step a RnW addr v (st w0) x p" using p unfolding po w0 by blast
  then obtain w1 where w1: "swd_exchange W (make_packet_request RnW addr) w0 = (1, w1)" and
    ph: "if RnW then (\<exists>x w2. sw_seq_in_parity W 32 w1 = ((False, x), w2) \<and> port_step a True addr v (st w0) x (st w2))
      else (\<exists>x. port_step a False addr v (st w0) x (st (sw_seq_out W 0 8 (sw_seq_out_parity W v 32 w1))))"
    using T unfolding swd_target_def by blast
  have loop: "swd_request_loop W (make_packet_request RnW addr) t w0 = Some (1, w1)"
    by (subst swd_request_loop.simps) (simp add: w1)
  show "\<exists>x' s'. dp_low_access (swdp_dp W low_write) RnW addr v s = Some (Inr x', s') \<and>
    port_step a RnW addr v (port_of st s) x' (port_of st s')"
  proof (cases RnW)
    case True
    with ph obtain x' w2 where "sw_seq_in_parity W 32 w1 = ((False, x'), w2)" "port_step a True addr v (st w0) x' (st w2)" by auto
    then show ?thesis using f t loop True unfolding po
      by (auto simp: swdp_dp_def firmware_swdp_low_access.simps return_def w0 port_of_def e)
  next
    case False
    let ?w2 = "sw_seq_out W 0 8 (sw_seq_out_parity W v 32 w1)"
    from ph False obtain x' where "port_step a False addr v (st w0) x' (st ?w2)" by auto
    from port_step_write [OF this, of 0] have "port_step a False addr v (st w0) 0 (st ?w2)" .
    then show ?thesis using f t loop False unfolding po
      by (auto simp: swdp_dp_def firmware_swdp_low_access.simps return_def w0 port_of_def e)
  qed
qed

text \<open>
  C3. Memory over two wires: on a target that performs every access, data written by \<open>adiv5_mem_write\<close>
  through \<open>firmware_swdp_low_access\<close> change exactly the bytes of the range, and \<open>firmware_mem_read\<close> reads
  them back.
\<close>

theorem swd_memory_roundtrip:
  assumes "swd_target (ap_apsel ap) W st" and "ap_csw ap AND 0x37 = 0" and "\<not> dp_fault s" and "length data < 2 ^ 32"
  shows "\<exists>s' s''. adiv5_mem_write (swdp_dp W low_write) ap a data (length data) s = Some (Inr (), s') \<and>
    mp_mem (st (dp_world s')) = poke (mp_mem (st (dp_world s))) a data \<and>
    firmware_mem_read (swdp_dp W low_write) ap a (length data) s' = Some (Inr data, s'')"
proof -
  note P = swd_port_ok [OF assms(1), of low_write]
  from mem_write_run [OF P assms(2) _ assms(4), of s a] assms(3) obtain s' where
    s': "adiv5_mem_write (swdp_dp W low_write) ap a data (length data) s = Some (Inr (), s')"
    "mp_mem (st (dp_world s')) = poke (mp_mem (st (dp_world s))) a data" "\<not> mp_fault (port_of st s')"
    by (auto simp: port_of_def)
  from mem_read_run [OF P assms(2) s'(3), of a "length data"] s'(2) assms(4) obtain s'' where
    "firmware_mem_read (swdp_dp W low_write) ap a (length data) s' = Some (Inr data, s'')"
    by (auto simp: port_of_def mem_bytes_poke)
  with s' show ?thesis by blast
qed

subsection \<open>A target on the line\<close>

text \<open>The target keeps the last request byte, decodes it in the data phase and performs the access on an
  ideal port.\<close>

definition decode_request :: "u32 \<Rightarrow> u16" where
  "decode_request r = (if r = make_packet_request False DP_SELECT then DP_SELECT
     else if r = make_packet_request False AP_CSW then AP_CSW
     else if r = make_packet_request False AP_TAR then AP_TAR
     else if r = make_packet_request True DP_RDBUFF then DP_RDBUFF else AP_DRW)"

definition line_access :: "bool \<Rightarrow> u32 \<Rightarrow> u32 \<times> mem_port \<Rightarrow> u32 \<times> (u32 \<times> mem_port)" where
  "line_access RnW v w = (case ideal_access RnW (decode_request (fst w)) v ((snd w)\<lparr>mp_fault := False\<rparr>) of
     Some (Inr x, p) \<Rightarrow> (x, (fst w, p)) | _ \<Rightarrow> (0, w))"

definition line_ops :: "(u32 \<times> mem_port) swd_ops" where
  "line_ops = \<lparr>sw_seq_out = (\<lambda>v n w. if v = 0 then w else (v, snd w)),
     sw_seq_out_parity = (\<lambda>v n w. snd (line_access False v w)),
     sw_seq_in = (\<lambda>n w. (0x20000000, w)),
     sw_seq_in_parity = (\<lambda>n w. let (x, w) = line_access True 0 w in ((False, x), w)),
     sw_time = (\<lambda>w. (0, w))\<rparr>"

lemma request_bytes:
  "make_packet_request False DP_SELECT = 0xB1" "make_packet_request False AP_CSW = 0xA3" "make_packet_request False AP_TAR = 0x8B"
  "make_packet_request False AP_DRW = 0xBB" "make_packet_request True AP_DRW = 0x9F" "make_packet_request True DP_RDBUFF = 0xBD"
  by (simp_all add: make_packet_request_def dp_addresses)

lemma line_exchange: "r \<noteq> 0 \<Longrightarrow> swd_exchange line_ops r w = (1, (r, snd w))"
  by (simp add: swd_exchange_def line_ops_def)

lemma line_target: "swd_target a line_ops (\<lambda>w. (snd w)\<lparr>mp_fault := False\<rparr>)"
proof -
  let ?st = "\<lambda>w :: u32 \<times> mem_port. (snd w)\<lparr>mp_fault := False\<rparr>"
  have nf: "\<not> mp_fault q \<Longrightarrow> q\<lparr>mp_fault := False\<rparr> = q" for q by (cases q) simp
  have "\<exists>w1. swd_exchange line_ops (make_packet_request RnW addr) w = (1, w1) \<and>
      (if RnW then (\<exists>x w2. sw_seq_in_parity line_ops 32 w1 = ((False, x), w2) \<and> port_step a True addr v (?st w) x (?st w2))
       else (\<exists>x. port_step a False addr v (?st w) x (?st (sw_seq_out line_ops 0 8 (sw_seq_out_parity line_ops v 32 w1)))))"
    if s: "port_step a RnW addr v (?st w) x p" for RnW addr v w x p
  proof -
    define r where "r = make_packet_request RnW addr"
    from s have d: "decode_request r = addr" "r \<noteq> 0" unfolding r_def
      by (cases rule: port_step.cases; simp add: decode_request_def request_bytes)+
    have v0: "port_step a True addr v (?st w) x p \<longleftrightarrow> port_step a True addr 0 (?st w) x p" if "RnW" for x p
      using s that by (cases rule: port_step.cases) auto
    from s have "\<exists>x p. port_step a RnW addr (if RnW then 0 else v) (?st w) x p" using v0 by (cases RnW) auto
    then obtain x' p' where "port_step a RnW addr (if RnW then 0 else v) (id (?st w)) x' p'" by auto
    from mem_port_access [OF ideal_dp_ok this] obtain y q where i: "ideal_access RnW addr (if RnW then 0 else v) (?st w) = Some (Inr y, q)"
      "port_step a RnW addr (if RnW then 0 else v) (?st w) y q" by (auto simp: ideal_dp_def)
    from port_step_fault [OF i(2)] have q: "q\<lparr>mp_fault := False\<rparr> = q" by (intro nf) simp
    have l: "line_access RnW (if RnW then 0 else v) (r, snd w) = (y, (r, q))"
      using i(1) d(1) by (simp add: line_access_def)
    show ?thesis
    proof (cases RnW)
      case True
      then show ?thesis using line_exchange [OF d(2), of w] l i(2) q v0 unfolding r_def by (auto simp: line_ops_def)
    next
      case False
      then show ?thesis using line_exchange [OF d(2), of w] l i(2) q unfolding r_def by (auto simp: line_ops_def)
    qed
  qed
  moreover have "\<forall>w. \<not> mp_fault (?st w) \<and> ?st (snd (sw_time line_ops w)) = ?st w" by (simp add: line_ops_def)
  ultimately show ?thesis unfolding swd_target_def by blast
qed

theorem swd_memory_roundtrip_witness:
  "\<exists>s' s''. adiv5_mem_write (swdp_dp line_ops None) demo_ap 0x200003FD (replicate 5 0xA5)  (length (replicate 5 (0xA5 :: u8)))
      \<lparr>dp_idcode = 0, dp_targetid = 0, dp_fault = False, dp_world = (0, demo_port)\<rparr> = Some (Inr (), s') \<and>
    firmware_mem_read (swdp_dp line_ops None) demo_ap 0x200003FD (length (replicate 5 (0xA5 :: u8))) s' = Some (Inr (replicate 5 0xA5), s'')"
proof -
  let ?s = "\<lparr>dp_idcode = 0, dp_targetid = 0, dp_fault = False, dp_world = (0 :: u32, demo_port)\<rparr>"
  have "ap_csw demo_ap AND 0x37 = 0" "\<not> dp_fault ?s" "length (replicate 5 (0xA5 :: u8)) < 2 ^ 32" by (simp_all add: demo_ap_def)
  from swd_memory_roundtrip [OF line_target this] show ?thesis by blast
qed

end
