(* ===== verification/Adiv5_Ap.thy ===== *)
theory Adiv5_Ap
  imports Adiv5_Mem
begin

text \<open>
  The rest of \<open>src/src/target/adiv5.c\<close>: the reference counts of ports, the identification registers, the
  search through the ROM tables, the connection to a core and the initialisation of a debug port. The
  firmware is built with \<open>ENABLE_DEBUG\<close>, so the register reads of the log lines are part of the model;
  the text of the log lines is not.
\<close>

unbundle bit_operations_syntax

subsection \<open>Ports and their owners\<close>

text \<open>What this code calls: the functions of the debug port and its fault flag, the clock, the allocator,
  the reset line, and the settings of the controller.\<close>

record 'w ap_env =
  ae_dp :: "'w dp_ops"
  ae_fault :: "'w \<Rightarrow> bool"
  ae_time :: "'w clock"
  ae_delay :: "u32 \<Rightarrow> 'w \<Rightarrow> 'w"
  ae_alloc :: "'w \<Rightarrow> bool \<times> 'w"
  ae_srst_set_val :: "bool \<Rightarrow> 'w \<Rightarrow> 'w"
  ae_wait_timeout :: u32
  ae_connect_assert_srst :: bool

text \<open>The state: the debug port with its reference count, and the access ports on the heap by address.
  \<open>dp_live\<close> is false once the port has been given back.\<close>

record 'w ap_state =
  dp_id :: u32
  dp_target :: u32
  dp_refcnt :: int
  dp_live :: bool
  aps :: "nat \<Rightarrow> adiv5_ap option"
  ap_next :: nat
  ap_world :: 'w

definition on_world :: "('w \<Rightarrow> ('w, 'a) outcome) \<Rightarrow> 'w ap_state \<Rightarrow> ('w ap_state, 'a) outcome" where
  "on_world f s = (case f (ap_world s) of None \<Rightarrow> None | Some (r, w) \<Rightarrow> Some (r, s\<lparr>ap_world := w\<rparr>))"

text \<open>An access port that is on the heap; a pointer to one that was given back has no meaning.\<close>

definition with_ap :: "nat \<Rightarrow> (adiv5_ap \<Rightarrow> 'w ap_state \<Rightarrow> ('w ap_state, 'a) outcome) \<Rightarrow> 'w ap_state \<Rightarrow> ('w ap_state, 'a) outcome" where
  "with_ap k f s = (case aps s k of None \<Rightarrow> None | Some ap \<Rightarrow> f ap s)"

definition adiv5_ap_ref :: "nat \<Rightarrow> 'w ap_state \<Rightarrow> ('w ap_state, unit) outcome" where
  "adiv5_ap_ref k =
     with_ap k (\<lambda>ap s.
       let s = (if ap_refcnt ap = 0 then s\<lparr>dp_refcnt := dp_refcnt s + 1\<rparr> else s)
       in return () (s\<lparr>aps := (aps s)(k \<mapsto> ap\<lparr>ap_refcnt := ap_refcnt ap + 1\<rparr>)\<rparr>))"

definition adiv5_dp_unref :: "'w ap_state \<Rightarrow> 'w ap_state" where
  "adiv5_dp_unref s =
     (let s = s\<lparr>dp_refcnt := dp_refcnt s - 1\<rparr>
      in if dp_refcnt s = 0 then s\<lparr>dp_live := False\<rparr> else s)"

definition adiv5_ap_unref :: "nat \<Rightarrow> 'w ap_state \<Rightarrow> ('w ap_state, unit) outcome" where
  "adiv5_ap_unref k =
     with_ap k (\<lambda>ap s.
       let ap = ap\<lparr>ap_refcnt := ap_refcnt ap - 1\<rparr>;
           s = s\<lparr>aps := (aps s)(k \<mapsto> ap)\<rparr>
       in if ap_refcnt ap = 0 then return () ((adiv5_dp_unref s)\<lparr>aps := (aps s)(k := None)\<rparr>) else return () s)"

subsection \<open>Identification registers\<close>

fun read_id_loop :: "'w dp_ops \<Rightarrow> adiv5_ap \<Rightarrow> u32 \<Rightarrow> nat list \<Rightarrow> u32 \<Rightarrow> 'w \<Rightarrow> ('w, u32) outcome" where
  "read_id_loop D ap addr [] res s = return res s"
| "read_id_loop D ap addr (i # is) res s =
     andthen (adiv5_mem_read32 D ap (addr + 4 * word_of_nat i) s)
       (\<lambda>x. read_id_loop D ap addr is (res OR push_bit (i * 8) (x AND 0xFF)))"

definition adiv5_ap_read_id :: "'w dp_ops \<Rightarrow> adiv5_ap \<Rightarrow> u32 \<Rightarrow> 'w \<Rightarrow> ('w, u32) outcome" where
  "adiv5_ap_read_id D ap addr = read_id_loop D ap addr [0, 1, 2, 3] 0"

definition adiv5_ap_read_pidr :: "'w dp_ops \<Rightarrow> adiv5_ap \<Rightarrow> u32 \<Rightarrow> 'w \<Rightarrow> ('w, u64) outcome" where
  "adiv5_ap_read_pidr D ap addr s =
     andthen (adiv5_ap_read_id D ap (addr + 0xFD0) s) (\<lambda>hi s.
     andthen (adiv5_ap_read_id D ap (addr + 0xFE0) s) (\<lambda>lo.
     return (push_bit 32 (ucast hi) OR ucast lo)))"

subsection \<open>Halting a core\<close>

definition CORTEXM_DHCSR :: u32 where "CORTEXM_DHCSR = 0xE000EDF0"
definition CORTEXM_DEMCR :: u32 where "CORTEXM_DEMCR = 0xE000EDFC"
definition DHCSR_S_RESET_ST :: u32 where "DHCSR_S_RESET_ST = 0x02000000"
definition DP_CTRLSTAT :: u16 where "DP_CTRLSTAT = 0x4"

text \<open>The loop: \<open>trncnt\<close> is the transaction counter, which grows with the time, \<open>reset_seen\<close> tells that
  one halt under reset has been ignored.\<close>

partial_function (option) initial_halt_loop ::
  "'w ap_env \<Rightarrow> adiv5_ap \<Rightarrow> bool \<Rightarrow> u32 \<Rightarrow> u32 \<Rightarrow> u32 \<Rightarrow> u32 \<Rightarrow> bool \<Rightarrow> 'w \<Rightarrow> ('w, u32) outcome" where
  "initial_halt_loop E ap use_low_access ctrlstat to start_time trncnt reset_seen s =
     (case platform_timeout_is_expired (ae_time E) to s of (expired, s) \<Rightarrow>
        if expired then return 0 s
        else
          andthen
            (if use_low_access then
               andthen (dp_low_access (ae_dp E) False DP_CTRLSTAT (ctrlstat OR (trncnt * 0x1000)) s) (\<lambda>x s.
               andthen (dp_low_access (ae_dp E) False AP_DRW 0xA05F0003 s) (\<lambda>x s.
               case (if sint trncnt < 0xFFF then (case ae_time E s of (now, s) \<Rightarrow> (trncnt + (now - start_time) * 8, s)) else (0xFFF, s))
               of (trncnt, s) \<Rightarrow>
               andthen (dp_low_access (ae_dp E) True AP_DRW 0 s) (\<lambda>dhcsr. return (dhcsr, trncnt))))
             else
               andthen (adiv5_mem_write (ae_dp E) ap CORTEXM_DHCSR (le_bytes 4 (unat (0xA05F0003 :: u32))) 4 s) (\<lambda>x s.
               andthen (adiv5_mem_read32 (ae_dp E) ap CORTEXM_DHCSR s) (\<lambda>dhcsr. return (dhcsr, trncnt))))
            (\<lambda>(dhcsr, trncnt) s.
               if dhcsr \<noteq> 0xFFFFFFFF \<and> dhcsr AND 0xF000FFF0 = 0 then
                 if dhcsr AND DHCSR_S_RESET_ST \<noteq> 0 \<and> \<not> reset_seen then
                   if ae_connect_assert_srst E then return dhcsr s
                   else initial_halt_loop E ap use_low_access ctrlstat to start_time trncnt True s
                 else if dhcsr AND 0x20001 = 0x20001 then return dhcsr s
                 else initial_halt_loop E ap use_low_access ctrlstat to start_time trncnt reset_seen s
               else initial_halt_loop E ap use_low_access ctrlstat to start_time trncnt reset_seen s))"

definition cortexm_initial_halt :: "'w ap_env \<Rightarrow> u32 \<Rightarrow> adiv5_ap \<Rightarrow> 'w \<Rightarrow> ('w, u32) outcome" where
  "cortexm_initial_halt E idcode ap s =
     andthen (dp_read (ae_dp E) DP_CTRLSTAT s) (\<lambda>ctrlstat s.
       let (to, s) = platform_timeout_set (ae_time E) (ae_wait_timeout E) s;
           use_low_access = (idcode AND 0x10000 = 0)
       in andthen
            (if use_low_access then
               andthen (firmware_ap_write (ae_dp E) ap AP_CSW (ap_csw ap OR 2) s) (\<lambda>x s.
               andthen (dp_low_access (ae_dp E) False AP_TAR CORTEXM_DHCSR s) (\<lambda>x. return ()))
             else return () s)
            (\<lambda>x s. let (start_time, s) = ae_time E s
                   in initial_halt_loop E ap use_low_access ctrlstat to start_time 0x80 False s))"

partial_function (option) wait_reset_released :: "'w ap_env \<Rightarrow> adiv5_ap \<Rightarrow> u32 \<Rightarrow> 'w \<Rightarrow> ('w, bool) outcome" where
  "wait_reset_released E ap to s =
     andthen (adiv5_mem_read32 (ae_dp E) ap CORTEXM_DHCSR s) (\<lambda>dhcsr s.
       if dhcsr AND DHCSR_S_RESET_ST = 0 then return True s
       else (case platform_timeout_is_expired (ae_time E) to s of (expired, s) \<Rightarrow>
               if expired then return False s else wait_reset_released E ap to s))"

text \<open>The result is whether it succeeded, with the access port as it is left.\<close>

definition cortexm_prepare :: "'w ap_env \<Rightarrow> u32 \<Rightarrow> u32 \<Rightarrow> adiv5_ap \<Rightarrow> 'w \<Rightarrow> ('w, bool \<times> adiv5_ap) outcome" where
  "cortexm_prepare E idcode targetid ap s =
     andthen (cortexm_initial_halt E idcode ap s) (\<lambda>dhcsr s.
       if dhcsr = 0 then andthen (adiv5_mem_read32 (ae_dp E) ap CORTEXM_DHCSR s) (\<lambda>x. return (False, ap))
       else
         andthen (adiv5_mem_read32 (ae_dp E) ap CORTEXM_DEMCR s) (\<lambda>demcr s.
           let ap = ap\<lparr>ap_cortexm_demcr := demcr\<rparr>
           in andthen (adiv5_mem_write (ae_dp E) ap CORTEXM_DEMCR (le_bytes 4 (unat (0x01000401 :: u32))) 4 s) (\<lambda>x s.
              let (to, s) = platform_timeout_set (ae_time E) (ae_wait_timeout E) s;
                  s = ae_srst_set_val E False s
              in andthen (wait_reset_released E ap to s) (\<lambda>ok s.
                 if \<not> ok then return (False, ap) s
                 else if drop_bit 1 targetid AND 0x7FF = 0x20 \<and> drop_bit 16 targetid AND 0xFFF \<in> {0x449, 0x451, 0x452} then
                   andthen (adiv5_mem_read32 (ae_dp E) ap 0xE0042004 s) (\<lambda>v s.
                   andthen (adiv5_mem_write (ae_dp E) ap 0xE0042004 (le_bytes 4 (unat (v OR 7))) 4 s) (\<lambda>x.
                   return (True, ap\<lparr>ap_storage := v\<rparr>)))
                 else return (True, ap) s))))"

subsection \<open>ROM tables\<close>

datatype cid_class = cidc_romtab | cidc_dc | cidc_gipc | cidc_unknown
datatype arm_arch = aa_nosupport | aa_cortexm | aa_cortexa | aa_end

text \<open>The part list: part number, device type, architecture id, what to do, the expected class.\<close>

definition pidr_pn_bits :: "(u16 \<times> u8 \<times> u16 \<times> arm_arch \<times> cid_class) list" where
  "pidr_pn_bits =
    [(0x000, 0x00, 0, aa_cortexm, cidc_gipc), (0x001, 0x00, 0, aa_nosupport, cidc_unknown), (0x002, 0x00, 0, aa_nosupport, cidc_unknown),
     (0x003, 0x00, 0, aa_nosupport, cidc_unknown), (0x008, 0x00, 0, aa_cortexm, cidc_gipc), (0x00a, 0x00, 0, aa_nosupport, cidc_unknown),
     (0x00b, 0x00, 0, aa_nosupport, cidc_unknown), (0x00c, 0x00, 0, aa_cortexm, cidc_gipc), (0x00d, 0x00, 0, aa_nosupport, cidc_unknown),
     (0x00e, 0x00, 0, aa_nosupport, cidc_unknown), (0x101, 0x00, 0, aa_nosupport, cidc_unknown), (0x471, 0x00, 0, aa_nosupport, cidc_unknown),
     (0x490, 0x00, 0, aa_nosupport, cidc_unknown), (0x4c0, 0x00, 0, aa_nosupport, cidc_unknown), (0x4c3, 0x00, 0, aa_nosupport, cidc_unknown),
     (0x4c4, 0x00, 0, aa_nosupport, cidc_unknown), (0x4c7, 0x00, 0, aa_nosupport, cidc_unknown), (0x4c8, 0x00, 0, aa_nosupport, cidc_unknown),
     (0x906, 0x14, 0, aa_nosupport, cidc_unknown), (0x907, 0x21, 0, aa_nosupport, cidc_unknown), (0x908, 0x12, 0, aa_nosupport, cidc_unknown),
     (0x910, 0x00, 0, aa_nosupport, cidc_unknown), (0x912, 0x11, 0, aa_nosupport, cidc_unknown), (0x913, 0x00, 0, aa_nosupport, cidc_unknown),
     (0x914, 0x11, 0, aa_nosupport, cidc_unknown), (0x917, 0x00, 0, aa_nosupport, cidc_unknown), (0x920, 0x00, 0, aa_nosupport, cidc_unknown),
     (0x921, 0x00, 0, aa_nosupport, cidc_unknown), (0x922, 0x00, 0, aa_nosupport, cidc_unknown), (0x923, 0x11, 0, aa_nosupport, cidc_unknown),
     (0x924, 0x13, 0, aa_nosupport, cidc_unknown), (0x925, 0x13, 0, aa_nosupport, cidc_unknown), (0x930, 0x00, 0, aa_nosupport, cidc_unknown),
     (0x932, 0x31, 0x0a31, aa_nosupport, cidc_unknown), (0x941, 0x00, 0, aa_nosupport, cidc_unknown), (0x950, 0x00, 0, aa_nosupport, cidc_unknown),
     (0x955, 0x00, 0, aa_nosupport, cidc_unknown), (0x956, 0x13, 0, aa_nosupport, cidc_unknown), (0x95f, 0x00, 0, aa_nosupport, cidc_unknown),
     (0x961, 0x32, 0, aa_nosupport, cidc_unknown), (0x962, 0x00, 0, aa_nosupport, cidc_unknown), (0x963, 0x63, 0x0a63, aa_nosupport, cidc_unknown),
     (0x975, 0x13, 0x4a13, aa_nosupport, cidc_unknown), (0x9a0, 0x00, 0, aa_nosupport, cidc_unknown), (0x9a1, 0x11, 0, aa_nosupport, cidc_unknown),
     (0x9a9, 0x11, 0, aa_nosupport, cidc_unknown), (0x9a5, 0x00, 0, aa_nosupport, cidc_unknown), (0x9a7, 0x16, 0, aa_nosupport, cidc_unknown),
     (0x9af, 0x00, 0, aa_nosupport, cidc_unknown), (0xc05, 0x00, 0, aa_cortexa, cidc_dc), (0xc07, 0x15, 0, aa_cortexa, cidc_dc),
     (0xc08, 0x00, 0, aa_cortexa, cidc_dc), (0xc09, 0x00, 0, aa_cortexa, cidc_dc), (0xc0f, 0x00, 0, aa_nosupport, cidc_unknown),
     (0xc14, 0x00, 0, aa_nosupport, cidc_unknown), (0xcd0, 0x00, 0, aa_nosupport, cidc_unknown), (0xd20, 0x00, 0x2a04, aa_cortexm, cidc_dc),
     (0xd20, 0x11, 0, aa_nosupport, cidc_dc), (0xd20, 0x13, 0, aa_nosupport, cidc_dc), (0xd20, 0x31, 0x0a31, aa_nosupport, cidc_dc),
     (0xd20, 0x00, 0x1a02, aa_nosupport, cidc_dc), (0xd20, 0x00, 0x1a03, aa_nosupport, cidc_dc), (0xd20, 0x14, 0x1a14, aa_nosupport, cidc_dc),
     (0xd21, 0x00, 0x2a04, aa_cortexm, cidc_dc), (0xd21, 0x31, 0x0a31, aa_nosupport, cidc_dc), (0xd21, 0x43, 0x1a01, aa_nosupport, cidc_dc),
     (0xd21, 0x00, 0x1a02, aa_nosupport, cidc_dc), (0xd21, 0x00, 0x1a03, aa_nosupport, cidc_dc), (0xd21, 0x14, 0x1a14, aa_nosupport, cidc_dc),
     (0xd21, 0x13, 0x4a13, aa_nosupport, cidc_dc), (0xd21, 0x11, 0, aa_nosupport, cidc_dc), (0xfff, 0x00, 0, aa_end, cidc_unknown)]"

fun lookup_part :: "u16 \<Rightarrow> u8 \<Rightarrow> u16 \<Rightarrow> (u16 \<times> u8 \<times> u16 \<times> arm_arch \<times> cid_class) list \<Rightarrow> arm_arch" where
  "lookup_part part dev_type arch_id [] = aa_end"
| "lookup_part part dev_type arch_id ((p, d, a, arch, c) # rest) =
     (if arch = aa_end then aa_end
      else if p = part \<and> d = dev_type \<and> a = arch_id then arch
      else lookup_part part dev_type arch_id rest)"

text \<open>A probe of a component, or the rest of a ROM table from an entry on.\<close>

datatype rom_job = Component u32 nat | Entries u32 nat nat

record 'w probes =
  pr_cortexm :: "nat \<Rightarrow> 'w ap_state \<Rightarrow> ('w ap_state, unit) outcome"
  pr_cortexa :: "nat \<Rightarrow> u32 \<Rightarrow> 'w ap_state \<Rightarrow> ('w ap_state, unit) outcome"
  pr_kinetis_mdm :: "nat \<Rightarrow> 'w ap_state \<Rightarrow> ('w ap_state, unit) outcome"
  pr_nrf51_mdm :: "nat \<Rightarrow> 'w ap_state \<Rightarrow> ('w ap_state, unit) outcome"
  pr_efm32_aap :: "nat \<Rightarrow> 'w ap_state \<Rightarrow> ('w ap_state, unit) outcome"
  pr_rp_rescue :: "nat \<Rightarrow> 'w ap_state \<Rightarrow> ('w ap_state, unit) outcome"
  pr_resume_all :: "'w ap_state \<Rightarrow> ('w ap_state, unit) outcome"

definition read32 :: "'w ap_env \<Rightarrow> nat \<Rightarrow> u32 \<Rightarrow> 'w ap_state \<Rightarrow> ('w ap_state, u32) outcome" where
  "read32 E k addr = with_ap k (\<lambda>ap. on_world (adiv5_mem_read32 (ae_dp E) ap addr))"

definition dp_errors :: "'w ap_env \<Rightarrow> 'w ap_state \<Rightarrow> ('w ap_state, u32) outcome" where
  "dp_errors E = on_world (dp_error (ae_dp E))"

text \<open>A component that is no ROM table: it is identified and its core probed.\<close>

definition probe_part :: "'w ap_env \<Rightarrow> 'w probes \<Rightarrow> nat \<Rightarrow> u32 \<Rightarrow> u32 \<Rightarrow> u64 \<Rightarrow> 'w ap_state \<Rightarrow> ('w ap_state, unit) outcome" where
  "probe_part E P k addr cid pidr s =
     (if pidr AND NOT (0xFFF00000 OR 0xFFF) \<noteq> 0x4000BB000 then return () s
      else andthen
        (if cid = 9 then
           andthen (read32 E k (addr + 0xFCC) s) (\<lambda>devtype s.
           andthen (read32 E k (addr + 0xFBC) s) (\<lambda>devarch.
           return (ucast (devtype AND 0xFF), if devarch AND 0x100000 \<noteq> 0 then ucast (devarch AND 0xFFFF) else 0)))
         else return (0, 0) s)
        (\<lambda>(dev_type, arch_id) s.
           case lookup_part (ucast (pidr AND 0xFFF)) dev_type arch_id pidr_pn_bits of
             aa_cortexm \<Rightarrow> pr_cortexm P k s
           | aa_cortexa \<Rightarrow> pr_cortexa P k addr s
           | _ \<Rightarrow> return () s))"

text \<open>The designer and the part number of the root table go into the access port; the result is whether
  the search stops here, at a protected device.\<close>

definition root_table :: "'w ap_env \<Rightarrow> 'w probes \<Rightarrow> nat \<Rightarrow> u64 \<Rightarrow> 'w ap_state \<Rightarrow> ('w ap_state, bool) outcome" where
  "root_table E P k pidr =
     with_ap k (\<lambda>ap s.
       let designer = ucast ((drop_bit 24 pidr AND 0xF00) OR (drop_bit 12 pidr AND 0x7F));
           partno = ucast (pidr AND 0xFFF);
           s = s\<lparr>aps := (aps s)(k \<mapsto> ap\<lparr>ap_designer := designer, ap_partno := partno\<rparr>)\<rparr>
       in if designer = 0x01F \<and> partno = 0xCD0 then
            andthen (read32 E k 0x41002100 s) (\<lambda>ctrlstat s.
              if ctrlstat AND 0x10000 \<noteq> 0 then andthen (pr_cortexm P k s) (\<lambda>x. return True) else return False s)
          else return False s)"

partial_function (option) rom_search :: "'w ap_env \<Rightarrow> 'w probes \<Rightarrow> nat \<Rightarrow> rom_job \<Rightarrow> 'w ap_state \<Rightarrow> ('w ap_state, unit) outcome" where
  "rom_search E Pr k job s =
     (case job of
        Component addr recursion \<Rightarrow>
          let addr = addr AND 0xFFFFF000
          in if addr = 0 then return () s
             else andthen (with_ap k (\<lambda>ap. on_world (adiv5_ap_read_id (ae_dp E) ap (addr + 0xFF0))) s) (\<lambda>cidr s.
               if ae_fault E (ap_world s) then return () s
               else if cidr AND NOT 0xF000 \<noteq> 0xB105000D then return () s
               else andthen (dp_errors E s) (\<lambda>err s.
                 if err \<noteq> 0 then return () s
                 else andthen (with_ap k (\<lambda>ap. on_world (adiv5_ap_read_pidr (ae_dp E) ap addr)) s) (\<lambda>pidr s.
                   if drop_bit 12 (cidr AND 0xF000) = 1 then
                     andthen (read32 E k (addr OR 0xFCC) s) (\<lambda>memtype s.
                     andthen (dp_errors E s) (\<lambda>err s.
                     andthen (if recursion = 0 then root_table E Pr k pidr s else return False s) (\<lambda>stop s.
                     if stop then return () s else rom_search E Pr k (Entries addr 0 recursion) s)))
                   else probe_part E Pr k addr (drop_bit 12 (cidr AND 0xF000)) pidr s)))
      | Entries addr i recursion \<Rightarrow>
          if i < 960 then
            andthen (dp_errors E s) (\<lambda>x s.
            andthen (read32 E k (addr + word_of_nat i * 4) s) (\<lambda>entry s.
            andthen (dp_errors E s) (\<lambda>err s.
              if err \<noteq> 0 \<or> entry = 0 then return () s
              else if entry AND 1 = 0 then rom_search E Pr k (Entries addr (i + 1) recursion) s
              else andthen (rom_search E Pr k (Component (addr + (entry AND 0xFFFFF000)) (recursion + 1)) s)
                     (\<lambda>x s. rom_search E Pr k (Entries addr (i + 1) recursion) s))))
          else return () s)"

definition adiv5_component_probe :: "'w ap_env \<Rightarrow> 'w probes \<Rightarrow> nat \<Rightarrow> u32 \<Rightarrow> nat \<Rightarrow> 'w ap_state \<Rightarrow> ('w ap_state, unit) outcome" where
  "adiv5_component_probe E P k addr recursion = rom_search E P k (Component addr recursion)"

subsection \<open>Initialising a debug port\<close>

definition AP_CFG :: u16 where "AP_CFG = 0x1F4"
definition AP_BASE :: u16 where "AP_BASE = 0x1F8"
definition AP_IDR :: u16 where "AP_IDR = 0x1FC"

definition zero_ap :: "u8 \<Rightarrow> adiv5_ap" where
  "zero_ap apsel = \<lparr>ap_refcnt = 0, ap_apsel = apsel, ap_idr = 0, ap_base = 0, ap_csw = 0, ap_cortexm_demcr = 0,
     ap_storage = 0, ap_designer = 0, ap_partno = 0\<rparr>"

text \<open>A copy on the heap; nothing if the allocation fails.\<close>

definition alloc_ap :: "'w ap_env \<Rightarrow> adiv5_ap \<Rightarrow> 'w ap_state \<Rightarrow> nat option \<times> 'w ap_state" where
  "alloc_ap E ap s =
     (case ae_alloc E (ap_world s) of
        (False, w) \<Rightarrow> (None, s\<lparr>ap_world := w\<rparr>)
      | (True, w) \<Rightarrow> (Some (ap_next s), s\<lparr>ap_world := w, aps := (aps s)(ap_next s \<mapsto> ap), ap_next := ap_next s + 1\<rparr>))"

definition adiv5_new_ap :: "'w ap_env \<Rightarrow> u8 \<Rightarrow> 'w ap_state \<Rightarrow> ('w ap_state, nat option) outcome" where
  "adiv5_new_ap E apsel s =
     andthen (on_world (firmware_ap_read (ae_dp E) (zero_ap apsel) AP_IDR) s) (\<lambda>idr s.
     andthen (on_world (firmware_ap_read (ae_dp E) (zero_ap apsel) AP_BASE) s) (\<lambda>base s.
       if base = 0xFFFFFFFF then return None s
       else if idr = 0 then return None s
       else andthen (on_world (firmware_ap_read (ae_dp E) (zero_ap apsel) AP_CSW) s) (\<lambda>csw s.
         let csw = csw AND NOT 0x37
         in if csw AND 0x80 \<noteq> 0 then return None s
            else case alloc_ap E ((zero_ap apsel)\<lparr>ap_idr := idr, ap_base := base, ap_csw := csw\<rparr>) s of
                   (None, s) \<Rightarrow> return None s
                 | (Some k, s) \<Rightarrow>
                     andthen (with_ap k (\<lambda>ap. on_world (firmware_ap_read (ae_dp E) ap AP_CFG)) s) (\<lambda>cfg s.
                     andthen (adiv5_ap_ref k s) (\<lambda>x. return (Some k))))))"

definition rp_rescue_setup :: "'w ap_env \<Rightarrow> 'w probes \<Rightarrow> 'w ap_state \<Rightarrow> ('w ap_state, unit) outcome" where
  "rp_rescue_setup E P s =
     (case alloc_ap E (zero_ap 0) s of (None, s) \<Rightarrow> return () s | (Some k, s) \<Rightarrow> pr_rp_rescue P k s)"

definition free_dp :: "'w ap_state \<Rightarrow> 'w ap_state" where
  "free_dp s = s\<lparr>dp_live := False\<rparr>"

partial_function (option) wait_powerup :: "'w ap_env \<Rightarrow> u32 \<Rightarrow> 'w \<Rightarrow> ('w, bool) outcome" where
  "wait_powerup E timeout s =
     andthen (dp_read (ae_dp E) DP_CTRLSTAT s) (\<lambda>ctrlstat s.
       if ctrlstat AND 0xA0000000 = 0xA0000000 then return True s
       else (case platform_timeout_is_expired (ae_time E) timeout s of (expired, s) \<Rightarrow>
               if expired then return False s else wait_powerup E timeout s))"

partial_function (option) wait_dbg_reset :: "'w ap_env \<Rightarrow> u32 \<Rightarrow> 'w \<Rightarrow> ('w, unit) outcome" where
  "wait_dbg_reset E timeout s =
     andthen (dp_read (ae_dp E) DP_CTRLSTAT (ae_delay E 20 s)) (\<lambda>ctrlstat s.
       if ctrlstat AND 0x08000000 \<noteq> 0 then return () s
       else (case platform_timeout_is_expired (ae_time E) timeout s of (expired, s) \<Rightarrow>
               if expired then return () s else wait_dbg_reset E timeout s))"

text \<open>From the first read of \<open>CTRLSTAT\<close> to the end of the debug reset; false if the power-up failed.\<close>

definition power_up :: "'w ap_env \<Rightarrow> 'w \<Rightarrow> ('w, bool) outcome" where
  "power_up E s =
     andthen
       (try_catch EXCEPTION_TIMEOUT (dp_read (ae_dp E) DP_CTRLSTAT s)
          (\<lambda>e x s. case x of
             Some ctrlstat \<Rightarrow> return ctrlstat s
           | None \<Rightarrow> andthen (dp_abort (ae_dp E) 1 s) (\<lambda>x. dp_read (ae_dp E) DP_CTRLSTAT)))
       (\<lambda>ctrlstat s.
          let (timeout, s) = platform_timeout_set (ae_time E) 201 s
          in andthen (adiv5_dp_write (ae_dp E) DP_CTRLSTAT (ctrlstat OR 0x50000000) s) (\<lambda>x s.
             andthen (wait_powerup E timeout s) (\<lambda>ok s.
               if \<not> ok then return False s
               else andthen (dp_read (ae_dp E) DP_CTRLSTAT s) (\<lambda>ctrlstat s.
                    andthen (adiv5_dp_write (ae_dp E) DP_CTRLSTAT (ctrlstat OR 0x04000000) s) (\<lambda>x s.
                    andthen (dp_read (ae_dp E) DP_CTRLSTAT s) (\<lambda>ctrlstat s.
                    andthen (adiv5_dp_write (ae_dp E) DP_CTRLSTAT (ctrlstat AND NOT 0x04000000) s) (\<lambda>x s.
                    andthen (dp_read (ae_dp E) DP_CTRLSTAT s) (\<lambda>ctrlstat s.
                    andthen (wait_dbg_reset E timeout s) (\<lambda>x. return True)))))))))"

text \<open>One access port that was found.\<close>

definition probe_ap :: "'w ap_env \<Rightarrow> 'w probes \<Rightarrow> nat \<Rightarrow> 'w ap_state \<Rightarrow> ('w ap_state, unit) outcome" where
  "probe_ap E P k s =
     andthen (pr_kinetis_mdm P k s) (\<lambda>x s.
     andthen (pr_nrf51_mdm P k s) (\<lambda>x s.
     andthen (pr_efm32_aap P k s) (\<lambda>x s.
     andthen (with_ap k (\<lambda>ap s.
        if ap_apsel ap = 0 \<and> ap_idr ap AND 0xF = 1
        then andthen (on_world (cortexm_prepare E (dp_id s) (dp_target s) ap) s)
               (\<lambda>(ok, ap') s. return () (s\<lparr>aps := (aps s)(k \<mapsto> ap')\<rparr>))
        else return () s) s) (\<lambda>x s.
     andthen (with_ap k (\<lambda>ap. adiv5_component_probe E P k (ap_base ap) 0) s) (\<lambda>x.
     adiv5_ap_unref k)))))"

text \<open>The access ports from number \<open>i\<close> on; true if the search went to its end.\<close>

fun probe_aps :: "'w ap_env \<Rightarrow> 'w probes \<Rightarrow> nat \<Rightarrow> nat \<Rightarrow> u32 \<Rightarrow> nat \<Rightarrow> 'w ap_state \<Rightarrow> ('w ap_state, bool) outcome" where
  "probe_aps E P 0 i last_base void_aps s = return True s"
| "probe_aps E P (Suc n) i last_base void_aps s =
     (if 8 \<le> void_aps then return True s
      else andthen (adiv5_new_ap E (word_of_nat i) s) (\<lambda>ap s.
        case ap of
          None \<Rightarrow>
            if i = 0 then return False (adiv5_dp_unref s)
            else probe_aps E P n (i + 1) last_base (void_aps + 1) s
        | Some k \<Rightarrow>
            with_ap k (\<lambda>ap s.
              if ap_base ap = last_base
              then andthen (adiv5_ap_unref k s) (\<lambda>x s. return False (adiv5_dp_unref s))
              else andthen (probe_ap E P k s) (\<lambda>x. probe_aps E P n (i + 1) (ap_base ap) void_aps)) s))"

definition adiv5_dp_init :: "'w ap_env \<Rightarrow> 'w probes \<Rightarrow> 'w ap_state \<Rightarrow> ('w ap_state, unit) outcome" where
  "adiv5_dp_init E P s =
     (if dp_id s AND 0xFFF = 0 \<or> dp_id s AND 0x0FF00000 = 0x0FF00000 then return () (free_dp s)
      else if dp_id s = 0x10212927 then rp_rescue_setup E P s
      else andthen (on_world (power_up E) s) (\<lambda>ok s.
        if \<not> ok then return () (free_dp s)
        else andthen (probe_aps E P 256 0 0 0 (s\<lparr>dp_refcnt := dp_refcnt s + 1\<rparr>)) (\<lambda>complete s.
          if \<not> complete then return () s
          else andthen (pr_resume_all P s) (\<lambda>x s. return () (adiv5_dp_unref s)))))"

subsection \<open>Who holds the debug port\<close>

text \<open>\<open>after Q m\<close>: \<open>m\<close> leaves a state with \<open>Q\<close> if it returns without an exception.

  The reference count of the debug port counts the access ports on the heap and \<open>n\<close> owners besides.\<close>

definition refs_ok :: "nat \<Rightarrow> 'w ap_state \<Rightarrow> bool" where
  "refs_ok n s \<longleftrightarrow> dp_live s \<and> finite (dom (aps s)) \<and> (\<forall>k ap. aps s k = Some ap \<longrightarrow> 0 < ap_refcnt ap \<and> k < ap_next s) \<and>
     dp_refcnt s = int (card (dom (aps s))) + int n"

definition after :: "('a \<Rightarrow> 's \<Rightarrow> bool) \<Rightarrow> ('s, 'a) outcome \<Rightarrow> bool" where
  "after Q m \<longleftrightarrow> (\<forall>x s. m = Some (Inr x, s) \<longrightarrow> Q x s)"

lemma after_andthen: "after R m \<Longrightarrow> (\<And>x s. R x s \<Longrightarrow> after Q (f x s)) \<Longrightarrow> after Q (andthen m f)"
  unfolding after_def by (auto simp: andthen_Some_iff)

lemma after_any: "(\<And>x s. after Q (f x s)) \<Longrightarrow> after Q (andthen m f)"
  by (rule after_andthen [where R = "\<lambda>x s. True"]) (simp_all add: after_def)

lemma after_basic [simp, intro]:
  "after Q None" "Q x s \<Longrightarrow> after Q (return x s)" "after Q (raise_exn ty msg s)"
  by (simp_all add: after_def return_def raise_exn_def)

lemma after_on_world: "(\<And>x w. Q x (s\<lparr>ap_world := w\<rparr>)) \<Longrightarrow> after Q (on_world f s)"
  by (auto simp: after_def on_world_def split: option.splits)

lemma after_with_ap: "(\<And>ap. aps s k = Some ap \<Longrightarrow> after Q (f ap s)) \<Longrightarrow> after Q (with_ap k f s)"
  by (simp add: with_ap_def split: option.split)

definition holds :: "nat \<Rightarrow> 'w ap_state \<Rightarrow> bool" where
  "holds k s \<longleftrightarrow> refs_ok 1 s \<and> aps s k \<noteq> None"

lemma refs_world [simp]: "refs_ok n (s\<lparr>ap_world := w\<rparr>) = refs_ok n s" "holds k (s\<lparr>ap_world := w\<rparr>) = holds k s"
  by (simp_all add: refs_ok_def holds_def)

lemma refs_update:
  assumes "refs_ok n s" "aps s k = Some ap" "0 < ap_refcnt ap'"
  shows "refs_ok n (s\<lparr>aps := (aps s)(k \<mapsto> ap')\<rparr>)"
proof -
  have "insert k (dom (aps s)) = dom (aps s)" using assms(2) by auto
  then show ?thesis using assms by (auto simp: refs_ok_def)
qed

lemma holds_update:
  "holds k s \<Longrightarrow> aps s k = Some ap \<Longrightarrow> ap_refcnt ap' = ap_refcnt ap \<Longrightarrow> holds k (s\<lparr>aps := (aps s)(k \<mapsto> ap')\<rparr>)"
  using refs_update [of 1 s k ap ap'] by (auto simp: holds_def refs_ok_def)

lemma unref_holds:
  assumes "refs_ok n s" "0 < n" "aps s k \<noteq> None"
  shows "after (\<lambda>x. refs_ok n) (adiv5_ap_unref k s)"
proof -
  from assms(3) obtain ap where ap: "aps s k = Some ap" by auto
  show ?thesis
  proof (cases "ap_refcnt ap = 1")
    case True
    have c: "card (dom (aps s)) = Suc (card (dom (aps s) - {k}))"
      using assms(1) ap by (intro card.remove) (auto simp: refs_ok_def)
    then have "dp_refcnt s - 1 \<noteq> 0" "dp_refcnt s - 1 = int (card (dom (aps s) - {k})) + int n"
      using assms(1,2) by (auto simp: refs_ok_def)
    then show ?thesis using True ap assms(1)
      by (auto simp: adiv5_ap_unref_def with_ap_def adiv5_dp_unref_def refs_ok_def Let_def after_def return_def)
  next
    case False
    then have "0 < ap_refcnt ap - 1" using assms(1) ap by (force simp: refs_ok_def)
    then show ?thesis using False refs_update [OF assms(1) ap, of "ap\<lparr>ap_refcnt := ap_refcnt ap - 1\<rparr>"]
      by (simp add: adiv5_ap_unref_def with_ap_def ap)
  qed
qed

lemma ref_new:
  assumes "refs_ok n t" "ap_refcnt ap = 0"
  shows "after (\<lambda>x s. refs_ok n s \<and> aps s (ap_next t) \<noteq> None)
    (adiv5_ap_ref (ap_next t) (t\<lparr>ap_world := w, aps := (aps t)(ap_next t \<mapsto> ap), ap_next := ap_next t + 1\<rparr>))"
proof -
  have "aps t (ap_next t) = None" using assms(1) by (cases "aps t (ap_next t)") (auto simp: refs_ok_def)
  then show ?thesis using assms by (auto simp: adiv5_ap_ref_def with_ap_def after_def return_def Let_def refs_ok_def domIff less_Suc_eq)
qed

definition found :: "nat \<Rightarrow> nat option \<Rightarrow> 'w ap_state \<Rightarrow> bool" where
  "found n x s \<longleftrightarrow> refs_ok n s \<and> (\<forall>k. x = Some k \<longrightarrow> aps s k \<noteq> None)"

lemma keep_new:
  assumes "refs_ok n t" "ap_refcnt ap = 0"
  shows "after (found n)
    (case alloc_ap E ap t of (None, s) \<Rightarrow> return None s
     | (Some k, s) \<Rightarrow> andthen (with_ap k (\<lambda>ap. on_world (firmware_ap_read (ae_dp E) ap AP_CFG)) s) (\<lambda>cfg s.
         andthen (adiv5_ap_ref k s) (\<lambda>x. return (Some k))))"
proof -
  obtain b v where a: "ae_alloc E (ap_world t) = (b, v)" by fastforce
  show ?thesis
  proof (cases b)
    case False
    then show ?thesis using a assms by (simp add: alloc_ap_def found_def)
  next
    case True
    let ?k = "ap_next t" and ?t = "\<lambda>w. t\<lparr>ap_world := w, aps := (aps t)(ap_next t \<mapsto> ap), ap_next := ap_next t + 1\<rparr>"
    have m1: "after (\<lambda>x s. s = ?t (ap_world s)) (with_ap ?k (\<lambda>ap. on_world (firmware_ap_read (ae_dp E) ap AP_CFG)) (?t v))"
      by (rule after_with_ap, rule after_on_world) simp
    have m2: "after (found n) (andthen (adiv5_ap_ref ?k (?t w)) (\<lambda>x. return (Some ?k)))" for w
      using ref_new [OF assms, of w] by (rule after_andthen) (auto simp: found_def)
    have "after (found n) (andthen (with_ap ?k (\<lambda>ap. on_world (firmware_ap_read (ae_dp E) ap AP_CFG)) (?t v)) (\<lambda>cfg s.
         andthen (adiv5_ap_ref ?k s) (\<lambda>x. return (Some ?k))))" using m1 by (rule after_andthen) (metis m2)
    then show ?thesis using True a by (simp add: alloc_ap_def)
  qed
qed

lemma new_ap_refs: "refs_ok n s \<Longrightarrow> after (found n) (adiv5_new_ap E apsel s)"
  unfolding adiv5_new_ap_def
  apply (rule after_andthen [where R = "\<lambda>x. refs_ok n"], rule after_on_world, simp)
  apply (rule after_andthen [where R = "\<lambda>x. refs_ok n"], rule after_on_world, simp)
  apply (simp add: found_def del: andthen_simps)
  apply (intro impI)
  apply (rule after_andthen [where R = "\<lambda>x. refs_ok n"], rule after_on_world, simp)
  apply (unfold Let_def if_distrib)
  apply (auto simp: found_def zero_ap_def intro!: keep_new)
  done

text \<open>The probes of the drivers may take and give back references, but keep the balance, and do not free
  the access port they are called for.\<close>

definition keeps :: "('w ap_state \<Rightarrow> bool) \<Rightarrow> ('w ap_state \<Rightarrow> ('w ap_state, 'a) outcome) \<Rightarrow> bool" where
  "keeps Q f \<longleftrightarrow> (\<forall>s. Q s \<longrightarrow> after (\<lambda>x. Q) (f s))"

definition probes_ok :: "'w probes \<Rightarrow> bool" where
  "probes_ok P \<longleftrightarrow> keeps (refs_ok 1) (pr_resume_all P) \<and>
     (\<forall>k. keeps (holds k) (pr_cortexm P k) \<and> (\<forall>addr. keeps (holds k) (pr_cortexa P k addr)) \<and>
        keeps (holds k) (pr_kinetis_mdm P k) \<and> keeps (holds k) (pr_nrf51_mdm P k) \<and> keeps (holds k) (pr_efm32_aap P k))"

lemma keepsD: "keeps Q f \<Longrightarrow> Q s \<Longrightarrow> after (\<lambda>x. Q) (f s)"
  by (simp add: keeps_def)

lemma keep_andthen: "after (\<lambda>x. Q) m \<Longrightarrow> (\<And>x s. Q s \<Longrightarrow> after (\<lambda>x. Q) (f x s)) \<Longrightarrow> after (\<lambda>x. Q) (andthen m f)"
  by (rule after_andthen)

lemma after_if: "(c \<Longrightarrow> after Q a) \<Longrightarrow> (\<not> c \<Longrightarrow> after Q b) \<Longrightarrow> after Q (if c then a else b)"
  by simp

lemma keep_world: "holds k s \<Longrightarrow> after (\<lambda>x. holds k) (on_world f s)"
  by (rule after_on_world) simp

lemma keep_with_ap: "holds k s \<Longrightarrow> (\<And>ap. aps s k = Some ap \<Longrightarrow> after (\<lambda>x. holds k) (f ap s)) \<Longrightarrow> after (\<lambda>x. holds k) (with_ap k f s)"
  by (rule after_with_ap)

lemma keep_read32: "holds k s \<Longrightarrow> after (\<lambda>x. holds k) (read32 E k addr s)"
  by (auto simp: read32_def intro!: after_with_ap after_on_world)

lemma keep_errors: "holds k s \<Longrightarrow> after (\<lambda>x. holds k) (dp_errors E s)"
  by (auto simp: dp_errors_def intro!: after_on_world)

lemmas keep_rules = keep_andthen after_if keep_world keep_with_ap keep_read32 keep_errors after_basic

lemma keep_part: "probes_ok P \<Longrightarrow> holds k s \<Longrightarrow> after (\<lambda>x. holds k) (probe_part E P k addr cid pidr s)"
  unfolding probe_part_def case_prod_unfold
  by (intro keep_rules) (auto simp: probes_ok_def intro!: keepsD split: arm_arch.split)

lemma keep_root: "probes_ok P \<Longrightarrow> holds k s \<Longrightarrow> after (\<lambda>x. holds k) (root_table E P k pidr s)"
  unfolding root_table_def Let_def
  by (intro keep_rules) (auto simp: probes_ok_def intro!: keepsD holds_update)

lemma keep_search:
  assumes "probes_ok P"
  shows "keeps (holds k) (rom_search E P k job)"
proof -
  have "probes_ok P \<longrightarrow> holds k s \<longrightarrow> (\<forall>x s'. r = (Inr x, s') \<longrightarrow> holds k s')" if run: "rom_search E P k job s = Some r" for job s r
  proof (rule rom_search.raw_induct [OF _ run, where P = "\<lambda>E P k job s r. probes_ok P \<longrightarrow> holds k s \<longrightarrow> (\<forall>x s'. r = (Inr x, s') \<longrightarrow> holds k s')"], goal_cases)
    case (1 rec E P k job s r)
    have IH: "holds k s \<Longrightarrow> after (\<lambda>x. holds k) (rec E P k job s)" if "probes_ok P" for s job
      unfolding after_def using 1(1) that by blast
    show ?case
    proof (intro impI)
      assume P: "probes_ok P" and h: "holds k s"
      note rules = keep_rules IH [OF P] keep_root [OF P] keep_part [OF P]
      have "after (\<lambda>x. holds k) (case job of
          Component addr recursion \<Rightarrow>
            let addr = addr AND 0xFFFFF000
            in if addr = 0 then return () s
               else andthen (with_ap k (\<lambda>ap. on_world (adiv5_ap_read_id (ae_dp E) ap (addr + 0xFF0))) s) (\<lambda>cidr s.
                 if ae_fault E (ap_world s) then return () s
                 else if cidr AND NOT 0xF000 \<noteq> 0xB105000D then return () s
                 else andthen (dp_errors E s) (\<lambda>err s.
                   if err \<noteq> 0 then return () s
                   else andthen (with_ap k (\<lambda>ap. on_world (adiv5_ap_read_pidr (ae_dp E) ap addr)) s) (\<lambda>pidr s.
                     if drop_bit 12 (cidr AND 0xF000) = 1 then
                       andthen (read32 E k (addr OR 0xFCC) s) (\<lambda>memtype s.
                       andthen (dp_errors E s) (\<lambda>err s.
                       andthen (if recursion = 0 then root_table E P k pidr s else return False s) (\<lambda>stop s.
                       if stop then return () s else rec E P k (Entries addr 0 recursion) s)))
                     else probe_part E P k addr (drop_bit 12 (cidr AND 0xF000)) pidr s)))
        | Entries addr i recursion \<Rightarrow>
            if i < 960 then
              andthen (dp_errors E s) (\<lambda>x s.
              andthen (read32 E k (addr + word_of_nat i * 4) s) (\<lambda>entry s.
              andthen (dp_errors E s) (\<lambda>err s.
                if err \<noteq> 0 \<or> entry = 0 then return () s
                else if entry AND 1 = 0 then rec E P k (Entries addr (i + 1) recursion) s
                else andthen (rec E P k (Component (addr + (entry AND 0xFFFFF000)) (recursion + 1)) s)
                       (\<lambda>x s. rec E P k (Entries addr (i + 1) recursion) s))))
            else return () s)" (is "after _ ?b")
        using h by (cases job, simp_all only: rom_job.case Let_def) (intro rules; assumption)+
      then show "\<forall>x s'. r = (Inr x, s') \<longrightarrow> holds k s'" using 1(2) by (simp add: after_def)
    qed
  qed
  then show ?thesis using assms by (auto simp: keeps_def after_def)
qed

lemma prepare_refcnt: "after (\<lambda>y w. ap_refcnt (snd y) = ap_refcnt ap) (cortexm_prepare E i t ap w)"
  unfolding cortexm_prepare_def Let_def case_prod_unfold by (intro after_any after_if after_basic) simp_all

lemma after_world_value:
  assumes "\<And>w. after (\<lambda>x w. R x) (f w)"
  shows "after (\<lambda>x s'. R x \<and> (\<exists>w. s' = s\<lparr>ap_world := w\<rparr>)) (on_world f s)"
proof -
  have "R x \<and> (\<exists>w. s' = s\<lparr>ap_world := w\<rparr>)" if r: "on_world f s = Some (Inr x, s')" for x s'
  proof -
    from r obtain w where "f (ap_world s) = Some (Inr x, w)" "s' = s\<lparr>ap_world := w\<rparr>" by (auto simp: on_world_def split: option.splits)
    with assms [of "ap_world s"] show ?thesis by (simp only: after_def) blast
  qed
  then show ?thesis by (simp only: after_def) blast
qed

lemma keep_prepare:
  assumes h: "holds k s" and a: "aps s k = Some ap"
  shows "after (\<lambda>x. holds k) (andthen (on_world (cortexm_prepare E i t ap) s) (\<lambda>y s. return () (s\<lparr>aps := (aps s)(k \<mapsto> snd y)\<rparr>)))"
proof (rule after_andthen)
  show "after (\<lambda>y s'. ap_refcnt (snd y) = ap_refcnt ap \<and> (\<exists>w. s' = s\<lparr>ap_world := w\<rparr>)) (on_world (cortexm_prepare E i t ap) s)"
    by (rule after_world_value) (rule prepare_refcnt)
next
  fix y :: "bool \<times> adiv5_ap" and s' assume "ap_refcnt (snd y) = ap_refcnt ap \<and> (\<exists>w. s' = s\<lparr>ap_world := w\<rparr>)"
  then obtain w where y: "ap_refcnt (snd y) = ap_refcnt ap" and s': "s' = s\<lparr>ap_world := w\<rparr>" by blast
  have "holds k s'" "aps s' k = Some ap" using h a by (simp_all add: s')
  from holds_update [OF this y] show "after (\<lambda>x. holds k) (return () (s'\<lparr>aps := (aps s')(k \<mapsto> snd y)\<rparr>))"
    by (rule after_basic(2))
qed

lemma keep_probe_ap:
  assumes "probes_ok P" "holds k s"
  shows "after (\<lambda>x. refs_ok 1) (probe_ap E P k s)"
proof -
  have pr: "keeps (holds k) (pr_kinetis_mdm P k)" "keeps (holds k) (pr_nrf51_mdm P k)" "keeps (holds k) (pr_efm32_aap P k)"
    using assms(1) by (simp_all add: probes_ok_def)
  have cp: "after (\<lambda>x. holds k) (with_ap k (\<lambda>ap. adiv5_component_probe E P k (ap_base ap) 0) s)" if "holds k s" for s
    using that by (intro keep_with_ap) (simp_all add: adiv5_component_probe_def keepsD [OF keep_search [OF assms(1)]])
  have un: "after (\<lambda>x. refs_ok 1) (adiv5_ap_unref k s)" if "holds k s" for s
    using that by (intro unref_holds) (simp_all add: holds_def)
  have prep: "after (\<lambda>x. holds k) (with_ap k (\<lambda>ap s.
        if ap_apsel ap = 0 \<and> ap_idr ap AND 0xF = 1
        then andthen (on_world (cortexm_prepare E (dp_id s) (dp_target s) ap) s)
               (\<lambda>y s. return () (s\<lparr>aps := (aps s)(k \<mapsto> snd y)\<rparr>))
        else return () s) s)" if "holds k s" for s
    using that by (intro keep_with_ap after_if keep_prepare after_basic)
  show ?thesis
    unfolding probe_ap_def case_prod_unfold
    by (rule after_andthen [OF keepsD [OF pr(1) assms(2)]], rule after_andthen [OF keepsD [OF pr(2)]], assumption,
        rule after_andthen [OF keepsD [OF pr(3)]], assumption, rule after_andthen [OF prep], assumption,
        rule after_andthen [OF cp], assumption, rule un)
qed

text \<open>The balance once nobody but the access ports holds the debug port: it has been given back exactly if
  there is none.\<close>

definition settled :: "'w ap_state \<Rightarrow> bool" where
  "settled s \<longleftrightarrow> dp_refcnt s = int (card (dom (aps s))) \<and> (dp_live s \<longleftrightarrow> aps s \<noteq> Map.empty)"

lemma unref_settled: "refs_ok 1 s \<Longrightarrow> settled (adiv5_dp_unref s)"
  by (auto simp: refs_ok_def settled_def adiv5_dp_unref_def Let_def)

lemma keep_probe_aps:
  assumes P: "probes_ok P"
  shows "refs_ok 1 s \<Longrightarrow> after (\<lambda>complete s. if complete then refs_ok 1 s else settled s) (probe_aps E P n i last_base void_aps s)"
proof (induction n arbitrary: i last_base void_aps s)
  case 0
  then show ?case by simp
next
  case (Suc n)
  let ?Q = "\<lambda>complete s. if complete then refs_ok 1 s else settled s"
  have un: "after ?Q (andthen (adiv5_ap_unref k s) (\<lambda>x s. return False (adiv5_dp_unref s)))" if "refs_ok 1 s" "aps s k \<noteq> None" for k s
    by (rule after_andthen [OF unref_holds [OF that(1) _ that(2)]]) (simp, rule after_basic(2), simp add: unref_settled del: One_nat_def)
  have pr: "after ?Q (andthen (probe_ap E P k s) (\<lambda>x. probe_aps E P n (i + 1) b void_aps))" if "holds k s" for k s b
    using keep_probe_ap [OF P that] Suc.IH by (rule after_andthen)
  have step: "after ?Q (case ap of
          None \<Rightarrow> if i = 0 then return False (adiv5_dp_unref s) else probe_aps E P n (i + 1) last_base (void_aps + 1) s
        | Some k \<Rightarrow> with_ap k (\<lambda>ap s.
              if ap_base ap = last_base
              then andthen (adiv5_ap_unref k s) (\<lambda>x s. return False (adiv5_dp_unref s))
              else andthen (probe_ap E P k s) (\<lambda>x. probe_aps E P n (i + 1) (ap_base ap) void_aps)) s)"
    if f: "found 1 ap s" for ap s
  proof (cases ap)
    case None
    then show ?thesis using f Suc.IH [of s] by (simp add: found_def unref_settled)
  next
    case (Some k)
    then have h: "holds k s" "refs_ok 1 s" "aps s k \<noteq> None" using f by (simp_all add: found_def holds_def)
    show ?thesis unfolding Some option.case by (intro after_with_ap after_if un pr h)
  qed
  show ?case unfolding probe_aps.simps
    by (rule after_if) (rule after_basic(2), use Suc.prems in simp, rule after_andthen [OF new_ap_refs [OF Suc.prems]], erule step)
qed

text \<open>
  C31. The life of a debug port: whatever it finds, \<open>adiv5_dp_init\<close> on a fresh port (other than the rescue
  port of the RP2040) ends with the port's reference count at the number of access ports that are still on
  the heap, and has given the port back exactly if there is none; provided that the probes of the drivers
  keep the balance of the references they take.
\<close>

theorem dp_init_settles:
  assumes "adiv5_dp_init E P s = Some (Inr x, s')" and "probes_ok P"
    and "dp_live s" "dp_refcnt s = 0" "aps s = Map.empty" and "dp_id s \<noteq> 0x10212927"
  shows "dp_refcnt s' = int (card (dom (aps s'))) \<and> (dp_live s' \<longleftrightarrow> aps s' \<noteq> Map.empty)"
proof -
  have free: "settled (free_dp t)" if "\<exists>w. t = s\<lparr>ap_world := w\<rparr>" for t
    using that assms(4,5) by (auto simp: settled_def free_dp_def)
  have start: "refs_ok 1 (t\<lparr>dp_refcnt := dp_refcnt t + 1\<rparr>)" if "\<exists>w. t = s\<lparr>ap_world := w\<rparr>" for t
    using that assms(3-5) by (auto simp: refs_ok_def)
  have fin: "after (\<lambda>x. settled) (if \<not> complete then return () t else andthen (pr_resume_all P t) (\<lambda>x s. return () (adiv5_dp_unref s)))"
    if "if complete then refs_ok 1 t else settled t" for complete t
  proof -
    have "keeps (refs_ok 1) (pr_resume_all P)" using assms(2) by (simp add: probes_ok_def)
    from keepsD [OF this] that show ?thesis by (cases complete) (auto intro!: after_andthen unref_settled)
  qed
  have pu: "after (\<lambda>ok t. \<exists>w. t = s\<lparr>ap_world := w\<rparr>) (on_world (power_up E) s)"
    by (auto simp: after_def on_world_def split: option.splits)
  have "settled (free_dp s)" by (rule free) (auto intro!: exI [of _ "ap_world s"])
  then have "after (\<lambda>x. settled) (adiv5_dp_init E P s)"
    using assms(6) unfolding adiv5_dp_init_def
    by (auto intro!: after_if after_andthen [OF pu] free after_andthen [OF keep_probe_aps [OF assms(2)]] start fin)
  then show ?thesis using assms(1) by (simp add: after_def settled_def)
qed

subsection \<open>A target without access ports\<close>

definition bare_dp :: "nat dp_ops" where
  "bare_dp = \<lparr>dp_low_access = (\<lambda>r a v. return 0), dp_read = (\<lambda>a. return 0xFFFFFFFF), dp_error = return 0, dp_abort = (\<lambda>v. return ())\<rparr>"

definition bare_env :: "nat ap_env" where
  "bare_env = \<lparr>ae_dp = bare_dp, ae_fault = (\<lambda>w. False), ae_time = (\<lambda>w. (word_of_nat w, w + 1)), ae_delay = (\<lambda>n w. w + 1),
     ae_alloc = (\<lambda>w. (True, w)), ae_srst_set_val = (\<lambda>b w. w), ae_wait_timeout = 100, ae_connect_assert_srst = False\<rparr>"

definition bare_probes :: "nat probes" where
  "bare_probes = \<lparr>pr_cortexm = (\<lambda>k. return ()), pr_cortexa = (\<lambda>k a. return ()), pr_kinetis_mdm = (\<lambda>k. return ()),
     pr_nrf51_mdm = (\<lambda>k. return ()), pr_efm32_aap = (\<lambda>k. return ()), pr_rp_rescue = (\<lambda>k. return ()), pr_resume_all = return ()\<rparr>"

definition bare_state :: "nat ap_state" where
  "bare_state = \<lparr>dp_id = 0x2BA01477, dp_target = 0, dp_refcnt = 0, dp_live = True, aps = Map.empty, ap_next = 0, ap_world = 0\<rparr>"

lemma bare_power_up: "power_up bare_env 0 = Some (Inr True, 2)"
proof -
  have p: "wait_powerup bare_env t w = Some (Inr True, w)" "wait_dbg_reset bare_env t w = Some (Inr (), w + 1)" for t w
    by (subst wait_powerup.simps wait_dbg_reset.simps, simp add: bare_env_def bare_dp_def return_def)+
  show ?thesis
    by (simp add: power_up_def try_catch_def return_def platform_timeout_set_def adiv5_dp_write_def p)
       (simp add: bare_env_def bare_dp_def return_def)
qed

theorem dp_init_settles_witness:
  "\<exists>s'. adiv5_dp_init bare_env bare_probes bare_state = Some (Inr (), s') \<and> dp_refcnt s' = 0 \<and> \<not> dp_live s'"
proof -
  let ?s = "\<lambda>w. bare_state\<lparr>ap_world := w, dp_refcnt := 1\<rparr>"
  have "adiv5_new_ap bare_env 0 (?s w) = Some (Inr None, ?s w)" for w
    by (simp add: adiv5_new_ap_def firmware_ap_read_def adiv5_dp_write_def return_def bare_env_def bare_dp_def on_world_def)
  moreover have "adiv5_dp_unref (?s w) = bare_state\<lparr>ap_world := w, dp_live := False\<rparr>" for w
    by (simp add: adiv5_dp_unref_def bare_state_def)
  ultimately have "probe_aps bare_env bare_probes (Suc n) 0 0 0 (?s w) = Some (Inr False, bare_state\<lparr>ap_world := w, dp_live := False\<rparr>)" for w n
    by (simp add: return_def)
  from this [of 255] have a: "probe_aps bare_env bare_probes 256 0 0 0 (?s w) = Some (Inr False, bare_state\<lparr>ap_world := w, dp_live := False\<rparr>)" for w
    by simp
  have b: "on_world (power_up bare_env) bare_state = Some (Inr True, bare_state\<lparr>ap_world := 2\<rparr>)" "dp_refcnt bare_state = 0"
    "dp_id bare_state = 0x2BA01477" using bare_power_up by (simp_all add: on_world_def bare_state_def)
  have r: "\<exists>s'. adiv5_dp_init bare_env bare_probes bare_state = Some (Inr (), s') \<and> aps s' = Map.empty"
    using a [of 2] by (simp add: adiv5_dp_init_def b return_def) (simp add: bare_state_def)
  then obtain s' where s': "adiv5_dp_init bare_env bare_probes bare_state = Some (Inr (), s')" "aps s' = Map.empty" by blast
  have "probes_ok bare_probes" by (simp add: probes_ok_def keeps_def bare_probes_def)
  from dp_init_settles [OF s'(1) this] s' show ?thesis by (auto simp: bare_state_def)
qed

end
