(* ===== verification/Cortexm.thy ===== *)
theory Cortexm
  imports Adiv5_Ap
begin

text \<open>
  \<open>src/src/target/cortexm.c\<close>: the driver of ARM Cortex-M cores, over the memory access of \<open>Adiv5_Mem\<close>.
  Here: access to memory and the data cache, the core registers, attaching, resetting, halting and
  resuming, the unwinding of faults, and the hardware break- and watchpoints. The decisions about a
  halted core are in \<open>Cortexm_Halt\<close>; what the operations do to a core, in \<open>Cortexm_Core\<close>.
\<close>

unbundle bit_operations_syntax

subsection \<open>Registers of the core\<close>

definition CORTEXM_AIRCR :: u32 where "CORTEXM_AIRCR = 0xE000ED0C"
definition CORTEXM_CFSR :: u32 where "CORTEXM_CFSR = 0xE000ED28"
definition CORTEXM_HFSR :: u32 where "CORTEXM_HFSR = 0xE000ED2C"
definition CORTEXM_DFSR :: u32 where "CORTEXM_DFSR = 0xE000ED30"
definition CORTEXM_DCRSR :: u32 where "CORTEXM_DCRSR = 0xE000EDF4"
definition CORTEXM_DCRDR :: u32 where "CORTEXM_DCRDR = 0xE000EDF8"
definition CORTEXM_ICIALLU :: u32 where "CORTEXM_ICIALLU = 0xE000EF50"
definition CORTEXM_DCCMVAC :: u32 where "CORTEXM_DCCMVAC = 0xE000EF68"
definition CORTEXM_DCCIMVAC :: u32 where "CORTEXM_DCCIMVAC = 0xE000EF70"
definition CORTEXM_FPB_CTRL :: u32 where "CORTEXM_FPB_CTRL = 0xE0002000"
definition CORTEXM_FPB_COMP :: "nat \<Rightarrow> u32" where "CORTEXM_FPB_COMP i = 0xE0002008 + 4 * word_of_nat i"
definition CORTEXM_DWT_CTRL :: u32 where "CORTEXM_DWT_CTRL = 0xE0001000"
definition CORTEXM_DWT_COMP :: "nat \<Rightarrow> u32" where "CORTEXM_DWT_COMP i = 0xE0001020 + 0x10 * word_of_nat i"
definition CORTEXM_DWT_MASK :: "nat \<Rightarrow> u32" where "CORTEXM_DWT_MASK i = 0xE0001024 + 0x10 * word_of_nat i"
definition CORTEXM_DWT_FUNC :: "nat \<Rightarrow> u32" where "CORTEXM_DWT_FUNC i = 0xE0001028 + 0x10 * word_of_nat i"

abbreviation (input) DHCSR_DBGKEY :: u32 where "DHCSR_DBGKEY \<equiv> 0xA05F0000"
abbreviation (input) DHCSR_S_HALT :: u32 where "DHCSR_S_HALT \<equiv> 0x20000"
abbreviation (input) DHCSR_C_MASKINTS :: u32 where "DHCSR_C_MASKINTS \<equiv> 8"
abbreviation (input) DHCSR_C_STEP :: u32 where "DHCSR_C_STEP \<equiv> 4"
abbreviation (input) DHCSR_C_HALT :: u32 where "DHCSR_C_HALT \<equiv> 2"
abbreviation (input) DHCSR_C_DEBUGEN :: u32 where "DHCSR_C_DEBUGEN \<equiv> 1"
abbreviation (input) DCRSR_REGWnR :: u32 where "DCRSR_REGWnR \<equiv> 0x10000"
abbreviation (input) AIRCR_VECTKEY :: u32 where "AIRCR_VECTKEY \<equiv> 0x05FA0000"
abbreviation (input) DFSR_HALTED :: u32 where "DFSR_HALTED \<equiv> 1"
abbreviation (input) DFSR_BKPT :: u32 where "DFSR_BKPT \<equiv> 2"
abbreviation (input) DFSR_DWTTRAP :: u32 where "DFSR_DWTTRAP \<equiv> 4"
abbreviation (input) DFSR_VCATCH :: u32 where "DFSR_VCATCH \<equiv> 8"
abbreviation (input) DFSR_RESETALL :: u32 where "DFSR_RESETALL \<equiv> 0x1F"
abbreviation (input) DWT_FUNC_MATCHED :: u32 where "DWT_FUNC_MATCHED \<equiv> 0x1000000"

text \<open>The positions of registers in what GDB sees.\<close>

abbreviation (input) REG_SP :: nat where "REG_SP \<equiv> 13"
abbreviation (input) REG_LR :: nat where "REG_LR \<equiv> 14"
abbreviation (input) REG_PC :: nat where "REG_PC \<equiv> 15"
abbreviation (input) REG_XPSR :: nat where "REG_XPSR \<equiv> 16"
abbreviation (input) REG_MSP :: nat where "REG_MSP \<equiv> 17"
abbreviation (input) REG_PSP :: nat where "REG_PSP \<equiv> 18"
abbreviation (input) REG_SPECIAL :: nat where "REG_SPECIAL \<equiv> 19"

definition TOPT_FLAVOUR_V6M :: u32 where "TOPT_FLAVOUR_V6M = 1"
definition TOPT_FLAVOUR_V7MF :: u32 where "TOPT_FLAVOUR_V7MF = 2"
definition CORTEXM_TOPT_INHIBIT_SRST :: u32 where "CORTEXM_TOPT_INHIBIT_SRST = 4"

definition CORTEXM_MAX_WATCHPOINTS :: nat where "CORTEXM_MAX_WATCHPOINTS = 4"
definition CORTEXM_MAX_BREAKPOINTS :: nat where "CORTEXM_MAX_BREAKPOINTS = 8"

definition regnum_cortex_m :: "u32 list" where
  "regnum_cortex_m = [0, 1, 2, 3, 4, 5, 6, 7, 8, 9, 10, 11, 12, 13, 14, 15, 0x10, 0x11, 0x12, 0x14]"

definition regnum_cortex_mf :: "u32 list" where
  "regnum_cortex_mf = [0x21,
     0x40, 0x41, 0x42, 0x43, 0x44, 0x45, 0x46, 0x47,
     0x48, 0x49, 0x4a, 0x4b, 0x4c, 0x4d, 0x4e, 0x4f,
     0x50, 0x51, 0x52, 0x53, 0x54, 0x55, 0x56, 0x57,
     0x58, 0x59, 0x5a, 0x5b, 0x5c, 0x5d, 0x5e, 0x5f]"

subsection \<open>State\<close>

record cortexm_priv =
  stepping :: bool
  on_bkpt :: bool
  hw_watchpoint :: "bool list"
  flash_patch_revision :: u32
  hw_watchpoint_max :: nat
  hw_breakpoint :: "bool list"
  hw_breakpoint_max :: nat
  demcr :: u32
  has_cache :: bool
  dcache_minline :: u32

text \<open>The target as this driver sees it: its access port, private data, options, RAM regions, command
  line and heap information for semihosting, the fields \<open>interrupted\<close> and \<open>errno_\<close> of its controller, the
  time origin of \<open>SYS_CLOCK\<close>, and everything else.\<close>

record 'w cortexm =
  cm_ap :: adiv5_ap
  cm_priv :: cortexm_priv
  cm_options :: u32
  cm_ram :: "target_ram list"
  cm_cmdline :: "u8 list"
  cm_heapinfo :: "u32 list"
  cm_interrupted :: bool
  cm_errno :: int
  cm_time0_sec :: u32
  cm_world :: 'w

text \<open>What the driver calls: the debug port and its fault flag, the clock, the reset line, the extra reset
  of some devices, the console, and \<open>target_list_free\<close>.\<close>

record 'w cm_env =
  ce_dp :: "'w dp_ops"
  ce_set_fault :: "'w \<Rightarrow> 'w"
  ce_clock :: "'w clock"
  ce_delay :: "u32 \<Rightarrow> 'w \<Rightarrow> 'w"
  ce_srst_set_val :: "bool \<Rightarrow> 'w \<Rightarrow> 'w"
  ce_extended_reset :: "('w cortexm \<Rightarrow> ('w cortexm, unit) outcome) option"
  ce_printf :: "u8 list \<Rightarrow> 'w \<Rightarrow> 'w"
  ce_list_free :: "'w cortexm \<Rightarrow> ('w cortexm, unit) outcome"

definition on_cm :: "('w \<Rightarrow> ('w, 'a) outcome) \<Rightarrow> 'w cortexm \<Rightarrow> ('w cortexm, 'a) outcome" where
  "on_cm f s = (case f (cm_world s) of None \<Rightarrow> None | Some (r, w) \<Rightarrow> Some (r, s\<lparr>cm_world := w\<rparr>))"

definition cm_printf :: "'w cm_env \<Rightarrow> u8 list \<Rightarrow> 'w cortexm \<Rightarrow> 'w cortexm" where
  "cm_printf E txt s = s\<lparr>cm_world := ce_printf E txt (cm_world s)\<rparr>"

definition set_priv :: "(cortexm_priv \<Rightarrow> cortexm_priv) \<Rightarrow> 'w cortexm \<Rightarrow> 'w cortexm" where
  "set_priv f s = s\<lparr>cm_priv := f (cm_priv s)\<rparr>"

subsection \<open>Memory\<close>

partial_function (option) clean_lines :: "'w cm_env \<Rightarrow> adiv5_ap \<Rightarrow> u32 \<Rightarrow> u32 \<Rightarrow> u32 \<Rightarrow> u32 \<Rightarrow> 'w \<Rightarrow> ('w, unit) outcome" where
  "clean_lines E ap reg minline ram ram_end w =
     (if ram < ram_end
      then andthen (adiv5_mem_write (ce_dp E) ap reg (le_bytes 4 (unat ram)) 4 w)
             (\<lambda>x w. clean_lines E ap reg minline (ram + minline) ram_end w)
      else return () w)"

fun clean_regions :: "'w cm_env \<Rightarrow> adiv5_ap \<Rightarrow> u32 \<Rightarrow> u32 \<Rightarrow> u32 \<Rightarrow> u32 \<Rightarrow> target_ram list \<Rightarrow> 'w \<Rightarrow> ('w, unit) outcome" where
  "clean_regions E ap reg minline addr mem_end [] w = return () w"
| "clean_regions E ap reg minline addr mem_end (r # rs) w =
     (let ram = r_start r;
          ram_end = r_start r + r_length r;
          ram = (if addr > ram then addr else ram);
          ram_end = (if mem_end < ram_end then mem_end else ram_end)
      in andthen (clean_lines E ap reg minline (ram AND NOT (minline - 1)) ram_end w)
           (\<lambda>x. clean_regions E ap reg minline addr mem_end rs))"

definition cortexm_cache_clean :: "'w cm_env \<Rightarrow> u32 \<Rightarrow> nat \<Rightarrow> bool \<Rightarrow> 'w cortexm \<Rightarrow> ('w cortexm, unit) outcome" where
  "cortexm_cache_clean E addr len invalidate s =
     (if \<not> has_cache (cm_priv s) \<or> dcache_minline (cm_priv s) = 0 then return () s
      else on_cm (clean_regions E (cm_ap s) (if invalidate then CORTEXM_DCCIMVAC else CORTEXM_DCCMVAC)
             (dcache_minline (cm_priv s)) addr (addr + word_of_nat len) (cm_ram s)) s)"

definition cortexm_mem_read :: "'w cm_env \<Rightarrow> u32 \<Rightarrow> nat \<Rightarrow> 'w cortexm \<Rightarrow> ('w cortexm, u8 list) outcome" where
  "cortexm_mem_read E src len s =
     andthen (cortexm_cache_clean E src len False s)
       (\<lambda>x s. on_cm (firmware_mem_read (ce_dp E) (cm_ap s) src len) s)"

definition cortexm_mem_write :: "'w cm_env \<Rightarrow> u32 \<Rightarrow> u8 list \<Rightarrow> 'w cortexm \<Rightarrow> ('w cortexm, unit) outcome" where
  "cortexm_mem_write E dest src s =
     andthen (cortexm_cache_clean E dest (length src) True s)
       (\<lambda>x s. on_cm (adiv5_mem_write (ce_dp E) (cm_ap s) dest src (length src)) s)"

definition cortexm_check_error :: "'w cm_env \<Rightarrow> 'w cortexm \<Rightarrow> ('w cortexm, bool) outcome" where
  "cortexm_check_error E s = andthen (on_cm (dp_error (ce_dp E)) s) (\<lambda>e. return (e \<noteq> 0))"

definition cortexm_mem_write_sized :: "'w cm_env \<Rightarrow> u32 \<Rightarrow> u8 list \<Rightarrow> align \<Rightarrow> 'w cortexm \<Rightarrow> ('w cortexm, bool) outcome" where
  "cortexm_mem_write_sized E dest src align s =
     andthen (cortexm_cache_clean E dest (length src) True s) (\<lambda>x s.
     andthen (on_cm (firmware_mem_write_sized (ce_dp E) (cm_ap s) dest src (length src) align) s) (\<lambda>x.
     cortexm_check_error E))"

text \<open>\<open>target_mem_read32\<close> and its relatives on this target; \<open>target_mem_read\<close> reports the error.\<close>

definition cm_read32 :: "'w cm_env \<Rightarrow> u32 \<Rightarrow> 'w cortexm \<Rightarrow> ('w cortexm, u32) outcome" where
  "cm_read32 E addr s = andthen (cortexm_mem_read E addr 4 s) (\<lambda>bs. return (word_of_nat (le_word bs)))"

definition cm_read16 :: "'w cm_env \<Rightarrow> u32 \<Rightarrow> 'w cortexm \<Rightarrow> ('w cortexm, u16) outcome" where
  "cm_read16 E addr s = andthen (cortexm_mem_read E addr 2 s) (\<lambda>bs. return (word_of_nat (le_word bs)))"

definition cm_read8 :: "'w cm_env \<Rightarrow> u32 \<Rightarrow> 'w cortexm \<Rightarrow> ('w cortexm, u8) outcome" where
  "cm_read8 E addr s = andthen (cortexm_mem_read E addr 1 s) (\<lambda>bs. return (word_of_nat (le_word bs)))"

definition cm_write32 :: "'w cm_env \<Rightarrow> u32 \<Rightarrow> u32 \<Rightarrow> 'w cortexm \<Rightarrow> ('w cortexm, unit) outcome" where
  "cm_write32 E addr v = cortexm_mem_write E addr (le_bytes 4 (unat v))"

definition cm_mem_read :: "'w cm_env \<Rightarrow> u32 \<Rightarrow> nat \<Rightarrow> 'w cortexm \<Rightarrow> ('w cortexm, bool \<times> u8 list) outcome" where
  "cm_mem_read E src len s =
     andthen (cortexm_mem_read E src len s) (\<lambda>bs s. andthen (cortexm_check_error E s) (\<lambda>e. return (e, bs)))"

definition cm_mem_write :: "'w cm_env \<Rightarrow> u32 \<Rightarrow> u8 list \<Rightarrow> 'w cortexm \<Rightarrow> ('w cortexm, bool) outcome" where
  "cm_mem_write E dest src s = andthen (cortexm_mem_write E dest src s) (\<lambda>x. cortexm_check_error E)"

subsection \<open>Core registers\<close>

text \<open>The banked data registers \<open>DB(n)\<close> of the port map to \<open>DHCSR\<close>, \<open>DCRSR\<close>, \<open>DCRDR\<close> and \<open>DEMCR\<close> once
  \<open>TAR\<close> holds the address of \<open>DHCSR\<close>.\<close>

definition AP_DB :: "nat \<Rightarrow> u16" where "AP_DB n = 0x110 + 4 * word_of_nat n"

abbreviation (input) DB_DCRSR :: nat where "DB_DCRSR \<equiv> 1"
abbreviation (input) DB_DCRDR :: nat where "DB_DCRDR \<equiv> 2"

definition has_fp :: "'w cortexm \<Rightarrow> bool" where
  "has_fp s \<longleftrightarrow> cm_options s AND TOPT_FLAVOUR_V7MF \<noteq> 0"

text \<open>The registers of the core in the order GDB sees them. \<open>regs_size\<close>, which the probe sets together with
  the option for floating point, is four bytes for each.\<close>

definition cm_regnums :: "'w cortexm \<Rightarrow> u32 list" where
  "cm_regnums s = regnum_cortex_m @ (if has_fp s then regnum_cortex_mf else [])"

definition cm_regs_count :: "'w cortexm \<Rightarrow> nat" where \<comment> \<open>\<open>regs_size / 4\<close>\<close>
  "cm_regs_count s = length (cm_regnums s)"

fun regs_read_loop :: "'w dp_ops \<Rightarrow> u32 list \<Rightarrow> u32 list \<Rightarrow> 'w \<Rightarrow> ('w, u32 list) outcome" where
  "regs_read_loop D [] regs w = return regs w"
| "regs_read_loop D (n # ns) regs w =
     andthen (dp_low_access D False (AP_DB DB_DCRSR) n w) (\<lambda>x w.
     andthen (dp_read D (AP_DB DB_DCRDR) w) (\<lambda>v w.
     regs_read_loop D ns (regs @ [v]) w))"

definition cortexm_regs_read :: "'w cm_env \<Rightarrow> 'w cortexm \<Rightarrow> ('w cortexm, u32 list) outcome" where
  "cortexm_regs_read E s =
     (let D = ce_dp E; ap = cm_ap s
      in on_cm (\<lambda>w.
           andthen (firmware_ap_write D ap AP_CSW (ap_csw ap OR 2) w) (\<lambda>x w.
           andthen (dp_low_access D False AP_TAR CORTEXM_DHCSR w) (\<lambda>x w.
           andthen (firmware_ap_write D ap (AP_DB DB_DCRSR) (regnum_cortex_m ! 0) w) (\<lambda>x w.
           andthen (dp_read D (AP_DB DB_DCRDR) w) (\<lambda>v w.
           andthen (regs_read_loop D (tl regnum_cortex_m) [v] w) (\<lambda>regs w.
           if has_fp s then regs_read_loop D regnum_cortex_mf regs w else return regs w)))))) s)"

text \<open>The array of new values may be longer than what is used of it, but not shorter.\<close>

fun regs_write_loop :: "'w dp_ops \<Rightarrow> u32 list \<Rightarrow> u32 list \<Rightarrow> 'w \<Rightarrow> ('w, u32 list) outcome" where
  "regs_write_loop D [] regs w = return regs w"
| "regs_write_loop D (n # ns) [] w = None"
| "regs_write_loop D (n # ns) (v # regs) w =
     andthen (dp_low_access D False (AP_DB DB_DCRDR) v w) (\<lambda>x w.
     andthen (dp_low_access D False (AP_DB DB_DCRSR) (0x10000 OR n) w) (\<lambda>x w.
     regs_write_loop D ns regs w))"

definition cortexm_regs_write :: "'w cm_env \<Rightarrow> u32 list \<Rightarrow> 'w cortexm \<Rightarrow> ('w cortexm, unit) outcome" where
  "cortexm_regs_write E regs s =
     (let D = ce_dp E; ap = cm_ap s
      in case regs of [] \<Rightarrow> None | v # regs \<Rightarrow>
         on_cm (\<lambda>w.
           andthen (firmware_ap_write D ap AP_CSW (ap_csw ap OR 2) w) (\<lambda>x w.
           andthen (dp_low_access D False AP_TAR CORTEXM_DHCSR w) (\<lambda>x w.
           andthen (firmware_ap_write D ap (AP_DB DB_DCRDR) v w) (\<lambda>x w.
           andthen (dp_low_access D False (AP_DB DB_DCRSR) (0x10000 OR regnum_cortex_m ! 0) w) (\<lambda>x w.
           andthen (regs_write_loop D (tl regnum_cortex_m) regs w) (\<lambda>regs w.
           andthen (if has_fp s then regs_write_loop D regnum_cortex_mf regs w else return regs w) (\<lambda>x.
           return ()))))))) s)"

text \<open>The code selects with \<open>sizeof(regnum_cortex_m)\<close>, 80 bytes, where the number of entries, 20, is
  meant: numbers from 53 to 112 read beyond the table (no result).\<close>

definition dcrsr_regnum :: "u32 \<Rightarrow> nat \<Rightarrow> int option" where
  "dcrsr_regnum options reg =
     (if reg < 20 then Some (uint (regnum_cortex_m ! reg))
      else if options AND TOPT_FLAVOUR_V7MF \<noteq> 0 \<and> reg < 80 + 132 div 4 then
        (if reg - 20 < length regnum_cortex_mf then Some (uint (regnum_cortex_mf ! (reg - 20))) else None)
      else Some (- 1))"

definition cortexm_reg_read :: "'w cm_env \<Rightarrow> nat \<Rightarrow> nat \<Rightarrow> 'w cortexm \<Rightarrow> ('w cortexm, int \<times> u8 list) outcome" where
  "cortexm_reg_read E reg room s =
     (if room < 4 then return (- 1, []) s
      else case dcrsr_regnum (cm_options s) reg of
        None \<Rightarrow> None
      | Some n \<Rightarrow>
          andthen (cm_write32 E CORTEXM_DCRSR (word_of_int n) s) (\<lambda>x s.
          andthen (cm_read32 E CORTEXM_DCRDR s) (\<lambda>v. return (4, le_bytes 4 (unat v)))))"

definition cortexm_reg_write :: "'w cm_env \<Rightarrow> nat \<Rightarrow> u8 list \<Rightarrow> 'w cortexm \<Rightarrow> ('w cortexm, int) outcome" where
  "cortexm_reg_write E reg data s =
     (if length data < 4 then return (- 1) s
      else andthen (cm_write32 E CORTEXM_DCRDR (word_of_nat (le_word (take 4 data))) s) (\<lambda>x s.
        case dcrsr_regnum (cm_options s) reg of
          None \<Rightarrow> None
        | Some n \<Rightarrow> andthen (cm_write32 E CORTEXM_DCRSR (DCRSR_REGWnR OR word_of_int n) s) (\<lambda>x. return 4)))"

definition cortexm_pc_read :: "'w cm_env \<Rightarrow> 'w cortexm \<Rightarrow> ('w cortexm, u32) outcome" where
  "cortexm_pc_read E s = andthen (cm_write32 E CORTEXM_DCRSR 0x0F s) (\<lambda>x. cm_read32 E CORTEXM_DCRDR)"

definition cortexm_pc_write :: "'w cm_env \<Rightarrow> u32 \<Rightarrow> 'w cortexm \<Rightarrow> ('w cortexm, unit) outcome" where
  "cortexm_pc_write E val s =
     andthen (cm_write32 E CORTEXM_DCRDR val s) (\<lambda>x. cm_write32 E CORTEXM_DCRSR (DCRSR_REGWnR OR 0x0F))"

subsection \<open>Halting and resuming\<close>

definition cortexm_halt_request :: "'w cm_env \<Rightarrow> 'w cortexm \<Rightarrow> ('w cortexm, unit) outcome" where
  "cortexm_halt_request E s =
     try_catch EXCEPTION_TIMEOUT
       (cm_write32 E CORTEXM_DHCSR (DHCSR_DBGKEY OR DHCSR_C_HALT OR DHCSR_C_DEBUGEN) s)
       (\<lambda>e x s. case e of None \<Rightarrow> return () s
          | Some _ \<Rightarrow> return () (cm_printf E (str ''Timeout sending interrupt, is target in WFI?'' @ [10]) s))"

definition cortexm_halt_resume :: "'w cm_env \<Rightarrow> bool \<Rightarrow> 'w cortexm \<Rightarrow> ('w cortexm, unit) outcome" where
  "cortexm_halt_resume E step s =
     (let dhcsr = DHCSR_DBGKEY OR DHCSR_C_DEBUGEN;
          dhcsr = (if step then dhcsr OR DHCSR_C_STEP OR DHCSR_C_MASKINTS else dhcsr)
      in andthen (if step \<noteq> stepping (cm_priv s)
                  then andthen (cm_write32 E CORTEXM_DHCSR (dhcsr OR DHCSR_C_HALT) s)
                         (\<lambda>x s. return () (set_priv (\<lambda>p. p\<lparr>stepping := step\<rparr>) s))
                  else return () s) (\<lambda>x s.
         andthen (if on_bkpt (cm_priv s)
                  then andthen (cortexm_pc_read E s) (\<lambda>pc s.
                       andthen (cm_read16 E pc s) (\<lambda>instr s.
                       if instr AND 0xFF00 = 0xBE00 then cortexm_pc_write E (pc + 2) s else return () s))
                  else return () s) (\<lambda>x s.
         andthen (if has_cache (cm_priv s) then cm_write32 E CORTEXM_ICIALLU 0 s else return () s) (\<lambda>x.
         cm_write32 E CORTEXM_DHCSR dhcsr))))"

partial_function (option) reset_loop :: "'w cm_env \<Rightarrow> u32 \<Rightarrow> 'w cortexm \<Rightarrow> ('w cortexm, unit) outcome" where
  "reset_loop E to s =
     andthen (cm_read32 E CORTEXM_DHCSR s) (\<lambda>dhcsr s.
       if dhcsr AND DHCSR_S_RESET_ST = 0 then return () s
       else case platform_timeout_is_expired (ce_clock E) to (cm_world s) of (expired, w) \<Rightarrow>
         if expired then return () (s\<lparr>cm_world := w\<rparr>) else reset_loop E to (s\<lparr>cm_world := w\<rparr>))"

definition cm_world_op :: "('w \<Rightarrow> 'w) \<Rightarrow> 'w cortexm \<Rightarrow> 'w cortexm" where
  "cm_world_op f s = s\<lparr>cm_world := f (cm_world s)\<rparr>"

text \<open>The firmware has \<open>PLATFORM_HAS_DEBUG\<close>, so the clock is read once more after the loop.\<close>

definition cortexm_reset :: "'w cm_env \<Rightarrow> 'w cortexm \<Rightarrow> ('w cortexm, unit) outcome" where
  "cortexm_reset E s =
     andthen (cm_read32 E CORTEXM_DHCSR s) (\<lambda>x s.
       let s = (if cm_options s AND CORTEXM_TOPT_INHIBIT_SRST = 0
                then cm_world_op (\<lambda>w. ce_delay E 10 (ce_srst_set_val E False (ce_srst_set_val E True w))) s else s)
       in andthen (cm_read32 E CORTEXM_DHCSR s) (\<lambda>dhcsr s.
          andthen (if dhcsr AND DHCSR_S_RESET_ST = 0 then cm_write32 E CORTEXM_AIRCR (AIRCR_VECTKEY OR 4) s else return () s) (\<lambda>x s.
          andthen (case ce_extended_reset E of Some f \<Rightarrow> f s | None \<Rightarrow> return () s) (\<lambda>x s.
          case platform_timeout_set (ce_clock E) 1000 (cm_world s) of (to, w) \<Rightarrow>
          andthen (reset_loop E to (s\<lparr>cm_world := w\<rparr>)) (\<lambda>x s.
            let s = cm_world_op (\<lambda>w. ce_delay E 10 (snd (platform_timeout_is_expired (ce_clock E) to w))) s
            in andthen (cm_write32 E CORTEXM_DFSR DFSR_RESETALL s) (\<lambda>x s.
               andthen (cortexm_check_error E s) (\<lambda>x. return ())))))))"

subsection \<open>Attaching and detaching\<close>

text \<open>Writing a flag beyond its array has no result.\<close>

definition set_flag :: "nat \<Rightarrow> bool \<Rightarrow> bool list \<Rightarrow> bool list option" where
  "set_flag i b xs = (if i < length xs then Some (xs[i := b]) else None)"

definition set_breakpoint_flag :: "nat \<Rightarrow> bool \<Rightarrow> 'w cortexm \<Rightarrow> ('w cortexm, unit) outcome" where
  "set_breakpoint_flag i b s =
     (case set_flag i b (hw_breakpoint (cm_priv s)) of None \<Rightarrow> None
      | Some xs \<Rightarrow> return () (set_priv (\<lambda>p. p\<lparr>hw_breakpoint := xs\<rparr>) s))"

definition set_watchpoint_flag :: "nat \<Rightarrow> bool \<Rightarrow> 'w cortexm \<Rightarrow> ('w cortexm, unit) outcome" where
  "set_watchpoint_flag i b s =
     (case set_flag i b (hw_watchpoint (cm_priv s)) of None \<Rightarrow> None
      | Some xs \<Rightarrow> return () (set_priv (\<lambda>p. p\<lparr>hw_watchpoint := xs\<rparr>) s))"

fun clear_breakpoints :: "'w cm_env \<Rightarrow> nat list \<Rightarrow> 'w cortexm \<Rightarrow> ('w cortexm, unit) outcome" where
  "clear_breakpoints E [] s = return () s"
| "clear_breakpoints E (i # is) s =
     andthen (cm_write32 E (CORTEXM_FPB_COMP i) 0 s) (\<lambda>x s.
     andthen (set_breakpoint_flag i False s) (\<lambda>x. clear_breakpoints E is))"

fun clear_watchpoints :: "'w cm_env \<Rightarrow> nat list \<Rightarrow> 'w cortexm \<Rightarrow> ('w cortexm, unit) outcome" where
  "clear_watchpoints E [] s = return () s"
| "clear_watchpoints E (i # is) s =
     andthen (cm_write32 E (CORTEXM_DWT_FUNC i) 0 s) (\<lambda>x s.
     andthen (set_watchpoint_flag i False s) (\<lambda>x. clear_watchpoints E is))"

text \<open>The sizes of the units: the number of comparators is cut to the breakpoints the driver has room
  for; of the watchpoints the larger of the two numbers is taken.\<close>

definition breakpoints_of :: "u32 \<Rightarrow> nat" where
  "breakpoints_of r = (let n = unat (drop_bit 4 r AND 0xF) in if n < CORTEXM_MAX_BREAKPOINTS then n else CORTEXM_MAX_BREAKPOINTS)"

definition watchpoints_of :: "u32 \<Rightarrow> nat" where
  "watchpoints_of r = (let n = unat (drop_bit 28 r) in if CORTEXM_MAX_WATCHPOINTS < n then n else CORTEXM_MAX_WATCHPOINTS)"

partial_function (option) attach_reset_loop :: "'w cm_env \<Rightarrow> u32 \<Rightarrow> 'w cortexm \<Rightarrow> ('w cortexm, bool) outcome" where
  "attach_reset_loop E to s =
     andthen (cm_read32 E CORTEXM_DHCSR s) (\<lambda>dhcsr s.
       if dhcsr AND DHCSR_S_RESET_ST = 0 then return True s
       else case platform_timeout_is_expired (ce_clock E) to (cm_world s) of (expired, w) \<Rightarrow>
         if expired then return False (s\<lparr>cm_world := w\<rparr>) else attach_reset_loop E to (s\<lparr>cm_world := w\<rparr>))"

definition attach_units :: "'w cm_env \<Rightarrow> 'w cortexm \<Rightarrow> ('w cortexm, unit) outcome" where
  "attach_units E s =
     andthen (cm_read32 E CORTEXM_FPB_CTRL (set_priv (\<lambda>p. p\<lparr>hw_breakpoint_max := CORTEXM_MAX_BREAKPOINTS\<rparr>) s)) (\<lambda>r s.
       let s = set_priv (\<lambda>p. p\<lparr>hw_breakpoint_max := breakpoints_of r, flash_patch_revision := drop_bit 28 r,
                hw_watchpoint_max := CORTEXM_MAX_WATCHPOINTS\<rparr>) s
       in andthen (cm_read32 E CORTEXM_DWT_CTRL s) (\<lambda>r s.
          let s = set_priv (\<lambda>p. p\<lparr>hw_watchpoint_max := watchpoints_of r\<rparr>) s
          in andthen (clear_breakpoints E [0..<hw_breakpoint_max (cm_priv s)] s) (\<lambda>x s.
             andthen (clear_watchpoints E [0..<hw_watchpoint_max (cm_priv s)] s) (\<lambda>x.
             cm_write32 E CORTEXM_FPB_CTRL 3))))"

definition cortexm_attach :: "'w cm_env \<Rightarrow> 'w cortexm \<Rightarrow> ('w cortexm, bool) outcome" where
  "cortexm_attach E s =
     andthen (cortexm_check_error E (cm_world_op (ce_set_fault E) s)) (\<lambda>x s.
     andthen (cortexm_check_error E s) (\<lambda>x s.
     andthen (cortexm_halt_request E s) (\<lambda>x s.
     andthen (cm_write32 E CORTEXM_DEMCR (demcr (cm_priv s)) s) (\<lambda>x s.
     andthen (cm_write32 E CORTEXM_DFSR DFSR_RESETALL s) (\<lambda>x s.
     andthen (attach_units E s) (\<lambda>x s.
     andthen (cm_read32 E CORTEXM_DHCSR s) (\<lambda>dhcsr s.
     andthen (cm_read32 E CORTEXM_DHCSR s) (\<lambda>dhcsr s.
       if dhcsr AND DHCSR_S_RESET_ST \<noteq> 0 then
         case platform_timeout_set (ce_clock E) 1000 (ce_srst_set_val E False (cm_world s)) of (to, w) \<Rightarrow>
           attach_reset_loop E to (s\<lparr>cm_world := w\<rparr>)
       else return True s))))))))"

fun write_zeros :: "'w cm_env \<Rightarrow> u32 list \<Rightarrow> 'w cortexm \<Rightarrow> ('w cortexm, unit) outcome" where
  "write_zeros E [] s = return () s"
| "write_zeros E (a # as) s = andthen (cm_write32 E a 0 s) (\<lambda>x. write_zeros E as)"

definition cortexm_detach :: "'w cm_env \<Rightarrow> 'w cortexm \<Rightarrow> ('w cortexm, unit) outcome" where
  "cortexm_detach E s =
     andthen (write_zeros E (map CORTEXM_FPB_COMP [0..<hw_breakpoint_max (cm_priv s)]) s) (\<lambda>x s.
     andthen (write_zeros E (map CORTEXM_DWT_FUNC [0..<hw_watchpoint_max (cm_priv s)]) s) (\<lambda>x s.
     andthen (cm_write32 E CORTEXM_DEMCR (ap_cortexm_demcr (cm_ap s)) s) (\<lambda>x.
     cm_write32 E CORTEXM_DHCSR DHCSR_DBGKEY)))"

subsection \<open>Faults\<close>

definition exc_frame_size :: "u32 \<Rightarrow> u32 \<Rightarrow> u32" where \<comment> \<open>of \<open>EXC_RETURN\<close> and the stacked \<open>xPSR\<close>\<close>
  "exc_frame_size retcode xpsr =
     (let framesize = (if retcode AND 0x10 = 0 then 0x68 else 0x20)
      in if xpsr AND 0x200 \<noteq> 0 then framesize + 4 else framesize)"

text \<open>The registers before the exception, from those after it and the eight words on the stack.\<close>

definition unwound_regs :: "u32 list \<Rightarrow> u32 list \<Rightarrow> u32 list" where
  "unwound_regs regs stack =
     (let retcode = regs ! REG_LR;
          spsel = (retcode AND 4 \<noteq> 0);
          fpca = (retcode AND 0x10 = 0);
          regs = regs[REG_LR := stack ! 5];
          regs = regs[REG_PC := stack ! 6];
          framesize = exc_frame_size retcode (stack ! 7);
          regs = (if spsel then
                    let regs = regs[REG_SPECIAL := regs ! REG_SPECIAL OR 0x4000000];
                        sp = regs ! REG_PSP + framesize
                    in regs[REG_PSP := sp, REG_SP := sp]
                  else let sp = regs ! REG_MSP + framesize in regs[REG_MSP := sp, REG_SP := sp])
      in if fpca then regs[REG_SPECIAL := regs ! REG_SPECIAL OR 0x2000000] else regs)"

definition word_list :: "u8 list \<Rightarrow> u32 list" where
  "word_list bs = map (\<lambda>i. word_of_nat (le_word (take 4 (drop (4 * i) bs)))) [0..<length bs div 4]"

definition cortexm_fault_unwind :: "'w cm_env \<Rightarrow> 'w cortexm \<Rightarrow> ('w cortexm, bool) outcome" where
  "cortexm_fault_unwind E s =
     andthen (cm_read32 E CORTEXM_HFSR s) (\<lambda>hfsr s.
     andthen (cm_read32 E CORTEXM_CFSR s) (\<lambda>cfsr s.
     andthen (cm_write32 E CORTEXM_HFSR hfsr s) (\<lambda>x s.
     andthen (cm_write32 E CORTEXM_CFSR cfsr s) (\<lambda>x s.
       if hfsr AND 0x40000000 \<noteq> 0 \<or> cfsr \<noteq> 0 then
         andthen (cortexm_regs_read E s) (\<lambda>regs s.
           let sp = (if regs ! REG_LR AND 4 \<noteq> 0 then regs ! REG_PSP else regs ! REG_MSP)
           in andthen (cm_mem_read E sp 32 s) (\<lambda>(e, stack) s.
              andthen (cortexm_check_error E s) (\<lambda>e s.
                if e then return False s
                else andthen (cm_write32 E CORTEXM_AIRCR (AIRCR_VECTKEY OR 2) s) (\<lambda>x s.
                     andthen (cortexm_regs_write E (unwound_regs regs (word_list stack)) s) (\<lambda>x.
                     return True)))))
       else return False s))))"

subsection \<open>Break- and watchpoints\<close>

text \<open>The kinds of \<open>enum target_breakwatch\<close>.\<close>

abbreviation (input) TARGET_BREAK_HARD :: int where "TARGET_BREAK_HARD \<equiv> 1"
abbreviation (input) TARGET_WATCH_WRITE :: int where "TARGET_WATCH_WRITE \<equiv> 2"
abbreviation (input) TARGET_WATCH_READ :: int where "TARGET_WATCH_READ \<equiv> 3"
abbreviation (input) TARGET_WATCH_ACCESS :: int where "TARGET_WATCH_ACCESS \<equiv> 4"

definition dwt_mask :: "u32 \<Rightarrow> u32" where
  "dwt_mask len = (if len = 1 then 0 else if len = 2 then 1 else if len = 4 then 2 else - 1)"

definition dwt_func :: "u32 \<Rightarrow> int \<Rightarrow> u32" where
  "dwt_func options type =
     (let x = (if options AND TOPT_FLAVOUR_V6M = 0 then 0x800 else 0)
      in if type = TARGET_WATCH_WRITE then 6 OR x
         else if type = TARGET_WATCH_READ then 5 OR x
         else if type = TARGET_WATCH_ACCESS then 7 OR x
         else - 1)"

text \<open>The first free one of the first \<open>n\<close> comparators; \<open>n\<close> if there is none. Beyond the array: no result.\<close>

fun first_free :: "nat \<Rightarrow> nat \<Rightarrow> bool list \<Rightarrow> nat option" where
  "first_free 0 i used = Some i"
| "first_free (Suc n) i used =
     (if length used \<le> i then None else if \<not> used ! i then Some i else first_free n (i + 1) used)"

definition fpb_value :: "u32 \<Rightarrow> u32 \<Rightarrow> u32" where \<comment> \<open>the comparator for an address, by the revision of the unit\<close>
  "fpb_value revision addr =
     (let val = (if revision = 0 then (addr AND 0x1FFFFFFC) OR (if addr AND 2 \<noteq> 0 then 0x80000000 else 0x40000000) else addr)
      in val OR 1)"

definition is_watch :: "int \<Rightarrow> bool" where
  "is_watch type \<longleftrightarrow> type \<in> {TARGET_WATCH_WRITE, TARGET_WATCH_READ, TARGET_WATCH_ACCESS}"

definition bw_set_reserved :: "nat \<Rightarrow> breakwatch \<Rightarrow> breakwatch" where
  "bw_set_reserved i bw = bw\<lparr>bw_reserved := (bw_reserved bw)[0 := word_of_nat i]\<rparr>"

definition cortexm_breakwatch_set :: "'w cm_env \<Rightarrow> breakwatch \<Rightarrow> 'w cortexm \<Rightarrow> ('w cortexm, int \<times> breakwatch) outcome" where
  "cortexm_breakwatch_set E bw s =
     (let p = cm_priv s
      in if bw_type bw = TARGET_BREAK_HARD then
           case first_free (hw_breakpoint_max p) 0 (hw_breakpoint p) of
             None \<Rightarrow> None
           | Some i \<Rightarrow>
               if i = hw_breakpoint_max p then return (- 1, bw) s
               else andthen (set_breakpoint_flag i True s) (\<lambda>x s.
                    andthen (cm_write32 E (CORTEXM_FPB_COMP i) (fpb_value (flash_patch_revision p) (bw_addr bw)) s) (\<lambda>x.
                    return (0, bw_set_reserved i bw)))
         else if is_watch (bw_type bw) then
           case first_free (hw_watchpoint_max p) 0 (hw_watchpoint p) of
             None \<Rightarrow> None
           | Some i \<Rightarrow>
               if i = hw_watchpoint_max p then return (- 1, bw) s
               else andthen (set_watchpoint_flag i True s) (\<lambda>x s.
                    andthen (cm_write32 E (CORTEXM_DWT_COMP i) (bw_addr bw) s) (\<lambda>x s.
                    andthen (cm_write32 E (CORTEXM_DWT_MASK i) (dwt_mask (bw_size bw)) s) (\<lambda>x s.
                    andthen (cm_write32 E (CORTEXM_DWT_FUNC i) (dwt_func (cm_options s) (bw_type bw)) s) (\<lambda>x.
                    return (0, bw_set_reserved i bw)))))
         else return (1, bw) s)"

definition cortexm_breakwatch_clear :: "'w cm_env \<Rightarrow> breakwatch \<Rightarrow> 'w cortexm \<Rightarrow> ('w cortexm, int) outcome" where
  "cortexm_breakwatch_clear E bw s =
     (let i = unat (bw_reserved bw ! 0)
      in if bw_type bw = TARGET_BREAK_HARD then
           andthen (set_breakpoint_flag i False s) (\<lambda>x s.
           andthen (cm_write32 E (CORTEXM_FPB_COMP i) 0 s) (\<lambda>x. return 0))
         else if is_watch (bw_type bw) then
           andthen (set_watchpoint_flag i False s) (\<lambda>x s.
           andthen (cm_write32 E (CORTEXM_DWT_FUNC i) 0 s) (\<lambda>x. return 0))
         else return 1 s)"

fun find_watch :: "'w cm_env \<Rightarrow> nat \<Rightarrow> nat \<Rightarrow> 'w cortexm \<Rightarrow> ('w cortexm, nat) outcome" where
  "find_watch E 0 i s = return i s"
| "find_watch E (Suc n) i s =
     (if length (hw_watchpoint (cm_priv s)) \<le> i then None
      else if hw_watchpoint (cm_priv s) ! i then
        andthen (cm_read32 E (CORTEXM_DWT_FUNC i) s) (\<lambda>f s.
          if f AND DWT_FUNC_MATCHED \<noteq> 0 then return i s else find_watch E n (i + 1) s)
      else find_watch E n (i + 1) s)"

definition cortexm_check_watch :: "'w cm_env \<Rightarrow> 'w cortexm \<Rightarrow> ('w cortexm, u32) outcome" where
  "cortexm_check_watch E s =
     andthen (find_watch E (hw_watchpoint_max (cm_priv s)) 0 s) (\<lambda>i s.
       if i = hw_watchpoint_max (cm_priv s) then return 0 s else cm_read32 E (CORTEXM_DWT_COMP i) s)"

subsection \<open>Vector catch\<close>

definition vectors :: "u8 list option list" where
  "vectors = [Some (str ''reset''), None, None, None, Some (str ''mm''), Some (str ''nocp''), Some (str ''chk''),
     Some (str ''stat''), Some (str ''bus''), Some (str ''int''), Some (str ''hard'')]"

text \<open>\<open>parse_enable_or_disable\<close> of \<open>command.c\<close>: any non-empty beginning of one of the words.\<close>

definition parse_enable_or_disable :: "('w \<Rightarrow> u8 list \<Rightarrow> 'w) \<Rightarrow> u8 list \<Rightarrow> 'w \<Rightarrow> bool option \<times> 'w" where
  "parse_enable_or_disable out a w =
     (if length a = 0 then (None, out w ([39] @ str ''enable'' @ [39] @ str '' or '' @ [39] @ str ''disable'' @ [39] @ str '' argument must be provided'' @ [10]))
      else if strncmp_eq a (str ''enable'') (length a) then (Some True, w)
      else if strncmp_eq a (str ''disable'') (length a) then (Some False, w)
      else (None, out w (str ''Argument '' @ [39] @ a @ [39] @ str '' not recognized as '' @ [39] @ str ''enable'' @ [39] @ str '' or '' @ [39] @ str ''disable'' @ [39, 10])))"

fun vector_bits :: "nat \<Rightarrow> u8 list option list \<Rightarrow> u8 list \<Rightarrow> u32" where
  "vector_bits i [] a = 0"
| "vector_bits i (v # vs) a = (if v = Some a then 2 ^ i else 0) OR vector_bits (i + 1) vs a"

fun args_bits :: "u8 list list \<Rightarrow> u32" where
  "args_bits [] = 0"
| "args_bits (a # as) = vector_bits 0 vectors a OR args_bits as"

fun print_vectors :: "'w cm_env \<Rightarrow> nat \<Rightarrow> u8 list option list \<Rightarrow> 'w cortexm \<Rightarrow> 'w cortexm" where
  "print_vectors E i [] s = s"
| "print_vectors E i (v # vs) s =
     (case v of None \<Rightarrow> print_vectors E (i + 1) vs s
      | Some name \<Rightarrow> print_vectors E (i + 1) vs
          (if demcr (cm_priv s) AND 2 ^ i \<noteq> 0 then cm_printf E (name @ str '' '') s else s))"

text \<open>\<open>out\<close> is \<open>gdb_outf\<close>.\<close>

definition cortexm_vector_catch :: "'w cm_env \<Rightarrow> ('w \<Rightarrow> u8 list \<Rightarrow> 'w) \<Rightarrow> u8 list list \<Rightarrow> 'w cortexm \<Rightarrow> ('w cortexm, bool) outcome" where
  "cortexm_vector_catch E out argv s =
     andthen
       (if length argv < 3 then
          return () (cm_printf E (str ''usage: monitor vector_catch (enable|disable) (hard|int|bus|stat|chk|nocp|mm|reset)'' @ [10]) s)
        else
          let tmp = args_bits argv
          in case parse_enable_or_disable out (argv ! 1) (cm_world s) of (enable, w) \<Rightarrow>
            let s = s\<lparr>cm_world := w\<rparr>
            in case enable of
                 None \<Rightarrow> return () s
               | Some on \<Rightarrow>
                   let s = set_priv (\<lambda>p. p\<lparr>demcr := (if on then demcr p OR tmp else demcr p AND NOT tmp)\<rparr>) s
                   in cm_write32 E CORTEXM_DEMCR (demcr (cm_priv s)) s)
       (\<lambda>x s. return True (cm_printf E [10] (print_vectors E 0 vectors (cm_printf E (str ''Catching vectors: '') s))))"

end
