(* ===== verification/Cortexm_Halt.thy ===== *)
theory Cortexm_Halt
  imports Cortexm
begin

text \<open>
  The rest of \<open>src/src/target/cortexm.c\<close>: the semihosting calls of a program, the decision why a core
  has halted, and the execution of a stub on the target.
\<close>

unbundle bit_operations_syntax

subsection \<open>Semihosting\<close>

text \<open>The host calls of the controller (\<open>tc_open\<close> and so on in \<open>target.c\<close>). The host reads and writes the
  memory of the target, so they act on its whole state. For \<open>SYS_FLEN\<close>, \<open>SYS_TIME\<close> and \<open>SYS_READC\<close> the
  driver lets the memory functions of the target point to the memory of the probe while it calls: those
  calls return, besides their result, the variable of the probe that the host has written.\<close>

record 's tc_host =
  th_open :: "u32 \<Rightarrow> u32 \<Rightarrow> u32 \<Rightarrow> u32 \<Rightarrow> 's \<Rightarrow> ('s, int) outcome"
  th_close :: "u32 \<Rightarrow> 's \<Rightarrow> ('s, int) outcome"
  th_read :: "u32 \<Rightarrow> u32 \<Rightarrow> u32 \<Rightarrow> 's \<Rightarrow> ('s, int) outcome"
  th_write :: "u32 \<Rightarrow> u32 \<Rightarrow> u32 \<Rightarrow> 's \<Rightarrow> ('s, int) outcome"
  th_isatty :: "u32 \<Rightarrow> 's \<Rightarrow> ('s, int) outcome"
  th_lseek :: "u32 \<Rightarrow> u32 \<Rightarrow> u32 \<Rightarrow> 's \<Rightarrow> ('s, int) outcome"
  th_rename :: "u32 \<Rightarrow> u32 \<Rightarrow> u32 \<Rightarrow> u32 \<Rightarrow> 's \<Rightarrow> ('s, int) outcome"
  th_unlink :: "u32 \<Rightarrow> u32 \<Rightarrow> 's \<Rightarrow> ('s, int) outcome"
  th_system :: "u32 \<Rightarrow> u32 \<Rightarrow> 's \<Rightarrow> ('s, int) outcome"
  th_fstat_probe :: "u32 \<Rightarrow> 's \<Rightarrow> ('s, int \<times> u8 list) outcome"
  th_gettimeofday_probe :: "'s \<Rightarrow> ('s, int \<times> u8 list) outcome"
  th_readc_probe :: "u8 \<Rightarrow> 's \<Rightarrow> ('s, int \<times> u8) outcome"

abbreviation (input) SYS_OPEN :: u32 where "SYS_OPEN \<equiv> 0x01"
abbreviation (input) SYS_CLOSE :: u32 where "SYS_CLOSE \<equiv> 0x02"
abbreviation (input) SYS_WRITEC :: u32 where "SYS_WRITEC \<equiv> 0x03"
abbreviation (input) SYS_WRITE0 :: u32 where "SYS_WRITE0 \<equiv> 0x04"
abbreviation (input) SYS_WRITE :: u32 where "SYS_WRITE \<equiv> 0x05"
abbreviation (input) SYS_READ :: u32 where "SYS_READ \<equiv> 0x06"
abbreviation (input) SYS_READC :: u32 where "SYS_READC \<equiv> 0x07"
abbreviation (input) SYS_ISERROR :: u32 where "SYS_ISERROR \<equiv> 0x08"
abbreviation (input) SYS_ISTTY :: u32 where "SYS_ISTTY \<equiv> 0x09"
abbreviation (input) SYS_SEEK :: u32 where "SYS_SEEK \<equiv> 0x0A"
abbreviation (input) SYS_FLEN :: u32 where "SYS_FLEN \<equiv> 0x0C"
abbreviation (input) SYS_TMPNAM :: u32 where "SYS_TMPNAM \<equiv> 0x0D"
abbreviation (input) SYS_REMOVE :: u32 where "SYS_REMOVE \<equiv> 0x0E"
abbreviation (input) SYS_RENAME :: u32 where "SYS_RENAME \<equiv> 0x0F"
abbreviation (input) SYS_CLOCK :: u32 where "SYS_CLOCK \<equiv> 0x10"
abbreviation (input) SYS_TIME :: u32 where "SYS_TIME \<equiv> 0x11"
abbreviation (input) SYS_SYSTEM :: u32 where "SYS_SYSTEM \<equiv> 0x12"
abbreviation (input) SYS_ERRNO :: u32 where "SYS_ERRNO \<equiv> 0x13"
abbreviation (input) SYS_GET_CMDLINE :: u32 where "SYS_GET_CMDLINE \<equiv> 0x15"
abbreviation (input) SYS_HEAPINFO :: u32 where "SYS_HEAPINFO \<equiv> 0x16"
abbreviation (input) SYS_EXIT :: u32 where "SYS_EXIT \<equiv> 0x18"
abbreviation (input) SYS_EXIT_EXTENDED :: u32 where "SYS_EXIT_EXTENDED \<equiv> 0x20"
abbreviation (input) SYS_ELAPSED :: u32 where "SYS_ELAPSED \<equiv> 0x30"
abbreviation (input) SYS_TICKFREQ :: u32 where "SYS_TICKFREQ \<equiv> 0x31"

definition int_ret :: "(('s, int) outcome) \<Rightarrow> ('s, u32) outcome" where \<comment> \<open>an \<open>int\<close> of the host in a register\<close>
  "int_ret m = andthen m (\<lambda>r. return (word_of_int r))"

definition open_flags :: "u32 list" where
  "open_flags = [0, 2, 0x601, 0x602, 0x209, 0x20A]"

text \<open>The mode is an index into the table; beyond it: no result.\<close>

definition sys_open :: "'w cm_env \<Rightarrow> 'w cortexm tc_host \<Rightarrow> u32 list \<Rightarrow> 'w cortexm \<Rightarrow> ('w cortexm, u32) outcome" where
  "sys_open E H params s =
     (let m = unat (drop_bit 1 (params ! 1))
      in if length open_flags \<le> m then None
         else let pflag = open_flags ! m
              in andthen (cm_mem_read E (params ! 0) 4 s) (\<lambda>(e, filename) s.
                   if filename = str '':tt'' @ [0] then
                     return (if pflag = 0 then 0 + 1 else if pflag AND 0x400 \<noteq> 0 then 1 + 1 else 2 + 1) s
                   else andthen (int_ret (th_open H (params ! 0) (params ! 2 + 1) pflag 0x1A4 s))
                     (\<lambda>ret. return (if ret \<noteq> - 1 then ret + 1 else ret))))"

definition left_over :: "u32 \<Rightarrow> u32 \<Rightarrow> u32" where \<comment> \<open>\<open>if (ret >= 0) ret = params[2] - ret\<close>\<close>
  "left_over len ret = (if 0 \<le> sint ret then len - ret else ret)"

partial_function (option) string_end :: "'w cm_env \<Rightarrow> u32 \<Rightarrow> 'w cortexm \<Rightarrow> ('w cortexm, u32) outcome" where
  "string_end E str_end s =
     andthen (cm_read8 E str_end s) (\<lambda>c s.
       if c = 0 then return str_end s
       else andthen (cortexm_check_error E s) (\<lambda>e s.
         if e then return str_end s else string_end E (str_end + 1) s))"

definition sys_write0 :: "'w cm_env \<Rightarrow> 'w cortexm tc_host \<Rightarrow> u32 \<Rightarrow> 'w cortexm \<Rightarrow> ('w cortexm, u32) outcome" where
  "sys_write0 E H str_begin s =
     andthen (string_end E str_begin s) (\<lambda>str_end s.
       let len = str_end - str_begin
       in if len = 0 then return 0 s
          else andthen (int_ret (th_write H 2 str_begin len s)) (\<lambda>rc. return (if rc \<noteq> len then - 1 else 0)))"

definition be_word :: "u8 list \<Rightarrow> nat" where
  "be_word bs = le_word (rev bs)"

definition sys_flen :: "'w cortexm tc_host \<Rightarrow> u32 \<Rightarrow> 'w cortexm \<Rightarrow> ('w cortexm, u32) outcome" where
  "sys_flen H fd s =
     andthen (th_fstat_probe H fd s) (\<lambda>(rc, fio_stat) s.
       if rc \<noteq> 0 then return (- 1) s
       else if le_word (take 4 (drop 28 fio_stat)) \<noteq> 0 then return (- 1) s
       else let ret = word_of_nat (be_word (take 4 (drop 32 fio_stat))) :: u32
            in return (if sint ret < 0 then - 1 else ret) s)"

definition sys_time :: "'w cortexm tc_host \<Rightarrow> bool \<Rightarrow> 'w cortexm \<Rightarrow> ('w cortexm, u32) outcome" where
  "sys_time H seconds s =
     andthen (th_gettimeofday_probe H s) (\<lambda>(rc, tv) s.
       if rc \<noteq> 0 then return (- 1) s
       else
         let sec = word_of_nat (be_word (take 4 tv)) :: u32;
             usec = word_of_nat (be_word (take 8 (drop 4 tv))) :: u64
         in if seconds then return sec s
            else let s = (if cm_time0_sec s > sec then s\<lparr>cm_time0_sec := sec\<rparr> else s);
                     sec = sec - cm_time0_sec s;
                     csec64 = (ucast sec * 1000000 + usec) div 10000
                 in return (ucast (csec64 AND 0x7FFFFFFF)) s)"

definition sys_get_cmdline :: "'w cm_env \<Rightarrow> u32 \<Rightarrow> u32 list \<Rightarrow> 'w cortexm \<Rightarrow> ('w cortexm, u32) outcome" where
  "sys_get_cmdline E r1 params s =
     (let buf_ptr = params ! 0; buf_len = params ! 1; n = word_of_nat (length (cm_cmdline s)) + 1
      in if n > buf_len then return (- 1) s
         else andthen (cm_mem_write E buf_ptr (cm_cmdline s @ [0]) s) (\<lambda>e s.
           if e then return (- 1) s
           else andthen (cm_mem_write E r1 (le_bytes 4 (unat buf_ptr) @ le_bytes 4 (unat n)) s) (\<lambda>e.
             return (if e then - 1 else 0))))"

definition host_errors :: "int list" where
  "host_errors = [1, 2, 4, 5, 9, 13, 14, 16, 17, 19, 20, 21, 22, 23, 24, 27, 28, 29, 30, 88, 91, 9999]"

definition sys_tmpnam :: "'w cm_env \<Rightarrow> u32 list \<Rightarrow> 'w cortexm \<Rightarrow> ('w cortexm, u32) outcome" where
  "sys_tmpnam E params s =
     (let buf_ptr = params ! 0; target_id = params ! 1; buf_size = params ! 2
      in if buf_ptr = 0 \<or> sint buf_size \<le> 0 \<or> sint target_id < 0 \<or> sint target_id > 255 then return (- 1) s
         else let fnam = str ''temp'' @ [65 + ucast (drop_bit 4 target_id AND 0xF), 65 + ucast (target_id AND 0xF)] @ str ''.tmp''
              in if word_of_nat (length fnam) + 1 > buf_size then return (- 1) s
                 else andthen (cm_mem_write E buf_ptr (fnam @ [0]) s) (\<lambda>e. return (if e then - 1 else 0)))"

text \<open>The \<open>switch\<close>: the value for \<open>r0\<close>, from the call number, the registers and the four parameters.\<close>

definition hostio_switch :: "'w cm_env \<Rightarrow> 'w cortexm tc_host \<Rightarrow> u32 list \<Rightarrow> u32 list \<Rightarrow> 'w cortexm \<Rightarrow> ('w cortexm, u32) outcome" where
  "hostio_switch E H regs params s =
     (let syscall = regs ! 0; r1 = regs ! 1
      in if syscall = SYS_OPEN then sys_open E H params s
         else if syscall = SYS_CLOSE then int_ret (th_close H (params ! 0 - 1) s)
         else if syscall = SYS_READ then
           andthen (int_ret (th_read H (params ! 0 - 1) (params ! 1) (params ! 2) s)) (\<lambda>ret. return (left_over (params ! 2) ret))
         else if syscall = SYS_WRITE then
           andthen (int_ret (th_write H (params ! 0 - 1) (params ! 1) (params ! 2) s)) (\<lambda>ret. return (left_over (params ! 2) ret))
         else if syscall = SYS_WRITEC then int_ret (th_write H 2 r1 1 s)
         else if syscall = SYS_WRITE0 then sys_write0 E H r1 s
         else if syscall = SYS_ISTTY then int_ret (th_isatty H (params ! 0 - 1) s)
         else if syscall = SYS_SEEK then
           andthen (int_ret (th_lseek H (params ! 0 - 1) (params ! 1) 0 s)) (\<lambda>ret. return (if ret = params ! 1 then 0 else - 1))
         else if syscall = SYS_RENAME then int_ret (th_rename H (params ! 0) (params ! 1 + 1) (params ! 2) (params ! 3 + 1) s)
         else if syscall = SYS_REMOVE then int_ret (th_unlink H (params ! 0) (params ! 1 + 1) s)
         else if syscall = SYS_SYSTEM then int_ret (th_system H (params ! 0) (params ! 1 + 1) s)
         else if syscall = SYS_FLEN then sys_flen H (params ! 0 - 1) s
         else if syscall = SYS_CLOCK then sys_time H False s
         else if syscall = SYS_TIME then sys_time H True s
         else if syscall = SYS_READC then
           andthen (th_readc_probe H (ch CHR ''?'') s) (\<lambda>(rc, c). return (if rc = 1 then ucast c else - 1))
         else if syscall = SYS_ERRNO then return (word_of_int (cm_errno s)) s
         else if syscall = SYS_EXIT then
           andthen (cortexm_halt_resume E True (cm_printf E (str ''_exit(0x'' @ fmt_x r1 @ str '')'' @ [10]) s)) (\<lambda>x. return 0)
         else if syscall = SYS_EXIT_EXTENDED then
           andthen (cortexm_halt_resume E True
             (cm_printf E (str ''_exit(0x'' @ fmt_x (params ! 1) @ fmt_08x (params ! 0) @ str '')'' @ [10]) s)) (\<lambda>x. return 0)
         else if syscall = SYS_GET_CMDLINE then sys_get_cmdline E r1 params s
         else if syscall = SYS_ISERROR then return (if sint (params ! 0) \<in> set host_errors then 1 else 0) s
         else if syscall = SYS_HEAPINFO then
           andthen (cm_mem_write E r1 (concat (map (\<lambda>v. le_bytes 4 (unat v)) (cm_heapinfo s))) s) (\<lambda>e. return 0)
         else if syscall = SYS_TMPNAM then sys_tmpnam E params s
         else if syscall = SYS_ELAPSED \<or> syscall = SYS_TICKFREQ then return (- 1) s
         else return 0 s)"

definition cortexm_hostio_request :: "'w cm_env \<Rightarrow> 'w cortexm tc_host \<Rightarrow> 'w cortexm \<Rightarrow> ('w cortexm, bool) outcome" where
  "cortexm_hostio_request E H s =
     andthen (cortexm_regs_read E (s\<lparr>cm_interrupted := False\<rparr>)) (\<lambda>regs s.
     andthen (if regs ! 0 \<noteq> SYS_EXIT
              then andthen (cm_mem_read E (regs ! 1) 16 s) (\<lambda>(e, bs). return (word_list bs))
              else return [] s) (\<lambda>params s.
     andthen (hostio_switch E H regs params s) (\<lambda>ret s.
     andthen (cortexm_regs_write E (regs[0 := ret]) s) (\<lambda>x s.
     return (cm_interrupted s) s))))"

subsection \<open>Why the core has halted\<close>

text \<open>The result is the reason and, where \<open>*watch\<close> is written, the address.\<close>

definition why_halted :: "'w cm_env \<Rightarrow> bool \<Rightarrow> u32 \<Rightarrow> 'w cortexm \<Rightarrow> ('w cortexm, target_halt_reason \<times> u32 option) outcome" where
  "why_halted E watch dfsr s =
     (if dfsr AND DFSR_DWTTRAP \<noteq> 0 then
        if watch then andthen (cortexm_check_watch E s) (\<lambda>a. return (TARGET_HALT_WATCHPOINT, Some a))
        else return (TARGET_HALT_WATCHPOINT, None) s
      else if dfsr AND DFSR_BKPT \<noteq> 0 then return (TARGET_HALT_BREAKPOINT, None) s
      else if dfsr AND DFSR_HALTED \<noteq> 0 then
        return (if stepping (cm_priv s) then TARGET_HALT_STEPPING else TARGET_HALT_REQUEST, None) s
      else return (TARGET_HALT_BREAKPOINT, None) s)"

definition halted_on_bkpt :: "'w cm_env \<Rightarrow> 'w cortexm tc_host \<Rightarrow> bool \<Rightarrow> u32 \<Rightarrow> 'w cortexm \<Rightarrow> ('w cortexm, target_halt_reason \<times> u32 option) outcome" where
  "halted_on_bkpt E H watch dfsr s =
     andthen (cortexm_pc_read E s) (\<lambda>pc s.
     andthen (cm_read16 E pc s) (\<lambda>instr s.
       if instr = 0xBEAB then
         andthen (cortexm_hostio_request E H s) (\<lambda>interrupted s.
           if interrupted then return (TARGET_HALT_REQUEST, None) s
           else andthen (cortexm_halt_resume E (stepping (cm_priv s)) s) (\<lambda>x. return (TARGET_HALT_RUNNING, None)))
       else why_halted E watch dfsr s))"

definition halt_reason :: "'w cm_env \<Rightarrow> 'w cortexm tc_host \<Rightarrow> bool \<Rightarrow> 'w cortexm \<Rightarrow> ('w cortexm, target_halt_reason \<times> u32 option) outcome" where
  "halt_reason E H watch s =
     andthen (cm_read32 E CORTEXM_DFSR s) (\<lambda>dfsr s.
     andthen (cm_write32 E CORTEXM_DFSR dfsr s) (\<lambda>x s.
     andthen (if dfsr AND DFSR_VCATCH \<noteq> 0 then cortexm_fault_unwind E s else return False s) (\<lambda>unwound s.
       if unwound then return (TARGET_HALT_FAULT, None) s
       else let s = set_priv (\<lambda>p. p\<lparr>on_bkpt := (dfsr AND DFSR_BKPT \<noteq> 0)\<rparr>) s
            in if on_bkpt (cm_priv s) then halted_on_bkpt E H watch dfsr s else why_halted E watch dfsr s)))"

definition cortexm_halt_poll :: "'w cm_env \<Rightarrow> 'w cortexm tc_host \<Rightarrow> bool \<Rightarrow> 'w cortexm \<Rightarrow> ('w cortexm, target_halt_reason \<times> u32 option) outcome" where
  "cortexm_halt_poll E H watch s =
     try_catch EXCEPTION_ALL (cm_read32 E CORTEXM_DHCSR s) (\<lambda>e x s.
       let dhcsr = (case x of Some v \<Rightarrow> v | None \<Rightarrow> 0)
       in case e of
            Some e \<Rightarrow>
              if exn_type e = EXCEPTION_ERROR then andthen (ce_list_free E s) (\<lambda>x. return (TARGET_HALT_ERROR, None))
              else return (TARGET_HALT_RUNNING, None) s
          | None \<Rightarrow> if dhcsr AND DHCSR_S_HALT = 0 then return (TARGET_HALT_RUNNING, None) s else halt_reason E H watch s)"

subsection \<open>Running a stub\<close>

definition stub_regs :: "nat \<Rightarrow> u32 \<Rightarrow> u32 \<Rightarrow> u32 \<Rightarrow> u32 \<Rightarrow> u32 \<Rightarrow> u32 list" where
  "stub_regs n loadaddr r0 r1 r2 r3 = (replicate n 0)[0 := r0, 1 := r1, 2 := r2, 3 := r3, 15 := loadaddr, REG_XPSR := 0x1000000, 19 := 0]"

text \<open>\<open>None\<close> as the reason: the time is over.\<close>

partial_function (option) stub_loop :: "'w cm_env \<Rightarrow> 'w cortexm tc_host \<Rightarrow> u32 \<Rightarrow> 'w cortexm \<Rightarrow> ('w cortexm, target_halt_reason option) outcome" where
  "stub_loop E H timeout s =
     (case platform_timeout_is_expired (ce_clock E) timeout (cm_world s) of (expired, w) \<Rightarrow>
        if expired then return None (s\<lparr>cm_world := w\<rparr>)
        else andthen (cortexm_halt_poll E H False (s\<lparr>cm_world := w\<rparr>)) (\<lambda>(reason, a) s.
          if reason = TARGET_HALT_RUNNING then stub_loop E H timeout s else return (Some reason) s))"

definition stub_result :: "'w cm_env \<Rightarrow> 'w cortexm \<Rightarrow> ('w cortexm, int) outcome" where
  "stub_result E s =
     andthen (cortexm_pc_read E s) (\<lambda>pc s.
     andthen (cm_read16 E pc s) (\<lambda>instr.
     return (if drop_bit 8 instr \<noteq> 0xBE then - 2 else uint (instr AND 0xFF))))"

definition cortexm_run_stub :: "'w cm_env \<Rightarrow> 'w cortexm tc_host \<Rightarrow> u32 \<Rightarrow> u32 \<Rightarrow> u32 \<Rightarrow> u32 \<Rightarrow> u32 \<Rightarrow> 'w cortexm \<Rightarrow> ('w cortexm, int) outcome" where
  "cortexm_run_stub E H loadaddr r0 r1 r2 r3 s =
     andthen (cortexm_regs_write E (stub_regs (cm_regs_count s) loadaddr r0 r1 r2 r3) s) (\<lambda>x s.
     andthen (cortexm_check_error E s) (\<lambda>e s.
       if e then return (- 1) s
       else
         andthen (cortexm_regs_read E s) (\<lambda>arm_regs_start s.
         andthen (cortexm_halt_resume E False s) (\<lambda>x s.
         case platform_timeout_set (ce_clock E) 5000 (cm_world s) of (timeout, w) \<Rightarrow>
         andthen (stub_loop E H timeout (s\<lparr>cm_world := w\<rparr>)) (\<lambda>reason s.
           case reason of
             None \<Rightarrow> andthen (cortexm_halt_request E s) (\<lambda>x s. andthen (cortexm_regs_read E s) (\<lambda>regs. return (- 3)))
           | Some TARGET_HALT_ERROR \<Rightarrow> raise_exn EXCEPTION_ERROR ''Target lost in stub'' s
           | Some TARGET_HALT_BREAKPOINT \<Rightarrow> stub_result E s
           | Some _ \<Rightarrow> return (- 2) s)))))"

end
