(* ===== verification/Cortexm_Core.thy ===== *)
theory Cortexm_Core
  imports Cortexm_Halt Target_Access
begin

text \<open>
  What the operations of \<open>cortexm.c\<close> do to a core. The debug port in front of the core is described by
  \<open>core_step\<close>, after the architecture's description: word accesses reach the bus of the core through
  \<open>DRW\<close> at \<open>TAR\<close> or through the banked registers, and every read is posted. The reads and writes of the
  bus, with their side effects, are parameters (\<open>core_bus\<close>), and so are the laws of a group of registers.
\<close>

unbundle bit_operations_syntax

subsection \<open>Computations that return\<close>

definition runs :: "('s, 'a) outcome \<Rightarrow> ('a \<Rightarrow> 's \<Rightarrow> bool) \<Rightarrow> bool" where
  "runs m Q \<longleftrightarrow> (\<exists>x s. m = Some (Inr x, s) \<and> Q x s)"

lemma runs_return [intro]: "Q x s \<Longrightarrow> runs (return x s) Q"
  by (simp add: runs_def return_def)

lemma runs_andthen: "runs m R \<Longrightarrow> (\<And>x s. R x s \<Longrightarrow> runs (f x s) Q) \<Longrightarrow> runs (andthen m f) Q"
  unfolding runs_def by fastforce

lemma runs_mono: "runs m R \<Longrightarrow> (\<And>x s. R x s \<Longrightarrow> Q x s) \<Longrightarrow> runs m Q"
  unfolding runs_def by blast

subsection \<open>The bus of a core behind its port\<close>

record 'c core_bus =
  cb_read :: "u32 \<Rightarrow> 'c \<Rightarrow> u32 \<times> 'c"
  cb_write :: "u32 \<Rightarrow> u32 \<Rightarrow> 'c \<Rightarrow> 'c"
  cb_part :: "u32 \<Rightarrow> u8 list \<Rightarrow> 'c \<Rightarrow> 'c" \<comment> \<open>of a byte or a halfword\<close>

record 'c core_port =
  cp_fault :: bool
  cp_select :: u32
  cp_csw :: u32
  cp_tar :: u32
  cp_posted :: u32
  cp_core :: 'c

definition cp_size :: "'c core_port \<Rightarrow> nat" where "cp_size p = unat (cp_csw p AND 7)"

definition lanes_of :: "u32 \<Rightarrow> u32 \<Rightarrow> nat \<Rightarrow> u32 \<Rightarrow> bool" where \<comment> \<open>\<open>y\<close> carries the bytes of \<open>x\<close> that the access is about\<close>
  "lanes_of x a k y \<longleftrightarrow> (\<forall>i < 2 ^ k. byte_lane y (lane a + i) = byte_lane x (lane a + i))"

definition port_bank :: "u8 \<Rightarrow> u32 \<Rightarrow> 'c core_port \<Rightarrow> bool" where
  "port_bank a bank p \<longleftrightarrow> \<not> cp_fault p \<and> cp_select p = push_bit 24 (ucast a) OR bank"

definition bank_addr :: "'c core_port \<Rightarrow> nat \<Rightarrow> u32" where
  "bank_addr p n = (cp_tar p AND NOT 0xF) + 4 * word_of_nat n"

inductive core_step :: "'c core_bus \<Rightarrow> u8 \<Rightarrow> bool \<Rightarrow> u16 \<Rightarrow> u32 \<Rightarrow> 'c core_port \<Rightarrow> u32 \<Rightarrow> 'c core_port \<Rightarrow> bool" for B a where
  select: "\<not> cp_fault p \<Longrightarrow> core_step B a False DP_SELECT v p x (p\<lparr>cp_select := v, cp_posted := y\<rparr>)"
| csw: "port_bank a 0 p \<Longrightarrow> core_step B a False AP_CSW v p x (p\<lparr>cp_csw := v, cp_posted := y\<rparr>)"
| tar: "port_bank a 0 p \<Longrightarrow> core_step B a False AP_TAR v p x (p\<lparr>cp_tar := v, cp_posted := y\<rparr>)"
| drw_write: "port_bank a 0 p \<Longrightarrow> cp_size p = 2 \<Longrightarrow> cp_csw p AND 0x30 = 0x10 \<Longrightarrow> aligned (cp_tar p) 2 \<Longrightarrow>
    core_step B a False AP_DRW v p x (p\<lparr>cp_core := cb_write B (cp_tar p) v (cp_core p), cp_tar := tar_next (cp_tar p) 2, cp_posted := y\<rparr>)"
| drw_part: "port_bank a 0 p \<Longrightarrow> cp_size p < 2 \<Longrightarrow> cp_csw p AND 0x30 = 0x10 \<Longrightarrow> aligned (cp_tar p) (cp_size p) \<Longrightarrow>
    core_step B a False AP_DRW v p x (p\<lparr>cp_core := cb_part B (cp_tar p) (map (\<lambda>i. byte_lane v (lane (cp_tar p) + i)) [0..<2 ^ cp_size p]) (cp_core p),
      cp_tar := tar_next (cp_tar p) (cp_size p), cp_posted := y\<rparr>)"
| drw_read: "port_bank a 0 p \<Longrightarrow> cp_size p \<le> 2 \<Longrightarrow> cp_csw p AND 0x30 = 0x10 \<Longrightarrow> aligned (cp_tar p) (cp_size p) \<Longrightarrow>
    cb_read B (cp_tar p AND NOT 3) (cp_core p) = (z, c) \<Longrightarrow> lanes_of z (cp_tar p) (cp_size p) y \<Longrightarrow>
    core_step B a True AP_DRW v p (cp_posted p) (p\<lparr>cp_core := c, cp_tar := tar_next (cp_tar p) (cp_size p), cp_posted := y\<rparr>)"
| db_write: "port_bank a 0x10 p \<Longrightarrow> n < 4 \<Longrightarrow>
    core_step B a False (AP_DB n) v p x (p\<lparr>cp_core := cb_write B (bank_addr p n) v (cp_core p), cp_posted := y\<rparr>)"
| db_read: "port_bank a 0x10 p \<Longrightarrow> n < 4 \<Longrightarrow> cb_read B (bank_addr p n) (cp_core p) = (y, c) \<Longrightarrow>
    core_step B a True (AP_DB n) v p (cp_posted p) (p\<lparr>cp_core := c, cp_posted := y\<rparr>)"
| rdbuff: "\<not> cp_fault p \<Longrightarrow> core_step B a True DP_RDBUFF v p (cp_posted p) (p\<lparr>cp_posted := y\<rparr>)"

lemma AP_DB_values: "AP_DB 0 = 0x110" "AP_DB 1 = 0x114" "AP_DB 2 = 0x118" "AP_DB 3 = 0x11C"
  by (simp_all add: AP_DB_def)

lemma AP_DB_distinct:
  assumes "n < 4"
  shows "AP_DB n \<notin> {DP_SELECT, AP_CSW, AP_TAR, AP_DRW, DP_RDBUFF}" "m < 4 \<Longrightarrow> AP_DB n = AP_DB m \<Longrightarrow> n = m"
proof -
  have c: "k < 4 \<Longrightarrow> k = 0 \<or> k = 1 \<or> k = 2 \<or> k = 3" for k :: nat by presburger
  from c [OF assms] show "AP_DB n \<notin> {DP_SELECT, AP_CSW, AP_TAR, AP_DRW, DP_RDBUFF}"
    by (elim disjE; simp only: AP_DB_values) (simp_all add: dp_addresses)
  assume "m < 4" and eq: "AP_DB n = AP_DB m"
  from c [OF assms] c [OF this(1)] eq show "n = m" by (elim disjE) (simp_all add: AP_DB_def)
qed

lemma AP_DB_neq [simp]:
  "n < 4 \<Longrightarrow> DP_SELECT \<noteq> AP_DB n" "n < 4 \<Longrightarrow> AP_CSW \<noteq> AP_DB n" "n < 4 \<Longrightarrow> AP_TAR \<noteq> AP_DB n" "n < 4 \<Longrightarrow> AP_DRW \<noteq> AP_DB n" "n < 4 \<Longrightarrow> DP_RDBUFF \<noteq> AP_DB n"
  using AP_DB_distinct(1) [of n] by auto

inductive_simps core_step_simps [simp]:
  "core_step B a False DP_SELECT v p x p'"
  "core_step B a False AP_CSW v p x p'"
  "core_step B a False AP_TAR v p x p'"
  "core_step B a False AP_DRW v p x p'"
  "core_step B a True AP_DRW v p x p'"
  "core_step B a True DP_RDBUFF v p x p'"

text \<open>A debug port with the observer \<open>st\<close> of what is behind it: it performs every access whose effect is
  determined; a checked read is a posted one and the fetch of its value (both transports); the error
  query of a port without a fault reports none.\<close>

definition core_port_ok :: "'c core_bus \<Rightarrow> u8 \<Rightarrow> 'w dp_ops \<Rightarrow> ('w \<Rightarrow> 'c core_port) \<Rightarrow> bool" where
  "core_port_ok B a D st \<longleftrightarrow>
     (\<forall>RnW addr v w. (\<exists>x p. core_step B a RnW addr v (st w) x p) \<longrightarrow>
        (\<exists>x w'. dp_low_access D RnW addr v w = Some (Inr x, w') \<and> core_step B a RnW addr v (st w) x (st w'))) \<and>
     (\<forall>n < 4. \<forall>w. dp_read D (AP_DB n) w =
        andthen (dp_low_access D True (AP_DB n) 0 w) (\<lambda>x. dp_low_access D True DP_RDBUFF 0)) \<and>
     (\<forall>w. \<not> cp_fault (st w) \<longrightarrow> (\<exists>w' y z. dp_error D w = Some (Inr 0, w') \<and> st w' = st w\<lparr>cp_posted := y, cp_select := z\<rparr>))"

lemma core_port_access:
  assumes "core_port_ok B a D st" and "core_step B a RnW addr v (st w) x p"
  shows "runs (dp_low_access D RnW addr v w) (\<lambda>x w'. core_step B a RnW addr v (st w) x (st w'))"
  using assms unfolding core_port_ok_def runs_def by meson

lemma core_port_error:
  assumes "core_port_ok B a D st" and "\<not> cp_fault (st w)"
  shows "runs (dp_error D w) (\<lambda>e w'. e = 0 \<and> \<not> cp_fault (st w') \<and> cp_core (st w') = cp_core (st w))"
  using assms unfolding core_port_ok_def runs_def by fastforce

subsection \<open>Transfers of one word\<close>

definition cp_ready :: "u8 \<Rightarrow> nat \<Rightarrow> u32 \<Rightarrow> 'c \<Rightarrow> 'c core_port \<Rightarrow> bool" where
  "cp_ready a k addr c p \<longleftrightarrow> port_bank a 0 p \<and> cp_size p = k \<and> cp_csw p AND 0x30 = 0x10 \<and> cp_tar p = addr \<and> cp_core p = c"

text \<open>Nothing changed but the registers of the port.\<close>

definition cp_idle :: "'c \<Rightarrow> 'c core_port \<Rightarrow> bool" where
  "cp_idle c p \<longleftrightarrow> \<not> cp_fault p \<and> cp_core p = c"

lemma csw_bits:
  fixes csw :: u32
  assumes "csw AND 0x37 = 0"
  shows "csw AND 7 = 0" "csw AND 0x30 = 0"
proof -
  have "csw AND 7 = (csw AND 0x37) AND 7" "csw AND 0x30 = (csw AND 0x37) AND 0x30" by (simp_all add: and.assoc)
  then show "csw AND 7 = 0" "csw AND 0x30 = 0" using assms by simp_all
qed

lemma select_runs:
  assumes "core_port_ok B (ap_apsel ap) D st" and "cp_idle c (st w)"
  shows "runs (adiv5_dp_write D DP_SELECT (ap_select ap addr) w)
    (\<lambda>x w'. port_bank (ap_apsel ap) (ucast (addr AND 0xF0)) (st w') \<and> cp_csw (st w') = cp_csw (st w) \<and> cp_tar (st w') = cp_tar (st w) \<and> cp_core (st w') = c)"
proof -
  have "core_step B (ap_apsel ap) False DP_SELECT (ap_select ap addr) (st w) 0 (st w\<lparr>cp_select := ap_select ap addr, cp_posted := 0\<rparr>)"
    using assms(2) by (intro core_step.select) (simp add: cp_idle_def)
  from core_port_access [OF assms(1) this] show ?thesis unfolding adiv5_dp_write_def
    by (rule runs_andthen) (use assms(2) in \<open>auto simp: port_bank_def cp_idle_def ap_select_def\<close>)
qed

lemma csw_runs:
  assumes "core_port_ok B a D st" and "port_bank a 0 (st w)"
  shows "runs (adiv5_dp_write D AP_CSW v w) (\<lambda>x w'. port_bank a 0 (st w') \<and> cp_csw (st w') = v \<and> cp_core (st w') = cp_core (st w))"
proof -
  have "core_step B a False AP_CSW v (st w) 0 (st w\<lparr>cp_csw := v, cp_posted := 0\<rparr>)" using assms(2) by (rule core_step.csw)
  from core_port_access [OF assms(1) this] show ?thesis unfolding adiv5_dp_write_def
    by (rule runs_andthen) (use assms(2) in \<open>auto simp: port_bank_def\<close>)
qed

lemma tar_runs:
  assumes "core_port_ok B a D st" and "port_bank a 0 (st w)"
  shows "runs (dp_low_access D False AP_TAR v w)
    (\<lambda>x w'. port_bank a 0 (st w') \<and> cp_csw (st w') = cp_csw (st w) \<and> cp_tar (st w') = v \<and> cp_core (st w') = cp_core (st w))"
proof -
  have "core_step B a False AP_TAR v (st w) 0 (st w\<lparr>cp_tar := v, cp_posted := 0\<rparr>)" using assms(2) by (rule core_step.tar)
  from core_port_access [OF assms(1) this] show ?thesis
    by (rule runs_mono) (use assms(2) in \<open>auto simp: port_bank_def\<close>)
qed

lemma setup_runs:
  assumes P: "core_port_ok B (ap_apsel ap) D st" and c: "ap_csw ap AND 0x37 = 0" and al: "align \<noteq> ALIGN_DWORD"
    and i: "cp_idle c (st w)"
  shows "runs (ap_mem_access_setup D ap addr align w) (\<lambda>x w'. cp_ready (ap_apsel ap) (align_shift align) addr c (st w'))"
proof -
  define csw where "csw = (case align of ALIGN_BYTE \<Rightarrow> (ap_csw ap OR 0x10) OR 0 | ALIGN_HALFWORD \<Rightarrow> (ap_csw ap OR 0x10) OR 1
    | ALIGN_DWORD \<Rightarrow> (ap_csw ap OR 0x10) OR 2 | ALIGN_WORD \<Rightarrow> (ap_csw ap OR 0x10) OR 2)"
  have sz: "unat (csw AND 7) = align_shift align" "csw AND 0x30 = 0x10"
    using al csw_bits [OF c] unfolding csw_def by (cases align; simp add: word_ao_dist)+
  have z: "ucast (AP_CSW AND 0xF0) = (0 :: u32)" by (simp add: AP_CSW_def)
  show ?thesis unfolding ap_mem_access_setup_def Let_def firmware_ap_write_def andthen_assoc
    apply (fold csw_def)
    apply (rule runs_andthen [OF select_runs [OF P i]])
    apply (rule runs_andthen [OF csw_runs [OF P]])
     apply (simp add: z)
    apply (rule runs_andthen [OF tar_runs [OF P]])
     apply simp
    using sz by (auto simp: cp_ready_def cp_size_def)
qed

lemma drw_write_runs:
  assumes P: "core_port_ok B a D st" and r: "cp_ready a 2 addr c (st w)" and al: "aligned addr 2"
  shows "runs (dp_low_access D False AP_DRW v w) (\<lambda>x w'. cp_ready a 2 (tar_next addr 2) (cb_write B addr v c) (st w'))"
proof -
  have "core_step B a False AP_DRW v (st w) 0 (st w\<lparr>cp_core := cb_write B (cp_tar (st w)) v (cp_core (st w)), cp_tar := tar_next (cp_tar (st w)) 2, cp_posted := 0\<rparr>)"
    using r al by (intro core_step.drw_write) (simp_all add: cp_ready_def)
  from core_port_access [OF P this] show ?thesis
    by (rule runs_mono) (use r in \<open>auto simp: cp_ready_def port_bank_def cp_size_def\<close>)
qed

lemma drw_read_runs:
  assumes P: "core_port_ok B a D st" and r: "cp_ready a k addr c (st w)" and al: "aligned addr k" and k: "k \<le> 2"
  shows "runs (dp_low_access D True AP_DRW v w) (\<lambda>x w'. x = cp_posted (st w) \<and>
    cp_ready a k (tar_next addr k) (snd (cb_read B (addr AND NOT 3) c)) (st w') \<and> lanes_of (fst (cb_read B (addr AND NOT 3) c)) addr k (cp_posted (st w')))"
proof -
  obtain z d where zd: "cb_read B (addr AND NOT 3) c = (z, d)" by force
  have "core_step B a True AP_DRW v (st w) (cp_posted (st w)) (st w\<lparr>cp_core := d, cp_tar := tar_next (cp_tar (st w)) (cp_size (st w)), cp_posted := z\<rparr>)"
    using r al k zd by (intro core_step.drw_read [where z = z]) (simp_all add: cp_ready_def lanes_of_def)
  from core_port_access [OF P this] show ?thesis
    by (rule runs_mono) (use r zd in \<open>auto simp: cp_ready_def port_bank_def cp_size_def\<close>)
qed

lemma rdbuff_runs:
  assumes "core_port_ok B a D st" and "\<not> cp_fault (st w)"
  shows "runs (dp_low_access D True DP_RDBUFF v w) (\<lambda>x w'. x = cp_posted (st w) \<and> (\<exists>y. st w' = st w\<lparr>cp_posted := y\<rparr>))"
  using core_port_access [OF assms(1) core_step.rdbuff [OF assms(2), of B a v]] by (rule runs_mono) auto

lemma db_write_runs:
  assumes P: "core_port_ok B a D st" and n: "n < 4" and r: "port_bank a 0x10 (st w)"
  shows "runs (dp_low_access D False (AP_DB n) v w) (\<lambda>x w'. port_bank a 0x10 (st w') \<and> cp_tar (st w') = cp_tar (st w) \<and>
    cp_core (st w') = cb_write B (bank_addr (st w) n) v (cp_core (st w)))"
proof -
  have inv: "\<exists>m y. m < 4 \<and> AP_DB n = AP_DB m \<and> q = st w\<lparr>cp_core := cb_write B (bank_addr (st w) m) v (cp_core (st w)), cp_posted := y\<rparr>"
    if "core_step B a False (AP_DB n) v (st w) x q" for x q
    using that AP_DB_distinct(1) [OF n] by (cases rule: core_step.cases) auto
  have "core_step B a False (AP_DB n) v (st w) 0 (st w\<lparr>cp_core := cb_write B (bank_addr (st w) n) v (cp_core (st w)), cp_posted := 0\<rparr>)"
    using r n by (rule core_step.db_write)
  from core_port_access [OF P this] show ?thesis
    by (rule runs_mono) (use r AP_DB_distinct(2) [OF n] in \<open>auto simp: port_bank_def dest!: inv\<close>)
qed

lemma db_read_runs:
  assumes P: "core_port_ok B a D st" and n: "n < 4" and r: "port_bank a 0x10 (st w)"
  shows "runs (dp_read D (AP_DB n) w) (\<lambda>x w'. x = fst (cb_read B (bank_addr (st w) n) (cp_core (st w))) \<and> port_bank a 0x10 (st w') \<and>
    cp_tar (st w') = cp_tar (st w) \<and> cp_core (st w') = snd (cb_read B (bank_addr (st w) n) (cp_core (st w))))"
proof -
  obtain z c where zc: "cb_read B (bank_addr (st w) n) (cp_core (st w)) = (z, c)" by force
  have inv: "q = st w\<lparr>cp_core := c, cp_posted := z\<rparr>" if "core_step B a True (AP_DB n) 0 (st w) x q" for x q
    using that AP_DB_distinct(1) [OF n] AP_DB_distinct(2) [OF n] zc by (cases rule: core_step.cases) auto
  have "core_step B a True (AP_DB n) 0 (st w) (cp_posted (st w)) (st w\<lparr>cp_core := c, cp_posted := z\<rparr>)"
    using r n zc by (rule core_step.db_read)
  note first = core_port_access [OF P this]
  have eq: "dp_read D (AP_DB n) w = andthen (dp_low_access D True (AP_DB n) 0 w) (\<lambda>x. dp_low_access D True DP_RDBUFF 0)"
    using P n by (simp add: core_port_ok_def)
  show ?thesis unfolding eq
  proof (rule runs_andthen [OF first])
    fix x w' assume "core_step B a True (AP_DB n) 0 (st w) x (st w')"
    from inv [OF this] have w': "st w' = st w\<lparr>cp_core := c, cp_posted := z\<rparr>" .
    then have "\<not> cp_fault (st w')" using r by (simp add: port_bank_def)
    from rdbuff_runs [OF P this] show "runs (dp_low_access D True DP_RDBUFF 0 w') (\<lambda>x w'. x = fst (cb_read B (bank_addr (st w) n) (cp_core (st w))) \<and>
      port_bank a 0x10 (st w') \<and> cp_tar (st w') = cp_tar (st w) \<and> cp_core (st w') = snd (cb_read B (bank_addr (st w) n) (cp_core (st w))))"
      by (rule runs_mono) (use r w' zc in \<open>auto simp: port_bank_def\<close>)
  qed
qed

lemma word_align: "aligned addr 2 \<Longrightarrow> MIN_align (ALIGNOF (unat addr)) (ALIGNOF 4) = ALIGN_WORD" "aligned addr 2 \<Longrightarrow> addr AND NOT 3 = addr"
proof -
  assume a: "aligned addr 2"
  then have "unat addr mod 4 = 0" by (rule lane_aligned(2))
  then show "MIN_align (ALIGNOF (unat addr)) (ALIGNOF 4) = ALIGN_WORD" by (simp add: MIN_align_def ALIGNOF_def)
  have "addr AND mask 2 = 0" using a by (simp add: aligned_def flip: take_bit_eq_mask)
  then have "addr AND 3 = 0" by (simp add: mask_numeral)
  moreover have "x = (x AND m) OR (x AND NOT m)" for x m :: u32
    by (rule bit_word_eqI) (auto simp: bit_and_iff bit_or_iff bit_not_iff)
  from this [of addr 3] calculation show "addr AND NOT 3 = addr" by simp
qed

lemma le_word_le_bytes_u32: "word_of_nat (le_word (le_bytes 4 (unat (v :: u32)))) = v"
proof -
  have "unat v < 2 ^ 32" using unsigned_less [of v, where 'a = nat] by simp
  then have "unat v mod 256 ^ 4 = unat v" by simp
  then show ?thesis unfolding le_word_le_bytes by simp
qed

lemma runs_if: "(b \<Longrightarrow> runs m Q) \<Longrightarrow> (\<not> b \<Longrightarrow> runs n Q) \<Longrightarrow> runs (if b then m else n) Q"
  by simp

lemma write_word_runs:
  assumes P: "core_port_ok B (ap_apsel ap) D st" and c: "ap_csw ap AND 0x37 = 0" and i: "cp_idle c (st w)" and al: "aligned addr 2"
  shows "runs (adiv5_mem_write D ap addr (le_bytes 4 (unat v)) 4 w) (\<lambda>x w'. cp_idle (cb_write B addr v c) (st w'))"
proof -
  let ?c = "cb_write B addr v c"
  define src where "src = le_bytes 4 (unat v)"
  have p: "pack addr src ALIGN_WORD = Some v"
    unfolding src_def pack.simps length_le_bytes using le_word_le_bytes_u32 [of v] by (simp del: le_bytes_numeral)
  have one: "mem_write_loop D ALIGN_WORD (4 div 2 ^ align_shift ALIGN_WORD) addr addr src =
    (\<lambda>w. andthen (dp_low_access D False AP_DRW v w) (\<lambda>x w.
       if (addr + 4 XOR addr) AND 0xFFFFFC00 \<noteq> 0 then andthen (dp_low_access D False AP_TAR (addr + 4) w) (\<lambda>x w. return () w) else return () w))"
  proof
    fix w
    have n: "4 div 2 ^ align_shift ALIGN_WORD = Suc 0" by simp
    show "mem_write_loop D ALIGN_WORD (4 div 2 ^ align_shift ALIGN_WORD) addr addr src w =
      andthen (dp_low_access D False AP_DRW v w) (\<lambda>x w.
       if (addr + 4 XOR addr) AND 0xFFFFFC00 \<noteq> 0 then andthen (dp_low_access D False AP_TAR (addr + 4) w) (\<lambda>x w. return () w) else return () w)"
      unfolding n mem_write_loop.simps p by (simp add: Let_def)
  qed
  have idle: "cp_ready (ap_apsel ap) 2 a d p \<Longrightarrow> cp_idle d p" for a d p by (simp add: cp_ready_def cp_idle_def port_bank_def)
  show ?thesis unfolding adiv5_mem_write_def firmware_mem_write_sized_def word_align(1) [OF al] one [unfolded src_def]
    apply (rule runs_andthen [OF setup_runs [OF P c _ i]])
     apply simp
    apply (rule runs_andthen [OF drw_write_runs [OF P _ al]])
     apply simp
    apply (rule runs_if)
     apply (rule runs_andthen [OF tar_runs [OF P]])
      apply (simp add: cp_ready_def)
     apply (rule runs_return)
     apply (simp add: cp_ready_def cp_idle_def port_bank_def)
    apply (rule runs_return)
    by (rule idle)
qed

lemma read_unit_runs:
  assumes P: "core_port_ok B (ap_apsel ap) D st" and c: "ap_csw ap AND 0x37 = 0" and i: "cp_idle c (st w)"
    and al: "MIN_align (ALIGNOF (unat addr)) (ALIGNOF (2 ^ k)) = align" "align \<noteq> ALIGN_DWORD" "align_shift align = k" "aligned addr k"
    and rd: "cb_read B (addr AND NOT 3) c = (z, d)"
  shows "runs (firmware_mem_read D ap addr (2 ^ k) w)
    (\<lambda>bs w'. bs = map (\<lambda>i. byte_lane z (lane addr + i)) [0..<2 ^ k] \<and> cp_idle d (st w'))"
proof -
  have k: "k \<le> 2" using al(2,3) by (cases align) auto
  have x: "extract_lane addr y align = map (\<lambda>i. byte_lane z (lane addr + i)) [0..<2 ^ k]" if "lanes_of z addr k y" for y
    using extract_lanes [OF al(2), of addr y] al(3,4) that by (simp add: lanes_of_def)
  have one: "2 ^ k div 2 ^ k = (1 :: nat)" by simp
  show ?thesis unfolding firmware_mem_read_def Let_def al(1) al(3) one
    apply (simp only: diff_self_eq_0 mem_read_loop.simps power_not_zero zero_neq_numeral if_False not_False_eq_True)
    apply (rule runs_andthen [OF setup_runs [OF P c al(2) i]])
    apply (rule runs_andthen [OF drw_read_runs [OF P _ al(4) k]])
     apply (simp add: al(3))
    apply (simp only: andthen_simps prod.case append_Nil)
    apply (elim conjE)
    apply (rule runs_andthen [OF rdbuff_runs [OF P]])
     apply (simp add: cp_ready_def port_bank_def)
    apply (rule runs_return)
    using rd by (auto simp: x cp_ready_def cp_idle_def port_bank_def)
qed

lemma word_of_lanes: "lane addr = 0 \<Longrightarrow> word_of_nat (le_word (map (\<lambda>i. byte_lane z (lane addr + i)) [0..<4])) = z"
  using le_bytes_lanes [of 4 z] le_word_le_bytes_u32 [of z] by simp

subsection \<open>Access through the target\<close>

text \<open>The cache code leaves the registers of the core alone: no RAM region reaches the private peripheral
  bus, and a cache line is small.\<close>

definition ram_below_ppb :: "'w cortexm \<Rightarrow> bool" where
  "ram_below_ppb s \<longleftrightarrow> (has_cache (cm_priv s) \<longrightarrow>
     (dcache_minline (cm_priv s) - 1) AND 0xE0000000 = 0 \<and> (\<forall>r \<in> set (cm_ram s). r_start r + r_length r \<le> 0xE0000000))"

definition cm_ready :: "'w cm_env \<Rightarrow> 'c core_bus \<Rightarrow> ('w \<Rightarrow> 'c core_port) \<Rightarrow> 'w cortexm \<Rightarrow> bool" where
  "cm_ready E B st s \<longleftrightarrow> core_port_ok B (ap_apsel (cm_ap s)) (ce_dp E) st \<and> ap_csw (cm_ap s) AND 0x37 = 0 \<and>
     \<not> cp_fault (st (cm_world s)) \<and> ram_below_ppb s"

abbreviation core_of :: "('w \<Rightarrow> 'c core_port) \<Rightarrow> 'w cortexm \<Rightarrow> 'c" where
  "core_of st s \<equiv> cp_core (st (cm_world s))"

text \<open>Only the world has changed, and the core is now \<open>c\<close>.\<close>

definition moved :: "'w cm_env \<Rightarrow> 'c core_bus \<Rightarrow> ('w \<Rightarrow> 'c core_port) \<Rightarrow> 'w cortexm \<Rightarrow> 'c \<Rightarrow> 'w cortexm \<Rightarrow> bool" where
  "moved E B st s c s' \<longleftrightarrow> (\<exists>w. s' = s\<lparr>cm_world := w\<rparr>) \<and> cm_ready E B st s' \<and> core_of st s' = c"

lemma movedD:
  assumes "moved E B st s c s'"
  shows "cm_ready E B st s'" "core_of st s' = c" "cm_priv s' = cm_priv s" "cm_ap s' = cm_ap s" "cm_options s' = cm_options s"
    "cm_ram s' = cm_ram s" "cm_cmdline s' = cm_cmdline s" "cm_heapinfo s' = cm_heapinfo s" "cm_interrupted s' = cm_interrupted s"
    "moved E B st s' d s'' \<Longrightarrow> moved E B st s d s''"
  using assms by (auto simp: moved_def)

lemma moved_refl: "cm_ready E B st s \<Longrightarrow> moved E B st s (core_of st s) s"
  unfolding moved_def by (intro conjI exI [of _ "cm_world s"]) simp_all

lemma on_cm_runs: "runs (f (cm_world s)) (\<lambda>x w. Q x (s\<lparr>cm_world := w\<rparr>)) \<Longrightarrow> runs (on_cm f s) Q"
  unfolding runs_def on_cm_def by fastforce

lemma cm_ready_world: "cm_ready E B st s \<Longrightarrow> \<not> cp_fault (st w) \<Longrightarrow> cm_ready E B st (s\<lparr>cm_world := w\<rparr>)"
  by (simp add: cm_ready_def ram_below_ppb_def)

lemma on_cm_moved:
  assumes "cm_ready E B st s" and "runs (f (cm_world s)) (\<lambda>x w. Q x \<and> cp_idle c (st w))"
  shows "runs (on_cm f s) (\<lambda>x s'. Q x \<and> moved E B st s c s')"
proof (rule on_cm_runs, rule runs_mono [OF assms(2)])
  fix x w assume "Q x \<and> cp_idle c (st w)"
  then show "Q x \<and> moved E B st s c (s\<lparr>cm_world := w\<rparr>)"
    using cm_ready_world [OF assms(1), of w] by (auto simp: moved_def cp_idle_def)
qed

lemma ppb_bits: "0xE0000000 \<le> (x :: u32) \<longleftrightarrow> x AND 0xE0000000 = 0xE0000000"
proof -
  have K: "bit (0xE0000000 :: u32) n \<longleftrightarrow> 29 \<le> n \<and> n < 32" for n
  proof -
    have "(0xE0000000 :: u32) = push_bit 29 (mask 3)" by (simp add: push_bit_eq_mult mask_numeral)
    then show ?thesis by (simp only: bit_push_bit_iff bit_mask_iff) auto
  qed
  have d: "x AND 0xE0000000 = push_bit 29 (drop_bit 29 x)"
    by (rule bit_word_eqI) (simp only: bit_and_iff K bit_push_bit_iff bit_drop_bit_eq, auto)
  have u: "unat (drop_bit 29 x) = unat x div 2 ^ 29" by (simp only: unat_drop_bit_eq) (simp only: drop_bit_eq_div)
  have lt: "unat x < 2 ^ 32" using unsigned_less [of x, where 'a = nat] by simp
  have "0xE0000000 \<le> x \<longleftrightarrow> 0xE0000000 \<le> unat x" by (simp add: word_le_nat_alt)
  also have "\<dots> \<longleftrightarrow> unat x div 2 ^ 29 = 7" using lt by auto
  also have "\<dots> \<longleftrightarrow> drop_bit 29 x = 7" by (simp add: word_unat_eq_iff u)
  also have "\<dots> \<longleftrightarrow> x AND 0xE0000000 = 0xE0000000"
  proof
    assume "drop_bit 29 x = 7"
    then show "x AND 0xE0000000 = 0xE0000000" unfolding d by (simp add: push_bit_eq_mult)
  next
    assume "x AND 0xE0000000 = 0xE0000000"
    then have "drop_bit 29 (x AND 0xE0000000) = drop_bit 29 (0xE0000000 :: u32)" by simp
    moreover have "drop_bit 29 (x AND 0xE0000000) = drop_bit 29 x" by (rule bit_word_eqI) (simp only: bit_drop_bit_eq comp_def bit_and_iff K, auto dest: bit_imp_le_length)
    moreover have "drop_bit 29 (0xE0000000 :: u32) = 7" by (simp add: drop_bit_eq_div word_unat_eq_iff unat_div)
    ultimately show "drop_bit 29 x = 7" by simp
  qed
  finally show ?thesis .
qed

lemma ppb_line:
  assumes "0xE0000000 \<le> (x :: u32)" "m AND 0xE0000000 = 0"
  shows "0xE0000000 \<le> x AND NOT m"
proof -
  have "(x AND NOT m) AND 0xE0000000 = x AND 0xE0000000"
  proof (rule bit_word_eqI)
    fix n assume "n < LENGTH(32)"
    have "\<not> bit (m AND 0xE0000000) n" using assms(2) by simp
    then show "bit ((x AND NOT m) AND 0xE0000000) n = bit (x AND 0xE0000000) n"
      using \<open>n < _\<close> by (auto simp: bit_and_iff bit_not_iff)
  qed
  then show ?thesis using assms(1) by (simp add: ppb_bits)
qed

lemma clean_regions_none:
  assumes "0xE0000000 \<le> addr" "(minline - 1) AND 0xE0000000 = 0" "\<forall>r \<in> set rs. r_start r + r_length r \<le> 0xE0000000"
  shows "clean_regions E ap reg minline addr mem_end rs w = return () w"
  using assms(3)
proof (induction rs arbitrary: w)
  case Nil
  then show ?case by simp
next
  case (Cons r rs)
  let ?ram = "if addr > r_start r then addr else r_start r" and ?hi = "r_start r + r_length r"
  have "0xE0000000 \<le> ?ram" using assms(1) by (auto dest: order_trans)
  from ppb_line [OF this assms(2)] have lo: "0xE0000000 \<le> ?ram AND NOT (minline - 1)" .
  have "(if mem_end < ?hi then mem_end else ?hi) \<le> 0xE0000000" using Cons.prems by auto
  with lo have "\<not> ?ram AND NOT (minline - 1) < (if mem_end < ?hi then mem_end else ?hi)" by (meson leD order_trans)
  then have "clean_lines E ap reg minline (?ram AND NOT (minline - 1)) (if mem_end < ?hi then mem_end else ?hi) w = return () w"
    by (subst clean_lines.simps) simp
  with Cons show ?case unfolding clean_regions.simps Let_def by simp
qed

lemma ppb_uncached: "ram_below_ppb s \<Longrightarrow> 0xE0000000 \<le> addr \<Longrightarrow> cortexm_cache_clean E addr n invalidate s = return () s"
  unfolding cortexm_cache_clean_def ram_below_ppb_def on_cm_def by (auto simp: clean_regions_none return_def)

lemma uncached:
  assumes "cm_ready E B st s" and "\<not> has_cache (cm_priv s) \<or> 0xE0000000 \<le> addr"
  shows "cortexm_cache_clean E addr n invalidate s = return () s"
proof (cases "has_cache (cm_priv s)")
  case True
  with assms show ?thesis by (intro ppb_uncached) (simp_all add: cm_ready_def)
qed (simp add: cortexm_cache_clean_def)

lemma word_write_runs:
  assumes r: "cm_ready E B st s" and a: "\<not> has_cache (cm_priv s) \<or> 0xE0000000 \<le> addr" "aligned addr 2"
  shows "runs (cm_write32 E addr v s) (\<lambda>x s'. moved E B st s (cb_write B addr v (core_of st s)) s')"
proof -
  have P: "core_port_ok B (ap_apsel (cm_ap s)) (ce_dp E) st" "ap_csw (cm_ap s) AND 0x37 = 0" "cp_idle (core_of st s) (st (cm_world s))"
    using r by (simp_all add: cm_ready_def cp_idle_def)
  have "runs (adiv5_mem_write (ce_dp E) (cm_ap s) addr (le_bytes 4 (unat v)) 4 (cm_world s)) (\<lambda>x w. True \<and> cp_idle (cb_write B addr v (core_of st s)) (st w))"
    using write_word_runs [OF P(1-3) a(2)] by simp
  from on_cm_moved [where f = "adiv5_mem_write (ce_dp E) (cm_ap s) addr (le_bytes 4 (unat v)) 4" and Q = "\<lambda>x. True" and c = "cb_write B addr v (core_of st s)", OF r this] show ?thesis
    unfolding cm_write32_def cortexm_mem_write_def uncached [OF r a(1)] by (simp del: le_bytes_numeral)
qed

lemma word_read_runs:
  assumes r: "cm_ready E B st s" and a: "\<not> has_cache (cm_priv s) \<or> 0xE0000000 \<le> addr" "aligned addr 2"
  shows "runs (cm_read32 E addr s) (\<lambda>x s'. x = fst (cb_read B addr (core_of st s)) \<and> moved E B st s (snd (cb_read B addr (core_of st s))) s')"
proof -
  obtain z d where zd: "cb_read B addr (core_of st s) = (z, d)" by force
  have P: "core_port_ok B (ap_apsel (cm_ap s)) (ce_dp E) st" "ap_csw (cm_ap s) AND 0x37 = 0" "cp_idle (core_of st s) (st (cm_world s))"
    using r by (simp_all add: cm_ready_def cp_idle_def)
  have "MIN_align (ALIGNOF (unat addr)) (ALIGNOF (2 ^ 2)) = ALIGN_WORD" using word_align(1) [OF a(2)] by simp
  moreover have "cb_read B (addr AND NOT 3) (core_of st s) = (z, d)" unfolding word_align(2) [OF a(2)] by (rule zd)
  ultimately have "runs (firmware_mem_read (ce_dp E) (cm_ap s) addr 4 (cm_world s)) (\<lambda>bs w. bs = map (\<lambda>i. byte_lane z (lane addr + i)) [0..<4] \<and> cp_idle d (st w))"
    using read_unit_runs [OF P(1-3) _ _ _ a(2), of ALIGN_WORD z d] by (simp del: upt_Suc)
  from on_cm_moved [where f = "firmware_mem_read (ce_dp E) (cm_ap s) addr 4" and Q = "\<lambda>bs. bs = map (\<lambda>i. byte_lane z (lane addr + i)) [0..<4]" and c = d, OF r this] show ?thesis
    unfolding cm_read32_def cortexm_mem_read_def uncached [OF r a(1)] andthen_simps zd fst_conv snd_conv
    by (rule runs_andthen) (auto simp: word_of_lanes [OF lane_aligned(2) [OF a(2)]] simp del: upt_Suc)
qed

lemmas cm_write32_runs = word_write_runs [OF _ disjI2]
lemmas cm_read32_runs = word_read_runs [OF _ disjI2]

lemma check_error_runs:
  assumes "cm_ready E B st s"
  shows "runs (cortexm_check_error E s) (\<lambda>e s'. \<not> e \<and> moved E B st s (core_of st s) s')"
proof -
  have "runs (dp_error (ce_dp E) (cm_world s)) (\<lambda>e w. e = 0 \<and> cp_idle (core_of st s) (st w))"
    using core_port_error [of B "ap_apsel (cm_ap s)" "ce_dp E" st "cm_world s"] assms
    by (auto simp: cm_ready_def cp_idle_def elim: runs_mono)
  from on_cm_moved [where f = "dp_error (ce_dp E)" and Q = "\<lambda>e. e = 0" and c = "core_of st s", OF assms this] show ?thesis
    unfolding cortexm_check_error_def by (rule runs_andthen) auto
qed

subsection \<open>The registers of the core\<close>

text \<open>The transfer registers \<open>DCRSR\<close> and \<open>DCRDR\<close> of a halted core: \<open>reg c n\<close> is register \<open>n\<close>, \<open>dat c\<close> the
  data register. \<open>norm n v\<close> is what register \<open>n\<close> keeps of \<open>v\<close>, and \<open>overlaps n m\<close> tells that writing \<open>n\<close> may
  change \<open>m\<close> (\<open>SP\<close> is one of \<open>MSP\<close> and \<open>PSP\<close>, by a bit of \<open>CONTROL\<close>).\<close>

definition core_registers :: "'c core_bus \<Rightarrow> ('c \<Rightarrow> u32 \<Rightarrow> u32) \<Rightarrow> ('c \<Rightarrow> u32) \<Rightarrow> (u32 \<Rightarrow> u32 \<Rightarrow> u32) \<Rightarrow> (u32 \<Rightarrow> u32 \<Rightarrow> bool) \<Rightarrow> bool" where
  "core_registers B reg dat norm overlaps \<longleftrightarrow>
     (\<forall>c v. dat (cb_write B CORTEXM_DCRDR v c) = v \<and> reg (cb_write B CORTEXM_DCRDR v c) = reg c) \<and>
     (\<forall>c. fst (cb_read B CORTEXM_DCRDR c) = dat c \<and> reg (snd (cb_read B CORTEXM_DCRDR c)) = reg c) \<and>
     (\<forall>c n. n < 0x80 \<longrightarrow> dat (cb_write B CORTEXM_DCRSR n c) = reg c n \<and> reg (cb_write B CORTEXM_DCRSR n c) = reg c) \<and>
     (\<forall>c n m. n < 0x80 \<longrightarrow> reg (cb_write B CORTEXM_DCRSR (0x10000 OR n) c) n = norm n (dat c) \<and>
        (\<not> overlaps n m \<longrightarrow> reg (cb_write B CORTEXM_DCRSR (0x10000 OR n) c) m = reg c m))"

lemma core_registersD:
  assumes "core_registers B reg dat norm overlaps"
  shows "dat (cb_write B CORTEXM_DCRDR v c) = v" "reg (cb_write B CORTEXM_DCRDR v c) = reg c"
    "fst (cb_read B CORTEXM_DCRDR c) = dat c" "reg (snd (cb_read B CORTEXM_DCRDR c)) = reg c"
    "n < 0x80 \<Longrightarrow> dat (cb_write B CORTEXM_DCRSR n c) = reg c n" "n < 0x80 \<Longrightarrow> reg (cb_write B CORTEXM_DCRSR n c) = reg c"
    "n < 0x80 \<Longrightarrow> reg (cb_write B CORTEXM_DCRSR (0x10000 OR n) c) n = norm n (dat c)"
    "n < 0x80 \<Longrightarrow> \<not> overlaps n m \<Longrightarrow> reg (cb_write B CORTEXM_DCRSR (0x10000 OR n) c) m = reg c m"
  using assms unfolding core_registers_def by blast+

definition db_ready :: "u8 \<Rightarrow> 'c core_port \<Rightarrow> bool" where
  "db_ready a p \<longleftrightarrow> port_bank a 0x10 p \<and> cp_tar p = CORTEXM_DHCSR"

lemma db_addr: "db_ready a p \<Longrightarrow> bank_addr p 1 = CORTEXM_DCRSR" "db_ready a p \<Longrightarrow> bank_addr p 2 = CORTEXM_DCRDR"
  by (simp_all add: db_ready_def bank_addr_def CORTEXM_DHCSR_def CORTEXM_DCRSR_def CORTEXM_DCRDR_def)

lemma db_bank: "db_ready a p \<Longrightarrow> port_bank a 0x10 p"
  by (simp add: db_ready_def)

lemma db_step:
  assumes "core_port_ok B a D st" and "db_ready a (st w)"
  shows "runs (dp_low_access D False (AP_DB 1) v w) (\<lambda>x w'. db_ready a (st w') \<and> cp_core (st w') = cb_write B CORTEXM_DCRSR v (cp_core (st w)))"
    and "runs (dp_low_access D False (AP_DB 2) v w) (\<lambda>x w'. db_ready a (st w') \<and> cp_core (st w') = cb_write B CORTEXM_DCRDR v (cp_core (st w)))"
    and "runs (dp_read D (AP_DB 2) w) (\<lambda>x w'. x = fst (cb_read B CORTEXM_DCRDR (cp_core (st w))) \<and> db_ready a (st w') \<and>
      cp_core (st w') = snd (cb_read B CORTEXM_DCRDR (cp_core (st w))))"
  using db_write_runs [OF assms(1) _ db_bank [OF assms(2)], of 1 v] db_write_runs [OF assms(1) _ db_bank [OF assms(2)], of 2 v]
    db_read_runs [OF assms(1) _ db_bank [OF assms(2)], of 2] assms(2)
  unfolding db_addr [OF assms(2)] by (auto simp: db_ready_def elim!: runs_mono)

lemma regs_read_loop_runs:
  assumes P: "core_port_ok B a D st" and C: "core_registers B reg dat norm overlaps"
  shows "db_ready a (st w) \<Longrightarrow> \<forall>n \<in> set ns. n < 0x80 \<Longrightarrow>
    runs (regs_read_loop D ns regs w) (\<lambda>vs w'. vs = regs @ map (reg (cp_core (st w))) ns \<and> db_ready a (st w') \<and> reg (cp_core (st w')) = reg (cp_core (st w)))"
proof (induction ns arbitrary: regs w)
  case Nil
  then show ?case by (simp add: runs_return)
next
  case (Cons n ns)
  from Cons.prems have n: "n < 0x80" by simp
  show ?case unfolding regs_read_loop.simps
  proof (rule runs_andthen [OF db_step(1) [OF P Cons.prems(1)]])
    fix x w1 assume w1: "db_ready a (st w1) \<and> cp_core (st w1) = cb_write B CORTEXM_DCRSR n (cp_core (st w))"
    show "runs (andthen (dp_read D (AP_DB 2) w1) (\<lambda>v w. regs_read_loop D ns (regs @ [v]) w))
      (\<lambda>vs w'. vs = regs @ map (reg (cp_core (st w))) (n # ns) \<and> db_ready a (st w') \<and> reg (cp_core (st w')) = reg (cp_core (st w)))"
    proof (rule runs_andthen [OF db_step(3) [OF P conjunct1 [OF w1]]], elim conjE)
      fix v w2 assume w2: "v = fst (cb_read B CORTEXM_DCRDR (cp_core (st w1)))" "db_ready a (st w2)"
        "cp_core (st w2) = snd (cb_read B CORTEXM_DCRDR (cp_core (st w1)))"
      from w1 w2 have "v = reg (cp_core (st w)) n" "reg (cp_core (st w2)) = reg (cp_core (st w))" by (simp_all add: core_registersD [OF C] n)
      then show "runs (regs_read_loop D ns (regs @ [v]) w2)
        (\<lambda>vs w'. vs = regs @ map (reg (cp_core (st w))) (n # ns) \<and> db_ready a (st w') \<and> reg (cp_core (st w')) = reg (cp_core (st w)))"
        by (intro runs_mono [OF Cons.IH [OF w2(2)]]) (use Cons.prems(2) in auto)
    qed
  qed
qed

text \<open>\<open>c'\<close> after the values \<open>vs\<close> have been written to the registers \<open>ns\<close> of \<open>c\<close>, in this order.\<close>

definition regs_written :: "('c \<Rightarrow> u32 \<Rightarrow> u32) \<Rightarrow> (u32 \<Rightarrow> u32 \<Rightarrow> u32) \<Rightarrow> (u32 \<Rightarrow> u32 \<Rightarrow> bool) \<Rightarrow> u32 list \<Rightarrow> u32 list \<Rightarrow> 'c \<Rightarrow> 'c \<Rightarrow> bool" where
  "regs_written reg norm overlaps ns vs c c' \<longleftrightarrow>
     (\<forall>i < length ns. (\<forall>j < length ns. i < j \<longrightarrow> \<not> overlaps (ns ! j) (ns ! i)) \<longrightarrow> reg c' (ns ! i) = norm (ns ! i) (vs ! i)) \<and>
     (\<forall>m. (\<forall>n \<in> set ns. \<not> overlaps n m) \<longrightarrow> reg c' m = reg c m)"

lemma regs_written_Cons:
  assumes "reg c1 n = norm n v" "\<And>m. \<not> overlaps n m \<Longrightarrow> reg c1 m = reg c m" "regs_written reg norm overlaps ns vs c1 c'"
  shows "regs_written reg norm overlaps (n # ns) (v # vs) c c'"
  unfolding regs_written_def
proof (intro conjI allI impI)
  fix i assume i: "i < length (n # ns)" and l: "\<forall>j < length (n # ns). i < j \<longrightarrow> \<not> overlaps ((n # ns) ! j) ((n # ns) ! i)"
  show "reg c' ((n # ns) ! i) = norm ((n # ns) ! i) ((v # vs) ! i)"
  proof (cases i)
    case 0
    have "\<not> overlaps (ns ! j) n" if "j < length ns" for j using l that 0 by (auto dest: spec [of _ "Suc j"])
    then have "\<forall>m \<in> set ns. \<not> overlaps m n" by (auto simp: in_set_conv_nth)
    then show ?thesis using assms(1,3) 0 by (simp add: regs_written_def)
  next
    case (Suc k)
    have "\<not> overlaps (ns ! j) (ns ! k)" if "j < length ns" "k < j" for j using l Suc that by auto
    then show ?thesis using assms(3) i Suc by (simp add: regs_written_def)
  qed
next
  fix m assume "\<forall>k \<in> set (n # ns). \<not> overlaps k m"
  then show "reg c' m = reg c m" using assms(2,3) by (simp add: regs_written_def)
qed

lemma regs_written_append:
  assumes "regs_written reg norm overlaps ns vs c c1" "regs_written reg norm overlaps ms us c1 c'" "length vs = length ns"
  shows "regs_written reg norm overlaps (ns @ ms) (vs @ us) c c'"
  unfolding regs_written_def
proof (intro conjI allI impI)
  fix i assume i: "i < length (ns @ ms)" and l: "\<forall>j < length (ns @ ms). i < j \<longrightarrow> \<not> overlaps ((ns @ ms) ! j) ((ns @ ms) ! i)"
  show "reg c' ((ns @ ms) ! i) = norm ((ns @ ms) ! i) ((vs @ us) ! i)"
  proof (cases "i < length ns")
    case True
    have 1: "\<not> overlaps (ns ! j) (ns ! i)" if "j < length ns" "i < j" for j using l that True by (auto simp: nth_append dest: spec [of _ j])
    have "\<not> overlaps m (ns ! i)" if m: "m \<in> set ms" for m
    proof -
      from m obtain j where "j < length ms" "m = ms ! j" by (auto simp: in_set_conv_nth)
      then show ?thesis using l True by (auto simp: nth_append dest: spec [of _ "length ns + j"])
    qed
    then show ?thesis using 1 assms True by (simp add: regs_written_def nth_append)
  next
    case False
    have "\<not> overlaps (ms ! j) (ms ! (i - length ns))" if "j < length ms" "i - length ns < j" for j
      using l that False by (auto simp: nth_append dest: spec [of _ "length ns + j"])
    then show ?thesis using assms False i by (simp add: regs_written_def nth_append)
  qed
next
  fix m assume "\<forall>k \<in> set (ns @ ms). \<not> overlaps k m"
  then show "reg c' m = reg c m" using assms(1,2) by (simp add: regs_written_def)
qed

lemma regs_write_loop_runs:
  assumes P: "core_port_ok B a D st" and C: "core_registers B reg dat norm overlaps"
  shows "db_ready a (st w) \<Longrightarrow> \<forall>n \<in> set ns. n < 0x80 \<Longrightarrow> length ns \<le> length vs \<Longrightarrow>
    runs (regs_write_loop D ns vs w) (\<lambda>us w'. us = drop (length ns) vs \<and> db_ready a (st w') \<and>
      regs_written reg norm overlaps ns (take (length ns) vs) (cp_core (st w)) (cp_core (st w')))"
proof (induction ns arbitrary: vs w)
  case Nil
  then show ?case by (simp add: runs_return regs_written_def)
next
  case (Cons n ns)
  then obtain v us where vs: "vs = v # us" by (cases vs) auto
  from Cons.prems have n: "n < 0x80" by simp
  show ?case unfolding vs regs_write_loop.simps
  proof (rule runs_andthen [OF db_step(2) [OF P Cons.prems(1)]])
    fix x w1 assume w1: "db_ready a (st w1) \<and> cp_core (st w1) = cb_write B CORTEXM_DCRDR v (cp_core (st w))"
    show "runs (andthen (dp_low_access D False (AP_DB 1) (0x10000 OR n) w1) (\<lambda>x w. regs_write_loop D ns us w))
      (\<lambda>ws w'. ws = drop (length (n # ns)) (v # us) \<and> db_ready a (st w') \<and>
        regs_written reg norm overlaps (n # ns) (take (length (n # ns)) (v # us)) (cp_core (st w)) (cp_core (st w')))"
    proof (rule runs_andthen [OF db_step(1) [OF P conjunct1 [OF w1]]], elim conjE)
      fix x w2 assume w2: "db_ready a (st w2)" "cp_core (st w2) = cb_write B CORTEXM_DCRSR (0x10000 OR n) (cp_core (st w1))"
      have "length ns \<le> length us" using Cons.prems(3) vs by simp
      moreover have "reg (cp_core (st w2)) n = norm n v" "\<not> overlaps n m \<Longrightarrow> reg (cp_core (st w2)) m = reg (cp_core (st w)) m" for m
        using w1 w2(2) by (simp_all add: core_registersD [OF C] n)
      ultimately show "runs (regs_write_loop D ns us w2)
        (\<lambda>ws w'. ws = drop (length (n # ns)) (v # us) \<and> db_ready a (st w') \<and>
          regs_written reg norm overlaps (n # ns) (take (length (n # ns)) (v # us)) (cp_core (st w)) (cp_core (st w')))"
        by (intro runs_mono [OF Cons.IH [OF w2(1)]]) (use Cons.prems(2) in \<open>auto intro: regs_written_Cons\<close>)
    qed
  qed
qed

lemma regnums_small: "\<forall>n \<in> set regnum_cortex_m. n < 0x80" "\<forall>n \<in> set regnum_cortex_mf. n < 0x80"
  by (simp_all add: regnum_cortex_m_def regnum_cortex_mf_def)

lemma length_regnums: "length regnum_cortex_m = 20" "length regnum_cortex_mf = 33"
  by (simp_all add: regnum_cortex_m_def regnum_cortex_mf_def)

text \<open>The common start of both transfers: afterwards the banked registers are those of \<open>DHCSR\<close> onwards,
  once the bank is selected.\<close>

lemma db_setup_runs:
  assumes P: "core_port_ok B (ap_apsel ap) D st" and i: "cp_idle c (st w)" and n: "n < 4"
    and k: "\<And>w. db_ready (ap_apsel ap) (st w) \<Longrightarrow> cp_core (st w) = c \<Longrightarrow> runs (andthen (adiv5_dp_write D (AP_DB n) v w) k) Q"
  shows "runs (andthen (firmware_ap_write D ap AP_CSW x w) (\<lambda>u w. andthen (dp_low_access D False AP_TAR CORTEXM_DHCSR w)
    (\<lambda>u w. andthen (firmware_ap_write D ap (AP_DB n) v w) k))) Q"
proof -
  have bank: "ucast (AP_DB n AND 0xF0) = (0x10 :: u32)"
  proof -
    have "n = 0 \<or> n = 1 \<or> n = 2 \<or> n = 3" using n by presburger
    then show ?thesis by (elim disjE) (simp_all add: AP_DB_def)
  qed
  show ?thesis unfolding firmware_ap_write_def andthen_assoc
    apply (rule runs_andthen [OF select_runs [OF P i]])
    apply (rule runs_andthen [OF csw_runs [OF P]])
     apply (simp add: AP_CSW_def)
    apply (rule runs_andthen [OF tar_runs [OF P]])
     apply (simp add: AP_CSW_def)
    apply (rule runs_andthen [OF select_runs [OF P, where c = c]])
     apply (simp add: cp_idle_def port_bank_def)
    apply (rule k)
     apply (simp_all add: db_ready_def bank)
    done
qed

lemma regs_read_runs:
  assumes r: "cm_ready E B st s" and C: "core_registers B reg dat norm overlaps"
  shows "runs (cortexm_regs_read E s) (\<lambda>regs s'. regs = map (reg (core_of st s)) (cm_regnums s) \<and>
    (\<exists>c. moved E B st s c s' \<and> reg c = reg (core_of st s)))"
proof -
  let ?D = "ce_dp E" and ?ap = "cm_ap s" and ?c = "core_of st s"
  have P: "core_port_ok B (ap_apsel ?ap) ?D st" and i: "cp_idle ?c (st (cm_world s))" using r by (simp_all add: cm_ready_def cp_idle_def)
  have fin: "moved E B st s (cp_core (st w)) (s\<lparr>cm_world := w\<rparr>)" if "db_ready a (st w)" for w a
    using that cm_ready_world [OF r, of w] by (auto simp: moved_def db_ready_def port_bank_def)
  have m: "regnum_cortex_m ! 0 < 0x80" "regnum_cortex_m = regnum_cortex_m ! 0 # tl regnum_cortex_m" by (simp_all add: regnum_cortex_m_def)
  have tl: "\<forall>n \<in> set (tl regnum_cortex_m). n < 0x80" by (simp add: regnum_cortex_m_def)
  show ?thesis unfolding cortexm_regs_read_def Let_def
  proof (rule on_cm_runs, rule db_setup_runs [OF P i])
    fix w assume w: "db_ready (ap_apsel ?ap) (st w)" "cp_core (st w) = ?c"
    show "runs (andthen (adiv5_dp_write ?D (AP_DB 1) (regnum_cortex_m ! 0) w) (\<lambda>x w.
        andthen (dp_read ?D (AP_DB 2) w) (\<lambda>v w. andthen (regs_read_loop ?D (tl regnum_cortex_m) [v] w) (\<lambda>regs w.
          if has_fp s then regs_read_loop ?D regnum_cortex_mf regs w else return regs w))))
      (\<lambda>x w. x = map (reg ?c) (cm_regnums s) \<and> (\<exists>c. moved E B st s c (s\<lparr>cm_world := w\<rparr>) \<and> reg c = reg ?c))"
      unfolding adiv5_dp_write_def andthen_assoc andthen_simps
    proof (rule runs_andthen [OF db_step(1) [OF P w(1)]], elim conjE, rule runs_andthen [OF db_step(3) [OF P]], assumption, elim conjE)
      fix x w1 v w2
      assume w1: "cp_core (st w1) = cb_write B CORTEXM_DCRSR (regnum_cortex_m ! 0) (cp_core (st w))"
        and v: "v = fst (cb_read B CORTEXM_DCRDR (cp_core (st w1)))" and w2: "db_ready (ap_apsel ?ap) (st w2)"
        "cp_core (st w2) = snd (cb_read B CORTEXM_DCRDR (cp_core (st w1)))"
      have v: "v = reg ?c (regnum_cortex_m ! 0)" "reg (cp_core (st w2)) = reg ?c" using w(2) w1 v w2 by (simp_all add: core_registersD [OF C] m(1))
      show "runs (andthen (regs_read_loop ?D (tl regnum_cortex_m) [v] w2) (\<lambda>regs w.
          if has_fp s then regs_read_loop ?D regnum_cortex_mf regs w else return regs w))
        (\<lambda>x w. x = map (reg ?c) (cm_regnums s) \<and> (\<exists>c. moved E B st s c (s\<lparr>cm_world := w\<rparr>) \<and> reg c = reg ?c))"
      proof (rule runs_andthen [OF regs_read_loop_runs [OF P C w2(1) tl]], elim conjE)
        fix regs w3 assume w3: "regs = [v] @ map (reg (cp_core (st w2))) (tl regnum_cortex_m)" "db_ready (ap_apsel ?ap) (st w3)"
          "reg (cp_core (st w3)) = reg (cp_core (st w2))"
        from w3(1) v m(2) have regs: "regs = map (reg ?c) regnum_cortex_m" by (metis append_Cons append_Nil list.map(2))
        show "runs (if has_fp s then regs_read_loop ?D regnum_cortex_mf regs w3 else return regs w3)
          (\<lambda>x w. x = map (reg ?c) (cm_regnums s) \<and> (\<exists>c. moved E B st s c (s\<lparr>cm_world := w\<rparr>) \<and> reg c = reg ?c))"
        proof (cases "has_fp s")
          case True
          then show ?thesis using w3 v
            by (simp, intro runs_mono [OF regs_read_loop_runs [OF P C w3(2) regnums_small(2)]])
               (auto simp: regs cm_regnums_def intro: fin)
        next
          case False
          then show ?thesis using w3 v by (auto simp: regs cm_regnums_def intro!: runs_return intro: fin)
        qed
      qed
    qed
  qed simp
qed

lemma regs_write_runs:
  assumes r: "cm_ready E B st s" and C: "core_registers B reg dat norm overlaps" and len: "length regs = cm_regs_count s"
  shows "runs (cortexm_regs_write E regs s) (\<lambda>x s'. \<exists>c. moved E B st s c s' \<and> regs_written reg norm overlaps (cm_regnums s) regs (core_of st s) c)"
proof -
  let ?D = "ce_dp E" and ?ap = "cm_ap s" and ?c = "core_of st s" and ?hd = "regnum_cortex_m ! 0" and ?tl = "tl regnum_cortex_m"
  have P: "core_port_ok B (ap_apsel ?ap) ?D st" and i: "cp_idle ?c (st (cm_world s))" using r by (simp_all add: cm_ready_def cp_idle_def)
  have fin: "moved E B st s (cp_core (st w)) (s\<lparr>cm_world := w\<rparr>)" if "db_ready a (st w)" for w a
    using that cm_ready_world [OF r, of w] by (auto simp: moved_def db_ready_def port_bank_def)
  have m: "?hd < 0x80" "regnum_cortex_m = ?hd # ?tl" "length ?tl = 19" "\<forall>n \<in> set ?tl. n < 0x80" by (simp_all add: regnum_cortex_m_def)
  from len obtain v vs where regs: "regs = v # vs" by (cases regs) (auto simp: cm_regs_count_def cm_regnums_def regnum_cortex_m_def)
  let ?fp = "if has_fp s then regnum_cortex_mf else []"
  have nums: "cm_regnums s = (?hd # ?tl) @ ?fp" unfolding cm_regnums_def using m(2) by metis
  have lv: "length vs = 19 + length ?fp" using len unfolding cm_regs_count_def nums regs by (simp add: length_regnums)
  show ?thesis unfolding cortexm_regs_write_def Let_def regs list.case
  proof (rule on_cm_runs, rule db_setup_runs [OF P i])
    fix w assume w: "db_ready (ap_apsel ?ap) (st w)" "cp_core (st w) = ?c"
    show "runs (andthen (adiv5_dp_write ?D (AP_DB 2) v w) (\<lambda>x w. andthen (dp_low_access ?D False (AP_DB 1) (0x10000 OR ?hd) w) (\<lambda>x w.
        andthen (regs_write_loop ?D ?tl vs w) (\<lambda>regs w.
        andthen (if has_fp s then regs_write_loop ?D regnum_cortex_mf regs w else return regs w) (\<lambda>x. return ())))))
      (\<lambda>x w. \<exists>c. moved E B st s c (s\<lparr>cm_world := w\<rparr>) \<and> regs_written reg norm overlaps (cm_regnums s) (v # vs) ?c c)"
      unfolding adiv5_dp_write_def andthen_assoc andthen_simps
    proof (rule runs_andthen [OF db_step(2) [OF P w(1)]], elim conjE, rule runs_andthen [OF db_step(1) [OF P]], assumption, elim conjE)
      fix x w1 y w2
      assume w1: "cp_core (st w1) = cb_write B CORTEXM_DCRDR v (cp_core (st w))" and w2: "db_ready (ap_apsel ?ap) (st w2)"
        "cp_core (st w2) = cb_write B CORTEXM_DCRSR (0x10000 OR ?hd) (cp_core (st w1))"
      have first: "reg (cp_core (st w2)) ?hd = norm ?hd v" "\<not> overlaps ?hd n \<Longrightarrow> reg (cp_core (st w2)) n = reg ?c n" for n
        using w(2) w1 w2(2) by (simp_all add: core_registersD [OF C] m(1))
      have len: "length ?tl \<le> length vs" using lv m(3) by simp
      show "runs (andthen (regs_write_loop ?D ?tl vs w2) (\<lambda>regs w.
          andthen (if has_fp s then regs_write_loop ?D regnum_cortex_mf regs w else return regs w) (\<lambda>x. return ())))
        (\<lambda>x w. \<exists>c. moved E B st s c (s\<lparr>cm_world := w\<rparr>) \<and> regs_written reg norm overlaps (cm_regnums s) (v # vs) ?c c)"
      proof (rule runs_andthen [OF regs_write_loop_runs [OF P C w2(1) m(4) len]], elim conjE)
        fix us w3 assume w3: "us = drop (length ?tl) vs" "db_ready (ap_apsel ?ap) (st w3)"
          "regs_written reg norm overlaps ?tl (take (length ?tl) vs) (cp_core (st w2)) (cp_core (st w3))"
        have w3': "regs_written reg norm overlaps (?hd # ?tl) (v # take 19 vs) ?c (cp_core (st w3))"
          using regs_written_Cons [OF first w3(3)] by (simp add: length_regnums)
        have vs: "v # vs = (v # take 19 vs) @ us" using w3(1) by (simp add: length_regnums)
        have lt: "length (v # take 19 vs) = length (?hd # ?tl)" using lv by (simp add: length_regnums)
        have "runs (if has_fp s then regs_write_loop ?D regnum_cortex_mf us w3 else return us w3)
          (\<lambda>x w. db_ready (ap_apsel ?ap) (st w) \<and> regs_written reg norm overlaps ?fp us (cp_core (st w3)) (cp_core (st w)))"
        proof (cases "has_fp s")
          case True
          then have "length us = length regnum_cortex_mf" using lv w3(1) by (simp add: length_regnums)
          then show ?thesis using True
            by (simp, intro runs_mono [OF regs_write_loop_runs [OF P C w3(2) regnums_small(2)]]) auto
        next
          case False
          then show ?thesis using w3(2) by (simp add: runs_return regs_written_def)
        qed
        then show "runs (andthen (if has_fp s then regs_write_loop ?D regnum_cortex_mf us w3 else return us w3) (\<lambda>x. return ()))
          (\<lambda>x w. \<exists>c. moved E B st s c (s\<lparr>cm_world := w\<rparr>) \<and> regs_written reg norm overlaps (cm_regnums s) (v # vs) ?c c)"
        proof (rule runs_andthen, elim conjE, intro runs_return exI conjI)
          fix w4 assume w4: "db_ready (ap_apsel ?ap) (st w4)" "regs_written reg norm overlaps ?fp us (cp_core (st w3)) (cp_core (st w4))"
          show "moved E B st s (cp_core (st w4)) (s\<lparr>cm_world := w4\<rparr>)" by (rule fin [OF w4(1)])
          show "regs_written reg norm overlaps (cm_regnums s) (v # vs) ?c (cp_core (st w4))"
            unfolding nums vs by (rule regs_written_append [OF w3' w4(2) lt])
        qed
      qed
    qed
  qed simp
qed

end
