(* ===== verification/Cortexm_Units.thy ===== *)
theory Cortexm_Units
  imports Cortexm_Core
begin

text \<open>
  The register file of a core over its debug port, and the comparators of the break- and watchpoint
  units: what the flags of the driver, the list of installed break- and watchpoints and the registers of
  the units have to do with each other.
\<close>

unbundle bit_operations_syntax

subsection \<open>The register file\<close>


lemma regnums_nth: "reg < cm_regs_count s \<Longrightarrow> dcrsr_regnum (cm_options s) reg = Some (uint (cm_regnums s ! reg)) \<and> cm_regnums s ! reg < 0x80"
proof -
  assume r: "reg < cm_regs_count s"
  then have "cm_regnums s ! reg \<in> set (cm_regnums s)" by (simp add: cm_regs_count_def)
  then have "cm_regnums s ! reg < 0x80" using regnums_small by (auto simp: cm_regnums_def split: if_splits)
  moreover have "dcrsr_regnum (cm_options s) reg = Some (uint (cm_regnums s ! reg))"
    using r length_regnums by (auto simp: dcrsr_regnum_def cm_regs_count_def cm_regnums_def has_fp_def nth_append split: if_splits)
  ultimately show ?thesis by simp
qed

lemma dcr_addresses [simp]:
  "0xE0000000 \<le> CORTEXM_DCRSR" "aligned CORTEXM_DCRSR 2" "0xE0000000 \<le> CORTEXM_DCRDR" "aligned CORTEXM_DCRDR 2"
  "0xE0000000 \<le> CORTEXM_DHCSR" "aligned CORTEXM_DHCSR 2" "0xE0000000 \<le> CORTEXM_DFSR" "aligned CORTEXM_DFSR 2"
  "0xE0000000 \<le> CORTEXM_DEMCR" "aligned CORTEXM_DEMCR 2" "0xE0000000 \<le> CORTEXM_FPB_CTRL" "aligned CORTEXM_FPB_CTRL 2"
  "0xE0000000 \<le> CORTEXM_DWT_CTRL" "aligned CORTEXM_DWT_CTRL 2" "0xE0000000 \<le> CORTEXM_HFSR" "aligned CORTEXM_HFSR 2"
  "0xE0000000 \<le> CORTEXM_CFSR" "aligned CORTEXM_CFSR 2" "0xE0000000 \<le> CORTEXM_AIRCR" "aligned CORTEXM_AIRCR 2"
  "0xE0000000 \<le> CORTEXM_ICIALLU" "aligned CORTEXM_ICIALLU 2"
  by (simp_all add: aligned_def CORTEXM_DCRSR_def CORTEXM_DCRDR_def CORTEXM_DHCSR_def CORTEXM_DFSR_def CORTEXM_DEMCR_def
    CORTEXM_FPB_CTRL_def CORTEXM_DWT_CTRL_def CORTEXM_HFSR_def CORTEXM_CFSR_def CORTEXM_AIRCR_def CORTEXM_ICIALLU_def)

text \<open>One register: written, it is normalised and only what overlaps it changes; read, it is delivered.\<close>

lemma select_word: "n < 0x80 \<Longrightarrow> word_of_int (uint (n :: u32)) = n"
  by simp

lemma reg_write_runs:
  assumes r: "cm_ready E B st s" and C: "core_registers B reg dat norm overlaps" and n: "n < cm_regs_count s"
  shows "runs (cortexm_reg_write E n (le_bytes 4 (unat v)) s) (\<lambda>x s'. x = 4 \<and>
    (\<exists>c. moved E B st s c s' \<and> reg c (cm_regnums s ! n) = norm (cm_regnums s ! n) v \<and>
      (\<forall>m. \<not> overlaps (cm_regnums s ! n) m \<longrightarrow> reg c m = reg (core_of st s) m)))"
proof -
  let ?n = "cm_regnums s ! n"
  from regnums_nth [OF n] have d: "dcrsr_regnum (cm_options s) n = Some (uint ?n)" "?n < 0x80" by simp_all
  have l: "\<not> length (le_bytes 4 (unat v)) < 4" "word_of_nat (le_word (take 4 (le_bytes 4 (unat v)))) = v"
    using le_word_le_bytes_u32 [of v] by (simp_all del: le_bytes_numeral)
  show ?thesis unfolding cortexm_reg_write_def if_not_P [OF l(1)] l(2)
  proof (rule runs_andthen [OF cm_write32_runs [OF r]], simp, simp)
    fix x s1 assume m: "moved E B st s (cb_write B CORTEXM_DCRDR v (core_of st s)) s1"
    show "runs (case dcrsr_regnum (cm_options s1) n of None \<Rightarrow> None
        | Some n \<Rightarrow> andthen (cm_write32 E CORTEXM_DCRSR (0x10000 OR word_of_int n) s1) (\<lambda>x. return (4 :: int)))
      (\<lambda>x s'. x = 4 \<and> (\<exists>c. moved E B st s c s' \<and> reg c ?n = norm ?n v \<and> (\<forall>m. \<not> overlaps ?n m \<longrightarrow> reg c m = reg (core_of st s) m)))"
      unfolding movedD(5) [OF m] d(1) option.case
    proof (rule runs_andthen [OF cm_write32_runs [OF movedD(1) [OF m]]], simp, simp, rule runs_return)
      fix x s2 assume "moved E B st s1 (cb_write B CORTEXM_DCRSR (0x10000 OR word_of_int (uint ?n)) (core_of st s1)) s2"
      from movedD(10) [OF m this] show "4 = (4 :: int) \<and> (\<exists>c. moved E B st s c s2 \<and> reg c ?n = norm ?n v \<and>
          (\<forall>m. \<not> overlaps ?n m \<longrightarrow> reg c m = reg (core_of st s) m))"
        using d(2) unfolding movedD(2) [OF m] by (auto simp: core_registersD [OF C])
    qed
  qed
qed

lemma pc_read_runs:
  assumes r: "cm_ready E B st s" and C: "core_registers B reg dat norm overlaps"
  shows "runs (cortexm_pc_read E s) (\<lambda>v s'. v = reg (core_of st s) 15 \<and> (\<exists>c. moved E B st s c s' \<and> reg c = reg (core_of st s)))"
  unfolding cortexm_pc_read_def
proof (rule runs_andthen [OF cm_write32_runs [OF r]], simp, simp)
  fix x s1 assume m: "moved E B st s (cb_write B CORTEXM_DCRSR 0xF (core_of st s)) s1"
  show "runs (cm_read32 E CORTEXM_DCRDR s1) (\<lambda>v s'. v = reg (core_of st s) 15 \<and> (\<exists>c. moved E B st s c s' \<and> reg c = reg (core_of st s)))"
    by (rule runs_mono [OF cm_read32_runs [OF movedD(1) [OF m]]])
      (auto simp: movedD(2) [OF m] core_registersD [OF C] intro!: exI movedD(10) [OF m])
qed

lemma pc_write_runs:
  assumes r: "cm_ready E B st s" and C: "core_registers B reg dat norm overlaps"
  shows "runs (cortexm_pc_write E v s) (\<lambda>x s'. \<exists>c. moved E B st s c s' \<and> reg c 15 = norm 15 v \<and>
    (\<forall>m. \<not> overlaps 15 m \<longrightarrow> reg c m = reg (core_of st s) m))"
  unfolding cortexm_pc_write_def
proof (rule runs_andthen [OF cm_write32_runs [OF r]], simp, simp)
  fix x s1 assume m: "moved E B st s (cb_write B CORTEXM_DCRDR v (core_of st s)) s1"
  show "runs (cm_write32 E CORTEXM_DCRSR (0x10000 OR 0x0F) s1) (\<lambda>x s'. \<exists>c. moved E B st s c s' \<and> reg c 15 = norm 15 v \<and>
    (\<forall>m. \<not> overlaps 15 m \<longrightarrow> reg c m = reg (core_of st s) m))"
  proof (rule runs_mono [OF cm_write32_runs [OF movedD(1) [OF m]]], simp, simp)
    fix x s2 assume "moved E B st s1 (cb_write B CORTEXM_DCRSR (0x10000 OR 0x0F) (core_of st s1)) s2"
    from movedD(10) [OF m this] show "\<exists>c. moved E B st s c s2 \<and> reg c 15 = norm 15 v \<and> (\<forall>m. \<not> overlaps 15 m \<longrightarrow> reg c m = reg (core_of st s) m)"
      unfolding movedD(2) [OF m] using core_registersD(7,8) [OF C, of 15] by (intro exI conjI) (assumption, simp_all add: core_registersD [OF C])
  qed
qed

subsection \<open>Comparators\<close>

text \<open>\<open>cell c a\<close> is the contents of the unit register \<open>a\<close>; a write stores what the register keeps of the
  value, and nothing else changes it.\<close>

definition unit_regs :: "u32 set" where
  "unit_regs = CORTEXM_FPB_COMP ` {..<8} \<union> CORTEXM_DWT_COMP ` {..<4} \<union> CORTEXM_DWT_MASK ` {..<4} \<union> CORTEXM_DWT_FUNC ` {..<4}"

definition core_units :: "'c core_bus \<Rightarrow> ('c \<Rightarrow> u32 \<Rightarrow> u32) \<Rightarrow> (u32 \<Rightarrow> u32 \<Rightarrow> u32) \<Rightarrow> bool" where
  "core_units B cell keep \<longleftrightarrow>
     (\<forall>a c. \<forall>b \<in> unit_regs. cell (snd (cb_read B a c)) b = cell c b) \<and>
     (\<forall>a v c. \<forall>b \<in> unit_regs. cell (cb_write B a v c) b = (if a = b then keep b v else cell c b))"

lemma less_8: "(i :: nat) < 8 \<longleftrightarrow> i = 0 \<or> i = 1 \<or> i = 2 \<or> i = 3 \<or> i = 4 \<or> i = 5 \<or> i = 6 \<or> i = 7"
  by presburger

lemma less_4: "(i :: nat) < 4 \<longleftrightarrow> i = 0 \<or> i = 1 \<or> i = 2 \<or> i = 3"
  by presburger

lemma unat_FPB: "i < 8 \<Longrightarrow> unat (CORTEXM_FPB_COMP i) = 0xE0002008 + 4 * i"
  unfolding less_8 CORTEXM_FPB_COMP_def by (elim disjE) simp_all

lemma unat_DWT:
  assumes "i < 4"
  shows "unat (CORTEXM_DWT_COMP i) = 0xE0001020 + 16 * i" "unat (CORTEXM_DWT_MASK i) = 0xE0001024 + 16 * i"
    "unat (CORTEXM_DWT_FUNC i) = 0xE0001028 + 16 * i"
  using assms unfolding less_4 CORTEXM_DWT_COMP_def CORTEXM_DWT_MASK_def CORTEXM_DWT_FUNC_def by (elim disjE; simp)+

lemma FPB_eq: "i < 8 \<Longrightarrow> j < 8 \<Longrightarrow> CORTEXM_FPB_COMP i = CORTEXM_FPB_COMP j \<longleftrightarrow> i = j"
  by (auto simp: word_unat_eq_iff unat_FPB)

lemma FPB_DWT:
  assumes "i < 8" "j < 4"
  shows "CORTEXM_FPB_COMP i \<notin> {CORTEXM_DWT_COMP j, CORTEXM_DWT_MASK j, CORTEXM_DWT_FUNC j}"
    "CORTEXM_DWT_COMP j \<noteq> CORTEXM_FPB_COMP i" "CORTEXM_DWT_MASK j \<noteq> CORTEXM_FPB_COMP i" "CORTEXM_DWT_FUNC j \<noteq> CORTEXM_FPB_COMP i"
  using assms by (auto simp: word_unat_eq_iff unat_FPB unat_DWT)

lemma DWT_eq:
  assumes "i < 4" "j < 4"
  shows "CORTEXM_DWT_COMP i = CORTEXM_DWT_COMP j \<longleftrightarrow> i = j" "CORTEXM_DWT_MASK i = CORTEXM_DWT_MASK j \<longleftrightarrow> i = j"
    "CORTEXM_DWT_FUNC i = CORTEXM_DWT_FUNC j \<longleftrightarrow> i = j" "CORTEXM_DWT_COMP i \<noteq> CORTEXM_DWT_MASK j" "CORTEXM_DWT_COMP i \<noteq> CORTEXM_DWT_FUNC j"
    "CORTEXM_DWT_MASK i \<noteq> CORTEXM_DWT_FUNC j" "CORTEXM_DWT_MASK i \<noteq> CORTEXM_DWT_COMP j" "CORTEXM_DWT_FUNC i \<noteq> CORTEXM_DWT_COMP j"
    "CORTEXM_DWT_FUNC i \<noteq> CORTEXM_DWT_MASK j"
  using assms by (simp_all add: word_unat_eq_iff unat_DWT) presburger+

lemma unit_aligned:
  assumes "a \<in> unit_regs"
  shows "0xE0000000 \<le> a" "aligned a 2"
proof -
  have "0xE0000000 \<le> unat a \<and> unat a mod 4 = 0"
    using assms unfolding unit_regs_def by (auto simp: unat_FPB unat_DWT)
  then show "0xE0000000 \<le> a" by (simp add: word_le_nat_alt)
  from \<open>_ \<and> _\<close> have "unat (take_bit 2 a) = 0" by (simp only: unat_take_bit) simp
  then show "aligned a 2" by (simp only: aligned_def unat_eq_zero)
qed

lemma unit_regsI [intro]:
  "i < 8 \<Longrightarrow> CORTEXM_FPB_COMP i \<in> unit_regs" "i < 4 \<Longrightarrow> CORTEXM_DWT_COMP i \<in> unit_regs"
  "i < 4 \<Longrightarrow> CORTEXM_DWT_MASK i \<in> unit_regs" "i < 4 \<Longrightarrow> CORTEXM_DWT_FUNC i \<in> unit_regs"
  by (auto simp: unit_regs_def)

lemma unit_write_runs:
  assumes "cm_ready E B st s" and "core_units B cell keep" and "a \<in> unit_regs"
  shows "runs (cm_write32 E a v s) (\<lambda>x s'. moved E B st s (core_of st s') s' \<and>
    (\<forall>b \<in> unit_regs. cell (core_of st s') b = (if a = b then keep b v else cell (core_of st s) b)))"
  by (rule runs_mono [OF cm_write32_runs [OF assms(1) unit_aligned [OF assms(3)]]])
    (use assms(2) in \<open>auto simp: movedD(2) core_units_def\<close>)

text \<open>One unit: the flags of its \<open>n\<close> comparators, the installed entries \<open>M\<close>, and the registers, of which
  \<open>off i\<close> and \<open>on bw\<close> tell that comparator \<open>i\<close> is disabled and that the one of \<open>bw\<close> is set for it.\<close>

definition bw_index :: "breakwatch \<Rightarrow> nat" where "bw_index bw = unat (bw_reserved bw ! 0)"

definition unit_ok :: "nat \<Rightarrow> bool list \<Rightarrow> breakwatch list \<Rightarrow> (nat \<Rightarrow> bool) \<Rightarrow> (breakwatch \<Rightarrow> bool) \<Rightarrow> bool" where
  "unit_ok n used M off on \<longleftrightarrow> n \<le> length used \<and> (\<forall>bw \<in> set M. bw_index bw < n \<and> on bw) \<and> distinct (map bw_index M) \<and>
     (\<forall>i < n. used ! i \<longleftrightarrow> i \<in> bw_index ` set M) \<and> (\<forall>i < n. i \<notin> bw_index ` set M \<longrightarrow> off i)"

lemma unit_ok_add:
  assumes "unit_ok n used M off on" and "bw_index bw < n" and "\<not> used ! bw_index bw" and "on' bw"
    and "\<And>b. b \<in> set M \<Longrightarrow> bw_index b < n \<Longrightarrow> bw_index b \<noteq> bw_index bw \<Longrightarrow> on b \<Longrightarrow> on' b"
    and "\<And>i. i < n \<Longrightarrow> i \<noteq> bw_index bw \<Longrightarrow> off i \<Longrightarrow> off' i"
  shows "unit_ok n (used[bw_index bw := True]) (bw # M) off' on'"
proof -
  have new: "bw_index bw \<notin> bw_index ` set M" using assms(1-3) by (auto simp: unit_ok_def)
  then have "\<forall>b \<in> set M. bw_index b \<noteq> bw_index bw" by (auto simp: image_iff)
  with new show ?thesis using assms by (auto simp: unit_ok_def nth_list_update)
qed

lemma image_remove1: "distinct (map f xs) \<Longrightarrow> x \<in> set xs \<Longrightarrow> f ` set (remove1 x xs) = f ` set xs - {f x}"
  by (induction xs) auto

lemma distinct_map_remove1: "distinct (map f xs) \<Longrightarrow> distinct (map f (remove1 x xs))"
  by (auto simp: distinct_map intro: inj_on_diff)

lemma unit_ok_remove:
  assumes "unit_ok n used M off on" and "bw \<in> set M" and "off' (bw_index bw)"
    and "\<And>b. b \<in> set M \<Longrightarrow> bw_index b < n \<Longrightarrow> bw_index b \<noteq> bw_index bw \<Longrightarrow> on b \<Longrightarrow> on' b"
    and "\<And>i. i < n \<Longrightarrow> i \<noteq> bw_index bw \<Longrightarrow> off i \<Longrightarrow> off' i"
  shows "unit_ok n (used[bw_index bw := False]) (remove1 bw M) off' on'"
proof -
  have d: "distinct (map bw_index M)" using assms(1) by (simp add: unit_ok_def)
  note i = image_remove1 [OF d assms(2)]
  have b: "bw_index b \<noteq> bw_index bw \<and> b \<in> set M" if "b \<in> set (remove1 bw M)" for b
    using i that by (metis DiffE imageI insertI1 notin_set_remove1)
  have u: "n \<le> length used" "\<And>b. b \<in> set M \<Longrightarrow> bw_index b < n \<and> on b" "\<And>i. i < n \<Longrightarrow> used ! i \<longleftrightarrow> i \<in> bw_index ` set M"
    "\<And>i. i < n \<Longrightarrow> i \<notin> bw_index ` set M \<Longrightarrow> off i" using assms(1) by (simp_all add: unit_ok_def)
  show ?thesis unfolding unit_ok_def i
  proof (intro conjI allI ballI impI)
    show "n \<le> length (used[bw_index bw := False])" using u(1) by simp
    show "distinct (map bw_index (remove1 bw M))" by (rule distinct_map_remove1 [OF d])
    fix b assume "b \<in> set (remove1 bw M)"
    from b [OF this] u(2) assms(4) show "bw_index b < n" "on' b" by blast+
  next
    fix i assume "i < n"
    then show "used[bw_index bw := False] ! i \<longleftrightarrow> i \<in> bw_index ` set M - {bw_index bw}" using u(1) u(3) by (cases "i = bw_index bw") auto
    assume "i \<notin> bw_index ` set M - {bw_index bw}"
    then show "off' i" using \<open>i < n\<close> u(4) assms(3,5) by (cases "i = bw_index bw") auto
  qed
qed

lemma unit_ok_weaken:
  assumes "unit_ok n used M off on" and "\<And>b. b \<in> set M \<Longrightarrow> bw_index b < n \<Longrightarrow> on b \<Longrightarrow> on' b" and "\<And>i. i < n \<Longrightarrow> off i \<Longrightarrow> off' i"
  shows "unit_ok n used M off' on'"
  using assms by (auto simp: unit_ok_def)

lemma first_free_cases: "first_free n i used = Some k \<Longrightarrow>
    (k = i + n \<and> (\<forall>j. i \<le> j \<and> j < i + n \<longrightarrow> used ! j)) \<or> (i \<le> k \<and> k < i + n \<and> k < length used \<and> \<not> used ! k)"
proof (induction n arbitrary: i)
  case 0
  then show ?case by auto
next
  case (Suc n)
  show ?case
  proof (cases "used ! i")
    case True
    with Suc.prems have "first_free n (i + 1) used = Some k" by (simp split: if_splits)
    from Suc.IH [OF this] show ?thesis
    proof (elim disjE conjE)
      assume k: "k = i + 1 + n" and u: "\<forall>j. i + 1 \<le> j \<and> j < i + 1 + n \<longrightarrow> used ! j"
      have "used ! j" if "i \<le> j" "j < i + Suc n" for j using u True that by (cases "j = i") auto
      with k show ?thesis by auto
    qed auto
  next
    case False
    with Suc.prems show ?thesis by (auto split: if_splits)
  qed
qed

lemma first_free_total: "i + n \<le> length used \<Longrightarrow> \<exists>k. first_free n i used = Some k"
  by (induction n arbitrary: i) auto

subsection \<open>Installed break- and watchpoints\<close>

abbreviation hards :: "breakwatch list \<Rightarrow> breakwatch list" where
  "hards L \<equiv> filter (\<lambda>bw. bw_type bw = TARGET_BREAK_HARD) L"

abbreviation watches :: "breakwatch list \<Rightarrow> breakwatch list" where
  "watches L \<equiv> filter (\<lambda>bw. is_watch (bw_type bw)) L"

definition bp_off :: "(u32 \<Rightarrow> u32 \<Rightarrow> u32) \<Rightarrow> (u32 \<Rightarrow> u32) \<Rightarrow> nat \<Rightarrow> bool" where
  "bp_off keep m i \<longleftrightarrow> m (CORTEXM_FPB_COMP i) = keep (CORTEXM_FPB_COMP i) 0"

definition bp_on :: "(u32 \<Rightarrow> u32 \<Rightarrow> u32) \<Rightarrow> u32 \<Rightarrow> (u32 \<Rightarrow> u32) \<Rightarrow> breakwatch \<Rightarrow> bool" where
  "bp_on keep revision m bw \<longleftrightarrow>
     m (CORTEXM_FPB_COMP (bw_index bw)) = keep (CORTEXM_FPB_COMP (bw_index bw)) (fpb_value revision (bw_addr bw))"

definition wp_off :: "(u32 \<Rightarrow> u32 \<Rightarrow> u32) \<Rightarrow> (u32 \<Rightarrow> u32) \<Rightarrow> nat \<Rightarrow> bool" where
  "wp_off keep m i \<longleftrightarrow> m (CORTEXM_DWT_FUNC i) = keep (CORTEXM_DWT_FUNC i) 0"

definition wp_on :: "(u32 \<Rightarrow> u32 \<Rightarrow> u32) \<Rightarrow> u32 \<Rightarrow> (u32 \<Rightarrow> u32) \<Rightarrow> breakwatch \<Rightarrow> bool" where
  "wp_on keep options m bw \<longleftrightarrow>
     m (CORTEXM_DWT_COMP (bw_index bw)) = keep (CORTEXM_DWT_COMP (bw_index bw)) (bw_addr bw) \<and>
     m (CORTEXM_DWT_MASK (bw_index bw)) = keep (CORTEXM_DWT_MASK (bw_index bw)) (dwt_mask (bw_size bw)) \<and>
     m (CORTEXM_DWT_FUNC (bw_index bw)) = keep (CORTEXM_DWT_FUNC (bw_index bw)) (dwt_func options (bw_type bw))"

text \<open>The invariant: the flags are those of the comparators of the installed entries, each of which has a
  comparator of its own, set for it; all other comparators are disabled.\<close>

definition units_ok :: "'w cm_env \<Rightarrow> 'c core_bus \<Rightarrow> ('w \<Rightarrow> 'c core_port) \<Rightarrow> ('c \<Rightarrow> u32 \<Rightarrow> u32) \<Rightarrow> (u32 \<Rightarrow> u32 \<Rightarrow> u32) \<Rightarrow> 'w cortexm \<times> breakwatch list \<Rightarrow> bool" where
  "units_ok E B st cell keep sL \<longleftrightarrow> (case sL of (s, L) \<Rightarrow>
     let p = cm_priv s; m = cell (core_of st s)
     in cm_ready E B st s \<and> hw_breakpoint_max p \<le> 8 \<and> hw_watchpoint_max p \<le> 4 \<and>
        (\<forall>bw \<in> set L. bw_type bw = TARGET_BREAK_HARD \<or> is_watch (bw_type bw)) \<and>
        unit_ok (hw_breakpoint_max p) (hw_breakpoint p) (hards L) (bp_off keep m) (bp_on keep (flash_patch_revision p) m) \<and>
        unit_ok (hw_watchpoint_max p) (hw_watchpoint p) (watches L) (wp_off keep m) (wp_on keep (cm_options s) m))"

text \<open>The calls of the driver, as \<open>target_breakwatch_set\<close> and \<open>target_breakwatch_clear\<close> make them: a new
  entry is put on the list if the driver returns 0, and an entry of the list is removed.\<close>

inductive bw_step :: "'w cm_env \<Rightarrow> 'w cortexm \<times> breakwatch list \<Rightarrow> 'w cortexm \<times> breakwatch list \<Rightarrow> bool" for E where
  set: "length (bw_reserved bw) = 4 \<Longrightarrow> cortexm_breakwatch_set E bw s = Some (Inr (r, bw'), s') \<Longrightarrow>
    bw_step E (s, L) (s', if r = 0 then bw' # L else L)"
| clear: "bw \<in> set L \<Longrightarrow> cortexm_breakwatch_clear E bw s = Some (Inr r, s') \<Longrightarrow>
    bw_step E (s, L) (s', if r = 0 then remove1 bw L else L)"

lemma cm_ready_priv:
  "cm_ready E B st s \<Longrightarrow> has_cache (f (cm_priv s)) = has_cache (cm_priv s) \<Longrightarrow> dcache_minline (f (cm_priv s)) = dcache_minline (cm_priv s) \<Longrightarrow>
    cm_ready E B st (set_priv f s)"
  by (simp add: cm_ready_def ram_below_ppb_def set_priv_def)

lemma set_priv_simps [simp]:
  "cm_priv (set_priv f s) = f (cm_priv s)" "cm_world (set_priv f s) = cm_world s" "cm_options (set_priv f s) = cm_options s"
  "cm_ap (set_priv f s) = cm_ap s" "cm_ram (set_priv f s) = cm_ram s"
  by (simp_all add: set_priv_def)

lemma flag_runs:
  "i < length (hw_breakpoint (cm_priv s)) \<Longrightarrow>
    set_breakpoint_flag i b s = return () (set_priv (\<lambda>p. p\<lparr>hw_breakpoint := (hw_breakpoint (cm_priv s))[i := b]\<rparr>) s)"
  "i < length (hw_watchpoint (cm_priv s)) \<Longrightarrow>
    set_watchpoint_flag i b s = return () (set_priv (\<lambda>p. p\<lparr>hw_watchpoint := (hw_watchpoint (cm_priv s))[i := b]\<rparr>) s)"
  by (simp_all add: set_breakpoint_flag_def set_watchpoint_flag_def set_flag_def)

lemma units_okD:
  assumes "units_ok E B st cell keep (s, L)"
  defines "p \<equiv> cm_priv s" and "m \<equiv> cell (core_of st s)"
  shows "cm_ready E B st s" "hw_breakpoint_max p \<le> 8" "hw_watchpoint_max p \<le> 4"
    "\<forall>bw \<in> set L. bw_type bw = TARGET_BREAK_HARD \<or> is_watch (bw_type bw)"
    "unit_ok (hw_breakpoint_max p) (hw_breakpoint p) (hards L) (bp_off keep m) (bp_on keep (flash_patch_revision p) m)"
    "unit_ok (hw_watchpoint_max p) (hw_watchpoint p) (watches L) (wp_off keep m) (wp_on keep (cm_options s) m)"
  using assms by (simp_all add: units_ok_def Let_def)

lemma units_ok_bp:
  assumes ok: "units_ok E B st cell keep (s, L)" and r: "cm_ready E B st s'" and L: "\<forall>bw \<in> set L'. bw_type bw = TARGET_BREAK_HARD \<or> is_watch (bw_type bw)"
    and p: "cm_priv s' = cm_priv s\<lparr>hw_breakpoint := used\<rparr>" "cm_options s' = cm_options s" "watches L' = watches L"
    and u: "unit_ok (hw_breakpoint_max (cm_priv s)) used (hards L') (bp_off keep (cell (core_of st s')))
      (bp_on keep (flash_patch_revision (cm_priv s)) (cell (core_of st s')))"
    and same: "\<And>i a. i < 4 \<Longrightarrow> a \<in> {CORTEXM_DWT_COMP i, CORTEXM_DWT_MASK i, CORTEXM_DWT_FUNC i} \<Longrightarrow> cell (core_of st s') a = cell (core_of st s) a"
  shows "units_ok E B st cell keep (s', L')"
proof -
  note d = units_okD [OF ok]
  have same': "cell (core_of st s') (CORTEXM_DWT_COMP i) = cell (core_of st s) (CORTEXM_DWT_COMP i)"
    "cell (core_of st s') (CORTEXM_DWT_MASK i) = cell (core_of st s) (CORTEXM_DWT_MASK i)"
    "cell (core_of st s') (CORTEXM_DWT_FUNC i) = cell (core_of st s) (CORTEXM_DWT_FUNC i)"
    if "i < hw_watchpoint_max (cm_priv s)" for i using same [of i] d(3) that by simp_all
  have w: "unit_ok (hw_watchpoint_max (cm_priv s)) (hw_watchpoint (cm_priv s)) (watches L')
      (wp_off keep (cell (core_of st s'))) (wp_on keep (cm_options s) (cell (core_of st s')))"
    unfolding p(3) by (rule unit_ok_weaken [OF d(6)]) (simp_all add: wp_on_def wp_off_def same')
  show ?thesis using d(2,3) r u w L by (simp add: units_ok_def Let_def p)
qed

lemma units_ok_wp:
  assumes ok: "units_ok E B st cell keep (s, L)" and r: "cm_ready E B st s'" and L: "\<forall>bw \<in> set L'. bw_type bw = TARGET_BREAK_HARD \<or> is_watch (bw_type bw)"
    and p: "cm_priv s' = cm_priv s\<lparr>hw_watchpoint := used\<rparr>" "cm_options s' = cm_options s" "hards L' = hards L"
    and u: "unit_ok (hw_watchpoint_max (cm_priv s)) used (watches L') (wp_off keep (cell (core_of st s')))
      (wp_on keep (cm_options s) (cell (core_of st s')))"
    and same: "\<And>i. i < 8 \<Longrightarrow> cell (core_of st s') (CORTEXM_FPB_COMP i) = cell (core_of st s) (CORTEXM_FPB_COMP i)"
  shows "units_ok E B st cell keep (s', L')"
proof -
  note d = units_okD [OF ok]
  have w: "unit_ok (hw_breakpoint_max (cm_priv s)) (hw_breakpoint (cm_priv s)) (hards L')
      (bp_off keep (cell (core_of st s'))) (bp_on keep (flash_patch_revision (cm_priv s)) (cell (core_of st s')))"
    unfolding p(3) by (rule unit_ok_weaken [OF d(5)]) (use d(2) same in \<open>auto simp: bp_on_def bp_off_def\<close>)
  show ?thesis using d(2,3) r u w L by (simp add: units_ok_def Let_def p)
qed

lemma bw_index_reserved: "bw_reserved bw \<noteq> [] \<Longrightarrow> i < 8 \<Longrightarrow> bw_index (bw_set_reserved i bw) = i"
  by (simp add: bw_index_def bw_set_reserved_def unat_of_nat)

lemma bw_reserved_simps [simp]:
  "bw_type (bw_set_reserved i bw) = bw_type bw" "bw_addr (bw_set_reserved i bw) = bw_addr bw" "bw_size (bw_set_reserved i bw) = bw_size bw"
  by (simp_all add: bw_set_reserved_def)

lemma not_watch_hard [simp]: "\<not> is_watch TARGET_BREAK_HARD"
  by (simp add: is_watch_def)

lemma watch_not_hard: "is_watch ty \<Longrightarrow> ty \<noteq> TARGET_BREAK_HARD"
  by (auto simp: is_watch_def)

text \<open>The result of a call that keeps the invariant; \<open>-1\<close> is returned only when the unit is full.\<close>

lemma set_break_runs:
  assumes ok: "units_ok E B st cell keep (s, L)" and U: "core_units B cell keep" and bw: "length (bw_reserved bw) = 4"
    and ty: "bw_type bw = TARGET_BREAK_HARD"
  shows "runs (cortexm_breakwatch_set E bw s) (\<lambda>(r, bw') s'. units_ok E B st cell keep (s', if r = 0 then bw' # L else L))"
proof -
  note d = units_okD [OF ok]
  let ?p = "cm_priv s" and ?n = "hw_breakpoint_max (cm_priv s)" and ?used = "hw_breakpoint (cm_priv s)"
  have len: "?n \<le> length ?used" using d(5) by (simp add: unit_ok_def)
  then obtain i where i: "first_free ?n 0 ?used = Some i" using first_free_total [of 0 ?n ?used] by auto
  show ?thesis
  proof (cases "i = ?n")
    case True
    then show ?thesis using ok ty i by (auto simp: cortexm_breakwatch_set_def Let_def intro!: runs_return)
  next
    case False
    with first_free_cases [OF i] have f: "i < ?n" "i < length ?used" "\<not> ?used ! i" by auto
    then have i8: "i < 8" using d(2) by simp
    define s1 where "s1 = set_priv (\<lambda>p. p\<lparr>hw_breakpoint := ?used[i := True]\<rparr>) s"
    have r1: "cm_ready E B st s1" unfolding s1_def by (rule cm_ready_priv [OF d(1)]) simp_all
    let ?v = "fpb_value (flash_patch_revision ?p) (bw_addr bw)" and ?bw = "bw_set_reserved i bw"
    have ix: "bw_index ?bw = i" using bw bw_index_reserved [OF _ i8, of bw] by fastforce
    have "runs (cm_write32 E (CORTEXM_FPB_COMP i) ?v s1) (\<lambda>x s'. units_ok E B st cell keep (s', ?bw # L))"
    proof (rule runs_mono [OF unit_write_runs [OF r1 U]], use i8 in blast, elim conjE)
      fix s' assume m: "moved E B st s1 (core_of st s') s'"
        and c: "\<forall>b \<in> unit_regs. cell (core_of st s') b = (if CORTEXM_FPB_COMP i = b then keep b ?v else cell (core_of st s1) b)"
      have c1: "j < 8 \<Longrightarrow> cell (core_of st s') (CORTEXM_FPB_COMP j) = (if i = j then keep (CORTEXM_FPB_COMP j) ?v else cell (core_of st s) (CORTEXM_FPB_COMP j))" for j
        using c i8 by (auto simp: unit_regsI FPB_eq s1_def)
      show "units_ok E B st cell keep (s', ?bw # L)"
      proof (rule units_ok_bp [OF ok movedD(1) [OF m]])
        show "unit_ok ?n (?used[i := True]) (hards (?bw # L)) (bp_off keep (cell (core_of st s'))) (bp_on keep (flash_patch_revision ?p) (cell (core_of st s')))"
          using unit_ok_add [OF d(5), of ?bw "bp_on keep (flash_patch_revision ?p) (cell (core_of st s'))" "bp_off keep (cell (core_of st s'))"] f ty d(2) i8 c1
          by (simp add: ix bp_on_def bp_off_def)
        show "cell (core_of st s') a = cell (core_of st s) a" if "j < 4" "a \<in> {CORTEXM_DWT_COMP j, CORTEXM_DWT_MASK j, CORTEXM_DWT_FUNC j}" for j a
          using c FPB_DWT [OF i8 that(1)] that unfolding s1_def by (auto simp: unit_regsI)
      qed (use d(4) ty in \<open>simp_all add: movedD [OF m] s1_def\<close>)
    qed
    then show ?thesis
      unfolding cortexm_breakwatch_set_def Let_def i option.case if_P [OF ty] if_not_P [OF False] flag_runs(1) [OF f(2)] andthen_simps s1_def
      by (rule runs_andthen) (auto intro: runs_return)
  qed
qed

lemma clear_break_runs:
  assumes ok: "units_ok E B st cell keep (s, L)" and U: "core_units B cell keep" and bw: "bw \<in> set L"
    and ty: "bw_type bw = TARGET_BREAK_HARD"
  shows "runs (cortexm_breakwatch_clear E bw s) (\<lambda>r s'. r = 0 \<and> units_ok E B st cell keep (s', remove1 bw L))"
proof -
  note d = units_okD [OF ok]
  let ?p = "cm_priv s" and ?n = "hw_breakpoint_max (cm_priv s)" and ?used = "hw_breakpoint (cm_priv s)" and ?i = "bw_index bw"
  have M: "bw \<in> set (hards L)" using bw ty by simp
  have f: "?i < ?n" "?i < length ?used" using d(5) M by (force simp: unit_ok_def)+
  then have i8: "?i < 8" using d(2) by simp
  define s1 where "s1 = set_priv (\<lambda>p. p\<lparr>hw_breakpoint := ?used[?i := False]\<rparr>) s"
  have r1: "cm_ready E B st s1" unfolding s1_def by (rule cm_ready_priv [OF d(1)]) simp_all
  have "runs (cm_write32 E (CORTEXM_FPB_COMP ?i) 0 s1) (\<lambda>x s'. units_ok E B st cell keep (s', remove1 bw L))"
  proof (rule runs_mono [OF unit_write_runs [OF r1 U]], use i8 in blast, elim conjE)
    fix s' assume m: "moved E B st s1 (core_of st s') s'"
      and c: "\<forall>b \<in> unit_regs. cell (core_of st s') b = (if CORTEXM_FPB_COMP ?i = b then keep b 0 else cell (core_of st s1) b)"
    have c1: "j < 8 \<Longrightarrow> cell (core_of st s') (CORTEXM_FPB_COMP j) = (if ?i = j then keep (CORTEXM_FPB_COMP j) 0 else cell (core_of st s) (CORTEXM_FPB_COMP j))" for j
      using c i8 by (auto simp: unit_regsI FPB_eq s1_def)
    show "units_ok E B st cell keep (s', remove1 bw L)"
    proof (rule units_ok_bp [OF ok movedD(1) [OF m]])
      show "unit_ok ?n (?used[?i := False]) (hards (remove1 bw L)) (bp_off keep (cell (core_of st s'))) (bp_on keep (flash_patch_revision ?p) (cell (core_of st s')))"
        unfolding filter_remove1
        using unit_ok_remove [OF d(5) M, of "bp_off keep (cell (core_of st s'))" "bp_on keep (flash_patch_revision ?p) (cell (core_of st s'))"] f d(2) i8 c1
        by (simp add: bp_on_def bp_off_def)
      show "watches (remove1 bw L) = watches L" using ty by (simp add: filter_remove1 remove1_idem)
      show "cell (core_of st s') a = cell (core_of st s) a" if "j < 4" "a \<in> {CORTEXM_DWT_COMP j, CORTEXM_DWT_MASK j, CORTEXM_DWT_FUNC j}" for j a
        using c FPB_DWT [OF i8 that(1)] that unfolding s1_def by (auto simp: unit_regsI)
    qed (use d(4) in \<open>auto simp: movedD [OF m] s1_def dest: notin_set_remove1\<close>)
  qed
  then show ?thesis
    unfolding cortexm_breakwatch_clear_def Let_def if_P [OF ty] bw_index_def [symmetric] flag_runs(1) [OF f(2)] andthen_simps s1_def
    by (rule runs_andthen) (auto intro: runs_return)
qed

text \<open>The three registers of a watchpoint.\<close>

lemma watch_regs_runs:
  assumes r: "cm_ready E B st s" and U: "core_units B cell keep" and i: "i < 4"
    and k: "\<And>s'. moved E B st s (core_of st s') s' \<Longrightarrow> cell (core_of st s') (CORTEXM_DWT_COMP i) = keep (CORTEXM_DWT_COMP i) v \<Longrightarrow>
      cell (core_of st s') (CORTEXM_DWT_MASK i) = keep (CORTEXM_DWT_MASK i) m \<Longrightarrow> cell (core_of st s') (CORTEXM_DWT_FUNC i) = keep (CORTEXM_DWT_FUNC i) (f (cm_options s)) \<Longrightarrow>
      (\<And>a. a \<in> unit_regs \<Longrightarrow> a \<notin> {CORTEXM_DWT_COMP i, CORTEXM_DWT_MASK i, CORTEXM_DWT_FUNC i} \<Longrightarrow> cell (core_of st s') a = cell (core_of st s) a) \<Longrightarrow>
      runs (g s') Q"
  shows "runs (andthen (cm_write32 E (CORTEXM_DWT_COMP i) v s) (\<lambda>x s. andthen (cm_write32 E (CORTEXM_DWT_MASK i) m s) (\<lambda>x s.
    andthen (cm_write32 E (CORTEXM_DWT_FUNC i) (f (cm_options s)) s) (\<lambda>x. g)))) Q"
proof (rule runs_andthen [OF unit_write_runs [OF r U]], use i in blast, elim conjE, rule runs_andthen [OF unit_write_runs [OF _ U]],
    erule movedD(1), use i in blast, elim conjE, rule runs_andthen [OF unit_write_runs [OF _ U]], erule movedD(1), use i in blast, elim conjE)
  fix x s1 y s2 z s3
  assume m: "moved E B st s (core_of st s1) s1" "moved E B st s1 (core_of st s2) s2" "moved E B st s2 (core_of st s3) s3"
    and c: "\<forall>b \<in> unit_regs. cell (core_of st s1) b = (if CORTEXM_DWT_COMP i = b then keep b v else cell (core_of st s) b)"
      "\<forall>b \<in> unit_regs. cell (core_of st s2) b = (if CORTEXM_DWT_MASK i = b then keep b m else cell (core_of st s1) b)"
      "\<forall>b \<in> unit_regs. cell (core_of st s3) b = (if CORTEXM_DWT_FUNC i = b then keep b (f (cm_options s2)) else cell (core_of st s2) b)"
  show "runs (g s3) Q"
  proof (rule k)
    show "moved E B st s (core_of st s3) s3" using movedD(10) [OF m(1) movedD(10) [OF m(2) m(3)]] .
    show "cell (core_of st s3) (CORTEXM_DWT_COMP i) = keep (CORTEXM_DWT_COMP i) v" "cell (core_of st s3) (CORTEXM_DWT_MASK i) = keep (CORTEXM_DWT_MASK i) m"
      "cell (core_of st s3) (CORTEXM_DWT_FUNC i) = keep (CORTEXM_DWT_FUNC i) (f (cm_options s))"
      using c i movedD(5) [OF m(1)] movedD(5) [OF m(2)] by (simp_all add: unit_regsI DWT_eq)
    show "a \<in> unit_regs \<Longrightarrow> a \<notin> {CORTEXM_DWT_COMP i, CORTEXM_DWT_MASK i, CORTEXM_DWT_FUNC i} \<Longrightarrow> cell (core_of st s3) a = cell (core_of st s) a" for a
      using c by auto
  qed
qed

lemma other_watch:
  assumes "i < 4" "j < 4" "i \<noteq> j"
  shows "CORTEXM_DWT_COMP j \<notin> {CORTEXM_DWT_COMP i, CORTEXM_DWT_MASK i, CORTEXM_DWT_FUNC i}"
    "CORTEXM_DWT_MASK j \<notin> {CORTEXM_DWT_COMP i, CORTEXM_DWT_MASK i, CORTEXM_DWT_FUNC i}"
    "CORTEXM_DWT_FUNC j \<notin> {CORTEXM_DWT_COMP i, CORTEXM_DWT_MASK i, CORTEXM_DWT_FUNC i}"
  using assms by (simp_all add: DWT_eq)

lemma set_watch_runs:
  assumes ok: "units_ok E B st cell keep (s, L)" and U: "core_units B cell keep" and bw: "length (bw_reserved bw) = 4"
    and ty: "is_watch (bw_type bw)"
  shows "runs (cortexm_breakwatch_set E bw s) (\<lambda>(r, bw') s'. units_ok E B st cell keep (s', if r = 0 then bw' # L else L))"
proof -
  note d = units_okD [OF ok]
  let ?p = "cm_priv s" and ?n = "hw_watchpoint_max (cm_priv s)" and ?used = "hw_watchpoint (cm_priv s)"
  have len: "?n \<le> length ?used" using d(6) by (simp add: unit_ok_def)
  then obtain i where i: "first_free ?n 0 ?used = Some i" using first_free_total [of 0 ?n ?used] by auto
  have nh: "bw_type bw \<noteq> TARGET_BREAK_HARD" using ty by (rule watch_not_hard)
  show ?thesis
  proof (cases "i = ?n")
    case True
    then show ?thesis using ok ty nh i by (auto simp: cortexm_breakwatch_set_def Let_def intro!: runs_return)
  next
    case False
    with first_free_cases [OF i] have f: "i < ?n" "i < length ?used" "\<not> ?used ! i" by auto
    then have i4: "i < 4" using d(3) by simp
    define s1 where "s1 = set_priv (\<lambda>p. p\<lparr>hw_watchpoint := ?used[i := True]\<rparr>) s"
    have r1: "cm_ready E B st s1" unfolding s1_def by (rule cm_ready_priv [OF d(1)]) simp_all
    have s1: "cm_options s1 = cm_options s" by (simp add: s1_def)
    let ?bw = "bw_set_reserved i bw"
    have ix: "bw_index ?bw = i" using bw bw_index_reserved [of bw i] i4 by fastforce
    have fin: "units_ok E B st cell keep (s', ?bw # L)"
      if m: "moved E B st s1 (core_of st s') s'" and on: "wp_on keep (cm_options s) (cell (core_of st s')) ?bw"
        and c: "\<And>a. a \<in> unit_regs \<Longrightarrow> a \<notin> {CORTEXM_DWT_COMP i, CORTEXM_DWT_MASK i, CORTEXM_DWT_FUNC i} \<Longrightarrow> cell (core_of st s') a = cell (core_of st s1) a" for s'
    proof (rule units_ok_wp [OF ok movedD(1) [OF m]])
      have c1: "cell (core_of st s') (CORTEXM_DWT_COMP j) = cell (core_of st s) (CORTEXM_DWT_COMP j)"
        "cell (core_of st s') (CORTEXM_DWT_MASK j) = cell (core_of st s) (CORTEXM_DWT_MASK j)"
        "cell (core_of st s') (CORTEXM_DWT_FUNC j) = cell (core_of st s) (CORTEXM_DWT_FUNC j)" if "j < ?n" "j \<noteq> i" for j
        using c [OF _ other_watch(1) [OF i4]] c [OF _ other_watch(2) [OF i4]] c [OF _ other_watch(3) [OF i4]] that d(3)
        by (simp_all add: unit_regsI s1_def)
      show "unit_ok ?n (?used[i := True]) (watches (?bw # L)) (wp_off keep (cell (core_of st s'))) (wp_on keep (cm_options s) (cell (core_of st s')))"
        using unit_ok_add [OF d(6), of ?bw "wp_on keep (cm_options s) (cell (core_of st s'))" "wp_off keep (cell (core_of st s'))"] f ty on
        by (simp add: ix) (simp add: wp_on_def wp_off_def c1)
      show "cell (core_of st s') (CORTEXM_FPB_COMP j) = cell (core_of st s) (CORTEXM_FPB_COMP j)" if "j < 8" for j
        using c [of "CORTEXM_FPB_COMP j"] FPB_DWT [OF that i4] that by (auto simp: s1_def)
    qed (use d(4) ty nh in \<open>simp_all add: movedD [OF m] s1_def\<close>)
    have "runs (andthen (cm_write32 E (CORTEXM_DWT_COMP i) (bw_addr bw) s1) (\<lambda>x s.
        andthen (cm_write32 E (CORTEXM_DWT_MASK i) (dwt_mask (bw_size bw)) s) (\<lambda>x s.
        andthen (cm_write32 E (CORTEXM_DWT_FUNC i) (dwt_func (cm_options s) (bw_type bw)) s) (\<lambda>x. return (0 :: int, ?bw)))))
      (\<lambda>(r, bw') s'. units_ok E B st cell keep (s', if r = 0 then bw' # L else L))"
    proof (rule watch_regs_runs [OF r1 U i4, where f = "\<lambda>opt. dwt_func opt (bw_type bw)"], rule runs_return)
      fix s'
      assume m: "moved E B st s1 (core_of st s') s'" and "cell (core_of st s') (CORTEXM_DWT_COMP i) = keep (CORTEXM_DWT_COMP i) (bw_addr bw)"
        "cell (core_of st s') (CORTEXM_DWT_MASK i) = keep (CORTEXM_DWT_MASK i) (dwt_mask (bw_size bw))"
        "cell (core_of st s') (CORTEXM_DWT_FUNC i) = keep (CORTEXM_DWT_FUNC i) (dwt_func (cm_options s1) (bw_type bw))"
        and c: "\<And>a. a \<in> unit_regs \<Longrightarrow> a \<notin> {CORTEXM_DWT_COMP i, CORTEXM_DWT_MASK i, CORTEXM_DWT_FUNC i} \<Longrightarrow> cell (core_of st s') a = cell (core_of st s1) a"
      then have "wp_on keep (cm_options s) (cell (core_of st s')) ?bw" by (simp add: wp_on_def ix s1)
      from fin [OF m this c] show "(case (0 :: int, ?bw) of (r, bw') \<Rightarrow> \<lambda>s'. units_ok E B st cell keep (s', if r = 0 then bw' # L else L)) s'" by simp
    qed
    then show ?thesis
      unfolding cortexm_breakwatch_set_def Let_def i option.case if_not_P [OF nh] if_P [OF ty] if_not_P [OF False] flag_runs(2) [OF f(2)] andthen_simps s1_def [symmetric] .
  qed
qed

lemma clear_watch_runs:
  assumes ok: "units_ok E B st cell keep (s, L)" and U: "core_units B cell keep" and bw: "bw \<in> set L"
    and ty: "is_watch (bw_type bw)"
  shows "runs (cortexm_breakwatch_clear E bw s) (\<lambda>r s'. r = 0 \<and> units_ok E B st cell keep (s', remove1 bw L))"
proof -
  note d = units_okD [OF ok]
  let ?p = "cm_priv s" and ?n = "hw_watchpoint_max (cm_priv s)" and ?used = "hw_watchpoint (cm_priv s)" and ?i = "bw_index bw"
  have nh: "bw_type bw \<noteq> TARGET_BREAK_HARD" using ty by (rule watch_not_hard)
  have M: "bw \<in> set (watches L)" using bw ty by simp
  have f: "?i < ?n" "?i < length ?used" using d(6) M by (force simp: unit_ok_def)+
  then have i4: "?i < 4" using d(3) by simp
  define s1 where "s1 = set_priv (\<lambda>p. p\<lparr>hw_watchpoint := ?used[?i := False]\<rparr>) s"
  have r1: "cm_ready E B st s1" unfolding s1_def by (rule cm_ready_priv [OF d(1)]) simp_all
  have "runs (cm_write32 E (CORTEXM_DWT_FUNC ?i) 0 s1) (\<lambda>x s'. units_ok E B st cell keep (s', remove1 bw L))"
  proof (rule runs_mono [OF unit_write_runs [OF r1 U]], use i4 in blast, elim conjE)
    fix s' assume m: "moved E B st s1 (core_of st s') s'"
      and c: "\<forall>b \<in> unit_regs. cell (core_of st s') b = (if CORTEXM_DWT_FUNC ?i = b then keep b 0 else cell (core_of st s1) b)"
    have c1: "cell (core_of st s') (CORTEXM_DWT_FUNC j) = (if ?i = j then keep (CORTEXM_DWT_FUNC j) 0 else cell (core_of st s) (CORTEXM_DWT_FUNC j))"
      "cell (core_of st s') (CORTEXM_DWT_COMP j) = cell (core_of st s) (CORTEXM_DWT_COMP j)"
      "cell (core_of st s') (CORTEXM_DWT_MASK j) = cell (core_of st s) (CORTEXM_DWT_MASK j)" if "j < 4" for j
      using c i4 that by (auto simp: unit_regsI DWT_eq s1_def)
    show "units_ok E B st cell keep (s', remove1 bw L)"
    proof (rule units_ok_wp [OF ok movedD(1) [OF m]])
      show "unit_ok ?n (?used[?i := False]) (watches (remove1 bw L)) (wp_off keep (cell (core_of st s'))) (wp_on keep (cm_options s) (cell (core_of st s')))"
        unfolding filter_remove1
        using unit_ok_remove [OF d(6) M, of "wp_off keep (cell (core_of st s'))" "wp_on keep (cm_options s) (cell (core_of st s'))"] f d(3) i4 c1
        by (simp add: wp_on_def wp_off_def)
      show "hards (remove1 bw L) = hards L" using nh by (simp add: filter_remove1 remove1_idem)
      show "cell (core_of st s') (CORTEXM_FPB_COMP j) = cell (core_of st s) (CORTEXM_FPB_COMP j)" if "j < 8" for j
        using c FPB_DWT [OF that i4] that unfolding s1_def by (auto simp: unit_regsI)
    qed (use d(4) in \<open>auto simp: movedD [OF m] s1_def dest: notin_set_remove1\<close>)
  qed
  then show ?thesis
    unfolding cortexm_breakwatch_clear_def Let_def if_not_P [OF nh] if_P [OF ty] bw_index_def [symmetric] flag_runs(2) [OF f(2)] andthen_simps s1_def
    by (rule runs_andthen) (auto intro: runs_return)
qed

lemma runs_eq: "runs m Q \<Longrightarrow> m = Some (Inr x, s) \<Longrightarrow> Q x s"
  by (simp add: runs_def)

lemma bw_step_ok:
  assumes "bw_step E sL sL'" and "units_ok E B st cell keep sL" and U: "core_units B cell keep"
  shows "units_ok E B st cell keep sL'"
  using assms(1,2)
proof (induction rule: bw_step.induct)
  case (set bw s r bw' s' L)
  consider "bw_type bw = TARGET_BREAK_HARD" | "is_watch (bw_type bw)" | "bw_type bw \<noteq> TARGET_BREAK_HARD" "\<not> is_watch (bw_type bw)" by blast
  then show ?case
  proof cases
    case 1
    from runs_eq [OF set_break_runs [OF set(3) U set(1) 1] set(2)] show ?thesis by simp
  next
    case 2
    from runs_eq [OF set_watch_runs [OF set(3) U set(1) 2] set(2)] show ?thesis by simp
  next
    case 3
    then show ?thesis using set(2,3) by (simp add: cortexm_breakwatch_set_def return_def Let_def)
  qed
next
  case (clear bw L s r s')
  then have "bw_type bw = TARGET_BREAK_HARD \<or> is_watch (bw_type bw)" using units_okD(4) [OF clear(3)] by blast
  then show ?case
  proof
    assume ty: "bw_type bw = TARGET_BREAK_HARD"
    from runs_eq [OF clear_break_runs [OF clear(3) U clear(1) ty] clear(2)] show ?thesis by simp
  next
    assume ty: "is_watch (bw_type bw)"
    from runs_eq [OF clear_watch_runs [OF clear(3) U clear(1) ty] clear(2)] show ?thesis by simp
  qed
qed

lemma bw_steps_ok: "(bw_step E)\<^sup>*\<^sup>* sL sL' \<Longrightarrow> units_ok E B st cell keep sL \<Longrightarrow> core_units B cell keep \<Longrightarrow> units_ok E B st cell keep sL'"
  by (induction rule: rtranclp_induct) (auto intro: bw_step_ok)

subsection \<open>Attaching\<close>

lemma unit_reg_values: "CORTEXM_FPB_CTRL \<notin> unit_regs" "CORTEXM_DHCSR \<notin> unit_regs" "CORTEXM_DEMCR \<notin> unit_regs" "CORTEXM_DFSR \<notin> unit_regs"
  by (auto simp: unit_regs_def word_unat_eq_iff unat_FPB unat_DWT CORTEXM_FPB_CTRL_def CORTEXM_DHCSR_def CORTEXM_DEMCR_def CORTEXM_DFSR_def)

definition same_cells :: "('c \<Rightarrow> u32 \<Rightarrow> u32) \<Rightarrow> 'c \<Rightarrow> 'c \<Rightarrow> bool" where
  "same_cells cell c d \<longleftrightarrow> (\<forall>a \<in> unit_regs. cell d a = cell c a)"

lemma units_ok_cells:
  assumes "units_ok E B st cell keep (s, L)" and "cm_ready E B st s'" and "cm_priv s' = cm_priv s" "cm_options s' = cm_options s"
    and "same_cells cell (core_of st s) (core_of st s')"
  shows "units_ok E B st cell keep (s', L)"
proof -
  note d = units_okD [OF assms(1)]
  have "unit_ok (hw_breakpoint_max (cm_priv s)) (hw_breakpoint (cm_priv s)) (hards L) (bp_off keep (cell (core_of st s'))) (bp_on keep (flash_patch_revision (cm_priv s)) (cell (core_of st s')))"
    by (rule unit_ok_weaken [OF d(5)]) (use d(2) assms(5) in \<open>simp_all add: bp_off_def bp_on_def same_cells_def unit_regsI\<close>)
  moreover have "unit_ok (hw_watchpoint_max (cm_priv s)) (hw_watchpoint (cm_priv s)) (watches L) (wp_off keep (cell (core_of st s'))) (wp_on keep (cm_options s) (cell (core_of st s')))"
    by (rule unit_ok_weaken [OF d(6)]) (use d(3) assms(5) in \<open>simp_all add: wp_off_def wp_on_def same_cells_def unit_regsI\<close>)
  ultimately show ?thesis using d assms(2-4) by (simp add: units_ok_def Let_def)
qed

lemma read_same_runs:
  assumes "units_ok E B st cell keep (s, L)" and "core_units B cell keep" and "0xE0000000 \<le> a" "aligned a 2"
  shows "runs (cm_read32 E a s) (\<lambda>x s'. x = fst (cb_read B a (core_of st s)) \<and> units_ok E B st cell keep (s', L))"
  by (rule runs_mono [OF cm_read32_runs [OF units_okD(1) [OF assms(1)] assms(3,4)]])
    (use assms(2) in \<open>auto simp: movedD same_cells_def core_units_def intro!: units_ok_cells [OF assms(1)] intro: movedD(1)\<close>)

lemma write_same_runs:
  assumes "units_ok E B st cell keep (s, L)" and "core_units B cell keep" and "0xE0000000 \<le> a" "aligned a 2" "a \<notin> unit_regs"
  shows "runs (cm_write32 E a v s) (\<lambda>x s'. units_ok E B st cell keep (s', L))"
  by (rule runs_mono [OF cm_write32_runs [OF units_okD(1) [OF assms(1)] assms(3,4)]])
    (use assms(2,5) in \<open>auto simp: movedD same_cells_def core_units_def intro!: units_ok_cells [OF assms(1)] intro: movedD(1)\<close>)

text \<open>The two loops that clear the units.\<close>

lemma clear_breakpoints_runs:
  assumes U: "core_units B cell keep"
  shows "cm_ready E B st s \<Longrightarrow> length (hw_breakpoint (cm_priv s)) = 8 \<Longrightarrow> \<forall>i \<in> set is. i < 8 \<Longrightarrow>
    runs (clear_breakpoints E is s) (\<lambda>x s'. cm_ready E B st s' \<and>
      (\<exists>u. cm_priv s' = cm_priv s\<lparr>hw_breakpoint := u\<rparr> \<and> length u = 8 \<and> (\<forall>i \<in> set is. \<not> u ! i) \<and> (\<forall>i < 8. u ! i \<longrightarrow> hw_breakpoint (cm_priv s) ! i)) \<and>
      (\<forall>a \<in> unit_regs. cell (core_of st s') a = (if a \<in> CORTEXM_FPB_COMP ` set is then keep a 0 else cell (core_of st s) a)))"
proof (induction "is" arbitrary: s)
  case (Nil s)
  then show ?case by (auto intro!: runs_return exI [of _ "hw_breakpoint (cm_priv s)"])
next
  case (Cons i "is")
  then have i: "i < 8" by simp
  show ?case unfolding clear_breakpoints.simps
  proof (rule runs_andthen [OF unit_write_runs [OF Cons.prems(1) U]], use i in blast, elim conjE)
    fix x s1 assume m: "moved E B st s (core_of st s1) s1"
      and c: "\<forall>b \<in> unit_regs. cell (core_of st s1) b = (if CORTEXM_FPB_COMP i = b then keep b 0 else cell (core_of st s) b)"
    define s2 where "s2 = set_priv (\<lambda>p. p\<lparr>hw_breakpoint := (hw_breakpoint (cm_priv s1))[i := False]\<rparr>) s1"
    have f: "set_breakpoint_flag i False s1 = return () s2"
      unfolding s2_def by (rule flag_runs) (simp add: movedD(3) [OF m] Cons.prems(2) i)
    have r: "cm_ready E B st s2" unfolding s2_def by (rule cm_ready_priv [OF movedD(1) [OF m]]) simp_all
    have p: "cm_priv s2 = cm_priv s\<lparr>hw_breakpoint := (hw_breakpoint (cm_priv s))[i := False]\<rparr>" "core_of st s2 = core_of st s1"
      by (simp_all add: s2_def movedD(3) [OF m])
    have "runs (clear_breakpoints E is s2) (\<lambda>x s'. cm_ready E B st s' \<and>
      (\<exists>u. cm_priv s' = cm_priv s2\<lparr>hw_breakpoint := u\<rparr> \<and> length u = 8 \<and> (\<forall>i \<in> set is. \<not> u ! i) \<and> (\<forall>i < 8. u ! i \<longrightarrow> hw_breakpoint (cm_priv s2) ! i)) \<and>
      (\<forall>a \<in> unit_regs. cell (core_of st s') a = (if a \<in> CORTEXM_FPB_COMP ` set is then keep a 0 else cell (core_of st s2) a)))"
      by (rule Cons.IH [OF r]) (use Cons.prems p in simp_all)
    then show "runs (andthen (set_breakpoint_flag i False s1) (\<lambda>x. clear_breakpoints E is)) (\<lambda>x s'. cm_ready E B st s' \<and>
      (\<exists>u. cm_priv s' = cm_priv s\<lparr>hw_breakpoint := u\<rparr> \<and> length u = 8 \<and> (\<forall>i \<in> set (i # is). \<not> u ! i) \<and> (\<forall>i < 8. u ! i \<longrightarrow> hw_breakpoint (cm_priv s) ! i)) \<and>
      (\<forall>a \<in> unit_regs. cell (core_of st s') a = (if a \<in> CORTEXM_FPB_COMP ` set (i # is) then keep a 0 else cell (core_of st s) a)))"
      unfolding f andthen_simps
    proof (rule runs_mono, elim conjE exE, intro conjI)
      fix s' u assume "cm_priv s' = cm_priv s2\<lparr>hw_breakpoint := u\<rparr>" "length u = 8" "\<forall>i \<in> set is. \<not> u ! i" "\<forall>i < 8. u ! i \<longrightarrow> hw_breakpoint (cm_priv s2) ! i"
      moreover from this(4) i have ui: "\<not> u ! i" unfolding p(1) using Cons.prems(2) by auto
      moreover have "\<forall>j < 8. u ! j \<longrightarrow> hw_breakpoint (cm_priv s) ! j"
      proof (intro allI impI)
        fix j assume "j < 8" "u ! j"
        then show "hw_breakpoint (cm_priv s) ! j" using ui \<open>\<forall>i < 8. u ! i \<longrightarrow> hw_breakpoint (cm_priv s2) ! i\<close> by (cases "j = i") (auto simp: p(1))
      qed
      ultimately show "\<exists>u. cm_priv s' = cm_priv s\<lparr>hw_breakpoint := u\<rparr> \<and> length u = 8 \<and> (\<forall>i \<in> set (i # is). \<not> u ! i) \<and> (\<forall>i < 8. u ! i \<longrightarrow> hw_breakpoint (cm_priv s) ! i)"
        unfolding p(1) using Cons.prems(2) by (intro exI [of _ u]) auto
    qed (use c p in auto)
  qed
qed

lemma clear_watchpoints_runs:
  assumes U: "core_units B cell keep"
  shows "cm_ready E B st s \<Longrightarrow> length (hw_watchpoint (cm_priv s)) = 4 \<Longrightarrow> \<forall>i \<in> set is. i < 4 \<Longrightarrow>
    runs (clear_watchpoints E is s) (\<lambda>x s'. cm_ready E B st s' \<and>
      (\<exists>u. cm_priv s' = cm_priv s\<lparr>hw_watchpoint := u\<rparr> \<and> length u = 4 \<and> (\<forall>i \<in> set is. \<not> u ! i) \<and> (\<forall>i < 4. u ! i \<longrightarrow> hw_watchpoint (cm_priv s) ! i)) \<and>
      (\<forall>a \<in> unit_regs. cell (core_of st s') a = (if a \<in> CORTEXM_DWT_FUNC ` set is then keep a 0 else cell (core_of st s) a)))"
proof (induction "is" arbitrary: s)
  case (Nil s)
  then show ?case by (auto intro!: runs_return exI [of _ "hw_watchpoint (cm_priv s)"])
next
  case (Cons i "is")
  then have i: "i < 4" by simp
  show ?case unfolding clear_watchpoints.simps
  proof (rule runs_andthen [OF unit_write_runs [OF Cons.prems(1) U]], use i in blast, elim conjE)
    fix x s1 assume m: "moved E B st s (core_of st s1) s1"
      and c: "\<forall>b \<in> unit_regs. cell (core_of st s1) b = (if CORTEXM_DWT_FUNC i = b then keep b 0 else cell (core_of st s) b)"
    define s2 where "s2 = set_priv (\<lambda>p. p\<lparr>hw_watchpoint := (hw_watchpoint (cm_priv s1))[i := False]\<rparr>) s1"
    have f: "set_watchpoint_flag i False s1 = return () s2"
      unfolding s2_def by (rule flag_runs) (simp add: movedD(3) [OF m] Cons.prems(2) i)
    have r: "cm_ready E B st s2" unfolding s2_def by (rule cm_ready_priv [OF movedD(1) [OF m]]) simp_all
    have p: "cm_priv s2 = cm_priv s\<lparr>hw_watchpoint := (hw_watchpoint (cm_priv s))[i := False]\<rparr>" "core_of st s2 = core_of st s1"
      by (simp_all add: s2_def movedD(3) [OF m])
    have "runs (clear_watchpoints E is s2) (\<lambda>x s'. cm_ready E B st s' \<and>
      (\<exists>u. cm_priv s' = cm_priv s2\<lparr>hw_watchpoint := u\<rparr> \<and> length u = 4 \<and> (\<forall>i \<in> set is. \<not> u ! i) \<and> (\<forall>i < 4. u ! i \<longrightarrow> hw_watchpoint (cm_priv s2) ! i)) \<and>
      (\<forall>a \<in> unit_regs. cell (core_of st s') a = (if a \<in> CORTEXM_DWT_FUNC ` set is then keep a 0 else cell (core_of st s2) a)))"
      by (rule Cons.IH [OF r]) (use Cons.prems p in simp_all)
    then show "runs (andthen (set_watchpoint_flag i False s1) (\<lambda>x. clear_watchpoints E is)) (\<lambda>x s'. cm_ready E B st s' \<and>
      (\<exists>u. cm_priv s' = cm_priv s\<lparr>hw_watchpoint := u\<rparr> \<and> length u = 4 \<and> (\<forall>i \<in> set (i # is). \<not> u ! i) \<and> (\<forall>i < 4. u ! i \<longrightarrow> hw_watchpoint (cm_priv s) ! i)) \<and>
      (\<forall>a \<in> unit_regs. cell (core_of st s') a = (if a \<in> CORTEXM_DWT_FUNC ` set (i # is) then keep a 0 else cell (core_of st s) a)))"
      unfolding f andthen_simps
    proof (rule runs_mono, elim conjE exE, intro conjI)
      fix s' u assume "cm_priv s' = cm_priv s2\<lparr>hw_watchpoint := u\<rparr>" "length u = 4" "\<forall>i \<in> set is. \<not> u ! i" "\<forall>i < 4. u ! i \<longrightarrow> hw_watchpoint (cm_priv s2) ! i"
      moreover from this(4) i have ui: "\<not> u ! i" unfolding p(1) using Cons.prems(2) by auto
      moreover have "\<forall>j < 4. u ! j \<longrightarrow> hw_watchpoint (cm_priv s) ! j"
      proof (intro allI impI)
        fix j assume "j < 4" "u ! j"
        then show "hw_watchpoint (cm_priv s) ! j" using ui \<open>\<forall>i < 4. u ! i \<longrightarrow> hw_watchpoint (cm_priv s2) ! i\<close> by (cases "j = i") (auto simp: p(1))
      qed
      ultimately show "\<exists>u. cm_priv s' = cm_priv s\<lparr>hw_watchpoint := u\<rparr> \<and> length u = 4 \<and> (\<forall>i \<in> set (i # is). \<not> u ! i) \<and> (\<forall>i < 4. u ! i \<longrightarrow> hw_watchpoint (cm_priv s) ! i)"
        unfolding p(1) using Cons.prems(2) by (intro exI [of _ u]) auto
    qed (use c p in auto)
  qed
qed

lemma watchpoints_of_le: "watchpoints_of r \<le> 4 \<Longrightarrow> watchpoints_of r = 4"
  by (simp add: watchpoints_of_def CORTEXM_MAX_WATCHPOINTS_def Let_def split: if_splits)

lemma breakpoints_of_le: "breakpoints_of r \<le> 8"
  by (simp add: breakpoints_of_def CORTEXM_MAX_BREAKPOINTS_def Let_def)

definition room_for_flags :: "'w cortexm \<Rightarrow> bool" where
  "room_for_flags s \<longleftrightarrow> length (hw_breakpoint (cm_priv s)) = 8 \<and> length (hw_watchpoint (cm_priv s)) = 4"

text \<open>The units of the core have at most four watchpoint comparators.\<close>

definition few_watchpoints :: "'c core_bus \<Rightarrow> bool" where
  "few_watchpoints B \<longleftrightarrow> (\<forall>c. watchpoints_of (fst (cb_read B CORTEXM_DWT_CTRL c)) \<le> CORTEXM_MAX_WATCHPOINTS)"

lemma attach_units_runs:
  assumes r: "cm_ready E B st s" and U: "core_units B cell keep" and room: "room_for_flags s" and few: "few_watchpoints B"
  shows "runs (attach_units E s) (\<lambda>x s'. units_ok E B st cell keep (s', []))"
proof -
  define s0 where "s0 = set_priv (\<lambda>p. p\<lparr>hw_breakpoint_max := CORTEXM_MAX_BREAKPOINTS\<rparr>) s"
  have r0: "cm_ready E B st s0" unfolding s0_def by (rule cm_ready_priv [OF r]) simp_all
  show ?thesis unfolding attach_units_def s0_def [symmetric]
  proof (rule runs_andthen [OF cm_read32_runs [OF r0]], simp, simp, elim conjE)
    fix v s1 assume m1: "moved E B st s0 (snd (cb_read B CORTEXM_FPB_CTRL (core_of st s0))) s1"
    define s2 where "s2 = set_priv (\<lambda>p. p\<lparr>hw_breakpoint_max := breakpoints_of v, flash_patch_revision := drop_bit 28 v,
      hw_watchpoint_max := CORTEXM_MAX_WATCHPOINTS\<rparr>) s1"
    have r2: "cm_ready E B st s2" unfolding s2_def by (rule cm_ready_priv [OF movedD(1) [OF m1]]) simp_all
    have p2: "room_for_flags s2" using room by (simp add: room_for_flags_def s2_def movedD [OF m1] s0_def)
    show "runs (let s = set_priv (\<lambda>p. p\<lparr>hw_breakpoint_max := breakpoints_of v, flash_patch_revision := drop_bit 28 v,
                hw_watchpoint_max := CORTEXM_MAX_WATCHPOINTS\<rparr>) s1
       in andthen (cm_read32 E CORTEXM_DWT_CTRL s) (\<lambda>r s.
          let s = set_priv (\<lambda>p. p\<lparr>hw_watchpoint_max := watchpoints_of r\<rparr>) s
          in andthen (clear_breakpoints E [0..<hw_breakpoint_max (cm_priv s)] s) (\<lambda>x s.
             andthen (clear_watchpoints E [0..<hw_watchpoint_max (cm_priv s)] s) (\<lambda>x.
             cm_write32 E CORTEXM_FPB_CTRL 3)))) (\<lambda>x s'. units_ok E B st cell keep (s', []))"
      unfolding Let_def s2_def [symmetric]
    proof (rule runs_andthen [OF cm_read32_runs [OF r2]], simp, simp, elim conjE)
      fix y s3 assume y: "y = fst (cb_read B CORTEXM_DWT_CTRL (core_of st s2))" and m3: "moved E B st s2 (snd (cb_read B CORTEXM_DWT_CTRL (core_of st s2))) s3"
      define s4 where "s4 = set_priv (\<lambda>p. p\<lparr>hw_watchpoint_max := watchpoints_of y\<rparr>) s3"
      have r4: "cm_ready E B st s4" unfolding s4_def by (rule cm_ready_priv [OF movedD(1) [OF m3]]) simp_all
      have p4: "length (hw_breakpoint (cm_priv s4)) = 8" "length (hw_watchpoint (cm_priv s4)) = 4"
        "hw_breakpoint_max (cm_priv s4) \<le> 8" "hw_watchpoint_max (cm_priv s4) = 4"
        using p2 few breakpoints_of_le [of v] watchpoints_of_le [of y]
        by (simp_all add: room_for_flags_def few_watchpoints_def s4_def movedD [OF m3] s2_def y CORTEXM_MAX_WATCHPOINTS_def)
      show "runs (andthen (clear_breakpoints E [0..<hw_breakpoint_max (cm_priv (set_priv (\<lambda>p. p\<lparr>hw_watchpoint_max := watchpoints_of y\<rparr>) s3))]
          (set_priv (\<lambda>p. p\<lparr>hw_watchpoint_max := watchpoints_of y\<rparr>) s3)) (\<lambda>x s.
             andthen (clear_watchpoints E [0..<hw_watchpoint_max (cm_priv s)] s) (\<lambda>x.
             cm_write32 E CORTEXM_FPB_CTRL 3))) (\<lambda>x s'. units_ok E B st cell keep (s', []))"
        unfolding s4_def [symmetric]
      proof (rule runs_andthen [OF clear_breakpoints_runs [OF U r4 p4(1)]], use p4(3) in simp, elim conjE exE)
        fix x s5 u assume s5: "cm_ready E B st s5" "cm_priv s5 = cm_priv s4\<lparr>hw_breakpoint := u\<rparr>" "length u = 8"
          "\<forall>i \<in> set [0..<hw_breakpoint_max (cm_priv s4)]. \<not> u ! i"
          "\<forall>a \<in> unit_regs. cell (core_of st s5) a = (if a \<in> CORTEXM_FPB_COMP ` set [0..<hw_breakpoint_max (cm_priv s4)] then keep a 0 else cell (core_of st s4) a)"
        have p5: "length (hw_watchpoint (cm_priv s5)) = 4" "\<forall>i \<in> set [0..<hw_watchpoint_max (cm_priv s5)]. i < 4" using p4 by (simp_all add: s5(2))
        show "runs (andthen (clear_watchpoints E [0..<hw_watchpoint_max (cm_priv s5)] s5) (\<lambda>x. cm_write32 E CORTEXM_FPB_CTRL 3)) (\<lambda>x s'. units_ok E B st cell keep (s', []))"
        proof (rule runs_andthen [OF clear_watchpoints_runs [OF U s5(1) p5]], elim conjE exE)
          fix z s6 w assume s6: "cm_ready E B st s6" "cm_priv s6 = cm_priv s5\<lparr>hw_watchpoint := w\<rparr>" "length w = 4"
            "\<forall>i \<in> set [0..<hw_watchpoint_max (cm_priv s5)]. \<not> w ! i"
            "\<forall>a \<in> unit_regs. cell (core_of st s6) a = (if a \<in> CORTEXM_DWT_FUNC ` set [0..<hw_watchpoint_max (cm_priv s5)] then keep a 0 else cell (core_of st s5) a)"
          have "cell (core_of st s6) (CORTEXM_FPB_COMP i) = keep (CORTEXM_FPB_COMP i) 0" if "i < hw_breakpoint_max (cm_priv s4)" for i
          proof -
            have i: "i < 8" using that p4(3) by simp
            then have "CORTEXM_FPB_COMP i \<notin> CORTEXM_DWT_FUNC ` set [0..<hw_watchpoint_max (cm_priv s5)]" using p5(2) FPB_DWT [OF i] by auto
            then show ?thesis using s5(5) s6(5) i that by (simp add: unit_regsI)
          qed
          moreover have "cell (core_of st s6) (CORTEXM_DWT_FUNC i) = keep (CORTEXM_DWT_FUNC i) 0" if "i < 4" for i
            using s6(5) that p4(4) by (simp add: unit_regsI s5(2))
          ultimately have "units_ok E B st cell keep (s6, [])"
            using s5(2-4) s6(1-4) p4 by (simp add: units_ok_def Let_def unit_ok_def bp_off_def wp_off_def)
          from write_same_runs [OF this U _ _ unit_reg_values(1)]
          show "runs (cm_write32 E CORTEXM_FPB_CTRL 3 s6) (\<lambda>x s'. units_ok E B st cell keep (s', []))" by simp
        qed
      qed
    qed
  qed
qed

lemma halt_request_runs:
  assumes "cm_ready E B st s"
  shows "runs (cortexm_halt_request E s) (\<lambda>x s'. moved E B st s (cb_write B CORTEXM_DHCSR 0xA05F0003 (core_of st s)) s')"
proof -
  have v: "0xA05F0000 OR 2 OR 1 = (0xA05F0003 :: u32)" by simp
  from cm_write32_runs [OF assms, of CORTEXM_DHCSR "0xA05F0003"] obtain x s' where
    "cm_write32 E CORTEXM_DHCSR 0xA05F0003 s = Some (Inr x, s')" "moved E B st s (cb_write B CORTEXM_DHCSR 0xA05F0003 (core_of st s)) s'"
    by (auto simp: runs_def)
  then show ?thesis unfolding cortexm_halt_request_def v by (simp add: try_catch_def runs_return)
qed

text \<open>The forced fault makes the error query connect to this core again.\<close>

definition reconnects :: "'w cm_env \<Rightarrow> ('w \<Rightarrow> 'c core_port) \<Rightarrow> bool" where
  "reconnects E st \<longleftrightarrow> (\<forall>w. runs (dp_error (ce_dp E) (ce_set_fault E w)) (\<lambda>e w'. cp_idle (cp_core (st w)) (st w')))"

text \<open>The reset line and the clock leave the port and the unit registers alone.\<close>

definition keeps_units :: "'w cm_env \<Rightarrow> ('w \<Rightarrow> 'c core_port) \<Rightarrow> ('c \<Rightarrow> u32 \<Rightarrow> u32) \<Rightarrow> bool" where
  "keeps_units E st cell \<longleftrightarrow> (\<forall>w w'. w' = snd (ce_clock E w) \<or> w' = ce_srst_set_val E False w \<longrightarrow>
     cp_fault (st w') = cp_fault (st w) \<and> same_cells cell (cp_core (st w)) (cp_core (st w')))"

lemma units_ok_quiet:
  assumes "units_ok E B st cell keep (s, L)" and "keeps_units E st cell"
  shows "units_ok E B st cell keep (s\<lparr>cm_world := snd (ce_clock E (cm_world s))\<rparr>, L)"
    "units_ok E B st cell keep (s\<lparr>cm_world := ce_srst_set_val E False (cm_world s)\<rparr>, L)"
  using assms(2) units_okD(1) [OF assms(1)]
  by (auto simp: keeps_units_def cm_ready_def ram_below_ppb_def intro!: units_ok_cells [OF assms(1)])

lemma after_runs: "runs m R \<Longrightarrow> (\<And>x s. R x s \<Longrightarrow> after Q (f x s)) \<Longrightarrow> after Q (andthen m f)"
  unfolding runs_def after_def by fastforce

lemma attach_loop_keeps:
  assumes U: "core_units B cell keep" and K: "keeps_units E st cell" and ok: "units_ok E B st cell keep (s, L)"
  shows "after (\<lambda>b s'. units_ok E B st cell keep (s', L)) (attach_reset_loop E to s)"
proof -
  let ?Q = "\<lambda>b s'. units_ok E B st cell keep (s', L)"
  have "E' = E \<longrightarrow> ?Q b s \<longrightarrow> (\<forall>b s'. r = (Inr b, s') \<longrightarrow> ?Q b s')" if run: "attach_reset_loop E' to s = Some r" for E' to s r
  proof (rule attach_reset_loop.raw_induct [OF _ run, where P = "\<lambda>E' to s r. E' = E \<longrightarrow> ?Q b s \<longrightarrow> (\<forall>b s'. r = (Inr b, s') \<longrightarrow> ?Q b s')"], goal_cases)
    case (1 loop E' to s r)
    have IH: "after ?Q (loop E to s)" if "?Q b s" for to s unfolding after_def using 1(1) that by blast
    show ?case
    proof (intro impI)
      assume E: "E' = E" and ok: "?Q b s"
      have "after ?Q (andthen (cm_read32 E CORTEXM_DHCSR s) (\<lambda>dhcsr s.
          if dhcsr AND DHCSR_S_RESET_ST = 0 then return True s
          else case platform_timeout_is_expired (ce_clock E) to (cm_world s) of (expired, w) \<Rightarrow>
            if expired then return False (s\<lparr>cm_world := w\<rparr>) else loop E to (s\<lparr>cm_world := w\<rparr>)))"
      proof (rule after_runs [OF read_same_runs [OF ok U]], simp, simp, elim conjE)
        fix x s1 assume ok1: "?Q b s1"
        obtain expired w where t: "platform_timeout_is_expired (ce_clock E) to (cm_world s1) = (expired, w)" by force
        then have w: "w = snd (ce_clock E (cm_world s1))" by (auto simp: platform_timeout_is_expired_def split: prod.splits)
        note ok2 = units_ok_quiet(1) [OF ok1 K, folded w]
        show "after ?Q (if x AND DHCSR_S_RESET_ST = 0 then return True s1
          else case platform_timeout_is_expired (ce_clock E) to (cm_world s1) of (expired, w) \<Rightarrow>
            if expired then return False (s1\<lparr>cm_world := w\<rparr>) else loop E to (s1\<lparr>cm_world := w\<rparr>))"
          unfolding t using ok1 ok2 IH [OF ok2] by (simp add: after_basic)
      qed
      then show "\<forall>b s'. r = (Inr b, s') \<longrightarrow> ?Q b s'" using 1(2) E by (auto simp: after_def)
    qed
  qed
  then show ?thesis using ok by (auto simp: after_def)
qed

lemma runs_into: "runs m R \<Longrightarrow> (\<And>x s. R x s \<Longrightarrow> \<exists>y s'. Q y s' \<and> f x s = k y s') \<Longrightarrow> \<exists>y s'. Q y s' \<and> andthen m f = k y s'"
  unfolding runs_def by fastforce

definition attach_tail :: "'w cm_env \<Rightarrow> u32 \<Rightarrow> 'w cortexm \<Rightarrow> ('w cortexm, bool) outcome" where
  "attach_tail E dhcsr s =
     (if dhcsr AND DHCSR_S_RESET_ST \<noteq> 0 then
        case platform_timeout_set (ce_clock E) 1000 (ce_srst_set_val E False (cm_world s)) of (to, w) \<Rightarrow>
          attach_reset_loop E to (s\<lparr>cm_world := w\<rparr>)
      else return True s)"

text \<open>Everything before the wait for the end of a reset succeeds, and leaves the units cleared.\<close>

lemma attach_prefix:
  assumes r: "cm_ready E B st s" and U: "core_units B cell keep" and room: "room_for_flags s" and few: "few_watchpoints B"
    and rc: "reconnects E st"
  shows "\<exists>x s'. (units_ok E B st cell keep (s', []) \<and> (\<exists>c. x = fst (cb_read B CORTEXM_DHCSR c))) \<and> cortexm_attach E s = attach_tail E x s'"
proof -
  have fault: "runs (cortexm_check_error E (cm_world_op (ce_set_fault E) s)) (\<lambda>e s'. moved E B st s (core_of st s) s')"
  proof -
    have "runs (on_cm (dp_error (ce_dp E)) (cm_world_op (ce_set_fault E) s)) (\<lambda>e s'. moved E B st s (core_of st s) s')"
    proof (rule on_cm_runs)
      have "runs (dp_error (ce_dp E) (ce_set_fault E (cm_world s))) (\<lambda>e w'. cp_idle (core_of st s) (st w'))" using rc by (simp add: reconnects_def)
      then show "runs (dp_error (ce_dp E) (cm_world (cm_world_op (ce_set_fault E) s))) (\<lambda>x w. moved E B st s (core_of st s) (cm_world_op (ce_set_fault E) s\<lparr>cm_world := w\<rparr>))"
        using cm_ready_world [OF r] by (auto simp: cm_world_op_def moved_def cp_idle_def elim!: runs_mono)
    qed
    then show ?thesis unfolding cortexm_check_error_def by (rule runs_andthen) (rule runs_return)
  qed
  have room': "room_for_flags s'" if "moved E B st s c s'" for c s' using room movedD(3) [OF that] by (simp add: room_for_flags_def)
  show ?thesis unfolding cortexm_attach_def
    apply (rule runs_into [OF fault])
    subgoal premises m for x s1
      apply (rule runs_into [OF check_error_runs [OF movedD(1) [OF m]]], elim conjE)
      subgoal premises m2 for y s2
        apply (rule runs_into [OF halt_request_runs [OF movedD(1) [OF m2(2)]]])
        subgoal premises m3 for z s3
          apply (rule runs_into [OF cm_write32_runs [OF movedD(1) [OF m3]]], simp, simp)
          subgoal premises m4 for x4 s4
            apply (rule runs_into [OF cm_write32_runs [OF movedD(1) [OF m4]]], simp, simp)
            subgoal premises m5 for x5 s5
              apply (rule runs_into [OF attach_units_runs [OF movedD(1) [OF m5] U room' few]])
               apply (rule movedD(10) [OF m movedD(10) [OF m2(2) movedD(10) [OF m3 movedD(10) [OF m4 m5]]]])
              subgoal premises ok6 for x6 s6
                apply (rule runs_into [OF read_same_runs [OF ok6 U]], simp, simp, elim conjE)
                subgoal premises ok7 for x7 s7
                  apply (rule runs_into [OF read_same_runs [OF ok7(2) U]], simp, simp, elim conjE)
                  subgoal premises ok8 for x8 s8
                    using ok8 by (auto simp: attach_tail_def)
                  done
                done
              done
            done
          done
        done
      done
    done
qed

lemma attach_keeps:
  assumes "cm_ready E B st s" and U: "core_units B cell keep" and "room_for_flags s" and "few_watchpoints B"
    and "reconnects E st" and K: "keeps_units E st cell"
  shows "after (\<lambda>b s'. units_ok E B st cell keep (s', [])) (cortexm_attach E s)"
proof -
  from attach_prefix [OF assms(1-5)] obtain x s' where ok: "units_ok E B st cell keep (s', [])" and eq: "cortexm_attach E s = attach_tail E x s'" by blast
  obtain to w where t: "platform_timeout_set (ce_clock E) 1000 (ce_srst_set_val E False (cm_world s')) = (to, w)" by force
  let ?s = "s'\<lparr>cm_world := ce_srst_set_val E False (cm_world s')\<rparr>"
  from t have w: "s'\<lparr>cm_world := w\<rparr> = ?s\<lparr>cm_world := snd (ce_clock E (cm_world ?s))\<rparr>"
    by (auto simp: platform_timeout_set_def split: prod.splits)
  have "units_ok E B st cell keep (s'\<lparr>cm_world := w\<rparr>, [])"
    unfolding w by (rule units_ok_quiet(1) [OF units_ok_quiet(2) [OF ok K] K])
  from attach_loop_keeps [OF U K this, of to] show ?thesis using ok by (simp add: eq attach_tail_def t after_basic)
qed

text \<open>
  C2. Attaching to a core clears its break- and watchpoint units, and every sequence of calls that set
  and clear break- and watchpoints keeps them exact: the entries that \<open>target.c\<close> has on its list have
  comparators of their own, which hold the address, mask and function of the entry; every other
  comparator is disabled; the flags of the driver tell which are which.
\<close>

theorem comparators_exact:
  assumes "cm_ready E B st s" and "core_units B cell keep" and "room_for_flags s" and "few_watchpoints B"
    and "reconnects E st" and "keeps_units E st cell"
    and "cortexm_attach E s = Some (Inr b, s0)" and "(bw_step E)\<^sup>*\<^sup>* (s0, []) (s', L)"
  shows "units_ok E B st cell keep (s', L)"
proof (rule bw_steps_ok [OF assms(8) _ assms(2)])
  show "units_ok E B st cell keep (s0, [])"
    using attach_keeps [OF assms(1-6)] assms(7) by (auto simp: after_def)
qed

text \<open>More than four comparators: the loop that clears them leaves the array of flags.\<close>

lemma clear_watchpoints_append:
  "clear_watchpoints E (is @ js) = (\<lambda>s. andthen (clear_watchpoints E is s) (\<lambda>x. clear_watchpoints E js))"
proof (induction "is")
  case (Cons i "is")
  show ?case by (rule ext) (simp add: Cons.IH andthen_assoc)
qed simp

lemma dwt_func_4: "0xE0000000 \<le> CORTEXM_DWT_FUNC 4" "aligned (CORTEXM_DWT_FUNC 4) 2"
  by (simp_all add: CORTEXM_DWT_FUNC_def aligned_def)

lemma clear_watchpoints_overrun:
  assumes r: "cm_ready E B st s" and U: "core_units B cell keep" and l: "length (hw_watchpoint (cm_priv s)) = 4" and n: "4 < n"
  shows "clear_watchpoints E [0..<n] s = None"
proof -
  have n4: "[0..<n] = [0..<4] @ 4 # [5..<n]" using n upt_add_eq_append [of 0 4 "n - 4"] by (simp add: upt_conv_Cons)
  from clear_watchpoints_runs [OF U r l, of "[0..<4]"] obtain x s1 where s1: "clear_watchpoints E [0..<4] s = Some (Inr x, s1)"
    "cm_ready E B st s1" "length (hw_watchpoint (cm_priv s1)) = 4" by (auto simp: runs_def)
  from cm_write32_runs [OF s1(2) dwt_func_4, of 0] obtain y s2 c where s2: "cm_write32 E (CORTEXM_DWT_FUNC 4) 0 s1 = Some (Inr y, s2)"
    "moved E B st s1 c s2" by (auto simp: runs_def)
  have "set_watchpoint_flag 4 False s2 = None" using s1(3) by (simp add: set_watchpoint_flag_def set_flag_def movedD(3) [OF s2(2)])
  then show ?thesis unfolding n4 clear_watchpoints_append s1(1) by (simp add: s2(1))
qed

lemma andthen_none: "runs m R \<Longrightarrow> (\<And>x s. R x s \<Longrightarrow> f x s = None) \<Longrightarrow> andthen m f = None"
  unfolding runs_def by fastforce

text \<open>
  A core with more than four watchpoint comparators (the unit may have fifteen): the larger of the
  two numbers is taken instead of the smaller, and attaching writes a flag beyond the end of
  \<open>hw_watchpoint\<close>.
\<close>

theorem attach_overruns:
  assumes r: "cm_ready E B st s" and U: "core_units B cell keep" and room: "room_for_flags s"
    and many: "\<forall>c. CORTEXM_MAX_WATCHPOINTS < unat (drop_bit 28 (fst (cb_read B CORTEXM_DWT_CTRL c)))"
  shows "attach_units E s = None"
proof -
  define s0 where "s0 = set_priv (\<lambda>p. p\<lparr>hw_breakpoint_max := CORTEXM_MAX_BREAKPOINTS\<rparr>) s"
  have r0: "cm_ready E B st s0" unfolding s0_def by (rule cm_ready_priv [OF r]) simp_all
  show ?thesis unfolding attach_units_def s0_def [symmetric]
  proof (rule andthen_none [OF cm_read32_runs [OF r0]], simp, simp, elim conjE)
    fix v s1 assume m1: "moved E B st s0 (snd (cb_read B CORTEXM_FPB_CTRL (core_of st s0))) s1"
    define s2 where "s2 = set_priv (\<lambda>p. p\<lparr>hw_breakpoint_max := breakpoints_of v, flash_patch_revision := drop_bit 28 v,
      hw_watchpoint_max := CORTEXM_MAX_WATCHPOINTS\<rparr>) s1"
    have r2: "cm_ready E B st s2" unfolding s2_def by (rule cm_ready_priv [OF movedD(1) [OF m1]]) simp_all
    show "(let s = set_priv (\<lambda>p. p\<lparr>hw_breakpoint_max := breakpoints_of v, flash_patch_revision := drop_bit 28 v,
                hw_watchpoint_max := CORTEXM_MAX_WATCHPOINTS\<rparr>) s1
       in andthen (cm_read32 E CORTEXM_DWT_CTRL s) (\<lambda>r s.
          let s = set_priv (\<lambda>p. p\<lparr>hw_watchpoint_max := watchpoints_of r\<rparr>) s
          in andthen (clear_breakpoints E [0..<hw_breakpoint_max (cm_priv s)] s) (\<lambda>x s.
             andthen (clear_watchpoints E [0..<hw_watchpoint_max (cm_priv s)] s) (\<lambda>x.
             cm_write32 E CORTEXM_FPB_CTRL 3)))) = None"
      unfolding Let_def s2_def [symmetric]
    proof (rule andthen_none [OF cm_read32_runs [OF r2]], simp, simp, elim conjE)
      fix y s3 assume y: "y = fst (cb_read B CORTEXM_DWT_CTRL (core_of st s2))" and m3: "moved E B st s2 (snd (cb_read B CORTEXM_DWT_CTRL (core_of st s2))) s3"
      define s4 where "s4 = set_priv (\<lambda>p. p\<lparr>hw_watchpoint_max := watchpoints_of y\<rparr>) s3"
      have r4: "cm_ready E B st s4" unfolding s4_def by (rule cm_ready_priv [OF movedD(1) [OF m3]]) simp_all
      have p4: "length (hw_breakpoint (cm_priv s4)) = 8" "length (hw_watchpoint (cm_priv s4)) = 4"
        "hw_breakpoint_max (cm_priv s4) \<le> 8" "4 < hw_watchpoint_max (cm_priv s4)"
        using room breakpoints_of_le [of v] many
        by (simp_all add: room_for_flags_def s4_def movedD [OF m3] s2_def movedD [OF m1] s0_def y CORTEXM_MAX_WATCHPOINTS_def watchpoints_of_def Let_def)
      show "andthen (clear_breakpoints E [0..<hw_breakpoint_max (cm_priv (set_priv (\<lambda>p. p\<lparr>hw_watchpoint_max := watchpoints_of y\<rparr>) s3))]
          (set_priv (\<lambda>p. p\<lparr>hw_watchpoint_max := watchpoints_of y\<rparr>) s3)) (\<lambda>x s.
             andthen (clear_watchpoints E [0..<hw_watchpoint_max (cm_priv s)] s) (\<lambda>x.
             cm_write32 E CORTEXM_FPB_CTRL 3)) = None"
        unfolding s4_def [symmetric]
      proof (rule andthen_none [OF clear_breakpoints_runs [OF U r4 p4(1)]], use p4(3) in simp, elim conjE exE)
        fix x s5 u assume s5: "cm_ready E B st s5" "cm_priv s5 = cm_priv s4\<lparr>hw_breakpoint := u\<rparr>"
        have "clear_watchpoints E [0..<hw_watchpoint_max (cm_priv s5)] s5 = None"
          by (rule clear_watchpoints_overrun [OF s5(1) U]) (simp_all add: s5(2) p4)
        then show "andthen (clear_watchpoints E [0..<hw_watchpoint_max (cm_priv s5)] s5) (\<lambda>x. cm_write32 E CORTEXM_FPB_CTRL 3) = None" by simp
      qed
    qed
  qed
qed

subsection \<open>A port in front of a core\<close>

text \<open>A port that performs every access, and a core whose bus is plain memory but for the transfer
  registers and the number of watchpoint comparators.\<close>

definition core_access :: "'c core_bus \<Rightarrow> bool \<Rightarrow> u16 \<Rightarrow> u32 \<Rightarrow> 'c core_port \<Rightarrow> ('c core_port, u32) outcome" where
  "core_access B RnW addr v p =
     (if addr = DP_SELECT then return 0 (p\<lparr>cp_select := v\<rparr>)
      else if addr = AP_CSW then return 0 (p\<lparr>cp_csw := v\<rparr>)
      else if addr = AP_TAR then return 0 (p\<lparr>cp_tar := v\<rparr>)
      else if addr = DP_RDBUFF then return (cp_posted p) p
      else if addr = AP_DRW then
        if RnW then case cb_read B (cp_tar p AND NOT 3) (cp_core p) of (z, c) \<Rightarrow>
          return (cp_posted p) (p\<lparr>cp_core := c, cp_tar := tar_next (cp_tar p) (cp_size p), cp_posted := z\<rparr>)
        else if cp_size p = 2 then return 0 (p\<lparr>cp_core := cb_write B (cp_tar p) v (cp_core p), cp_tar := tar_next (cp_tar p) 2\<rparr>)
        else return 0 (p\<lparr>cp_core := cb_part B (cp_tar p) (map (\<lambda>i. byte_lane v (lane (cp_tar p) + i)) [0..<2 ^ cp_size p]) (cp_core p),
               cp_tar := tar_next (cp_tar p) (cp_size p)\<rparr>)
      else
        let n = unat (drop_bit 2 (addr - 0x110))
        in if RnW then case cb_read B (bank_addr p n) (cp_core p) of (z, c) \<Rightarrow> return (cp_posted p) (p\<lparr>cp_core := c, cp_posted := z\<rparr>)
           else return 0 (p\<lparr>cp_core := cb_write B (bank_addr p n) v (cp_core p)\<rparr>))"

definition core_dp :: "'c core_bus \<Rightarrow> 'c core_port dp_ops" where
  "core_dp B = \<lparr>dp_low_access = core_access B,
     dp_read = (\<lambda>addr w. andthen (core_access B True addr 0 w) (\<lambda>x. core_access B True DP_RDBUFF 0)),
     dp_error = (\<lambda>w. return (if cp_fault w then 1 else 0) (w\<lparr>cp_fault := False\<rparr>)), dp_abort = (\<lambda>x. return ())\<rparr>"

lemma AP_DB_index: "n < 4 \<Longrightarrow> unat (drop_bit 2 (AP_DB n - 0x110)) = n"
  unfolding less_4 by (elim disjE) (simp_all add: AP_DB_def drop_bit_eq_div)

lemma core_dp_access:
  assumes "core_step B a RnW addr v w x q"
  shows "\<exists>x w'. core_access B RnW addr v w = Some (Inr x, w') \<and> core_step B a RnW addr v w x w'"
  using assms
proof cases
  case (select y)
  then show ?thesis by (auto simp: core_access_def return_def intro: exI [of _ "cp_posted w"])
next
  case (csw y)
  then show ?thesis by (auto simp: core_access_def return_def intro: exI [of _ "cp_posted w"])
next
  case (tar y)
  then show ?thesis by (auto simp: core_access_def return_def intro: exI [of _ "cp_posted w"])
next
  case (drw_write y)
  then show ?thesis by (auto simp: core_access_def return_def intro: exI [of _ "cp_posted w"])
next
  case (drw_part y)
  have "core_step B a False AP_DRW v w 0 (w\<lparr>cp_core := cb_part B (cp_tar w) (map (\<lambda>i. byte_lane v (lane (cp_tar w) + i)) [0..<2 ^ cp_size w]) (cp_core w),
      cp_tar := tar_next (cp_tar w) (cp_size w), cp_posted := cp_posted w\<rparr>)"
    using drw_part by (intro core_step.drw_part) simp_all
  moreover have "core_access B False AP_DRW v w = Some (Inr 0, w\<lparr>cp_core := cb_part B (cp_tar w) (map (\<lambda>i. byte_lane v (lane (cp_tar w) + i)) [0..<2 ^ cp_size w]) (cp_core w),
      cp_tar := tar_next (cp_tar w) (cp_size w), cp_posted := cp_posted w\<rparr>)"
    using drw_part by (simp add: core_access_def return_def)
  ultimately show ?thesis using drw_part by blast
next
  case (drw_read z c y)
  then have "core_step B a True AP_DRW v w (cp_posted w) (w\<lparr>cp_core := c, cp_tar := tar_next (cp_tar w) (cp_size w), cp_posted := z\<rparr>)"
    by (intro core_step.drw_read [where z = z]) (simp_all add: lanes_of_def)
  moreover have "core_access B True AP_DRW v w = Some (Inr (cp_posted w), w\<lparr>cp_core := c, cp_tar := tar_next (cp_tar w) (cp_size w), cp_posted := z\<rparr>)"
    using drw_read by (simp add: core_access_def return_def)
  ultimately show ?thesis using drw_read by blast
next
  case (db_write n y)
  have "core_step B a False (AP_DB n) v w 0 (w\<lparr>cp_core := cb_write B (bank_addr w n) v (cp_core w), cp_posted := cp_posted w\<rparr>)"
    using db_write by (intro core_step.db_write) simp_all
  then show ?thesis using db_write AP_DB_neq [of n, symmetric] by (auto simp: core_access_def return_def AP_DB_index Let_def)
next
  case (db_read n y c)
  have "core_step B a True (AP_DB n) v w (cp_posted w) (w\<lparr>cp_core := c, cp_posted := y\<rparr>)"
    using db_read by (intro core_step.db_read) simp_all
  then show ?thesis using db_read AP_DB_neq [of n, symmetric] by (auto simp: core_access_def return_def AP_DB_index Let_def)
next
  case rdbuff
  then have "core_step B a True DP_RDBUFF v w (cp_posted w) (w\<lparr>cp_posted := cp_posted w\<rparr>)" by (intro core_step.rdbuff)
  then have "core_step B a True DP_RDBUFF v w (cp_posted w) w" by (simp del: core_step_simps)
  with rdbuff show ?thesis by (simp add: core_access_def return_def del: core_step_simps)
qed

lemma core_dp_ok: "core_port_ok B a (core_dp B) id"
proof -
  have "\<exists>y z. w\<lparr>cp_fault := False\<rparr> = w\<lparr>cp_posted := y, cp_select := z\<rparr>" if "\<not> cp_fault w" for w :: "'a core_port"
    using that by (intro exI [of _ "cp_posted w"] exI [of _ "cp_select w"]) (cases w, simp)
  then show ?thesis unfolding core_port_ok_def core_dp_def by (auto simp: return_def dest: core_dp_access)
qed

type_synonym demo_core = "(u32 \<Rightarrow> u32) \<times> (u32 \<Rightarrow> u32) \<times> u32" \<comment> \<open>memory, registers, data register\<close>

definition demo_bus :: "u32 \<Rightarrow> demo_core core_bus" where
  "demo_bus dwt = \<lparr>cb_read = (\<lambda>a (m, r, d). (if a = CORTEXM_DCRDR then d else if a = CORTEXM_DWT_CTRL then dwt else if a = CORTEXM_DHCSR then 0x30003 else m a, (m, r, d))),
     cb_write = (\<lambda>a v (m, r, d). if a = CORTEXM_DCRDR then (m, r, v)
       else if a = CORTEXM_DCRSR then if v AND 0x10000 \<noteq> 0 then (m, r(v AND 0x7F := d), d) else (m, r, r (v AND 0x7F))
       else (m(a := v), r, d)),
     cb_part = (\<lambda>a bs c. c)\<rparr>"

definition demo_regs :: "demo_core \<Rightarrow> u32 \<Rightarrow> u32" where "demo_regs c = fst (snd c)"
definition demo_dat :: "demo_core \<Rightarrow> u32" where "demo_dat c = snd (snd c)"
definition demo_cells :: "demo_core \<Rightarrow> u32 \<Rightarrow> u32" where "demo_cells c = fst c"

lemma regsel_bits:
  assumes "n < (0x80 :: u32)"
  shows "n AND 0x7F = n" "n AND 0x10000 = 0" "(0x10000 OR n) AND 0x7F = n" "(0x10000 OR n) AND 0x10000 = 0x10000"
proof -
  have m: "(0x7F :: u32) = mask 7" by (simp add: mask_numeral)
  have "unat n < 2 ^ 7" using assms by (simp add: word_less_nat_alt)
  then have "unat (take_bit 7 n) = unat n" by (simp only: unat_take_bit) simp
  then have t: "take_bit 7 n = n" by (simp only: word_unat_eq_iff)
  then show 1: "n AND 0x7F = n" unfolding m by (simp only: take_bit_eq_mask)
  have "n AND 0x10000 = (n AND 0x7F) AND 0x10000" using 1 by simp
  also have "\<dots> = n AND (0x7F AND 0x10000)" by (simp only: and.assoc)
  finally show 2: "n AND 0x10000 = 0" by simp
  show "(0x10000 OR n) AND 0x7F = n" "(0x10000 OR n) AND 0x10000 = 0x10000" using 1 2 by (simp_all add: word_ao_dist)
qed

lemma demo_registers: "core_registers (demo_bus dwt) demo_regs demo_dat (\<lambda>n v. v) (=)"
proof -
  have "CORTEXM_DCRSR \<noteq> CORTEXM_DCRDR" by (simp add: CORTEXM_DCRSR_def CORTEXM_DCRDR_def)
  then show ?thesis unfolding core_registers_def
    by (auto simp: demo_bus_def demo_regs_def demo_dat_def regsel_bits split: prod.splits)
qed

lemma demo_units: "core_units (demo_bus dwt) demo_cells (\<lambda>a v. v)"
proof -
  have "CORTEXM_DCRDR \<notin> unit_regs" "CORTEXM_DCRSR \<notin> unit_regs"
    by (auto simp: unit_regs_def word_unat_eq_iff unat_FPB unat_DWT CORTEXM_DCRDR_def CORTEXM_DCRSR_def)
  then show ?thesis unfolding core_units_def by (auto simp: demo_bus_def demo_cells_def split: prod.splits)
qed

definition demo_cm_env :: "u32 \<Rightarrow> demo_core core_port cm_env" where
  "demo_cm_env dwt = \<lparr>ce_dp = core_dp (demo_bus dwt), ce_set_fault = (\<lambda>w. w\<lparr>cp_fault := True\<rparr>), ce_clock = (\<lambda>w. (0, w)),
     ce_delay = (\<lambda>n w. w), ce_srst_set_val = (\<lambda>b w. w), ce_extended_reset = None, ce_printf = (\<lambda>t w. w), ce_list_free = return ()\<rparr>"

definition demo_cm :: "(u32 \<Rightarrow> u32) \<Rightarrow> (u32 \<Rightarrow> u32) \<Rightarrow> demo_core core_port cortexm" where
  "demo_cm m r = \<lparr>cm_ap = demo_ap, cm_priv = \<lparr>stepping = False, on_bkpt = False, hw_watchpoint = replicate 4 False, flash_patch_revision = 0,
       hw_watchpoint_max = 0, hw_breakpoint = replicate 8 False, hw_breakpoint_max = 0, demcr = 0, has_cache = False, dcache_minline = 0\<rparr>,
     cm_options = 0, cm_ram = [], cm_cmdline = [], cm_heapinfo = [], cm_interrupted = False, cm_errno = 0, cm_time0_sec = 0,
     cm_world = \<lparr>cp_fault = False, cp_select = 0, cp_csw = 0, cp_tar = 0, cp_posted = 0, cp_core = (m, r, 0)\<rparr>\<rparr>"

lemma demo_ready: "cm_ready (demo_cm_env dwt) (demo_bus dwt) id (demo_cm m r)"
  unfolding cm_ready_def ram_below_ppb_def demo_cm_env_def demo_cm_def by (simp add: core_dp_ok demo_ap_def)

lemma demo_attach:
  "room_for_flags (demo_cm m r)" "reconnects (demo_cm_env dwt) id" "keeps_units (demo_cm_env dwt) id demo_cells"
  "drop_bit 28 dwt = 4 \<Longrightarrow> few_watchpoints (demo_bus dwt)"
proof -
  show "reconnects (demo_cm_env dwt) id" by (auto simp: reconnects_def demo_cm_env_def core_dp_def cp_idle_def intro!: runs_return)
  show "drop_bit 28 dwt = 4 \<Longrightarrow> few_watchpoints (demo_bus dwt)"
    by (auto simp: few_watchpoints_def demo_bus_def watchpoints_of_def CORTEXM_MAX_WATCHPOINTS_def CORTEXM_DWT_CTRL_def CORTEXM_DCRDR_def split: prod.splits)
qed (simp_all add: room_for_flags_def demo_cm_def keeps_units_def demo_cm_env_def same_cells_def)


theorem comparators_exact_witness:
  "\<exists>b s0. cortexm_attach (demo_cm_env 0x40000000) (demo_cm (\<lambda>a. 0) (\<lambda>n. 0)) = Some (Inr b, s0) \<and>
    (\<forall>sL. (bw_step (demo_cm_env 0x40000000))\<^sup>*\<^sup>* (s0, []) sL \<longrightarrow>
       units_ok (demo_cm_env 0x40000000) (demo_bus 0x40000000) id demo_cells (\<lambda>a v. v) sL)"
proof -
  let ?E = "demo_cm_env 0x40000000" and ?B = "demo_bus 0x40000000" and ?s = "demo_cm (\<lambda>a. 0) (\<lambda>n. 0)"
  have few: "few_watchpoints ?B" by (rule demo_attach(4)) (simp add: drop_bit_eq_div)
  from attach_prefix [OF demo_ready demo_units demo_attach(1) few demo_attach(2)] obtain x s' c where
    eq: "cortexm_attach ?E ?s = attach_tail ?E x s'" "x = fst (cb_read ?B CORTEXM_DHCSR c)" by blast
  have "x = 0x30003" unfolding eq(2) by (simp add: demo_bus_def CORTEXM_DHCSR_def CORTEXM_DCRDR_def CORTEXM_DWT_CTRL_def split: prod.splits)
  then have "\<exists>b s0. attach_tail ?E x s' = Some (Inr b, s0)" by (auto simp: attach_tail_def DHCSR_S_RESET_ST_def return_def)
  then obtain b s0 where run: "cortexm_attach ?E ?s = Some (Inr b, s0)" using eq by auto
  have "units_ok ?E ?B id demo_cells (\<lambda>a v. v) sL" if "(bw_step ?E)\<^sup>*\<^sup>* (s0, []) sL" for sL
  proof (cases sL)
    case (Pair s L)
    from comparators_exact [OF demo_ready demo_units demo_attach(1) few demo_attach(2,3) run, of s L] that Pair show ?thesis by simp
  qed
  then show ?thesis using run by blast
qed

theorem attach_overruns_witness:
  "attach_units (demo_cm_env 0xF0000000) (demo_cm (\<lambda>a. 0) (\<lambda>n. 0)) = None"
proof (rule attach_overruns [OF demo_ready demo_units demo_attach(1)])
  have "unat (drop_bit 28 (0xF0000000 :: u32)) = 15" by (simp add: drop_bit_eq_div unat_div)
  then show "\<forall>c. CORTEXM_MAX_WATCHPOINTS < unat (drop_bit 28 (fst (cb_read (demo_bus 0xF0000000) CORTEXM_DWT_CTRL c)))"
    by (simp add: demo_bus_def CORTEXM_MAX_WATCHPOINTS_def CORTEXM_DWT_CTRL_def CORTEXM_DCRDR_def split: prod.splits)
qed

end
