(* ===== verification/Cortexm_Probe.thy ===== *)
theory Cortexm_Probe
  imports Cortexm_Units
begin

text \<open>
  \<open>cortexm_probe\<close> of \<open>src/src/target/cortexm.c\<close>: the new target, what is read from the core, and which
  device drivers are asked, in which order, for the designer and the part of the access port.
\<close>

unbundle bit_operations_syntax

subsection \<open>The drivers for a part\<close>

datatype cm_driver = kinetis | stm32f1 | gd32f1 | stm32f4 | stm32h7 | stm32l0 | stm32l4 | stm32g0 | nrf51 | sam4l | samd | samx5x
  | efm32 | msp432 | lpc11xx | rp | lpc15xx | lpc43xx | lpc546xx | sam3x | lmi | ke04 | lpc17xx

text \<open>Whether a part of a designer not listed by name gets drivers for its ROM table first. The second test
  of \<open>0x4c0\<close> is never reached.\<close>

definition rom_drivers :: "u16 \<Rightarrow> u32 \<Rightarrow> cm_driver list" where
  "rom_drivers partno targetid =
     (if partno = 0x4C0 then (if targetid AND 0xFFF = 0x927 then [rp] else []) @ [lpc11xx]
      else if partno = 0x4C3 then [stm32f1, lpc15xx]
      else if partno = 0x471 then [lpc11xx, lpc43xx]
      else if partno = 0x4C4 then [lpc546xx, lpc43xx, kinetis]
      else if partno = 0x4CB then [gd32f1]
      else if partno = 0x4C0 then [lpc11xx]
      else [])"

definition drivers_for :: "u16 \<Rightarrow> u16 \<Rightarrow> u32 \<Rightarrow> cm_driver list" where
  "drivers_for designer partno targetid =
     (if designer = 0x00E then [kinetis]
      else if designer = 0x555 then [stm32f1]
      else if designer = 0x751 then [gd32f1]
      else if designer = 0x020 then [stm32f1, stm32f4, stm32h7, stm32l0, stm32l4, stm32g0]
      else if designer = 0x034 then []
      else if designer = 0x041 then []
      else if designer = 0x244 then [nrf51]
      else if designer = 0x01F then [sam4l, samd, samx5x]
      else if designer = 0x673 then [efm32]
      else if designer = 0x017 then [msp432]
      else if designer = 0x501 then [lpc11xx]
      else rom_drivers partno targetid @ [sam3x, lmi, ke04, lpc17xx])"

definition named_designers :: "u16 set" where
  "named_designers = {0x00E, 0x555, 0x751, 0x020, 0x034, 0x041, 0x244, 0x01F, 0x673, 0x017, 0x501}"

subsection \<open>The probe\<close>

text \<open>What the probe sets in the target besides the state of \<open>cortexm\<close>. A flash region has the methods of
  the driver that added it.\<close>

record chip_flash =
  cf_start :: u32
  cf_length :: u32
  cf_blocksize :: u32
  cf_buf_size :: u32
  cf_erased :: u8
  cf_driver :: cm_driver

record cm_info =
  ci_designer :: u16
  ci_idcode :: u16
  ci_driver :: "u8 list"
  ci_cpuid :: u32
  ci_core :: "u8 list option"
  ci_regs_size :: nat
  ci_tdesc_fp :: bool
  ci_flash :: "chip_flash list"

type_synonym 'w cm_target = "'w cortexm \<times> cm_info"

text \<open>\<open>target_new\<close> and the allocation of the private data (whether they succeed), the reference to the debug
  port, the list of monitor commands, the console, the drivers, and the identification of the debug port.\<close>

record 'w probe_env =
  pe_cm :: "'w cm_env"
  pe_target_new :: "'w \<Rightarrow> bool \<times> 'w"
  pe_alloc :: "'w \<Rightarrow> bool \<times> 'w"
  pe_dp_ref :: "'w \<Rightarrow> 'w"
  pe_add_commands :: "u8 list \<Rightarrow> 'w \<Rightarrow> 'w"
  pe_outf :: "u8 list \<Rightarrow> 'w \<Rightarrow> 'w"
  pe_driver :: "cm_driver \<Rightarrow> 'w cm_target \<Rightarrow> ('w cm_target, bool) outcome"
  pe_targetid :: u32

definition on_target :: "('w cortexm \<Rightarrow> ('w cortexm, 'a) outcome) \<Rightarrow> 'w cm_target \<Rightarrow> ('w cm_target, 'a) outcome" where
  "on_target f t = (case f (fst t) of None \<Rightarrow> None | Some (r, s) \<Rightarrow> Some (r, (s, snd t)))"

fun probe_drivers :: "'w probe_env \<Rightarrow> cm_driver list \<Rightarrow> 'w cm_target \<Rightarrow> ('w cm_target, bool) outcome" where
  "probe_drivers Pe [] t = return False t"
| "probe_drivers Pe (d # ds) t =
     andthen (pe_driver Pe d t) (\<lambda>ok t.
       if ok then return True t
       else andthen (on_target (cortexm_check_error (pe_cm Pe)) t) (\<lambda>e. probe_drivers Pe ds))"

definition core_name :: "u32 \<Rightarrow> u8 list option" where
  "core_name cpuid =
     (let p = cpuid AND 0xFFF0
      in if p = 0xD210 then Some (str ''M33'') else if p = 0xD200 then Some (str ''M23'')
         else if p = 0xC230 then Some (str ''M3'') else if p = 0xC240 then Some (str ''M4'')
         else if p = 0xC270 then Some (str ''M7'') else if p = 0xC600 then Some (str ''M0+'')
         else if p = 0xC200 then Some (str ''M0'') else None)"

definition new_priv :: cortexm_priv where \<comment> \<open>a new block is zero\<close>
  "new_priv = \<lparr>stepping = False, on_bkpt = False, hw_watchpoint = replicate CORTEXM_MAX_WATCHPOINTS False, flash_patch_revision = 0,
     hw_watchpoint_max = 0, hw_breakpoint = replicate CORTEXM_MAX_BREAKPOINTS False, hw_breakpoint_max = 0,
     demcr = 0, has_cache = False, dcache_minline = 0\<rparr>"

definition new_cortexm :: "adiv5_ap \<Rightarrow> 'w \<Rightarrow> 'w cortexm" where
  "new_cortexm ap w = \<lparr>cm_ap = ap, cm_priv = new_priv, cm_options = 0, cm_ram = [], cm_cmdline = [], cm_heapinfo = [0, 0, 0, 0],
     cm_interrupted = False, cm_errno = 0, cm_time0_sec = - 1, cm_world = w\<rparr>"

text \<open>The floating-point extension: whether the access rights for coprocessors 10 and 11 can be set.\<close>

definition probe_fp :: "'w cm_env \<Rightarrow> 'w cortexm \<Rightarrow> ('w cortexm, bool) outcome" where
  "probe_fp E s =
     andthen (cm_read32 E 0xE000ED88 s) (\<lambda>cpacr s.
       let cpacr = cpacr OR 0x00F00000
       in andthen (cm_write32 E 0xE000ED88 cpacr s) (\<lambda>x s.
          andthen (cm_read32 E 0xE000ED88 s) (\<lambda>v s.
            if v = cpacr then return True (s\<lparr>cm_options := cm_options s OR TOPT_FLAVOUR_V7MF\<rparr>) else return False s)))"

definition probe_cache :: "'w cm_env \<Rightarrow> 'w cortexm \<Rightarrow> ('w cortexm, unit) outcome" where
  "probe_cache E s =
     andthen (cm_read32 E 0xE000ED7C s) (\<lambda>ctr s.
       if drop_bit 29 ctr = 4 then return () (set_priv (\<lambda>p. p\<lparr>has_cache := True, dcache_minline := push_bit (unat (ctr AND 0xF)) 4\<rparr>) s)
       else andthen (cortexm_check_error E s) (\<lambda>e. return ()))"

definition fmt_3x :: "u32 \<Rightarrow> u8 list" where
  "fmt_3x v = replicate (3 - length (fmt_x v)) (ch CHR '' '') @ fmt_x v"

text \<open>The drivers, the special case of one i.MX part, the message about an unknown designer; and the resume
  at the end, which a recognised device does not reach.\<close>

definition probe_device :: "'w probe_env \<Rightarrow> 'w cm_target \<Rightarrow> ('w cm_target, bool) outcome" where
  "probe_device Pe t =
     (let designer = ap_designer (cm_ap (fst t)); partno = ap_partno (cm_ap (fst t));
          t = (if designer \<notin> named_designers \<and> designer \<noteq> 0x43B
               then (fst t\<lparr>cm_world := pe_outf Pe (str ''Please report Designer '' @ fmt_3x (ucast designer) @ str '' and Partno '' @
                       fmt_3x (ucast partno) @ str '' and the probed device'' @ [10]) (cm_world (fst t))\<rparr>, snd t) else t)
      in andthen (probe_drivers Pe (drivers_for designer partno (pe_targetid Pe)) t) (\<lambda>found t.
           if found then return True t
           else andthen
             (if designer = 0x00E \<and> partno = 0x88C
              then on_target (cortexm_halt_resume (pe_cm Pe) False) (fst t, snd t\<lparr>ci_driver := str ''MIMXRT10xx(no flash)''\<rparr>)
              else return () t)
             (\<lambda>x t. andthen (on_target (cortexm_halt_resume (pe_cm Pe) False) t) (\<lambda>x. return True))))"

text \<open>The allocations: \<open>None\<close> if one fails, with the access port and the world as they are then.\<close>

definition probe_alloc :: "'w probe_env \<Rightarrow> adiv5_ap \<Rightarrow> 'w \<Rightarrow> 'w cm_target option \<times> adiv5_ap \<times> 'w" where
  "probe_alloc Pe ap w =
     (case pe_target_new Pe w of (ok, w) \<Rightarrow>
        if \<not> ok then (None, ap, w)
        else
          let w = (if ap_refcnt ap = 0 then pe_dp_ref Pe w else w);
              ap = ap\<lparr>ap_refcnt := ap_refcnt ap + 1\<rparr>
          in case pe_alloc Pe w of (ok, w) \<Rightarrow>
            if \<not> ok then (None, ap, w)
            else (Some (new_cortexm ap w, \<lparr>ci_designer = ap_designer ap, ci_idcode = ap_partno ap, ci_driver = str ''ARM Cortex-M'',
                    ci_cpuid = 0, ci_core = None, ci_regs_size = 0, ci_tdesc_fp = False, ci_flash = []\<rparr>), ap, w))"

definition probe_target :: "'w probe_env \<Rightarrow> 'w cm_target \<Rightarrow> ('w cm_target, bool) outcome" where
  "probe_target Pe t =
     (let E = pe_cm Pe
      in andthen (on_target (cm_read32 E 0xE000ED00) t) (\<lambda>cpuid t.
         let t = (fst t\<lparr>cm_world := pe_add_commands Pe (str ''ARM Cortex-M'') (cm_world (fst t))\<rparr>,
                  snd t\<lparr>ci_cpuid := cpuid, ci_core := core_name cpuid, ci_regs_size := 80\<rparr>)
         in andthen (on_target (probe_fp E) t) (\<lambda>fp t.
            let t = (set_priv (\<lambda>p. p\<lparr>demcr := 0x01000401\<rparr>) (fst t),
                     if fp then snd t\<lparr>ci_regs_size := 80 + 132, ci_tdesc_fp := True\<rparr> else snd t)
            in andthen (on_target (probe_cache E) t) (\<lambda>x.
               probe_device Pe))))"

text \<open>\<open>Inl\<close>: no target was made (the probe returns false).\<close>

definition cortexm_probe :: "'w probe_env \<Rightarrow> adiv5_ap \<Rightarrow> 'w \<Rightarrow> adiv5_ap \<times> 'w + ('w cm_target, bool) outcome" where
  "cortexm_probe Pe ap w =
     (case probe_alloc Pe ap w of
        (None, ap, w) \<Rightarrow> Inl (ap, w)
      | (Some t, ap, w) \<Rightarrow> Inr (probe_target Pe t))"

subsection \<open>The target that a probe leaves\<close>

text \<open>What an operation without a contract on the port leaves as it is: everything but the world.\<close>

definition only_world :: "'w cortexm \<Rightarrow> 'w cortexm \<Rightarrow> bool" where
  "only_world s s' \<longleftrightarrow> (\<exists>w. s' = s\<lparr>cm_world := w\<rparr>)"

lemma only_world_refl [simp, intro]: "only_world s s"
  unfolding only_world_def by (rule exI [of _ "cm_world s"]) simp

lemma only_world_trans: "only_world s s' \<Longrightarrow> only_world s' s'' \<Longrightarrow> only_world s s''"
  unfolding only_world_def by auto

lemma only_worldD:
  "only_world s s' \<Longrightarrow> cm_priv s' = cm_priv s \<and> cm_options s' = cm_options s \<and> cm_ap s' = cm_ap s \<and> cm_ram s' = cm_ram s"
  unfolding only_world_def by auto

abbreviation frames :: "'w cortexm \<Rightarrow> ('w cortexm, 'a) outcome \<Rightarrow> bool" where
  "frames s m \<equiv> after (\<lambda>x s'. only_world s s') m"

lemma frames_on_cm: "frames s (on_cm f s)"
  by (auto simp: after_def on_cm_def only_world_def split: option.splits)

lemma frames_andthen: "frames s m \<Longrightarrow> (\<And>x s'. frames s' (f x s')) \<Longrightarrow> frames s (andthen m f)"
  by (rule after_andthen, assumption) (auto simp: after_def intro: only_world_trans)

lemma frames_access:
  "frames s (cortexm_cache_clean E a n b s)" "frames s (cortexm_mem_read E a n s)" "frames s (cortexm_mem_write E a bs s)"
  "frames s (cm_read32 E a s)" "frames s (cm_read16 E a s)" "frames s (cm_write32 E a v s)" "frames s (cortexm_check_error E s)"
proof -
  show c: "frames s (cortexm_cache_clean E a n b s)" for s n b by (simp add: cortexm_cache_clean_def frames_on_cm after_basic)
  show r: "frames s (cortexm_mem_read E a n s)" for s n unfolding cortexm_mem_read_def by (intro frames_andthen c frames_on_cm)
  show w: "frames s (cortexm_mem_write E a bs s)" for s bs unfolding cortexm_mem_write_def by (intro frames_andthen c frames_on_cm)
  show "frames s (cm_read32 E a s)" unfolding cm_read32_def by (intro frames_andthen r) (simp add: after_basic)
  show "frames s (cm_read16 E a s)" unfolding cm_read16_def by (intro frames_andthen r) (simp add: after_basic)
  show "frames s (cm_write32 E a v s)" unfolding cm_write32_def by (rule w)
  show "frames s (cortexm_check_error E s)" unfolding cortexm_check_error_def by (intro frames_andthen frames_on_cm) (simp add: after_basic)
qed

text \<open>The target is well formed: the size of the register image is that of the registers, the description
  for GDB has the floating-point registers iff the transfers have them, the arrays of flags are complete,
  and a cache line is a power of two between 4 bytes and 128 kilobytes.\<close>

definition wf_target :: "'w cm_target \<Rightarrow> bool" where
  "wf_target t \<longleftrightarrow> (case t of (s, info) \<Rightarrow>
     ci_regs_size info = 4 * cm_regs_count s \<and> (ci_tdesc_fp info \<longleftrightarrow> has_fp s) \<and> room_for_flags s \<and>
     (has_cache (cm_priv s) \<longrightarrow> (\<exists>k < 16. dcache_minline (cm_priv s) = push_bit k 4)))"

text \<open>What the probe assumes of the drivers: they leave a well-formed target.\<close>

definition drivers_ok :: "'w probe_env \<Rightarrow> bool" where
  "drivers_ok Pe \<longleftrightarrow> (\<forall>d t. wf_target t \<longrightarrow> after (\<lambda>ok t'. wf_target t') (pe_driver Pe d t))"

lemma after_on_target: "after (\<lambda>x s. Q x (s, snd t)) (f (fst t)) \<Longrightarrow> after Q (on_target f t)"
  by (auto simp: after_def on_target_def split: option.splits)

lemma after_mono: "after R m \<Longrightarrow> (\<And>x s. R x s \<Longrightarrow> Q x s) \<Longrightarrow> after Q m"
  by (auto simp: after_def)

lemma wf_target_world: "wf_target t \<Longrightarrow> only_world (fst t) s \<Longrightarrow> wf_target (s, snd t)"
  by (cases t) (auto simp: wf_target_def cm_regs_count_def cm_regnums_def has_fp_def room_for_flags_def dest!: only_worldD)

lemma wf_target_frames: "wf_target t \<Longrightarrow> (\<And>s. frames s (f s)) \<Longrightarrow> after (\<lambda>x t'. wf_target t') (on_target f t)"
  by (rule after_on_target, rule after_mono, assumption) (rule wf_target_world)

lemma wf_target_drivers:
  assumes "drivers_ok Pe"
  shows "wf_target t \<Longrightarrow> after (\<lambda>ok t'. wf_target t') (probe_drivers Pe ds t)"
proof (induction ds arbitrary: t)
  case (Cons d ds)
  have d: "after (\<lambda>ok t'. wf_target t') (pe_driver Pe d t)" using assms Cons.prems unfolding drivers_ok_def by blast
  show ?case unfolding probe_drivers.simps
    by (intro after_andthen [OF d] after_if after_andthen [OF wf_target_frames [OF _ frames_access(7)]] Cons.IH)
      (simp_all add: after_basic)
qed (simp add: after_basic)

lemma priv_update_frames:
  "after (\<lambda>x s'. \<exists>f. only_world (set_priv (\<lambda>p. p\<lparr>stepping := f\<rparr>) s) s') (cortexm_halt_resume E step s)"
proof -
  have pc: "frames s (cortexm_pc_read E s)" "frames s (cortexm_pc_write E v s)" for s v
    unfolding cortexm_pc_read_def cortexm_pc_write_def by (intro frames_andthen frames_access)+
  have same: "set_priv (\<lambda>p. p\<lparr>stepping := stepping (cm_priv s)\<rparr>) s = s" for s :: "'a cortexm" by (simp add: set_priv_def)
  have rest: "frames s (andthen (if on_bkpt (cm_priv s) then andthen (cortexm_pc_read E s) (\<lambda>pc s.
        andthen (cm_read16 E pc s) (\<lambda>instr s. if instr AND 0xFF00 = 0xBE00 then cortexm_pc_write E (pc + 2) s else return () s))
      else return () s) (\<lambda>x s. andthen (if has_cache (cm_priv s) then cm_write32 E CORTEXM_ICIALLU 0 s else return () s) (\<lambda>x. cm_write32 E CORTEXM_DHCSR v)))" for s v
    by (intro frames_andthen after_if pc frames_access) (simp_all add: after_basic)
  let ?Q = "\<lambda>s'. \<exists>f. only_world (set_priv (\<lambda>p. p\<lparr>stepping := f\<rparr>) s) s'"
  have "after (\<lambda>x s'. ?Q s') (if step \<noteq> stepping (cm_priv s)
      then andthen (cm_write32 E CORTEXM_DHCSR v s) (\<lambda>x s. return () (set_priv (\<lambda>p. p\<lparr>stepping := step\<rparr>) s)) else return () s)" for v
  proof (rule after_if)
    show "after (\<lambda>x s'. ?Q s') (andthen (cm_write32 E CORTEXM_DHCSR v s) (\<lambda>x s. return () (set_priv (\<lambda>p. p\<lparr>stepping := step\<rparr>) s)))"
    proof (rule after_andthen [OF frames_access(6)], rule after_basic(2), rule exI [of _ step])
      fix s' assume "only_world s s'"
      then obtain w where "s' = s\<lparr>cm_world := w\<rparr>" by (auto simp: only_world_def)
      then show "only_world (set_priv (\<lambda>p. p\<lparr>stepping := step\<rparr>) s) (set_priv (\<lambda>p. p\<lparr>stepping := step\<rparr>) s')"
        unfolding only_world_def by (intro exI [of _ w]) (simp add: set_priv_def)
    qed
    show "after (\<lambda>x s'. ?Q s') (return () s)"
      by (intro after_basic exI [of _ "stepping (cm_priv s)"]) (simp add: same)
  qed
  then show ?thesis unfolding cortexm_halt_resume_def Let_def
    by (rule after_andthen) (rule after_mono [OF rest], blast intro: only_world_trans)
qed

lemma fp_option: "(options OR TOPT_FLAVOUR_V7MF) AND TOPT_FLAVOUR_V7MF \<noteq> 0"
  by (simp add: TOPT_FLAVOUR_V7MF_def word_ao_dist)

lemma probe_fp_after:
  assumes "\<not> has_fp s"
  shows "after (\<lambda>fp s'. (fp \<longleftrightarrow> has_fp s') \<and> cm_priv s' = cm_priv s) (probe_fp E s)"
proof -
  have fin: "after (\<lambda>fp s'. (fp \<longleftrightarrow> has_fp s') \<and> cm_priv s' = cm_priv s)
      (if v = c then return True (s3\<lparr>cm_options := cm_options s3 OR TOPT_FLAVOUR_V7MF\<rparr>) else return False s3)" if "only_world s s3" for v c s3
    using assms only_worldD [OF that] fp_option [of "cm_options s3"] by (simp add: has_fp_def after_basic)
  show ?thesis unfolding probe_fp_def Let_def
    by (rule after_andthen [OF frames_access(4)], rule after_andthen [OF frames_access(6)], rule after_andthen [OF frames_access(4)], rule fin)
      (blast intro: only_world_trans)
qed

lemma wf_resume: "wf_target t \<Longrightarrow> after (\<lambda>x t'. wf_target t') (on_target (cortexm_halt_resume E step) t)"
proof (rule after_on_target, rule after_mono [OF priv_update_frames], elim exE)
  fix x s f assume t: "wf_target t" and w: "only_world (set_priv (\<lambda>p. p\<lparr>stepping := f\<rparr>) (fst t)) s"
  have "wf_target (set_priv (\<lambda>p. p\<lparr>stepping := f\<rparr>) (fst t), snd t)"
    using t by (cases t) (simp add: wf_target_def cm_regs_count_def cm_regnums_def has_fp_def room_for_flags_def)
  from wf_target_world [OF this] w show "wf_target (s, snd t)" by simp
qed

lemma wf_info: "wf_target (s, info) \<Longrightarrow> wf_target (s, info\<lparr>ci_driver := d\<rparr>)"
  by (simp add: wf_target_def)

lemma wf_device:
  assumes "drivers_ok Pe" and "wf_target t"
  shows "after (\<lambda>x t'. wf_target t') (probe_device Pe t)"
proof -
  have o: "wf_target (if b then (fst t\<lparr>cm_world := w\<rparr>, snd t) else t)" for b w
    using assms(2) wf_target_world [OF assms(2), of "fst t\<lparr>cm_world := w\<rparr>"] by (auto simp: only_world_def)
  have i: "wf_target t \<Longrightarrow> wf_target (fst t, snd t\<lparr>ci_driver := d\<rparr>)" for t :: "'a cm_target" and d
    by (cases t) (simp add: wf_info)
  show ?thesis unfolding probe_device_def Let_def
    by (intro after_andthen [OF wf_target_drivers [OF assms(1) o]] after_if after_andthen [OF after_if] after_andthen [OF wf_resume] wf_resume i)
      (simp_all add: after_basic wf_resume i)
qed

lemma wf_cache:
  assumes "wf_target t"
  shows "after (\<lambda>x t'. wf_target t') (on_target (probe_cache E) t)"
proof (rule after_on_target, unfold probe_cache_def, rule after_andthen [OF frames_access(4)], rule after_if)
  fix ctr :: u32 and s assume "only_world (fst t) s"
  from wf_target_world [OF assms this] have wf: "wf_target (s, snd t)" .
  show "after (\<lambda>x s. wf_target (s, snd t)) (andthen (cortexm_check_error E s) (\<lambda>e. return ()))"
    by (rule after_andthen [OF frames_access(7)], rule after_basic) (use wf_target_world [OF wf] in simp)
  have "unat (ctr AND 0xF) < 16"
  proof -
    have "ctr AND 0xF = take_bit 4 ctr" by (simp add: take_bit_eq_mask mask_numeral)
    then show ?thesis using unat_take_bit [of 4 ctr] by simp
  qed
  then have "wf_target (set_priv (\<lambda>p. p\<lparr>has_cache := True, dcache_minline := push_bit (unat (ctr AND 0xF)) 4\<rparr>) s, snd t)"
    using wf by (auto simp: wf_target_def cm_regs_count_def cm_regnums_def has_fp_def room_for_flags_def)
  then show "after (\<lambda>x s. wf_target (s, snd t)) (return () (set_priv (\<lambda>p. p\<lparr>has_cache := True, dcache_minline := push_bit (unat (ctr AND 0xF)) 4\<rparr>) s))"
    by (rule after_basic)
qed

text \<open>
  C40. A probe that returns leaves a well-formed target: the size of its register image is four bytes for
  each register that the transfers move, with the floating-point registers exactly when GDB is told of
  them; its arrays of comparator flags are complete (what attaching relies on); the line size of its
  cache is a power of two. The drivers are assumed to keep this.
\<close>

theorem probe_well_formed:
  fixes Pe :: "'w probe_env"
  assumes "drivers_ok Pe" and "cortexm_probe Pe ap w = Inr (Some (Inr ok, t))"
  shows "wf_target t"
proof -
  from assms(2) obtain t0 ap' w' where t0: "probe_alloc Pe ap w = (Some t0, ap', w')" and run: "probe_target Pe t0 = Some (Inr ok, t)"
    by (auto simp: cortexm_probe_def split: prod.splits option.splits)
  from t0 obtain ap1 w1 where s0: "fst t0 = new_cortexm ap1 w1" by (auto simp: probe_alloc_def Let_def split: prod.splits if_splits)
  have "after (\<lambda>ok t. wf_target t) (probe_target Pe t0)"
    unfolding probe_target_def Let_def
  proof (rule after_andthen [OF after_on_target [where Q = "\<lambda>x t. only_world (fst t0) (fst t) \<and> snd t = snd t0"]])
    show "after (\<lambda>x s. only_world (fst t0) (fst (s, snd t0)) \<and> snd (s, snd t0) = snd t0) (cm_read32 (pe_cm Pe) 0xE000ED00 (fst t0))"
      using frames_access(4) by simp
    fix cpuid and t1 :: "'w cm_target" assume t1: "only_world (fst t0) (fst t1) \<and> snd t1 = snd t0"
    let ?s = "fst t1\<lparr>cm_world := pe_add_commands Pe (str ''ARM Cortex-M'') (cm_world (fst t1))\<rparr>"
    let ?info = "snd t1\<lparr>ci_cpuid := cpuid, ci_core := core_name cpuid, ci_regs_size := 80\<rparr>"
    have p: "cm_priv ?s = new_priv" "\<not> has_fp ?s" using only_worldD [of "fst t0" "fst t1"] t1 by (simp_all add: s0 new_cortexm_def has_fp_def)
    have fpi: "\<not> ci_tdesc_fp ?info" using t1 t0 by (auto simp: probe_alloc_def Let_def split: prod.splits if_splits)
    show "after (\<lambda>ok t. wf_target t) (andthen (on_target (probe_fp (pe_cm Pe)) (?s, ?info)) (\<lambda>fp t.
        andthen (on_target (probe_cache (pe_cm Pe)) (set_priv (\<lambda>p. p\<lparr>demcr := 0x01000401\<rparr>) (fst t),
          if fp then snd t\<lparr>ci_regs_size := 80 + 132, ci_tdesc_fp := True\<rparr> else snd t)) (\<lambda>x. probe_device Pe)))"
    proof (rule after_andthen [OF after_on_target [where Q = "\<lambda>fp t :: 'w cm_target. (fp \<longleftrightarrow> has_fp (fst t)) \<and> cm_priv (fst t) = new_priv \<and> snd t = ?info"]])
      show "after (\<lambda>x s. (x \<longleftrightarrow> has_fp (fst (s, snd (?s, ?info)))) \<and> cm_priv (fst (s, snd (?s, ?info))) = new_priv \<and> snd (s, snd (?s, ?info)) = ?info)
        (probe_fp (pe_cm Pe) (fst (?s, ?info)))"
        using probe_fp_after [OF p(2), of "pe_cm Pe"] p(1) by (simp del: set_priv_simps)
      fix fp and t2 :: "'w cm_target" assume t2: "(fp \<longleftrightarrow> has_fp (fst t2)) \<and> cm_priv (fst t2) = new_priv \<and> snd t2 = ?info"
      have "wf_target (set_priv (\<lambda>p. p\<lparr>demcr := 0x01000401\<rparr>) (fst t2), if fp then snd t2\<lparr>ci_regs_size := 80 + 132, ci_tdesc_fp := True\<rparr> else snd t2)"
        using t2 fpi length_regnums
        by (simp add: wf_target_def cm_regs_count_def cm_regnums_def has_fp_def room_for_flags_def new_priv_def
          CORTEXM_MAX_BREAKPOINTS_def CORTEXM_MAX_WATCHPOINTS_def)
      then show "after (\<lambda>ok t. wf_target t) (andthen (on_target (probe_cache (pe_cm Pe)) (set_priv (\<lambda>p. p\<lparr>demcr := 0x01000401\<rparr>) (fst t2),
          if fp then snd t2\<lparr>ci_regs_size := 80 + 132, ci_tdesc_fp := True\<rparr> else snd t2)) (\<lambda>x. probe_device Pe))"
        by (rule after_andthen [OF wf_cache]) (rule wf_device [OF assms(1)])
    qed
  qed
  then show ?thesis using run unfolding after_def by blast
qed

text \<open>A port that answers zero, and one driver that knows the part.\<close>

definition zero_dp :: "nat dp_ops" where
  "zero_dp = \<lparr>dp_low_access = (\<lambda>RnW addr v. return 0), dp_read = (\<lambda>addr. return 0), dp_error = return 0, dp_abort = (\<lambda>v. return ())\<rparr>"

definition zero_env :: "nat probe_env" where
  "zero_env = \<lparr>pe_cm = \<lparr>ce_dp = zero_dp, ce_set_fault = (\<lambda>w. w), ce_clock = (\<lambda>w. (0, w)), ce_delay = (\<lambda>n w. w), ce_srst_set_val = (\<lambda>b w. w),
       ce_extended_reset = None, ce_printf = (\<lambda>t w. w), ce_list_free = return ()\<rparr>,
     pe_target_new = (\<lambda>w. (True, w)), pe_alloc = (\<lambda>w. (True, w)), pe_dp_ref = (\<lambda>w. w), pe_add_commands = (\<lambda>n w. w + 1),
     pe_outf = (\<lambda>t w. w), pe_driver = (\<lambda>d. return (d = kinetis)), pe_targetid = 0\<rparr>"

lemma zero_access:
  assumes "\<not> has_cache (cm_priv s)" and "unat a mod 4 = 0"
  shows "cm_read32 (pe_cm zero_env) a s = return 0 s" and "cm_write32 (pe_cm zero_env) a v s = return () s"
proof -
  have al: "MIN_align (ALIGNOF (unat a)) (ALIGNOF 4) = ALIGN_WORD" using assms(2) by (simp add: ALIGNOF_def MIN_align_def)
  have dp: "ce_dp (pe_cm zero_env) = zero_dp" by (simp add: zero_env_def)
  have prep: "ap_mem_access_setup zero_dp (cm_ap s) a ALIGN_WORD w = return () w" for w
    by (simp add: ap_mem_access_setup_def firmware_ap_write_def adiv5_dp_write_def zero_dp_def andthen_def return_def)
  have bytes: "le_word [0, 0, 0, 0 :: u8] = 0" using le_word_le_bytes [of 4 0] by simp
  have "firmware_mem_read zero_dp (cm_ap s) a 4 w = return (le_bytes 4 0) w" for w
    unfolding firmware_mem_read_def al Let_def prep by (simp add: zero_dp_def andthen_def return_def prep [unfolded zero_dp_def return_def])
  then show "cm_read32 (pe_cm zero_env) a s = return 0 s"
    using assms(1) by (simp add: cm_read32_def cortexm_mem_read_def cortexm_cache_clean_def on_cm_def dp bytes andthen_def return_def)
  have "mem_write_loop zero_dp ALIGN_WORD (Suc 0) a a (le_bytes 4 (unat v)) w = return () w" for w
    by (simp add: zero_dp_def andthen_def return_def Let_def length_le_bytes del: le_bytes_numeral le_bytes.simps)
  moreover have "4 div 2 ^ align_shift ALIGN_WORD = Suc 0" by simp
  ultimately have "adiv5_mem_write zero_dp (cm_ap s) a (le_bytes 4 (unat v)) 4 w = return () w" for w
    unfolding adiv5_mem_write_def firmware_mem_write_sized_def al prep by (simp only: andthen_simps)
  then show "cm_write32 (pe_cm zero_env) a v s = return () s"
    using assms(1) by (simp add: cm_write32_def cortexm_mem_write_def cortexm_cache_clean_def on_cm_def dp andthen_def return_def
      length_le_bytes del: le_bytes_numeral le_bytes.simps)
qed

lemma zero_env_sels:
  "ce_dp (pe_cm zero_env) = zero_dp" "pe_target_new zero_env w = (True, w)" "pe_alloc zero_env w = (True, w)" "pe_dp_ref zero_env w = w"
  "pe_add_commands zero_env n w = w + 1" "pe_outf zero_env t w = w" "pe_driver zero_env d s = return (d = kinetis) s"
  by (simp_all add: zero_env_def)

theorem probe_well_formed_witness:
  "\<exists>t. cortexm_probe zero_env ((zero_ap 0)\<lparr>ap_designer := 0x00E\<rparr>) 0 = Inr (Some (Inr True, t)) \<and> wf_target t"
proof -
  let ?r = "cortexm_probe zero_env ((zero_ap 0)\<lparr>ap_designer := 0x00E\<rparr>) 0"
  have ok: "drivers_ok zero_env" by (auto simp: drivers_ok_def zero_env_def after_basic)
  have "\<exists>t. ?r = Inr (Some (Inr True, t))"
    by (simp add: cortexm_probe_def probe_alloc_def probe_target_def probe_fp_def probe_cache_def probe_device_def drivers_for_def
      named_designers_def on_target_def zero_access zero_env_sels cortexm_check_error_def on_cm_def zero_dp_def new_cortexm_def new_priv_def zero_ap_def
      set_priv_def andthen_def return_def Let_def)
  then obtain t where t: "?r = Inr (Some (Inr True, t))" ..
  from probe_well_formed [OF ok t] show ?thesis using t by blast
qed

end
