(* ===== verification/Chip.thy ===== *)
theory Chip
  imports Cortexm_Probe Stdio
begin

text \<open>
  What the drivers of single chips share: the registration of memory regions with a target, the wait for
  a busy flag, the loop over the pages of a range; and the rules for them over a core behind its port:
  blocks of words or halfwords written to the bus, registers polled until they are ready, ranges erased
  page by page (the locale \<open>page_device\<close>, which the drivers interpret).
\<close>

unbundle bit_operations_syntax

subsection \<open>Registration\<close>

text \<open>The allocator and \<open>target_add_commands\<close>, besides what the core driver calls.\<close>

record 'w chip_env =
  ch_cm :: "'w cm_env"
  ch_alloc :: "'w \<Rightarrow> bool \<times> 'w"
  ch_add_commands :: "u8 list \<Rightarrow> 'w \<Rightarrow> 'w"

definition set_driver :: "u8 list \<Rightarrow> 'w cm_target \<Rightarrow> 'w cm_target" where
  "set_driver name t = (fst t, snd t\<lparr>ci_driver := name\<rparr>)"

definition chip_add_ram :: "'w chip_env \<Rightarrow> u32 \<Rightarrow> u32 \<Rightarrow> 'w cm_target \<Rightarrow> 'w cm_target" where
  "chip_add_ram Ce start len t =
     (case ch_alloc Ce (cm_world (fst t)) of (ok, w) \<Rightarrow>
        let s = fst t\<lparr>cm_world := w\<rparr>
        in (if ok then s\<lparr>cm_ram := \<lparr>r_start = start, r_length = len\<rparr> # cm_ram s\<rparr> else s, snd t))"

text \<open>A driver fills in the region and calls \<open>target_add_flash\<close>.\<close>

definition chip_add_flash :: "'w chip_env \<Rightarrow> cm_driver \<Rightarrow> u32 \<Rightarrow> u32 \<Rightarrow> u32 \<Rightarrow> u32 \<Rightarrow> u8 \<Rightarrow> 'w cm_target \<Rightarrow> 'w cm_target" where
  "chip_add_flash Ce driver start len blocksize buf_size erased t =
     (case ch_alloc Ce (cm_world (fst t)) of (ok, w) \<Rightarrow>
        let s = fst t\<lparr>cm_world := w\<rparr>;
            f = \<lparr>cf_start = start, cf_length = len, cf_blocksize = blocksize,
                 cf_buf_size = (if buf_size = 0 then if blocksize < 0x400 then blocksize else 0x400 else buf_size),
                 cf_erased = erased, cf_driver = driver\<rparr>
        in (s, if ok then snd t\<lparr>ci_flash := f # ci_flash (snd t)\<rparr> else snd t))"

definition chip_add_commands :: "'w chip_env \<Rightarrow> u8 list \<Rightarrow> 'w cm_target \<Rightarrow> 'w cm_target" where
  "chip_add_commands Ce name t = (fst t\<lparr>cm_world := ch_add_commands Ce name (cm_world (fst t))\<rparr>, snd t)"

subsection \<open>Formatting\<close>

definition fmt_0X :: "nat \<Rightarrow> u32 \<Rightarrow> u8 list" where \<comment> \<open>\<open>%0nX\<close>\<close>
  "fmt_0X n v = map upper_hex (replicate (n - length (fmt_x v)) (ch CHR ''0'') @ fmt_x v)"

fun dec_of_nat :: "nat \<Rightarrow> u8 list" where
  "dec_of_nat n = (if n < 10 then [] else dec_of_nat (n div 10)) @ [48 + word_of_nat (n mod 10)]"

declare dec_of_nat.simps [simp del]

definition fmt_u :: "u32 \<Rightarrow> u8 list" where
  "fmt_u v = dec_of_nat (unat v)"

subsection \<open>Waiting, and going through pages\<close>

text \<open>\<open>while (busy (target_mem_read32 (t, addr))) if (target_check_error (t)) return false;\<close>\<close>

partial_function (option) poll_while :: "'w cm_env \<Rightarrow> u32 \<Rightarrow> (u32 \<Rightarrow> bool) \<Rightarrow> 'w cortexm \<Rightarrow> ('w cortexm, bool) outcome" where
  "poll_while E addr busy s =
     andthen (cm_read32 E addr s) (\<lambda>v s.
       if busy v then andthen (cortexm_check_error E s) (\<lambda>e s. if e then return False s else poll_while E addr busy s)
       else return True s)"

text \<open>The loop over the pages of a range, from \<open>addr\<close> while \<open>len\<close> bytes are left; false: a step failed.\<close>

partial_function (option) page_loop :: "(u32 \<Rightarrow> 's \<Rightarrow> ('s, bool) outcome) \<Rightarrow> u32 \<Rightarrow> u32 \<Rightarrow> u32 \<Rightarrow> 's \<Rightarrow> ('s, bool) outcome" where
  "page_loop step blocksize addr len s =
     (if len = 0 then return True s
      else andthen (step addr s) (\<lambda>ok s.
        if ok then page_loop step blocksize (addr + blocksize) (if len > blocksize then len - blocksize else 0) s
        else return False s))"

subsection \<open>Waiting for a device\<close>

text \<open>Reading \<open>a\<close> until the value is no longer busy takes the core from \<open>c\<close> to \<open>c'\<close>.\<close>

inductive polls :: "'c core_bus \<Rightarrow> u32 \<Rightarrow> (u32 \<Rightarrow> bool) \<Rightarrow> 'c \<Rightarrow> 'c \<Rightarrow> bool" for B a busy where
  ready: "cb_read B a c = (v, c') \<Longrightarrow> \<not> busy v \<Longrightarrow> polls B a busy c c'"
| again: "cb_read B a c = (v, c1) \<Longrightarrow> busy v \<Longrightarrow> polls B a busy c1 c' \<Longrightarrow> polls B a busy c c'"

text \<open>A status register that counts down \<open>pending\<close>, and leaves the rest of the core as it is.\<close>

lemma polls_pending:
  assumes "\<And>c. P c \<Longrightarrow> (busy (fst (cb_read B a c)) \<longleftrightarrow> pending c \<noteq> 0) \<and> P (snd (cb_read B a c)) \<and>
      pending (snd (cb_read B a c)) = pending c - 1 \<and> same (snd (cb_read B a c)) = same c"
  shows "P c \<Longrightarrow> \<exists>c'. polls B a busy c c' \<and> P c' \<and> pending c' = (0 :: nat) \<and> same c' = same c"
proof (induction "pending c" arbitrary: c)
  case 0
  obtain v c' where r: "cb_read B a c = (v, c')" by force
  with assms [OF 0(2)] 0(1) have "polls B a busy c c'" by (intro polls.ready) auto
  then show ?case using assms [OF 0(2)] 0(1) r by auto
next
  case (Suc n)
  obtain v c1 where r: "cb_read B a c = (v, c1)" by force
  note a = assms [OF Suc(3)]
  have n: "n = pending c1" "P c1" using a Suc(2) r by simp_all
  from Suc(1) [OF n] obtain c' where "polls B a busy c1 c'" "P c'" "pending c' = 0" "same c' = same c1" by blast
  moreover have "busy v" "same c1 = same c" using a Suc(2) r by simp_all
  ultimately show ?case using polls.again [OF r] by metis
qed

lemma poll_runs:
  assumes "polls B a busy c c'" and "\<not> has_cache (cm_priv s) \<or> 0xE0000000 \<le> a" and "aligned a 2"
    and "cm_ready E B st s" and "core_of st s = c"
  shows "runs (poll_while E a busy s) (\<lambda>ok s'. ok \<and> moved E B st s c' s')"
  using assms
proof (induction arbitrary: s rule: polls.induct)
  case (ready c v c')
  show ?case
    by (subst poll_while.simps, rule runs_andthen [OF word_read_runs [OF ready(5) ready(3,4)]])
      (use ready in \<open>auto intro!: runs_return\<close>)
next
  case (again c v c1 c')
  show ?case
  proof (subst poll_while.simps, rule runs_andthen [OF word_read_runs [OF again(7) again(5,6)]], elim conjE)
    fix x s1 assume x: "x = fst (cb_read B a (core_of st s))" and m1: "moved E B st s (snd (cb_read B a (core_of st s))) s1"
    have b: "busy x" and c1: "core_of st s1 = c1" using x again movedD(2) [OF m1] by auto
    show "runs (if busy x then andthen (cortexm_check_error E s1) (\<lambda>e s. if e then return False s else poll_while E a busy s) else return True s1)
      (\<lambda>ok s'. ok \<and> moved E B st s c' s')"
      using b
    proof (simp, intro runs_andthen [OF check_error_runs [OF movedD(1) [OF m1]]], elim conjE)
      fix e s2 assume e: "\<not> e" and m2: "moved E B st s1 (core_of st s1) s2"
      have u: "\<not> has_cache (cm_priv s2) \<or> 0xE0000000 \<le> a" using again(5) movedD(3) [OF m1] movedD(3) [OF m2] by auto
      from again(4) [OF u again(6) movedD(1) [OF m2]] movedD(2) [OF m2] c1
      have "runs (poll_while E a busy s2) (\<lambda>ok s'. ok \<and> moved E B st s2 c' s')" by simp
      then show "runs (if e then return False s2 else poll_while E a busy s2) (\<lambda>ok s'. ok \<and> moved E B st s c' s')"
        using e by (auto elim!: runs_mono intro: movedD(10) [OF m1] movedD(10) [OF m2])
    qed
  qed
qed

subsection \<open>Writing a block\<close>

text \<open>What \<open>n\<close> writes of \<open>2 ^ k\<close> bytes each from address \<open>a\<close> on do to a core.\<close>

definition bus_put :: "'c core_bus \<Rightarrow> nat \<Rightarrow> u32 \<Rightarrow> u8 list \<Rightarrow> 'c \<Rightarrow> 'c" where
  "bus_put B k a bs c = (if k = 2 then cb_write B a (word_of_nat (le_word bs)) c else cb_part B a bs c)"

fun bus_stream :: "'c core_bus \<Rightarrow> nat \<Rightarrow> u32 \<Rightarrow> nat \<Rightarrow> u8 list \<Rightarrow> 'c \<Rightarrow> 'c" where
  "bus_stream B k a 0 bs c = c"
| "bus_stream B k a (Suc n) bs c = bus_stream B k (a + 2 ^ k) n (drop (2 ^ k) bs) (bus_put B k a (take (2 ^ k) bs) c)"

lemma drw_put_runs:
  assumes P: "core_port_ok B a D st" and r: "cp_ready a k addr c (st w)" and al: "aligned addr k"
    and k: "k = align_shift align" "align \<noteq> ALIGN_DWORD" and p: "pack addr src align = Some tmp" "2 ^ k \<le> length src"
  shows "runs (dp_low_access D False AP_DRW tmp w) (\<lambda>x w'. cp_ready a k (tar_next addr k) (bus_put B k addr (take (2 ^ k) src) c) (st w'))"
proof (cases "k = 2")
  case True
  then have "align = ALIGN_WORD" using k by (cases align) simp_all
  then have "tmp = word_of_nat (le_word (take 4 src))" using p True by simp
  then show ?thesis using drw_write_runs [OF P, of addr c w tmp] r al True by (simp add: bus_put_def)
next
  case False
  then have k2: "k < 2" using k by (cases align) simp_all
  obtain y where y: "pack addr src align = Some y" "\<forall>i < 2 ^ align_shift align. byte_lane y (lane addr + i) = src ! i"
    using pack_lanes [OF k(2)] al p(2) unfolding k(1) by blast
  have tk: "map (\<lambda>i. byte_lane tmp (lane addr + i)) [0..<2 ^ k] = take (2 ^ k) src"
    by (rule nth_equalityI) (use y p k(1) in auto)
  have "core_step B a False AP_DRW tmp (st w) 0 (st w\<lparr>cp_core := cb_part B (cp_tar (st w)) (map (\<lambda>i. byte_lane tmp (lane (cp_tar (st w)) + i)) [0..<2 ^ cp_size (st w)]) (cp_core (st w)),
      cp_tar := tar_next (cp_tar (st w)) (cp_size (st w)), cp_posted := 0\<rparr>)"
    using r al k2 by (intro core_step.drw_part) (simp_all add: cp_ready_def)
  from core_port_access [OF P this] show ?thesis
    by (rule runs_mono) (use r k2 tk in \<open>auto simp: cp_ready_def port_bank_def cp_size_def bus_put_def\<close>)
qed

lemma stream_runs:
  assumes P: "core_port_ok B a D st" and k: "k = align_shift align" "align \<noteq> ALIGN_DWORD"
  shows "cp_ready a k dest c (st w) \<Longrightarrow> aligned dest k \<Longrightarrow> dest AND NOT (mask 10) = odest AND NOT (mask 10) \<Longrightarrow> n * 2 ^ k \<le> length src \<Longrightarrow>
    runs (mem_write_loop D align n odest dest src w) (\<lambda>x w'. cp_idle (bus_stream B k dest n src c) (st w'))"
proof (induction n arbitrary: odest dest src c w)
  case 0
  then show ?case by (auto simp: cp_ready_def cp_idle_def port_bank_def)
next
  case (Suc n)
  have k2: "k \<le> 2" using k by (cases align) simp_all
  have l: "2 ^ k \<le> length src" "n * 2 ^ k \<le> length (drop (2 ^ k) src)" using Suc.prems(4) by simp_all
  from pack_lanes [OF k(2)] Suc.prems(2) l(1) obtain tmp where tmp: "pack dest src align = Some tmp" unfolding k(1) by blast
  note al = conjunct1 [OF aligned_next [OF k2 Suc.prems(2)]]
  show ?case unfolding mem_write_loop.simps tmp option.case Let_def bus_stream.simps k(1) [symmetric] page_mask
  proof (rule runs_andthen [OF drw_put_runs [OF P Suc.prems(1,2) k tmp l(1)]], rule runs_if)
    fix x w1 assume w1: "cp_ready a k (tar_next dest k) (bus_put B k dest (take (2 ^ k) src) c) (st w1)"
    assume "(dest + 2 ^ k XOR odest) AND NOT (mask 10) \<noteq> 0"
    have bank: "port_bank a 0 (st w1)" using w1 by (simp add: cp_ready_def)
    show "runs (andthen (dp_low_access D False AP_TAR (dest + 2 ^ k) w1) (\<lambda>x. mem_write_loop D align n (dest + 2 ^ k) (dest + 2 ^ k) (drop (2 ^ k) src)))
      (\<lambda>x w'. cp_idle (bus_stream B k (dest + 2 ^ k) n (drop (2 ^ k) src) (bus_put B k dest (take (2 ^ k) src) c)) (st w'))"
      by (rule runs_andthen [OF tar_runs [OF P bank]], rule Suc.IH [OF _ al refl l(2)])
        (use w1 in \<open>auto simp: cp_ready_def port_bank_def cp_size_def\<close>)
  next
    fix x w1 assume w1: "cp_ready a k (tar_next dest k) (bus_put B k dest (take (2 ^ k) src) c) (st w1)"
    assume "\<not> (dest + 2 ^ k XOR odest) AND NOT (mask 10) \<noteq> 0"
    then have same: "(dest + 2 ^ k XOR odest) AND NOT (mask 10) = 0" by simp
    have "cp_ready a k (dest + 2 ^ k) (bus_put B k dest (take (2 ^ k) src) c) (st w1)"
      using w1 unfolding tar_next_same_page [OF same Suc.prems(3)] .
    from Suc.IH [OF this al _ l(2)] same
    show "runs (mem_write_loop D align n odest (dest + 2 ^ k) (drop (2 ^ k) src) w1)
      (\<lambda>x w'. cp_idle (bus_stream B k (dest + 2 ^ k) n (drop (2 ^ k) src) (bus_put B k dest (take (2 ^ k) src) c)) (st w'))"
      by (simp add: same_upper_bits)
  qed
qed

text \<open>\<open>cortexm_mem_write_sized\<close> and \<open>target_mem_write\<close> in units of the size.\<close>

lemma write_sized_runs:
  assumes r: "cm_ready E B st s" and u: "\<not> has_cache (cm_priv s)" and k: "k = align_shift align" "align \<noteq> ALIGN_DWORD"
    and al: "aligned dest k"
  shows "runs (cortexm_mem_write_sized E dest src align s)
    (\<lambda>e s'. \<not> e \<and> moved E B st s (bus_stream B k dest (length src div 2 ^ k) src (core_of st s)) s')"
proof -
  have P: "core_port_ok B (ap_apsel (cm_ap s)) (ce_dp E) st" "ap_csw (cm_ap s) AND 0x37 = 0" "cp_idle (core_of st s) (st (cm_world s))"
    using r by (simp_all add: cm_ready_def cp_idle_def)
  let ?c = "bus_stream B k dest (length src div 2 ^ k) src (core_of st s)"
  have "runs (firmware_mem_write_sized (ce_dp E) (cm_ap s) dest src (length src) align (cm_world s)) (\<lambda>x w. True \<and> cp_idle ?c (st w))"
    unfolding firmware_mem_write_sized_def k(1) [symmetric]
    by (rule runs_andthen [OF setup_runs [OF P(1,2) k(2) P(3)]], rule runs_mono [OF stream_runs [OF P(1) k _ al refl]])
      (simp_all add: k(1))
  from on_cm_moved [where f = "firmware_mem_write_sized (ce_dp E) (cm_ap s) dest src (length src) align" and Q = "\<lambda>x. True", OF r this]
  show ?thesis unfolding cortexm_mem_write_sized_def uncached [OF r disjI1 [OF u]] andthen_simps
  proof (rule runs_andthen, elim conjE)
    fix x s1 assume m: "moved E B st s ?c s1"
    show "runs (cortexm_check_error E s1) (\<lambda>e s'. \<not> e \<and> moved E B st s ?c s')"
      by (rule runs_mono [OF check_error_runs [OF movedD(1) [OF m]]]) (use movedD(2) [OF m] in \<open>auto intro: movedD(10) [OF m]\<close>)
  qed
qed

lemma write_words_runs:
  assumes r: "cm_ready E B st s" and u: "\<not> has_cache (cm_priv s)" and al: "aligned dest 2" and n: "4 dvd length src"
  shows "runs (cm_mem_write E dest src s) (\<lambda>e s'. \<not> e \<and> moved E B st s (bus_stream B 2 dest (length src div 4) src (core_of st s)) s')"
proof -
  have w: "MIN_align (ALIGNOF (unat dest)) (ALIGNOF (length src)) = ALIGN_WORD"
    using lane_aligned(2) [OF al] n by (simp add: MIN_align_def ALIGNOF_def mod_eq_0_iff_dvd)
  have "cm_mem_write E dest src s = cortexm_mem_write_sized E dest src ALIGN_WORD s"
    by (simp add: cm_mem_write_def cortexm_mem_write_def cortexm_mem_write_sized_def adiv5_mem_write_def w andthen_assoc)
  then show ?thesis using write_sized_runs [OF r u _ _ al, of ALIGN_WORD src] by simp
qed

subsection \<open>Erasing page by page\<close>

definition wipe :: "u8 \<Rightarrow> u32 \<Rightarrow> nat \<Rightarrow> (u32 \<Rightarrow> u8) \<Rightarrow> u32 \<Rightarrow> u8" where
  "wipe v a n m = (\<lambda>x. if unat (x - a) < n then v else m x)"

lemma wipe_add:
  assumes "m + n \<le> 2 ^ 32"
  shows "wipe v (a + word_of_nat m) n (wipe v a m f) = wipe v a (m + n) f"
proof (rule ext)
  fix x
  let ?d = "unat (x - a)"
  have e: "x - (a + word_of_nat m) = (x - a) - word_of_nat m" by simp
  have lt: "?d < 2 ^ 32" using unsigned_less [of "x - a", where 'a = nat] by simp
  show "wipe v (a + word_of_nat m) n (wipe v a m f) x = wipe v a (m + n) f x"
  proof (cases "?d < m")
    case True
    then show ?thesis by (simp add: wipe_def)
  next
    case False
    then have m: "m < 2 ^ 32" using lt by simp
    then have "unat (word_of_nat m :: u32) = m" by (simp add: unsigned_of_nat take_bit_nat_eq_self)
    then have "unat ((x - a) - word_of_nat m) = ?d - m" using False by (simp add: unat_sub word_le_nat_alt)
    then show ?thesis using False unfolding wipe_def e by auto
  qed
qed

definition page_span :: "u32 \<Rightarrow> u32 \<Rightarrow> nat" where \<comment> \<open>the bytes of the pages that \<open>len\<close> bytes touch\<close>
  "page_span blocksize len = (unat len + unat blocksize - 1) div unat blocksize * unat blocksize"

lemma page_span_step:
  assumes "blocksize \<noteq> 0" "len \<noteq> 0"
  shows "page_span blocksize len = unat blocksize + page_span blocksize (if len > blocksize then len - blocksize else 0)"
proof -
  let ?b = "unat blocksize" and ?l = "unat len"
  have b: "0 < ?b" "0 < ?l" using assms by (simp_all add: word_unat_eq_iff flip: neq0_conv)
  show ?thesis
  proof (cases "blocksize < len")
    case True
    then have u: "unat (len - blocksize) = ?l - ?b" "?b < ?l" by (simp_all add: unat_sub word_less_nat_alt word_le_nat_alt)
    have "?l + ?b - 1 = (?l - ?b + ?b - 1) + ?b" using u(2) b by simp
    then have "(?l + ?b - 1) div ?b = (?l - ?b + ?b - 1) div ?b + 1" using b by (metis div_add_self2 neq0_conv)
    then show ?thesis using True u by (simp add: page_span_def algebra_simps)
  next
    case False
    then have le: "?l \<le> ?b" by (simp add: word_less_nat_alt)
    have "?b - 1 < ?b" using b by simp
    then have z: "(?b - 1) div ?b = 0" by (rule div_less)
    have "?l + ?b - 1 = ?l - 1 + ?b" using b by simp
    then have "(?l + ?b - 1) div ?b = (?l - 1 + ?b) div ?b" by (rule arg_cong)
    also have "\<dots> = (?l - 1) div ?b + 1" by (rule div_add_self2) (use b in simp)
    also have "(?l - 1) div ?b = 0" using le b by (intro div_less) simp
    finally show ?thesis using False z by (simp add: page_span_def)
  qed
qed

text \<open>What a driver's step over one page has to do, from the state before the first page or after another one;
  then the loop erases the pages of the range.\<close>

locale page_device =
  fixes step :: "u32 \<Rightarrow> 's \<Rightarrow> ('s, bool) outcome"
    and blocksize :: u32
    and valid :: "u32 \<Rightarrow> bool"
    and start :: "'s \<Rightarrow> bool"
    and ready :: "'s \<Rightarrow> bool"
    and content :: "'s \<Rightarrow> u32 \<Rightarrow> u8"
    and erased :: u8
  assumes step_erases: "start s \<or> ready s \<Longrightarrow> valid a \<Longrightarrow>
    runs (step a s) (\<lambda>ok s'. ok \<and> ready s' \<and> content s' = wipe erased a (unat blocksize) (content s))"
begin

lemma page_loop_erases:
  assumes "blocksize \<noteq> 0"
  shows "start s \<or> ready s \<Longrightarrow> (\<And>i. i * unat blocksize < unat len \<Longrightarrow> valid (addr + word_of_nat i * blocksize)) \<Longrightarrow> page_span blocksize len \<le> 2 ^ 32 \<Longrightarrow>
    runs (page_loop step blocksize addr len s) (\<lambda>ok s'. ok \<and> (len \<noteq> 0 \<or> ready s \<longrightarrow> ready s') \<and> (start s' \<or> ready s') \<and> content s' = wipe erased addr (page_span blocksize len) (content s))"
proof (induction "unat len" arbitrary: len addr s rule: less_induct)
  case less
  let ?len = "if len > blocksize then len - blocksize else 0"
  have b: "0 < unat blocksize" using assms by (simp add: word_unat_eq_iff flip: neq0_conv)
  show ?case
  proof (cases "len = 0")
    case True
    have "(unat blocksize - 1) div unat blocksize = 0" using b by (intro div_less) simp
    then show ?thesis using True less(2) by (subst page_loop.simps) (auto simp: page_span_def wipe_def intro!: runs_return)
  next
    case False
    then have l: "0 < unat len" by (simp add: word_unat_eq_iff flip: neq0_conv)
    have dec: "unat ?len < unat len" using l b by (auto simp: unat_sub word_less_nat_alt word_le_nat_alt)
    note span = page_span_step [OF assms False]
    have v: "valid addr" using less(3) [of 0] l by simp
    have vs: "valid (addr + blocksize + word_of_nat i * blocksize)" if "i * unat blocksize < unat ?len" for i
    proof -
      have "blocksize < len" using that by (auto split: if_splits)
      then have "unat ?len = unat len - unat blocksize" by (simp add: unat_sub word_less_nat_alt word_le_nat_alt)
      with that have "Suc i * unat blocksize < unat len" by simp
      from less(3) [OF this] show ?thesis by (simp add: algebra_simps)
    qed
    have le: "page_span blocksize ?len \<le> 2 ^ 32" using less(4) span by simp
    show ?thesis
    proof (subst page_loop.simps, subst if_not_P [OF False], rule runs_andthen [OF step_erases [OF less(2) v]], elim conjE)
      fix ok s1 assume 1: "ok" "ready s1" "content s1 = wipe erased addr (unat blocksize) (content s)"
      have w: "wipe erased (addr + blocksize) (page_span blocksize ?len) (content s1) = wipe erased addr (page_span blocksize len) (content s)"
        using wipe_add [of "unat blocksize" "page_span blocksize ?len" erased addr "content s"] less(4) span 1(3) by simp
      have "runs (page_loop step blocksize (addr + blocksize) ?len s1) (\<lambda>ok s'. ok \<and> (?len \<noteq> 0 \<or> ready s1 \<longrightarrow> ready s') \<and>
        (start s' \<or> ready s') \<and> content s' = wipe erased (addr + blocksize) (page_span blocksize ?len) (content s1))"
        by (rule less(1) [OF dec disjI2 [OF 1(2)] vs le])
      then show "runs (if ok then page_loop step blocksize (addr + blocksize) ?len s1 else return False s1)
        (\<lambda>ok s'. ok \<and> (len \<noteq> 0 \<or> ready s \<longrightarrow> ready s') \<and> (start s' \<or> ready s') \<and> content s' = wipe erased addr (page_span blocksize len) (content s))"
        unfolding if_P [OF 1(1)] by (rule runs_mono) (use 1(2) w in auto)
    qed
  qed
qed

end

subsection \<open>A core behind a port that performs every access\<close>

definition plain_env :: "'c core_bus \<Rightarrow> 'c core_port cm_env" where
  "plain_env B = \<lparr>ce_dp = core_dp B, ce_set_fault = (\<lambda>w. w\<lparr>cp_fault := True\<rparr>), ce_clock = (\<lambda>w. (0, w)),
     ce_delay = (\<lambda>n w. w), ce_srst_set_val = (\<lambda>b w. w), ce_extended_reset = None, ce_printf = (\<lambda>t w. w), ce_list_free = return ()\<rparr>"

definition plain_cm :: "'c \<Rightarrow> 'c core_port cortexm" where
  "plain_cm c = new_cortexm demo_ap \<lparr>cp_fault = False, cp_select = 0, cp_csw = 0, cp_tar = 0, cp_posted = 0, cp_core = c\<rparr>"

lemma plain_ready:
  "cm_ready (plain_env B) B id (plain_cm c)" "\<not> has_cache (cm_priv (plain_cm c))" "core_of id (plain_cm c) = c"
  by (simp_all add: cm_ready_def ram_below_ppb_def plain_env_def plain_cm_def new_cortexm_def new_priv_def core_dp_ok demo_ap_def)

subsection \<open>A chip without a data cache\<close>

text \<open>The rules in the form the drivers use: the core is ready, every address is uncached, and only the core
  behind the port changes.\<close>

definition chip_on :: "'w cm_env \<Rightarrow> 'c core_bus \<Rightarrow> ('w \<Rightarrow> 'c core_port) \<Rightarrow> 'w cortexm \<Rightarrow> bool" where
  "chip_on E B st s \<longleftrightarrow> cm_ready E B st s \<and> \<not> has_cache (cm_priv s)"

lemma chip_onI: "chip_on E B st s \<Longrightarrow> moved E B st s c s' \<Longrightarrow> chip_on E B st s' \<and> core_of st s' = c"
  by (auto simp: chip_on_def dest: movedD(1-3))

lemma chip_onD: "chip_on E B st s \<Longrightarrow> cm_ready E B st s" "chip_on E B st s \<Longrightarrow> \<not> has_cache (cm_priv s) \<or> b"
  by (simp_all add: chip_on_def)

lemma chip_write32:
  assumes "chip_on E B st s" and "aligned a 2"
  shows "runs (cm_write32 E a v s) (\<lambda>x s'. chip_on E B st s' \<and> core_of st s' = cb_write B a v (core_of st s))"
  by (rule runs_mono [OF word_write_runs [OF chip_onD [OF assms(1)] assms(2)]]) (rule chip_onI [OF assms(1)])

lemma chip_read32:
  assumes "chip_on E B st s" and "aligned a 2"
  shows "runs (cm_read32 E a s) (\<lambda>v s'. chip_on E B st s' \<and> cb_read B a (core_of st s) = (v, core_of st s'))"
  by (rule runs_mono [OF word_read_runs [OF chip_onD [OF assms(1)] assms(2)]]) (use chip_onI [OF assms(1)] in \<open>auto simp: prod_eq_iff\<close>)

lemma chip_poll:
  assumes "chip_on E B st s" and "aligned a 2" and "polls B a busy (core_of st s) c'"
  shows "runs (poll_while E a busy s) (\<lambda>ok s'. ok \<and> chip_on E B st s' \<and> core_of st s' = c')"
  by (rule runs_mono [OF poll_runs [OF assms(3) chip_onD(2) [OF assms(1)] assms(2) chip_onD(1) [OF assms(1)] refl]])
    (use chip_onI [OF assms(1)] in auto)

lemma chip_check_error:
  assumes "chip_on E B st s"
  shows "runs (cortexm_check_error E s) (\<lambda>e s'. \<not> e \<and> chip_on E B st s' \<and> core_of st s' = core_of st s)"
  by (rule runs_mono [OF check_error_runs [OF chip_onD(1) [OF assms]]]) (use chip_onI [OF assms] in auto)

lemma chip_write_sized:
  assumes "chip_on E B st s" and "k = align_shift align" and "align \<noteq> ALIGN_DWORD" and "aligned dest k"
  shows "runs (cortexm_mem_write_sized E dest src align s)
    (\<lambda>e s'. \<not> e \<and> chip_on E B st s' \<and> core_of st s' = bus_stream B k dest (length src div 2 ^ k) src (core_of st s))"
  by (rule runs_mono [OF write_sized_runs [OF chip_onD(1) [OF assms(1)] _ assms(2-4)]])
    (use assms(1) chip_onI [OF assms(1)] in \<open>auto simp: chip_on_def\<close>)

lemma chip_write_words:
  assumes "chip_on E B st s" and "aligned dest 2" and "4 dvd length src"
  shows "runs (cm_mem_write E dest src s)
    (\<lambda>e s'. \<not> e \<and> chip_on E B st s' \<and> core_of st s' = bus_stream B 2 dest (length src div 4) src (core_of st s))"
  by (rule runs_mono [OF write_words_runs [OF chip_onD(1) [OF assms(1)] _ assms(2,3)]])
    (use assms(1) chip_onI [OF assms(1)] in \<open>auto simp: chip_on_def\<close>)

definition cm_write16 :: "'w cm_env \<Rightarrow> u32 \<Rightarrow> u16 \<Rightarrow> 'w cortexm \<Rightarrow> ('w cortexm, unit) outcome" where
  "cm_write16 E addr v = cortexm_mem_write E addr (le_bytes 2 (unat v))"

lemma chip_write16:
  assumes on: "chip_on E B st s" and al: "aligned dest 1"
  shows "runs (cm_write16 E dest v s) (\<lambda>x s'. chip_on E B st s' \<and> core_of st s' = cb_part B dest (le_bytes 2 (unat v)) (core_of st s))"
proof -
  have r: "cm_ready E B st s" using on by (simp add: chip_on_def)
  have P: "core_port_ok B (ap_apsel (cm_ap s)) (ce_dp E) st" "ap_csw (cm_ap s) AND 0x37 = 0" "cp_idle (core_of st s) (st (cm_world s))"
    using r by (simp_all add: cm_ready_def cp_idle_def)
  have "even (unat dest)" using lane_aligned(1) [OF al] by presburger
  then have w: "MIN_align (ALIGNOF (unat dest)) (ALIGNOF 2) = ALIGN_HALFWORD" by (simp add: MIN_align_def ALIGNOF_def)
  let ?bs = "le_bytes 2 (unat v)" and ?c = "cb_part B dest (le_bytes 2 (unat v)) (core_of st s)"
  have l: "length ?bs = 2" by (rule length_le_bytes)
  have one: "bus_stream B 1 dest (2 div 2 ^ 1) ?bs (core_of st s) = ?c"
  proof -
    have "2 div 2 ^ 1 = Suc 0" "2 ^ 1 = (2 :: nat)" by simp_all
    then show ?thesis using l by (simp only: bus_stream.simps bus_put_def) simp
  qed
  have "runs (firmware_mem_write_sized (ce_dp E) (cm_ap s) dest ?bs 2 ALIGN_HALFWORD (cm_world s)) (\<lambda>x w. True \<and> cp_idle ?c (st w))"
    unfolding firmware_mem_write_sized_def
    by (rule runs_andthen [OF setup_runs [OF P(1,2) _ P(3)]], simp, rule runs_mono [OF stream_runs [OF P(1) refl _ _ _ refl]], simp, assumption)
      (use al l in \<open>simp_all only: one align_shift.simps simp_thms\<close>, simp)
  from on_cm_moved [where f = "firmware_mem_write_sized (ce_dp E) (cm_ap s) dest ?bs 2 ALIGN_HALFWORD" and Q = "\<lambda>x. True", OF r this]
  show ?thesis unfolding cm_write16_def cortexm_mem_write_def uncached [OF r chip_onD(2) [OF on]] andthen_simps l adiv5_mem_write_def w
    by (rule runs_mono) (use chip_onI [OF on] in auto)
qed

lemma page_multiples:
  fixes addr page len :: u32
  assumes "page \<noteq> 0" "addr mod page = 0" "unat addr + page_span page len \<le> 2 ^ 32" "i * unat page < unat len"
  shows "(addr + word_of_nat i * page) mod page = 0"
proof -
  have p: "0 < unat page" using assms(1) by (simp add: word_unat_eq_iff flip: neq0_conv)
  have "i < (unat len + unat page - 1) div unat page"
  proof -
    have "Suc i * unat page \<le> unat len + unat page - 1" using assms(4) by simp
    then show ?thesis using p by (simp add: less_eq_div_iff_mult_less_eq Suc_le_eq [symmetric])
  qed
  then have "i * unat page < page_span page len" using p by (simp add: page_span_def)
  then have lt: "unat addr + i * unat page < 2 ^ 32" using assms(3) by simp
  have "addr + word_of_nat i * page = word_of_nat (unat addr + i * unat page)" by simp
  then have "unat (addr + word_of_nat i * page) = unat addr + i * unat page"
    using lt by (simp add: unsigned_of_nat take_bit_nat_eq_self del: of_nat_add of_nat_mult)
  moreover have "unat addr mod unat page = 0" using assms(2) by (simp add: word_unat_eq_iff unat_mod)
  ultimately show ?thesis by (simp add: word_unat_eq_iff unat_mod)
qed

text \<open>The range of an erase: whole pages of flash.\<close>

definition flash_pages :: "u32 \<Rightarrow> (u32 \<Rightarrow> bool) \<Rightarrow> u32 \<Rightarrow> u32 \<Rightarrow> bool" where
  "flash_pages page flash addr len \<longleftrightarrow> page \<noteq> 0 \<and> addr mod page = 0 \<and> unat addr + page_span page len \<le> 2 ^ 32 \<and>
     (\<forall>i. i * unat page < unat len \<longrightarrow> flash (addr + word_of_nat i * page))"

text \<open>Data within a wiped range starts out erased.\<close>

lemma wiped_range:
  fixes addr dest :: u32
  assumes "i < length src" and "unat (dest - addr) + length src \<le> n" and "n \<le> 2 ^ 32"
  shows "wipe erased addr n m (dest + word_of_nat i) = erased"
proof -
  have "unat ((dest - addr) + word_of_nat i) = unat (dest - addr) + i"
    using assms by (simp add: unat_word_ariths unat_of_nat mod_simps)
  then have "unat (dest + word_of_nat i - addr) < n" using assms(1,2) by (simp add: algebra_simps)
  then show ?thesis unfolding wipe_def by simp
qed

subsection \<open>Programming erased flash\<close>

lemma le_bytes_le_word: "length bs = n \<Longrightarrow> le_bytes n (le_word bs) = bs"
proof (induction bs arbitrary: n)
  case (Cons b bs)
  have "le_word (b # bs) = unat b + 256 * le_word bs" by (simp add: le_word_def)
  moreover have "unat b < 256" using unsigned_less [of b, where 'a = nat] by simp
  ultimately have "le_word (b # bs) mod 256 = unat b" "le_word (b # bs) div 256 = le_word bs" by simp_all
  then show ?case using Cons by (cases n) auto
qed simp

lemma le_bytes_word: "length bs = 4 \<Longrightarrow> le_bytes 4 (unat (word_of_nat (le_word bs) :: u32)) = bs"
proof -
  assume l: "length bs = 4"
  have "le_word bs < 256 ^ 4"
  proof -
    have "le_word (le_bytes 4 (le_word bs)) = le_word bs" by (simp only: le_bytes_le_word [OF l])
    then have "le_word bs = le_word bs mod 256 ^ 4" by (simp only: le_word_le_bytes)
    then show ?thesis by (metis mod_less_divisor zero_less_numeral zero_less_power)
  qed
  then have "unat (word_of_nat (le_word bs) :: u32) = le_word bs" by (simp add: unsigned_of_nat take_bit_nat_eq_self)
  then show ?thesis by (simp only: le_bytes_le_word [OF l])
qed

text \<open>The units of a block written to erased flash are stored one after the other, if one unit is.\<close>

lemma stream_stores:
  assumes put: "\<And>c a bs. ok c \<Longrightarrow> aligned a k \<Longrightarrow> flash a \<Longrightarrow> length bs = 2 ^ k \<Longrightarrow> (\<forall>i < 2 ^ k. mem c (a + word_of_nat i) = 0xFF) \<Longrightarrow>
      ok (bus_put B k a bs c) \<and> mem (bus_put B k a bs c) = poke (mem c) a bs"
    and k: "k \<le> 2"
  shows "ok c \<Longrightarrow> aligned dest k \<Longrightarrow> n * 2 ^ k \<le> length bs \<Longrightarrow> n * 2 ^ k \<le> 2 ^ 32 \<Longrightarrow>
    (\<And>i. i < n * 2 ^ k \<Longrightarrow> mem c (dest + word_of_nat i) = 0xFF) \<Longrightarrow> (\<And>i. i < n \<Longrightarrow> flash (dest + word_of_nat (i * 2 ^ k))) \<Longrightarrow>
    ok (bus_stream B k dest n bs c) \<and> mem (bus_stream B k dest n bs c) = poke (mem c) dest (take (n * 2 ^ k) bs)"
proof (induction n arbitrary: dest bs c)
  case 0
  then show ?case by (simp add: poke_Nil)
next
  case (Suc n)
  let ?k = "2 ^ k :: nat"
  let ?b = "take ?k bs" and ?dest = "dest + 2 ^ k"
  let ?c = "bus_put B k dest ?b c"
  have l: "length ?b = ?k" using Suc.prems(3) by simp
  have w: "(2 ^ k :: u32) = word_of_nat ?k" by simp
  have "\<forall>i < ?k. mem c (dest + word_of_nat i) = 0xFF" using Suc.prems(5) by simp
  moreover have "flash dest" using Suc.prems(6) [of 0] by simp
  ultimately have c1: "ok ?c" "mem ?c = poke (mem c) dest ?b" using put [OF Suc.prems(1,2) _ l] by simp_all
  have al: "aligned ?dest k" using aligned_next [OF k Suc.prems(2)] by simp
  have next_ff: "mem ?c (?dest + word_of_nat i) = 0xFF" if i: "i < n * ?k" for i
  proof -
    have e: "?dest + word_of_nat i = dest + word_of_nat (?k + i)" by simp
    have "unat (word_of_nat (?k + i) :: u32) = ?k + i" using i Suc.prems(4)
      by (simp add: unsigned_of_nat take_bit_nat_eq_self del: of_nat_add of_nat_power)
    then have "\<not> unat (dest + word_of_nat (?k + i) - dest) < ?k" by simp
    then have "mem ?c (?dest + word_of_nat i) = mem c (dest + word_of_nat (?k + i))" unfolding c1(2) poke_def l e by (simp only: if_False)
    also have "\<dots> = 0xFF" using i by (intro Suc.prems(5)) simp
    finally show ?thesis .
  qed
  have next_flash: "flash (?dest + word_of_nat (i * ?k))" if "i < n" for i
  proof -
    have e: "?dest + word_of_nat (i * ?k) = dest + word_of_nat (Suc i * ?k)" by simp
    show ?thesis unfolding e by (rule Suc.prems(6)) (use that in simp)
  qed
  have len: "n * ?k \<le> length (drop ?k bs)" "n * ?k \<le> 2 ^ 32" using Suc.prems(3,4) by simp_all
  from Suc.IH [OF c1(1) al len next_ff next_flash]
  have ih: "ok (bus_stream B k ?dest n (drop ?k bs) ?c)"
    "mem (bus_stream B k ?dest n (drop ?k bs) ?c) = poke (mem ?c) ?dest (take (n * ?k) (drop ?k bs))" by simp_all
  have p: "poke (poke (mem c) dest ?b) ?dest (take (n * ?k) (drop ?k bs)) = poke (mem c) dest (?b @ take (n * ?k) (drop ?k bs))"
  proof -
    have "length ?b + length (take (n * ?k) (drop ?k bs)) \<le> 2 ^ 32" using l Suc.prems(3,4) by simp
    from poke_append [OF this, of "mem c" dest] show ?thesis unfolding l w .
  qed
  have t: "?b @ take (n * ?k) (drop ?k bs) = take (Suc n * ?k) bs" by (simp add: take_add)
  show ?case unfolding bus_stream.simps using ih p t by (simp add: c1(2))
qed

end
