(* ===== verification/Nrf51.thy ===== *)
theory Nrf51
  imports Chip
begin

text \<open>
  \<open>src/src/target/nrf51.c\<close>: the driver of the nRF51 and nRF52, whose flash is erased and programmed through
  the registers of the memory controller \<open>NVMC\<close>, and of the access port that stays open on a protected
  chip. What the driver relies on of the controller is \<open>nvmc_ok\<close>.
\<close>

unbundle bit_operations_syntax

subsection \<open>Registers\<close>

definition NRF51_NVMC_READY :: u32 where "NRF51_NVMC_READY = 0x4001E400"
definition NRF51_NVMC_CONFIG :: u32 where "NRF51_NVMC_CONFIG = 0x4001E504"
definition NRF51_NVMC_ERASEPAGE :: u32 where "NRF51_NVMC_ERASEPAGE = 0x4001E508"
definition NRF51_NVMC_ERASEALL :: u32 where "NRF51_NVMC_ERASEALL = 0x4001E50C"
definition NRF51_NVMC_ERASEUICR :: u32 where "NRF51_NVMC_ERASEUICR = 0x4001E514"
definition NRF51_UICR :: u32 where "NRF51_UICR = 0x10001000"

abbreviation (input) NVMC_CONFIG_REN :: u32 where "NVMC_CONFIG_REN \<equiv> 0"
abbreviation (input) NVMC_CONFIG_WEN :: u32 where "NVMC_CONFIG_WEN \<equiv> 1"
abbreviation (input) NVMC_CONFIG_EEN :: u32 where "NVMC_CONFIG_EEN \<equiv> 2"

subsection \<open>The probe\<close>

definition nrf51_add_flash :: "'w chip_env \<Rightarrow> u32 \<Rightarrow> u32 \<Rightarrow> u32 \<Rightarrow> 'w cm_target \<Rightarrow> 'w cm_target" where
  "nrf51_add_flash Ce addr len erasesize = chip_add_flash Ce nrf51 addr len erasesize 0 0xFF"

definition nrf51_found :: "'w chip_env \<Rightarrow> u32 \<Rightarrow> u32 \<Rightarrow> u8 list \<Rightarrow> u32 \<Rightarrow> u8 list \<Rightarrow> 'w cm_target \<Rightarrow> 'w cm_target" where
  "nrf51_found Ce page_size code_size driver ram commands t =
     (let (s, info) = chip_add_ram Ce 0x20000000 ram (set_driver driver t);
          t = (s\<lparr>cm_options := cm_options s OR CORTEXM_TOPT_INHIBIT_SRST\<rparr>, info);
          t = nrf51_add_flash Ce 0 (page_size * code_size) page_size t;
          t = nrf51_add_flash Ce NRF51_UICR page_size page_size t
      in chip_add_commands Ce commands t)"

definition nrf51_probe :: "'w chip_env \<Rightarrow> 'w cm_target \<Rightarrow> ('w cm_target, bool) outcome" where
  "nrf51_probe Ce t =
     (let rd = (\<lambda>a. on_target (cm_read32 (ch_cm Ce) a))
      in andthen (rd 0x10000010 t) (\<lambda>page_size t.
         andthen (rd 0x10000014 t) (\<lambda>code_size t.
         if page_size = 0xFFFFFFFF \<or> code_size = 0xFFFFFFFF \<or> page_size = 0 \<or> code_size = 0 \<or> page_size > 0x10000 \<or> code_size > 0x10000
         then return False t
         else andthen (rd 0x10000060 t) (\<lambda>uid0 t.
              andthen (rd 0x10000064 t) (\<lambda>uid1 t.
              if uid0 = 0xFFFFFFFF \<or> uid1 = 0xFFFFFFFF \<or> uid0 = 0 \<or> uid1 = 0 then return False t
              else andthen (rd 0x10000100 t) (\<lambda>info_part t.
                   if info_part \<noteq> 0xFFFFFFFF \<and> info_part \<noteq> 0 \<and> info_part AND 0xFF000 = 0x52000
                   then andthen (rd 0x1000010C t) (\<lambda>ram_size t.
                        return True (nrf51_found Ce page_size code_size (str ''Nordic nRF52'') (ram_size * 1024) (str ''nRF52'') t))
                   else return True (nrf51_found Ce page_size code_size (str ''Nordic nRF51'') 0x8000 (str ''nRF51'') t)))))))"

subsection \<open>The flash\<close>

definition nrf51_ready :: "'w cm_env \<Rightarrow> 'w cortexm \<Rightarrow> ('w cortexm, bool) outcome" where
  "nrf51_ready E = poll_while E NRF51_NVMC_READY (\<lambda>v. v = 0)"

definition nrf51_erase_page :: "'w cm_env \<Rightarrow> u32 \<Rightarrow> 'w cortexm \<Rightarrow> ('w cortexm, bool) outcome" where
  "nrf51_erase_page E addr s =
     andthen (if addr = NRF51_UICR then cm_write32 E NRF51_NVMC_ERASEUICR 1 s else cm_write32 E NRF51_NVMC_ERASEPAGE addr s)
       (\<lambda>x. nrf51_ready E)"

definition nrf51_flash_erase :: "'w cm_env \<Rightarrow> u32 \<Rightarrow> u32 \<Rightarrow> u32 \<Rightarrow> 'w cortexm \<Rightarrow> ('w cortexm, int) outcome" where
  "nrf51_flash_erase E blocksize addr len s =
     andthen (cm_write32 E NRF51_NVMC_CONFIG NVMC_CONFIG_EEN s) (\<lambda>x s.
     andthen (nrf51_ready E s) (\<lambda>ok s.
       if \<not> ok then return (- 1) s
       else andthen (page_loop (nrf51_erase_page E) blocksize addr len s) (\<lambda>ok s.
         if \<not> ok then return (- 1) s
         else andthen (cm_write32 E NRF51_NVMC_CONFIG NVMC_CONFIG_REN s) (\<lambda>x s.
              andthen (nrf51_ready E s) (\<lambda>ok. return (if ok then 0 else - 1))))))"

definition nrf51_flash_write :: "'w cm_env \<Rightarrow> u32 \<Rightarrow> u8 list \<Rightarrow> 'w cortexm \<Rightarrow> ('w cortexm, int) outcome" where
  "nrf51_flash_write E dest src s =
     andthen (cm_write32 E NRF51_NVMC_CONFIG NVMC_CONFIG_WEN s) (\<lambda>x s.
     andthen (nrf51_ready E s) (\<lambda>ok s.
       if \<not> ok then return (- 1) s
       else andthen (cm_mem_write E dest src s) (\<lambda>e s.
            andthen (nrf51_ready E s) (\<lambda>ok s.
              if \<not> ok then return (- 1) s
              else andthen (cm_write32 E NRF51_NVMC_CONFIG NVMC_CONFIG_REN s) (\<lambda>x. return 0)))))"

subsection \<open>Commands\<close>

definition nrf51_erase_with :: "u32 \<Rightarrow> 'w cm_env \<Rightarrow> 'w cortexm \<Rightarrow> ('w cortexm, bool) outcome" where
  "nrf51_erase_with reg E s =
     andthen (cm_write32 E NRF51_NVMC_CONFIG NVMC_CONFIG_EEN (cm_printf E (str ''erase..'' @ [10]) s)) (\<lambda>x s.
     andthen (nrf51_ready E s) (\<lambda>ok s.
       if \<not> ok then return False s
       else andthen (cm_write32 E reg 1 s) (\<lambda>x. nrf51_ready E)))"

definition nrf51_cmd_erase_all :: "'w cm_env \<Rightarrow> 'w cortexm \<Rightarrow> ('w cortexm, bool) outcome" where
  "nrf51_cmd_erase_all = nrf51_erase_with NRF51_NVMC_ERASEALL"

definition nrf51_cmd_erase_uicr :: "'w cm_env \<Rightarrow> 'w cortexm \<Rightarrow> ('w cortexm, bool) outcome" where
  "nrf51_cmd_erase_uicr = nrf51_erase_with NRF51_NVMC_ERASEUICR"

definition nrf51_cmd_read_hwid :: "'w cm_env \<Rightarrow> 'w cortexm \<Rightarrow> ('w cortexm, bool) outcome" where
  "nrf51_cmd_read_hwid E s = andthen (cm_read32 E 0x1000005C s) (\<lambda>v s.
     return True (cm_printf E (str ''Hardware ID: 0x'' @ fmt_0X 4 (v AND 0xFFFF) @ [10]) s))"

definition nrf51_cmd_read_fwid :: "'w cm_env \<Rightarrow> 'w cortexm \<Rightarrow> ('w cortexm, bool) outcome" where
  "nrf51_cmd_read_fwid E s = andthen (cm_read32 E 0x1000005C s) (\<lambda>v s.
     return True (cm_printf E (str ''Firmware ID: 0x'' @ fmt_0X 4 (drop_bit 16 v AND 0xFFFF) @ [10]) s))"

definition nrf51_cmd_read_deviceid :: "'w cm_env \<Rightarrow> 'w cortexm \<Rightarrow> ('w cortexm, bool) outcome" where
  "nrf51_cmd_read_deviceid E s =
     andthen (cm_read32 E 0x10000060 s) (\<lambda>low s. andthen (cm_read32 E 0x10000064 s) (\<lambda>high s.
     return True (cm_printf E (str ''Device ID: 0x'' @ fmt_0X 8 high @ fmt_0X 8 low @ [10]) s)))"

definition package_name :: "u32 \<Rightarrow> u8 list" where
  "package_name p =
     (if p = 0xFFFFFFFF then str ''Unspecified'' else if p = 0x2000 then str ''QF'' else if p = 0x2001 then str ''CI''
      else if p = 0x2004 then str ''QIxx'' else str ''Unknown (Code '' @ fmt_0X 0 p @ str '')'') @ [10]"

definition nrf51_cmd_read_deviceinfo :: "'w cm_env \<Rightarrow> 'w cortexm \<Rightarrow> ('w cortexm, bool) outcome" where
  "nrf51_cmd_read_deviceinfo E s =
     andthen (cm_read32 E 0x10000108 s) (\<lambda>package s.
     andthen (cm_read32 E 0x10000100 s) (\<lambda>part s.
     andthen (cm_read32 E 0x1000010C s) (\<lambda>ram s.
     andthen (cm_read32 E 0x10000110 s) (\<lambda>flash s.
     andthen (cm_read32 E 0x10000104 s) (\<lambda>variant s.
     return True (fold (cm_printf E)
       [str ''Part:'' @ [9, 9] @ str ''NRF'' @ fmt_0X 0 part @ [10],
        str ''Variant:'' @ [9] @ rev (le_bytes 4 (unat variant)) @ [10],
        str ''Package:'' @ [9], package_name package,
        str ''Ram:'' @ [9, 9] @ fmt_u ram @ str ''K'' @ [10],
        str ''Flash:'' @ [9, 9] @ fmt_u flash @ str ''K'' @ [10]] s))))))"

definition nrf51_cmd_read_deviceaddr :: "'w cm_env \<Rightarrow> 'w cortexm \<Rightarrow> ('w cortexm, bool) outcome" where
  "nrf51_cmd_read_deviceaddr E s =
     andthen (cm_read32 E 0x100000A0 s) (\<lambda>addr_type s.
     andthen (cm_read32 E 0x100000A4 s) (\<lambda>addr_low s.
     andthen (cm_read32 E 0x100000A8 s) (\<lambda>addr_high s.
     return True (cm_printf E ((if addr_type AND 1 = 0 then str ''Publicly Listed Address: 0x'' else str ''Randomly Assigned Address: 0x'') @
       fmt_0X 4 (addr_high AND 0xFFFF) @ fmt_0X 8 addr_low @ [10]) s))))"

text \<open>The table of the \<open>read\<close> command; its first entry prints the table.\<close>

definition nrf51_read_help :: "(u8 list \<times> u8 list) list" where
  "nrf51_read_help =
     [(str ''help'', str ''Display help for read commands''), (str ''hwid'', str ''Read hardware identification number''),
      (str ''fwid'', str ''Read pre-loaded firmware ID''), (str ''deviceid'', str ''Read unique device ID''),
      (str ''deviceaddr'', str ''Read device address''), (str ''deviceinfo'', str ''Read device information'')]"

definition nrf51_cmd_read_help :: "'w cm_env \<Rightarrow> 'w cortexm \<Rightarrow> ('w cortexm, bool) outcome" where
  "nrf51_cmd_read_help E s =
     return True (fold (\<lambda>(cmd, help). cm_printf E ([9] @ cmd @ str '' -- '' @ help @ [10])) nrf51_read_help
       (cm_printf E (str ''Read commands:'' @ [10]) s))"

definition nrf51_read_handlers :: "('w cm_env \<Rightarrow> 'w cortexm \<Rightarrow> ('w cortexm, bool) outcome) list" where
  "nrf51_read_handlers = [nrf51_cmd_read_help, nrf51_cmd_read_hwid, nrf51_cmd_read_fwid, nrf51_cmd_read_deviceid,
     nrf51_cmd_read_deviceaddr, nrf51_cmd_read_deviceinfo]"

text \<open>A beginning of a name is enough. The handlers return true when they succeed, and the result is negated.\<close>

definition nrf51_cmd_read :: "'w cm_env \<Rightarrow> u8 list list \<Rightarrow> 'w cortexm \<Rightarrow> ('w cortexm, bool) outcome" where
  "nrf51_cmd_read E argv s =
     (if length argv > 1 then
        case find (\<lambda>((cmd, help), f). strncmp_eq (argv ! 1) cmd (length (argv ! 1))) (zip nrf51_read_help nrf51_read_handlers) of
          Some (c, handler) \<Rightarrow> andthen (handler E s) (\<lambda>ok. return (\<not> ok))
        | None \<Rightarrow> nrf51_cmd_read_help E s
      else nrf51_cmd_read_help E s)"

subsection \<open>The access port of a protected chip\<close>

abbreviation (input) MDM_STATUS :: u16 where "MDM_STATUS \<equiv> 0x108"
abbreviation (input) MDM_CONTROL :: u16 where "MDM_CONTROL \<equiv> 0x104"
abbreviation (input) MDM_PROT_EN :: u16 where "MDM_PROT_EN \<equiv> 0x10C"

record mdm_target =
  mdm_driver :: "u8 list"
  mdm_regs_size :: nat

definition nrf51_mdm_probe :: "'w probe_env \<Rightarrow> 'w dp_ops \<Rightarrow> adiv5_ap \<Rightarrow> 'w \<Rightarrow> (adiv5_ap \<times> 'w, mdm_target option) outcome" where
  "nrf51_mdm_probe Pe D ap w =
     (if ap_idr ap \<noteq> 0x02880000 then return None (ap, w)
      else case pe_target_new Pe w of (ok, w) \<Rightarrow>
        if \<not> ok then return None (ap, w)
        else
          let w = (if ap_refcnt ap = 0 then pe_dp_ref Pe w else w);
              ap = ap\<lparr>ap_refcnt := ap_refcnt ap + 1\<rparr>
          in case andthen (firmware_ap_read D ap MDM_PROT_EN w) (\<lambda>x. firmware_ap_read D ap MDM_PROT_EN) of
               None \<Rightarrow> None
             | Some (Inl e, w) \<Rightarrow> Some (Inl e, (ap, w))
             | Some (Inr status, w) \<Rightarrow>
                 let driver = (if status \<noteq> 0 then str ''Nordic nRF52 Access Port'' else str ''Nordic nRF52 Access Port (protected)'')
                 in return (Some \<lparr>mdm_driver = driver, mdm_regs_size = 4\<rparr>) (ap, pe_add_commands Pe driver w))"

partial_function (option) nrf51_mdm_wait :: "'w dp_ops \<Rightarrow> adiv5_ap \<Rightarrow> 'w \<Rightarrow> ('w, unit) outcome" where
  "nrf51_mdm_wait D ap w =
     andthen (firmware_ap_read D ap MDM_STATUS w) (\<lambda>status w. if status \<noteq> 0 then nrf51_mdm_wait D ap w else return () w)"

text \<open>The two writes to the debug port go to the addresses 1 and 2, as in the code.\<close>

definition nrf51_mdm_cmd_erase_mass :: "'w dp_ops \<Rightarrow> adiv5_ap \<Rightarrow> 'w \<Rightarrow> ('w, bool) outcome" where
  "nrf51_mdm_cmd_erase_mass D ap w =
     andthen (firmware_ap_read D ap MDM_STATUS w) (\<lambda>status w.
     andthen (adiv5_dp_write D 1 0x50000000 w) (\<lambda>x w.
     andthen (adiv5_dp_write D 2 0x01000000 w) (\<lambda>x w.
     andthen (firmware_ap_write D ap MDM_CONTROL 1 w) (\<lambda>x w.
     andthen (nrf51_mdm_wait D ap w) (\<lambda>x w.
     andthen (firmware_ap_read D ap MDM_PROT_EN w) (\<lambda>x w.
     andthen (firmware_ap_read D ap MDM_PROT_EN w) (\<lambda>x. return True)))))))"

subsection \<open>What the controller of the flash does\<close>

text \<open>The contract of \<open>NVMC\<close>, from Nordic's description: \<open>busy c\<close> reads of \<open>READY\<close> remain until it is
  ready; \<open>cfg\<close> selects what is enabled; an enabled erase fills a page of \<open>page\<close> bytes, a word written to
  erased flash is stored (the controller stalls the bus meanwhile), and no other access changes the flash.
  \<open>flash a\<close>: the word at \<open>a\<close> is flash.\<close>

definition nvmc_ok :: "u32 \<Rightarrow> (u32 \<Rightarrow> bool) \<Rightarrow> 'c core_bus \<Rightarrow> ('c \<Rightarrow> nat) \<Rightarrow> ('c \<Rightarrow> u32) \<Rightarrow> ('c \<Rightarrow> u32 \<Rightarrow> u8) \<Rightarrow> bool" where
  "nvmc_ok page flash B busy cfg content \<longleftrightarrow>
     (\<forall>c. let (v, c') = cb_read B NRF51_NVMC_READY c
          in (v = 0 \<longleftrightarrow> busy c \<noteq> 0) \<and> busy c' = busy c - 1 \<and> cfg c' = cfg c \<and> content c' = content c) \<and>
     (\<forall>c v. busy c = 0 \<longrightarrow> cfg (cb_write B NRF51_NVMC_CONFIG v c) = v \<and> content (cb_write B NRF51_NVMC_CONFIG v c) = content c) \<and>
     (\<forall>c a. busy c = 0 \<longrightarrow> cfg c = NVMC_CONFIG_EEN \<longrightarrow> a mod page = 0 \<longrightarrow> flash a \<longrightarrow> a \<noteq> NRF51_UICR \<longrightarrow>
        (let c' = cb_write B NRF51_NVMC_ERASEPAGE a c in cfg c' = cfg c \<and> content c' = wipe 0xFF a (unat page) (content c))) \<and>
     (\<forall>c. busy c = 0 \<longrightarrow> cfg c = NVMC_CONFIG_EEN \<longrightarrow>
        (let c' = cb_write B NRF51_NVMC_ERASEUICR 1 c in cfg c' = cfg c \<and> content c' = wipe 0xFF NRF51_UICR (unat page) (content c))) \<and>
     (\<forall>c a v. cfg c = NVMC_CONFIG_WEN \<longrightarrow> aligned a 2 \<longrightarrow> flash a \<longrightarrow> (\<forall>i < 4. content c (a + word_of_nat i) = 0xFF) \<longrightarrow>
        (let c' = cb_write B a v c in cfg c' = cfg c \<and> content c' = poke (content c) a (le_bytes 4 (unat v))))"

definition nrf51_on :: "u32 \<Rightarrow> (u32 \<Rightarrow> bool) \<Rightarrow> 'w cm_env \<Rightarrow> 'c core_bus \<Rightarrow> ('w \<Rightarrow> 'c core_port) \<Rightarrow> ('c \<Rightarrow> nat) \<Rightarrow> ('c \<Rightarrow> u32) \<Rightarrow> ('c \<Rightarrow> u32 \<Rightarrow> u8) \<Rightarrow> 'w cortexm \<Rightarrow> bool" where
  "nrf51_on page flash E B st busy cfg content s \<longleftrightarrow> nvmc_ok page flash B busy cfg content \<and> chip_on E B st s"

lemma nrf51_word_runs:
  assumes "nrf51_on page flash E B st busy cfg content s" and "aligned a 2"
  shows "runs (cm_write32 E a v s) (\<lambda>x s'. nrf51_on page flash E B st busy cfg content s' \<and> core_of st s' = cb_write B a v (core_of st s))"
  using assms chip_write32 [of E B st s a v] by (auto simp: nrf51_on_def elim!: runs_mono)

lemma nrf51_aligned [simp]:
  "aligned NRF51_NVMC_READY 2" "aligned NRF51_NVMC_CONFIG 2" "aligned NRF51_NVMC_ERASEPAGE 2" "aligned NRF51_NVMC_ERASEUICR 2"
  by (simp_all add: aligned_def NRF51_NVMC_READY_def NRF51_NVMC_CONFIG_def NRF51_NVMC_ERASEPAGE_def NRF51_NVMC_ERASEUICR_def)

lemma nrf51_ready_runs:
  assumes on: "nrf51_on page flash E B st busy cfg content s"
  shows "runs (nrf51_ready E s) (\<lambda>ok s'. ok \<and> nrf51_on page flash E B st busy cfg content s' \<and> busy (core_of st s') = 0 \<and>
    cfg (core_of st s') = cfg (core_of st s) \<and> content (core_of st s') = content (core_of st s))"
proof -
  have rd: "\<forall>c. let (v, c') = cb_read B NRF51_NVMC_READY c in (v = 0 \<longleftrightarrow> busy c \<noteq> 0) \<and> busy c' = busy c - 1 \<and> cfg c' = cfg c \<and> content c' = content c"
    using on by (simp add: nrf51_on_def nvmc_ok_def)
  have "\<exists>c'. polls B NRF51_NVMC_READY (\<lambda>v. v = 0) (core_of st s) c' \<and> True \<and> busy c' = 0 \<and> (cfg c', content c') = (cfg (core_of st s), content (core_of st s))"
    by (rule polls_pending [where P = "\<lambda>c. True" and pending = busy and same = "\<lambda>c. (cfg c, content c)"])
      (use rd in \<open>auto simp: case_prod_unfold Let_def\<close>)
  then obtain c' where c': "polls B NRF51_NVMC_READY (\<lambda>v. v = 0) (core_of st s) c'" "busy c' = 0" "cfg c' = cfg (core_of st s)" "content c' = content (core_of st s)"
    by auto
  have on': "chip_on E B st s" using on by (simp add: nrf51_on_def)
  show ?thesis unfolding nrf51_ready_def
    by (rule runs_mono [OF chip_poll [OF on' nrf51_aligned(1) c'(1)]]) (use on c' in \<open>auto simp: nrf51_on_def\<close>)
qed

lemma nrf51_config_runs:
  assumes on: "nrf51_on page flash E B st busy cfg content s" and "busy (core_of st s) = 0"
  shows "runs (cm_write32 E NRF51_NVMC_CONFIG v s) (\<lambda>x s'. nrf51_on page flash E B st busy cfg content s' \<and>
    cfg (core_of st s') = v \<and> content (core_of st s') = content (core_of st s))"
proof -
  have "nvmc_ok page flash B busy cfg content" using on by (simp add: nrf51_on_def)
  then have "cfg (cb_write B NRF51_NVMC_CONFIG v (core_of st s)) = v \<and> content (cb_write B NRF51_NVMC_CONFIG v (core_of st s)) = content (core_of st s)"
    using assms(2) by (simp add: nvmc_ok_def)
  then show ?thesis by (intro runs_mono [OF nrf51_word_runs [OF on nrf51_aligned(2)]]) auto
qed

interpretation nrf51: page_device "nrf51_erase_page E" page "\<lambda>a. a mod page = 0 \<and> flash a"
  "\<lambda>s. nrf51_on page flash E B st busy cfg content s \<and> busy (core_of st s) = 0 \<and> cfg (core_of st s) = NVMC_CONFIG_EEN"
  "\<lambda>s. nrf51_on page flash E B st busy cfg content s \<and> busy (core_of st s) = 0 \<and> cfg (core_of st s) = NVMC_CONFIG_EEN"
  "\<lambda>s. content (core_of st s)" "0xFF"
  for E :: "'w cm_env" and page flash and B :: "'c core_bus" and st busy cfg content
proof (unfold_locales, simp only: disj_absorb, elim conjE)
  fix s a assume on: "nrf51_on page flash E B st busy cfg content s" and c: "busy (core_of st s) = 0" "cfg (core_of st s) = NVMC_CONFIG_EEN"
    and a: "a mod page = 0" "flash a"
  have ok: "nvmc_ok page flash B busy cfg content" using on by (simp add: nrf51_on_def)
  let ?c = "if a = NRF51_UICR then cb_write B NRF51_NVMC_ERASEUICR 1 (core_of st s) else cb_write B NRF51_NVMC_ERASEPAGE a (core_of st s)"
  have e: "cfg ?c = NVMC_CONFIG_EEN" "content ?c = wipe 0xFF a (unat page) (content (core_of st s))"
    using ok a c by (simp_all add: nvmc_ok_def Let_def)
  have "runs (if a = NRF51_UICR then cm_write32 E NRF51_NVMC_ERASEUICR 1 s else cm_write32 E NRF51_NVMC_ERASEPAGE a s)
    (\<lambda>x s'. nrf51_on page flash E B st busy cfg content s' \<and> core_of st s' = ?c)"
    using nrf51_word_runs [OF on nrf51_aligned(4), of 1] nrf51_word_runs [OF on nrf51_aligned(3), of a] by simp
  then show "runs (nrf51_erase_page E a s) (\<lambda>ok s'. ok \<and> (nrf51_on page flash E B st busy cfg content s' \<and> busy (core_of st s') = 0 \<and> cfg (core_of st s') = NVMC_CONFIG_EEN) \<and>
      content (core_of st s') = wipe 0xFF a (unat page) (content (core_of st s)))"
    unfolding nrf51_erase_page_def
  proof (rule runs_andthen, elim conjE)
    fix x s1 assume on1: "nrf51_on page flash E B st busy cfg content s1" and c1: "core_of st s1 = ?c"
    show "runs (nrf51_ready E s1) (\<lambda>ok s'. ok \<and> (nrf51_on page flash E B st busy cfg content s' \<and> busy (core_of st s') = 0 \<and> cfg (core_of st s') = NVMC_CONFIG_EEN) \<and>
      content (core_of st s') = wipe 0xFF a (unat page) (content (core_of st s)))"
      by (rule runs_mono [OF nrf51_ready_runs [OF on1]]) (use e in \<open>auto simp: c1 simp del: if_split\<close>)
  qed
qed

lemma nrf51_erase_runs:
  assumes on: "nrf51_on page flash E B st busy cfg content s" and idle: "busy (core_of st s) = 0" and pages: "flash_pages page flash addr len"
  shows "runs (nrf51_flash_erase E page addr len s) (\<lambda>r s'. r = 0 \<and> nrf51_on page flash E B st busy cfg content s' \<and>
    busy (core_of st s') = 0 \<and> cfg (core_of st s') = NVMC_CONFIG_REN \<and> content (core_of st s') = wipe 0xFF addr (page_span page len) (content (core_of st s)))"
  (is "runs _ (\<lambda>r s'. r = 0 \<and> ?Q s')")
proof -
  note nz = pages [unfolded flash_pages_def, THEN conjunct1]
  have span: "page_span page len \<le> 2 ^ 32" using pages by (simp add: flash_pages_def)
  have valid: "\<And>i. i * unat page < unat len \<Longrightarrow> (addr + word_of_nat i * page) mod page = 0 \<and> flash (addr + word_of_nat i * page)"
    using pages unfolding flash_pages_def by (elim conjE, intro conjI page_multiples) simp_all
  show ?thesis unfolding nrf51_flash_erase_def
  proof (rule runs_andthen [OF nrf51_config_runs [OF on idle]], elim conjE)
    fix x s1 assume s1: "nrf51_on page flash E B st busy cfg content s1" "cfg (core_of st s1) = NVMC_CONFIG_EEN" "content (core_of st s1) = content (core_of st s)"
    show "runs (andthen (nrf51_ready E s1) (\<lambda>ok s. if \<not> ok then return (- 1) s else andthen (page_loop (nrf51_erase_page E) page addr len s) (\<lambda>ok s.
        if \<not> ok then return (- 1) s else andthen (cm_write32 E NRF51_NVMC_CONFIG NVMC_CONFIG_REN s) (\<lambda>x s. andthen (nrf51_ready E s) (\<lambda>ok. return (if ok then 0 else - 1)))))) (\<lambda>r s'. r = 0 \<and> ?Q s')"
    proof (rule runs_andthen [OF nrf51_ready_runs [OF s1(1)]], elim conjE, simp only: simp_thms if_False)
      fix s2 assume s2: "nrf51_on page flash E B st busy cfg content s2" "busy (core_of st s2) = 0" "cfg (core_of st s2) = cfg (core_of st s1)"
        "content (core_of st s2) = content (core_of st s1)"
      have r2: "nrf51_on page flash E B st busy cfg content s2 \<and> busy (core_of st s2) = 0 \<and> cfg (core_of st s2) = NVMC_CONFIG_EEN" using s1 s2 by simp
      show "runs (andthen (page_loop (nrf51_erase_page E) page addr len s2) (\<lambda>ok s. if \<not> ok then return (- 1) s
          else andthen (cm_write32 E NRF51_NVMC_CONFIG NVMC_CONFIG_REN s) (\<lambda>x s. andthen (nrf51_ready E s) (\<lambda>ok. return (if ok then 0 else - 1))))) (\<lambda>r s'. r = 0 \<and> ?Q s')"
      proof (rule runs_andthen [OF nrf51.page_loop_erases [OF nz disjI1 [OF r2] valid span]], assumption, simp only: disj_absorb simp_thms if_False, elim conjE)
        fix s3 assume s3: "nrf51_on page flash E B st busy cfg content s3" "busy (core_of st s3) = 0"
          "content (core_of st s3) = wipe 0xFF addr (page_span page len) (content (core_of st s2))"
        show "runs (andthen (cm_write32 E NRF51_NVMC_CONFIG NVMC_CONFIG_REN s3) (\<lambda>x s. andthen (nrf51_ready E s) (\<lambda>ok. return (if ok then 0 else - 1)))) (\<lambda>r s'. r = 0 \<and> ?Q s')"
          by (rule runs_andthen [OF nrf51_config_runs [OF s3(1,2)]], elim conjE, rule runs_andthen [OF nrf51_ready_runs], assumption, rule runs_return)
            (use s1(3) s2(4) s3(3) in simp)
      qed
    qed
  qed
qed

text \<open>The words of a block written to erased flash are stored one after the other.\<close>

lemma nvmc_stream:
  assumes ok: "nvmc_ok page flash B busy cfg content" and c: "cfg c = NVMC_CONFIG_WEN" and al: "aligned dest 2"
    and len: "4 * n \<le> length bs" "4 * n \<le> 2 ^ 32"
    and ff: "\<And>i. i < 4 * n \<Longrightarrow> content c (dest + word_of_nat i) = 0xFF" and fl: "\<And>i. i < n \<Longrightarrow> flash (dest + word_of_nat (4 * i))"
  shows "cfg (bus_stream B 2 dest n bs c) = NVMC_CONFIG_WEN \<and> content (bus_stream B 2 dest n bs c) = poke (content c) dest (take (4 * n) bs)"
proof -
  have put: "cfg (bus_put B 2 a xs d) = NVMC_CONFIG_WEN \<and> content (bus_put B 2 a xs d) = poke (content d) a xs"
    if "cfg d = NVMC_CONFIG_WEN" "aligned a 2" "flash a" "length xs = 2 ^ 2" "\<forall>i < 2 ^ 2. content d (a + word_of_nat i) = 0xFF" for a xs d
    using ok that by (simp add: nvmc_ok_def Let_def bus_put_def le_bytes_word del: le_bytes_numeral)
  have len': "n * 2 ^ 2 \<le> length bs" "n * 2 ^ 2 \<le> 2 ^ 32" using len by simp_all
  have ff': "\<And>i. i < n * 2 ^ 2 \<Longrightarrow> content c (dest + word_of_nat i) = 0xFF" using ff by simp
  have fl': "flash (dest + word_of_nat (i * 2 ^ 2))" if "i < n" for i
  proof -
    have "i * 2 ^ 2 = 4 * i" by simp
    then show ?thesis using fl [OF that] by (simp only:)
  qed
  have t: "n * 2 ^ 2 = 4 * n" by simp
  have "cfg (bus_stream B 2 dest n bs c) = NVMC_CONFIG_WEN \<and> content (bus_stream B 2 dest n bs c) = poke (content c) dest (take (n * 2 ^ 2) bs)"
    by (rule stream_stores [where ok = "\<lambda>d. cfg d = NVMC_CONFIG_WEN" and flash = flash, OF _ order_refl c al len'])
      (rule put ff' fl', assumption+)+
  then show ?thesis unfolding t .
qed

lemma nrf51_write_runs:
  assumes on: "nrf51_on page flash E B st busy cfg content s" and idle: "busy (core_of st s) = 0"
    and al: "aligned dest 2" "4 dvd length src" "length src \<le> 2 ^ 32"
    and ff: "\<And>i. i < length src \<Longrightarrow> content (core_of st s) (dest + word_of_nat i) = 0xFF"
    and fl: "\<And>i. i < length src div 4 \<Longrightarrow> flash (dest + word_of_nat (4 * i))"
  shows "runs (nrf51_flash_write E dest src s) (\<lambda>r s'. r = 0 \<and> nrf51_on page flash E B st busy cfg content s' \<and>
    cfg (core_of st s') = NVMC_CONFIG_REN \<and> content (core_of st s') = poke (content (core_of st s)) dest src)"
  (is "runs _ (\<lambda>r s'. r = 0 \<and> ?Q s')")
  unfolding nrf51_flash_write_def
proof (rule runs_andthen [OF nrf51_config_runs [OF on idle]], elim conjE)
  fix x s1 assume s1: "nrf51_on page flash E B st busy cfg content s1" "cfg (core_of st s1) = NVMC_CONFIG_WEN" "content (core_of st s1) = content (core_of st s)"
  let ?rest = "\<lambda>s. andthen (cm_mem_write E dest src s) (\<lambda>e s. andthen (nrf51_ready E s) (\<lambda>ok s. if \<not> ok then return (- 1) s
      else andthen (cm_write32 E NRF51_NVMC_CONFIG NVMC_CONFIG_REN s) (\<lambda>x. return 0)))"
  have rest: "runs (?rest s2) (\<lambda>r s'. r = 0 \<and> ?Q s')"
    if s2: "nrf51_on page flash E B st busy cfg content s2" "cfg (core_of st s2) = cfg (core_of st s1)" "content (core_of st s2) = content (core_of st s1)" for s2
  proof -
  have ok: "nvmc_ok page flash B busy cfg content" "chip_on E B st s2" using s2(1) by (simp_all add: nrf51_on_def)
  have n: "4 * (length src div 4) = length src" using al(2) by simp
  let ?c = "bus_stream B 2 dest (length src div 4) src (core_of st s2)"
  have "cfg ?c = NVMC_CONFIG_WEN \<and> content ?c = poke (content (core_of st s2)) dest (take (4 * (length src div 4)) src)"
    by (rule nvmc_stream [OF ok(1)]) (use n al(1,3) s1(2,3) s2(2,3) ff fl in simp_all)
  then have c: "cfg ?c = NVMC_CONFIG_WEN" "content ?c = poke (content (core_of st s)) dest src" using s1(3) s2(3) by (simp_all add: n)
    show ?thesis
    proof (rule runs_andthen [OF chip_write_words [OF ok(2) al(1,2)]], elim conjE)
      fix e s3 assume "chip_on E B st s3" "core_of st s3 = ?c"
      then have s3: "nrf51_on page flash E B st busy cfg content s3" "core_of st s3 = ?c"
        using ok by (simp_all add: nrf51_on_def)
      show "runs (andthen (nrf51_ready E s3) (\<lambda>ok s. if \<not> ok then return (- 1) s
        else andthen (cm_write32 E NRF51_NVMC_CONFIG NVMC_CONFIG_REN s) (\<lambda>x. return 0))) (\<lambda>r s'. r = 0 \<and> ?Q s')"
        by (rule runs_andthen [OF nrf51_ready_runs [OF s3(1)]], elim conjE, simp only: simp_thms if_False, rule runs_andthen [OF nrf51_config_runs], assumption, assumption)
          (use c s3(2) in \<open>auto intro!: runs_return\<close>)
    qed
  qed
  show "runs (andthen (nrf51_ready E s1) (\<lambda>ok s. if \<not> ok then return (- 1) s else ?rest s)) (\<lambda>r s'. r = 0 \<and> ?Q s')"
    by (rule runs_andthen [OF nrf51_ready_runs [OF s1(1)]], elim conjE, simp only: simp_thms if_False, rule rest)
qed

text \<open>
  C11. Erasing flash and programming it on an nRF51 or nRF52: with the memory controller behaving as
  described and idle at the start, \<open>nrf51_flash_erase\<close> and then \<open>nrf51_flash_write\<close> of data within the
  erased pages both report success; afterwards the flash holds the data, \<open>0xFF\<close> in the rest of the erased
  pages, and what it held everywhere else, and it is read-only again. Everything goes through the debug
  port, the access port and the waiting for \<open>READY\<close>, however long the controller is busy.
\<close>

theorem nrf51_programs:
  assumes "nrf51_on page flash E B st busy cfg content s" and "busy (core_of st s) = 0" and "flash_pages page flash addr len"
    and "aligned dest 2" and "4 dvd length src" and "unat (dest - addr) + length src \<le> page_span page len"
    and "\<And>i. i < length src div 4 \<Longrightarrow> flash (dest + word_of_nat (4 * i))"
  shows "runs (andthen (nrf51_flash_erase E page addr len s) (\<lambda>r1 s. andthen (nrf51_flash_write E dest src s) (\<lambda>r2. return (r1, r2))))
    (\<lambda>r s'. r = (0, 0) \<and> cfg (core_of st s') = 0 \<and>
       content (core_of st s') = poke (wipe 0xFF addr (page_span page len) (content (core_of st s))) dest src)"
proof (rule runs_andthen [OF nrf51_erase_runs [OF assms(1-3)]], elim conjE)
  fix r1 s1 assume s1: "r1 = 0" "nrf51_on page flash E B st busy cfg content s1" "busy (core_of st s1) = 0"
    "content (core_of st s1) = wipe 0xFF addr (page_span page len) (content (core_of st s))"
  have span: "page_span page len \<le> 2 ^ 32" using assms(3) by (simp add: flash_pages_def)
  have ff: "content (core_of st s1) (dest + word_of_nat i) = 0xFF" if "i < length src" for i
    unfolding s1(4) by (rule wiped_range [OF that assms(6) span])
  have l: "length src \<le> 2 ^ 32" using assms(6) span by simp
  show "runs (andthen (nrf51_flash_write E dest src s1) (\<lambda>r2. return (r1, r2))) (\<lambda>r s'. r = (0, 0) \<and> cfg (core_of st s') = 0 \<and>
       content (core_of st s') = poke (wipe 0xFF addr (page_span page len) (content (core_of st s))) dest src)"
    by (rule runs_andthen [OF nrf51_write_runs [OF s1(2,3) assms(4,5) l ff assms(7)]]) (use s1(1,4) in \<open>auto intro!: runs_return\<close>)
qed

text \<open>A controller: how busy it is, what is enabled, and the memory. Writing can only clear bits.\<close>

type_synonym nvmc = "nat \<times> u32 \<times> (u32 \<Rightarrow> u8)"

definition nvmc_bus :: "u32 \<Rightarrow> (u32 \<Rightarrow> bool) \<Rightarrow> nvmc core_bus" where
  "nvmc_bus page flash = \<lparr>
     cb_read = (\<lambda>a (b, e, m). if a = NRF51_NVMC_READY then (if b = 0 then 1 else 0, (b - 1, e, m)) else (word_of_nat (le_word (mem_bytes m a 4)), (b, e, m))),
     cb_write = (\<lambda>a v (b, e, m).
       if a = NRF51_NVMC_CONFIG then (1, v, m)
       else if a = NRF51_NVMC_ERASEPAGE then (3, e, if e = 2 then wipe 0xFF v (unat page) m else m)
       else if a = NRF51_NVMC_ERASEUICR then (3, e, if e = 2 then wipe 0xFF NRF51_UICR (unat page) m else m)
       else if e = 1 \<and> flash a then (2, e, \<lambda>x. if unat (x - a) < 4 then m x AND le_bytes 4 (unat v) ! unat (x - a) else m x)
       else (b, e, m)),
     cb_part = (\<lambda>a bs c. c)\<rparr>"

lemma nvmc_bus_ok:
  assumes "\<And>a. flash a \<Longrightarrow> a \<notin> {NRF51_NVMC_CONFIG, NRF51_NVMC_ERASEPAGE, NRF51_NVMC_ERASEUICR}"
  shows "nvmc_ok page flash (nvmc_bus page flash) fst (\<lambda>c. fst (snd c)) (\<lambda>c. snd (snd c))"
proof -
  have d: "NRF51_NVMC_CONFIG \<noteq> NRF51_NVMC_ERASEPAGE" "NRF51_NVMC_ERASEUICR \<noteq> NRF51_NVMC_CONFIG" "NRF51_NVMC_ERASEPAGE \<noteq> NRF51_NVMC_CONFIG"
    "NRF51_NVMC_ERASEUICR \<noteq> NRF51_NVMC_ERASEPAGE"
    by (simp_all add: NRF51_NVMC_CONFIG_def NRF51_NVMC_ERASEPAGE_def NRF51_NVMC_ERASEUICR_def)
  have w: "snd (snd (cb_write (nvmc_bus page flash) a v (b, 1, m))) = poke m a (le_bytes 4 (unat v))" "fst (snd (cb_write (nvmc_bus page flash) a v (b, 1, m))) = 1"
    if ff: "\<forall>i < 4. m (a + word_of_nat i) = 0xFF" and fl: "flash a" for a v b m
  proof -
    have m: "m x = 0xFF" if "unat (x - a) < 4" for x using ff [rule_format, OF that] by simp
    have n: "a \<noteq> NRF51_NVMC_CONFIG" "a \<noteq> NRF51_NVMC_ERASEPAGE" "a \<noteq> NRF51_NVMC_ERASEUICR" using assms [OF fl] by simp_all
    have x: "(0xFF :: u8) AND y = y" for y
    proof -
      have "(0xFF :: u8) = - 1" by simp
      then show ?thesis by (simp only: and.left_neutral)
    qed
    show "snd (snd (cb_write (nvmc_bus page flash) a v (b, 1, m))) = poke m a (le_bytes 4 (unat v))" "fst (snd (cb_write (nvmc_bus page flash) a v (b, 1, m))) = 1"
      using n fl by (simp_all add: nvmc_bus_def poke_def fun_eq_iff m x length_le_bytes del: le_bytes_numeral)
  qed
  have r: "fst (cb_read (nvmc_bus page flash) NRF51_NVMC_READY (b, e, m)) = (if b = 0 then 1 else 0)"
    "snd (cb_read (nvmc_bus page flash) NRF51_NVMC_READY (b, e, m)) = (b - 1, e, m)" for b e m by (simp_all add: nvmc_bus_def)
  have o: "cb_write (nvmc_bus page flash) NRF51_NVMC_CONFIG v (b, e, m) = (1, v, m)"
    "cb_write (nvmc_bus page flash) NRF51_NVMC_ERASEPAGE v (b, 2, m) = (3, 2, wipe 0xFF v (unat page) m)"
    "cb_write (nvmc_bus page flash) NRF51_NVMC_ERASEUICR v (b, 2, m) = (3, 2, wipe 0xFF NRF51_UICR (unat page) m)" for v b e m
    using d by (simp_all add: nvmc_bus_def)
  show ?thesis unfolding nvmc_ok_def
    by (intro conjI allI impI) (use w in \<open>auto simp: r o Let_def case_prod_unfold split: if_splits simp del: le_bytes_numeral\<close>)
qed

definition nrf_flash :: "u32 \<Rightarrow> bool" where "nrf_flash a \<longleftrightarrow> unat a < 0x40000"

lemma nrf_flash_ok: "nvmc_ok 0x400 nrf_flash (nvmc_bus 0x400 nrf_flash) fst (\<lambda>c. fst (snd c)) (\<lambda>c. snd (snd c))"
  by (rule nvmc_bus_ok) (auto simp: nrf_flash_def NRF51_NVMC_CONFIG_def NRF51_NVMC_ERASEPAGE_def NRF51_NVMC_ERASEUICR_def)

theorem nrf51_programs_witness:
  "let B = nvmc_bus 0x400 nrf_flash
   in runs (andthen (nrf51_flash_erase (plain_env B) 0x400 0x400 0x400 (plain_cm (0, 0, \<lambda>x. 0x55)))
        (\<lambda>r1 s. andthen (nrf51_flash_write (plain_env B) 0x404 [1, 2, 3, 4] s) (\<lambda>r2. return (r1, r2))))
      (\<lambda>r s'. r = (0, 0) \<and> map (snd (snd (core_of id s'))) [0x3FF, 0x400, 0x404, 0x407, 0x408, 0x7FF, 0x800] = [0x55, 0xFF, 1, 4, 0xFF, 0xFF, 0x55])"
proof -
  let ?B = "nvmc_bus 0x400 nrf_flash" and ?s = "plain_cm (0, 0, \<lambda>x. 0x55) :: nvmc core_port cortexm"
  have on: "nrf51_on 0x400 nrf_flash (plain_env ?B) ?B id fst (\<lambda>c. fst (snd c)) (\<lambda>c. snd (snd c)) ?s"
    unfolding nrf51_on_def chip_on_def by (intro conjI nrf_flash_ok plain_ready)
  have pages: "flash_pages 0x400 nrf_flash 0x400 0x400"
    by (auto simp: flash_pages_def page_span_def nrf_flash_def)
  have al: "aligned 0x404 2" "4 dvd length [1, 2, 3, 4 :: u8]" by (simp_all add: aligned_def take_bit_eq_mod numeral_eq_Suc)
  have le: "unat (0x404 - 0x400 :: u32) + length [1, 2, 3, 4 :: u8] \<le> page_span 0x400 0x400" by (simp add: page_span_def)
  have fl: "nrf_flash (0x404 + word_of_nat (4 * i))" if "i < length [1, 2, 3, 4 :: u8] div 4" for i
    using that by (simp add: nrf_flash_def)
  have idle: "fst (core_of id ?s) = 0" by (simp add: plain_ready(3) [unfolded id_apply])
  have m1: "unat (- 1 :: u32) = 0xFFFFFFFF" by (simp add: unsigned_minus_1_eq_mask mask_eq_exp_minus_1)
  show ?thesis unfolding Let_def
    by (rule runs_mono [OF nrf51_programs [OF on idle pages al le fl]])
      (simp_all add: plain_ready(3) [unfolded id_apply] poke_def wipe_def page_span_def m1)
qed

end
