(* ===== verification/Stm32f1.thy ===== *)
theory Stm32f1
  imports Chip
begin

text \<open>
  \<open>src/src/target/stm32f1.c\<close>: the driver of the STM32F0, F1 and F3 and of their GD32 relatives. The flash is
  erased page by page and programmed in halfwords through the registers of the controller \<open>FPEC\<close>; parts
  of extra-large density have a second bank with registers of its own. The option bytes can only be
  erased together.
\<close>

unbundle bit_operations_syntax

subsection \<open>Registers\<close>

definition FLASH_KEYR :: u32 where "FLASH_KEYR = 0x40022004"
definition FLASH_OPTKEYR :: u32 where "FLASH_OPTKEYR = 0x40022008"
definition FLASH_SR :: u32 where "FLASH_SR = 0x4002200C"
definition FLASH_CR :: u32 where "FLASH_CR = 0x40022010"
definition FLASH_AR :: u32 where "FLASH_AR = 0x40022014"
definition FLASH_OBR :: u32 where "FLASH_OBR = 0x4002201C"
definition FLASH_OBP_RDP :: u32 where "FLASH_OBP_RDP = 0x1FFFF800"
definition FLASH_BANK2_OFFSET :: u32 where "FLASH_BANK2_OFFSET = 0x40"
definition FLASH_BANK_SPLIT :: u32 where "FLASH_BANK_SPLIT = 0x08080000"

abbreviation (input) CR_OPTWRE :: u32 where "CR_OPTWRE \<equiv> 0x200"
abbreviation (input) CR_LOCK :: u32 where "CR_LOCK \<equiv> 0x80"
abbreviation (input) CR_STRT :: u32 where "CR_STRT \<equiv> 0x40"
abbreviation (input) CR_OPTER :: u32 where "CR_OPTER \<equiv> 0x20"
abbreviation (input) CR_OPTPG :: u32 where "CR_OPTPG \<equiv> 0x10"
abbreviation (input) CR_MER :: u32 where "CR_MER \<equiv> 4"
abbreviation (input) CR_PER :: u32 where "CR_PER \<equiv> 2"
abbreviation (input) CR_PG :: u32 where "CR_PG \<equiv> 1"
abbreviation (input) KEY1 :: u32 where "KEY1 \<equiv> 0x45670123"
abbreviation (input) KEY2 :: u32 where "KEY2 \<equiv> 0xCDEF89AB"
abbreviation (input) SR_ERROR_MASK :: u32 where "SR_ERROR_MASK \<equiv> 0x14"
abbreviation (input) SR_EOP :: u32 where "SR_EOP \<equiv> 0x20"

subsection \<open>The probes\<close>

definition stm32f1_add_flash :: "'w chip_env \<Rightarrow> u32 \<Rightarrow> u32 \<Rightarrow> u32 \<Rightarrow> 'w cm_target \<Rightarrow> 'w cm_target" where
  "stm32f1_add_flash Ce addr len erasesize = chip_add_flash Ce stm32f1 addr len erasesize erasesize 0xFF"

definition set_idcode :: "u16 \<Rightarrow> 'w cm_target \<Rightarrow> 'w cm_target" where
  "set_idcode i t = (fst t, snd t\<lparr>ci_idcode := i\<rparr>)"

definition is_core :: "u32 \<Rightarrow> 'w cm_target \<Rightarrow> bool" where
  "is_core part t \<longleftrightarrow> ci_cpuid (snd t) AND 0xFFF0 = part"

definition gd32f1_probe :: "'w chip_env \<Rightarrow> 'w cm_target \<Rightarrow> ('w cm_target, bool) outcome" where
  "gd32f1_probe Ce t =
     (let stored = ci_idcode (snd t)
      in andthen (on_target (cm_read32 (ch_cm Ce) (if is_core 0xD200 t then 0x40015800 else 0xE0042000)) t) (\<lambda>v t.
         let t = set_idcode (ucast (v AND 0xFFF)) t
         in andthen (on_target (cm_read32 (ch_cm Ce) 0x1FFFF7E0) t) (\<lambda>signature t.
            let i = ci_idcode (snd t);
                driver = (if i = 0x414 then Some (str ''GD32F3'')
                          else if i = 0x410 then Some (if is_core 0xD200 t then str ''GD32E230'' else str ''GD32F1'') else None)
            in case driver of
                 None \<Rightarrow> return False (set_idcode stored t)
               | Some d \<Rightarrow>
                   let t = chip_add_ram Ce 0x20000000 (drop_bit 16 signature * 1024) (set_driver d t);
                       t = stm32f1_add_flash Ce 0x8000000 ((signature AND 0xFFFF) * 1024) 0x400 t
                   in return True (chip_add_commands Ce d t))))"

text \<open>The table of parts: RAM regions, flash regions with their page sizes, name of the driver and of the
  commands. The name of the medium-density parts depends on the revision of the core.\<close>

record stm32f1_part =
  sp_ram :: "(u32 \<times> u32) list"
  sp_flash :: "(u32 \<times> u32 \<times> u32) list"
  sp_driver :: "u8 list"
  sp_commands :: "u8 list"

definition stm32f1_parts :: "u16 \<Rightarrow> bool \<Rightarrow> stm32f1_part option" where
  "stm32f1_parts i clone =
     (let f0 = (\<lambda>name flash_size block_size. Some \<lparr>sp_ram = [(0x20000000, 0x5000)], sp_flash = [(0x8000000, flash_size, block_size)],
                  sp_driver = name, sp_commands = str ''STM32F0''\<rparr>);
          f3 = (\<lambda>ram. Some \<lparr>sp_ram = ram @ [(0x20000000, 0x10000)], sp_flash = [(0x8000000, 0x80000, 0x800)],
                  sp_driver = str ''STM32F3'', sp_commands = str ''STM32F3''\<rparr>)
      in if i \<in> {0x29B, 0x410, 0x412, 0x420} then
           Some \<lparr>sp_ram = [(0x20000000, 0x5000)], sp_flash = [(0x8000000, 0x20000, 0x400)],
             sp_driver = (if clone then str ''STM32F1 (clone) medium density'' else str ''STM32F1 medium density''),
             sp_commands = str ''STM32 LD/MD/VL-LD/VL-MD''\<rparr>
         else if i \<in> {0x414, 0x418, 0x428} then
           Some \<lparr>sp_ram = [(0x20000000, 0x10000)], sp_flash = [(0x8000000, 0x80000, 0x800)],
             sp_driver = str ''STM32F1  VL density'', sp_commands = str ''STM32 HF/CL/VL-HD''\<rparr>
         else if i = 0x430 then
           Some \<lparr>sp_ram = [(0x20000000, 0x18000)], sp_flash = [(0x8000000, 0x80000, 0x800), (0x8080000, 0x80000, 0x800)],
             sp_driver = str ''STM32F1  XL density'', sp_commands = str ''STM32 XL/VL-XL''\<rparr>
         else if i \<in> {0x438, 0x422, 0x446} then f3 [(0x10000000, 0x4000)]
         else if i \<in> {0x432, 0x439} then f3 []
         else if i = 0x444 then f0 (str ''STM32F03'') 0x8000 0x400
         else if i = 0x445 then f0 (str ''STM32F04/F070x6'') 0x8000 0x400
         else if i = 0x440 then f0 (str ''STM32F05/F030x8'') 0x10000 0x400
         else if i = 0x448 then f0 (str ''STM32F07'') 0x20000 0x800
         else if i = 0x442 then f0 (str ''STM32F09/F030xC'') 0x40000 0x800
         else None)"

definition stm32f1_probe :: "'w chip_env \<Rightarrow> 'w cm_target \<Rightarrow> ('w cm_target, bool) outcome" where
  "stm32f1_probe Ce t =
     (let stored = ci_idcode (snd t)
      in andthen (on_target (cm_read32 (ch_cm Ce) (if is_core 0xC200 t then 0x40015800 else 0xE0042000)) t) (\<lambda>v t.
         let t = set_idcode (ucast (v AND 0xFFF)) t
         in case stm32f1_parts (ci_idcode (snd t)) (drop_bit 28 (ap_idr (cm_ap (fst t))) > 1) of
              None \<Rightarrow> return False (set_idcode stored t)
            | Some p \<Rightarrow>
                let t = set_driver (sp_driver p) t;
                    t = fold (\<lambda>(a, n). chip_add_ram Ce a n) (sp_ram p) t;
                    t = fold (\<lambda>(a, n, b). stm32f1_add_flash Ce a n b) (sp_flash p) t
                in return True (chip_add_commands Ce (sp_commands p) t)))"

subsection \<open>Erasing and programming\<close>

text \<open>The lock is read in the control register of the first bank, whatever the bank.\<close>

definition stm32f1_flash_unlock :: "'w cm_env \<Rightarrow> u32 \<Rightarrow> 'w cortexm \<Rightarrow> ('w cortexm, bool) outcome" where
  "stm32f1_flash_unlock E bank_offset s =
     andthen (cm_write32 E (FLASH_KEYR + bank_offset) KEY1 s) (\<lambda>x s.
     andthen (cm_write32 E (FLASH_KEYR + bank_offset) KEY2 s) (\<lambda>x s.
     andthen (cm_read32 E FLASH_CR s) (\<lambda>cr. return (cr AND CR_LOCK = 0))))"

definition stm32f1_ready :: "'w cm_env \<Rightarrow> u32 \<Rightarrow> 'w cortexm \<Rightarrow> ('w cortexm, bool) outcome" where
  "stm32f1_ready E bank_offset = poll_while E (FLASH_SR + bank_offset) (\<lambda>v. v AND 1 \<noteq> 0)"

definition bank_of :: "u32 \<Rightarrow> u32" where
  "bank_of addr = (if addr \<ge> FLASH_BANK_SPLIT then FLASH_BANK2_OFFSET else 0)"

definition stm32f1_erase_page :: "'w cm_env \<Rightarrow> u32 \<Rightarrow> 'w cortexm \<Rightarrow> ('w cortexm, bool) outcome" where
  "stm32f1_erase_page E addr s =
     andthen (cm_write32 E (FLASH_CR + bank_of addr) CR_PER s) (\<lambda>x s.
     andthen (cm_write32 E (FLASH_AR + bank_of addr) addr s) (\<lambda>x s.
     andthen (cm_write32 E (FLASH_CR + bank_of addr) (CR_STRT OR CR_PER) s) (\<lambda>x.
     stm32f1_ready E (bank_of addr))))"

definition erase_status :: "'w cm_env \<Rightarrow> u32 \<Rightarrow> 'w cortexm \<Rightarrow> ('w cortexm, bool) outcome" where
  "erase_status E bank_offset s =
     andthen (cm_read32 E (FLASH_SR + bank_offset) s) (\<lambda>sr. return (sr AND SR_ERROR_MASK = 0 \<and> sr AND SR_EOP \<noteq> 0))"

definition when_ok :: "bool \<Rightarrow> ('s \<Rightarrow> ('s, bool) outcome) \<Rightarrow> 's \<Rightarrow> ('s, bool) outcome" where
  "when_ok b f s = (if b then f s else return True s)"

lemma when_ok_simps [simp]: "when_ok True f = f" "when_ok False f = return True"
  by (simp_all add: when_ok_def fun_eq_iff)

definition stm32f1_flash_erase :: "'w cm_env \<Rightarrow> u16 \<Rightarrow> u32 \<Rightarrow> u32 \<Rightarrow> u32 \<Rightarrow> 'w cortexm \<Rightarrow> ('w cortexm, int) outcome" where
  "stm32f1_flash_erase E idcode blocksize addr len s =
     (let hi = addr + len - 1; bank2 = (idcode = 0x430 \<and> hi \<ge> FLASH_BANK_SPLIT); bank1 = (addr < FLASH_BANK_SPLIT)
      in andthen (when_ok bank2 (stm32f1_flash_unlock E FLASH_BANK2_OFFSET) s) (\<lambda>ok s. if \<not> ok then return (- 1) s else
         andthen (when_ok bank1 (stm32f1_flash_unlock E 0) s) (\<lambda>ok s. if \<not> ok then return (- 1) s else
         andthen (page_loop (stm32f1_erase_page E) blocksize addr len s) (\<lambda>ok s. if \<not> ok then return (- 1) s else
         andthen (when_ok bank1 (erase_status E 0) s) (\<lambda>ok s. if \<not> ok then return (- 1) s else
         andthen (when_ok bank2 (erase_status E FLASH_BANK2_OFFSET) s) (\<lambda>ok. return (if ok then 0 else - 1)))))))"

text \<open>\<open>do sr = read, if (error) return -1; while (busy)\<close>: the status, or none.\<close>

partial_function (option) program_wait :: "'w cm_env \<Rightarrow> u32 \<Rightarrow> 'w cortexm \<Rightarrow> ('w cortexm, u32 option) outcome" where
  "program_wait E reg s =
     andthen (cm_read32 E reg s) (\<lambda>sr s.
     andthen (cortexm_check_error E s) (\<lambda>e s.
       if e then return None s else if sr AND 1 \<noteq> 0 then program_wait E reg s else return (Some sr) s))"

definition stm32f1_program :: "'w cm_env \<Rightarrow> u32 \<Rightarrow> u32 \<Rightarrow> u8 list \<Rightarrow> 'w cortexm \<Rightarrow> ('w cortexm, bool) outcome" where
  "stm32f1_program E bank_offset dest src s =
     andthen (cm_write32 E (FLASH_CR + bank_offset) CR_PG s) (\<lambda>x s.
     andthen (cortexm_mem_write_sized E dest src ALIGN_HALFWORD s) (\<lambda>e s.
     andthen (program_wait E (FLASH_SR + bank_offset) s) (\<lambda>sr.
     return (case sr of None \<Rightarrow> False | Some sr \<Rightarrow> sr AND SR_ERROR_MASK = 0))))"

definition stm32f1_flash_write :: "'w cm_env \<Rightarrow> u16 \<Rightarrow> u32 \<Rightarrow> u8 list \<Rightarrow> 'w cortexm \<Rightarrow> ('w cortexm, int) outcome" where
  "stm32f1_flash_write E idcode dest src s =
     (let len = word_of_nat (length src) :: u32;
          bank1 = (dest < FLASH_BANK_SPLIT);
          first = (if \<not> bank1 then 0 else if dest + len - 1 \<ge> FLASH_BANK_SPLIT then FLASH_BANK_SPLIT - dest else len)
      in andthen (when_ok bank1 (stm32f1_program E 0 dest (take (unat first) src)) s) (\<lambda>ok s. if \<not> ok then return (- 1) s else
         andthen (when_ok (idcode = 0x430 \<and> len - first \<noteq> 0) (stm32f1_program E FLASH_BANK2_OFFSET (dest + first) (drop (unat first) src)) s)
           (\<lambda>ok. return (if ok then 0 else - 1))))"

subsection \<open>Mass erase and option bytes\<close>

definition mass_erase_bank :: "'w cm_env \<Rightarrow> u32 \<Rightarrow> 'w cortexm \<Rightarrow> ('w cortexm, bool) outcome" where
  "mass_erase_bank E bank_offset s =
     andthen (stm32f1_flash_unlock E bank_offset s) (\<lambda>ok s. if \<not> ok then return False s else
     andthen (cm_write32 E (FLASH_CR + bank_offset) CR_MER s) (\<lambda>x s.
     andthen (cm_write32 E (FLASH_CR + bank_offset) (CR_STRT OR CR_MER) s) (\<lambda>x s.
     andthen (stm32f1_ready E bank_offset s) (\<lambda>ok s. if \<not> ok then return False s else
     erase_status E bank_offset s))))"

definition stm32f1_cmd_erase_mass :: "'w cm_env \<Rightarrow> u16 \<Rightarrow> 'w cortexm \<Rightarrow> ('w cortexm, bool) outcome" where
  "stm32f1_cmd_erase_mass E idcode s =
     andthen (mass_erase_bank E 0 s) (\<lambda>ok s. if \<not> ok then return False s else
     when_ok (idcode = 0x430) (mass_erase_bank E FLASH_BANK2_OFFSET) s)"

definition stm32f1_option_erase :: "'w cm_env \<Rightarrow> 'w cortexm \<Rightarrow> ('w cortexm, bool) outcome" where
  "stm32f1_option_erase E s =
     andthen (cm_write32 E FLASH_CR (CR_OPTER OR CR_OPTWRE) s) (\<lambda>x s.
     andthen (cm_write32 E FLASH_CR (CR_STRT OR CR_OPTER OR CR_OPTWRE) s) (\<lambda>x. stm32f1_ready E 0))"

definition stm32f1_option_write_erased :: "'w cm_env \<Rightarrow> u32 \<Rightarrow> u16 \<Rightarrow> 'w cortexm \<Rightarrow> ('w cortexm, bool) outcome" where
  "stm32f1_option_write_erased E addr v s =
     (if v = 0xFFFF then return True s
      else andthen (cm_write32 E FLASH_CR (CR_OPTPG OR CR_OPTWRE) s) (\<lambda>x s.
           andthen (cm_write16 E addr v s) (\<lambda>x. stm32f1_ready E 0)))"

fun read_options :: "'w cm_env \<Rightarrow> nat list \<Rightarrow> 'w cortexm \<Rightarrow> ('w cortexm, u16 list) outcome" where
  "read_options E [] s = return [] s"
| "read_options E (i # is) s =
     andthen (cm_read32 E (FLASH_OBP_RDP + word_of_nat i) s) (\<lambda>v s.
     andthen (read_options E is s) (\<lambda>vs. return (ucast (v AND 0xFFFF) # ucast (drop_bit 16 v) # vs)))"

fun write_options :: "'w cm_env \<Rightarrow> nat \<Rightarrow> u16 list \<Rightarrow> 'w cortexm \<Rightarrow> ('w cortexm, bool) outcome" where
  "write_options E i [] s = return True s"
| "write_options E i (v # vs) s =
     andthen (stm32f1_option_write_erased E (FLASH_OBP_RDP + 2 * word_of_nat i) v s) (\<lambda>ok s.
       if ok then write_options E (i + 1) vs s else return False s)"

text \<open>The index is the quotient of the unsigned difference, so it is never negative.\<close>

definition stm32f1_option_write :: "'w cm_env \<Rightarrow> u32 \<Rightarrow> u16 \<Rightarrow> 'w cortexm \<Rightarrow> ('w cortexm, bool) outcome" where
  "stm32f1_option_write E addr v s =
     (let index = unat ((addr - FLASH_OBP_RDP) div 2)
      in if index > 7 then return False s
         else andthen (read_options E [0, 4, 8, 12] s) (\<lambda>opt_val s.
           if opt_val ! index = v then return True s
           else andthen (when_ok (opt_val ! index \<noteq> 0xFFFF) (stm32f1_option_erase E) s) (\<lambda>ok s.
             if \<not> ok then return False s else write_options E 0 (opt_val[index := v]) s)))"

definition strtol_auto :: "u8 list \<Rightarrow> int" where \<comment> \<open>\<open>strtol(s, NULL, 0)\<close>\<close>
  "strtol_auto s =
     (let s = dropWhile isspace s;
          neg = (s \<noteq> [] \<and> hd s = ch CHR ''-'');
          s = (if s \<noteq> [] \<and> (hd s = ch CHR ''-'' \<or> hd s = ch CHR ''+'') then tl s else s);
          hex = (length s \<ge> 3 \<and> s ! 0 = ch CHR ''0'' \<and> (s ! 1 = ch CHR ''x'' \<or> s ! 1 = ch CHR ''X'') \<and> isxdigit (s ! 2));
          octal = (\<not> hex \<and> s \<noteq> [] \<and> hd s = ch CHR ''0'');
          v = (if hex then int (digits_val 16 (takeWhile isxdigit (drop 2 s)))
               else if octal then int (digits_val 8 (takeWhile (\<lambda>c. isdigit c \<and> c < 56) s))
               else int (digits_val 10 (takeWhile isdigit s)));
          v = (if neg then - v else v)
      in max (- (2 ^ 31)) (min (2 ^ 31 - 1) v))"

fun show_options :: "'w cm_env \<Rightarrow> u32 list \<Rightarrow> 'w cortexm \<Rightarrow> ('w cortexm, unit) outcome" where
  "show_options E [] s = return () s"
| "show_options E (a # as) s =
     andthen (cm_read32 E a s) (\<lambda>v s.
       show_options E as (fold (cm_printf E)
         [str ''0x'' @ fmt_0X 8 a @ str '': 0x'' @ fmt_0X 4 (v AND 0xFFFF) @ [10],
          str ''0x'' @ fmt_0X 8 (a + 2) @ str '': 0x'' @ fmt_0X 4 (drop_bit 16 v) @ [10]] s))"

definition rdp_key :: "u16 \<Rightarrow> u16" where
  "rdp_key i = (if i \<in> {0x422, 0x432, 0x438, 0x440, 0x446, 0x445, 0x448, 0x442} then 0x55AA else 0x5AA5)"

text \<open>False: the command ends here.\<close>

definition option_request :: "'w cm_env \<Rightarrow> u16 \<Rightarrow> u8 list list \<Rightarrow> bool \<Rightarrow> 'w cortexm \<Rightarrow> ('w cortexm, bool) outcome" where
  "option_request E idcode argv rdprt s =
     (if length argv = 2 \<and> argv ! 1 = str ''erase'' then
        andthen (stm32f1_option_erase E s) (\<lambda>ok s.
        andthen (stm32f1_option_write_erased E FLASH_OBP_RDP (rdp_key idcode) s) (\<lambda>ok. return True))
      else if rdprt then
        return False (fold (cm_printf E)
          [str ''Device is Read Protected'' @ [10],
           str ''Use '' @ [34] @ str ''monitor option erase'' @ [34] @ str '' to unprotect, erasing device'' @ [10]] s)
      else if length argv = 3 then
        andthen (stm32f1_option_write E (word_of_int (strtol_auto (argv ! 1))) (word_of_int (strtol_auto (argv ! 2))) s) (\<lambda>ok. return True)
      else return True (fold (cm_printf E)
          [str ''usage: monitor option erase'' @ [10], str ''usage: monitor option <addr> <value>'' @ [10]] s))"

definition stm32f1_cmd_option :: "'w cm_env \<Rightarrow> u16 \<Rightarrow> u8 list list \<Rightarrow> 'w cortexm \<Rightarrow> ('w cortexm, bool) outcome" where
  "stm32f1_cmd_option E idcode argv s =
     andthen (cm_read32 E FLASH_OBR s) (\<lambda>obr s.
     andthen (stm32f1_flash_unlock E 0 s) (\<lambda>ok s. if \<not> ok then return False s else
     andthen (cm_write32 E FLASH_OPTKEYR KEY1 s) (\<lambda>x s.
     andthen (cm_write32 E FLASH_OPTKEYR KEY2 s) (\<lambda>x s.
     andthen (option_request E idcode argv (obr AND 2 \<noteq> 0) s) (\<lambda>go s. if \<not> go then return True s else
     andthen (show_options E (map (\<lambda>i. FLASH_OBP_RDP + word_of_nat i) [0, 4, 8, 12]) s) (\<lambda>x.
     return True))))))"

subsection \<open>What the controller does\<close>

text \<open>The contract of \<open>FPEC\<close> for one bank, from ST's programming manual, over what can be observed of it.
  An erase or the programming of a halfword keeps it busy for some reads of \<open>SR\<close>; the programming of further
  halfwords meanwhile stalls the bus.\<close>

record fpec =
  fp_key :: bool \<comment> \<open>the first key was written\<close>
  fp_unlocked :: bool
  fp_cr :: u32
  fp_ar :: u32
  fp_failed :: bool
  fp_eop :: bool
  fp_busy :: nat
  fp_mem :: "u32 \<Rightarrow> u8"

definition fpec_status :: "'c core_bus \<Rightarrow> ('c \<Rightarrow> fpec) \<Rightarrow> bool" where
  "fpec_status B fo \<longleftrightarrow>
     (\<forall>c v c'. cb_read B FLASH_SR c = (v, c') \<longrightarrow>
        fo c' = fo c\<lparr>fp_busy := fp_busy (fo c) - 1\<rparr> \<and> (v AND 1 = 0 \<longleftrightarrow> fp_busy (fo c) = 0) \<and>
        (v AND SR_ERROR_MASK = 0 \<longleftrightarrow> \<not> fp_failed (fo c)) \<and> (v AND SR_EOP = 0 \<longleftrightarrow> \<not> fp_eop (fo c))) \<and>
     (\<forall>c v c'. cb_read B FLASH_CR c = (v, c') \<longrightarrow> fo c' = fo c \<and> (v AND CR_LOCK = 0 \<longleftrightarrow> fp_unlocked (fo c)))"

definition fpec_control :: "'c core_bus \<Rightarrow> ('c \<Rightarrow> fpec) \<Rightarrow> bool" where
  "fpec_control B fo \<longleftrightarrow>
     (\<forall>c. fo (cb_write B FLASH_KEYR KEY1 c) = fo c\<lparr>fp_key := True\<rparr>) \<and>
     (\<forall>c. fp_key (fo c) \<longrightarrow> fo (cb_write B FLASH_KEYR KEY2 c) = fo c\<lparr>fp_key := False, fp_unlocked := True\<rparr>) \<and>
     (\<forall>c v. fp_busy (fo c) = 0 \<longrightarrow> fp_unlocked (fo c) \<longrightarrow> v \<in> {CR_PER, CR_PG} \<longrightarrow> fo (cb_write B FLASH_CR v c) = fo c\<lparr>fp_cr := v\<rparr>) \<and>
     (\<forall>c v. fo (cb_write B FLASH_AR v c) = fo c\<lparr>fp_ar := v\<rparr>)"

definition fpec_erases :: "u32 \<Rightarrow> (u32 \<Rightarrow> bool) \<Rightarrow> 'c core_bus \<Rightarrow> ('c \<Rightarrow> fpec) \<Rightarrow> bool" where
  "fpec_erases page flash B fo \<longleftrightarrow>
     (\<forall>c f. fo c = f \<longrightarrow> fp_busy f = 0 \<longrightarrow> fp_unlocked f \<longrightarrow> fp_cr f = CR_PER \<longrightarrow> fp_ar f mod page = 0 \<longrightarrow> flash (fp_ar f) \<longrightarrow>
        (\<exists>n. fo (cb_write B FLASH_CR (CR_STRT OR CR_PER) c) =
           f\<lparr>fp_eop := True, fp_busy := n, fp_mem := wipe 0xFF (fp_ar f) (unat page) (fp_mem f)\<rparr>))"

definition fpec_programs :: "(u32 \<Rightarrow> bool) \<Rightarrow> 'c core_bus \<Rightarrow> ('c \<Rightarrow> fpec) \<Rightarrow> bool" where
  "fpec_programs flash B fo \<longleftrightarrow>
     (\<forall>c f a bs. fo c = f \<longrightarrow> fp_unlocked f \<longrightarrow> fp_cr f = CR_PG \<longrightarrow> \<not> fp_failed f \<longrightarrow> aligned a 1 \<longrightarrow> flash a \<longrightarrow> length bs = 2 \<longrightarrow>
        (\<forall>i < 2. fp_mem f (a + word_of_nat i) = 0xFF) \<longrightarrow>
        (\<exists>n. fo (cb_part B a bs c) = f\<lparr>fp_eop := True, fp_busy := n, fp_mem := poke (fp_mem f) a bs\<rparr>))"

definition fpec_ok :: "u32 \<Rightarrow> (u32 \<Rightarrow> bool) \<Rightarrow> 'c core_bus \<Rightarrow> ('c \<Rightarrow> fpec) \<Rightarrow> bool" where
  "fpec_ok page flash B fo \<longleftrightarrow> fpec_status B fo \<and> fpec_control B fo \<and> fpec_erases page flash B fo \<and> fpec_programs flash B fo"

definition stm_on :: "u32 \<Rightarrow> (u32 \<Rightarrow> bool) \<Rightarrow> 'w cm_env \<Rightarrow> 'c core_bus \<Rightarrow> ('w \<Rightarrow> 'c core_port) \<Rightarrow> ('c \<Rightarrow> fpec) \<Rightarrow> 'w cortexm \<Rightarrow> bool" where
  "stm_on page flash E B st fo s \<longleftrightarrow> fpec_ok page flash B fo \<and> chip_on E B st s"

lemma stm_addresses [simp]:
  "aligned FLASH_KEYR 2" "aligned FLASH_SR 2" "aligned FLASH_CR 2" "aligned FLASH_AR 2"
  by (simp_all add: aligned_def FLASH_KEYR_def FLASH_SR_def FLASH_CR_def FLASH_AR_def)

lemma stm_write32:
  assumes "stm_on page flash E B st fo s" and "aligned a 2"
  shows "runs (cm_write32 E a v s) (\<lambda>x s'. stm_on page flash E B st fo s' \<and> core_of st s' = cb_write B a v (core_of st s))"
  using assms chip_write32 [of E B st s a v] by (auto simp: stm_on_def elim!: runs_mono)

lemma stm_unlock:
  assumes on: "stm_on page flash E B st fo s"
  shows "runs (stm32f1_flash_unlock E 0 s) (\<lambda>ok s'. ok \<and> stm_on page flash E B st fo s' \<and>
    fo (core_of st s') = fo (core_of st s)\<lparr>fp_key := False, fp_unlocked := True\<rparr>)"
proof -
  have ok: "fpec_ok page flash B fo" using on by (simp add: stm_on_def)
  have k1: "fo (cb_write B FLASH_KEYR KEY1 c) = fo c\<lparr>fp_key := True\<rparr>"
    and k2: "fp_key (fo c) \<Longrightarrow> fo (cb_write B FLASH_KEYR KEY2 c) = fo c\<lparr>fp_key := False, fp_unlocked := True\<rparr>"
    and rd: "cb_read B FLASH_CR c = (v, c') \<Longrightarrow> fo c' = fo c \<and> (v AND CR_LOCK = 0 \<longleftrightarrow> fp_unlocked (fo c))" for c v c'
    using ok by (auto simp: fpec_ok_def fpec_control_def fpec_status_def)
  show ?thesis unfolding stm32f1_flash_unlock_def add_0_right
  proof (rule runs_andthen [OF stm_write32 [OF on]], simp, elim conjE, rule runs_andthen [OF stm_write32], assumption, simp, elim conjE)
    fix s1 s2 assume 1: "core_of st s1 = cb_write B FLASH_KEYR KEY1 (core_of st s)" "core_of st s2 = cb_write B FLASH_KEYR KEY2 (core_of st s1)"
      and on2: "stm_on page flash E B st fo s2"
    have f: "fo (core_of st s2) = fo (core_of st s)\<lparr>fp_key := False, fp_unlocked := True\<rparr>" by (simp add: 1 k1 k2)
    have c: "chip_on E B st s2" using on2 by (simp add: stm_on_def)
    show "runs (andthen (cm_read32 E FLASH_CR s2) (\<lambda>cr. return (cr AND CR_LOCK = 0))) (\<lambda>ok s'. ok \<and> stm_on page flash E B st fo s' \<and>
      fo (core_of st s') = fo (core_of st s)\<lparr>fp_key := False, fp_unlocked := True\<rparr>)"
      by (rule runs_andthen [OF chip_read32 [OF c]], simp, elim conjE, drule rd) (use on2 f in \<open>auto simp: stm_on_def intro!: runs_return\<close>)
  qed
qed

lemma fpec_SR:
  assumes "fpec_ok page flash B fo" and "cb_read B FLASH_SR c = (v, c')"
  shows "fo c' = fo c\<lparr>fp_busy := fp_busy (fo c) - 1\<rparr>" "v AND 1 = 0 \<longleftrightarrow> fp_busy (fo c) = 0" "v AND SR_ERROR_MASK = 0 \<longleftrightarrow> \<not> fp_failed (fo c)"
    "v AND SR_EOP = 0 \<longleftrightarrow> \<not> fp_eop (fo c)"
  using assms unfolding fpec_ok_def fpec_status_def by blast+

lemma stm_ready:
  assumes on: "stm_on page flash E B st fo s"
  shows "runs (stm32f1_ready E 0 s) (\<lambda>ok s'. ok \<and> stm_on page flash E B st fo s' \<and> fo (core_of st s') = fo (core_of st s)\<lparr>fp_busy := 0\<rparr>)"
proof -
  have ok: "fpec_ok page flash B fo" "chip_on E B st s" using on by (simp_all add: stm_on_def)
  have rd: "fo (snd (cb_read B FLASH_SR c)) = fo c\<lparr>fp_busy := fp_busy (fo c) - 1\<rparr>" "fst (cb_read B FLASH_SR c) AND 1 = 0 \<longleftrightarrow> fp_busy (fo c) = 0" for c
    using fpec_SR [OF ok(1), of c "fst (cb_read B FLASH_SR c)" "snd (cb_read B FLASH_SR c)"] by simp_all
  have "\<exists>c'. polls B FLASH_SR (\<lambda>v. v AND 1 \<noteq> 0) (core_of st s) c' \<and> True \<and> fp_busy (fo c') = 0 \<and> fo c'\<lparr>fp_busy := 0\<rparr> = fo (core_of st s)\<lparr>fp_busy := 0\<rparr>"
    by (rule polls_pending [where P = "\<lambda>c. True" and pending = "\<lambda>c. fp_busy (fo c)" and same = "\<lambda>c. fo c\<lparr>fp_busy := 0\<rparr>"]) (simp_all add: rd)
  then obtain c' where c': "polls B FLASH_SR (\<lambda>v. v AND 1 \<noteq> 0) (core_of st s) c'" "fp_busy (fo c') = 0" "fo c'\<lparr>fp_busy := 0\<rparr> = fo (core_of st s)\<lparr>fp_busy := 0\<rparr>" by auto
  have "fo c' = fo (core_of st s)\<lparr>fp_busy := 0\<rparr>" using c'(2,3) by (metis fpec.surjective fpec.update_convs(7))
  then show ?thesis unfolding stm32f1_ready_def add_0_right
    by (intro runs_mono [OF chip_poll [OF ok(2) stm_addresses(2) c'(1)]]) (use ok in \<open>auto simp: stm_on_def\<close>)
qed

text \<open>The bank is idle, unlocked and shows no error; \<open>fpec_erased\<close>: and the end of its last operation.\<close>

abbreviation fpec_idle :: "fpec \<Rightarrow> bool" where
  "fpec_idle f \<equiv> fp_busy f = 0 \<and> fp_unlocked f \<and> \<not> fp_failed f"

abbreviation fpec_erased :: "fpec \<Rightarrow> bool" where
  "fpec_erased f \<equiv> fpec_idle f \<and> fp_eop f"

lemma stm_erase_page:
  assumes on: "stm_on page flash E B st fo s" and f: "fpec_idle (fo (core_of st s))"
    and a: "a mod page = 0" "flash a" "a < FLASH_BANK_SPLIT"
  shows "runs (stm32f1_erase_page E a s) (\<lambda>ok s'. ok \<and> stm_on page flash E B st fo s' \<and> fpec_erased (fo (core_of st s')) \<and>
    fp_mem (fo (core_of st s')) = wipe 0xFF a (unat page) (fp_mem (fo (core_of st s))))"
proof -
  have ok: "fpec_ok page flash B fo" using on by (simp add: stm_on_def)
  have b: "bank_of a = 0" using a(3) by (simp add: bank_of_def linorder_not_le [symmetric])
  have cr: "fo (cb_write B FLASH_CR CR_PER c) = fo c\<lparr>fp_cr := CR_PER\<rparr>" if "fpec_idle (fo c)" for c
    using ok that by (simp add: fpec_ok_def fpec_control_def)
  have ar: "fo (cb_write B FLASH_AR v c) = fo c\<lparr>fp_ar := v\<rparr>" for c v using ok by (simp add: fpec_ok_def fpec_control_def)
  have er: "fpec_erases page flash B fo" using ok by (simp add: fpec_ok_def)
  show ?thesis unfolding stm32f1_erase_page_def b add_0_right
  proof (rule runs_andthen [OF stm_write32 [OF on]], simp, elim conjE, rule runs_andthen [OF stm_write32], assumption, simp, elim conjE,
      rule runs_andthen [OF stm_write32], assumption, simp, elim conjE)
    fix s1 s2 s3 assume c: "core_of st s1 = cb_write B FLASH_CR CR_PER (core_of st s)" "core_of st s2 = cb_write B FLASH_AR a (core_of st s1)"
      "core_of st s3 = cb_write B FLASH_CR (CR_STRT OR CR_PER) (core_of st s2)" and on3: "stm_on page flash E B st fo s3"
    have f2: "fo (core_of st s2) = fo (core_of st s)\<lparr>fp_cr := CR_PER, fp_ar := a\<rparr>" unfolding c(1,2) ar cr [OF f] ..
    obtain n where f3: "fo (core_of st s3) = fo (core_of st s2)\<lparr>fp_eop := True, fp_busy := n,
        fp_mem := wipe 0xFF (fp_ar (fo (core_of st s2))) (unat page) (fp_mem (fo (core_of st s2)))\<rparr>"
      using er [unfolded fpec_erases_def, rule_format, OF refl, of "core_of st s2"] f a f2 unfolding c(3) by auto
    show "runs (stm32f1_ready E 0 s3) (\<lambda>ok s'. ok \<and> stm_on page flash E B st fo s' \<and> fpec_erased (fo (core_of st s')) \<and>
      fp_mem (fo (core_of st s')) = wipe 0xFF a (unat page) (fp_mem (fo (core_of st s))))"
      by (rule runs_mono [OF stm_ready [OF on3]]) (use f3 f2 f in simp)
  qed
qed

interpretation stm32f1: page_device "stm32f1_erase_page E" page "\<lambda>a. a mod page = 0 \<and> flash a \<and> a < FLASH_BANK_SPLIT"
  "\<lambda>s. stm_on page flash E B st fo s \<and> fpec_idle (fo (core_of st s))" "\<lambda>s. stm_on page flash E B st fo s \<and> fpec_erased (fo (core_of st s))"
  "\<lambda>s. fp_mem (fo (core_of st s))" "0xFF"
  for E :: "'w cm_env" and page flash and B :: "'c core_bus" and st fo
proof unfold_locales
  fix s a assume "stm_on page flash E B st fo s \<and> fpec_idle (fo (core_of st s)) \<or> stm_on page flash E B st fo s \<and> fpec_erased (fo (core_of st s))"
    and a: "a mod page = 0 \<and> flash a \<and> a < FLASH_BANK_SPLIT"
  then have "stm_on page flash E B st fo s" "fpec_idle (fo (core_of st s))" by auto
  from stm_erase_page [OF this] a
  show "runs (stm32f1_erase_page E a s) (\<lambda>ok s'. ok \<and> (stm_on page flash E B st fo s' \<and> fpec_erased (fo (core_of st s'))) \<and>
    fp_mem (fo (core_of st s')) = wipe 0xFF a (unat page) (fp_mem (fo (core_of st s))))"
    by (auto elim!: runs_mono)
qed

lemma stm_status:
  assumes on: "stm_on page flash E B st fo s" and f: "fpec_erased (fo (core_of st s))"
  shows "runs (erase_status E 0 s) (\<lambda>ok s'. ok \<and> stm_on page flash E B st fo s' \<and> fo (core_of st s') = fo (core_of st s))"
proof -
  have ok: "fpec_ok page flash B fo" "chip_on E B st s" using on by (simp_all add: stm_on_def)
  show ?thesis unfolding erase_status_def add_0_right
  proof (rule runs_andthen [OF chip_read32 [OF ok(2)]], simp, elim conjE, rule runs_return)
    fix v s1 assume on1: "chip_on E B st s1" and r: "cb_read B FLASH_SR (core_of st s) = (v, core_of st s1)"
    note sr = fpec_SR [OF ok(1) r]
    have "fo (core_of st s1) = fo (core_of st s)" using sr(1) f by simp
    then show "(v AND SR_ERROR_MASK = 0 \<and> v AND SR_EOP \<noteq> 0) \<and> stm_on page flash E B st fo s1 \<and> fo (core_of st s1) = fo (core_of st s)"
      using sr(3,4) f on1 ok(1) by (simp add: stm_on_def)
  qed
qed

abbreviation first_bank :: "(u32 \<Rightarrow> bool) \<Rightarrow> u32 \<Rightarrow> bool" where
  "first_bank flash \<equiv> (\<lambda>a. flash a \<and> a < FLASH_BANK_SPLIT)"

lemma stm_erase_runs:
  assumes on: "stm_on page flash E B st fo s" and idle: "fp_busy (fo (core_of st s)) = 0" "\<not> fp_failed (fo (core_of st s))" and i: "idcode \<noteq> 0x430"
    and pages: "flash_pages page (first_bank flash) addr len" and len: "len \<noteq> 0"
  shows "runs (stm32f1_flash_erase E idcode page addr len s) (\<lambda>r s'. r = 0 \<and> stm_on page flash E B st fo s' \<and>
    fpec_erased (fo (core_of st s')) \<and> fp_mem (fo (core_of st s')) = wipe 0xFF addr (page_span page len) (fp_mem (fo (core_of st s))))"
  (is "runs _ (\<lambda>r s'. r = 0 \<and> ?Q s')")
proof -
  note nz = pages [unfolded flash_pages_def, THEN conjunct1]
  have span: "page_span page len \<le> 2 ^ 32" using pages by (simp add: flash_pages_def)
  have valid: "\<And>i. i * unat page < unat len \<Longrightarrow> (addr + word_of_nat i * page) mod page = 0 \<and> flash (addr + word_of_nat i * page) \<and> addr + word_of_nat i * page < FLASH_BANK_SPLIT"
    using pages unfolding flash_pages_def by (elim conjE, intro conjI page_multiples) simp_all
  have "0 < unat len" using len by (simp add: word_unat_eq_iff flip: neq0_conv)
  then have b1: "addr < FLASH_BANK_SPLIT" using valid [of 0] by simp
  let ?loop = "\<lambda>s. andthen (page_loop (stm32f1_erase_page E) page addr len s) (\<lambda>ok s. if \<not> ok then return (- 1) s else
    andthen (erase_status E 0 s) (\<lambda>ok s. if \<not> ok then return (- 1) s else andthen (return True s) (\<lambda>ok. return (if ok then 0 else - 1))))"
  have loop: "runs (?loop s1) (\<lambda>r s'. r = 0 \<and> ?Q s')"
    if s1: "stm_on page flash E B st fo s1" "fo (core_of st s1) = fo (core_of st s)\<lparr>fp_key := False, fp_unlocked := True\<rparr>" for s1
  proof -
    have st: "stm_on page flash E B st fo s1 \<and> fpec_idle (fo (core_of st s1))" using s1 idle by simp
    show ?thesis
    proof (rule runs_andthen [OF stm32f1.page_loop_erases [OF nz disjI1 [OF st] valid span]], assumption, elim conjE)
      fix ok s2 assume ok: "ok" and r: "len \<noteq> 0 \<or> stm_on page flash E B st fo s1 \<and> fpec_erased (fo (core_of st s1)) \<longrightarrow> stm_on page flash E B st fo s2 \<and> fpec_erased (fo (core_of st s2))"
        and m: "fp_mem (fo (core_of st s2)) = wipe 0xFF addr (page_span page len) (fp_mem (fo (core_of st s1)))"
      have s2: "stm_on page flash E B st fo s2" "fpec_erased (fo (core_of st s2))" using r len by simp_all
      have "runs (andthen (erase_status E 0 s2) (\<lambda>ok s. if \<not> ok then return (- 1) s else andthen (return True s) (\<lambda>ok. return (if ok then 0 else - 1)))) (\<lambda>r s'. r = 0 \<and> ?Q s')"
        by (rule runs_andthen [OF stm_status [OF s2]]) (use s2 m s1 in \<open>auto intro!: runs_return\<close>)
      then show "runs (if \<not> ok then return (- 1) s2 else andthen (erase_status E 0 s2) (\<lambda>ok s. if \<not> ok then return (- 1) s else
          andthen (return True s) (\<lambda>ok. return (if ok then 0 else - 1)))) (\<lambda>r s'. r = 0 \<and> ?Q s')"
        using ok by simp
    qed
  qed
  have eq: "stm32f1_flash_erase E idcode page addr len s =
    andthen (stm32f1_flash_unlock E 0 s) (\<lambda>ok s. if \<not> ok then return (- 1) s else ?loop s)"
    using i b1 by (simp add: stm32f1_flash_erase_def Let_def cong: if_cong)
  show ?thesis unfolding eq
    by (rule runs_andthen [OF stm_unlock [OF on]], elim conjE, simp only: simp_thms if_False, rule loop)
qed

lemma stm_program_wait:
  "stm_on page flash E B st fo s \<Longrightarrow> runs (program_wait E FLASH_SR s) (\<lambda>r s'. stm_on page flash E B st fo s' \<and>
    fo (core_of st s') = fo (core_of st s)\<lparr>fp_busy := 0\<rparr> \<and> (\<exists>v. r = Some v \<and> (v AND SR_ERROR_MASK = 0 \<longleftrightarrow> \<not> fp_failed (fo (core_of st s)))))"
proof (induction "fp_busy (fo (core_of st s))" arbitrary: s rule: less_induct)
  case less
  have ok: "fpec_ok page flash B fo" "chip_on E B st s" using less(2) by (simp_all add: stm_on_def)
  let ?P = "\<lambda>r s'. stm_on page flash E B st fo s' \<and> fo (core_of st s') = fo (core_of st s)\<lparr>fp_busy := 0\<rparr> \<and>
    (\<exists>v. r = Some v \<and> (v AND SR_ERROR_MASK = 0 \<longleftrightarrow> \<not> fp_failed (fo (core_of st s))))"
  show ?case
  proof (subst program_wait.simps, rule runs_andthen [OF chip_read32 [OF ok(2) stm_addresses(2)]], elim conjE)
    fix v s1 assume 1: "chip_on E B st s1" and r: "cb_read B FLASH_SR (core_of st s) = (v, core_of st s1)"
    note sr = fpec_SR [OF ok(1) r]
    show "runs (andthen (cortexm_check_error E s1) (\<lambda>e s. if e then return None s else
        if v AND 1 \<noteq> 0 then program_wait E FLASH_SR s else return (Some v) s)) ?P"
    proof (rule runs_andthen [OF chip_check_error [OF 1]], elim conjE)
      fix e s2 assume 2: "\<not> e" "chip_on E B st s2" "core_of st s2 = core_of st s1"
      have on2: "stm_on page flash E B st fo s2" using 2(2) ok(1) by (simp add: stm_on_def)
      have "runs (if v AND 1 \<noteq> 0 then program_wait E FLASH_SR s2 else return (Some v) s2) ?P"
      proof (cases "v AND 1 = 0")
        case True
        then have "fo (core_of st s2) = fo (core_of st s)\<lparr>fp_busy := 0\<rparr>" using sr(1,2) 2(3) by simp
        then show ?thesis using True on2 sr(3) by (auto intro!: runs_return)
      next
        case False
        then have "fp_busy (fo (core_of st s2)) < fp_busy (fo (core_of st s))" using sr(1,2) 2(3) by simp
        have "runs (program_wait E FLASH_SR s2) ?P"
          by (rule runs_mono [OF less(1) [OF \<open>fp_busy (fo (core_of st s2)) < _\<close> on2]]) (use sr(1) 2(3) in auto)
        then show ?thesis using False by simp
      qed
      then show "runs (if e then return None s2 else if v AND 1 \<noteq> 0 then program_wait E FLASH_SR s2 else return (Some v) s2) ?P"
        using 2(1) by simp
    qed
  qed
qed

lemma stm_stream:
  assumes ok: "fpec_ok page flash B fo" and f: "fp_unlocked (fo c)" "fp_cr (fo c) = CR_PG" "\<not> fp_failed (fo c)"
    and al: "aligned dest 1" and len: "2 * n \<le> length bs" "2 * n \<le> 2 ^ 32"
    and ff: "\<And>i. i < 2 * n \<Longrightarrow> fp_mem (fo c) (dest + word_of_nat i) = 0xFF" and fl: "\<And>i. i < n \<Longrightarrow> flash (dest + word_of_nat (2 * i))"
  shows "\<not> fp_failed (fo (bus_stream B 1 dest n bs c)) \<and> fp_mem (fo (bus_stream B 1 dest n bs c)) = poke (fp_mem (fo c)) dest (take (2 * n) bs)"
proof -
  let ?ok = "\<lambda>d. fp_unlocked (fo d) \<and> fp_cr (fo d) = CR_PG \<and> \<not> fp_failed (fo d)"
  have put: "?ok (bus_put B 1 a xs d) \<and> fp_mem (fo (bus_put B 1 a xs d)) = poke (fp_mem (fo d)) a xs"
    if h: "?ok d" "aligned a 1" "flash a" "length xs = 2 ^ 1" "\<forall>i < 2 ^ 1. fp_mem (fo d) (a + word_of_nat i) = 0xFF" for a xs d
  proof -
    have "fpec_programs flash B fo" using ok by (simp add: fpec_ok_def)
    then obtain n where "fo (cb_part B a xs d) = fo d\<lparr>fp_eop := True, fp_busy := n, fp_mem := poke (fp_mem (fo d)) a xs\<rparr>"
      using h unfolding fpec_programs_def power_one_right by blast
    then show ?thesis using h(1) by (simp add: bus_put_def)
  qed
  have len': "n * 2 ^ 1 \<le> length bs" "n * 2 ^ 1 \<le> 2 ^ 32" using len by simp_all
  have ff': "\<And>i. i < n * 2 ^ 1 \<Longrightarrow> fp_mem (fo c) (dest + word_of_nat i) = 0xFF" using ff by simp
  have fl': "flash (dest + word_of_nat (i * 2 ^ 1))" if "i < n" for i
  proof -
    have "i * 2 ^ 1 = 2 * i" by simp
    then show ?thesis using fl [OF that] by (simp only:)
  qed
  have t: "n * 2 ^ 1 = 2 * n" by simp
  have c: "?ok c" using f by simp
  have "?ok (bus_stream B 1 dest n bs c) \<and> fp_mem (fo (bus_stream B 1 dest n bs c)) = poke (fp_mem (fo c)) dest (take (n * 2 ^ 1) bs)"
    by (rule stream_stores [where ok = ?ok and flash = flash and mem = "\<lambda>c. fp_mem (fo c)", OF _ _ c al len'])
      (rule put, assumption+, simp, (rule ff' fl', assumption)+)
  then show ?thesis unfolding t by simp
qed

lemma stm_program_runs:
  assumes on: "stm_on page flash E B st fo s" and idle: "fpec_idle (fo (core_of st s))"
    and al: "aligned dest 1" "even (length src)" "length src \<le> 2 ^ 32"
    and ff: "\<And>i. i < length src \<Longrightarrow> fp_mem (fo (core_of st s)) (dest + word_of_nat i) = 0xFF"
    and fl: "\<And>i. i < length src div 2 \<Longrightarrow> flash (dest + word_of_nat (2 * i))"
  shows "runs (stm32f1_program E 0 dest src s) (\<lambda>ok s'. ok \<and> fp_mem (fo (core_of st s')) = poke (fp_mem (fo (core_of st s))) dest src)"
proof -
  have ok: "fpec_ok page flash B fo" using on by (simp add: stm_on_def)
  have pg: "fo (cb_write B FLASH_CR CR_PG (core_of st s)) = fo (core_of st s)\<lparr>fp_cr := CR_PG\<rparr>"
    using ok idle by (simp add: fpec_ok_def fpec_control_def)
  have n: "2 * (length src div 2) = length src" using al(2) by simp
  show ?thesis unfolding stm32f1_program_def add_0_right
  proof (rule runs_andthen [OF stm_write32 [OF on]], simp, elim conjE)
    fix s1 assume s1: "stm_on page flash E B st fo s1" "core_of st s1 = cb_write B FLASH_CR CR_PG (core_of st s)"
    let ?c = "bus_stream B 1 dest (length src div 2) src (core_of st s1)"
    have f1: "fo (core_of st s1) = fo (core_of st s)\<lparr>fp_cr := CR_PG\<rparr>" using s1(2) pg by simp
    have "\<not> fp_failed (fo ?c) \<and> fp_mem (fo ?c) = poke (fp_mem (fo (core_of st s1))) dest (take (2 * (length src div 2)) src)"
      by (rule stm_stream [OF ok]) (use f1 idle al n ff fl in simp_all)
    then have c: "\<not> fp_failed (fo ?c)" "fp_mem (fo ?c) = poke (fp_mem (fo (core_of st s))) dest src" by (simp_all add: n f1)
    have "runs (cortexm_mem_write_sized E dest src ALIGN_HALFWORD s1) (\<lambda>e s'. stm_on page flash E B st fo s' \<and> core_of st s' = ?c)"
      by (rule runs_mono [OF chip_write_sized [where k = 1]]) (use s1(1) al in \<open>auto simp: stm_on_def\<close>)
    then show "runs (andthen (cortexm_mem_write_sized E dest src ALIGN_HALFWORD s1) (\<lambda>e s. andthen (program_wait E FLASH_SR s) (\<lambda>sr.
        return (case sr of None \<Rightarrow> False | Some sr \<Rightarrow> sr AND SR_ERROR_MASK = 0))))
      (\<lambda>ok s'. ok \<and> fp_mem (fo (core_of st s')) = poke (fp_mem (fo (core_of st s))) dest src)"
      by (rule runs_andthen, elim conjE, intro runs_andthen [OF stm_program_wait]) (use c in \<open>auto intro!: runs_return\<close>)
  qed
qed

lemma stm_write_runs:
  assumes on: "stm_on page flash E B st fo s" and idle: "fpec_idle (fo (core_of st s))" and i: "idcode \<noteq> 0x430"
    and al: "aligned dest 1" "even (length src)" "src \<noteq> []" and bank: "unat dest + length src \<le> unat FLASH_BANK_SPLIT"
    and ff: "\<And>i. i < length src \<Longrightarrow> fp_mem (fo (core_of st s)) (dest + word_of_nat i) = 0xFF"
    and fl: "\<And>i. i < length src div 2 \<Longrightarrow> flash (dest + word_of_nat (2 * i))"
  shows "runs (stm32f1_flash_write E idcode dest src s) (\<lambda>r s'. r = 0 \<and> fp_mem (fo (core_of st s')) = poke (fp_mem (fo (core_of st s))) dest src)"
proof -
  let ?len = "word_of_nat (length src) :: u32"
  have l: "0 < length src" "unat dest + length src \<le> 0x08080000" using al(3) bank by (simp_all add: FLASH_BANK_SPLIT_def)
  have len: "unat ?len = length src" using l(2) by (simp add: unsigned_of_nat take_bit_nat_eq_self)
  have "unat dest < 0x08080000" using l by linarith
  then have b1: "dest < FLASH_BANK_SPLIT" by (simp add: word_less_nat_alt FLASH_BANK_SPLIT_def)
  have last: "\<not> FLASH_BANK_SPLIT \<le> dest + ?len - 1"
  proof -
    obtain k where k: "length src = Suc k" using l(1) by (cases "length src") simp_all
    have "dest + ?len - 1 = word_of_nat (unat dest + k)" unfolding k by simp
    moreover have "unat (word_of_nat (unat dest + k) :: u32) = unat dest + k"
      using l(2) k by (simp add: unsigned_of_nat take_bit_nat_eq_self del: of_nat_add)
    ultimately have "unat (dest + ?len - 1) < 0x08080000" using l(2) k by simp
    then show ?thesis by (simp add: word_le_nat_alt FLASH_BANK_SPLIT_def)
  qed
  have eq: "stm32f1_flash_write E idcode dest src s =
    andthen (stm32f1_program E 0 dest src s) (\<lambda>ok s. if \<not> ok then return (- 1) s else andthen (return True s) (\<lambda>ok. return (if ok then 0 else - 1)))"
    using i b1 last by (simp add: stm32f1_flash_write_def Let_def len cong: if_cong)
  show ?thesis unfolding eq
    by (rule runs_andthen [OF stm_program_runs [OF on idle al(1,2) _ ff fl]]) (use l(2) in \<open>auto intro!: runs_return\<close>)
qed

text \<open>
  C10. Erasing flash and programming it on an STM32 of the F0, F1 and F3 families: with the flash controller
  behaving as described, idle and without a pending error, \<open>stm32f1_flash_erase\<close> of pages of the first
  bank and then \<open>stm32f1_flash_write\<close> of data within them both report success; afterwards the flash holds
  the data, \<open>0xFF\<close> in the rest of the erased pages, and what it held everywhere else. The part may be any
  but one of extra-large density.
\<close>

theorem stm32f1_programs:
  assumes "stm_on page flash E B st fo s" and "fp_busy (fo (core_of st s)) = 0" "\<not> fp_failed (fo (core_of st s))" and "idcode \<noteq> 0x430"
    and "flash_pages page (\<lambda>a. flash a \<and> a < FLASH_BANK_SPLIT) addr len" "len \<noteq> 0"
    and "aligned dest 1" "even (length src)" "src \<noteq> []" and "unat (dest - addr) + length src \<le> page_span page len"
    and "unat dest + length src \<le> unat FLASH_BANK_SPLIT" and "\<And>i. i < length src div 2 \<Longrightarrow> flash (dest + word_of_nat (2 * i))"
  shows "runs (andthen (stm32f1_flash_erase E idcode page addr len s) (\<lambda>r1 s. andthen (stm32f1_flash_write E idcode dest src s) (\<lambda>r2. return (r1, r2))))
    (\<lambda>r s'. r = (0, 0) \<and> fp_mem (fo (core_of st s')) = poke (wipe 0xFF addr (page_span page len) (fp_mem (fo (core_of st s)))) dest src)"
proof (rule runs_andthen [OF stm_erase_runs [OF assms(1-6)]], elim conjE)
  fix r1 s1 assume s1: "r1 = 0" "stm_on page flash E B st fo s1" "fp_busy (fo (core_of st s1)) = 0" "fp_unlocked (fo (core_of st s1))"
    "\<not> fp_failed (fo (core_of st s1))" "fp_mem (fo (core_of st s1)) = wipe 0xFF addr (page_span page len) (fp_mem (fo (core_of st s)))"
  have span: "page_span page len \<le> 2 ^ 32" using assms(5) by (simp add: flash_pages_def)
  have ff: "fp_mem (fo (core_of st s1)) (dest + word_of_nat i) = 0xFF" if "i < length src" for i
    unfolding s1(6) by (rule wiped_range [OF that assms(10) span])
  have f: "fpec_idle (fo (core_of st s1))" using s1(3-5) by simp
  show "runs (andthen (stm32f1_flash_write E idcode dest src s1) (\<lambda>r2. return (r1, r2))) (\<lambda>r s'. r = (0, 0) \<and>
       fp_mem (fo (core_of st s')) = poke (wipe 0xFF addr (page_span page len) (fp_mem (fo (core_of st s)))) dest src)"
    by (rule runs_andthen [OF stm_write_runs [OF s1(2) f assms(4,7-9,11) ff assms(12)]]) (use s1(1,6) in \<open>auto intro!: runs_return\<close>)
qed

text \<open>A controller: programming can only clear bits, and fails where they are not set.\<close>

definition fpec_bus :: "u32 \<Rightarrow> (u32 \<Rightarrow> bool) \<Rightarrow> fpec core_bus" where
  "fpec_bus page flash = \<lparr>
     cb_read = (\<lambda>a f.
       if a = FLASH_SR then
         ((if fp_busy f = 0 then 0 else 1) OR (if fp_failed f then 4 else 0) OR (if fp_eop f then 0x20 else 0), f\<lparr>fp_busy := fp_busy f - 1\<rparr>)
       else if a = FLASH_CR then (fp_cr f AND 0x77 OR (if fp_unlocked f then 0 else 0x80), f)
       else (word_of_nat (le_word (mem_bytes (fp_mem f) a 4)), f)),
     cb_write = (\<lambda>a v f.
       if a = FLASH_KEYR then
         if v = KEY1 then f\<lparr>fp_key := True\<rparr> else if v = KEY2 \<and> fp_key f then f\<lparr>fp_key := False, fp_unlocked := True\<rparr> else f
       else if a = FLASH_AR then f\<lparr>fp_ar := v\<rparr>
       else if a = FLASH_CR \<and> fp_unlocked f then
         if v = (CR_STRT OR CR_PER) \<and> fp_cr f = CR_PER then
           f\<lparr>fp_eop := True, fp_busy := 3, fp_mem := wipe 0xFF (fp_ar f) (unat page) (fp_mem f)\<rparr>
         else f\<lparr>fp_cr := v\<rparr>
       else f),
     cb_part = (\<lambda>a bs f.
       if fp_unlocked f \<and> fp_cr f = CR_PG \<and> flash a \<and> length bs = 2 then
         if \<forall>i < 2. fp_mem f (a + word_of_nat i) = 0xFF then f\<lparr>fp_eop := True, fp_busy := 2, fp_mem := poke (fp_mem f) a bs\<rparr>
         else f\<lparr>fp_failed := True\<rparr>
       else f)\<rparr>"

lemma fpec_bus_ok: "fpec_ok page flash (fpec_bus page flash) id"
proof -
  have d: "FLASH_SR \<noteq> FLASH_CR" "FLASH_KEYR \<noteq> FLASH_CR" "FLASH_CR \<noteq> FLASH_KEYR" "FLASH_KEYR \<noteq> FLASH_AR" "FLASH_AR \<noteq> FLASH_KEYR" "FLASH_CR \<noteq> FLASH_AR" "FLASH_CR \<noteq> FLASH_SR"
    by (simp_all add: FLASH_SR_def FLASH_CR_def FLASH_KEYR_def FLASH_AR_def)
  have cr: "(fp_cr f AND 0x77) AND 0x80 = 0" for f by (simp add: and.assoc)
  have "fpec_status (fpec_bus page flash) id"
    by (auto simp: fpec_status_def fpec_bus_def d bit.conj_disj_distrib2 cr)
  moreover have "fpec_control (fpec_bus page flash) id" by (auto simp: fpec_control_def fpec_bus_def d)
  moreover have "fpec_erases page flash (fpec_bus page flash) id" by (auto simp: fpec_erases_def fpec_bus_def d)
  moreover have "fpec_programs flash (fpec_bus page flash) id" by (auto simp: fpec_programs_def fpec_bus_def d)
  ultimately show ?thesis by (simp add: fpec_ok_def)
qed

definition stm_flash :: "u32 \<Rightarrow> bool" where "stm_flash a \<longleftrightarrow> 0x08000000 \<le> a \<and> a < 0x08010000"

definition fpec_reset :: fpec where \<comment> \<open>after a reset, the flash in use\<close>
  "fpec_reset = \<lparr>fp_key = False, fp_unlocked = False, fp_cr = 0, fp_ar = 0, fp_failed = False, fp_eop = False, fp_busy = 0, fp_mem = (\<lambda>x. 0x55)\<rparr>"

theorem stm32f1_programs_witness:
  "let B = fpec_bus 0x400 stm_flash
   in runs (andthen (stm32f1_flash_erase (plain_env B) 0x410 0x400 0x08000400 0x400 (plain_cm fpec_reset))
        (\<lambda>r1 s. andthen (stm32f1_flash_write (plain_env B) 0x410 0x08000404 [1, 2, 3, 4] s) (\<lambda>r2. return (r1, r2))))
      (\<lambda>r s'. r = (0, 0) \<and> map (fp_mem (core_of id s')) [0x080003FF, 0x08000400, 0x08000404, 0x08000407, 0x08000408, 0x080007FF, 0x08000800]
        = [0x55, 0xFF, 1, 4, 0xFF, 0xFF, 0x55])"
proof -
  let ?B = "fpec_bus 0x400 stm_flash" and ?s = "plain_cm fpec_reset"
  have c: "id (core_of id ?s) = fpec_reset" by (simp add: plain_ready(3) [unfolded id_apply])
  have on: "stm_on 0x400 stm_flash (plain_env ?B) ?B id id ?s"
    unfolding stm_on_def chip_on_def by (intro conjI fpec_bus_ok plain_ready)
  have idle: "fp_busy (id (core_of id ?s)) = 0" "\<not> fp_failed (id (core_of id ?s))" unfolding c by (simp_all add: fpec_reset_def)
  have i: "(0x410 :: u16) \<noteq> 0x430" "(0x400 :: u32) \<noteq> 0" by simp_all
  have pages: "flash_pages 0x400 (\<lambda>a. stm_flash a \<and> a < FLASH_BANK_SPLIT) 0x08000400 0x400"
    by (auto simp: flash_pages_def page_span_def stm_flash_def FLASH_BANK_SPLIT_def)
  have al: "aligned 0x08000404 1" "even (length [1, 2, 3, 4 :: u8])" "[1, 2, 3, 4 :: u8] \<noteq> []" by (simp_all add: aligned_def)
  have le: "unat (0x08000404 - 0x08000400 :: u32) + length [1, 2, 3, 4 :: u8] \<le> page_span 0x400 0x400"
    "unat (0x08000404 :: u32) + length [1, 2, 3, 4 :: u8] \<le> unat FLASH_BANK_SPLIT" by (simp_all add: page_span_def FLASH_BANK_SPLIT_def)
  have fl: "stm_flash (0x08000404 + word_of_nat (2 * i))" if "i < length [1, 2, 3, 4 :: u8] div 2" for i
  proof -
    have "i = 0 \<or> i = 1" using that by auto
    then show ?thesis by (auto simp: stm_flash_def)
  qed
  have m1: "unat (- 1 :: u32) = 0xFFFFFFFF" by (simp add: unsigned_minus_1_eq_mask mask_eq_exp_minus_1)
  show ?thesis unfolding Let_def
    by (rule runs_mono [OF stm32f1_programs [OF on idle i(1) pages i(2) al le fl]])
      (simp_all only: c, simp_all add: fpec_reset_def poke_def wipe_def page_span_def m1)
qed

text \<open>
  C36. The second bank of a part of extra-large density cannot be erased on its own: \<open>stm32f1_flash_unlock\<close>
  writes the keys to the second bank but looks for the lock in the control register of the first, so
  \<open>stm32f1_flash_erase\<close> of a range in the second bank stops with an error while the first bank is locked,
  having written nothing but the keys.
\<close>

theorem second_bank_stays_locked:
  fixes addr len :: u32
  defines "keyed \<equiv> \<lambda>B c. cb_write B (FLASH_KEYR + FLASH_BANK2_OFFSET) 0xCDEF89AB (cb_write B (FLASH_KEYR + FLASH_BANK2_OFFSET) 0x45670123 c)"
  assumes "chip_on E B st s" and "FLASH_BANK_SPLIT \<le> addr" and "FLASH_BANK_SPLIT \<le> addr + len - 1"
    and "fst (cb_read B FLASH_CR (keyed B (core_of st s))) AND 0x80 \<noteq> 0"
  shows "runs (stm32f1_flash_erase E 0x430 blocksize addr len s)
    (\<lambda>r s'. r = - 1 \<and> core_of st s' = snd (cb_read B FLASH_CR (keyed B (core_of st s))))"
proof -
  have a: "aligned (FLASH_KEYR + FLASH_BANK2_OFFSET) 2" by (simp add: aligned_def FLASH_KEYR_def FLASH_BANK2_OFFSET_def)
  have eq: "stm32f1_flash_erase E 0x430 blocksize addr len s =
    andthen (stm32f1_flash_unlock E FLASH_BANK2_OFFSET s) (\<lambda>ok s. if \<not> ok then return (- 1) s else
         andthen (page_loop (stm32f1_erase_page E) blocksize addr len s) (\<lambda>ok s. if \<not> ok then return (- 1) s else
         andthen (erase_status E FLASH_BANK2_OFFSET s) (\<lambda>ok. return (if ok then 0 else - 1))))"
    using assms(3,4) by (simp add: stm32f1_flash_erase_def Let_def linorder_not_less [symmetric] cong: if_cong)
  have "runs (stm32f1_flash_unlock E FLASH_BANK2_OFFSET s) (\<lambda>ok s'. \<not> ok \<and> core_of st s' = snd (cb_read B FLASH_CR (keyed B (core_of st s))))"
    unfolding stm32f1_flash_unlock_def
  proof (rule runs_andthen [OF chip_write32 [OF assms(2) a]], elim conjE, rule runs_andthen [OF chip_write32 [OF _ a]], assumption, elim conjE)
    fix s1 s2 assume c: "chip_on E B st s2" "core_of st s1 = cb_write B (FLASH_KEYR + FLASH_BANK2_OFFSET) KEY1 (core_of st s)"
      "core_of st s2 = cb_write B (FLASH_KEYR + FLASH_BANK2_OFFSET) KEY2 (core_of st s1)"
    then have k: "core_of st s2 = keyed B (core_of st s)" by (simp add: keyed_def)
    show "runs (andthen (cm_read32 E FLASH_CR s2) (\<lambda>cr. return (cr AND CR_LOCK = 0)))
      (\<lambda>ok s'. \<not> ok \<and> core_of st s' = snd (cb_read B FLASH_CR (keyed B (core_of st s))))"
      by (rule runs_andthen [OF chip_read32 [OF c(1)]]) (use assms(5) k in \<open>auto intro!: runs_return\<close>)
  qed
  then show ?thesis unfolding eq by (rule runs_andthen) (auto intro!: runs_return)
qed

theorem second_bank_stays_locked_witness:
  "let B = fpec_bus 0x800 stm_flash
   in runs (stm32f1_flash_erase (plain_env B) 0x430 0x800 0x08080000 0x800 (plain_cm fpec_reset))
        (\<lambda>r s'. r = - 1 \<and> core_of id s' = fpec_reset)"
proof -
  let ?B = "fpec_bus 0x800 stm_flash" and ?s = "plain_cm fpec_reset"
  have c: "cp_core (cm_world ?s) = fpec_reset" by (simp add: plain_ready(3) [unfolded id_apply])
  have on: "chip_on (plain_env ?B) ?B id ?s" by (simp add: chip_on_def plain_ready)
  have d: "FLASH_KEYR + FLASH_BANK2_OFFSET \<noteq> FLASH_KEYR" "FLASH_KEYR + FLASH_BANK2_OFFSET \<noteq> FLASH_AR" "FLASH_KEYR + FLASH_BANK2_OFFSET \<noteq> FLASH_CR"
    "FLASH_CR \<noteq> FLASH_SR" "FLASH_BANK2_OFFSET \<noteq> 0"
    by (simp_all add: FLASH_KEYR_def FLASH_BANK2_OFFSET_def FLASH_AR_def FLASH_CR_def FLASH_SR_def)
  have w: "cb_write ?B (FLASH_KEYR + FLASH_BANK2_OFFSET) v f = f" for v f by (simp add: fpec_bus_def d)
  have r: "cb_read ?B FLASH_CR fpec_reset = (0x80, fpec_reset)" by (simp add: fpec_bus_def d fpec_reset_def)
  show ?thesis unfolding Let_def
    by (rule runs_mono [OF second_bank_stays_locked [OF on]]) (simp_all add: c w r, simp_all add: FLASH_BANK_SPLIT_def)
qed

end
