(* ===== verification/Adiv5_Jtagdp.thy ===== *)
theory Adiv5_Jtagdp
  imports Adiv5_Ap Adiv5_Swdp Jtag_Scan
begin

unbundle bit_operations_syntax

text \<open>
  \<open>src/src/target/adiv5_jtagdp.c\<close>: the debug port over a scan chain. A transfer shifts 35 bits through the
  port's register, a request in and the answer to the one before out. The state is the debug port with the
  chain it is on.
\<close>

abbreviation (input) JTAGDP_ACK_OK :: u64 where "JTAGDP_ACK_OK \<equiv> 2"
abbreviation (input) JTAGDP_ACK_WAIT :: u64 where "JTAGDP_ACK_WAIT \<equiv> 1"
abbreviation (input) IR_ABORT :: u32 where "IR_ABORT \<equiv> 0x8"
abbreviation (input) IR_DPACC :: u32 where "IR_DPACC \<equiv> 0xA"
abbreviation (input) IR_APACC :: u32 where "IR_APACC \<equiv> 0xB"

record 'w jtagdp =
  dp_jd_index :: nat
  jdp_idcode :: u32
  jdp_fault :: bool
  jdp_proc :: "'w jtag_proc"

subsection \<open>Transfers\<close>

definition u64_bytes :: "u64 \<Rightarrow> u8 list" where
  "u64_bytes v = map (\<lambda>i. ucast (drop_bit (8 * i) v)) [0..<8]"

definition bytes_u64 :: "u8 list \<Rightarrow> u64" where
  "bytes_u64 bs = word_of_nat (le_word bs)"

definition jtagdp_request :: "bool \<Rightarrow> u16 \<Rightarrow> u32 \<Rightarrow> u64" where
  "jtagdp_request RnW addr v =
     (push_bit 3 (ucast v) OR (ucast (drop_bit 1 (addr AND 0xFF)) AND 0x06)) OR (if RnW then 1 else 0)"

text \<open>\<open>response\<close> is kept from one pass of the loop to the next, as the variable is.\<close>

partial_function (option) jtagdp_loop ::
  "'w jtag_ops \<Rightarrow> 'w clock \<Rightarrow> nat \<Rightarrow> u64 \<Rightarrow> u32 \<Rightarrow> u8 list \<Rightarrow> 'w jtag_proc \<Rightarrow> (u64 \<times> 'w jtag_proc) option" where
  "jtagdp_loop J T jd request t response p =
     do { (response, p) \<leftarrow> jtag_dev_shift_dr J jd (Some response) (u64_bytes request) 35 p;
          let (expired, w) = platform_timeout_is_expired T t (jp_world p);
              p = p\<lparr>jp_world := w\<rparr>
          in if \<not> expired \<and> bytes_u64 response AND 7 = JTAGDP_ACK_WAIT then jtagdp_loop J T jd request t response p
             else Some (bytes_u64 response, p) }"

definition adiv5_jtagdp_abort :: "'w jtag_ops \<Rightarrow> u32 \<Rightarrow> 'w jtagdp \<Rightarrow> ('w jtagdp, unit) outcome" where
  "adiv5_jtagdp_abort J abort s =
     do { p \<leftarrow> jtag_dev_write_ir J (dp_jd_index s) IR_ABORT (jdp_proc s);
          (_, p) \<leftarrow> jtag_dev_shift_dr J (dp_jd_index s) None (u64_bytes (push_bit 3 (ucast abort))) 35 p;
          return () (s\<lparr>jdp_proc := p\<rparr>) }"

text \<open>\<open>response\<close> is not initialised before the loop; all the bits that are used of it are shifted in.\<close>

definition fw_adiv5_jtagdp_low_access ::
  "'w jtag_ops \<Rightarrow> 'w clock \<Rightarrow> bool \<Rightarrow> u16 \<Rightarrow> u32 \<Rightarrow> 'w jtagdp \<Rightarrow> ('w jtagdp, u32) outcome" where
  "fw_adiv5_jtagdp_low_access J T RnW addr v s =
     do { p \<leftarrow> jtag_dev_write_ir J (dp_jd_index s) (if addr AND ADIV5_APnDP \<noteq> 0 then IR_APACC else IR_DPACC) (jdp_proc s);
          let (t, w) = platform_timeout_set T 20 (jp_world p);
          (response, p) \<leftarrow> jtagdp_loop J T (dp_jd_index s) (jtagdp_request RnW addr v) t (replicate 8 0) (p\<lparr>jp_world := w\<rparr>);
          let s = s\<lparr>jdp_proc := p\<rparr>;
          let ack = response AND 7;
          if ack = JTAGDP_ACK_WAIT
          then andthen (adiv5_jtagdp_abort J ADIV5_DP_ABORT_DAPABORT s) (\<lambda>x s. return 0 (s\<lparr>jdp_fault := True\<rparr>))
          else if ack \<noteq> JTAGDP_ACK_OK then raise_exn EXCEPTION_ERROR ''JTAG-DP invalid ACK'' s
          else return (ucast (drop_bit 3 response)) s }"

definition fw_adiv5_jtagdp_read :: "'w jtag_ops \<Rightarrow> 'w clock \<Rightarrow> u16 \<Rightarrow> 'w jtagdp \<Rightarrow> ('w jtagdp, u32) outcome" where
  "fw_adiv5_jtagdp_read J T addr s =
     andthen (fw_adiv5_jtagdp_low_access J T True addr 0 s) (\<lambda>x. fw_adiv5_jtagdp_low_access J T True ADIV5_DP_RDBUFF 0)"

text \<open>The fault flag stays as it is.\<close>

definition adiv5_jtagdp_error :: "'w jtag_ops \<Rightarrow> 'w clock \<Rightarrow> 'w jtagdp \<Rightarrow> ('w jtagdp, u32) outcome" where
  "adiv5_jtagdp_error J T s =
     andthen (fw_adiv5_jtagdp_low_access J T True ADIV5_DP_CTRLSTAT 0 s) (\<lambda>x s.
     andthen (fw_adiv5_jtagdp_low_access J T False ADIV5_DP_CTRLSTAT 0xF0000032 s) (\<lambda>x.
     return (x AND 0x32)))"

definition jtagdp_dp :: "'w jtag_ops \<Rightarrow> 'w clock \<Rightarrow> 'w jtagdp dp_ops" where
  "jtagdp_dp J T = \<lparr>dp_low_access = fw_adiv5_jtagdp_low_access J T, dp_read = fw_adiv5_jtagdp_read J T,
     dp_error = adiv5_jtagdp_error J T, dp_abort = adiv5_jtagdp_abort J\<rparr>"

text \<open>The handler of the scan: a port of its own for the device; \<open>init\<close> is \<open>adiv5_dp_init\<close>.\<close>

definition adiv5_jtag_dp_handler ::
  "('w \<Rightarrow> bool \<times> 'w) \<Rightarrow> ('w jtagdp \<Rightarrow> ('w jtagdp, unit) outcome) \<Rightarrow> nat \<Rightarrow> 'w jtag_proc \<Rightarrow> ('w jtag_proc, unit) outcome" where
  "adiv5_jtag_dp_handler alloc init i p =
     (if \<not> i < length (jtag_devs p) then None
      else case alloc (jp_world p) of
             (False, w) \<Rightarrow> return () (p\<lparr>jp_world := w\<rparr>)
           | (True, w) \<Rightarrow> map_option (map_prod id jdp_proc)
               (init \<lparr>dp_jd_index = unat (jd_dev (jtag_devs p ! i)), jdp_idcode = jd_idcode (jtag_devs p ! i),
                  jdp_fault = False, jdp_proc = p\<lparr>jp_world := w\<rparr>\<rparr>))"

end
