(* ===== verification/Jtag_Memory.thy ===== *)
theory Jtag_Memory
  imports Adiv5_Jtagdp Swd_Memory Cortexm_Units
begin

text \<open>
  The debug port of \<open>adiv5_jtagdp.c\<close> down to the four wires: on a chain whose devices behave like the
  shift registers of the standard and one of which is a debug port, every access of the code is an access
  of that port. The ports of \<open>Adiv5_Mem\<close> and \<open>Cortexm_Core\<close> are then such ports, so that what is
  proved over them holds over the wires.
\<close>

unbundle bit_operations_syntax

subsection \<open>A chain as a shift register\<close>

text \<open>What can be observed of the chain: the state of the test access ports, the bits of the selected
  registers of all devices (the one next to \<open>TDO\<close> first), the instruction of the debug port, and the port.\<close>

record 'p tap_dev =
  td_st :: tap_state
  td_reg :: "bool list"
  td_ir :: u32
  td_port :: 'p

definition shift_register :: "'w jtag_next \<Rightarrow> ('w \<Rightarrow> 'p tap_dev) \<Rightarrow> bool" where
  "shift_register N dv \<longleftrightarrow> (\<forall>tms tdi w. shifting (td_st (dv w)) \<longrightarrow> td_reg (dv w) \<noteq> [] \<longrightarrow>
     fst (N tms tdi w) = hd (td_reg (dv w)) \<and>
     dv (snd (N tms tdi w)) = dv w\<lparr>td_st := tap_step (td_st (dv w)) tms, td_reg := tl (td_reg (dv w)) @ [tdi]\<rparr>)"

lemma shift_registerD:
  assumes "shift_register N dv" "shifting (td_st (dv w))" "td_reg (dv w) = b # bs"
  shows "N tms tdi w = (b, snd (N tms tdi w))"
    "dv (snd (N tms tdi w)) = dv w\<lparr>td_st := tap_step (td_st (dv w)) tms, td_reg := bs @ [tdi]\<rparr>"
proof -
  have ne: "td_reg (dv w) \<noteq> []" using assms(3) by simp
  have "fst (N tms tdi w) = hd (td_reg (dv w)) \<and>
     dv (snd (N tms tdi w)) = dv w\<lparr>td_st := tap_step (td_st (dv w)) tms, td_reg := tl (td_reg (dv w)) @ [tdi]\<rparr>"
    using assms(1) [unfolded shift_register_def, rule_format, OF assms(2) ne] .
  then show "N tms tdi w = (b, snd (N tms tdi w))"
    "dv (snd (N tms tdi w)) = dv w\<lparr>td_st := tap_step (td_st (dv w)) tms, td_reg := bs @ [tdi]\<rparr>"
    unfolding assms(3) list.sel by (simp_all add: prod_eq_iff)
qed

lemma byte_bits_nth: "byte_bits DO k n = bs \<longleftrightarrow> length bs = n \<and> (\<forall>i < n. byte_bit DO (k + i) = bs ! i)"
  by (auto simp: byte_bits_def list_eq_iff_nth_eq)

text \<open>The answer replaces the bits of the buffer from the position on, and keeps the others.\<close>

definition received :: "u8 list \<Rightarrow> nat \<Rightarrow> bool list \<Rightarrow> u8 list \<Rightarrow> bool" where
  "received DO k bs DO' \<longleftrightarrow> length DO' = length DO \<and> (\<forall>i < 8 * length DO. byte_bit DO' i =
     (if k \<le> i \<and> i < k + length bs then bs ! (i - k) else byte_bit DO i))"

lemma received_one:
  assumes "p < length DO" "r < 8"
  shows "received DO (8 * p + r) [b] (DO[p := (if b then DO ! p OR push_bit r 1 else DO ! p AND NOT (push_bit r 1))])"
proof -
  have "byte_bit (DO[p := (if b then DO ! p OR push_bit r 1 else DO ! p AND NOT (push_bit r 1))]) i =
      (if i = 8 * p + r then b else byte_bit DO i)" if i: "i < 8 * length DO" for i
  proof (cases "i div 8 = p")
    case False
    then have "i \<noteq> 8 * p + r" using assms(2) by auto
    then show ?thesis using False by (simp add: byte_bit_def)
  next
    case True
    then have "i = 8 * p + i mod 8" by presburger
    then have "i = 8 * p + r \<longleftrightarrow> i mod 8 = r" by linarith
    moreover have "i mod 8 < 8" by simp
    ultimately show ?thesis using True assms
      by (auto simp: byte_bit_def bit_simps)
  qed
  then show ?thesis by (auto simp: received_def)
qed

lemma received_trans:
  assumes "received DO k [b] DO1" "received DO1 (Suc k) bs DO'"
  shows "received DO k (b # bs) DO'"
proof -
  have "(b # bs) ! (i - k) = bs ! (i - Suc k)" if "Suc k \<le> i" for i
    using that by (simp add: nth_Cons' Suc_le_eq)
  then show ?thesis using assms by (auto simp: received_def not_less_eq_eq dest: le_antisym)
qed

lemma tdo_loop_shifts:
  assumes B: "shift_register N dv"
  shows "shifting (td_st (dv w)) \<Longrightarrow> r < 8 \<Longrightarrow> 0 < n \<Longrightarrow> 8 * p + r + n \<le> 8 * length DI \<Longrightarrow> length DO = length DI \<Longrightarrow> n \<le> length (td_reg (dv w)) \<Longrightarrow>
    \<exists>DO' w'. tdi_tdo_loop N final DI n DO p (push_bit r 1) w = Some (DO', w') \<and>
      received DO (8 * p + r) (take n (td_reg (dv w))) DO' \<and>
      dv w' = dv w\<lparr>td_st := tap_step (td_st (dv w)) final, td_reg := drop n (td_reg (dv w)) @ byte_bits DI (8 * p + r) n\<rparr>"
proof (induction n arbitrary: p r w DO)
  case 0
  then show ?case by simp
next
  case (Suc n)
  have p: "p < length DI" "p < length DO" using Suc.prems by simp_all
  obtain b bs where reg: "td_reg (dv w) = b # bs" using Suc.prems(6) by (cases "td_reg (dv w)") auto
  let ?tms = "if n \<noteq> 0 then False else final"
  define w1 where "w1 = snd (N ?tms (bit (DI ! p) r) w)"
  define DO1 where "DO1 = DO[p := (if b then DO ! p OR push_bit r 1 else DO ! p AND NOT (push_bit r 1))]"
  have w1: "N ?tms (bit (DI ! p) r) w = (b, w1)"
    "dv w1 = dv w\<lparr>td_st := tap_step (td_st (dv w)) ?tms, td_reg := bs @ [bit (DI ! p) r]\<rparr>"
    using shift_registerD [OF B Suc.prems(1) reg] by (simp_all add: w1_def)
  have one: "received DO (8 * p + r) [b] DO1" "length DO1 = length DI"
    using received_one [OF p(2) Suc.prems(2)] Suc.prems(5) by (simp_all add: DO1_def)
  have bb: "byte_bit DI (8 * p + r) = bit (DI ! p) r" using Suc.prems(2) by (simp add: byte_bit_def index_byte)
  let ?p = "if r = 7 then p + 1 else p" and ?r = "if r = 7 then 0 else r + 1"
  have pos: "8 * ?p + ?r = Suc (8 * p + r)" "?r < 8" using Suc.prems(2) by auto
  have step: "tdi_tdo_loop N final DI (Suc n) DO p (push_bit r 1) w = tdi_tdo_loop N final DI n DO1 ?p (push_bit ?r 1) w1"
    using p Suc.prems(2) w1(1) by (simp add: Let_def next_index_mult mask_index [simplified] DO1_def mult.commute)
  show ?case
  proof (cases "n = 0")
    case True
    with step w1 one(1) reg show ?thesis by (simp add: byte_bits_Suc bb) (simp add: byte_bits_def)
  next
    case False
    have s1: "shifting (td_st (dv w1))" "td_st (dv w1) = td_st (dv w)" using w1(2) False Suc.prems(1) by auto
    have l1: "8 * ?p + ?r + n \<le> 8 * length DI" "n \<le> length (td_reg (dv w1))"
      using Suc.prems(4,6) pos(1) w1(2) reg by simp_all
    from Suc.IH [OF s1(1) pos(2) _ l1(1) one(2) l1(2)] False obtain DO' w' where
      r: "tdi_tdo_loop N final DI n DO1 ?p (push_bit ?r 1) w1 = Some (DO', w')"
      "received DO1 (Suc (8 * p + r)) (take n (td_reg (dv w1))) DO'"
      "dv w' = dv w1\<lparr>td_st := tap_step (td_st (dv w1)) final, td_reg := drop n (td_reg (dv w1)) @ byte_bits DI (Suc (8 * p + r)) n\<rparr>"
      unfolding pos(1) by auto
    have n: "n \<le> length bs" using Suc.prems(6) reg by simp
    have "take n (td_reg (dv w1)) = take n bs" "drop n (td_reg (dv w1)) = drop n bs @ [bit (DI ! p) r]" using w1(2) n by simp_all
    then show ?thesis using r step w1(2) s1(2) reg received_trans [OF one(1), of "take n bs" DO'] by (simp add: byte_bits_Suc bb)
  qed
qed

text \<open>The sequence without an answer is the same one with the answer thrown away.\<close>

lemma tdi_loop_tdo: "length DO = length DI \<Longrightarrow> map_option snd (tdi_tdo_loop N final DI n DO p index w) = tdi_loop N final DI n p index w"
proof (induction n arbitrary: DO p index w)
  case (Suc n)
  then show ?case by (simp add: Let_def case_prod_unfold)
qed simp

lemma tdo_seq_shifts:
  assumes "shift_register N dv" "shifting (td_st (dv w))" "n \<le> 8 * length DI" "length DO = length DI" "n \<le> length (td_reg (dv w))" "0 < n"
  shows "\<exists>DO' w'. jtagtap_tdi_tdo_seq N DO final DI n w = Some (DO', w') \<and> received DO 0 (take n (td_reg (dv w))) DO' \<and>
    dv w' = dv w\<lparr>td_st := tap_step (td_st (dv w)) final, td_reg := drop n (td_reg (dv w)) @ byte_bits DI 0 n\<rparr>"
  using tdo_loop_shifts [OF assms(1,2), of 0 n 0 DI DO final] assms(3-6) by (simp add: jtagtap_tdi_tdo_seq_def)

lemma tdi_seq_registers:
  assumes "shift_register N dv" "shifting (td_st (dv w))" "n \<le> 8 * length DI" "n \<le> length (td_reg (dv w))"
  shows "\<exists>w'. jtagtap_tdi_seq N final DI n w = Some w' \<and>
    dv w' = dv w\<lparr>td_st := (if n = 0 then td_st (dv w) else tap_step (td_st (dv w)) final), td_reg := drop n (td_reg (dv w)) @ byte_bits DI 0 n\<rparr>"
proof (cases "n = 0")
  case True
  then show ?thesis by (simp add: jtagtap_tdi_seq_def byte_bits_def)
next
  case False
  from tdo_seq_shifts [OF assms(1-3) _ assms(4), of DI final] False obtain DO' w' where
    "jtagtap_tdi_tdo_seq N DI final DI n w = Some (DO', w')"
    "dv w' = dv w\<lparr>td_st := tap_step (td_st (dv w)) final, td_reg := drop n (td_reg (dv w)) @ byte_bits DI 0 n\<rparr>" by auto
  moreover from this have "jtagtap_tdi_seq N final DI n w = Some w'"
    using tdi_loop_tdo [of DI DI N final n 0 1 w] by (simp add: jtagtap_tdi_seq_def jtagtap_tdi_tdo_seq_def)
  ultimately show ?thesis using False by simp
qed

lemma pieces_registers:
  assumes B: "shift_register N dv" and s: "shifting (td_st (dv w))" and l: "length (td_reg (dv w)) = a + b + c"
    and n: "a \<le> 32" "0 < b" "b \<le> 8 * length DI" "c \<le> 32" and DO: "length DO = length DI"
  shows "\<exists>w1 DO' w2 w3. jtagtap_tdi_seq N False ones a w = Some w1 \<and> jtagtap_tdi_tdo_seq N DO (c = 0) DI b w1 = Some (DO', w2) \<and>
    jtagtap_tdi_seq N True ones c w2 = Some w3 \<and> received DO 0 (take b (drop a (td_reg (dv w)))) DO' \<and>
    dv w3 = dv w\<lparr>td_st := tap_step (td_st (dv w)) True, td_reg := replicate a True @ byte_bits DI 0 b @ replicate c True\<rparr>"
proof -
  let ?st = "td_st (dv w)" and ?reg = "td_reg (dv w)"
  have sh: "tap_step ?st False = ?st" using s by auto
  have o: "a \<le> 8 * length ones" "c \<le> 8 * length ones" using n by (simp_all add: length_ones)
  from tdi_seq_registers [OF B s o(1), of False] l sh obtain w1 where w1: "jtagtap_tdi_seq N False ones a w = Some w1"
    "dv w1 = dv w\<lparr>td_reg := drop a ?reg @ replicate a True\<rparr>"
    by (auto simp: byte_bits_ones n(1) split: if_splits)
  have s1: "shifting (td_st (dv w1))" and l1: "b \<le> length (td_reg (dv w1))" using s l w1(2) by simp_all
  from tdo_seq_shifts [OF B s1 n(3) DO l1 n(2), of "c = 0"] obtain DO' w2 where w2: "jtagtap_tdi_tdo_seq N DO (c = 0) DI b w1 = Some (DO', w2)"
    "received DO 0 (take b (drop a ?reg)) DO'"
    "dv w2 = dv w\<lparr>td_st := tap_step ?st (c = 0), td_reg := drop b (drop a ?reg) @ replicate a True @ byte_bits DI 0 b\<rparr>"
    using w1(2) l by auto
  have "\<exists>w3. jtagtap_tdi_seq N True ones c w2 = Some w3 \<and>
    dv w3 = dv w\<lparr>td_st := tap_step ?st True, td_reg := replicate a True @ byte_bits DI 0 b @ replicate c True\<rparr>"
  proof (cases "c = 0")
    case True
    with w2(3) l show ?thesis by (simp add: jtagtap_tdi_seq_def)
  next
    case False
    have s2: "shifting (td_st (dv w2))" and l2: "c \<le> length (td_reg (dv w2))" using s sh w2(3) l False by simp_all
    from tdi_seq_registers [OF B s2 o(2) l2, of True] False w2(3) l sh show ?thesis
      by (auto simp: byte_bits_ones n(4))
  qed
  with w1(1) w2(1,2) show ?thesis by blast
qed

lemma tdi_seq_tdo: "length DO = length DI \<Longrightarrow> jtagtap_tdi_tdo_seq N DO final DI n w = Some (DO', w') \<Longrightarrow> jtagtap_tdi_seq N final DI n w = Some w'"
  using tdi_loop_tdo [of DO DI N final n 0 1 w] by (simp add: jtagtap_tdi_seq_def jtagtap_tdi_tdo_seq_def)

subsection \<open>A debug port on the chain\<close>

definition bits64 :: "u64 \<Rightarrow> nat \<Rightarrow> bool list" where
  "bits64 x n = map (bit x) [0..<n]"

definition jtagdp_response :: "u32 \<Rightarrow> u64" where
  "jtagdp_response v = push_bit 3 (ucast v) OR JTAGDP_ACK_OK"

text \<open>
  The device \<open>d\<close> of a chain is a port whose accesses are the relation \<open>R\<close> (as \<open>port_step\<close>) and whose next
  answer is \<open>posted\<close>. In its shift states the chain is a shift register; capturing in \<open>DR\<close> loads the
  answer, surrounded by what the bypass registers hold; leaving \<open>Update_DR\<close> performs the request that
  the port's part of the register holds, if its outcome is determined; the instruction is taken over
  likewise.
\<close>

definition tap_device ::
  "jtag_dev \<Rightarrow> (bool \<Rightarrow> u16 \<Rightarrow> u32 \<Rightarrow> 'p \<Rightarrow> u32 \<Rightarrow> 'p \<Rightarrow> bool) \<Rightarrow> ('p \<Rightarrow> u32) \<Rightarrow> 'w jtag_next \<Rightarrow> ('w \<Rightarrow> 'p tap_dev) \<Rightarrow> bool" where
  "tap_device d R posted N dv \<longleftrightarrow> (\<forall>tms tdi w v v'. v = dv w \<longrightarrow> v' = dv (snd (N tms tdi w)) \<longrightarrow>
     td_st v' = tap_step (td_st v) tms \<and>
     (shifting (td_st v) \<longrightarrow> td_reg v \<noteq> [] \<longrightarrow> fst (N tms tdi w) = hd (td_reg v) \<and> td_reg v' = tl (td_reg v) @ [tdi]) \<and>
     (td_st v = Capture_IR \<longrightarrow> length (td_reg v') = unat (ir_prescan d) + unat (ir_len d) + unat (ir_postscan d)) \<and>
     (td_st v = Capture_DR \<longrightarrow> td_ir v \<in> {IR_DPACC, IR_APACC} \<longrightarrow> (\<exists>pre post. length pre = unat (jd_dev d) \<and> length post = unat (dr_postscan d) \<and>
        td_reg v' = pre @ bits64 (jtagdp_response (posted (td_port v))) 35 @ post)) \<and>
     (td_st v \<notin> {Capture_DR, Capture_IR, Shift_DR, Shift_IR} \<longrightarrow> td_reg v' = td_reg v) \<and>
     (td_st v \<notin> {Update_IR, Test_Logic_Reset} \<longrightarrow> td_ir v' = td_ir v) \<and>
     (td_st v = Update_IR \<longrightarrow> (\<forall>ir \<in> {IR_DPACC, IR_APACC}.
        take (unat (ir_len d)) (drop (unat (ir_prescan d)) (td_reg v)) = word_bits ir (unat (ir_len d)) \<longrightarrow> td_ir v' = ir)) \<and>
     (td_st v \<noteq> Update_DR \<longrightarrow> td_port v' = td_port v) \<and>
     (td_st v = Update_DR \<longrightarrow> (\<forall>RnW addr x y q. td_ir v = (if bit addr 8 then IR_APACC else IR_DPACC) \<longrightarrow>
        take 35 (drop (unat (jd_dev d)) (td_reg v)) = bits64 (jtagdp_request RnW addr x) 35 \<longrightarrow> R RnW addr x (td_port v) y q \<longrightarrow>
        (\<exists>y. R RnW addr x (td_port v) y (td_port v')))))"

lemma tap_deviceD:
  assumes D: "tap_device d R posted N dv"
  shows "td_st (dv (snd (N tms tdi w))) = tap_step (td_st (dv w)) tms"
  and "shifting (td_st (dv w)) \<Longrightarrow> td_reg (dv w) \<noteq> [] \<Longrightarrow>
    fst (N tms tdi w) = hd (td_reg (dv w)) \<and> td_reg (dv (snd (N tms tdi w))) = tl (td_reg (dv w)) @ [tdi]"
  and "td_st (dv w) = Capture_IR \<Longrightarrow>
    length (td_reg (dv (snd (N tms tdi w)))) = unat (ir_prescan d) + unat (ir_len d) + unat (ir_postscan d)"
  and "td_st (dv w) = Capture_DR \<Longrightarrow> td_ir (dv w) \<in> {IR_DPACC, IR_APACC} \<Longrightarrow>
    \<exists>pre post. length pre = unat (jd_dev d) \<and> length post = unat (dr_postscan d) \<and>
      td_reg (dv (snd (N tms tdi w))) = pre @ bits64 (jtagdp_response (posted (td_port (dv w)))) 35 @ post"
  and "td_st (dv w) \<notin> {Capture_DR, Capture_IR, Shift_DR, Shift_IR} \<Longrightarrow> td_reg (dv (snd (N tms tdi w))) = td_reg (dv w)"
  and "td_st (dv w) \<notin> {Update_IR, Test_Logic_Reset} \<Longrightarrow> td_ir (dv (snd (N tms tdi w))) = td_ir (dv w)"
  and "td_st (dv w) = Update_IR \<Longrightarrow> ir \<in> {IR_DPACC, IR_APACC} \<Longrightarrow>
    take (unat (ir_len d)) (drop (unat (ir_prescan d)) (td_reg (dv w))) = word_bits ir (unat (ir_len d)) \<Longrightarrow> td_ir (dv (snd (N tms tdi w))) = ir"
  and "td_st (dv w) \<noteq> Update_DR \<Longrightarrow> td_port (dv (snd (N tms tdi w))) = td_port (dv w)"
  and "td_st (dv w) = Update_DR \<Longrightarrow> td_ir (dv w) = (if bit addr 8 then IR_APACC else IR_DPACC) \<Longrightarrow>
    take 35 (drop (unat (jd_dev d)) (td_reg (dv w))) = bits64 (jtagdp_request RnW addr x) 35 \<Longrightarrow> R RnW addr x (td_port (dv w)) y q \<Longrightarrow>
    \<exists>y. R RnW addr x (td_port (dv w)) y (td_port (dv (snd (N tms tdi w))))"
  using D [unfolded tap_device_def, rule_format, OF refl refl, of tms tdi w] by blast+

lemmas tap_next = tap_deviceD(1)
  and tap_shift = tap_deviceD(2)
  and tap_capture_ir = tap_deviceD(3)
  and tap_capture_dr = tap_deviceD(4)
  and tap_reg = tap_deviceD(5)
  and tap_ir = tap_deviceD(6)
  and tap_update_ir = tap_deviceD(7)
  and tap_port = tap_deviceD(8)
  and tap_update_dr = tap_deviceD(9)

lemma tap_shift_register:
  assumes D: "tap_device d R posted N dv"
  shows "shift_register N dv"
  unfolding shift_register_def
proof (intro allI impI)
  fix tms tdi w assume s: "shifting (td_st (dv w))" and ne: "td_reg (dv w) \<noteq> []"
  have "td_ir (dv (snd (N tms tdi w))) = td_ir (dv w)" "td_port (dv (snd (N tms tdi w))) = td_port (dv w)"
    using s by (auto intro: tap_ir [OF D] tap_port [OF D])
  with tap_shift [OF D s ne, of tms tdi] tap_next [OF D, of tms tdi w] show "fst (N tms tdi w) = hd (td_reg (dv w)) \<and>
      dv (snd (N tms tdi w)) = dv w\<lparr>td_st := tap_step (td_st (dv w)) tms, td_reg := tl (td_reg (dv w)) @ [tdi]\<rparr>"
    by simp
qed

lemma tap_to_shift_ir:
  assumes D: "tap_device d R posted N dv" and "td_st (dv w) = Run_Test_Idle"
  defines "w' \<equiv> jtagtap_tms_seq N 3 4 w"
  shows "td_st (dv w') = Shift_IR" "td_ir (dv w') = td_ir (dv w)" "td_port (dv w') = td_port (dv w)"
    "length (td_reg (dv w')) = unat (ir_prescan d) + unat (ir_len d) + unat (ir_postscan d)"
  unfolding w'_def using assms(2) by (simp_all add: tap_next [OF D] tap_ir [OF D] tap_port [OF D] tap_capture_ir [OF D])

lemma tap_to_shift_dr:
  assumes D: "tap_device d R posted N dv" and "td_st (dv w) = Run_Test_Idle" "td_ir (dv w) \<in> {IR_DPACC, IR_APACC}"
  defines "w' \<equiv> jtagtap_tms_seq N 1 3 w"
  shows "td_st (dv w') = Shift_DR" "td_ir (dv w') = td_ir (dv w)" "td_port (dv w') = td_port (dv w)"
    "\<exists>pre post. length pre = unat (jd_dev d) \<and> length post = unat (dr_postscan d) \<and>
      td_reg (dv w') = pre @ bits64 (jtagdp_response (posted (td_port (dv w)))) 35 @ post"
  unfolding w'_def using assms(2,3) tap_capture_dr [OF D, of "snd (N False True (snd (N True True w)))" False True]
  by (simp_all add: tap_next [OF D] tap_ir [OF D] tap_port [OF D])

subsection \<open>One transfer\<close>

lemma byte_bit_u64: "i < 64 \<Longrightarrow> byte_bit (u64_bytes v) i = bit v i"
proof -
  assume i: "i < 64"
  then have "i div 8 < 8" "8 * (i div 8) + i mod 8 = i" by presburger+
  then show ?thesis by (simp add: byte_bit_def u64_bytes_def bit_ucast_iff bit_drop_bit_eq)
qed

lemma byte_bits_u64: "n \<le> 64 \<Longrightarrow> byte_bits (u64_bytes v) 0 n = bits64 v n"
  unfolding byte_bits_def bits64_def by (rule nth_equalityI) (simp_all add: byte_bit_u64)

lemma bit_bytes_u64: "length bs = 8 \<Longrightarrow> i < 64 \<Longrightarrow> bit (bytes_u64 bs) i = byte_bit bs i"
  using bit_le_word [of "i div 8" bs "i mod 8"] by (simp add: bytes_u64_def byte_bit_def bit_simps)

lemma bit_two: "i < 64 \<Longrightarrow> bit (2 :: u64) i \<longleftrightarrow> i = 1"
  using bit_exp_iff [of 1 i, where 'a = u64] by simp

lemma bit_response: "i < 64 \<Longrightarrow> bit (jtagdp_response v) i \<longleftrightarrow> i = 1 \<or> 3 \<le> i \<and> i < 35 \<and> bit v (i - 3)"
proof -
  have "bit v (i - 3) \<Longrightarrow> i < 35" using bit_imp_le_length [of v "i - 3"] by simp
  then show ?thesis if i: "i < 64"
    unfolding jtagdp_response_def bit_or_iff bit_two [OF i] using i by (auto simp: bit_push_bit_iff bit_ucast_iff)
qed

lemma received_response:
  assumes "received buf 0 (bits64 (jtagdp_response v) 35) DO" "length buf = 8"
  shows "bytes_u64 DO AND 7 = JTAGDP_ACK_OK" "ucast (drop_bit 3 (bytes_u64 DO)) = v"
proof -
  have b: "bit (bytes_u64 DO) i \<longleftrightarrow> bit (jtagdp_response v) i" if "i < 35" for i
    using assms that bit_bytes_u64 [of DO i] by (simp add: received_def bits64_def)
  have m: "(7 :: u64) = mask 3" by (simp_all add: mask_numeral)
  show "bytes_u64 DO AND 7 = JTAGDP_ACK_OK"
  proof (rule bit_word_eqI)
    fix n assume "n < LENGTH(64)"
    then have n: "n < 64" by simp
    show "bit (bytes_u64 DO AND 7) n = bit JTAGDP_ACK_OK n"
      unfolding m bit_two [OF n] bit_and_iff bit_mask_iff using b [of n] bit_response [OF n] n by auto
  qed
  show "ucast (drop_bit 3 (bytes_u64 DO)) = v"
    by (rule bit_word_eqI) (auto simp: bit_ucast_iff bit_drop_bit_eq b bit_response)
qed

text \<open>The code's sequences of ones suffice for the chain.\<close>

definition chain_ok :: "jtag_dev \<Rightarrow> bool" where
  "chain_ok d \<longleftrightarrow> ir_prescan d \<le> 32 \<and> ir_postscan d \<le> 32 \<and> 0 < ir_len d \<and> ir_len d \<le> 32 \<and> jd_dev d \<le> 32 \<and> dr_postscan d \<le> 32"

lemma chain_okD:
  assumes "chain_ok d"
  shows "unat (ir_prescan d) \<le> 32" "unat (ir_postscan d) \<le> 32" "0 < unat (ir_len d)" "unat (ir_len d) \<le> 32" "unat (jd_dev d) \<le> 32"
    "unat (dr_postscan d) \<le> 32" "unat (ir_postscan d) = 0 \<longleftrightarrow> ir_postscan d = 0" "unat (dr_postscan d) = 0 \<longleftrightarrow> dr_postscan d = 0"
  using assms by (simp_all add: chain_ok_def word_le_nat_alt word_less_nat_alt unat_eq_zero)

text \<open>The chain rests, and the record of the device is right about its place and its instruction.\<close>

definition jtag_idle :: "jtag_dev \<Rightarrow> ('w \<Rightarrow> 'p tap_dev) \<Rightarrow> nat \<Rightarrow> 'w jtag_proc \<Rightarrow> bool" where
  "jtag_idle d dv k p \<longleftrightarrow> k < length (jtag_devs p) \<and> geometry (jtag_devs p ! k) = geometry d \<and> td_st (dv (jp_world p)) = Run_Test_Idle \<and>
     (current_ir (jtag_devs p ! k) \<in> {IR_DPACC, IR_APACC} \<longrightarrow> td_ir (dv (jp_world p)) = current_ir (jtag_devs p ! k))"

lemma tap_return:
  assumes D: "tap_device d R posted N dv"
  shows "td_st (dv w) = Exit1_DR \<Longrightarrow> td_st (dv (jtagtap_tms_seq N 1 2 w)) = Run_Test_Idle" "td_st (dv w) = Exit1_DR \<Longrightarrow> td_ir (dv (jtagtap_tms_seq N 1 2 w)) = td_ir (dv w)"
    "td_st (dv w) = Exit1_IR \<Longrightarrow> td_st (dv (jtagtap_tms_seq N 1 2 w)) = Run_Test_Idle" "td_st (dv w) = Exit1_IR \<Longrightarrow> td_port (dv (jtagtap_tms_seq N 1 2 w)) = td_port (dv w)"
  by (simp_all add: tap_next [OF D] tap_ir [OF D] tap_port [OF D])

lemma jtag_select_runs:
  assumes D: "tap_device d R posted N dv" and c: "chain_ok d" and p: "jtag_idle d dv k p" and ir: "ir \<in> {IR_DPACC, IR_APACC}"
  shows "\<exists>p'. jtag_dev_write_ir (generic_jtag N i r) k ir p = Some p' \<and> jtag_idle d dv k p' \<and> td_ir (dv (jp_world p')) = ir \<and>
    td_port (dv (jp_world p')) = td_port (dv (jp_world p))"
proof (cases "ir = current_ir (jtag_devs p ! k)")
  case True
  then show ?thesis using p ir by (auto simp: jtag_dev_write_ir_def jtag_idle_def)
next
  case False
  let ?e = "jtag_devs p ! k" and ?w0 = "jtagtap_tms_seq N 3 4 (jp_world p)"
  have k: "k < length (jtag_devs p)" and g: "geometry ?e = geometry d" and idle: "td_st (dv (jp_world p)) = Run_Test_Idle" using p by (simp_all add: jtag_idle_def)
  note ge = geometry_eq [OF g] and n = chain_okD [OF c] and w0 = tap_to_shift_ir [OF D idle]
  have bs: "byte_bits (u32_bytes 4 ir) 0 (unat (ir_len d)) = word_bits ir (unat (ir_len d))" by (rule byte_bits_u32 [OF n(4)])
  from pieces_registers [OF tap_shift_register [OF D] _ w0(4) n(1,3) _ n(2), of "u32_bytes 4 ir" "u32_bytes 4 ir"] w0(1) n(4) obtain w1 DO' w2 w3 where
    w: "jtagtap_tdi_seq N False ones (unat (ir_prescan d)) ?w0 = Some w1"
    "jtagtap_tdi_tdo_seq N (u32_bytes 4 ir) (unat (ir_postscan d) = 0) (u32_bytes 4 ir) (unat (ir_len d)) w1 = Some (DO', w2)"
    "jtagtap_tdi_seq N True ones (unat (ir_postscan d)) w2 = Some w3"
    "dv w3 = dv ?w0\<lparr>td_st := Exit1_IR, td_reg := replicate (unat (ir_prescan d)) True @ word_bits ir (unat (ir_len d)) @ replicate (unat (ir_postscan d)) True\<rparr>"
    unfolding bs by auto
  note w2 = tdi_seq_tdo [OF refl w(2)]
  let ?w4 = "jtagtap_tms_seq N 1 2 w3"
  have e: "td_st (dv w3) = Exit1_IR" using w(4) by simp
  have u: "td_st (dv (snd (N True True w3))) = Update_IR" "td_reg (dv (snd (N True True w3))) = td_reg (dv w3)"
    using e by (simp_all add: tap_next [OF D] tap_reg [OF D])
  have "td_ir (dv ?w4) = ir"
    using tap_update_ir [OF D u(1) ir, of False True] w(4) u(2) by (simp add: word_bits_def)
  moreover have "td_port (dv ?w4) = td_port (dv (jp_world p))" using tap_return(4) [OF D e] w(4) w0(3) by simp
  moreover have "td_st (dv ?w4) = Run_Test_Idle" by (rule tap_return(3) [OF D e])
  moreover
  let ?devs = "map (\<lambda>(i, d). if i < jtag_dev_count p then d\<lparr>current_ir := -1\<rparr> else d) (enumerate 0 (jtag_devs p))"
  let ?devs' = "?devs[k := (?devs ! k)\<lparr>current_ir := ir\<rparr>]"
  have "jtag_dev_write_ir (generic_jtag N i r) k ir p = Some (p\<lparr>jtag_devs := ?devs', jp_world := ?w4\<rparr>)"
    using False k w(1,3) w2 ge n(7) by (simp add: jtag_dev_write_ir_def jtagtap_shift_ir_def jtagtap_return_idle_def Let_def del: tms_seq_numeral)
  moreover have "geometry (?devs' ! k) = geometry d" using k g by (auto simp: nth_enumerate_eq geometry_def)
  moreover have "current_ir (?devs' ! k) = ir" using k by simp
  ultimately show ?thesis using k by (simp add: jtag_idle_def del: tms_seq_numeral)
qed

lemma jtag_shift_runs:
  assumes D: "tap_device d R posted N dv" and c: "chain_ok d" and p: "jtag_idle d dv k p" and ir: "td_ir (dv (jp_world p)) = ir" "ir \<in> {IR_DPACC, IR_APACC}"
    and buf: "length buf = 8"
  shows "\<exists>DO p'. jtag_dev_shift_dr (generic_jtag N i r) k (Some buf) (u64_bytes req) 35 p = Some (DO, p') \<and> jtag_idle d dv k p' \<and>
    td_ir (dv (jp_world p')) = ir \<and> received buf 0 (bits64 (jtagdp_response (posted (td_port (dv (jp_world p))))) 35) DO \<and>
    (\<forall>RnW addr x y q. ir = (if bit addr 8 then IR_APACC else IR_DPACC) \<longrightarrow> req = jtagdp_request RnW addr x \<longrightarrow> R RnW addr x (td_port (dv (jp_world p))) y q \<longrightarrow>
      (\<exists>y. R RnW addr x (td_port (dv (jp_world p))) y (td_port (dv (jp_world p')))))"
proof -
  let ?e = "jtag_devs p ! k" and ?w0 = "jtagtap_tms_seq N 1 3 (jp_world p)" and ?port = "td_port (dv (jp_world p))"
  have k: "k < length (jtag_devs p)" and g: "geometry ?e = geometry d" and idle: "td_st (dv (jp_world p)) = Run_Test_Idle" using p by (simp_all add: jtag_idle_def)
  note ge = geometry_eq [OF g] and n = chain_okD [OF c]
  note w0 = tap_to_shift_dr [OF D idle ir(2) [folded ir(1)]]
  obtain pre post where reg: "length pre = unat (jd_dev d)" "length post = unat (dr_postscan d)" "td_reg (dv ?w0) = pre @ bits64 (jtagdp_response (posted ?port)) 35 @ post"
    using w0(4) by blast
  have l: "length (td_reg (dv ?w0)) = unat (jd_dev d) + 35 + unat (dr_postscan d)" using reg by (simp add: bits64_def)
  have u8: "length (u64_bytes req) = 8" by (simp add: u64_bytes_def)
  have bs: "byte_bits (u64_bytes req) 0 35 = bits64 req 35" by (rule byte_bits_u64) simp
  have seg: "take 35 (drop (unat (jd_dev d)) (td_reg (dv ?w0))) = bits64 (jtagdp_response (posted ?port)) 35" using reg by (simp add: bits64_def)
  from pieces_registers [OF tap_shift_register [OF D] _ l n(5) _ _ n(6), of "u64_bytes req" buf] w0(1) u8 buf obtain w1 DO w2 w3 where
    w: "jtagtap_tdi_seq N False ones (unat (jd_dev d)) ?w0 = Some w1"
    "jtagtap_tdi_tdo_seq N buf (unat (dr_postscan d) = 0) (u64_bytes req) 35 w1 = Some (DO, w2)"
    "jtagtap_tdi_seq N True ones (unat (dr_postscan d)) w2 = Some w3" "received buf 0 (bits64 (jtagdp_response (posted ?port)) 35) DO"
    "dv w3 = dv ?w0\<lparr>td_st := Exit1_DR, td_reg := replicate (unat (jd_dev d)) True @ bits64 req 35 @ replicate (unat (dr_postscan d)) True\<rparr>"
    unfolding bs seg by auto
  let ?w4 = "jtagtap_tms_seq N 1 2 w3" and ?w5 = "snd (N True True w3)"
  have e: "td_st (dv w3) = Exit1_DR" "td_ir (dv w3) = ir" "td_port (dv w3) = ?port" using w(5) w0(2,3) ir(1) by simp_all
  have u: "td_st (dv ?w5) = Update_DR" "td_reg (dv ?w5) = td_reg (dv w3)" "td_ir (dv ?w5) = ir" "td_port (dv ?w5) = ?port"
    using e by (simp_all add: tap_next [OF D] tap_reg [OF D] tap_ir [OF D] tap_port [OF D])
  have "jtag_dev_shift_dr (generic_jtag N i r) k (Some buf) (u64_bytes req) 35 p = Some (DO, p\<lparr>jp_world := ?w4\<rparr>)"
    using k w(1-3) ge n(8) by (simp add: jtag_dev_shift_dr_def jtagtap_shift_dr_def jtagtap_return_idle_def Let_def del: tms_seq_numeral)
  moreover have "td_st (dv ?w4) = Run_Test_Idle" "td_ir (dv ?w4) = ir" using tap_return(1,2) [OF D e(1)] e(2) by simp_all
  moreover have "\<exists>y. R RnW addr x ?port y (td_port (dv ?w4))"
    if "ir = (if bit addr 8 then IR_APACC else IR_DPACC)" "req = jtagdp_request RnW addr x" "R RnW addr x ?port y q" for RnW addr x y q
  proof -
    have "take 35 (drop (unat (jd_dev d)) (td_reg (dv ?w5))) = bits64 (jtagdp_request RnW addr x) 35"
      using w(5) u(2) that(2) by (simp add: bits64_def)
    from tap_update_dr [OF D u(1) _ this, of y q False True] u(3,4) that(1,3) show ?thesis by simp
  qed
  moreover have "jtag_idle d dv k (p\<lparr>jp_world := ?w4\<rparr>)"
    using p calculation(2,3) ir by (auto simp: jtag_idle_def simp del: tms_seq_numeral)
  ultimately show ?thesis using w(4) by (intro exI [of _ DO] exI [of _ "p\<lparr>jp_world := ?w4\<rparr>"]) (simp del: tms_seq_numeral)
qed

subsection \<open>The debug port of the code\<close>

text \<open>An answer is what was posted, for a read; the one to a write is not determined.\<close>

definition answers :: "(bool \<Rightarrow> u16 \<Rightarrow> u32 \<Rightarrow> 'p \<Rightarrow> u32 \<Rightarrow> 'p \<Rightarrow> bool) \<Rightarrow> ('p \<Rightarrow> u32) \<Rightarrow> bool" where
  "answers R posted \<longleftrightarrow> (\<forall>addr v p x q. R True addr v p x q \<longrightarrow> x = posted p) \<and> (\<forall>addr v p x y q. R False addr v p x q \<longrightarrow> R False addr v p y q)"

lemma answersD:
  assumes "answers R posted" "R RnW addr v p y q"
  shows "R RnW addr v p (posted p) q"
  using assms unfolding answers_def by (cases RnW) metis+

definition jtag_port :: "jtag_dev \<Rightarrow> ('w \<Rightarrow> 'p tap_dev) \<Rightarrow> 'w jtagdp \<Rightarrow> bool" where
  "jtag_port d dv s \<longleftrightarrow> jtag_idle d dv (dp_jd_index s) (jdp_proc s)"

abbreviation port_behind :: "('w \<Rightarrow> 'p tap_dev) \<Rightarrow> 'w jtagdp \<Rightarrow> 'p" where
  "port_behind dv s \<equiv> td_port (dv (jp_world (jdp_proc s)))"

text \<open>Reading the clock does not disturb the chain.\<close>

definition quiet_clock :: "'w clock \<Rightarrow> ('w \<Rightarrow> 'p tap_dev) \<Rightarrow> bool" where
  "quiet_clock T dv \<longleftrightarrow> (\<forall>w. dv (snd (T w)) = dv w)"

lemma quiet_timeout:
  assumes "quiet_clock T dv"
  shows "dv (snd (platform_timeout_set T n w)) = dv w" "dv (snd (platform_timeout_is_expired T t w)) = dv w"
  using assms by (simp_all add: quiet_clock_def platform_timeout_set_def platform_timeout_is_expired_def case_prod_unfold Let_def)

lemma jtag_idle_world: "dv w = dv (jp_world p) \<Longrightarrow> jtag_idle d dv k (p\<lparr>jp_world := w\<rparr>) = jtag_idle d dv k p"
  by (simp add: jtag_idle_def)

lemma jtagdp_access:
  assumes D: "tap_device d R posted N dv" and c: "chain_ok d" and T: "quiet_clock T dv" and an: "answers R posted"
    and s: "jtag_port d dv s" and R: "R RnW addr v (port_behind dv s) x q"
  shows "\<exists>s'. fw_adiv5_jtagdp_low_access (generic_jtag N i r) T RnW addr v s = Some (Inr (posted (port_behind dv s)), s') \<and> jtag_port d dv s' \<and>
    R RnW addr v (port_behind dv s) (posted (port_behind dv s)) (port_behind dv s')"
proof -
  let ?ir = "if addr AND ADIV5_APnDP \<noteq> 0 then IR_APACC else IR_DPACC" and ?J = "generic_jtag N i r" and ?k = "dp_jd_index s"
  have ir: "?ir \<in> {IR_DPACC, IR_APACC}" by simp
  have bit: "?ir = (if bit addr 8 then IR_APACC else IR_DPACC)" by (simp add: and_flag)
  from jtag_select_runs [OF D c s [unfolded jtag_port_def] ir, of i r] obtain p1 where
    p1: "jtag_dev_write_ir ?J ?k ?ir (jdp_proc s) = Some p1" "jtag_idle d dv ?k p1" "td_ir (dv (jp_world p1)) = ?ir" "td_port (dv (jp_world p1)) = port_behind dv s"
    by blast
  obtain t w2 where t: "platform_timeout_set T 20 (jp_world p1) = (t, w2)" by force
  then have w2: "dv w2 = dv (jp_world p1)" using quiet_timeout(1) [OF T, of 20 "jp_world p1"] by simp
  let ?p2 = "p1\<lparr>jp_world := w2\<rparr>"
  have p2: "jtag_idle d dv ?k ?p2" "td_ir (dv (jp_world ?p2)) = ?ir" using p1(2,3) w2 by (simp_all add: jtag_idle_world)
  have buf: "length (replicate 8 0 :: u8 list) = 8" by simp
  from jtag_shift_runs [OF D c p2 ir buf, of i r "jtagdp_request RnW addr v"] obtain DO p3 where
    p3: "jtag_dev_shift_dr ?J ?k (Some (replicate 8 0)) (u64_bytes (jtagdp_request RnW addr v)) 35 ?p2 = Some (DO, p3)" "jtag_idle d dv ?k p3"
    "received (replicate 8 0) 0 (bits64 (jtagdp_response (posted (td_port (dv (jp_world ?p2))))) 35) DO"
    "\<forall>RnW' addr' x y q. ?ir = (if bit addr' 8 then IR_APACC else IR_DPACC) \<longrightarrow> jtagdp_request RnW addr v = jtagdp_request RnW' addr' x \<longrightarrow>
      R RnW' addr' x (td_port (dv (jp_world ?p2))) y q \<longrightarrow> (\<exists>y. R RnW' addr' x (td_port (dv (jp_world ?p2))) y (td_port (dv (jp_world p3))))"
    by blast
  have port: "td_port (dv (jp_world ?p2)) = port_behind dv s" using p1(4) w2 by simp
  note resp = received_response [OF p3(3) [unfolded port] buf]
  obtain e w4 where e: "platform_timeout_is_expired T t (jp_world p3) = (e, w4)" by force
  then have w4: "dv w4 = dv (jp_world p3)" using quiet_timeout(2) [OF T, of t "jp_world p3"] by simp
  let ?s = "s\<lparr>jdp_proc := p3\<lparr>jp_world := w4\<rparr>\<rparr>"
  have loop: "jtagdp_loop ?J T ?k (jtagdp_request RnW addr v) t (replicate 8 0) ?p2 = Some (bytes_u64 DO, p3\<lparr>jp_world := w4\<rparr>)"
    by (subst jtagdp_loop.simps) (simp add: p3(1) e resp(1))
  have "fw_adiv5_jtagdp_low_access ?J T RnW addr v s = Some (Inr (posted (port_behind dv s)), ?s)"
    unfolding fw_adiv5_jtagdp_low_access_def p1(1) by (simp only: bind.bind_lunit t case_prod_conv loop resp Let_def) (simp add: return_def)
  moreover have "jtag_port d dv ?s" using p3(2) w4 by (simp add: jtag_port_def jtag_idle_world)
  moreover have "\<exists>y. R RnW addr v (port_behind dv s) y (td_port (dv (jp_world p3)))"
    using p3(4) [unfolded port, rule_format, OF bit refl R] .
  then have "R RnW addr v (port_behind dv s) (posted (port_behind dv s)) (port_behind dv ?s)"
    using answersD [OF an] w4 by auto
  ultimately show ?thesis by auto
qed

subsection \<open>Memory over four wires\<close>

text \<open>What is behind a debug port: the port on the chain, or a port that does nothing while the chain is
  not at rest.\<close>

definition mem_of_chain :: "jtag_dev \<Rightarrow> ('w \<Rightarrow> mem_port tap_dev) \<Rightarrow> 'w jtagdp \<Rightarrow> mem_port" where
  "mem_of_chain d dv s = (if jtag_port d dv s then port_behind dv s else demo_port\<lparr>mp_fault := True\<rparr>)"

lemma port_step_answers: "answers (port_step a) mp_posted"
  unfolding answers_def by (auto intro: port_step_write elim: port_step.cases)

lemma jtag_mem_port:
  assumes D: "tap_device d (port_step a) mp_posted N dv" and c: "chain_ok d" and T: "quiet_clock T dv"
  shows "mem_port_ok a (jtagdp_dp (generic_jtag N i r) T) (mem_of_chain d dv)"
  unfolding mem_port_ok_def
proof (intro allI impI, elim exE)
  fix RnW addr v s x q
  assume R: "port_step a RnW addr v (mem_of_chain d dv s) x q"
  from port_step_fault [OF R] have s: "jtag_port d dv s" by (auto simp: mem_of_chain_def split: if_splits)
  with R have "port_step a RnW addr v (port_behind dv s) x q" by (simp add: mem_of_chain_def)
  from jtagdp_access [OF D c T port_step_answers s this, of i r] s
  show "\<exists>x s'. dp_low_access (jtagdp_dp (generic_jtag N i r) T) RnW addr v s = Some (Inr x, s') \<and>
      port_step a RnW addr v (mem_of_chain d dv s) x (mem_of_chain d dv s')"
    by (auto simp: jtagdp_dp_def mem_of_chain_def)
qed


subsection \<open>A core over four wires\<close>

text \<open>The accesses of \<open>core_step\<close>, and the status register, which shows no error.\<close>

inductive dp_step :: "'c core_bus \<Rightarrow> u8 \<Rightarrow> bool \<Rightarrow> u16 \<Rightarrow> u32 \<Rightarrow> 'c core_port \<Rightarrow> u32 \<Rightarrow> 'c core_port \<Rightarrow> bool" for B a where
  core: "core_step B a RnW addr v p x q \<Longrightarrow> dp_step B a RnW addr v p x q"
| read_status: "\<not> cp_fault p \<Longrightarrow> y AND 0x32 = 0 \<Longrightarrow> dp_step B a True ADIV5_DP_CTRLSTAT v p (cp_posted p) (p\<lparr>cp_posted := y\<rparr>)"
| clear_status: "\<not> cp_fault p \<Longrightarrow> dp_step B a False ADIV5_DP_CTRLSTAT 0xF0000032 p x (p\<lparr>cp_posted := y\<rparr>)"

lemma core_step_posted: "core_step B a True addr v p x q \<Longrightarrow> x = cp_posted p"
  by (erule core_step.cases) auto

lemma core_step_write: "core_step B a False addr v p x q \<Longrightarrow> core_step B a False addr v p y q"
  by (erule core_step.cases) (auto intro: core_step.intros)

lemma core_step_fault: "core_step B a RnW addr v p x q \<Longrightarrow> \<not> cp_fault p"
  by (erule core_step.cases) (auto simp: port_bank_def)

lemma dp_step_answers: "answers (dp_step B a) cp_posted"
  unfolding answers_def
  by (auto elim!: dp_step.cases dest: core_step_posted intro: dp_step.clear_status dp_step.core [OF core_step_write])

lemma AP_DB_status: "n < 4 \<Longrightarrow> AP_DB n \<noteq> ADIV5_DP_CTRLSTAT"
proof -
  assume "n < 4"
  then have "n = 0 \<or> n = 1 \<or> n = 2 \<or> n = 3" by presburger
  then show ?thesis by (elim disjE; simp only: AP_DB_values) simp_all
qed

lemma core_step_no_status: "\<not> core_step B a RnW ADIV5_DP_CTRLSTAT v p x q"
  by (rule notI, erule core_step.cases) (auto simp: dp_addresses dest: AP_DB_status)

lemma dp_step_core: "core_step B a RnW addr v p y q' \<Longrightarrow> dp_step B a RnW addr v p x q \<Longrightarrow> core_step B a RnW addr v p x q"
  by (auto elim!: dp_step.cases simp: core_step_no_status)

definition core_of_chain :: "jtag_dev \<Rightarrow> ('w \<Rightarrow> 'c core_port tap_dev) \<Rightarrow> 'w jtagdp \<Rightarrow> 'c core_port" where
  "core_of_chain d dv s = (if jtag_port d dv s then port_behind dv s else (port_behind dv s)\<lparr>cp_fault := True\<rparr>)"

text \<open>
  C5. A core over four wires: on such a chain the functions of \<open>adiv5_jtagdp.c\<close> implement the port that
  all properties of the core driver and of the flash drivers rest on: accesses, checked reads and the
  error query.
\<close>

theorem jtag_core_port:
  assumes D: "tap_device d (dp_step B a) cp_posted N dv" and c: "chain_ok d" and T: "quiet_clock T dv"
  shows "core_port_ok B a (jtagdp_dp (generic_jtag N i r) T) (core_of_chain d dv)"
proof -
  let ?D = "jtagdp_dp (generic_jtag N i r) T" and ?st = "core_of_chain d dv"
  have on: "jtag_port d dv s" "?st s = port_behind dv s" if "\<not> cp_fault (?st s)" for s
    using that by (auto simp: core_of_chain_def split: if_splits)
  have access: "\<exists>s'. dp_low_access ?D RnW addr v s = Some (Inr (cp_posted (?st s)), s') \<and> dp_step B a RnW addr v (?st s) (cp_posted (?st s)) (?st s')"
    if f: "\<not> cp_fault (?st s)" and R: "dp_step B a RnW addr v (?st s) x q" for RnW addr v s x q
    using jtagdp_access [OF D c T dp_step_answers on(1) [OF f] R [unfolded on(2) [OF f]], of i r]
    using on(1) [OF f] by (auto simp: jtagdp_dp_def core_of_chain_def)
  have "\<exists>x s'. dp_low_access ?D RnW addr v s = Some (Inr x, s') \<and> core_step B a RnW addr v (?st s) x (?st s')"
    if R: "core_step B a RnW addr v (?st s) x q" for RnW addr v s x q
    using access [OF core_step_fault [OF R] dp_step.core [OF R]] dp_step_core [OF R] by blast
  moreover have "dp_read ?D (AP_DB n) s = andthen (dp_low_access ?D True (AP_DB n) 0 s) (\<lambda>x. dp_low_access ?D True DP_RDBUFF 0)" for n s
    by (simp add: jtagdp_dp_def fw_adiv5_jtagdp_read_def DP_RDBUFF_def)
  moreover have "\<exists>s' y z. dp_error ?D s = Some (Inr 0, s') \<and> ?st s' = ?st s\<lparr>cp_posted := y, cp_select := z\<rparr>" if f: "\<not> cp_fault (?st s)" for s
  proof -
    from access [OF f dp_step.read_status [OF f, of 0]] obtain s1 where
      s1: "dp_low_access ?D True ADIV5_DP_CTRLSTAT 0 s = Some (Inr (cp_posted (?st s)), s1)"
      "dp_step B a True ADIV5_DP_CTRLSTAT 0 (?st s) (cp_posted (?st s)) (?st s1)" by auto
    from s1(2) obtain y where y: "y AND 0x32 = 0" "?st s1 = ?st s\<lparr>cp_posted := y\<rparr>"
      by (cases rule: dp_step.cases) (auto simp: core_step_no_status)
    then have f1: "\<not> cp_fault (?st s1)" using f by simp
    from access [OF f1 dp_step.clear_status [OF f1, of B a 0]] obtain s2 where
      s2: "dp_low_access ?D False ADIV5_DP_CTRLSTAT 0xF0000032 s1 = Some (Inr y, s2)"
      "dp_step B a False ADIV5_DP_CTRLSTAT 0xF0000032 (?st s1) y (?st s2)" using y(2) by auto
    from s2(2) obtain z where "?st s2 = ?st s1\<lparr>cp_posted := z\<rparr>"
      by (cases rule: dp_step.cases) (auto simp: core_step_no_status)
    then have "dp_error ?D s = Some (Inr 0, s2)" "?st s2 = ?st s\<lparr>cp_posted := z, cp_select := cp_select (?st s)\<rparr>"
      using s1(1) s2(1) y by (simp_all add: jtagdp_dp_def adiv5_jtagdp_error_def return_def andthen_def)
    then show ?thesis by blast
  qed
  ultimately show ?thesis unfolding core_port_ok_def by blast
qed

subsection \<open>A chain\<close>

text \<open>Registers that shift, a debug port that decodes the request it holds and performs it by \<open>acc\<close>.\<close>

definition decode_transfer :: "u32 \<Rightarrow> bool list \<Rightarrow> bool \<times> u16 \<times> u32" where
  "decode_transfer ir bs = (bs ! 0, (if ir = IR_APACC then 0x100 else 0) OR (if bs ! 1 then 4 else 0) OR (if bs ! 2 then 8 else 0),
     horner_sum of_bool 2 (drop 3 bs))"

definition ideal_chain :: "jtag_dev \<Rightarrow> (bool \<Rightarrow> u16 \<Rightarrow> u32 \<Rightarrow> 'p \<Rightarrow> 'p) \<Rightarrow> ('p \<Rightarrow> u32) \<Rightarrow> 'p tap_dev jtag_next" where
  "ideal_chain d acc posted tms tdi v =
     (shifting (td_st v) \<and> td_reg v \<noteq> [] \<and> hd (td_reg v),
      let v' = v\<lparr>td_st := tap_step (td_st v) tms\<rparr>
      in if shifting (td_st v) then if td_reg v = [] then v' else v'\<lparr>td_reg := tl (td_reg v) @ [tdi]\<rparr>
         else if td_st v = Capture_IR then v'\<lparr>td_reg := replicate (unat (ir_prescan d) + unat (ir_len d) + unat (ir_postscan d)) False\<rparr>
         else if td_st v = Capture_DR then v'\<lparr>td_reg := replicate (unat (jd_dev d)) False @
           bits64 (jtagdp_response (posted (td_port v))) 35 @ replicate (unat (dr_postscan d)) False\<rparr>
         else if td_st v = Update_IR then v'\<lparr>td_ir := horner_sum of_bool 2 (take (unat (ir_len d)) (drop (unat (ir_prescan d)) (td_reg v)))\<rparr>
         else if td_st v = Update_DR \<and> td_ir v \<in> {IR_DPACC, IR_APACC} then
           case decode_transfer (td_ir v) (take 35 (drop (unat (jd_dev d)) (td_reg v))) of
             (RnW, addr, x) \<Rightarrow> v'\<lparr>td_port := acc RnW addr x (td_port v)\<rparr>
         else v')"

lemma decode_request_bits:
  "decode_transfer (if bit addr 8 then IR_APACC else IR_DPACC) (bits64 (jtagdp_request RnW addr x) 35) = (RnW, addr AND 0x10C, x)"
proof -
  let ?r = "jtagdp_request RnW addr x"
  have b1: "bit (1 :: u64) i \<longleftrightarrow> i = 0" for i by (simp add: bit_1_iff)
  have six: "bit (6 :: u64) i \<longleftrightarrow> i = 1 \<or> i = 2" if "i < 35" for i
  proof -
    have "bit (6 :: u64) i \<longleftrightarrow> bit ((2 :: u64) OR 4) i" by simp
    also have "\<dots> \<longleftrightarrow> bit (2 :: u64) i \<or> bit (4 :: u64) i" by (rule bit_or_iff)
    also have "bit (4 :: u64) i \<longleftrightarrow> i = 2" using that bit_exp_iff [of 2 i, where 'a = u64] by simp
    also have "bit (2 :: u64) i \<longleftrightarrow> i = 1" using that by (intro bit_two) simp
    finally show ?thesis .
  qed
  have ff: "bit (0xFF :: u16) i \<longleftrightarrow> i < 8" if "i < 16" for i
  proof -
    have "(0xFF :: u16) = mask 8" by (simp add: mask_numeral)
    then show ?thesis using that by (simp only: bit_mask_iff) simp
  qed
  have a: "bit ((ucast (drop_bit 1 (addr AND 0xFF)) :: u64) AND 6) i \<longleftrightarrow> (i = 1 \<and> bit addr 2) \<or> (i = 2 \<and> bit addr 3)" if "i < 35" for i
  proof -
    have low: "bit (addr AND 0xFF) 2 \<longleftrightarrow> bit addr 2" "bit (addr AND 0xFF) 3 \<longleftrightarrow> bit addr 3"
      using ff [of 2] ff [of 3] unfolding bit_and_iff by simp_all
    have shift: "bit (ucast (drop_bit 1 y) :: u64) 1 \<longleftrightarrow> bit y 2" "bit (ucast (drop_bit 1 y) :: u64) 2 \<longleftrightarrow> bit y 3" for y :: u16
      by (simp_all add: bit_ucast_iff bit_drop_bit_eq numeral_2_eq_2 numeral_3_eq_3)
    show ?thesis unfolding bit_and_iff [of "ucast (drop_bit 1 (addr AND 0xFF))"] six [OF that] using low shift by blast
  qed
  have r: "bit ?r i \<longleftrightarrow> (i = 0 \<and> RnW) \<or> (i = 1 \<and> bit addr 2) \<or> (i = 2 \<and> bit addr 3) \<or> (3 \<le> i \<and> bit x (i - 3))" if "i < 35" for i
    unfolding jtagdp_request_def bit_or_iff a [OF that] using that by (auto simp: bit_push_bit_iff bit_ucast_iff b1)
  have v: "drop 3 (bits64 ?r 35) = map (bit x) [0..<32]"
  proof (rule nth_equalityI)
    show "length (drop 3 (bits64 ?r 35)) = length (map (bit x) [0..<32])" by (simp add: bits64_def)
    fix i assume "i < length (drop 3 (bits64 ?r 35))"
    then have "i < 32" by (simp add: bits64_def)
    then show "drop 3 (bits64 ?r 35) ! i = map (bit x) [0..<32] ! i" using r [of "3 + i"] by (simp add: bits64_def)
  qed
  have val: "horner_sum of_bool 2 (map (bit x) [0..<32]) = x"
    using horner_sum_bit_eq_take_bit [of x 32] by (simp add: take_bit_word_eq_self)
  have e: "((if bit addr 8 then 0x100 else 0) OR (if bit addr 2 then 4 else 0)) OR (if bit addr 3 then 8 else 0) = addr AND 0x10C"
  proof -
    have "addr AND 0x10C = addr AND ((0x100 OR 4) OR 8)" by simp
    also have "\<dots> = ((addr AND 0x100) OR (addr AND 4)) OR (addr AND 8)" by (simp only: bit.conj_disj_distrib)
    finally show ?thesis by (simp add: and_flag)
  qed
  have n: "bits64 ?r 35 ! 0 \<longleftrightarrow> RnW" "bits64 ?r 35 ! 1 \<longleftrightarrow> bit addr 2" "bits64 ?r 35 ! 2 \<longleftrightarrow> bit addr 3"
    using r [of 0] r [of 1] r [of 2] by (simp_all add: bits64_def numeral_2_eq_2 numeral_3_eq_3)
  show ?thesis unfolding decode_transfer_def n v val using e by (auto split: if_splits)
qed

lemma ideal_chain_device:
  assumes acc: "\<And>RnW addr x p y q. R RnW addr x p y q \<Longrightarrow> \<exists>y. R RnW addr x p y (acc RnW (addr AND 0x10C) x p)"
    and len: "4 \<le> unat (ir_len d)"
  shows "tap_device d R posted (ideal_chain d acc posted) id"
  unfolding tap_device_def id_apply
proof (intro allI impI, elim ssubst, intro conjI allI impI ballI)
  fix tms tdi v
  let ?N = "ideal_chain d acc posted tms tdi v"
  note defs = ideal_chain_def Let_def case_prod_unfold
  show "td_st (snd ?N) = tap_step (td_st v) tms" by (simp add: defs)
  show "td_reg (snd ?N) = td_reg v" if "td_st v \<notin> {Capture_DR, Capture_IR, Shift_DR, Shift_IR}" using that by (simp add: defs)
  show "td_ir (snd ?N) = td_ir v" if "td_st v \<notin> {Update_IR, Test_Logic_Reset}" using that by (simp add: defs)
  show "td_port (snd ?N) = td_port v" if "td_st v \<noteq> Update_DR" using that by (simp add: defs)
  show "fst ?N = hd (td_reg v)" "td_reg (snd ?N) = tl (td_reg v) @ [tdi]" if "shifting (td_st v)" "td_reg v \<noteq> []"
    using that by (simp_all add: defs)
  show "length (td_reg (snd ?N)) = unat (ir_prescan d) + unat (ir_len d) + unat (ir_postscan d)" if "td_st v = Capture_IR" using that by (simp add: defs)
  show "\<exists>pre post. length pre = unat (jd_dev d) \<and> length post = unat (dr_postscan d) \<and>
      td_reg (snd ?N) = pre @ bits64 (jtagdp_response (posted (td_port v))) 35 @ post" if "td_st v = Capture_DR"
    using that by (intro exI [of _ "replicate (unat (jd_dev d)) False"] exI [of _ "replicate (unat (dr_postscan d)) False"]) (simp add: defs)
  show "td_ir (snd ?N) = ir" if "td_st v = Update_IR" "ir \<in> {IR_DPACC, IR_APACC}"
    "take (unat (ir_len d)) (drop (unat (ir_prescan d)) (td_reg v)) = word_bits ir (unat (ir_len d))" for ir
  proof -
    have "td_ir (snd ?N) = take_bit (unat (ir_len d)) ir"
      using that(1,3) horner_sum_bit_eq_take_bit [of ir "unat (ir_len d)"] by (simp add: defs word_bits_def)
    also have "\<dots> = take_bit (unat (ir_len d)) (take_bit 4 ir)" using that(2) by (auto simp: take_bit_eq_mask mask_numeral)
    also have "\<dots> = take_bit 4 ir" using len by (simp add: min_def)
    also have "\<dots> = ir" using that(2) by (auto simp: take_bit_eq_mask mask_numeral)
    finally show ?thesis .
  qed
  show "\<exists>y. R RnW addr x (td_port v) y (td_port (snd ?N))" if "td_st v = Update_DR" "td_ir v = (if bit addr 8 then IR_APACC else IR_DPACC)"
    "take 35 (drop (unat (jd_dev d)) (td_reg v)) = bits64 (jtagdp_request RnW addr x) 35" "R RnW addr x (td_port v) y q" for RnW addr x y q
  proof -
    have "decode_transfer (td_ir v) (take 35 (drop (unat (jd_dev d)) (td_reg v))) = (RnW, addr AND 0x10C, x)"
      unfolding that(2,3) by (rule decode_request_bits)
    then have "td_port (snd ?N) = acc RnW (addr AND 0x10C) x (td_port v)" using that(1,2) by (simp add: defs)
    then show ?thesis using acc [OF that(4)] by simp
  qed
qed

text \<open>The second of three devices: one bypass register before and one behind it, instructions of five bits
  around its four.\<close>

definition middle_dev :: jtag_dev where
  "middle_dev = \<lparr>jd_dev = 1, dr_postscan = 1, ir_len = 4, ir_prescan = 5, ir_postscan = 5, jd_idcode = 0x4BA00477, jd_descr = None, current_ir = -1\<rparr>"

definition chain_state :: "'p \<Rightarrow> 'p tap_dev jtagdp" where
  "chain_state p = \<lparr>dp_jd_index = 1, jdp_idcode = 0x4BA00477, jdp_fault = False,
     jdp_proc = \<lparr>jtag_devs = [middle_dev, middle_dev, middle_dev], jtag_dev_count = 3,
       jp_world = \<lparr>td_st = Run_Test_Idle, td_reg = [], td_ir = 0xF, td_port = p\<rparr>\<rparr>\<rparr>"

lemma chain_state_ok: "chain_ok middle_dev" "jtag_port middle_dev id (chain_state p)" "port_behind id (chain_state p) = p" "quiet_clock (\<lambda>w. (0, w)) dv"
  by (simp_all add: chain_ok_def middle_dev_def jtag_port_def jtag_idle_def chain_state_def quiet_clock_def)

definition ideal_effect :: "bool \<Rightarrow> u16 \<Rightarrow> u32 \<Rightarrow> mem_port \<Rightarrow> mem_port" where
  "ideal_effect RnW addr v p = snd (the (ideal_access RnW addr v p))"

lemma mem_chain: "tap_device middle_dev (port_step a) mp_posted (ideal_chain middle_dev ideal_effect mp_posted) id"
proof (rule ideal_chain_device)
  show "4 \<le> unat (ir_len middle_dev)" by (simp add: middle_dev_def)
  fix RnW addr x p y q assume R: "port_step a RnW addr x p y q"
  then have "addr AND 0x10C = addr" by cases (simp_all add: dp_addresses)
  moreover from R mem_port_access [OF ideal_dp_ok, of a RnW addr x p y q] obtain x' w' where
    "ideal_access RnW addr x p = Some (Inr x', w')" "port_step a RnW addr x p x' w'" by (auto simp: ideal_dp_def)
  ultimately show "\<exists>y. port_step a RnW addr x p y (ideal_effect RnW (addr AND 0x10C) x p)"
    by (auto simp: ideal_effect_def)
qed


text \<open>The accesses of a core, and the status register. The bank of a register is in \<open>SELECT\<close>.\<close>

definition core_effect :: "'c core_bus \<Rightarrow> bool \<Rightarrow> u16 \<Rightarrow> u32 \<Rightarrow> 'c core_port \<Rightarrow> 'c core_port" where
  "core_effect B RnW addr v p =
     (if addr = ADIV5_DP_CTRLSTAT then p\<lparr>cp_posted := 0\<rparr> else snd (the (core_access B RnW (if bit addr 8 then addr OR (ucast (cp_select p) AND 0xF0) else addr) v p)))"

lemma core_effect_step:
  assumes "core_step B a RnW addr x p y q"
  shows "\<exists>y. core_step B a RnW addr x p y (core_effect B RnW (addr AND 0x10C) x p)"
proof -
  let ?ad = "addr AND 0x10C"
  have sel: "ucast (v OR push_bit 24 (ucast a) :: u32) AND (0xF0 :: u16) = ucast v AND 0xF0" for v
    by (rule bit_word_eqI) (auto simp: bit_simps)
  have b0: "ucast (cp_select p) AND (0xF0 :: u16) = 0" if "port_bank a 0 p" using that sel [of 0] by (simp add: port_bank_def)
  have b1: "ucast (cp_select p) AND (0xF0 :: u16) = 0x10" if "port_bank a 0x10 p" using that sel [of "0x10"] by (simp add: port_bank_def or.commute)
  have db: "AP_DB n AND 0x10C OR 0x10 = AP_DB n \<and> bit (AP_DB n AND 0x10C) 8 \<and> AP_DB n AND 0x10C \<noteq> 4" if "n < 4" for n
  proof -
    have "n = 0 \<or> n = 1 \<or> n = 2 \<or> n = 3" using that by presburger
    then show ?thesis by (elim disjE; simp only: AP_DB_values) simp_all
  qed
  have "?ad \<noteq> ADIV5_DP_CTRLSTAT \<and> (if bit ?ad 8 then ?ad OR (ucast (cp_select p) AND 0xF0) else ?ad) = addr"
    using assms by cases (auto simp: dp_addresses b0 b1 db)
  then have "core_effect B RnW ?ad x p = snd (the (core_access B RnW addr x p))" by (simp add: core_effect_def)
  with core_dp_access [OF assms] show ?thesis by auto
qed

lemma core_chain: "tap_device middle_dev (dp_step B a) cp_posted (ideal_chain middle_dev (core_effect B) cp_posted) id"
proof (rule ideal_chain_device)
  show "4 \<le> unat (ir_len middle_dev)" by (simp add: middle_dev_def)
  fix RnW addr x p y q assume R: "dp_step B a RnW addr x p y q"
  then show "\<exists>y. dp_step B a RnW addr x p y (core_effect B RnW (addr AND 0x10C) x p)"
  proof cases
    case core
    from core_effect_step [OF core] show ?thesis by (auto intro: dp_step.core)
  next
    case read_status
    then show ?thesis by (auto simp: core_effect_def intro!: exI [of _ "cp_posted p"] dp_step.read_status)
  next
    case clear_status
    then show ?thesis by (auto simp: core_effect_def intro: dp_step.clear_status)
  qed
qed

theorem jtag_core_port_witness:
  "core_port_ok (demo_bus 0x40000000) 1 (jtagdp_dp (generic_jtag (ideal_chain middle_dev (core_effect (demo_bus 0x40000000)) cp_posted) id id) (\<lambda>w. (0, w)))
     (core_of_chain middle_dev id)"
  by (rule jtag_core_port [OF core_chain chain_state_ok(1,4)])

end
