(* ===== verification/Remote.thy ===== *)
theory Remote
  imports Gdb_Packet Adiv5_Swdp Adiv5_Mem
begin

unbundle bit_operations_syntax

text \<open>
  \<open>src/src/remote.c\<close>: the packets by which a program on the host works the lines of the debug port itself.
  The state is the file's own \<open>remote_dp\<close>, the character channel and what is behind the debug port. The
  functions of the platform, of the target controller and of the two transports are the record
  \<open>remote_env\<close>. A function pointer that is not set, and the local \<open>jtag_proc\<close> that nothing initialises,
  cannot be called: such a run has no result.
\<close>

subsection \<open>Numbers and responses\<close>

definition REMOTE_RESP :: u8 where "REMOTE_RESP = ch CHR ''&''"
definition REMOTE_RESP_OK :: u8 where "REMOTE_RESP_OK = ch CHR ''K''"
definition REMOTE_RESP_PARERR :: u8 where "REMOTE_RESP_PARERR = ch CHR ''P''"
definition REMOTE_RESP_ERR :: u8 where "REMOTE_RESP_ERR = ch CHR ''E''"

abbreviation (input) REMOTE_ERROR_UNRECOGNISED :: u64 where "REMOTE_ERROR_UNRECOGNISED \<equiv> 1"
abbreviation (input) REMOTE_ERROR_WRONGLEN :: u64 where "REMOTE_ERROR_WRONGLEN \<equiv> 2"
abbreviation (input) REMOTE_HL_VERSION :: u64 where "REMOTE_HL_VERSION \<equiv> 1"

definition ISHEX :: "u8 \<Rightarrow> bool" where
  "ISHEX x \<longleftrightarrow> (x \<ge> ch CHR ''0'' \<and> x \<le> ch CHR ''9'') \<or> (x \<ge> ch CHR ''A'' \<and> x \<le> ch CHR ''F'') \<or>
     (x \<ge> ch CHR ''a'' \<and> x \<le> ch CHR ''f'')"

definition TOUPPER :: "u8 \<Rightarrow> u8" where
  "TOUPPER x = (if x \<ge> ch CHR ''a'' \<and> x \<le> ch CHR ''z'' then x - (ch CHR ''a'' - ch CHR ''A'') else x)"

definition HTON :: "u8 \<Rightarrow> u8" where
  "HTON x = (if x \<le> ch CHR ''9'' then x - ch CHR ''0'' else TOUPPER x - ch CHR ''A'' + 10)"

definition NTOH :: "u64 \<Rightarrow> u8" where
  "NTOH x = (if x \<le> 9 then ucast x + ch CHR ''0'' else ch CHR ''a'' + ucast x - 10)"

text \<open>\<open>remotehston\<close> reads hexadecimal digits up to the limit; \<open>None\<close> is a read past the end of the buffer.\<close>

fun hston_loop :: "nat \<Rightarrow> u8 list \<Rightarrow> u64 \<Rightarrow> u64 option" where
  "hston_loop limit [] ret = (if limit = 0 then Some ret else None)"
| "hston_loop limit (c # s) ret =
     (if limit = 0 \<or> \<not> ISHEX c then Some ret else hston_loop (limit - 1) s (push_bit 4 ret OR ucast (HTON c)))"

definition remotehston :: "nat \<Rightarrow> u8 list \<Rightarrow> u64 option" where
  "remotehston limit s = hston_loop limit s 0"

abbreviation (input) no_limit :: nat where "no_limit \<equiv> 4294967295" \<comment> \<open>\<open>-1\<close> as \<open>uint32_t\<close>\<close>

fun put_all :: "'c gdb_io \<Rightarrow> u8 list \<Rightarrow> 'c \<Rightarrow> 'c option" where
  "put_all io [] c = Some c"
| "put_all io (b # bs) c = do { c \<leftarrow> io_putchar io b False c; put_all io bs c }"

text \<open>The loop of \<open>_send_buf\<close> tests its condition after the first byte. \<open>hexify\<close> also stores a NUL behind the
  two characters of \<open>hex\<close>, which is not part of the model.\<close>

fun send_buf :: "'c gdb_io \<Rightarrow> u8 list \<Rightarrow> nat \<Rightarrow> 'c \<Rightarrow> 'c option" where
  "send_buf io [] len c = None"
| "send_buf io (b # bs) len c =
     do { c \<leftarrow> io_putchar io (hexify [b] ! 0) False c;
          c \<leftarrow> io_putchar io (hexify [b] ! 1) False c;
          if len > 1 then send_buf io bs (len - 1) c else Some c }"

definition respond_buf :: "'c gdb_io \<Rightarrow> u8 \<Rightarrow> u8 list \<Rightarrow> nat \<Rightarrow> 'c \<Rightarrow> 'c option" where
  "respond_buf io respCode buffer len c =
     do { c \<leftarrow> io_putchar io REMOTE_RESP False c;
          c \<leftarrow> io_putchar io respCode False c;
          c \<leftarrow> send_buf io buffer len c;
          io_putchar io REMOTE_EOM True c }"

text \<open>The digits that the first loop of \<open>_respond\<close> stores, the least significant one first.\<close>

function param_digits :: "u64 \<Rightarrow> u8 list" where
  "param_digits param =
     NTOH (param AND 0xF) # (if drop_bit 4 param \<noteq> 0 then param_digits (drop_bit 4 param) else [])"
  by pat_completeness auto

termination param_digits
proof (relation "measure unat")
  fix param :: u64
  assume "drop_bit 4 param \<noteq> 0"
  then have "param \<noteq> 0" by auto
  then have "0 < unat param" by (simp add: unat_gt_0)
  moreover have "unat (drop_bit 4 param) = unat param div 16" by (subst unat_drop_bit_eq) (simp add: drop_bit_eq_div)
  ultimately show "(drop_bit 4 param, param) \<in> measure unat" by simp
qed simp

declare param_digits.simps [simp del]

definition respond :: "'c gdb_io \<Rightarrow> u8 \<Rightarrow> u64 \<Rightarrow> 'c \<Rightarrow> 'c option" where
  "respond io respCode param c =
     do { c \<leftarrow> io_putchar io REMOTE_RESP False c;
          c \<leftarrow> io_putchar io respCode False c;
          c \<leftarrow> put_all io (rev (param_digits param)) c;
          io_putchar io REMOTE_EOM True c }"

definition clobber :: "u8 \<Rightarrow> u8" where
  "clobber c = (if c = DOLLAR \<or> c = REMOTE_SOM \<or> c = REMOTE_EOM then ch CHR '' '' else c)"

definition respondS :: "'c gdb_io \<Rightarrow> u8 \<Rightarrow> u8 list \<Rightarrow> 'c \<Rightarrow> 'c option" where
  "respondS io respCode s c =
     do { c \<leftarrow> io_putchar io REMOTE_RESP False c;
          c \<leftarrow> io_putchar io respCode False c;
          c \<leftarrow> put_all io (map clobber (cstr s)) c;
          io_putchar io REMOTE_EOM True c }"

subsection \<open>State\<close>

datatype transport = Via_SWD | Via_JTAG

record ('c, 'w) remote =
  rd_tc :: bool \<comment> \<open>\<open>remote_dp.tc\<close> is not NULL\<close>
  rd_seq :: bool \<comment> \<open>the pointers \<open>seq_in\<close>, \<open>seq_in_parity\<close>, \<open>seq_out\<close>, \<open>seq_out_parity\<close> are set\<close>
  rd_link :: "transport option" \<comment> \<open>where \<open>dp_read\<close>, \<open>low_access\<close> and \<open>abort\<close> point\<close>
  rd_jd_index :: u8
  rd_chan :: 'c
  rd_line :: 'w

record ('c, 'w) remote_env =
  re_io :: "'c gdb_io"
  re_seq :: "'w swd_ops" \<comment> \<open>the sequence functions of the controller\<close>
  re_dp :: "transport \<Rightarrow> u8 \<Rightarrow> 'w dp_ops"
  re_fault :: "'w \<Rightarrow> bool" \<comment> \<open>\<open>remote_dp.fault\<close>\<close>
  re_clear_fault :: "'w \<Rightarrow> 'w"
  re_jtagtap_init :: "'w \<Rightarrow> 'w"
  re_voltage :: "u8 list" \<comment> \<open>\<open>platform_target_voltage ()\<close>\<close>
  re_ident :: "u8 list" \<comment> \<open>\<open>PLATFORM_IDENT "" FIRMWARE_VERSION\<close>\<close>
  re_stack_ap :: adiv5_ap \<comment> \<open>what the local \<open>remote_ap\<close> holds before it is assigned\<close>
  re_src :: nat \<comment> \<open>distance from \<open>packet\<close> to the next multiple of 8\<close>

definition remote_dp_init :: "'c \<Rightarrow> 'w \<Rightarrow> ('c, 'w) remote" where
  "remote_dp_init c w = \<lparr>rd_tc = False, rd_seq = False, rd_link = None, rd_jd_index = 0, rd_chan = c, rd_line = w\<rparr>"

definition reply :: "('c \<Rightarrow> 'c option) \<Rightarrow> u8 list \<Rightarrow> ('c, 'w) remote \<Rightarrow> (('c, 'w) remote, u8 list) outcome" where
  "reply f packet s = do { c \<leftarrow> f (rd_chan s); return packet (s\<lparr>rd_chan := c\<rparr>) }"

definition on_line :: "('w \<Rightarrow> ('w, 'a) outcome) \<Rightarrow> ('c, 'w) remote \<Rightarrow> (('c, 'w) remote, 'a) outcome" where
  "on_line f s = map_option (map_prod id (\<lambda>w. s\<lparr>rd_line := w\<rparr>)) (f (rd_line s))"

definition char_at :: "u8 list \<Rightarrow> nat \<Rightarrow> u8 option" where
  "char_at packet i = (if i < length packet then Some (packet ! i) else None)"

abbreviation (input) hex_at :: "u8 list \<Rightarrow> nat \<Rightarrow> nat \<Rightarrow> u64 option" where
  "hex_at packet i n \<equiv> remotehston n (drop i packet)"

subsection \<open>Packets of the two-wire port\<close>

definition remotePacketProcessSWD ::
  "('c, 'w) remote_env \<Rightarrow> nat \<Rightarrow> u8 list \<Rightarrow> ('c, 'w) remote \<Rightarrow> (('c, 'w) remote, u8 list) outcome" where
  "remotePacketProcessSWD E i packet s =
     do { c \<leftarrow> char_at packet 1;
          if c = ch CHR ''S'' then
            (if i \<noteq> 2 then reply (respond (re_io E) REMOTE_RESP_ERR REMOTE_ERROR_WRONGLEN) packet s
             else if \<not> rd_tc s then None
             else reply (respond (re_io E) REMOTE_RESP_OK 0) packet (s\<lparr>rd_link := Some Via_SWD, rd_seq := True\<rparr>))
          else if c = ch CHR ''I'' then
            do { ticks \<leftarrow> hex_at packet 2 2;
                 if \<not> rd_seq s then None
                 else case sw_seq_in_parity (re_seq E) (unat (ucast ticks :: u8)) (rd_line s) of ((badParity, param), w) \<Rightarrow>
                   reply (respond (re_io E) (if badParity then REMOTE_RESP_PARERR else REMOTE_RESP_OK) (ucast param))
                     packet (s\<lparr>rd_line := w\<rparr>) }
          else if c = ch CHR ''i'' then
            do { ticks \<leftarrow> hex_at packet 2 2;
                 if \<not> rd_seq s then None
                 else case sw_seq_in (re_seq E) (unat (ucast ticks :: u8)) (rd_line s) of (param, w) \<Rightarrow>
                   reply (respond (re_io E) REMOTE_RESP_OK (ucast param)) packet (s\<lparr>rd_line := w\<rparr>) }
          else if c = ch CHR ''o'' then
            do { ticks \<leftarrow> hex_at packet 2 2;
                 param \<leftarrow> hex_at packet 4 no_limit;
                 if \<not> rd_seq s then None
                 else reply (respond (re_io E) REMOTE_RESP_OK 0) packet
                   (s\<lparr>rd_line := sw_seq_out (re_seq E) (ucast param) (unat (ucast ticks :: u8)) (rd_line s)\<rparr>) }
          else if c = ch CHR ''O'' then
            do { ticks \<leftarrow> hex_at packet 2 2;
                 param \<leftarrow> hex_at packet 4 no_limit;
                 if \<not> rd_seq s then None
                 else reply (respond (re_io E) REMOTE_RESP_OK 0) packet
                   (s\<lparr>rd_line := sw_seq_out_parity (re_seq E) (ucast param) (unat (ucast ticks :: u8)) (rd_line s)\<rparr>) }
          else reply (respond (re_io E) REMOTE_RESP_ERR REMOTE_ERROR_UNRECOGNISED) packet s }"

subsection \<open>Packets of the scan chain\<close>

text \<open>The packets \<open>R\<close>, \<open>T\<close>, \<open>D\<close>, \<open>d\<close> and \<open>N\<close> call through the uninitialised \<open>jtag_proc\<close>; \<open>jtag_add_device\<close>
  has an empty body.\<close>

definition remotePacketProcessJTAG ::
  "('c, 'w) remote_env \<Rightarrow> nat \<Rightarrow> u8 list \<Rightarrow> ('c, 'w) remote \<Rightarrow> (('c, 'w) remote, u8 list) outcome" where
  "remotePacketProcessJTAG E i packet s =
     do { c \<leftarrow> char_at packet 1;
          if c = ch CHR ''S'' then
            (if \<not> rd_tc s then None
             else reply (respond (re_io E) REMOTE_RESP_OK 0) packet
               (s\<lparr>rd_link := Some Via_JTAG, rd_line := re_jtagtap_init E (rd_line s)\<rparr>))
          else if c = ch CHR ''R'' then None
          else if c = ch CHR ''T'' then
            do { ticks \<leftarrow> hex_at packet 2 2;
                 MS \<leftarrow> hex_at packet 4 2;
                 if i < 4 then reply (respond (re_io E) REMOTE_RESP_ERR REMOTE_ERROR_WRONGLEN) packet s else None }
          else if c = ch CHR ''D'' \<or> c = ch CHR ''d'' then
            (if i < 5 then reply (respond (re_io E) REMOTE_RESP_ERR REMOTE_ERROR_WRONGLEN) packet s else None)
          else if c = ch CHR ''N'' then
            (if i \<noteq> 4 then reply (respond (re_io E) REMOTE_RESP_ERR REMOTE_ERROR_WRONGLEN) packet s else None)
          else if c = ch CHR ''J'' then
            (if i < 22 then reply (respond (re_io E) REMOTE_RESP_ERR REMOTE_ERROR_WRONGLEN) packet s
             else do { index \<leftarrow> hex_at packet 2 2;
                       dr_prescan \<leftarrow> hex_at packet 4 2;
                       dr_postscan \<leftarrow> hex_at packet 6 2;
                       ir_len \<leftarrow> hex_at packet 8 2;
                       ir_prescan \<leftarrow> hex_at packet 10 2;
                       ir_postscan \<leftarrow> hex_at packet 12 2;
                       current_ir \<leftarrow> hex_at packet 14 8;
                       reply (respond (re_io E) REMOTE_RESP_OK 0) packet s })
          else reply (respond (re_io E) REMOTE_RESP_ERR REMOTE_ERROR_UNRECOGNISED) packet s }"

subsection \<open>General packets\<close>

text \<open>The bodies of five cases are commented out: these packets have no response.\<close>

definition remotePacketProcessGEN ::
  "('c, 'w) remote_env \<Rightarrow> nat \<Rightarrow> u8 list \<Rightarrow> ('c, 'w) remote \<Rightarrow> (('c, 'w) remote, u8 list) outcome" where
  "remotePacketProcessGEN E i packet s =
     do { c \<leftarrow> char_at packet 1;
          if c = ch CHR ''V'' then reply (respondS (re_io E) REMOTE_RESP_OK (re_voltage E)) packet s
          else if c = ch CHR ''Z'' then reply (respond (re_io E) REMOTE_RESP_OK 0) packet s
          else if c = ch CHR ''z'' \<or> c = ch CHR ''F'' \<or> c = ch CHR ''f'' \<or> c = ch CHR ''P'' \<or> c = ch CHR ''p'' then return packet s
          else if c = ch CHR ''A'' then reply (respondS (re_io E) REMOTE_RESP_OK (re_ident E)) packet s
          else reply (respond (re_io E) REMOTE_RESP_ERR REMOTE_ERROR_UNRECOGNISED) packet s }"

subsection \<open>High-level packets\<close>

definition null_dp :: "'w dp_ops" where
  "null_dp = \<lparr>dp_low_access = (\<lambda>RnW addr v w. None), dp_read = (\<lambda>addr w. None), dp_error = (\<lambda>w. None), dp_abort = (\<lambda>v w. None)\<rparr>"

definition link_dp :: "('c, 'w) remote_env \<Rightarrow> ('c, 'w) remote \<Rightarrow> 'w dp_ops" where
  "link_dp E s = (case rd_link s of None \<Rightarrow> null_dp | Some l \<Rightarrow> re_dp E l (rd_jd_index s))"

definition respond_word :: "('c, 'w) remote_env \<Rightarrow> u8 list \<Rightarrow> u32 \<Rightarrow> ('c, 'w) remote \<Rightarrow> (('c, 'w) remote, u8 list) outcome" where
  "respond_word E packet data = reply (respond_buf (re_io E) REMOTE_RESP_OK (le_bytes 4 (unat data)) 4) packet"

definition put_at :: "u8 list \<Rightarrow> nat \<Rightarrow> u8 \<Rightarrow> u8 list option" where
  "put_at packet i b = (if i < length packet then Some (packet[i := b]) else None)"

text \<open>\<open>unhexify (src, packet, len)\<close>, with source and destination in the one buffer.\<close>

fun unhexify_in_place :: "nat \<Rightarrow> nat \<Rightarrow> nat \<Rightarrow> u8 list \<Rightarrow> u8 list option" where
  "unhexify_in_place 0 dst src packet = Some packet"
| "unhexify_in_place (Suc n) dst src packet =
     do { h \<leftarrow> char_at packet src;
          packet \<leftarrow> put_at packet dst (push_bit 4 (unhex_digit h));
          l \<leftarrow> char_at packet (src + 1);
          b \<leftarrow> char_at packet dst;
          packet \<leftarrow> put_at packet dst (b OR unhex_digit l);
          unhexify_in_place n (dst + 1) (src + 2) packet }"

text \<open>A number that is no constant of \<open>enum align\<close> has no result.\<close>

definition align_constant :: "u8 \<Rightarrow> align option" where
  "align_constant x = (if x = 0 then Some ALIGN_BYTE else if x = 1 then Some ALIGN_HALFWORD
     else if x = 2 then Some ALIGN_WORD else if x = 3 then Some ALIGN_DWORD else None)"

definition respond_fault :: "('c, 'w) remote_env \<Rightarrow> u8 list \<Rightarrow> ('c, 'w) remote \<Rightarrow> (('c, 'w) remote, u8 list) outcome" where
  "respond_fault E packet s =
     andthen (reply (respond (re_io E) REMOTE_RESP_ERR 0) packet s)
       (\<lambda>packet s. return packet (s\<lparr>rd_line := re_clear_fault E (rd_line s)\<rparr>))"

definition remote_mem_read ::
  "('c, 'w) remote_env \<Rightarrow> adiv5_ap \<Rightarrow> nat \<Rightarrow> u8 list \<Rightarrow> ('c, 'w) remote \<Rightarrow> (('c, 'w) remote, u8 list) outcome" where
  "remote_mem_read E ap p packet s =
     do { address \<leftarrow> hex_at packet p 8;
          count \<leftarrow> hex_at packet (p + 8) 8;
          let n = unat (ucast count :: u32);
          andthen (on_line (firmware_mem_read (link_dp E s) ap (ucast address) n) s) (\<lambda>bs s.
            if re_src E + length bs > length packet then None
            else let packet = take (re_src E) packet @ bs @ drop (re_src E + length bs) packet
                 in if \<not> re_fault E (rd_line s)
                    then reply (respond_buf (re_io E) REMOTE_RESP_OK (drop (re_src E) packet) n) packet s
                    else respond_fault E packet s) }"

definition remote_mem_write ::
  "('c, 'w) remote_env \<Rightarrow> adiv5_ap \<Rightarrow> nat \<Rightarrow> u8 list \<Rightarrow> ('c, 'w) remote \<Rightarrow> (('c, 'w) remote, u8 list) outcome" where
  "remote_mem_write E ap p packet s =
     do { a \<leftarrow> hex_at packet p 2;
          align \<leftarrow> align_constant (ucast a);
          dest \<leftarrow> hex_at packet (p + 2) 8;
          len \<leftarrow> hex_at packet (p + 10) 8;
          let len = (ucast len :: u32);
          if len AND mask (align_shift align) \<noteq> 0 then reply (respond (re_io E) REMOTE_RESP_ERR 0) packet s
          else do {
            packet \<leftarrow> unhexify_in_place (unat len) (re_src E) (p + 18) packet;
            andthen (on_line (firmware_mem_write_sized (link_dp E s) ap (ucast dest) (drop (re_src E) packet) (unat len) align) s)
              (\<lambda>x s. if re_fault E (rd_line s) then respond_fault E packet s
                     else reply (respond (re_io E) REMOTE_RESP_OK 0) packet s) } }"

definition remotePacketProcessHL ::
  "('c, 'w) remote_env \<Rightarrow> nat \<Rightarrow> u8 list \<Rightarrow> ('c, 'w) remote \<Rightarrow> (('c, 'w) remote, u8 list) outcome" where
  "remotePacketProcessHL E i packet s =
     do { index \<leftarrow> char_at packet 1;
          if index = ch CHR ''C'' then reply (respond (re_io E) REMOTE_RESP_OK REMOTE_HL_VERSION) packet s
          else do {
            jd \<leftarrow> hex_at packet 2 2;
            apsel \<leftarrow> hex_at packet 4 2;
            let s = s\<lparr>rd_jd_index := ucast jd\<rparr>;
            let ap = (re_stack_ap E)\<lparr>ap_apsel := ucast apsel\<rparr>;
            if index = ch CHR ''d'' then
              do { addr16 \<leftarrow> hex_at packet 6 4;
                   andthen (on_line (dp_read (link_dp E s) (ucast addr16)) s) (respond_word E packet) }
            else if index = ch CHR ''L'' then
              do { addr16 \<leftarrow> hex_at packet 6 4;
                   v \<leftarrow> hex_at packet 10 8;
                   andthen (on_line (dp_low_access (link_dp E s) (ap_apsel ap \<noteq> 0) (ucast addr16) (ucast v)) s) (respond_word E packet) }
            else if index = ch CHR ''a'' then
              do { addr16 \<leftarrow> hex_at packet 6 4;
                   andthen (on_line (firmware_ap_read (link_dp E s) ap (ucast addr16)) s) (respond_word E packet) }
            else if index = ch CHR ''A'' then
              do { addr16 \<leftarrow> hex_at packet 6 4;
                   v \<leftarrow> hex_at packet 10 8;
                   andthen (on_line (firmware_ap_write (link_dp E s) ap (ucast addr16) (ucast v)) s)
                     (\<lambda>x. reply (respond (re_io E) REMOTE_RESP_OK 0) packet) }
            else if index = ch CHR ''M'' then
              do { csw \<leftarrow> hex_at packet 6 8;
                   remote_mem_read E (ap\<lparr>ap_csw := ucast csw\<rparr>) 14 packet s }
            else if index = ch CHR ''h'' then remote_mem_read E ap 6 packet s
            else if index = ch CHR ''m'' then
              do { csw \<leftarrow> hex_at packet 6 8;
                   remote_mem_write E (ap\<lparr>ap_csw := ucast csw\<rparr>) 14 packet s }
            else if index = ch CHR ''H'' then remote_mem_write E ap 6 packet s
            else reply (respond (re_io E) REMOTE_RESP_ERR REMOTE_ERROR_UNRECOGNISED) packet s } }"

definition remotePacketProcess ::
  "('c, 'w) remote_env \<Rightarrow> nat \<Rightarrow> u8 list \<Rightarrow> ('c, 'w) remote \<Rightarrow> (('c, 'w) remote, u8 list) outcome" where
  "remotePacketProcess E i packet s =
     do { c \<leftarrow> char_at packet 0;
          if c = ch CHR ''S'' then remotePacketProcessSWD E i packet s
          else if c = ch CHR ''J'' then remotePacketProcessJTAG E i packet s
          else if c = ch CHR ''G'' then remotePacketProcessGEN E i packet s
          else if c = ch CHR ''H'' then remotePacketProcessHL E i packet s
          else reply (respond (re_io E) REMOTE_RESP_ERR REMOTE_ERROR_UNRECOGNISED) packet s }"

subsection \<open>Numbers are read as they are printed\<close>

lemma NTOH_digit:
  assumes "n < 16"
  shows "ISHEX (NTOH (word_of_nat n)) \<and> ucast (HTON (NTOH (word_of_nat n))) = (word_of_nat n :: u64) \<and> NTOH (word_of_nat n) \<noteq> REMOTE_EOM"
  using upto16 [OF assms] unfolding list.set
  by (elim insertE emptyE; simp add: NTOH_def HTON_def ISHEX_def TOUPPER_def REMOTE_EOM_def)

lemma NTOH_nibble: "ISHEX (NTOH (x AND 0xF)) \<and> ucast (HTON (NTOH (x AND 0xF))) = x AND 0xF \<and> NTOH (x AND 0xF) \<noteq> REMOTE_EOM"
proof -
  have "x AND 0xF < 16" using and_mask_less_size [of 4 x] by (simp add: mask_numeral word_size)
  then have "unat (x AND 0xF) < 16" by (simp add: word_less_nat_alt)
  from NTOH_digit [OF this] show ?thesis by simp
qed

text \<open>The digits of \<open>%0nx\<close>, of which the host composes its packets.\<close>

fun fmt_hex :: "nat \<Rightarrow> u64 \<Rightarrow> u8 list" where
  "fmt_hex 0 v = []"
| "fmt_hex (Suc n) v = fmt_hex n (drop_bit 4 v) @ [NTOH (v AND 0xF)]"

lemma length_fmt_hex [simp]: "length (fmt_hex n v) = n"
  by (induction n v rule: fmt_hex.induct) simp_all

lemma fmt_hex_plain: "c \<in> set (fmt_hex n v) \<Longrightarrow> ISHEX c \<and> c \<noteq> REMOTE_EOM"
  by (induction n v rule: fmt_hex.induct) (auto simp: NTOH_nibble)

lemma hston_fmt_hex: "hston_loop (n + m) (fmt_hex n v @ rest) r = hston_loop m rest (push_bit (4 * n) r OR take_bit (4 * n) v)"
proof (induction n v arbitrary: m rest r rule: fmt_hex.induct)
  case (2 n v)
  have "push_bit 4 (push_bit (4 * n) r OR take_bit (4 * n) (drop_bit 4 v)) OR (v AND 0xF) =
      push_bit (4 * Suc n) r OR take_bit (4 * Suc n) v" (is "?l = ?r")
  proof -
    have m: "(0xF :: u64) = mask 4" by (simp add: mask_numeral)
    show ?thesis unfolding m
      by (rule bit_word_eqI) (auto simp: bit_simps algebra_simps)
  qed
  moreover have "hston_loop (Suc n + m) (fmt_hex (Suc n) v @ rest) r =
      hston_loop (n + Suc m) (fmt_hex n (drop_bit 4 v) @ NTOH (v AND 0xF) # rest) r" by simp
  ultimately show ?case by (simp only: "2.IH") (simp add: NTOH_nibble del: fmt_hex.simps)
qed simp

lemma hston_stops: "\<not> ISHEX c \<Longrightarrow> hston_loop m (c # rest) r = Some r"
  by simp

lemma hston_field: "remotehston n (fmt_hex n v @ rest) = Some (take_bit (4 * n) v)"
proof -
  have "hston_loop 0 rest x = Some x" for x by (cases rest) simp_all
  then show ?thesis using hston_fmt_hex [of n 0 v rest 0] by (simp add: remotehston_def)
qed

lemma param_digits_fmt: "rev (param_digits p) = fmt_hex (length (param_digits p)) p \<and> take_bit (4 * length (param_digits p)) p = p"
proof (induction p rule: param_digits.induct)
  case (1 p)
  have m: "p AND 0xF = take_bit 4 p" by (simp add: take_bit_eq_mask mask_numeral)
  show ?case
  proof (cases "drop_bit 4 p = 0")
    case True
    then have "take_bit 4 p = p" using bits_ident [of 4 p] by simp
    then show ?thesis using True by (simp add: param_digits.simps [of p])
  next
    case False
    let ?k = "length (param_digits (drop_bit 4 p))"
    have "take_bit (4 * Suc ?k) p = push_bit 4 (take_bit (4 * ?k) (drop_bit 4 p)) OR take_bit 4 p"
      by (rule bit_word_eqI) (auto simp: bit_simps)
    also have "\<dots> = push_bit 4 (drop_bit 4 p) OR take_bit 4 p" using 1 False by simp
    also have "\<dots> = p" by (rule bit_word_eqI) (auto simp: bit_simps)
    finally show ?thesis using 1 False by (simp add: param_digits.simps [of p])
  qed
qed

lemma param_digits_length: "unat p < 16 ^ Suc k \<Longrightarrow> length (param_digits p) \<le> Suc k"
proof (induction k arbitrary: p)
  case 0
  then have "drop_bit 4 p = 0" by (simp add: drop_bit_eq_div word_less_nat_alt unat_div div_eq_0_iff flip: unat_eq_zero)
  then show ?case by (simp add: param_digits.simps [of p])
next
  case (Suc k)
  have "unat (drop_bit 4 p) = unat p div 16" by (subst unat_drop_bit_eq) (simp add: drop_bit_eq_div)
  with Suc.prems have "unat (drop_bit 4 p) < 16 ^ Suc k" by (simp add: div_less_iff_less_mult mult.commute)
  from Suc.IH [OF this] show ?case by (simp add: param_digits.simps [of p])
qed

text \<open>
  What \<open>_respond\<close> prints \<open>remotehston\<close> reads back, whatever follows the end of the message; there are at
  most 16 digits, which with the other characters fit into \<open>buf[35]\<close>.
\<close>

lemma remotehston_respond:
  assumes "length (param_digits p) \<le> limit" and "\<not> ISHEX c"
  shows "remotehston limit (rev (param_digits p) @ c # rest) = Some p \<and> length (param_digits p) \<le> 16"
proof -
  have "unat p < 2 ^ LENGTH(64)" by (rule unsigned_less)
  then have "unat p < 16 ^ Suc 15" by simp
  note l = param_digits_length [OF this]
  obtain m where m: "limit = length (param_digits p) + m" using assms(1) le_Suc_ex by blast
  have e: "rev (param_digits p) = fmt_hex (length (param_digits p)) p" and t: "take_bit (4 * length (param_digits p)) p = p"
    using param_digits_fmt [of p] by simp_all
  show ?thesis unfolding remotehston_def m e using hston_fmt_hex [of "length (param_digits p)" m p "c # rest" 0] l
    by (simp add: t assms(2))
qed

subsection \<open>Every packet has one response\<close>

definition response_frame :: "u8 \<Rightarrow> u8 list \<Rightarrow> u8 list" where
  "response_frame code body = REMOTE_RESP # code # body @ [REMOTE_EOM]"

definition is_response :: "u8 list \<Rightarrow> bool" where
  "is_response f \<longleftrightarrow> (\<exists>code body. f = response_frame code body \<and> code \<in> {REMOTE_RESP_OK, REMOTE_RESP_PARERR, REMOTE_RESP_ERR} \<and>
     REMOTE_EOM \<notin> set body)"

lemma clobber_plain: "clobber c \<noteq> REMOTE_EOM"
  by (simp add: clobber_def REMOTE_EOM_def)

lemma param_digits_plain: "REMOTE_EOM \<notin> set (rev (param_digits p))"
  using param_digits_fmt [of p] fmt_hex_plain [of REMOTE_EOM "length (param_digits p)" p] by metis

lemma hexify_loop_plain: "REMOTE_EOM \<notin> set (hexify_loop bs)"
  using hexify_loop_chars [of bs] by (auto simp: set_hexdigits REMOTE_EOM_def)

lemma hexify_one: "hexify [b] ! 0 = hexify_loop [b] ! 0" "hexify [b] ! 1 = hexify_loop [b] ! 1"
  by (simp_all add: hexify_def)

text \<open>A printer writes one message to the channel and flushes it.\<close>

definition prints :: "('c \<Rightarrow> bool) \<Rightarrow> ('c \<Rightarrow> u8 list) \<Rightarrow> ('c \<Rightarrow> u8 list) \<Rightarrow> ('c \<Rightarrow> u8 list) \<Rightarrow> ('c \<Rightarrow> 'c option) \<Rightarrow> u8 list \<Rightarrow> bool" where
  "prints ok rx tx sent f msg \<longleftrightarrow> (\<forall>c. ok c \<longrightarrow> (\<exists>c'. f c = Some c' \<and> ok c' \<and> rx c' = rx c \<and> tx c' = tx c @ msg \<and> sent c' = tx c'))"

context gdb_channel
begin

lemma put_all_sends: "ok c \<Longrightarrow> \<exists>c'. put_all io bs c = Some c' \<and> ok c' \<and> rx c' = rx c \<and> tx c' = tx c @ bs"
proof (induction bs arbitrary: c)
  case (Cons b bs)
  from putchar_next [OF Cons.prems, of b False] obtain c1 where
    1: "io_putchar io b False c = Some c1" "ok c1" "rx c1 = rx c" "tx c1 = tx c @ [b]" by auto
  from Cons.IH [OF 1(2)] 1 show ?case by auto
qed simp

lemma send_buf_sends:
  "ok c \<Longrightarrow> max 1 len \<le> length buf \<Longrightarrow> \<exists>c'. send_buf io buf len c = Some c' \<and> ok c' \<and> rx c' = rx c \<and>
     tx c' = tx c @ hexify_loop (take (max 1 len) buf)"
proof (induction buf arbitrary: len c)
  case (Cons b bs)
  from putchar_next [OF Cons.prems(1), of "hexify [b] ! 0" False] obtain c1 where
    1: "io_putchar io (hexify [b] ! 0) False c = Some c1" "ok c1" "rx c1 = rx c" "tx c1 = tx c @ [hexify [b] ! 0]" by auto
  from putchar_next [OF 1(2), of "hexify [b] ! 1" False] obtain c2 where
    2: "io_putchar io (hexify [b] ! 1) False c1 = Some c2" "ok c2" "rx c2 = rx c1" "tx c2 = tx c1 @ [hexify [b] ! 1]" by auto
  show ?case
  proof (cases "len > 1")
    case False
    then have "max 1 len = Suc 0" by simp
    then show ?thesis using 1 2 False by (simp add: hexify_one del: One_nat_def) simp
  next
    case True
    then have m: "max 1 len = Suc (max 1 (len - 1))" by simp
    with Cons.prems(2) have "max 1 (len - 1) \<le> length bs" by simp
    from Cons.IH [OF 2(2) this] True 1 2 show ?thesis
      unfolding m take_Suc_Cons by (auto simp: hexify_one simp del: One_nat_def)
  qed
qed simp

lemma framed:
  assumes "\<And>c. ok c \<Longrightarrow> \<exists>c'. f c = Some c' \<and> ok c' \<and> rx c' = rx c \<and> tx c' = tx c @ body"
  shows "prints ok rx tx sent (\<lambda>c. do { c \<leftarrow> io_putchar io REMOTE_RESP False c; c \<leftarrow> io_putchar io code False c; c \<leftarrow> f c;
      io_putchar io REMOTE_EOM True c }) (response_frame code body)"
  unfolding prints_def
proof (intro allI impI)
  fix c assume "ok c"
  from putchar_next [OF this, of REMOTE_RESP False] obtain c1 where
    1: "io_putchar io REMOTE_RESP False c = Some c1" "ok c1" "rx c1 = rx c" "tx c1 = tx c @ [REMOTE_RESP]" by auto
  from putchar_next [OF 1(2), of code False] obtain c2 where
    2: "io_putchar io code False c1 = Some c2" "ok c2" "rx c2 = rx c1" "tx c2 = tx c1 @ [code]" by auto
  from assms [OF 2(2)] obtain c3 where 3: "f c2 = Some c3" "ok c3" "rx c3 = rx c2" "tx c3 = tx c2 @ body" by auto
  from putchar_next [OF 3(2), of REMOTE_EOM True] 1 2 3
  show "\<exists>c'. do { c \<leftarrow> io_putchar io REMOTE_RESP False c; c \<leftarrow> io_putchar io code False c; c \<leftarrow> f c; io_putchar io REMOTE_EOM True c } = Some c' \<and>
      ok c' \<and> rx c' = rx c \<and> tx c' = tx c @ response_frame code body \<and> sent c' = tx c'"
    by (auto simp: response_frame_def)
qed

lemma respond_prints: "prints ok rx tx sent (respond io code p) (response_frame code (rev (param_digits p)))"
  unfolding respond_def by (rule framed) (rule put_all_sends)

lemma respondS_prints: "prints ok rx tx sent (respondS io code txt) (response_frame code (map clobber (cstr txt)))"
  unfolding respondS_def by (rule framed) (rule put_all_sends)

lemma respond_buf_prints:
  "max 1 len \<le> length buf \<Longrightarrow> prints ok rx tx sent (respond_buf io code buf len) (response_frame code (hexify_loop (take (max 1 len) buf)))"
  unfolding respond_buf_def by (rule framed) (rule send_buf_sends)

end

lemma send_buf_room: "send_buf io buf len c = Some c' \<Longrightarrow> max 1 len \<le> length buf"
proof (induction buf arbitrary: len c)
  case (Cons b bs)
  show ?case
  proof (cases "len > 1")
    case True
    with Cons.prems obtain c2 where "send_buf io bs (len - 1) c2 = Some c'" by (auto simp: bind_eq_Some_conv)
    from Cons.IH [OF this] show ?thesis by simp linarith
  qed simp
qed simp

lemma respond_buf_room: "respond_buf io code buf len c = Some c' \<Longrightarrow> max 1 len \<le> length buf"
  by (auto simp: respond_buf_def bind_eq_Some_conv dest: send_buf_room)

text \<open>A run of a handler that returns has kept the size of the buffer and sent one response.\<close>

definition answered ::
  "('c \<Rightarrow> bool) \<Rightarrow> ('c \<Rightarrow> u8 list) \<Rightarrow> ('c \<Rightarrow> u8 list) \<Rightarrow> ('c \<Rightarrow> u8 list) \<Rightarrow> 'c \<Rightarrow> nat \<Rightarrow> (('c, 'w) remote, u8 list) outcome \<Rightarrow> bool" where
  "answered ok rx tx sent c n m \<longleftrightarrow> (\<forall>packet' s'. m = Some (Inr packet', s') \<longrightarrow> length packet' = n \<and> ok (rd_chan s') \<and>
     rx (rd_chan s') = rx c \<and> sent (rd_chan s') = tx (rd_chan s') \<and> (\<exists>f. is_response f \<and> tx (rd_chan s') = tx c @ f))"

named_theorems answered

lemma answered_None [answered]: "answered ok rx tx sent c n None"
  by (simp add: answered_def)

lemma answered_bind [answered]: "(\<And>x. m = Some x \<Longrightarrow> answered ok rx tx sent c n (f x)) \<Longrightarrow> answered ok rx tx sent c n (Option.bind m f)"
  by (cases m) (simp_all add: answered_None)

lemma answered_if [answered]:
  "(b \<Longrightarrow> answered ok rx tx sent c n m) \<Longrightarrow> (\<not> b \<Longrightarrow> answered ok rx tx sent c n m') \<Longrightarrow> answered ok rx tx sent c n (if b then m else m')"
  by simp

lemma answered_prod [answered]: "(\<And>x y. answered ok rx tx sent c n (f x y)) \<Longrightarrow> answered ok rx tx sent c n (case p of (x, y) \<Rightarrow> f x y)"
  by (cases p) simp

lemma answered_on_line [answered]:
  assumes "\<And>x s'. rd_chan s' = rd_chan s \<Longrightarrow> answered ok rx tx sent c n (k x s')"
  shows "answered ok rx tx sent c n (andthen (on_line f s) k)"
proof (cases "f (rd_line s)")
  case None
  then show ?thesis by (simp add: on_line_def answered_None)
next
  case (Some r)
  then obtain x w where r: "f (rd_line s) = Some (x, w)" by (cases r) simp
  then show ?thesis using assms [of "s\<lparr>rd_line := w\<rparr>"] by (cases x) (simp_all add: on_line_def answered_def)
qed

lemma answered_reply:
  assumes "prints ok rx tx sent f msg" "is_response msg" "ok c" "rd_chan s = c" "length packet = n"
  shows "answered ok rx tx sent c n (reply f packet s)"
  using assms unfolding answered_def prints_def reply_def by (fastforce simp: bind_eq_Some_conv return_def)

lemma is_response_digits:
  "code \<in> {REMOTE_RESP_OK, REMOTE_RESP_PARERR, REMOTE_RESP_ERR} \<Longrightarrow> is_response (response_frame code (rev (param_digits p)))"
  using param_digits_plain unfolding is_response_def by blast

lemma is_response_text:
  "code \<in> {REMOTE_RESP_OK, REMOTE_RESP_PARERR, REMOTE_RESP_ERR} \<Longrightarrow> is_response (response_frame code (map clobber txt))"
  unfolding is_response_def using clobber_plain by (metis (no_types, lifting) in_set_conv_nth length_map nth_map)

lemma is_response_hex:
  "code \<in> {REMOTE_RESP_OK, REMOTE_RESP_PARERR, REMOTE_RESP_ERR} \<Longrightarrow> is_response (response_frame code (hexify_loop bs))"
  using hexify_loop_plain unfolding is_response_def by blast

lemma length_unhexify_in_place: "unhexify_in_place n dst src packet = Some packet' \<Longrightarrow> length packet' = length packet"
  by (induction n dst src packet rule: unhexify_in_place.induct) (auto simp: bind_eq_Some_conv put_at_def split: if_splits)

context gdb_channel
begin

lemma answered_respond [answered]:
  "ok c \<Longrightarrow> rd_chan s = c \<Longrightarrow> length packet = n \<Longrightarrow> code \<in> {REMOTE_RESP_OK, REMOTE_RESP_PARERR, REMOTE_RESP_ERR} \<Longrightarrow>
    answered ok rx tx sent c n (reply (respond io code p) packet s)"
  by (rule answered_reply [OF respond_prints is_response_digits])

lemma answered_respondS [answered]:
  "ok c \<Longrightarrow> rd_chan s = c \<Longrightarrow> length packet = n \<Longrightarrow> code \<in> {REMOTE_RESP_OK, REMOTE_RESP_PARERR, REMOTE_RESP_ERR} \<Longrightarrow>
    answered ok rx tx sent c n (reply (respondS io code txt) packet s)"
  by (rule answered_reply [OF respondS_prints is_response_text])

lemma answered_respond_buf [answered]:
  assumes "ok c" "rd_chan s = c" "length packet = n" "code \<in> {REMOTE_RESP_OK, REMOTE_RESP_PARERR, REMOTE_RESP_ERR}"
  shows "answered ok rx tx sent c n (reply (respond_buf io code buf len) packet s)"
proof (cases "max 1 len \<le> length buf")
  case True
  show ?thesis by (rule answered_reply [OF respond_buf_prints [OF True] is_response_hex [OF assms(4)] assms(1-3)])
next
  case False
  then have "respond_buf io code buf len (rd_chan s) = None" using respond_buf_room by (metis not_Some_eq)
  then show ?thesis by (simp add: reply_def answered_None)
qed

end

lemmas processes = remotePacketProcess_def remotePacketProcessSWD_def remotePacketProcessJTAG_def remotePacketProcessHL_def
  remote_mem_read_def remote_mem_write_def respond_word_def Let_def

lemma answered_respond_fault:
  assumes "gdb_channel (re_io E) ok rx tx sent" "ok c" "rd_chan s = c" "length packet = n"
  shows "answered ok rx tx sent c n (respond_fault E packet s)"
proof -
  have "answered ok rx tx sent c n (reply (respond (re_io E) REMOTE_RESP_ERR 0) packet s)"
    by (rule gdb_channel.answered_respond [OF assms]) simp
  then show ?thesis by (auto simp: respond_fault_def answered_def andthen_Some_iff return_def)
qed

text \<open>The five general packets without a response.\<close>

definition unanswered :: "u8 list \<Rightarrow> bool" where
  "unanswered packet \<longleftrightarrow> packet ! 0 = ch CHR ''G'' \<and> packet ! 1 \<in> set (str ''zFfPp'')"

text \<open>
  C37. A remote-control packet that is processed to its end has exactly one response: a frame \<open>&\<close>, a code,
  characters without \<open>#\<close>, and \<open>#\<close>, flushed to the transport, whatever the packet holds. Nothing is taken
  from the channel and the buffer keeps its size. The exceptions are the five general packets whose bodies
  are commented out, which send nothing.
\<close>

theorem remote_packet_answered:
  assumes "gdb_channel (re_io E) ok rx tx sent" and "ok (rd_chan s)" and "remotePacketProcess E i packet s = Some (Inr packet', s')"
  shows "length packet' = length packet \<and> rx (rd_chan s') = rx (rd_chan s) \<and>
    (if unanswered packet then rd_chan s' = rd_chan s
     else sent (rd_chan s') = tx (rd_chan s') \<and> (\<exists>f. is_response f \<and> tx (rd_chan s') = tx (rd_chan s) @ f))"
proof (cases "unanswered packet")
  case True
  then show ?thesis using assms(3)
    by (auto simp: unanswered_def remotePacketProcess_def remotePacketProcessGEN_def char_at_def return_def bind_eq_Some_conv split: if_splits)
next
  case False
  note g = gdb_channel.answered_respond [OF assms(1)] gdb_channel.answered_respondS [OF assms(1)]
    gdb_channel.answered_respond_buf [OF assms(1)] answered_respond_fault [OF assms(1)]
  let ?A = "answered ok rx tx sent (rd_chan s) (length packet)"
  have SWD: "?A (remotePacketProcessSWD E i packet s)" unfolding remotePacketProcessSWD_def
    by (intro answered g assms(2)) simp_all
  have JTAG: "?A (remotePacketProcessJTAG E i packet s)" unfolding remotePacketProcessJTAG_def
    by (intro answered g assms(2)) simp_all
  have GEN: "?A (remotePacketProcessGEN E i packet s)" if "packet ! 0 = ch CHR ''G''"
    using False that unfolding remotePacketProcessGEN_def
    by (intro answered g assms(2)) (auto simp: unanswered_def char_at_def split: if_splits)
  have rd: "?A (remote_mem_read E ap p packet s')" if "rd_chan s' = rd_chan s" for ap p s'
    unfolding remote_mem_read_def Let_def using that
    by (intro answered g assms(2)) simp_all
  have wr: "?A (remote_mem_write E ap p packet s')" if "rd_chan s' = rd_chan s" for ap p s'
    unfolding remote_mem_write_def Let_def using that
    by (intro answered g assms(2)) (simp_all add: length_unhexify_in_place)
  have HL: "?A (remotePacketProcessHL E i packet s)" unfolding remotePacketProcessHL_def respond_word_def Let_def
    by (intro answered g rd wr assms(2)) simp_all
  have "?A (remotePacketProcess E i packet s)" unfolding remotePacketProcess_def
    by (intro answered_bind answered_if g SWD JTAG GEN HL assms(2)) (auto simp: char_at_def split: if_splits)
  with assms(3) False show ?thesis by (auto simp: answered_def)
qed

subsection \<open>The file's own port is never set up\<close>

text \<open>The states that packets lead to from the initialised \<open>remote_dp\<close>, also by an exception.\<close>

inductive remote_reach :: "('c, 'w) remote_env \<Rightarrow> ('c, 'w) remote \<Rightarrow> ('c, 'w) remote \<Rightarrow> bool" for E s0 where
  start: "remote_reach E s0 s0"
| packet: "remote_reach E s0 s \<Longrightarrow> remotePacketProcess E i packet s = Some (r, s') \<Longrightarrow> remote_reach E s0 s'"

definition not_set_up :: "('c, 'w) remote_env \<Rightarrow> 'w \<Rightarrow> ('c, 'w) remote \<Rightarrow> bool" where
  "not_set_up E w s \<longleftrightarrow> \<not> rd_tc s \<and> \<not> rd_seq s \<and> rd_link s = None \<and> rd_line s = w"

text \<open>Runs that leave the file's port and the line as they are.\<close>

definition untouched :: "('c, 'w) remote_env \<Rightarrow> 'w \<Rightarrow> (('c, 'w) remote, 'a) outcome \<Rightarrow> bool" where
  "untouched E w m \<longleftrightarrow> (\<forall>r s'. m = Some (r, s') \<longrightarrow> not_set_up E w s')"

named_theorems untouched

lemma untouched_None [untouched]: "untouched E w None"
  by (simp add: untouched_def)

lemma untouched_bind [untouched]: "(\<And>x. untouched E w (f x)) \<Longrightarrow> untouched E w (Option.bind m f)"
  by (cases m) (simp_all add: untouched_None)

lemma untouched_if [untouched]: "(b \<Longrightarrow> untouched E w m) \<Longrightarrow> (\<not> b \<Longrightarrow> untouched E w m') \<Longrightarrow> untouched E w (if b then m else m')"
  by simp

lemma untouched_reply [untouched]: "not_set_up E w s \<Longrightarrow> untouched E w (reply f packet s)"
  by (auto simp: untouched_def reply_def return_def bind_eq_Some_conv not_set_up_def)

lemma untouched_return [untouched]: "not_set_up E w s \<Longrightarrow> untouched E w (return packet s)"
  by (auto simp: untouched_def return_def)

lemma untouched_null [untouched]: "untouched E w (andthen (on_line (\<lambda>w. None) s) k)"
  by (simp add: on_line_def untouched_None)

lemma null_port: "not_set_up E w s \<Longrightarrow> link_dp E s = null_dp"
  by (simp add: not_set_up_def link_dp_def)

lemma null_access [simp]:
  "dp_read null_dp a = (\<lambda>w. None)" "dp_low_access null_dp R a v = (\<lambda>w. None)"
  "firmware_ap_read null_dp ap a = (\<lambda>w. None)" "firmware_ap_write null_dp ap a v = (\<lambda>w. None)"
  "firmware_mem_write_sized null_dp ap d src n al = (\<lambda>w. None)"
  by (simp_all add: null_dp_def firmware_ap_read_def firmware_ap_write_def adiv5_dp_write_def firmware_mem_write_sized_def ap_mem_access_setup_def fun_eq_iff Let_def)

lemma null_mem_read: "firmware_mem_read null_dp ap src n w = (if n = 0 then return [] w else None)"
  by (simp add: firmware_mem_read_def ap_mem_access_setup_def firmware_ap_write_def adiv5_dp_write_def null_dp_def Let_def)

lemma untouched_read:
  assumes "not_set_up E w s" "\<not> re_fault E w"
  shows "untouched E w (remote_mem_read E ap p packet s)"
  unfolding remote_mem_read_def Let_def null_port [OF assms(1)]
  using assms
  by (intro untouched) (auto simp: on_line_def null_mem_read return_def untouched_None not_set_up_def intro!: untouched_reply)

lemma untouched_write:
  assumes "not_set_up E w s"
  shows "untouched E w (remote_mem_write E ap p packet s)"
  unfolding remote_mem_write_def Let_def null_port [OF assms] using assms by (intro untouched | simp)+

lemma untouched_process:
  assumes "not_set_up E w s" "\<not> re_fault E w"
  shows "untouched E w (remotePacketProcess E i packet s)"
proof -
  have s: "\<not> rd_tc s" "\<not> rd_seq s" using assms(1) by (simp_all add: not_set_up_def)
  have j: "not_set_up E w (s\<lparr>rd_jd_index := x\<rparr>)" for x using assms(1) by (simp add: not_set_up_def)
  have SWD: "untouched E w (remotePacketProcessSWD E i packet s)" unfolding remotePacketProcessSWD_def
    using assms(1) s by (intro untouched) simp_all
  have JTAG: "untouched E w (remotePacketProcessJTAG E i packet s)" unfolding remotePacketProcessJTAG_def
    using assms(1) s by (intro untouched) simp_all
  have GEN: "untouched E w (remotePacketProcessGEN E i packet s)" unfolding remotePacketProcessGEN_def
    using assms(1) s by (intro untouched)
  have HL: "untouched E w (remotePacketProcessHL E i packet s)" unfolding remotePacketProcessHL_def Let_def null_port [OF j] null_access
    by (intro untouched untouched_read untouched_write assms j)
  show ?thesis unfolding remotePacketProcess_def by (intro untouched SWD JTAG GEN HL assms)
qed

text \<open>
  C39. The controller of the file's debug port is NULL from the start and nothing in the file sets it: no
  sequence of remote-control packets, however long and whatever they hold, reaches the lines of a target,
  and the packets that would set a transport up do not return.
\<close>

theorem remote_never_set_up:
  assumes "remote_reach E (remote_dp_init c w) s" and "\<not> re_fault E w"
  shows "rd_line s = w \<and> rd_link s = None \<and> remotePacketProcess E 2 (str ''SS'' @ 0 # rest) s = None \<and>
    remotePacketProcess E 2 (str ''JS'' @ 0 # rest) s = None"
proof -
  have "not_set_up E w s" using assms(1)
  proof induction
    case start
    then show ?case by (simp add: not_set_up_def remote_dp_init_def)
  next
    case (packet s i p r s')
    with untouched_process [OF packet.IH assms(2), of i p] show ?case by (simp add: untouched_def)
  qed
  then show ?thesis
    by (simp add: not_set_up_def remotePacketProcess_def remotePacketProcessSWD_def remotePacketProcessJTAG_def char_at_def)
qed

subsection \<open>Memory over high-level packets\<close>

text \<open>The conversion in one buffer never overwrites a digit before it is read, if the destination is not
  behind the digits.\<close>

lemma unhexify_step: "unhexify (h # l # hex) (Suc n) = map_option (\<lambda>bs. (push_bit 4 (unhex_digit h) OR unhex_digit l) # bs) (unhexify hex n)"
  by simp

lemma unhexify_in_place_correct:
  assumes "unhexify (drop src packet) n = Some bs" "dst \<le> src"
  shows "unhexify_in_place n dst src packet = Some (take dst packet @ bs @ drop (dst + n) packet)"
  using assms
proof (induction n arbitrary: dst src packet bs)
  case 0
  then show ?case by simp
next
  case (Suc n)
  obtain h l hex where d: "drop src packet = h # l # hex"
    using Suc.prems(1) by (cases "drop src packet" rule: remdups_adj.cases) auto
  then have "length packet - src = Suc (Suc (length hex))" by (metis length_drop length_Cons)
  then have len: "src + 1 < length packet" by simp
  have hl: "packet ! src = h" "packet ! (src + 1) = l"
    using len arg_cong [OF d, of "\<lambda>xs. xs ! 0"] arg_cong [OF d, of "\<lambda>xs. xs ! 1"] by simp_all
  have hex: "hex = drop (src + 2) packet" using arg_cong [OF d, of "drop 2"] by (simp add: add.commute)
  define b where "b = push_bit 4 (unhex_digit h) OR unhex_digit l"
  from Suc.prems(1) obtain bs' where bs: "unhexify hex n = Some bs'" "bs = b # bs'" unfolding d unhexify_step b_def by auto
  have n: "length bs' = n" by (rule unhexify_length [OF bs(1)])
  have dst: "dst < length packet" using Suc.prems(2) len by simp
  have p: "drop (src + 2) (packet[dst := b]) = hex" using Suc.prems(2) by (simp add: hex drop_update_cancel)
  have e: "unhexify_in_place (Suc n) dst src packet = unhexify_in_place n (dst + 1) (src + 2) (packet[dst := b])"
    using len dst hl Suc.prems(2) by (simp add: char_at_def put_at_def b_def)
  from Suc.IH [of "src + 2" "packet[dst := b]" bs' "dst + 1"] bs(1) [unfolded hex] Suc.prems(2)
  have "unhexify_in_place n (dst + 1) (src + 2) (packet[dst := b]) =
      Some (take (dst + 1) (packet[dst := b]) @ bs' @ drop (dst + 1 + n) (packet[dst := b]))" by (simp add: p hex)
  moreover have "take (dst + 1) (packet[dst := b]) = take dst packet @ [b]" using dst by (simp add: take_Suc_conv_app_nth)
  moreover have "drop (dst + 1 + n) (packet[dst := b]) = drop (dst + Suc n) packet" by (simp add: drop_update_cancel)
  ultimately show ?case unfolding e by (simp add: bs(2))
qed

lemma pack_append: "align \<noteq> ALIGN_DWORD \<Longrightarrow> 2 ^ align_shift align \<le> length src \<Longrightarrow> pack dest (src @ junk) align = pack dest src align"
  by (cases align; cases src) auto

lemma mem_write_loop_append:
  "align \<noteq> ALIGN_DWORD \<Longrightarrow> n * 2 ^ align_shift align \<le> length src \<Longrightarrow>
    mem_write_loop D align n odest dest (src @ junk) w = mem_write_loop D align n odest dest src w"
proof (induction n arbitrary: odest dest src w)
  case (Suc n)
  then have l: "2 ^ align_shift align \<le> length src" "n * 2 ^ align_shift align \<le> length (drop (2 ^ align_shift align) src)" by simp_all
  have "mem_write_loop D align n od d (drop (2 ^ align_shift align) src @ junk) = mem_write_loop D align n od d (drop (2 ^ align_shift align) src)" for od d
    by (rule ext) (rule Suc.IH [OF Suc.prems(1) l(2)])
  then show ?case using Suc.prems(1) l(1) by (simp add: pack_append Let_def cong: if_cong option.case_cong)
qed simp

lemma sized_write_run:
  assumes "mem_port_ok (ap_apsel ap) D st" "ap_csw ap AND 0x37 = 0" "\<not> mp_fault (st w)" "length data < 2 ^ 32"
    "align \<noteq> ALIGN_DWORD" "length data mod 2 ^ align_shift align = 0" "aligned dest (align_shift align)"
  shows "\<exists>w'. firmware_mem_write_sized D ap dest (data @ junk) (length data) align w = Some (Inr (), w') \<and>
    mp_mem (st w') = poke (mp_mem (st w)) dest data \<and> \<not> mp_fault (st w')"
proof -
  have n: "length data div 2 ^ align_shift align * 2 ^ align_shift align = length data" using assms(6) by auto
  from setup_streams [OF assms(1,2,5,3)] obtain w1 where w1: "ap_mem_access_setup D ap dest align w = Some (Inr (), w1)"
    "streaming (ap_apsel ap) (align_shift align) (st w1)" "mp_tar (st w1) = dest" "mp_mem (st w1) = mp_mem (st w)" by metis
  from write_loop_pokes [OF assms(1,5) refl w1(2) assms(7) w1(3) refl n] assms(4) show ?thesis
    using w1 n by (auto simp: firmware_mem_write_sized_def mem_write_loop_append [OF assms(5)])
qed

text \<open>The packets as the host prints them.\<close>

definition packet_Hm :: "u8 \<Rightarrow> u8 \<Rightarrow> u32 \<Rightarrow> align \<Rightarrow> u32 \<Rightarrow> u8 list \<Rightarrow> u8 list" where
  "packet_Hm jd apsel csw align dest data =
     str ''Hm'' @ fmt_hex 2 (ucast jd) @ fmt_hex 2 (ucast apsel) @ fmt_hex 8 (ucast csw) @
     fmt_hex 2 (word_of_nat (align_shift align)) @ fmt_hex 8 (ucast dest) @ fmt_hex 8 (word_of_nat (length data)) @ hexify_loop data"

definition packet_HM :: "u8 \<Rightarrow> u8 \<Rightarrow> u32 \<Rightarrow> u32 \<Rightarrow> nat \<Rightarrow> u8 list" where
  "packet_HM jd apsel csw address n =
     str ''HM'' @ fmt_hex 2 (ucast jd) @ fmt_hex 2 (ucast apsel) @ fmt_hex 8 (ucast csw) @ fmt_hex 8 (ucast address) @ fmt_hex 8 (word_of_nat n)"

lemma ucast_field: "(ucast (take_bit 8 (ucast (x :: u8)) :: u64) :: u8) = x" "(ucast (take_bit 32 (ucast (y :: u32)) :: u64) :: u32) = y"
  by (rule bit_word_eqI; auto simp: bit_simps)+

lemma length_field: "n < 2 ^ 32 \<Longrightarrow> unat (ucast (take_bit 32 (word_of_nat n :: u64)) :: u32) = n"
  by (simp add: unsigned_ucast_eq unsigned_take_bit_eq unsigned_of_nat take_bit_nat_eq_self)

lemma field_at: "drop k packet = fmt_hex n v @ rest \<Longrightarrow> remotehston n (drop k packet) = Some (take_bit (4 * n) v)"
  by (simp add: hston_field)

lemma align_constant_shift: "align_constant (ucast (take_bit 8 (word_of_nat (align_shift align) :: u64))) = Some align"
  by (cases align) (simp_all add: align_constant_def)

lemma packet_Hm_fields:
  assumes "packet = packet_Hm jd apsel csw align dest data @ rest"
  shows "char_at packet 0 = Some (ch CHR ''H'')" "char_at packet 1 = Some (ch CHR ''m'')"
    "drop 2 packet = fmt_hex 2 (ucast jd) @ drop 4 packet" "drop 4 packet = fmt_hex 2 (ucast apsel) @ drop 6 packet"
    "drop 6 packet = fmt_hex 8 (ucast csw) @ drop 14 packet" "drop 14 packet = fmt_hex 2 (word_of_nat (align_shift align)) @ drop 16 packet"
    "drop 16 packet = fmt_hex 8 (ucast dest) @ drop 24 packet" "drop 24 packet = fmt_hex 8 (word_of_nat (length data)) @ drop 32 packet"
    "drop 32 packet = hexify_loop data @ rest"
  unfolding assms packet_Hm_def by (simp_all add: char_at_def del: fmt_hex.simps)

lemma packet_HM_fields:
  assumes "packet = packet_HM jd apsel csw address n @ rest"
  shows "char_at packet 0 = Some (ch CHR ''H'')" "char_at packet 1 = Some (ch CHR ''M'')"
    "drop 2 packet = fmt_hex 2 (ucast jd) @ drop 4 packet" "drop 4 packet = fmt_hex 2 (ucast apsel) @ drop 6 packet"
    "drop 6 packet = fmt_hex 8 (ucast csw) @ drop 14 packet" "drop 14 packet = fmt_hex 8 (ucast address) @ drop 22 packet"
    "drop 22 packet = fmt_hex 8 (word_of_nat n) @ rest"
  unfolding assms packet_HM_def by (simp_all add: char_at_def del: fmt_hex.simps)

lemma reply_prints:
  assumes "prints ok rx tx sent f msg" "ok (rd_chan s)"
  obtains c where "reply f packet s = return packet (s\<lparr>rd_chan := c\<rparr>)" "ok c" "tx c = tx (rd_chan s) @ msg" "sent c = tx c"
  using assms by (auto simp: prints_def reply_def)

lemma on_line_run: "f (rd_line s) = Some (Inr x, w) \<Longrightarrow> on_line f s = return x (s\<lparr>rd_line := w\<rparr>)"
  by (simp add: on_line_def return_def)

text \<open>A state with a transport behind which there is a memory access port.\<close>

definition remote_linked :: "('c, 'w) remote_env \<Rightarrow> u8 \<Rightarrow> u8 \<Rightarrow> ('w \<Rightarrow> mem_port) \<Rightarrow> ('c, 'w) remote \<Rightarrow> bool" where
  "remote_linked E jd apsel st s \<longleftrightarrow> (\<exists>l. rd_link s = Some l \<and> mem_port_ok apsel (re_dp E l jd) st) \<and>
     (\<forall>w. re_fault E w = mp_fault (st w)) \<and> \<not> mp_fault (st (rd_line s))"

lemma remote_linkedD:
  assumes "remote_linked E jd apsel st s"
  shows "mem_port_ok apsel (link_dp E (s\<lparr>rd_jd_index := jd\<rparr>)) st" "re_fault E w = mp_fault (st w)" "\<not> mp_fault (st (rd_line s))"
  using assms by (auto simp: remote_linked_def link_dp_def)

lemma zero_digits: "param_digits 0 = [ch CHR ''0'']"
  by (simp add: param_digits.simps [of 0] NTOH_def)

lemma run_packet_Hm:
  assumes g: "gdb_channel (re_io E) ok rx tx sent" and s: "ok (rd_chan s)" "remote_linked E jd apsel st s"
    and ap: "csw AND 0x37 = 0" and al: "align \<noteq> ALIGN_DWORD" "length data mod 2 ^ align_shift align = 0" "aligned dest (align_shift align)"
    and d: "length data < 2 ^ 32" "re_src E \<le> 7" and p: "packet = packet_Hm jd apsel csw align dest data @ rest"
  shows "\<exists>packet' s'. remotePacketProcess E i packet s = Some (Inr packet', s') \<and> ok (rd_chan s') \<and> remote_linked E jd apsel st s' \<and>
    mp_mem (st (rd_line s')) = poke (mp_mem (st (rd_line s))) dest data \<and> length packet' = length packet \<and>
    tx (rd_chan s') = tx (rd_chan s) @ str ''&K0#'' \<and> sent (rd_chan s') = tx (rd_chan s')"
proof -
  note f = packet_Hm_fields [OF p]
  let ?s = "s\<lparr>rd_jd_index := jd\<rparr>" and ?ap = "(re_stack_ap E)\<lparr>ap_apsel := apsel, ap_csw := csw\<rparr>"
  have len: "(ucast (take_bit 32 (word_of_nat (length data) :: u64)) :: u32) AND mask (align_shift align) = 0"
  proof -
    define x where "x = (ucast (take_bit 32 (word_of_nat (length data) :: u64)) :: u32)"
    have "unat (x AND mask (align_shift align)) = unat x mod 2 ^ align_shift align" unfolding take_bit_eq_mask [symmetric] by (rule unat_take_bit)
    then show ?thesis using al(2) length_field [OF d(1)] by (simp add: unat_eq_zero flip: x_def)
  qed
  let ?packet = "take (re_src E) packet @ data @ drop (re_src E + length data) packet"
  have u: "unhexify_in_place (length data) (re_src E) 32 packet = Some ?packet"
    by (rule unhexify_in_place_correct) (use d(2) in \<open>simp_all add: f(9) unhexify_hexify_loop\<close>)
  have src: "re_src E \<le> length packet" using d(2) by (simp add: p packet_Hm_def)
  from sized_write_run [where ap = ?ap and D = "link_dp E ?s" and st = st and w = "rd_line s", OF _ _ _ d(1) al, of "drop (re_src E + length data) packet"]
  obtain w where w: "firmware_mem_write_sized (link_dp E ?s) ?ap dest (data @ drop (re_src E + length data) packet) (length data) align (rd_line s) = Some (Inr (), w)"
    "mp_mem (st w) = poke (mp_mem (st (rd_line s))) dest data" "\<not> mp_fault (st w)"
    using remote_linkedD [OF s(2)] ap by auto
  let ?t = "?s\<lparr>rd_line := w\<rparr>"
  have t: "ok (rd_chan ?t)" using s(1) by simp
  from reply_prints [OF gdb_channel.respond_prints [OF g, of REMOTE_RESP_OK 0] t] obtain c where
    c: "reply (respond (re_io E) REMOTE_RESP_OK 0) ?packet ?t = return ?packet (?t\<lparr>rd_chan := c\<rparr>)" "ok c"
      "tx c = tx (rd_chan ?t) @ response_frame REMOTE_RESP_OK (rev (param_digits 0))" "sent c = tx c" by blast
  have a: "(re_stack_ap E)\<lparr>ap_apsel := apsel\<rparr>\<lparr>ap_csw := csw\<rparr> = ?ap" by simp
  have "remote_mem_write E ?ap 14 packet ?s = return ?packet (?t\<lparr>rd_chan := c\<rparr>)"
    unfolding remote_mem_write_def Let_def
    using w remote_linkedD(2) [OF s(2)] src c(1)
    by (simp add: field_at [OF f(6)] field_at [OF f(7)] field_at [OF f(8)] align_constant_shift len length_field [OF d(1)] u ucast_field
        on_line_run [of "firmware_mem_write_sized _ _ _ _ _ _"])
  then have r: "remotePacketProcess E i packet s = return ?packet (?t\<lparr>rd_chan := c\<rparr>)"
    by (simp add: remotePacketProcess_def remotePacketProcessHL_def f(1) f(2) [unfolded One_nat_def] field_at [OF f(3)] field_at [OF f(4)] field_at [OF f(5)] ucast_field)
  have "remote_linked E jd apsel st (?t\<lparr>rd_chan := c\<rparr>)" using s(2) w(3) by (simp add: remote_linked_def)
  moreover have "length ?packet = length packet"
  proof -
    have "re_src E + length data \<le> length packet" using d(2) by (simp add: p packet_Hm_def)
    then show ?thesis by simp
  qed
  ultimately show ?thesis unfolding r return_def using c(2-4) w(2)
    by (simp add: response_frame_def REMOTE_RESP_def REMOTE_RESP_OK_def REMOTE_EOM_def zero_digits)
qed

lemma run_packet_HM:
  assumes g: "gdb_channel (re_io E) ok rx tx sent" and s: "ok (rd_chan s)" "remote_linked E jd apsel st s"
    and ap: "csw AND 0x37 = 0" and d: "0 < n" "n < 2 ^ 32" "re_src E + n \<le> length packet" and p: "packet = packet_HM jd apsel csw address n @ rest"
  shows "\<exists>packet' s'. remotePacketProcess E i packet s = Some (Inr packet', s') \<and> ok (rd_chan s') \<and>
    mp_mem (st (rd_line s')) = mp_mem (st (rd_line s)) \<and>
    tx (rd_chan s') = tx (rd_chan s) @ str ''&K'' @ hexify_loop (mem_bytes (mp_mem (st (rd_line s))) address n) @ str ''#'' \<and>
    sent (rd_chan s') = tx (rd_chan s')"
proof -
  note f = packet_HM_fields [OF p]
  let ?s = "s\<lparr>rd_jd_index := jd\<rparr>" and ?ap = "(re_stack_ap E)\<lparr>ap_apsel := apsel, ap_csw := csw\<rparr>"
  let ?bs = "mem_bytes (mp_mem (st (rd_line s))) address n"
  have l: "length ?bs = n" by (simp add: mem_bytes_def)
  from mem_read_run [where ap = ?ap and D = "link_dp E ?s" and st = st and w = "rd_line s" and src = address and len = n]
  obtain w where w: "firmware_mem_read (link_dp E ?s) ?ap address n (rd_line s) = Some (Inr ?bs, w)"
    "mp_mem (st w) = mp_mem (st (rd_line s))" "\<not> mp_fault (st w)"
    using remote_linkedD [OF s(2)] ap by auto
  let ?t = "?s\<lparr>rd_line := w\<rparr>"
  let ?packet = "take (re_src E) packet @ ?bs @ drop (re_src E + n) packet"
  have t: "ok (rd_chan ?t)" using s(1) by simp
  have b: "drop (re_src E) ?packet = ?bs @ drop (re_src E + n) packet" using d(3) by simp
  have m: "max 1 n \<le> length (drop (re_src E) ?packet)" using d(1) unfolding b by (simp add: l)
  have e: "take (max 1 n) (drop (re_src E) ?packet) = ?bs" using d(1) unfolding b by (simp add: l max_def)
  from reply_prints [OF gdb_channel.respond_buf_prints [OF g m, of REMOTE_RESP_OK] t, where packet = ?packet] obtain c where
    c: "reply (respond_buf (re_io E) REMOTE_RESP_OK (drop (re_src E) ?packet) n) ?packet ?t = return ?packet (?t\<lparr>rd_chan := c\<rparr>)" "ok c"
      "tx c = tx (rd_chan ?t) @ response_frame REMOTE_RESP_OK (hexify_loop ?bs)" "sent c = tx c"
    unfolding e by blast
  have "remote_mem_read E ?ap 14 packet ?s = return ?packet (?t\<lparr>rd_chan := c\<rparr>)"
    unfolding remote_mem_read_def Let_def
    using w remote_linkedD(2) [OF s(2)] d(3) c(1)
    by (simp add: field_at [OF f(6)] hston_field f(7) length_field [OF d(2)] ucast_field l on_line_run [of "firmware_mem_read _ _ _ _"])
  then have r: "remotePacketProcess E i packet s = return ?packet (?t\<lparr>rd_chan := c\<rparr>)"
    by (simp add: remotePacketProcess_def remotePacketProcessHL_def f(1) f(2) [unfolded One_nat_def] field_at [OF f(3)] field_at [OF f(4)] field_at [OF f(5)] ucast_field)
  show ?thesis unfolding r return_def using c(2-4) w(2)
    by (simp add: response_frame_def REMOTE_RESP_def REMOTE_RESP_OK_def REMOTE_EOM_def)
qed


subsection \<open>A concrete environment\<close>

definition demo_remote_env :: "(fifo gdb_if, mem_port) remote_env" where
  "demo_remote_env = \<lparr>re_io = gdb_if_ops fifo_ops, re_seq = \<lparr>sw_seq_out = (\<lambda>v n w. w), sw_seq_out_parity = (\<lambda>v n w. w),
     sw_seq_in = (\<lambda>n w. (0, w)), sw_seq_in_parity = (\<lambda>n w. ((False, 0), w)), sw_time = (\<lambda>w. (0, w))\<rparr>,
     re_dp = (\<lambda>l jd. ideal_dp), re_fault = mp_fault, re_clear_fault = (\<lambda>p. p\<lparr>mp_fault := False\<rparr>), re_jtagtap_init = id,
     re_voltage = str ''not supported'', re_ident = str ''(RubyLink) #1'', re_stack_ap = demo_ap, re_src = 4\<rparr>"

definition demo_remote :: "(fifo gdb_if, mem_port) remote" where
  "demo_remote = \<lparr>rd_tc = True, rd_seq = True, rd_link = Some Via_SWD, rd_jd_index = 0, rd_chan = demo_if [], rd_line = demo_port\<rparr>"

lemma demo_remote_channel:
  "gdb_channel (re_io demo_remote_env) gdb_if_ok (gdb_if_rx fifo_future) (gdb_if_tx fifo_delivered) (gdb_if_sent fifo_delivered)"
  by (simp add: demo_remote_env_def demo_if_channel)

lemma demo_remote_ok: "gdb_if_ok (rd_chan demo_remote)" "remote_linked demo_remote_env 0 1 id demo_remote"
  by (simp_all add: demo_remote_def demo_remote_env_def remote_linked_def ideal_dp_ok demo_port_def)


text \<open>The identification, in which a \<open>#\<close> is replaced.\<close>

theorem remote_packet_answered_witness:
  "\<exists>packet' s' f. remotePacketProcess demo_remote_env 2 (str ''GA'' @ [0]) demo_remote = Some (Inr packet', s') \<and>
    gdb_if_tx fifo_delivered (rd_chan s') = gdb_if_tx fifo_delivered (rd_chan demo_remote) @ f \<and> is_response f"
proof -
  have e: "remotePacketProcess demo_remote_env 2 (str ''GA'' @ [0]) s = reply (respondS (re_io demo_remote_env) REMOTE_RESP_OK (re_ident demo_remote_env)) (str ''GA'' @ [0]) s" for s
    by (simp add: remotePacketProcess_def remotePacketProcessGEN_def char_at_def)
  from gdb_channel.respondS_prints [OF demo_remote_channel] demo_remote_ok(1) obtain c where
    "respondS (re_io demo_remote_env) REMOTE_RESP_OK (re_ident demo_remote_env) (rd_chan demo_remote) = Some c" unfolding prints_def by blast
  then have r: "remotePacketProcess demo_remote_env 2 (str ''GA'' @ [0]) demo_remote = Some (Inr (str ''GA'' @ [0]), demo_remote\<lparr>rd_chan := c\<rparr>)"
    unfolding e reply_def return_def by simp
  have "\<not> unanswered (str ''GA'' @ [0])" by (simp add: unanswered_def)
  with remote_packet_answered [OF demo_remote_channel demo_remote_ok(1) r] r show ?thesis by (simp del: str_Cons) blast
qed

theorem remote_never_set_up_witness:
  "\<exists>s. remote_reach demo_remote_env (remote_dp_init (demo_if []) demo_port) s \<and> rd_jd_index s = 0 \<and> rd_line s = demo_port \<and>
     remotePacketProcess demo_remote_env 2 (str ''SS'' @ 0 # []) s = None"
proof -
  let ?s = "remote_dp_init (demo_if []) demo_port :: (fifo gdb_if, mem_port) remote"
  have "\<not> re_fault demo_remote_env demo_port" by (simp add: demo_remote_env_def demo_port_def)
  from remote_never_set_up [OF remote_reach.start [of demo_remote_env ?s] this, of "[]"] show ?thesis
    by (intro exI [of _ ?s] conjI remote_reach.start) (simp_all add: remote_dp_init_def)
qed

end
