(* ===== verification/Lpc_Common.thy ===== *)
theory Lpc_Common
  imports Target_Access Crc32
begin

unbundle bit_operations_syntax

text \<open>
  \<open>src/src/target/lpc_common.c\<close>: flash of the LPC families. The ROM of the chip has a routine that erases and
  programs (``in-application programming''); the driver puts a block of parameters into RAM, points the core
  at the routine and lets it run into a breakpoint. The target is an object of \<open>Target\<close>, so that what is
  shown here holds over every driver of the core that meets the same contract.
\<close>

subsection \<open>Definitions\<close>

abbreviation (input) IAP_CMD_PREPARE :: u32 where "IAP_CMD_PREPARE \<equiv> 50"
abbreviation (input) IAP_CMD_PROGRAM :: u32 where "IAP_CMD_PROGRAM \<equiv> 51"
abbreviation (input) IAP_CMD_ERASE :: u32 where "IAP_CMD_ERASE \<equiv> 52"
abbreviation (input) IAP_CMD_BLANKCHECK :: u32 where "IAP_CMD_BLANKCHECK \<equiv> 53"
abbreviation (input) IAP_CMD_ERASE_PAGE :: u32 where "IAP_CMD_ERASE_PAGE \<equiv> 59"
abbreviation (input) CPU_CLK_KHZ :: u32 where "CPU_CLK_KHZ \<equiv> 12000"
abbreviation (input) LPX80X_SECTOR_SIZE :: u32 where "LPX80X_SECTOR_SIZE \<equiv> 0x400"
abbreviation (input) LPX80X_PAGE_SIZE :: u32 where "LPX80X_PAGE_SIZE \<equiv> 0x40"

text \<open>\<open>struct lpc_flash\<close>: the fields of \<open>f\<close> that the code reads, and the driver's.\<close>

record 'w lpc_flash =
  lf_start :: u32
  lf_length :: u32
  lf_blocksize :: u32
  lf_target :: "'w target_s"
  base_sector :: u8
  lf_bank :: u8
  reserved_pages :: u8
  wdt_kick :: "('w \<Rightarrow> 'w option) option"
  iap_entry :: u32
  iap_ram :: u32
  iap_msp :: u32

text \<open>\<open>struct flash_param\<close> as it lies in RAM: opcode and padding, command, four words, status, four results.\<close>

definition flash_param :: "u32 \<Rightarrow> u32 list \<Rightarrow> u8 list" where
  "flash_param command words =
     le_bytes 2 0xBE00 @ le_bytes 2 0 @ le_bytes 4 (unat command) @ concat (map (\<lambda>x. le_bytes 4 (unat x)) words) @ replicate 20 0"

definition param_status :: "u8 list \<Rightarrow> u32" where
  "param_status p = word_of_nat (le_word (take 4 (drop 24 p)))"

definition param_result :: "u8 list \<Rightarrow> u8 list" where
  "param_result p = drop 28 p"

text \<open>The registers are an array of words; the last one that the code names is number 17.\<close>

definition set_reg :: "nat \<Rightarrow> u32 \<Rightarrow> u8 list \<Rightarrow> u8 list" where
  "set_reg i v regs = splice_at regs (4 * i) (le_bytes 4 (unat v))"

definition iap_regs :: "'w lpc_flash \<Rightarrow> u8 list \<Rightarrow> u8 list" where
  "iap_regs f regs = set_reg 15 (iap_entry f) (set_reg 14 (iap_ram f OR 1) (set_reg 17 (iap_msp f)
     (set_reg 1 (iap_ram f + 24) (set_reg 0 (iap_ram f + 4) regs))))"

partial_function (option) wait_halted :: "'w target_s \<Rightarrow> 'w \<Rightarrow> 'w option" where
  "wait_halted t w =
     do { ((reason, watch), w) \<leftarrow> target_halt_poll t w;
          if reason = TARGET_HALT_RUNNING then wait_halted t w else Some w }"

text \<open>The arguments that a caller leaves out are read all the same: \<open>rest\<close> is what lies there. A status of 34
  is the index behind the last text of \<open>iap_error\<close>.\<close>

definition lpc_iap_call :: "'w lpc_flash \<Rightarrow> u32 list \<Rightarrow> u32 \<Rightarrow> u32 list \<Rightarrow> 'w \<Rightarrow> ((u32 \<times> u8 list) \<times> 'w) option" where
  "lpc_iap_call f rest command args w =
     (let t = lf_target f in
      if t_regs_size t mod 4 \<noteq> 0 \<or> t_regs_size t \<le> 4 * 17 then None
      else do {
        w \<leftarrow> (case wdt_kick f of None \<Rightarrow> Some w | Some kick \<Rightarrow> kick w);
        ((e, backup_param), w) \<leftarrow> target_mem_read t (iap_ram f) 44 w;
        (backup_regs, w) \<leftarrow> target_regs_read t w;
        (e, w) \<leftarrow> target_mem_write t (iap_ram f) (flash_param command (take 4 (args @ rest))) w;
        (regs, w) \<leftarrow> target_regs_read t w;
        w \<leftarrow> target_regs_write t (iap_regs f regs) w;
        w \<leftarrow> target_halt_resume t False w;
        w \<leftarrow> wait_halted t w;
        ((e, param), w) \<leftarrow> target_mem_read t (iap_ram f) 44 w;
        (e, w) \<leftarrow> target_mem_write t (iap_ram f) backup_param w;
        w \<leftarrow> target_regs_write t backup_regs w;
        if param_status param = 34 then None else Some ((param_status param, param_result param), w) })"

definition lpc_sector_for_addr :: "'w lpc_flash \<Rightarrow> u32 \<Rightarrow> u8" where
  "lpc_sector_for_addr f addr = ucast (ucast (base_sector f) + (addr - lf_start f) div lf_blocksize f :: u32)"

text \<open>A call of which only the status counts.\<close>

definition iap_fails :: "'w lpc_flash \<Rightarrow> u32 list \<Rightarrow> u32 \<Rightarrow> u32 list \<Rightarrow> 'w \<Rightarrow> (bool \<times> 'w) option" where
  "iap_fails f rest command args w = do { ((status, result), w) \<leftarrow> lpc_iap_call f rest command args w; Some (status \<noteq> 0, w) }"

definition lpc_flash_erase :: "u32 list \<Rightarrow> 'w lpc_flash \<Rightarrow> u32 \<Rightarrow> u32 \<Rightarrow> 'w \<Rightarrow> (int \<times> 'w) option" where
  "lpc_flash_erase rest f addr len w =
     (let start = ucast (lpc_sector_for_addr f addr) :: u32;
          end_sector = ucast (lpc_sector_for_addr f (addr + len - 1)) :: u32;
          last_full_sector = (if reserved_pages f \<noteq> 0 \<and> addr + len \<ge> lf_length f - 0x400 then end_sector - 1 else end_sector);
          bank = ucast (lf_bank f) :: u32
      in do {
        (fail, w) \<leftarrow> iap_fails f rest IAP_CMD_PREPARE [start, end_sector, bank] w;
        if fail then Some (-1, w) else do {
          (r, w) \<leftarrow> (if start \<le> last_full_sector
             then do {
               (fail, w) \<leftarrow> iap_fails f rest IAP_CMD_ERASE [start, last_full_sector, CPU_CLK_KHZ, bank] w;
               if fail then Some (-2, w) else do {
                 (fail, w) \<leftarrow> iap_fails f rest IAP_CMD_BLANKCHECK [start, last_full_sector, bank] w;
                 Some (if fail then -3 else 0, w) } }
             else Some (0, w));
          if r \<noteq> 0 then Some (r, w)
          else if last_full_sector = end_sector then Some (0, w)
          else do {
            let page_start = (addr + len - LPX80X_SECTOR_SIZE) div LPX80X_PAGE_SIZE;
            let page_end = page_start + LPX80X_SECTOR_SIZE div LPX80X_PAGE_SIZE - 1 - ucast (reserved_pages f);
            (fail, w) \<leftarrow> iap_fails f rest IAP_CMD_PREPARE [end_sector, end_sector, bank] w;
            if fail then Some (-1, w) else do {
              (fail, w) \<leftarrow> iap_fails f rest IAP_CMD_ERASE_PAGE [page_start, page_end, CPU_CLK_KHZ, bank] w;
              Some (if fail then -2 else 0, w) } } } })"

text \<open>The pages of the top sector; a length that is no multiple of the page size wraps.\<close>

partial_function (option) lpc_write_pages :: "u32 list \<Rightarrow> 'w lpc_flash \<Rightarrow> u32 \<Rightarrow> u32 \<Rightarrow> u32 \<Rightarrow> u32 \<Rightarrow> 'w \<Rightarrow> (int \<times> 'w) option" where
  "lpc_write_pages rest f sector dest bufaddr len w =
     (if len = 0 then Some (0, w)
      else do {
        (fail, w) \<leftarrow> iap_fails f rest IAP_CMD_PREPARE [sector, sector, ucast (lf_bank f)] w;
        if fail then Some (-1, w) else do {
          (fail, w) \<leftarrow> iap_fails f rest IAP_CMD_PROGRAM [dest, bufaddr, LPX80X_PAGE_SIZE, CPU_CLK_KHZ] w;
          if fail then Some (-2, w)
          else lpc_write_pages rest f sector (dest + LPX80X_PAGE_SIZE) (bufaddr + LPX80X_PAGE_SIZE) (len - LPX80X_PAGE_SIZE) w } })"

definition iap_buffer :: "'w lpc_flash \<Rightarrow> u32" where
  "iap_buffer f = (iap_ram f + 44 + 3) AND NOT 3"

definition lpc_flash_write :: "u32 list \<Rightarrow> 'w lpc_flash \<Rightarrow> u32 \<Rightarrow> u8 list \<Rightarrow> 'w \<Rightarrow> (int \<times> 'w) option" where
  "lpc_flash_write rest f dest src w =
     (let sector = ucast (lpc_sector_for_addr f dest) :: u32;
          len = word_of_nat (length src) :: u32;
          bufaddr = iap_buffer f
      in do {
        (fail, w) \<leftarrow> iap_fails f rest IAP_CMD_PREPARE [sector, sector, ucast (lf_bank f)] w;
        if fail then Some (-1, w) else do {
          (e, w) \<leftarrow> target_mem_write (lf_target f) bufaddr src w;
          if reserved_pages f = 0 \<or> dest + len \<le> lf_length f - len
          then do { (fail, w) \<leftarrow> iap_fails f rest IAP_CMD_PROGRAM [dest, bufaddr, len, CPU_CLK_KHZ] w;
                    Some (if fail then -2 else 0, w) }
          else lpc_write_pages rest f sector dest bufaddr (len - 0x40 * ucast (reserved_pages f)) w } })"

text \<open>The buffer is changed in place; \<open>None\<close>: it has no eight words.\<close>

definition word_at :: "u8 list \<Rightarrow> nat \<Rightarrow> u32" where
  "word_at bs i = word_of_nat (le_word (take 4 (drop (4 * i) bs)))"

definition magic_vector :: "u8 list \<Rightarrow> u8 list option" where
  "magic_vector src =
     (if length src < 32 then None
      else let sum = foldl (\<lambda>sum i. sum + word_at src i) 0 [0..<7]
           in Some (splice_at src 28 (le_bytes 4 (unat (NOT sum + 1)))))"

definition lpc_flash_write_magic_vect :: "u32 list \<Rightarrow> 'w lpc_flash \<Rightarrow> u32 \<Rightarrow> u8 list \<Rightarrow> 'w \<Rightarrow> (int \<times> 'w) option" where
  "lpc_flash_write_magic_vect rest f dest src w =
     (if dest = 0 then do { src \<leftarrow> magic_vector src; lpc_flash_write rest f dest src w }
      else lpc_flash_write rest f dest src w)"

subsection \<open>Memory views\<close>

lemma le_word_u32: "(word_of_nat (le_word (le_bytes 4 (unat (v :: u32)))) :: u32) = v"
proof -
  have "unat v < 2 ^ LENGTH(32)" by (rule unsigned_less)
  then show ?thesis by (simp add: le_word_le_bytes del: le_bytes_numeral)
qed

lemma mem_range_sub: "k + n \<le> length bs \<Longrightarrow> mem_range (overlay m a bs) (a + k) n = take n (drop k bs)"
  by (rule nth_equalityI) (simp_all add: mem_range_def overlay_def)

lemma mem_range_apart: "b + n \<le> a \<or> a + length bs \<le> b \<Longrightarrow> mem_range (overlay m a bs) b n = mem_range m b n"
  by (auto simp: mem_range_def overlay_def)

lemma mem_range_all: "mem_range (overlay m a bs) a (length bs) = bs"
  using mem_range_sub [of 0 "length bs" bs m a] by simp

lemma length_mem_range [simp]: "length (mem_range m a n) = n"
  by (simp add: mem_range_def)

lemma length_set_reg [simp]: "4 * i + 4 \<le> length regs \<Longrightarrow> length (set_reg i v regs) = length regs"
  by (simp add: set_reg_def)

lemma word_at_set_reg:
  assumes "4 * i + 4 \<le> length regs" "4 * j + 4 \<le> length regs"
  shows "word_at (set_reg i v regs) j = (if i = j then v else word_at regs j)"
proof -
  let ?r = "set_reg i v regs"
  have l: "length ?r = length regs" using assms(1) by simp
  have n: "take 4 (drop (4 * j) ?r) = map (\<lambda>k. ?r ! (4 * j + k)) [0..<4]" "take 4 (drop (4 * j) regs) = map (\<lambda>k. regs ! (4 * j + k)) [0..<4]"
    by (rule nth_equalityI; use assms(2) l in simp)+
  have s: "?r ! (4 * j + k) = (if i = j then le_bytes 4 (unat v) ! k else regs ! (4 * j + k))" if "k < 4" for k
  proof -
    have "4 * i \<le> 4 * j + k \<and> 4 * j + k < 4 * i + 4 \<longleftrightarrow> i = j" using that by presburger
    then show ?thesis unfolding set_reg_def using assms that by (subst nth_splice_at) (auto simp del: le_bytes_numeral)
  qed
  show ?thesis
  proof (cases "i = j")
    case True
    have "map (\<lambda>k. ?r ! (4 * j + k)) [0..<4] = le_bytes 4 (unat v)"
      by (rule nth_equalityI) (use s True in \<open>simp_all del: le_bytes_numeral\<close>)
    with n(1) have "take 4 (drop (4 * j) ?r) = le_bytes 4 (unat v)" by metis
    then show ?thesis using True by (simp add: word_at_def le_word_u32 del: le_bytes_numeral)
  next
    case False
    then have "map (\<lambda>k. ?r ! (4 * j + k)) [0..<4] = map (\<lambda>k. regs ! (4 * j + k)) [0..<4]" by (simp add: s)
    then have "take 4 (drop (4 * j) ?r) = take 4 (drop (4 * j) regs)" unfolding n .
    then show ?thesis using False by (simp add: word_at_def)
  qed
qed

subsection \<open>A call of the ROM\<close>

text \<open>What the rest of the program sees of the target: memory, the image of the registers, and what the ROM
  remembers (the sectors prepared for writing).\<close>

record iap_view =
  iv_mem :: "nat \<Rightarrow> u8"
  iv_regs :: "u8 list"
  iv_latch :: "nat set"

type_synonym iap_routine = "u32 \<Rightarrow> u32 list \<Rightarrow> nat set \<Rightarrow> (nat \<Rightarrow> u8) \<Rightarrow> u32 \<times> u8 list \<times> nat set \<times> (nat \<Rightarrow> u8)"

definition mem_word :: "(nat \<Rightarrow> u8) \<Rightarrow> nat \<Rightarrow> u32" where
  "mem_word m a = word_of_nat (le_word (mem_range m a 4))"

text \<open>The core is about to run the routine on the block of parameters and to return into its breakpoint.\<close>

definition calls_rom :: "'w lpc_flash \<Rightarrow> iap_view \<Rightarrow> bool" where
  "calls_rom f v \<longleftrightarrow> word_at (iv_regs v) 0 = iap_ram f + 4 \<and> word_at (iv_regs v) 1 = iap_ram f + 24 \<and>
     word_at (iv_regs v) 17 = iap_msp f \<and> word_at (iv_regs v) 14 = iap_ram f OR 1 \<and> word_at (iv_regs v) 15 = iap_entry f \<and>
     mem_range (iv_mem v) (unat (iap_ram f)) 2 = [0x00, 0xBE]"

definition rom_runs :: "iap_routine \<Rightarrow> 'w lpc_flash \<Rightarrow> iap_view \<Rightarrow> iap_view \<Rightarrow> bool" where
  "rom_runs iap f v v' \<longleftrightarrow>
     (case iap (mem_word (iv_mem v) (unat (iap_ram f) + 4)) (map (\<lambda>i. mem_word (iv_mem v) (unat (iap_ram f) + 8 + 4 * i)) [0..<4])
         (iv_latch v) (iv_mem v) of
        (status, result, latch, m) \<Rightarrow> length result = 16 \<and> iv_latch v' = latch \<and> length (iv_regs v') = length (iv_regs v) \<and>
          iv_mem v' = overlay m (unat (iap_ram f) + 24) (le_bytes 4 (unat status) @ result))"

text \<open>A number of polls find the core running, then one finds it halted.\<close>

fun polls :: "'w target_s \<Rightarrow> nat \<Rightarrow> 'w \<Rightarrow> 'w \<Rightarrow> bool" where
  "polls t 0 w w' \<longleftrightarrow> (\<exists>reason watch. target_halt_poll t w = Some ((reason, watch), w') \<and> reason \<noteq> TARGET_HALT_RUNNING)"
| "polls t (Suc n) w w' \<longleftrightarrow> (\<exists>watch w1. target_halt_poll t w = Some ((TARGET_HALT_RUNNING, watch), w1) \<and> polls t n w1 w')"

lemma wait_halted_polls: "polls t n w w' \<Longrightarrow> wait_halted t w = Some w'"
  by (induction n arbitrary: w) (subst wait_halted.simps, auto)+

text \<open>The contract: memory and registers hold what is written to them, and a core that is resumed at the
  routine halts after some polls with the routine's effect.\<close>

definition iap_target :: "'w lpc_flash \<Rightarrow> ('w \<Rightarrow> iap_view) \<Rightarrow> iap_routine \<Rightarrow> bool" where
  "iap_target f st iap \<longleftrightarrow> t_regs_size (lf_target f) mod 4 = 0 \<and> 72 \<le> t_regs_size (lf_target f) \<and>
     unat (iap_ram f) + 44 \<le> 2 ^ 32 \<and> (\<forall>w. length (iv_regs (st w)) = t_regs_size (lf_target f)) \<and>
     (\<forall>a n w. \<exists>e w'. target_mem_read (lf_target f) a n w = Some ((e, mem_range (iv_mem (st w)) (unat a) n), w') \<and> st w' = st w) \<and>
     (\<forall>a bs w. \<exists>e w'. target_mem_write (lf_target f) a bs w = Some (e, w') \<and> st w' = st w\<lparr>iv_mem := overlay (iv_mem (st w)) (unat a) bs\<rparr>) \<and>
     (\<forall>w. \<exists>w'. target_regs_read (lf_target f) w = Some (iv_regs (st w), w') \<and> st w' = st w) \<and>
     (\<forall>rs w. length rs = t_regs_size (lf_target f) \<longrightarrow>
        (\<exists>w'. target_regs_write (lf_target f) rs w = Some w' \<and> st w' = st w\<lparr>iv_regs := rs\<rparr>)) \<and>
     (\<forall>kick w. wdt_kick f = Some kick \<longrightarrow> (\<exists>w'. kick w = Some w' \<and> st w' = st w)) \<and>
     (\<forall>w. calls_rom f (st w) \<longrightarrow> (\<exists>w1 n w2. target_halt_resume (lf_target f) False w = Some w1 \<and> polls (lf_target f) n w1 w2 \<and>
        rom_runs iap f (st w) (st w2)))"

lemma iap_targetD:
  assumes "iap_target f st iap"
  shows "t_regs_size (lf_target f) mod 4 = 0" "72 \<le> t_regs_size (lf_target f)" "length (iv_regs (st w)) = t_regs_size (lf_target f)"
    "\<exists>e w'. target_mem_read (lf_target f) a n w = Some ((e, mem_range (iv_mem (st w)) (unat a) n), w') \<and> st w' = st w"
    "\<exists>e w'. target_mem_write (lf_target f) a bs w = Some (e, w') \<and> st w' = st w\<lparr>iv_mem := overlay (iv_mem (st w)) (unat a) bs\<rparr>"
    "\<exists>w'. target_regs_read (lf_target f) w = Some (iv_regs (st w), w') \<and> st w' = st w"
    "length rs = t_regs_size (lf_target f) \<Longrightarrow> \<exists>w'. target_regs_write (lf_target f) rs w = Some w' \<and> st w' = st w\<lparr>iv_regs := rs\<rparr>"
    "\<exists>w'. (case wdt_kick f of None \<Rightarrow> Some w | Some kick \<Rightarrow> kick w) = Some w' \<and> st w' = st w"
    "calls_rom f (st w) \<Longrightarrow> \<exists>w1 n w2. target_halt_resume (lf_target f) False w = Some w1 \<and> polls (lf_target f) n w1 w2 \<and> rom_runs iap f (st w) (st w2)"
proof -
  note T = assms [unfolded iap_target_def]
  show "t_regs_size (lf_target f) mod 4 = 0" by (rule conjunct1 [OF T])
  note T = conjunct2 [OF T]
  show "72 \<le> t_regs_size (lf_target f)" by (rule conjunct1 [OF T])
  note T = conjunct2 [OF conjunct2 [OF T]]
  show "length (iv_regs (st w)) = t_regs_size (lf_target f)" by (rule conjunct1 [OF T, rule_format])
  note T = conjunct2 [OF T]
  show "\<exists>e w'. target_mem_read (lf_target f) a n w = Some ((e, mem_range (iv_mem (st w)) (unat a) n), w') \<and> st w' = st w"
    by (rule conjunct1 [OF T, rule_format])
  note T = conjunct2 [OF T]
  show "\<exists>e w'. target_mem_write (lf_target f) a bs w = Some (e, w') \<and> st w' = st w\<lparr>iv_mem := overlay (iv_mem (st w)) (unat a) bs\<rparr>"
    by (rule conjunct1 [OF T, rule_format])
  note T = conjunct2 [OF T]
  show "\<exists>w'. target_regs_read (lf_target f) w = Some (iv_regs (st w), w') \<and> st w' = st w" by (rule conjunct1 [OF T, rule_format])
  note T = conjunct2 [OF T]
  show "\<exists>w'. target_regs_write (lf_target f) rs w = Some w' \<and> st w' = st w\<lparr>iv_regs := rs\<rparr>" if "length rs = t_regs_size (lf_target f)"
    by (rule conjunct1 [OF T, rule_format]) (rule that)
  note T = conjunct2 [OF T]
  show "\<exists>w'. (case wdt_kick f of None \<Rightarrow> Some w | Some kick \<Rightarrow> kick w) = Some w' \<and> st w' = st w"
    using conjunct1 [OF T, rule_format, of _ w] by (cases "wdt_kick f") simp_all
  show "\<exists>w1 n w2. target_halt_resume (lf_target f) False w = Some w1 \<and> polls (lf_target f) n w1 w2 \<and> rom_runs iap f (st w) (st w2)"
    if "calls_rom f (st w)" by (rule conjunct2 [OF T, rule_format]) (rule that)
qed

lemma flash_param_parts:
  assumes "length words = 4"
  shows "length (flash_param command words) = 44" "take 2 (flash_param command words) = [0x00, 0xBE]"
    "take 4 (drop 4 (flash_param command words)) = le_bytes 4 (unat command)"
    "i < 4 \<Longrightarrow> take 4 (drop (8 + 4 * i) (flash_param command words)) = le_bytes 4 (unat (words ! i))"
proof -
  obtain a b c d where w: "words = [a, b, c, d]" using assms by (auto simp: length_Suc_conv numeral_eq_Suc)
  have b2: "le_bytes 2 0xBE00 = [0x00, 0xBE]" "le_bytes 2 0 = [0, 0]" by simp_all
  show "length (flash_param command words) = 44" "take 2 (flash_param command words) = [0x00, 0xBE]"
    "take 4 (drop 4 (flash_param command words)) = le_bytes 4 (unat command)"
    unfolding flash_param_def w b2 by (simp_all del: le_bytes_numeral)
  show "take 4 (drop (8 + 4 * i) (flash_param command words)) = le_bytes 4 (unat (words ! i))" if "i < 4"
  proof -
    have "i = 0 \<or> i = 1 \<or> i = 2 \<or> i = 3" using that by linarith
    then show ?thesis unfolding flash_param_def w b2 by (elim disjE) (simp_all del: le_bytes_numeral)
  qed
qed

lemma iap_regs_call:
  assumes "72 \<le> length regs" "mem_range m (unat (iap_ram f)) 2 = [0x00, 0xBE]"
  shows "length (iap_regs f regs) = length regs" "calls_rom f \<lparr>iv_mem = m, iv_regs = iap_regs f regs, iv_latch = l\<rparr>"
  using assms by (simp_all add: iap_regs_def calls_rom_def word_at_set_reg)

lemma iap_call_runs:
  assumes "iap_target f st iap" and "length (take 4 (args @ rest)) = 4"
    and "iap command (take 4 (args @ rest)) (iv_latch (st w))
        (overlay (iv_mem (st w)) (unat (iap_ram f)) (flash_param command (take 4 (args @ rest)))) = (status, result, latch, m)"
    and "status \<noteq> 34"
  shows "\<exists>w'. lpc_iap_call f rest command args w = Some ((status, result), w') \<and>
    st w' = \<lparr>iv_mem = overlay m (unat (iap_ram f)) (mem_range (iv_mem (st w)) (unat (iap_ram f)) 44), iv_regs = iv_regs (st w), iv_latch = latch\<rparr>"
proof -
  let ?t = "lf_target f" and ?a = "unat (iap_ram f)"
  let ?p = "flash_param command (take 4 (args @ rest))" and ?rs = "iap_regs f (iv_regs (st w))"
  note T = iap_targetD [OF assms(1)]
  from T(8) [of w] obtain w0 where w0: "(case wdt_kick f of None \<Rightarrow> Some w | Some kick \<Rightarrow> kick w) = Some w0" "st w0 = st w"
    by blast
  from T(4) [of "iap_ram f" 44 w0] w0(2) obtain e1 w1 where w1: "target_mem_read ?t (iap_ram f) 44 w0 = Some ((e1, mem_range (iv_mem (st w)) ?a 44), w1)" "st w1 = st w" by auto
  from T(6) [of w1] w1(2) obtain w2 where w2: "target_regs_read ?t w1 = Some (iv_regs (st w), w2)" "st w2 = st w" by auto
  from T(5) [of "iap_ram f" ?p w2] w2(2) obtain e3 w3 where w3: "target_mem_write ?t (iap_ram f) ?p w2 = Some (e3, w3)"
    "st w3 = st w\<lparr>iv_mem := overlay (iv_mem (st w)) ?a ?p\<rparr>" by auto
  from T(6) [of w3] obtain w4 where "target_regs_read ?t w3 = Some (iv_regs (st w3), w4)" "st w4 = st w3" by auto
  then have w4: "target_regs_read ?t w3 = Some (iv_regs (st w), w4)" "st w4 = st w3" using w3(2) by simp_all
  have l: "length (iv_regs (st w)) = t_regs_size ?t" "72 \<le> length (iv_regs (st w))" using T(2) T(3) [of w] by simp_all
  note p = flash_param_parts [OF assms(2), where command = command]
  have op: "mem_range (overlay (iv_mem (st w)) ?a ?p) ?a 2 = [0x00, 0xBE]" using mem_range_sub [of 0 2 ?p "iv_mem (st w)" ?a] p(1,2) by simp
  note rs = iap_regs_call(1) [OF l(2) op] iap_regs_call(2) [OF l(2) op, where l = "iv_latch (st w)"]
  from T(7) [of ?rs w4] rs(1) l(1) obtain w5 where w5: "target_regs_write ?t ?rs w4 = Some w5" "st w5 = st w4\<lparr>iv_regs := ?rs\<rparr>" by auto
  have v5: "st w5 = \<lparr>iv_mem = overlay (iv_mem (st w)) ?a ?p, iv_regs = ?rs, iv_latch = iv_latch (st w)\<rparr>"
    by (simp add: w5(2) w4(2) w3(2))
  from T(9) [of w5] rs(2) obtain w6 n w7 where w7: "target_halt_resume ?t False w5 = Some w6" "polls ?t n w6 w7" "rom_runs iap f (st w5) (st w7)"
    unfolding v5 [symmetric] by blast
  have c: "mem_word (iv_mem (st w5)) (?a + 4) = command"
    using p(1,3) by (simp add: v5 mem_word_def mem_range_sub le_word_u32 del: le_bytes_numeral)
  have ws: "map (\<lambda>i. mem_word (iv_mem (st w5)) (?a + 8 + 4 * i)) [0..<4] = take 4 (args @ rest)"
  proof (rule nth_equalityI)
    fix i assume "i < length (map (\<lambda>i. mem_word (iv_mem (st w5)) (?a + 8 + 4 * i)) [0..<4])"
    then have i: "i < 4" by simp
    have "mem_word (iv_mem (st w5)) (?a + (8 + 4 * i)) = take 4 (args @ rest) ! i"
      using p(1) p(4) [OF i] i unfolding v5 mem_word_def by (simp add: mem_range_sub le_word_u32 del: le_bytes_numeral)
    then show "map (\<lambda>i. mem_word (iv_mem (st w5)) (?a + 8 + 4 * i)) [0..<4] ! i = take 4 (args @ rest) ! i" using i by (simp add: add.assoc)
  qed (use assms(2) in simp)
  have r: "length result = 16" "iv_latch (st w7) = latch" "length (iv_regs (st w7)) = length (iv_regs (st w))"
    "iv_mem (st w7) = overlay m (?a + 24) (le_bytes 4 (unat status) @ result)"
    using w7(3) assms(3) rs(1) unfolding rom_runs_def c ws by (simp_all add: v5)
  from T(4) [of "iap_ram f" 44 w7] obtain e8 w8 where w8: "target_mem_read ?t (iap_ram f) 44 w7 = Some ((e8, mem_range (iv_mem (st w7)) ?a 44), w8)" "st w8 = st w7" by auto
  from T(5) [of "iap_ram f" "mem_range (iv_mem (st w)) ?a 44" w8] obtain e9 w9 where w9: "target_mem_write ?t (iap_ram f) (mem_range (iv_mem (st w)) ?a 44) w8 = Some (e9, w9)"
    "st w9 = st w8\<lparr>iv_mem := overlay (iv_mem (st w8)) ?a (mem_range (iv_mem (st w)) ?a 44)\<rparr>" by auto
  from T(7) [of "iv_regs (st w)" w9] l(1) obtain w10 where w10: "target_regs_write ?t (iv_regs (st w)) w9 = Some w10" "st w10 = st w9\<lparr>iv_regs := iv_regs (st w)\<rparr>" by auto
  let ?param = "mem_range (iv_mem (st w7)) ?a 44"
  have sp: "?param = mem_range m ?a 24 @ (le_bytes 4 (unat status) @ result)"
    using mem_range_split [of 24 44 "iv_mem (st w7)" ?a] mem_range_apart [of ?a 24 "?a + 24"]
      mem_range_all [of m "?a + 24" "le_bytes 4 (unat status) @ result"] r(1) by (simp add: r(4) del: le_bytes_numeral)
  have st: "param_status ?param = status" "param_result ?param = result"
    unfolding sp by (simp_all add: param_status_def param_result_def le_word_u32 del: le_bytes_numeral)
  have "lpc_iap_call f rest command args w = Some ((status, result), w10)"
    using T(1,2) w0(1) w1(1) w2(1) w3(1) w4(1) w5(1) w7(1) wait_halted_polls [OF w7(2)] w8(1) w9(1) w10(1) assms(4)
    by (simp add: lpc_iap_call_def Let_def st not_le)
  moreover have "overlay (overlay m (?a + 24) (le_bytes 4 (unat status) @ result)) ?a (mem_range (iv_mem (st w)) ?a 44) =
      overlay m ?a (mem_range (iv_mem (st w)) ?a 44)"
    using r(1) by (auto simp: overlay_def fun_eq_iff simp del: le_bytes_numeral)
  ultimately show ?thesis by (simp add: w10(2) w9(2) w8(2) r(2,4))
qed

text \<open>
  C33. A call of the ROM is transparent: if the core runs the routine and comes back into the breakpoint,
  \<open>lpc_iap_call\<close> returns after finitely many polls with the status and the results of the routine for the
  caller's command and words; all registers are as before, memory has the effect of the routine, and the
  block that held the parameters is restored.
\<close>

theorem iap_call_transparent:
  assumes "iap_target f st iap" and "length (take 4 (args @ rest)) = 4"
    and "iap command (take 4 (args @ rest)) (iv_latch (st w))
        (overlay (iv_mem (st w)) (unat (iap_ram f)) (flash_param command (take 4 (args @ rest)))) = (status, result, latch, m)"
    and "status \<noteq> 34"
  shows "\<exists>w'. lpc_iap_call f rest command args w = Some ((status, result), w') \<and>
    st w' = \<lparr>iv_mem = overlay m (unat (iap_ram f)) (mem_range (iv_mem (st w)) (unat (iap_ram f)) 44), iv_regs = iv_regs (st w), iv_latch = latch\<rparr>"
  by (rule iap_call_runs [OF assms])

subsection \<open>Erasing and programming\<close>

text \<open>Agreement of two memories outside a set: what the ROM's own stack occupies is not determined.\<close>

definition agree :: "nat set \<Rightarrow> (nat \<Rightarrow> u8) \<Rightarrow> (nat \<Rightarrow> u8) \<Rightarrow> bool" where
  "agree S m m' \<longleftrightarrow> (\<forall>a. a \<notin> S \<longrightarrow> m a = m' a)"

lemma agree_trans: "agree S m m1 \<Longrightarrow> agree S m1 m2 \<Longrightarrow> agree S m m2"
  by (simp add: agree_def)

lemma agree_overlay: "agree S m m' \<Longrightarrow> agree S (overlay m a bs) (overlay m' a bs)"
  by (simp add: agree_def overlay_def)

definition sector_of :: "'w lpc_flash \<Rightarrow> nat \<Rightarrow> nat" where
  "sector_of f a = unat (base_sector f) + (a - unat (lf_start f)) div unat (lf_blocksize f)"

definition sector_start :: "'w lpc_flash \<Rightarrow> nat \<Rightarrow> nat" where
  "sector_start f k = unat (lf_start f) + (k - unat (base_sector f)) * unat (lf_blocksize f)"

definition wipe_sectors :: "'w lpc_flash \<Rightarrow> nat \<Rightarrow> nat \<Rightarrow> (nat \<Rightarrow> u8) \<Rightarrow> nat \<Rightarrow> u8" where
  "wipe_sectors f s e m = overlay m (sector_start f s) (replicate ((e + 1 - s) * unat (lf_blocksize f)) 0xFF)"

definition program_bytes :: "(nat \<Rightarrow> u8) \<Rightarrow> nat \<Rightarrow> u8 list \<Rightarrow> nat \<Rightarrow> u8" where
  "program_bytes m a bs = overlay m a (map2 (AND) (mem_range m a (length bs)) bs)"

text \<open>What the manuals of the chips promise of the routine for correct arguments: sectors are prepared, prepared
  sectors are erased or programmed, erased sectors are found blank. Programming clears bits.\<close>

definition iap_rom :: "'w lpc_flash \<Rightarrow> nat \<Rightarrow> nat set \<Rightarrow> iap_routine \<Rightarrow> bool" where
  "iap_rom f n S iap \<longleftrightarrow>
     (\<forall>s e ws P m. s \<le> e \<longrightarrow> unat (base_sector f) \<le> unat s \<longrightarrow> unat e < unat (base_sector f) + n \<longrightarrow>
        (\<exists>res m'. iap IAP_CMD_PREPARE (s # e # ws) P m = (0, res, {unat s..unat e}, m') \<and> agree S m m') \<and>
        ({unat s..unat e} \<subseteq> P \<longrightarrow> (\<exists>res P' m'. iap IAP_CMD_ERASE (s # e # CPU_CLK_KHZ # ws) P m = (0, res, P', m') \<and>
           agree S (wipe_sectors f (unat s) (unat e) m) m')) \<and>
        (wipe_sectors f (unat s) (unat e) m = m \<longrightarrow> (\<exists>res P' m'. iap IAP_CMD_BLANKCHECK (s # e # ws) P m = (0, res, P', m') \<and> agree S m m'))) \<and>
     (\<forall>dest src len P m. unat dest mod 256 = 0 \<longrightarrow> unat src mod 4 = 0 \<longrightarrow> unat len \<in> {256, 512, 1024, 4096} \<longrightarrow>
        {sector_of f (unat dest)..sector_of f (unat dest + unat len - 1)} \<subseteq> P \<longrightarrow>
        (\<exists>res P' m'. iap IAP_CMD_PROGRAM [dest, src, len, CPU_CLK_KHZ] P m = (0, res, P', m') \<and>
           agree S (program_bytes m (unat dest) (mem_range m (unat src) (unat len))) m'))"

text \<open>\<open>n\<close> sectors that fit into the addresses and whose numbers fit into a byte; RAM for the parameters and the
  largest buffer; neither overlaps the flash, nor the buffer what the routine uses.\<close>

definition lpc_layout :: "'w lpc_flash \<Rightarrow> nat \<Rightarrow> nat set \<Rightarrow> bool" where
  "lpc_layout f n S \<longleftrightarrow> reserved_pages f = 0 \<and> 0 < unat (lf_blocksize f) \<and> unat (base_sector f) + n \<le> 256 \<and>
     unat (lf_start f) + n * unat (lf_blocksize f) \<le> 2 ^ 32 \<and> unat (iap_ram f) + 47 + 4096 \<le> 2 ^ 32 \<and>
     {unat (lf_start f)..<unat (lf_start f) + n * unat (lf_blocksize f)} \<inter> (S \<union> {unat (iap_ram f)..<unat (iap_ram f) + 47 + 4096}) = {} \<and>
     {unat (iap_ram f)..<unat (iap_ram f) + 47 + 4096} \<inter> S = {}"

definition in_flash :: "'w lpc_flash \<Rightarrow> nat \<Rightarrow> nat \<Rightarrow> nat \<Rightarrow> bool" where
  "in_flash f n a len \<longleftrightarrow> 0 < len \<and> unat (lf_start f) \<le> a \<and> a + len \<le> unat (lf_start f) + n * unat (lf_blocksize f)"

lemma sector_for_addr:
  assumes "lpc_layout f n S" "in_flash f n (unat addr) 1"
  shows "unat (ucast (lpc_sector_for_addr f addr) :: u32) = sector_of f (unat addr)" "sector_of f (unat addr) < unat (base_sector f) + n"
proof -
  let ?b = "unat (lf_blocksize f)"
  have a: "unat (lf_start f) \<le> unat addr" "unat addr - unat (lf_start f) < n * ?b" using assms(2) unfolding in_flash_def by linarith+
  have q: "(unat addr - unat (lf_start f)) div ?b < n" using a(2) by (simp add: less_mult_imp_div_less)
  have n: "unat (base_sector f) + n \<le> 256" using assms(1) by (simp add: lpc_layout_def)
  show s: "sector_of f (unat addr) < unat (base_sector f) + n" using q by (simp add: sector_of_def)
  have d: "unat ((addr - lf_start f) div lf_blocksize f) = (unat addr - unat (lf_start f)) div ?b"
    using a(1) by (simp add: unat_div unat_sub word_le_nat_alt)
  have u: "unat (ucast (base_sector f) :: u32) = unat (base_sector f)"
    using unsigned_less [of "base_sector f", where 'a = nat] by (simp add: unsigned_ucast_eq take_bit_eq_mod)
  have "unat (ucast (base_sector f) + (addr - lf_start f) div lf_blocksize f :: u32) = sector_of f (unat addr)"
    using q n by (simp add: unat_word_ariths(1) d u sector_of_def)
  then have "unat (lpc_sector_for_addr f addr) = sector_of f (unat addr)"
    using s n by (simp add: lpc_sector_for_addr_def unsigned_ucast_eq take_bit_eq_mod)
  then show "unat (ucast (lpc_sector_for_addr f addr) :: u32) = sector_of f (unat addr)"
    using s n by (simp add: unsigned_ucast_eq take_bit_eq_mod)
qed

lemma clear_low_bits: "x AND NOT (mask k) = push_bit k (drop_bit k x)" for x :: u32
  by (rule bit_word_eqI) (auto simp: bit_simps)

lemma iap_buffer_place: "unat (iap_ram f) + 47 \<le> 2 ^ 32 - 1 \<Longrightarrow> unat (iap_buffer f) mod 4 = 0 \<and>
    unat (iap_ram f) + 44 \<le> unat (iap_buffer f) \<and> unat (iap_buffer f) \<le> unat (iap_ram f) + 47"
proof -
  assume r: "unat (iap_ram f) + 47 \<le> 2 ^ 32 - 1"
  let ?x = "iap_ram f + 44 + 3"
  have x: "unat ?x = unat (iap_ram f) + 47" using r by (simp add: unat_word_ariths)
  have e: "iap_buffer f = ?x - take_bit 2 ?x"
  proof -
    have m: "(3 :: u32) = mask 2" by (simp add: mask_numeral)
    have "iap_buffer f = push_bit 2 (drop_bit 2 ?x)"
      unfolding iap_buffer_def m by (rule clear_low_bits)
    then show ?thesis using bits_ident [of 2 ?x] by (simp add: eq_diff_eq)
  qed
  have t: "unat (take_bit 2 ?x) = unat ?x mod 4" by (subst unsigned_take_bit_eq) (simp only: take_bit_eq_mod, simp)
  have "unat (iap_buffer f) = unat ?x - unat ?x mod 4"
    unfolding e t [symmetric] by (rule unat_sub) (unfold word_le_nat_alt t, rule mod_less_eq_dividend)
  then show ?thesis unfolding x by presburger
qed

text \<open>One call with the documented effect \<open>g\<close>: the parameters do not disturb it, and the caller's block is
  restored.\<close>

lemma iap_step:
  assumes T: "iap_target f st iap" and l: "length (take 4 (args @ rest)) = 4"
    and rom: "\<And>m. m = overlay (iv_mem (st w)) (unat (iap_ram f)) (flash_param command (take 4 (args @ rest))) \<Longrightarrow>
      \<exists>res P' m'. iap command (take 4 (args @ rest)) (iv_latch (st w)) m = (0, res, P', m') \<and> agree S (g m) m' \<and> Q P'"
    and g: "\<And>m m'. agree {unat (iap_ram f)..<unat (iap_ram f) + 44} m m' \<Longrightarrow> agree {unat (iap_ram f)..<unat (iap_ram f) + 44} (g m) (g m')"
    and g': "\<And>m a. a \<in> {unat (iap_ram f)..<unat (iap_ram f) + 44} \<Longrightarrow> g m a = m a"
  shows "\<exists>w'. iap_fails f rest command args w = Some (False, w') \<and> agree S (g (iv_mem (st w))) (iv_mem (st w')) \<and>
    iv_regs (st w') = iv_regs (st w) \<and> Q (iv_latch (st w'))"
proof -
  let ?m = "iv_mem (st w)" and ?a = "unat (iap_ram f)"
  let ?mp = "overlay ?m ?a (flash_param command (take 4 (args @ rest)))"
  from rom [OF refl] obtain res P' m' where r: "iap command (take 4 (args @ rest)) (iv_latch (st w)) ?mp = (0, res, P', m')"
    "agree S (g ?mp) m'" "Q P'" by blast
  from iap_call_runs [OF T l r(1)] obtain w' where w': "lpc_iap_call f rest command args w = Some ((0, res), w')"
    "st w' = \<lparr>iv_mem = overlay m' ?a (mem_range ?m ?a 44), iv_regs = iv_regs (st w), iv_latch = P'\<rparr>" by auto
  have "agree {?a..<?a + 44} ?mp ?m" using flash_param_parts(1) [OF l, of command] by (auto simp: agree_def overlay_def)
  from g [OF this] have "g ?m a = g ?mp a" if "a \<notin> {?a..<?a + 44}" for a using that by (simp add: agree_def)
  then have "agree S (g ?m) (overlay m' ?a (mem_range ?m ?a 44))"
    using r(2) g' [of _ ?m] by (auto simp: agree_def overlay_def mem_range_def)
  then show ?thesis using w' r(3) by (simp add: iap_fails_def)
qed

lemma wipe_agree: "agree R m m' \<Longrightarrow> agree R (wipe_sectors f s e m) (wipe_sectors f s e m')"
  by (simp add: wipe_sectors_def agree_overlay)

lemma wipe_outside:
  assumes "lpc_layout f n S" "unat (base_sector f) \<le> s" "s \<le> e" "e < unat (base_sector f) + n"
    "a \<in> {unat (iap_ram f)..<unat (iap_ram f) + 47 + 4096} \<or> a \<in> S"
  shows "wipe_sectors f s e m a = m a"
proof -
  let ?b = "unat (lf_blocksize f)"
  have "(s - unat (base_sector f)) * ?b + (e + 1 - s) * ?b = (e + 1 - unat (base_sector f)) * ?b"
    using assms(2,3) by (simp flip: add_mult_distrib)
  also have "\<dots> \<le> n * ?b" using assms(4) by (intro mult_le_mono1) simp
  finally have "sector_start f s + (e + 1 - s) * ?b \<le> unat (lf_start f) + n * ?b" "unat (lf_start f) \<le> sector_start f s"
    by (simp_all add: sector_start_def)
  moreover have "a \<notin> {unat (lf_start f)..<unat (lf_start f) + n * ?b}" using assms(1,5) unfolding lpc_layout_def by blast
  ultimately show ?thesis by (auto simp: wipe_sectors_def overlay_def)
qed

lemma wipe_wipe: "wipe_sectors f s e (wipe_sectors f s e m) = wipe_sectors f s e m"
  by (auto simp: wipe_sectors_def overlay_def)

lemma lpc_erase_run:
  assumes T: "iap_target f st iap" and R: "iap_rom f n S iap" and L: "lpc_layout f n S" and rest: "2 \<le> length rest"
    and r: "in_flash f n (unat addr) (unat len)"
  shows "\<exists>w'. lpc_flash_erase rest f addr len w = Some (0, w') \<and> iv_regs (st w') = iv_regs (st w) \<and>
    agree S (wipe_sectors f (sector_of f (unat addr)) (sector_of f (unat addr + unat len - 1)) (iv_mem (st w))) (iv_mem (st w'))"
proof -
  define s where "s = (ucast (lpc_sector_for_addr f addr) :: u32)"
  define e where "e = (ucast (lpc_sector_for_addr f (addr + len - 1)) :: u32)"
  let ?bank = "ucast (lf_bank f) :: u32"
  obtain r0 r1 rs where rest': "rest = r0 # r1 # rs" using rest by (cases rest; cases "tl rest") auto
  have lt: "unat addr + unat len \<le> 2 ^ 32" using r L by (simp add: in_flash_def lpc_layout_def)
  have u: "unat (addr + len - 1) = unat addr + unat len - 1"
  proof -
    have "unat len \<noteq> 0" using r by (simp add: in_flash_def)
    then have "unat (len - 1) = unat len - 1" by (intro unat_minus_one) auto
    moreover have "unat (addr + (len - 1)) = unat addr + unat (len - 1)"
      using lt calculation \<open>unat len \<noteq> 0\<close> by (intro unat_plus_simple [THEN iffD1]) (simp add: word_le_nat_alt unat_word_ariths)
    ultimately show ?thesis using \<open>unat len \<noteq> 0\<close> by (simp add: add_diff_eq)
  qed
  have in1: "in_flash f n (unat addr) 1" "in_flash f n (unat (addr + len - 1)) 1" using r unfolding u by (auto simp: in_flash_def)
  have s: "unat s = sector_of f (unat addr)" "unat e = sector_of f (unat addr + unat len - 1)" "unat e < unat (base_sector f) + n"
    using sector_for_addr [OF L in1(1)] sector_for_addr [OF L in1(2)] by (simp_all add: s_def e_def u)
  have b: "unat (base_sector f) \<le> unat s" by (simp add: s sector_of_def)
  have "sector_of f (unat addr) \<le> sector_of f (unat addr + unat len - 1)"
    unfolding sector_of_def using r by (intro add_left_mono div_le_mono diff_le_mono) (auto simp: in_flash_def)
  then have se: "s \<le> e" by (simp add: word_le_nat_alt s)
  note R' = R [unfolded iap_rom_def, THEN conjunct1, rule_format, OF se b s(3)]
  let ?W = "wipe_sectors f (unat s) (unat e)"
  note out = wipe_outside [OF L b se [unfolded word_le_nat_alt] s(3)]
  have out44: "?W m a = m a" if "a \<in> {unat (iap_ram f)..<unat (iap_ram f) + 44}" for m a using that by (intro out) auto
  have "\<exists>w1. iap_fails f rest IAP_CMD_PREPARE [s, e, ?bank] w = Some (False, w1) \<and> agree S (iv_mem (st w)) (iv_mem (st w1)) \<and>
      iv_regs (st w1) = iv_regs (st w) \<and> iv_latch (st w1) = {unat s..unat e}"
    by (rule iap_step [OF T, where g = "\<lambda>m. m"]) (use R' in \<open>auto simp: rest'\<close>)
  then obtain w1 where w1: "iap_fails f rest IAP_CMD_PREPARE [s, e, ?bank] w = Some (False, w1)" "agree S (iv_mem (st w)) (iv_mem (st w1))"
    "iv_regs (st w1) = iv_regs (st w)" "iv_latch (st w1) = {unat s..unat e}" by blast
  have "\<exists>w2. iap_fails f rest IAP_CMD_ERASE [s, e, CPU_CLK_KHZ, ?bank] w1 = Some (False, w2) \<and> agree S (?W (iv_mem (st w1))) (iv_mem (st w2)) \<and>
      iv_regs (st w2) = iv_regs (st w1) \<and> True"
  proof (rule iap_step [OF T, where g = ?W and Q = "\<lambda>x. True"])
    fix m
    show "\<exists>res P' m'. iap IAP_CMD_ERASE (take 4 ([s, e, CPU_CLK_KHZ, ?bank] @ rest)) (iv_latch (st w1)) m = (0, res, P', m') \<and> agree S (?W m) m' \<and> True"
      using R' [of "[?bank]" "{unat s..unat e}" m] by (simp add: w1(4))
  qed (simp_all add: wipe_agree out44)
  then obtain w2 where w2: "iap_fails f rest IAP_CMD_ERASE [s, e, CPU_CLK_KHZ, ?bank] w1 = Some (False, w2)"
    "agree S (?W (iv_mem (st w1))) (iv_mem (st w2))" "iv_regs (st w2) = iv_regs (st w1)" by blast
  have e2: "agree S (?W (iv_mem (st w))) (iv_mem (st w2))" using agree_trans [OF wipe_agree [OF w1(2)] w2(2)] .
  have blank: "?W m = m" if m: "m = overlay (iv_mem (st w2)) (unat (iap_ram f)) (flash_param c ws)" and l: "length ws = 4" for m c ws
  proof
    fix a
    show "?W m a = m a"
    proof (cases "a \<in> {unat (iap_ram f)..<unat (iap_ram f) + 44} \<or> a \<in> S")
      case True
      then show ?thesis by (intro out) auto
    next
      case False
      then have "m a = ?W (iv_mem (st w)) a" using e2 flash_param_parts(1) [OF l, of c] by (auto simp: m agree_def overlay_def)
      then show ?thesis by (auto simp: wipe_sectors_def overlay_def split: if_splits)
    qed
  qed
  have "\<exists>w3. iap_fails f rest IAP_CMD_BLANKCHECK [s, e, ?bank] w2 = Some (False, w3) \<and> agree S (iv_mem (st w2)) (iv_mem (st w3)) \<and>
      iv_regs (st w3) = iv_regs (st w2) \<and> True"
  proof (rule iap_step [OF T, where g = "\<lambda>m. m" and Q = "\<lambda>x. True"])
    fix m
    assume "m = overlay (iv_mem (st w2)) (unat (iap_ram f)) (flash_param IAP_CMD_BLANKCHECK (take 4 ([s, e, ?bank] @ rest)))"
    from blank [OF this] have "?W m = m" by (simp add: rest')
    then show "\<exists>res P' m'. iap IAP_CMD_BLANKCHECK (take 4 ([s, e, ?bank] @ rest)) (iv_latch (st w2)) m = (0, res, P', m') \<and> agree S m m' \<and> True"
      using R' [of "[?bank, r0]" "iv_latch (st w2)" m] by (simp add: rest')
  qed (simp_all add: rest')
  then obtain w3 where w3: "iap_fails f rest IAP_CMD_BLANKCHECK [s, e, ?bank] w2 = Some (False, w3)" "agree S (iv_mem (st w2)) (iv_mem (st w3))"
    "iv_regs (st w3) = iv_regs (st w2)" by blast
  have "lpc_flash_erase rest f addr len w = Some (0, w3)"
    using L w1(1) w2(1) w3(1) se unfolding lpc_flash_erase_def Let_def s_def [symmetric] e_def [symmetric] by (simp add: lpc_layout_def)
  then show ?thesis using agree_trans [OF e2 w3(2)] w1(3) w2(3) w3(3) by (simp add: s)
qed

lemma map2_erased: "(\<And>i. i < length bs \<Longrightarrow> m (a + i) = 0xFF) \<Longrightarrow> map2 (AND) (mem_range m a (length bs)) bs = bs"
proof (rule nth_equalityI)
  fix i
  assume m: "\<And>i. i < length bs \<Longrightarrow> m (a + i) = (0xFF :: u8)" and "i < length (map2 (AND) (mem_range m a (length bs)) bs)"
  moreover have "(0xFF :: u8) AND x = x" for x
  proof -
    have "(0xFF :: u8) = -1" by simp
    then show ?thesis by (simp only: and.left_neutral)
  qed
  ultimately show "map2 (AND) (mem_range m a (length bs)) bs ! i = bs ! i" by (simp add: mem_range_def)
qed simp

text \<open>A block of one of the sizes that the ROM takes, in erased bytes of one sector.\<close>

definition block_ok :: "'w lpc_flash \<Rightarrow> nat \<Rightarrow> u32 \<Rightarrow> nat \<Rightarrow> bool" where
  "block_ok f n dest len \<longleftrightarrow> len \<in> {256, 512, 1024, 4096} \<and> unat dest mod 256 = 0 \<and> in_flash f n (unat dest) len \<and>
     sector_of f (unat dest + len - 1) = sector_of f (unat dest)"

lemma lpc_write_run:
  assumes T: "iap_target f st iap" and R: "iap_rom f n S iap" and L: "lpc_layout f n S" and rest: "2 \<le> length rest"
    and b: "block_ok f n dest (length data)" and ff: "\<And>i. i < length data \<Longrightarrow> iv_mem (st w) (unat dest + i) = 0xFF"
  shows "\<exists>w'. lpc_flash_write rest f dest data w = Some (0, w') \<and> iv_regs (st w') = iv_regs (st w) \<and>
    agree (S \<union> {unat (iap_buffer f)..<unat (iap_buffer f) + length data}) (overlay (iv_mem (st w)) (unat dest) data) (iv_mem (st w'))"
proof -
  define s where "s = (ucast (lpc_sector_for_addr f dest) :: u32)"
  define len where "len = (word_of_nat (length data) :: u32)"
  let ?bank = "ucast (lf_bank f) :: u32" and ?a = "unat (iap_ram f)" and ?buf = "unat (iap_buffer f)"
  obtain r0 r1 rs where rest': "rest = r0 # r1 # rs" using rest by (cases rest; cases "tl rest") auto
  have ln: "unat len = length data" "length data \<in> {256, 512, 1024, 4096}" "length data \<le> 4096"
    using b by (auto simp: block_ok_def len_def)
  have in1: "in_flash f n (unat dest) 1" using b ln(2) by (auto simp: block_ok_def in_flash_def)
  note s = sector_for_addr [OF L in1, folded s_def]
  have sb: "unat (base_sector f) \<le> unat s" "unat s < unat (base_sector f) + n" using s by (simp_all add: sector_of_def)
  have "?a + 47 \<le> 2 ^ 32 - 1" using L by (simp add: lpc_layout_def)
  note buf = iap_buffer_place [OF this]
  have inb: "{?buf..<?buf + length data} \<subseteq> {?a..<?a + 47 + 4096}" using buf ln(3) by auto
  have flash: "{unat dest..<unat dest + length data} \<subseteq> {unat (lf_start f)..<unat (lf_start f) + n * unat (lf_blocksize f)}"
    using b by (auto simp: block_ok_def in_flash_def)
  have apart: "{unat dest..<unat dest + length data} \<inter> ({?a..<?a + 47 + 4096} \<union> S) = {}" "{?a..<?a + 47 + 4096} \<inter> S = {}"
    using flash L unfolding lpc_layout_def by blast+
  note R1 = R [unfolded iap_rom_def, THEN conjunct1, rule_format, OF order_refl sb, THEN conjunct1]
  note R2 = R [unfolded iap_rom_def, THEN conjunct2, rule_format, where dest = dest and src = "iap_buffer f" and len = len, unfolded ln(1)]
  have "\<exists>w1. iap_fails f rest IAP_CMD_PREPARE [s, s, ?bank] w = Some (False, w1) \<and> agree S (iv_mem (st w)) (iv_mem (st w1)) \<and>
      iv_regs (st w1) = iv_regs (st w) \<and> iv_latch (st w1) = {unat s}"
    by (rule iap_step [OF T, where g = "\<lambda>m. m"]) (use R1 in \<open>auto simp: rest'\<close>)
  then obtain w1 where w1: "iap_fails f rest IAP_CMD_PREPARE [s, s, ?bank] w = Some (False, w1)" "agree S (iv_mem (st w)) (iv_mem (st w1))"
    "iv_regs (st w1) = iv_regs (st w)" "iv_latch (st w1) = {unat s}" by blast
  from iap_targetD(5) [OF T, of "iap_buffer f" data w1] obtain x w2 where
    w2: "target_mem_write (lf_target f) (iap_buffer f) data w1 = Some (x, w2)" "st w2 = st w1\<lparr>iv_mem := overlay (iv_mem (st w1)) ?buf data\<rparr>" by blast
  let ?g = "\<lambda>m. program_bytes m (unat dest) data"
  have "\<exists>w3. iap_fails f rest IAP_CMD_PROGRAM [dest, iap_buffer f, len, CPU_CLK_KHZ] w2 = Some (False, w3) \<and>
      agree S (?g (iv_mem (st w2))) (iv_mem (st w3)) \<and> iv_regs (st w3) = iv_regs (st w2) \<and> True"
  proof (rule iap_step [OF T, where g = ?g and Q = "\<lambda>x. True"])
    fix m
    let ?p = "flash_param IAP_CMD_PROGRAM (take 4 ([dest, iap_buffer f, len, CPU_CLK_KHZ] @ rest))"
    assume m: "m = overlay (iv_mem (st w2)) ?a ?p"
    have "length ?p = 44" by (rule flash_param_parts(1)) simp
    then have "mem_range m ?buf (length data) = mem_range (overlay (iv_mem (st w1)) ?buf data) ?buf (length data)"
      unfolding m w2(2) using buf by (subst mem_range_apart) simp_all
    then have "mem_range m ?buf (length data) = data" by (simp add: mem_range_all)
    then show "\<exists>res P' m'. iap IAP_CMD_PROGRAM (take 4 ([dest, iap_buffer f, len, CPU_CLK_KHZ] @ rest)) (iv_latch (st w2)) m = (0, res, P', m') \<and>
        agree S (?g m) m' \<and> True"
      using R2 [of "{unat s}" m] b buf ln(2) by (simp add: w2(2) w1(4) block_ok_def s(1))
  next
    fix m m' assume "agree {?a..<?a + 44} m m'"
    moreover have "mem_range m (unat dest) (length data) = mem_range m' (unat dest) (length data)"
    proof -
      have "m i = m' i" if "i \<in> {unat dest..<unat dest + length data}" for i
      proof -
        have "i \<notin> {?a..<?a + 44}" using apart(1) that by auto
        then show ?thesis using calculation by (simp add: agree_def)
      qed
      then show ?thesis by (auto simp: mem_range_def)
    qed
    ultimately show "agree {?a..<?a + 44} (?g m) (?g m')" by (simp add: program_bytes_def agree_overlay)
  next
    fix m i assume "i \<in> {?a..<?a + 44}"
    then have "i \<notin> {unat dest..<unat dest + length data}" using apart(1) by auto
    then show "?g m i = m i" by (auto simp: program_bytes_def overlay_def)
  qed simp
  then obtain w3 where w3: "iap_fails f rest IAP_CMD_PROGRAM [dest, iap_buffer f, len, CPU_CLK_KHZ] w2 = Some (False, w3)"
    "agree S (?g (iv_mem (st w2))) (iv_mem (st w3))" "iv_regs (st w3) = iv_regs (st w2)" by blast
  have "iv_mem (st w2) (unat dest + i) = 0xFF" if i: "i < length data" for i
  proof -
    have d: "unat dest + i \<in> {unat dest..<unat dest + length data}" using i by simp
    then have "unat dest + i \<notin> S" "unat dest + i \<notin> {?buf..<?buf + length data}" using apart inb by blast+
    then have "iv_mem (st w2) (unat dest + i) = iv_mem (st w) (unat dest + i)"
      using w1(2) by (auto simp: w2(2) overlay_def agree_def)
    then show ?thesis using ff [OF i] by simp
  qed
  then have g: "?g (iv_mem (st w2)) = overlay (iv_mem (st w2)) (unat dest) data" by (simp add: program_bytes_def map2_erased)
  have "agree (S \<union> {?buf..<?buf + length data}) (overlay (iv_mem (st w)) (unat dest) data) (iv_mem (st w3))"
    using w3(2) w1(2) unfolding g by (auto simp: agree_def overlay_def w2(2))
  moreover have "lpc_flash_write rest f dest data w = Some (0, w3)"
    using L w1(1) w2(1) w3(1) unfolding lpc_flash_write_def Let_def s_def [symmetric] len_def [symmetric] by (simp add: lpc_layout_def)
  ultimately show ?thesis using w1(3) w3(3) by (auto simp: w2(2))
qed

text \<open>
  C32. Flash of the LPC families: with a ROM that does what the manuals promise, erasing a range reports success
  and leaves its sectors erased, and programming a block in it reports success and leaves the data. All other
  memory is as before, but for the buffer and what the ROM itself uses, and so are all registers.
\<close>

theorem lpc_programs:
  assumes "iap_target f st iap" and "iap_rom f n S iap" and "lpc_layout f n S" and "2 \<le> length rest"
    and "in_flash f n (unat addr) (unat len)" and "block_ok f n dest (length data)"
    and "sector_of f (unat addr) \<le> sector_of f (unat dest)" and "sector_of f (unat dest) \<le> sector_of f (unat addr + unat len - 1)"
  shows "\<exists>w1 w2. lpc_flash_erase rest f addr len w = Some (0, w1) \<and> lpc_flash_write rest f dest data w1 = Some (0, w2) \<and>
    iv_regs (st w2) = iv_regs (st w) \<and> mem_range (iv_mem (st w2)) (unat dest) (length data) = data \<and>
    agree (S \<union> {unat (iap_buffer f)..<unat (iap_buffer f) + length data})
      (overlay (wipe_sectors f (sector_of f (unat addr)) (sector_of f (unat addr + unat len - 1)) (iv_mem (st w))) (unat dest) data) (iv_mem (st w2))"
proof -
  let ?b = "unat (lf_blocksize f)" and ?s = "sector_of f (unat addr)" and ?e = "sector_of f (unat addr + unat len - 1)"
  let ?W = "wipe_sectors f ?s ?e" and ?B = "{unat (iap_buffer f)..<unat (iap_buffer f) + length data}"
  from lpc_erase_run [OF assms(1-5), of w] obtain w1 where w1: "lpc_flash_erase rest f addr len w = Some (0, w1)"
    "iv_regs (st w1) = iv_regs (st w)" "agree S (?W (iv_mem (st w))) (iv_mem (st w1))" by blast
  have L: "0 < ?b" "unat (iap_ram f) + 47 \<le> 2 ^ 32 - 1" "length data \<le> 4096" using assms(3,6) by (auto simp: lpc_layout_def block_ok_def)
  have blk: "unat (lf_start f) \<le> unat dest" "unat dest + length data \<le> unat (lf_start f) + n * ?b" "0 < length data"
    using assms(6) by (auto simp: block_ok_def in_flash_def)
  have buf: "?B \<subseteq> {unat (iap_ram f)..<unat (iap_ram f) + 47 + 4096}" using iap_buffer_place [OF L(2)] L(3) by auto
  have apart: "{unat dest..<unat dest + length data} \<inter> (S \<union> ?B) = {}"
  proof -
    have "{unat dest..<unat dest + length data} \<subseteq> {unat (lf_start f)..<unat (lf_start f) + n * ?b}" using blk by auto
    then show ?thesis using assms(3) buf unfolding lpc_layout_def by blast
  qed
  have ff: "iv_mem (st w1) (unat dest + i) = 0xFF" if i: "i < length data" for i
  proof -
    define q where "q = (unat dest - unat (lf_start f)) div ?b"
    have sd: "sector_of f (unat dest) = unat (base_sector f) + q" by (simp add: sector_of_def q_def)
    have "(unat dest + length data - 1 - unat (lf_start f)) div ?b = q" using assms(6) by (simp add: block_ok_def sector_of_def q_def)
    then have "unat dest + length data - 1 - unat (lf_start f) < (q + 1) * ?b" using L(1) by (metis Suc_eq_plus1 dividend_less_div_times lessI mult.commute div_less_iff_less_mult)
    moreover have "q * ?b \<le> unat dest - unat (lf_start f)" by (simp add: q_def)
    moreover have "(?s - unat (base_sector f)) * ?b \<le> q * ?b" "(q + 1) * ?b \<le> (?e + 1 - unat (base_sector f)) * ?b"
      using assms(7,8) unfolding sd by (intro mult_le_mono1; simp)+
    moreover have "(?s - unat (base_sector f)) * ?b + (?e + 1 - ?s) * ?b = (?e + 1 - unat (base_sector f)) * ?b"
      using assms(7,8) by (simp add: sector_of_def flip: add_mult_distrib)
    ultimately have r: "sector_start f ?s \<le> unat dest + i" "unat dest + i < sector_start f ?s + (?e + 1 - ?s) * ?b"
      using blk i unfolding sector_start_def by linarith+
    then have "unat dest + i - sector_start f ?s < (?e + 1 - ?s) * ?b" by linarith
    with r have "?W (iv_mem (st w)) (unat dest + i) = 0xFF" unfolding wipe_sectors_def overlay_def by (simp del: One_nat_def)
    moreover have "unat dest + i \<notin> S"
    proof -
      have "unat dest + i \<in> {unat dest..<unat dest + length data}" using i by simp
      then show ?thesis using apart by blast
    qed
    ultimately show ?thesis using w1(3) by (simp add: agree_def)
  qed
  from lpc_write_run [OF assms(1-4,6) ff] obtain w2 where w2: "lpc_flash_write rest f dest data w1 = Some (0, w2)"
    "iv_regs (st w2) = iv_regs (st w1)" "agree (S \<union> ?B) (overlay (iv_mem (st w1)) (unat dest) data) (iv_mem (st w2))" by blast
  have "mem_range (iv_mem (st w2)) (unat dest) (length data) = mem_range (overlay (iv_mem (st w1)) (unat dest) data) (unat dest) (length data)"
  proof -
    have "iv_mem (st w2) (unat dest + i) = overlay (iv_mem (st w1)) (unat dest) data (unat dest + i)" if i: "i < length data" for i
    proof -
      have "unat dest + i \<in> {unat dest..<unat dest + length data}" using i by simp
      then have "unat dest + i \<notin> S \<union> ?B" using apart by blast
      then show ?thesis using w2(3) by (simp add: agree_def)
    qed
    then show ?thesis by (simp add: mem_range_def)
  qed
  then have "mem_range (iv_mem (st w2)) (unat dest) (length data) = data" by (simp add: mem_range_all)
  moreover have "agree (S \<union> ?B) (overlay (?W (iv_mem (st w))) (unat dest) data) (iv_mem (st w2))"
    using w1(3) w2(3) by (auto simp: agree_def overlay_def)
  ultimately show ?thesis using w1(1,2) w2(1,2) by auto
qed

subsection \<open>The magic vector\<close>

lemma word_at_splice:
  "4 * i + 4 \<le> length bs \<Longrightarrow> 4 * j + 4 \<le> length bs \<Longrightarrow>
    word_at (splice_at bs (4 * i) (le_bytes 4 (unat v))) j = (if i = j then v else word_at bs j)"
  using word_at_set_reg [of i bs j v] by (simp add: set_reg_def)

text \<open>
  The vector that makes the flash bootable: the data keep their length and all bytes but those of the
  eighth word, and their first eight words then sum to zero, which is what the boot ROM checks.
\<close>

theorem magic_vector_sums:
  assumes "magic_vector src = Some src'"
  shows "length src' = length src \<and> take 28 src' = take 28 src \<and> drop 32 src' = drop 32 src \<and> sum_list (map (word_at src') [0..<8]) = 0"
proof -
  let ?sum = "foldl (\<lambda>sum i. sum + word_at src i) 0 [0..<7]"
  have l: "32 \<le> length src" and s: "src' = splice_at src 28 (le_bytes 4 (unat (NOT ?sum + 1)))"
    using assms by (simp_all add: magic_vector_def Let_def split: if_splits)
  have w: "word_at src' j = (if j = 7 then - ?sum else word_at src j)" if "j < 8" for j
    using word_at_splice [of 7 src j "NOT ?sum + 1"] l that unfolding s by (simp add: minus_eq_not_plus_1)
  have f: "foldl (\<lambda>sum i. sum + g i) a xs = a + sum_list (map g xs)" for g :: "nat \<Rightarrow> u32" and a xs
    by (induction xs arbitrary: a) (simp_all add: add.assoc)
  have "[0..<8] = [0..<7] @ [7 :: nat]" by code_simp
  then have "sum_list (map (word_at src') [0..<8]) = sum_list (map (word_at src') [0..<7]) + word_at src' 7" by simp
  also have "map (word_at src') [0..<7] = map (word_at src) [0..<7]" using w by simp
  finally have "sum_list (map (word_at src') [0..<8]) = 0" using w [of 7] by (simp add: f)
  then show ?thesis using l unfolding s by (simp add: splice_at_def del: le_bytes_numeral)
qed

subsection \<open>A chip with such a ROM\<close>

definition demo_lpc_target :: "(iap_view \<times> bool) target_s \<Rightarrow> (iap_view \<times> bool) lpc_flash" where
  "demo_lpc_target t = \<lparr>lf_start = 0, lf_length = 0x4000, lf_blocksize = 0x1000, lf_target = t, base_sector = 0, lf_bank = 0, reserved_pages = 0,
     wdt_kick = None, iap_entry = 0x1FFF1FF1, iap_ram = 0x10000000, iap_msp = 0x100001C0\<rparr>"

definition demo_iap :: iap_routine where
  "demo_iap c ws P m =
     (if c = IAP_CMD_PREPARE then (0, replicate 16 0, {unat (ws ! 0)..unat (ws ! 1)}, m)
      else if c = IAP_CMD_ERASE then
        (if {unat (ws ! 0)..unat (ws ! 1)} \<subseteq> P
         then (0, replicate 16 0, {}, overlay m (unat (ws ! 0) * 0x1000) (replicate ((unat (ws ! 1) + 1 - unat (ws ! 0)) * 0x1000) 0xFF))
         else (9, replicate 16 0, P, m))
      else if c = IAP_CMD_BLANKCHECK then (0, replicate 16 0, P, m)
      else if c = IAP_CMD_PROGRAM then
        (0, replicate 16 0, {}, program_bytes m (unat (ws ! 0)) (mem_range m (unat (ws ! 1)) (unat (ws ! 2))))
      else (1, replicate 16 0, P, m))"

text \<open>The registers are 20 words. The core polls as running once after it was resumed.\<close>

definition demo_view :: "iap_view \<times> bool \<Rightarrow> iap_view" where
  "demo_view w = (fst w)\<lparr>iv_regs := take 80 (iv_regs (fst w) @ replicate 80 0)\<rparr>"

definition demo_run :: "iap_view \<Rightarrow> iap_view" where
  "demo_run v = (case demo_iap (mem_word (iv_mem v) (0x10000000 + 4)) (map (\<lambda>i. mem_word (iv_mem v) (0x10000000 + 8 + 4 * i)) [0..<4])
       (iv_latch v) (iv_mem v) of
     (status, result, latch, m) \<Rightarrow> v\<lparr>iv_latch := latch, iv_mem := overlay m (0x10000000 + 24) (le_bytes 4 (unat status) @ result)\<rparr>)"

definition demo_lpc :: "(iap_view \<times> bool) lpc_flash" where
  "demo_lpc = demo_lpc_target
     \<lparr>t_attached = True, t_tc = None, t_attach = (\<lambda>w. None), t_detach = (\<lambda>w. None), t_check_error = (\<lambda>w. Some (False, w)),
      t_mem_read = (\<lambda>a n w. Some (mem_range (iv_mem (fst w)) (unat a) n, w)),
      t_mem_write = (\<lambda>a bs w. Some ((fst w)\<lparr>iv_mem := overlay (iv_mem (fst w)) (unat a) bs\<rparr>, snd w)),
      t_regs_size = 80, t_tdesc = None, t_regs_read = Some (\<lambda>w. Some (iv_regs (demo_view w), w)),
      t_regs_write = Some (\<lambda>rs w. Some ((fst w)\<lparr>iv_regs := rs\<rparr>, snd w)), t_reg_read = (\<lambda>r n w. None), t_reg_write = (\<lambda>r bs w. None),
      t_reset = (\<lambda>w. None), t_extended_reset = None, t_halt_request = (\<lambda>w. None),
      t_halt_poll = (\<lambda>w. Some ((if snd w then TARGET_HALT_RUNNING else TARGET_HALT_BREAKPOINT, 0), (fst w, False))),
      t_halt_resume = (\<lambda>step w. Some (demo_run (demo_view w), True)),
      t_breakwatch_set = None, t_breakwatch_clear = None, t_bw_list = [], t_target_options = 0, t_designer = 0, t_idcode = 0,
      t_target_storage = None, t_unsafe_enabled = False, t_ram = [], t_flash = [], t_driver = [], t_cpuid = 0, t_core = [], t_cmdline = [],
      t_heapinfo = [], t_commands = [], t_priv = None, t_priv_free = (\<lambda>p w. None)\<rparr>"

lemma demo_lpc_target: "iap_target demo_lpc demo_view demo_iap"
proof -
  have polls: "polls (lf_target demo_lpc) 1 (v, True) (v, False)" for v
    by (simp add: demo_lpc_def demo_lpc_target_def target_halt_poll_def)
  have v: "demo_view (demo_run (demo_view w), b) = demo_run (demo_view w)" for w b
    by (simp add: demo_view_def demo_run_def split: prod.split)
  have run: "rom_runs demo_iap demo_lpc (demo_view w) (demo_view (demo_run (demo_view w), False))" for w
    unfolding v rom_runs_def
    by (simp add: demo_run_def demo_lpc_def demo_lpc_target_def demo_iap_def Let_def split: prod.split del: le_bytes_numeral)
  have resume: "target_halt_resume (lf_target demo_lpc) False w = Some (demo_run (demo_view w), True)" for w
    by (simp add: demo_lpc_def demo_lpc_target_def target_halt_resume_def)
  have acc: "target_mem_read (lf_target demo_lpc) a n w = Some ((False, mem_range (iv_mem (demo_view w)) (unat a) n), w)"
    "target_mem_write (lf_target demo_lpc) a bs w = Some (False, ((fst w)\<lparr>iv_mem := overlay (iv_mem (fst w)) (unat a) bs\<rparr>, snd w))"
    "target_regs_read (lf_target demo_lpc) w = Some (iv_regs (demo_view w), w)"
    "target_regs_write (lf_target demo_lpc) rs w = Some ((fst w)\<lparr>iv_regs := rs\<rparr>, snd w)" for a n w bs rs
    by (simp_all add: demo_lpc_def demo_lpc_target_def target_mem_read_def target_mem_write_def target_check_error_def
        target_regs_read_def target_regs_write_def demo_view_def)
  have size: "t_regs_size (lf_target demo_lpc) = 80" "iap_ram demo_lpc = 0x10000000" "wdt_kick demo_lpc = None"
    by (simp_all add: demo_lpc_def demo_lpc_target_def)
  have vw: "demo_view ((fst w)\<lparr>iv_mem := m\<rparr>, b) = demo_view w\<lparr>iv_mem := m\<rparr>" "length (iv_regs (demo_view w)) = 80"
    "length rs = 80 \<Longrightarrow> demo_view ((fst w)\<lparr>iv_regs := rs\<rparr>, b) = demo_view w\<lparr>iv_regs := rs\<rparr>" "iv_mem (fst w) = iv_mem (demo_view w)" for w m b rs
    by (simp_all add: demo_view_def)
  have "\<exists>w1 n w2. target_halt_resume (lf_target demo_lpc) False w = Some w1 \<and> polls (lf_target demo_lpc) n w1 w2 \<and>
      rom_runs demo_iap demo_lpc (demo_view w) (demo_view w2)" for w
    using polls [of "demo_run (demo_view w)"] run [of w] resume [of w] by blast
  then have "\<forall>w. calls_rom demo_lpc (demo_view w) \<longrightarrow> (\<exists>w1 n w2. target_halt_resume (lf_target demo_lpc) False w = Some w1 \<and>
      polls (lf_target demo_lpc) n w1 w2 \<and> rom_runs demo_iap demo_lpc (demo_view w) (demo_view w2))" by blast
  then show ?thesis unfolding iap_target_def size acc by (auto simp: vw simp del: polls.simps split_paired_Ex split_paired_All)
qed

lemma demo_lpc_layout: "lpc_layout demo_lpc 4 {}"
  by (simp add: lpc_layout_def demo_lpc_def demo_lpc_target_def)

lemma demo_lpc_rom: "iap_rom demo_lpc 4 {} demo_iap"
  by (auto simp: iap_rom_def demo_iap_def agree_def wipe_sectors_def sector_start_def demo_lpc_def demo_lpc_target_def)

theorem lpc_programs_witness:
  "\<forall>w. \<exists>w1 w2. lpc_flash_erase [0, 0] demo_lpc 0x1100 0x1F00 w = Some (0, w1) \<and>
     lpc_flash_write [0, 0] demo_lpc 0x2000 (replicate 512 0xA5) w1 = Some (0, w2) \<and>
     mem_range (iv_mem (demo_view w2)) 0x2000 512 = replicate 512 0xA5"
proof
  fix w
  have s: "unat (lf_start demo_lpc) = 0" "unat (lf_blocksize demo_lpc) = 0x1000" "unat (base_sector demo_lpc) = 0"
    by (simp_all add: demo_lpc_def demo_lpc_target_def)
  have u: "unat (0x2000 :: u32) = 0x2000" by simp
  have l: "(2 :: nat) \<le> length [0 :: u32, 0]" by simp
  have r: "in_flash demo_lpc 4 (unat (0x1100 :: u32)) (unat (0x1F00 :: u32))" by (simp add: in_flash_def s)
  have b: "block_ok demo_lpc 4 0x2000 (length (replicate 512 (0xA5 :: u8)))" by (simp add: block_ok_def in_flash_def sector_of_def s)
  have "sector_of demo_lpc (unat (0x1100 :: u32)) \<le> sector_of demo_lpc (unat (0x2000 :: u32))"
    "sector_of demo_lpc (unat (0x2000 :: u32)) \<le> sector_of demo_lpc (unat (0x1100 :: u32) + unat (0x1F00 :: u32) - 1)" by (simp_all add: sector_of_def s)
  from lpc_programs [OF demo_lpc_target demo_lpc_rom demo_lpc_layout l r b this, of w] show
    "\<exists>w1 w2. lpc_flash_erase [0, 0] demo_lpc 0x1100 0x1F00 w = Some (0, w1) \<and>
       lpc_flash_write [0, 0] demo_lpc 0x2000 (replicate 512 0xA5) w1 = Some (0, w2) \<and>
       mem_range (iv_mem (demo_view w2)) 0x2000 512 = replicate 512 0xA5"
    by (simp only: length_replicate u) blast
qed

theorem magic_vector_sums_witness:
  "\<exists>src'. magic_vector (replicate 256 1) = Some src' \<and> sum_list (map (word_at src') [0..<8]) = 0 \<and> drop 32 src' = replicate 224 1"
proof -
  obtain src' where s: "magic_vector (replicate 256 1) = Some src'" by (simp add: magic_vector_def Let_def)
  from magic_vector_sums [OF s] s show ?thesis by auto
qed

text \<open>A command that the ROM does not know: its status comes back, and nothing has changed.\<close>

theorem iap_call_transparent_witness:
  "\<forall>w. \<exists>w'. lpc_iap_call demo_lpc [0, 0, 0, 0] 99 [] w = Some ((1, replicate 16 0), w') \<and> iv_regs (demo_view w') = iv_regs (demo_view w)"
proof
  fix w
  have "length (take 4 ([] @ [0 :: u32, 0, 0, 0])) = 4" by simp
  from iap_call_transparent [OF demo_lpc_target this, of 99 w 1 "replicate 16 0" "iv_latch (demo_view w)"] show "\<exists>w'. lpc_iap_call demo_lpc [0, 0, 0, 0] 99 [] w = Some ((1, replicate 16 0), w') \<and> iv_regs (demo_view w') = iv_regs (demo_view w)"
    by (auto simp: demo_iap_def)
qed

end
