(* ===== verification/Morse.thy ===== *)
theory Morse
  imports Prelude
begin

unbundle bit_operations_syntax

text \<open>
  \<open>src/src/morse.c\<close>: the state of an LED that blinks a message in Morse code, one unit of time for each call of
  \<open>morse_update\<close>. There is one state for each interface; the mutex of an interface makes each operation a
  single step. A character outside the message's array, and a number that is no interface, have no result.
\<close>

subsection \<open>Definitions\<close>

text \<open>\<open>morse_letter\<close>, from A to Z.\<close>

definition morse_letter :: "(u16 \<times> u8) list" where
  "morse_letter =
     [(0b00011101, 8), (0b000101010111, 12), (0b00010111010111, 14), (0b0001010111, 10), (0b0001, 4), (0b000101110101, 12),
      (0b000101110111, 12), (0b0001010101, 10), (0b000101, 6), (0b0001110111011101, 16), (0b000111010111, 12),
      (0b000101011101, 12), (0b0001110111, 10), (0b00010111, 8), (0b00011101110111, 14), (0b00010111011101, 14),
      (0b0001110101110111, 16), (0b0001011101, 10), (0b00010101, 8), (0b000111, 6), (0b0001110101, 10),
      (0b000111010101, 12), (0b000111011101, 12), (0b00011101010111, 14), (0b0001110111010111, 16), (0b00010101110111, 14)]"

record morse_state =
  morse_msg :: "u8 list option" \<comment> \<open>the array of the message, or NULL\<close>
  morse_ptr :: "nat option" \<comment> \<open>the position in it, or NULL\<close>
  morse_repeat :: bool
  morse_code :: u16
  morse_bits :: u8

definition morse_init :: morse_state where
  "morse_init = \<lparr>morse_msg = None, morse_ptr = None, morse_repeat = False, morse_code = 0, morse_bits = 0\<rparr>"

definition morse_list_init :: "morse_state list" where
  "morse_list_init = [morse_init, morse_init]"

definition get_morse_msg :: "int \<Rightarrow> morse_state list \<Rightarrow> u8 list option option" where
  "get_morse_msg number l = (if 0 \<le> number \<and> nat number < length l then Some (morse_msg (l ! nat number)) else None)"

definition morse_start :: "u8 list option \<Rightarrow> bool \<Rightarrow> morse_state \<Rightarrow> morse_state" where
  "morse_start msg rep s = s\<lparr>morse_msg := msg, morse_ptr := map_option (\<lambda>m. 0) msg, morse_repeat := rep\<rparr>"

definition morse :: "int \<Rightarrow> u8 list option \<Rightarrow> bool \<Rightarrow> morse_state list \<Rightarrow> morse_state list option" where
  "morse number msg rep l =
     (if 0 \<le> number \<and> nat number < length l then Some (l[nat number := morse_start msg rep (l ! nat number)]) else None)"

definition morse_char :: "nat \<Rightarrow> morse_state \<Rightarrow> u8 option" where
  "morse_char p s = (case morse_msg s of None \<Rightarrow> None | Some m \<Rightarrow> if p < length m then Some (m ! p) else None)"

definition letter_code :: "u8 \<Rightarrow> u16 \<times> u8" where
  "letter_code c = (if c \<ge> ch CHR ''A'' \<and> c \<le> ch CHR ''Z'' then morse_letter ! unat (c - ch CHR ''A'') else (0, 4))"

definition shift_out :: "u16 \<Rightarrow> u8 \<Rightarrow> morse_state \<Rightarrow> bool \<times> morse_state" where
  "shift_out code bits s = (code AND 1 \<noteq> 0, s\<lparr>morse_code := drop_bit 1 code, morse_bits := bits - 1\<rparr>)"

definition next_letter :: "nat \<Rightarrow> u8 \<Rightarrow> morse_state \<Rightarrow> bool \<times> morse_state" where
  "next_letter p c s = (case letter_code c of (code, bits) \<Rightarrow> shift_out code bits (s\<lparr>morse_ptr := Some p\<rparr>))"

definition update_one :: "morse_state \<Rightarrow> (bool \<times> morse_state) option" where
  "update_one s =
     (case morse_ptr s of
        None \<Rightarrow> Some (False, s)
      | Some p \<Rightarrow>
          if morse_bits s = 0 then
            do { c \<leftarrow> morse_char p s;
                 if c \<noteq> 0 then Some (next_letter (p + 1) c s)
                 else if morse_repeat s then do { c \<leftarrow> morse_char 0 s; Some (next_letter 1 c s) }
                 else Some (False, s\<lparr>morse_ptr := None\<rparr>) }
          else Some (shift_out (morse_code s) (morse_bits s) s))"

definition morse_update :: "int \<Rightarrow> morse_state list \<Rightarrow> (bool \<times> morse_state list) option" where
  "morse_update number l =
     (if number = -1 then Some (False, l)
      else if 0 \<le> number \<and> nat number < length l
      then do { (r, s) \<leftarrow> update_one (l ! nat number); Some (r, l[nat number := s]) } else None)"

text \<open>Consecutive calls for one interface, with what they returned.\<close>

fun morse_updates :: "int \<Rightarrow> nat \<Rightarrow> morse_state list \<Rightarrow> (bool list \<times> morse_state list) option" where
  "morse_updates number 0 l = Some ([], l)"
| "morse_updates number (Suc n) l =
     do { (r, l) \<leftarrow> morse_update number l; (rs, l) \<leftarrow> morse_updates number n l; Some (r # rs, l) }"

subsection \<open>The code of the table\<close>

datatype mark = Dot | Dash

text \<open>The international code. A dot is on for one unit, a dash for three; there is one unit between the marks
  of a letter and three after it. Any other character is four units off, so that a space makes seven.\<close>

definition marks :: "string \<Rightarrow> mark list" where
  "marks s = map (\<lambda>c. if c = CHR ''.'' then Dot else Dash) s"

definition international :: "mark list list" where
  "international = map marks
     [''.-'', ''-...'', ''-.-.'', ''-..'', ''.'', ''..-.'', ''--.'', ''....'', ''..'', ''.---'', ''-.-'', ''.-..'', ''--'', ''-.'',
      ''---'', ''.--.'', ''--.-'', ''.-.'', ''...'', ''-'', ''..-'', ''...-'', ''.--'', ''-..-'', ''-.--'', ''--..'']"

fun mark_signal :: "mark \<Rightarrow> bool list" where
  "mark_signal Dot = [True, False]"
| "mark_signal Dash = [True, True, True, False]"

definition char_signal :: "u8 \<Rightarrow> bool list" where
  "char_signal c = (if c \<ge> ch CHR ''A'' \<and> c \<le> ch CHR ''Z''
     then concat (map mark_signal (international ! unat (c - ch CHR ''A''))) @ [False, False] else replicate 4 False)"

definition code_signal :: "u16 \<Rightarrow> nat \<Rightarrow> bool list" where
  "code_signal code n = map (bit code) [0..<n]"

lemma code_signal_Suc: "code_signal code (Suc n) = (code AND 1 \<noteq> 0) # code_signal (drop_bit 1 code) n"
proof -
  have "code AND 1 \<noteq> 0 \<longleftrightarrow> bit code 0" by (simp add: bit_0 and_one_eq even_iff_mod_2_eq_zero)
  moreover have "[0..<Suc n] = 0 # map Suc [0..<n]" by (simp add: map_Suc_upt upt_conv_Cons)
  ultimately show ?thesis by (simp add: code_signal_def bit_simps del: upt_Suc)
qed

text \<open>Every entry of \<open>morse_letter\<close> is the signal of its letter.\<close>

lemma morse_letter_table:
  "list_all2 (\<lambda>(code, bits) ms. bits \<noteq> 0 \<and> code_signal code (unat bits) = concat (map mark_signal ms) @ [False, False]) morse_letter international"
  by code_simp

lemma letter_code_signal: "snd (letter_code c) \<noteq> 0 \<and> code_signal (fst (letter_code c)) (unat (snd (letter_code c))) = char_signal c"
proof (cases "c \<ge> ch CHR ''A'' \<and> c \<le> ch CHR ''Z''")
  case True
  then have "65 \<le> unat c" "unat c \<le> 90" by (simp_all add: word_le_nat_alt)
  then have "unat (c - 65) < 26" by (simp add: unat_sub word_le_nat_alt)
  moreover have "length morse_letter = 26" "length international = 26" by (simp_all add: morse_letter_def international_def)
  ultimately have "case morse_letter ! unat (c - 65) of (code, bits) \<Rightarrow> bits \<noteq> 0 \<and>
      code_signal code (unat bits) = concat (map mark_signal (international ! unat (c - 65))) @ [False, False]"
    using list_all2_nthD [OF morse_letter_table, of "unat (c - 65)"] by (auto split: prod.splits)
  then show ?thesis using True by (cases "morse_letter ! unat (c - 65)") (simp add: letter_code_def char_signal_def)
next
  case False
  moreover have "code_signal 0 4 = replicate 4 False" by code_simp
  ultimately show ?thesis by (auto simp: letter_code_def char_signal_def)
qed

subsection \<open>Playing a message\<close>

fun update_ones :: "nat \<Rightarrow> morse_state \<Rightarrow> (bool list \<times> morse_state) option" where
  "update_ones 0 s = Some ([], s)"
| "update_ones (Suc n) s = do { (r, s) \<leftarrow> update_one s; (rs, s) \<leftarrow> update_ones n s; Some (r # rs, s) }"

lemma update_ones_add: "update_ones (m + n) s = do { (rs, s) \<leftarrow> update_ones m s; (rs', s) \<leftarrow> update_ones n s; Some (rs @ rs', s) }"
proof (induction m arbitrary: s)
  case 0
  then show ?case by (cases "update_ones n s") auto
next
  case (Suc m)
  then show ?case by (cases "update_one s") (auto simp: Suc bind_assoc split: prod.splits Option.bind_splits)
qed

lemma morse_updates_one:
  assumes "0 \<le> number" "nat number < length l"
  shows "morse_updates number n l = map_option (\<lambda>(rs, s). (rs, l[nat number := s])) (update_ones n (l ! nat number))"
  using assms
proof (induction n arbitrary: l)
  case (Suc n)
  have n: "number \<noteq> -1" using assms(1) by simp
  show ?case
  proof (cases "update_one (l ! nat number)")
    case None
    then show ?thesis using Suc.prems n by (simp add: morse_update_def)
  next
    case (Some p)
    then obtain r s where p: "update_one (l ! nat number) = Some (r, s)" by (cases p) simp
    then have u: "morse_update number l = Some (r, l[nat number := s])" using Suc.prems n by (simp add: morse_update_def)
    have IH: "morse_updates number n (l[nat number := s]) = map_option (\<lambda>(rs, s). (rs, l[nat number := s])) (update_ones n s)"
      using Suc.IH [of "l[nat number := s]"] Suc.prems by simp
    show ?thesis by (cases "update_ones n s") (auto simp: u p IH)
  qed
qed simp

text \<open>The state at a position of a message, with nothing left of the letter before it.\<close>

definition at_char :: "u8 list \<Rightarrow> bool \<Rightarrow> nat \<Rightarrow> morse_state \<Rightarrow> bool" where
  "at_char m rep p s \<longleftrightarrow> morse_msg s = Some m \<and> morse_repeat s = rep \<and> morse_ptr s = Some p \<and> morse_bits s = 0"

lemma rest_of_letter:
  "morse_ptr s = Some p \<Longrightarrow> unat (morse_bits s) = n \<Longrightarrow>
    update_ones n s = Some (code_signal (morse_code s) n, s\<lparr>morse_code := drop_bit n (morse_code s), morse_bits := 0\<rparr>)"
proof (induction n arbitrary: s)
  case 0
  then have "morse_bits s = 0" by (simp add: unat_eq_zero)
  then show ?case by (cases s) (simp add: code_signal_def)
next
  case (Suc n)
  let ?s = "s\<lparr>morse_code := drop_bit 1 (morse_code s), morse_bits := morse_bits s - 1\<rparr>"
  have b: "morse_bits s \<noteq> 0" using Suc.prems(2) by auto
  then have "unat (morse_bits s - 1) = n" using Suc.prems(2) by (simp add: unat_minus_one)
  then have "update_ones n ?s = Some (code_signal (drop_bit 1 (morse_code s)) n, ?s\<lparr>morse_code := drop_bit n (drop_bit 1 (morse_code s)), morse_bits := 0\<rparr>)"
    using Suc.IH [of ?s] Suc.prems(1) by simp
  then show ?case using Suc.prems(1) b
    by (simp add: update_one_def shift_out_def code_signal_Suc drop_bit_drop_bit)
qed

lemma one_letter:
  assumes "at_char m rep p s" "p < length m" "m ! p \<noteq> 0"
  shows "\<exists>s'. update_ones (length (char_signal (m ! p))) s = Some (char_signal (m ! p), s') \<and> at_char m rep (p + 1) s'"
proof -
  obtain code bits where cb: "letter_code (m ! p) = (code, bits)" by force
  from letter_code_signal [of "m ! p"] cb have b: "bits \<noteq> 0" "code_signal code (unat bits) = char_signal (m ! p)" by simp_all
  obtain n where n: "unat bits = Suc n" using b(1) by (cases "unat bits") (simp_all add: unat_eq_zero)
  have l: "length (char_signal (m ! p)) = Suc n" using n by (simp add: code_signal_def flip: b(2))
  let ?t = "s\<lparr>morse_ptr := Some (p + 1), morse_code := drop_bit 1 code, morse_bits := bits - 1\<rparr>"
  have u: "update_one s = Some (code AND 1 \<noteq> 0, ?t)"
    using assms cb by (simp add: at_char_def update_one_def morse_char_def next_letter_def shift_out_def)
  have "unat (bits - 1) = n" using n b(1) by (simp add: unat_minus_one)
  then have "update_ones n ?t = Some (code_signal (drop_bit 1 code) n, ?t\<lparr>morse_code := drop_bit n (drop_bit 1 code), morse_bits := 0\<rparr>)"
    using rest_of_letter [of ?t "p + 1" n] by simp
  moreover have "char_signal (m ! p) = (code AND 1 \<noteq> 0) # code_signal (drop_bit 1 code) n"
    using code_signal_Suc [of code n] b(2) n by simp
  ultimately show ?thesis using assms(1) unfolding l by (simp add: u at_char_def)
qed

definition signal :: "u8 list \<Rightarrow> bool list" where
  "signal cs = concat (map char_signal cs)"

lemma text_plays:
  "at_char m rep (length pre) s \<Longrightarrow> m = pre @ cs @ rest \<Longrightarrow> 0 \<notin> set cs \<Longrightarrow>
    \<exists>s'. update_ones (length (signal cs)) s = Some (signal cs, s') \<and> at_char m rep (length pre + length cs) s'"
proof (induction cs arbitrary: pre s)
  case Nil
  then show ?case by (simp add: signal_def)
next
  case (Cons c cs)
  have c: "m ! length pre = c" "length pre < length m" "c \<noteq> 0" using Cons.prems by auto
  from one_letter [OF Cons.prems(1) c(2)] c obtain s1 where
    1: "update_ones (length (char_signal c)) s = Some (char_signal c, s1)" "at_char m rep (length (pre @ [c])) s1" by auto
  from Cons.IH [OF 1(2)] Cons.prems obtain s2 where
    "update_ones (length (signal cs)) s1 = Some (signal cs, s2)" "at_char m rep (length (pre @ [c]) + length cs) s2" by auto
  with 1 show ?case by (simp add: signal_def update_ones_add)
qed

lemma message_stops:
  assumes "at_char m False p s" "p < length m" "m ! p = 0"
  shows "\<exists>s'. update_ones n s = Some (replicate n False, s')"
proof -
  have idle: "update_ones n t = Some (replicate n False, t)" if "morse_ptr t = None" for n t
    using that by (induction n) (simp_all add: update_one_def)
  have "update_one s = Some (False, s\<lparr>morse_ptr := None\<rparr>)" using assms by (simp add: at_char_def update_one_def morse_char_def)
  then show ?thesis using idle by (cases n) simp_all
qed

text \<open>At the end of a message that is repeated the next step is the first one of the message.\<close>

lemma message_restarts:
  assumes "at_char m True p s" "p < length m" "m ! p = 0" "m \<noteq> []" "m ! 0 \<noteq> 0"
  shows "update_one s = update_one (s\<lparr>morse_ptr := Some 0\<rparr>)"
proof -
  have "s\<lparr>morse_ptr := Some 0\<rparr> = s\<lparr>morse_ptr := Some 0, morse_repeat := True\<rparr>" using assms(1) by (cases s) (simp add: at_char_def)
  then show ?thesis using assms
    by (simp add: at_char_def update_one_def morse_char_def next_letter_def shift_out_def split: prod.splits)
qed

lemma repeats_play:
  assumes m: "m = cs @ 0 # rest" and ne: "cs \<noteq> []" "0 \<notin> set cs"
  shows "at_char m True 0 s \<or> at_char m True (length cs) s \<Longrightarrow>
    \<exists>s'. update_ones (k * length (signal cs)) s = Some (concat (replicate k (signal cs)), s') \<and> (at_char m True 0 s' \<or> at_char m True (length cs) s')"
proof (induction k arbitrary: s)
  case 0
  then show ?case by simp
next
  case (Suc k)
  let ?s = "s\<lparr>morse_ptr := Some 0\<rparr>"
  have s0: "at_char m True 0 ?s" using Suc.prems by (auto simp: at_char_def)
  have f: "m ! 0 \<noteq> 0" "m \<noteq> []" "m ! length cs = 0" "length cs < length m"
    using ne by (cases cs) (auto simp: m nth_append)
  have e: "update_one s = update_one ?s"
  proof (cases "at_char m True 0 s")
    case True
    then have "?s = s" by (cases s) (simp add: at_char_def)
    then show ?thesis by simp
  next
    case False
    then show ?thesis using message_restarts Suc.prems f by blast
  qed
  from text_plays [of m True "[]" ?s cs "0 # rest"] s0 m ne(2) obtain s1 where
    1: "update_ones (length (signal cs)) ?s = Some (signal cs, s1)" "at_char m True (length cs) s1" by auto
  obtain c cs' where "cs = c # cs'" using ne(1) by (cases cs) auto
  then have "length (signal cs) \<noteq> 0" using letter_code_signal [of c]
    by (auto simp: signal_def char_signal_def)
  then obtain n where n: "length (signal cs) = Suc n" by (cases "length (signal cs)") auto
  have "update_ones (length (signal cs)) s = Some (signal cs, s1)" using 1(1) unfolding n by (simp add: e)
  with Suc.IH [of s1] 1(2) show ?case by (auto simp: update_ones_add)
qed

text \<open>
  C34. A message started on an interface whose LED is between two letters plays exactly its international
  Morse code, one unit for each call; then the LED stays off, or, for a repeated message that is not empty,
  the code is played again without end. No other interface is disturbed.
\<close>

theorem morse_plays:
  assumes "0 \<le> number" and "nat number < length l" and "morse_bits (l ! nat number) = 0" and "0 \<notin> set cs"
    and "morse number (Some (cs @ 0 # rest)) rep l = Some l'"
  shows "if rep \<and> cs \<noteq> [] then \<exists>s. morse_updates number (k * length (signal cs)) l' = Some (concat (replicate k (signal cs)), l[nat number := s])
    else rep \<or> (\<exists>s. morse_updates number (length (signal cs) + k) l' = Some (signal cs @ replicate k False, l[nat number := s]))"
proof -
  let ?m = "cs @ 0 # rest" and ?s = "morse_start (Some (cs @ 0 # rest)) rep (l ! nat number)"
  have l': "l' = l[nat number := ?s]" using assms(1,2,5) by (simp add: morse_def)
  have s: "at_char ?m rep 0 ?s" using assms(3) by (simp add: at_char_def morse_start_def)
  have u: "morse_updates number n l' = map_option (\<lambda>(rs, s). (rs, l[nat number := s])) (update_ones n ?s)" for n
    using morse_updates_one [of number l' n] assms(1,2) by (simp add: l')
  show ?thesis
  proof (cases "rep \<and> cs \<noteq> []")
    case True
    with repeats_play [OF refl _ assms(4), where s = ?s and k = k and rest = rest] s obtain s' where
      "update_ones (k * length (signal cs)) ?s = Some (concat (replicate k (signal cs)), s')" by auto
    then show ?thesis using True by (auto simp: u)
  next
    case False
    show ?thesis
    proof (cases rep)
      case False
      from text_plays [of ?m rep "[]" ?s cs "0 # rest"] s assms(4) obtain s1 where
        1: "update_ones (length (signal cs)) ?s = Some (signal cs, s1)" "at_char ?m rep (length cs) s1" by auto
      from message_stops [of ?m "length cs" s1 k] 1(2) False obtain s2 where
        "update_ones k s1 = Some (replicate k False, s2)" by auto
      then show ?thesis using False 1(1) by (auto simp: u update_ones_add)
    qed (use False in simp)
  qed
qed

theorem morse_plays_witness:
  "morse 1 (Some (str ''SOS'' @ 0 # [])) False morse_list_init \<noteq> None \<and>
   (\<exists>l l' s. morse 1 (Some (str ''SOS'' @ 0 # [])) False l = Some l' \<and>
     morse_updates 1 (length (signal (str ''SOS'')) + 5) l' = Some (signal (str ''SOS'') @ replicate 5 False, l[1 := s]))"
proof -
  let ?l' = "morse_list_init[1 := morse_start (Some (str ''SOS'' @ 0 # [])) False morse_init]"
  have m: "morse 1 (Some (str ''SOS'' @ 0 # [])) False morse_list_init = Some ?l'" by (simp add: morse_def morse_list_init_def)
  have "morse_bits (morse_list_init ! nat 1) = 0" "nat 1 < length morse_list_init" "0 \<notin> set (str ''SOS'')"
    by (simp_all add: morse_list_init_def morse_init_def)
  from morse_plays [OF _ this(2,1,3) m, of 5] m show ?thesis by (auto simp del: str_Cons)
qed

end
