(* ===== verification/Tasks.thy ===== *)
theory Tasks
  imports Prelude
begin

text \<open>
  \<open>src/src/general.c\<close>: the numbers of the tasks that serve a debugger and of the interfaces they serve. The
  running task is an argument (\<open>None\<close> is the NULL that \<open>xTaskGetCurrentTaskHandle\<close> gives before the scheduler
  runs). The functions that lock and unlock are empty in the source.
\<close>

subsection \<open>Definitions\<close>

record tasks =
  pid_list :: "nat option list"
  interface_number_list :: "int list"
  interface_busy_list :: "bool list"

definition tasks_init :: tasks where
  "tasks_init = \<lparr>pid_list = replicate 2 None, interface_number_list = replicate 2 0, interface_busy_list = replicate 2 False\<rparr>"

text \<open>The loop goes on after it has entered the task; \<open>insertIndex\<close> stays -1, so nothing is taken back.\<close>

fun add_pid_loop :: "nat \<Rightarrow> nat option list \<Rightarrow> nat option list" where
  "add_pid_loop pid [] = []"
| "add_pid_loop pid (x # xs) =
     (if x = None then Some pid # add_pid_loop pid xs
      else if x = Some pid then x # xs
      else x # add_pid_loop pid xs)"

definition add_pid_to_list :: "nat option \<Rightarrow> tasks \<Rightarrow> tasks" where
  "add_pid_to_list pid s = (case pid of None \<Rightarrow> s | Some p \<Rightarrow> s\<lparr>pid_list := add_pid_loop p (pid_list s)\<rparr>)"

fun thread_number_loop :: "nat option \<Rightarrow> int \<Rightarrow> nat option list \<Rightarrow> int" where
  "thread_number_loop pid i [] = -1"
| "thread_number_loop pid i (x # xs) = (if x = pid then i else thread_number_loop pid (i + 1) xs)"

definition get_thread_number :: "nat option \<Rightarrow> tasks \<Rightarrow> int" where
  "get_thread_number pid s = thread_number_loop pid 0 (pid_list s)"

definition interface_numbers_init :: "tasks \<Rightarrow> tasks" where
  "interface_numbers_init s = s\<lparr>interface_number_list := replicate 2 (-1)\<rparr>"

definition get_interface_number :: "nat option \<Rightarrow> tasks \<Rightarrow> int" where
  "get_interface_number pid s =
     (let thread_number = get_thread_number pid s
      in if thread_number < 0 then -1 else interface_number_list s ! nat thread_number)"

text \<open>A task without a number gets \<open>-1\<close>, which as a \<open>bool\<close> is true. A number that is no interface is outside
  the array.\<close>

definition set_interface_number :: "nat option \<Rightarrow> int \<Rightarrow> tasks \<Rightarrow> (bool \<times> tasks) option" where
  "set_interface_number pid number s =
     (let thread_number = get_thread_number pid s
      in if thread_number < 0 then Some (True, s)
         else if \<not> (0 \<le> number \<and> nat number < length (interface_busy_list s)) then None
         else if interface_busy_list s ! nat number then Some (False, s)
         else Some (True, s\<lparr>interface_busy_list := (interface_busy_list s)[nat number := True],
                interface_number_list := (interface_number_list s)[nat thread_number := number]\<rparr>))"

definition free_interface :: "nat option \<Rightarrow> int \<Rightarrow> tasks \<Rightarrow> (bool \<times> tasks) option" where
  "free_interface pid number s =
     (let thread_number = get_thread_number pid s
      in if thread_number < 0 then Some (True, s)
         else if \<not> (0 \<le> number \<and> nat number < length (interface_busy_list s)) then None
         else if \<not> interface_busy_list s ! nat number then Some (False, s)
         else Some (True, s\<lparr>interface_busy_list := (interface_busy_list s)[nat number := False],
                interface_number_list := (interface_number_list s)[nat thread_number := -1]\<rparr>))"

subsection \<open>Numbers\<close>

lemma add_pid_full: "None \<notin> set (xs :: nat option list) \<Longrightarrow> add_pid_loop p xs = xs"
proof (induction p xs rule: add_pid_loop.induct)
  case (2 pid x xs)
  then show ?case by (cases x) auto
qed simp

lemma add_pid_empty: "add_pid_loop p (replicate n None) = replicate n (Some p)"
  by (induction n) simp_all

lemma thread_number_absent: "pid \<notin> set xs \<Longrightarrow> thread_number_loop pid i xs = -1"
  by (induction xs arbitrary: i) auto

text \<open>
  C35. The first task that enters itself takes every entry of the list: all other tasks have no number from
  then on, however often they enter themselves; their interface is \<open>-1\<close> and a request for an interface is
  answered with success although nothing is recorded.
\<close>

theorem first_task_takes_all:
  assumes "pid_list s = replicate (Suc n) None" and "p \<noteq> q"
  shows "let s' = add_pid_to_list (Some q) (add_pid_to_list (Some p) s) in
    s' = add_pid_to_list (Some p) s \<and> get_thread_number (Some p) s' = 0 \<and> get_thread_number (Some q) s' = -1 \<and>
    get_interface_number (Some q) s' = -1 \<and> set_interface_number (Some q) number s' = Some (True, s')"
proof -
  have a: "add_pid_to_list (Some p) s = s\<lparr>pid_list := replicate (Suc n) (Some p)\<rparr>"
    using add_pid_empty [of p "Suc n"] assms(1) by (simp add: add_pid_to_list_def del: replicate_Suc)
  have f: "add_pid_loop q (replicate (Suc n) (Some p)) = replicate (Suc n) (Some p)" by (rule add_pid_full) simp
  have q: "get_thread_number (Some q) (s\<lparr>pid_list := replicate (Suc n) (Some p)\<rparr>) = -1"
    unfolding get_thread_number_def by (rule thread_number_absent) (use assms(2) in simp)
  have "add_pid_to_list (Some q) (s\<lparr>pid_list := replicate (Suc n) (Some p)\<rparr>) = s\<lparr>pid_list := replicate (Suc n) (Some p)\<rparr>"
    using f by (simp add: add_pid_to_list_def del: replicate_Suc)
  then show ?thesis unfolding a Let_def using q
    by (simp add: get_interface_number_def set_interface_number_def get_thread_number_def)
qed

theorem first_task_takes_all_witness:
  "get_interface_number (Some 7) (add_pid_to_list (Some 7) (add_pid_to_list (Some 5) tasks_init)) = -1"
proof -
  have "pid_list tasks_init = replicate (Suc 1) None" by (simp add: tasks_init_def numeral_2_eq_2)
  moreover have "(5 :: nat) \<noteq> 7" by simp
  ultimately show ?thesis using first_task_takes_all [of tasks_init 1 5 7 0] unfolding Let_def by blast
qed

end
