(* ===== verification/Command.thy ===== *)
theory Command
  imports Gdb_Session Cortexm_Probe Stm32f1
begin

unbundle bit_operations_syntax

text \<open>
  \<open>src/src/command.c\<close>: the monitor commands of the probe. A command line is cut into words; the first word
  selects a command of \<open>cmd_list\<close>, which works on the probe state of \<open>Target_List\<close>. What a command calls
  outside the file is the record \<open>cmd_env\<close>: the output and the allocator (\<open>env\<close> of \<open>Gdb_Main\<close>), the functions
  of the platform behind the controller, the two scans (which may raise an exception), the message of the
  Morse signal, the flag \<open>debug_bmp\<close>. \<open>PLATFORM_HAS_POWER_SWITCH\<close> and \<open>PLATFORM_HAS_DEBUG\<close> are defined,
  \<open>PLATFORM_HAS_TRACESWO\<close> is not. A null pointer that is followed has no result.
\<close>

subsection \<open>Surroundings\<close>

record 'w cmd_env =
  ce_env :: "'w env"
  ce_tc_bytes :: "nat \<Rightarrow> u8 list" \<comment> \<open>the bytes at the address of a controller, up to the first zero\<close>
  ce_ident :: "u8 list" \<comment> \<open>\<open>BOARD_IDENT\<close>\<close>
  ce_hwversion :: int
  ce_voltage :: "nat \<Rightarrow> ('w \<Rightarrow> u8 list \<times> 'w) option" \<comment> \<open>\<open>platform_get_voltage\<close>, or NULL\<close>
  ce_srst :: "nat \<Rightarrow> bool \<Rightarrow> 'w \<Rightarrow> 'w"
  ce_freq_set :: "nat \<Rightarrow> u32 \<Rightarrow> 'w \<Rightarrow> 'w"
  ce_freq_get :: "nat \<Rightarrow> 'w \<Rightarrow> u32 \<times> 'w"
  ce_power_get :: "nat \<Rightarrow> 'w \<Rightarrow> bool \<times> 'w"
  ce_power_set :: "nat \<Rightarrow> bool \<Rightarrow> 'w \<Rightarrow> 'w"
  ce_voltage_sense :: "nat \<Rightarrow> 'w \<Rightarrow> u32 \<times> 'w"
  ce_jtag_scan :: "nat \<Rightarrow> u8 list option \<Rightarrow> 'w probe \<Rightarrow> ('w probe, int) outcome"
  ce_swdp_scan :: "nat \<Rightarrow> u32 \<Rightarrow> 'w probe \<Rightarrow> ('w probe, int) outcome"
  ce_morse_msg :: "'w \<Rightarrow> u8 list option option"
  ce_debug_get :: "'w \<Rightarrow> bool"
  ce_debug_set :: "bool \<Rightarrow> 'w \<Rightarrow> 'w"
  ce_fixed2 :: "u32 \<Rightarrow> u32 \<Rightarrow> u8 list" \<comment> \<open>\<open>%.2f\<close> of a frequency as a \<open>float\<close>, over a divisor\<close>

definition FREQ_FIXED :: u32 where "FREQ_FIXED = 0xffffffff"
definition POWER_CONFLICT_THRESHOLD :: u32 where "POWER_CONFLICT_THRESHOLD = 5"

text \<open>\<open>gdb_out\<close> and \<open>gdb_outf\<close>, and a function of the platform, in the probe state.\<close>

definition say :: "'w cmd_env \<Rightarrow> u8 list \<Rightarrow> 'w probe \<Rightarrow> 'w probe option" where
  "say E txt p = do { w \<leftarrow> gdb_out (e_io (ce_env E)) (e_heap (ce_env E)) txt (p_world p); Some (p\<lparr>p_world := w\<rparr>) }"

definition sayf :: "'w cmd_env \<Rightarrow> u8 list \<Rightarrow> 'w probe \<Rightarrow> 'w probe option" where
  "sayf E txt p = do { w \<leftarrow> gdb_outf (e_io (ce_env E)) (e_heap (ce_env E)) txt (p_world p); Some (p\<lparr>p_world := w\<rparr>) }"

definition do_world :: "('w \<Rightarrow> 'w) \<Rightarrow> 'w probe \<Rightarrow> 'w probe" where
  "do_world f p = p\<lparr>p_world := f (p_world p)\<rparr>"

definition ask :: "('w \<Rightarrow> 'a \<times> 'w) \<Rightarrow> 'w probe \<Rightarrow> 'a \<times> 'w probe" where
  "ask f p = (case f (p_world p) of (x, w) \<Rightarrow> (x, p\<lparr>p_world := w\<rparr>))"

text \<open>\<open>atoi\<close> and \<open>atol\<close>, \<open>strtoul(s, NULL, 16)\<close>, and the character at which \<open>strtol(s, &p, 10)\<close> stops (zero at
  the end). \<open>%d\<close> and \<open>%p\<close>.\<close>

definition atoi :: "u8 list \<Rightarrow> int" where
  "atoi s = (case scan_dec s of None \<Rightarrow> 0 | Some (v, n) \<Rightarrow> v)"

definition strtoul_hex :: "u8 list \<Rightarrow> u32" where
  "strtoul_hex s = (case scan_hex None s of None \<Rightarrow> 0 | Some (v, n) \<Rightarrow> v)"

definition strtol_end :: "u8 list \<Rightarrow> u8" where
  "strtol_end s = (let r = (case scan_dec s of None \<Rightarrow> s | Some (v, n) \<Rightarrow> drop n s) in if r = [] then 0 else hd r)"

definition fmt_d :: "int \<Rightarrow> u8 list" where
  "fmt_d i = (if i < 0 then MINUS # dec_of_nat (nat (- i)) else dec_of_nat (nat i))"

definition fmt_2d :: "int \<Rightarrow> u8 list" where
  "fmt_2d i = replicate (2 - length (fmt_d i)) (ch CHR '' '') @ fmt_d i"

definition fmt_p :: "u32 \<Rightarrow> u8 list" where
  "fmt_p v = str ''0x'' @ fmt_x v"

subsection \<open>The list of commands\<close>

definition cmd_texts :: "(u8 list \<times> u8 list) list" where
  "cmd_texts =
     [(str ''version'', str ''Display firmware version info''),
      (str ''help'', str ''Display help for monitor commands''),
      (str ''jtag_scan'', str ''Scan JTAG chain for devices''),
      (str ''swdp_scan'', str ''Scan SW-DP for devices''),
      (str ''frequency'', str ''set minimum high and low times''),
      (str ''targets'', str ''Display list of available targets''),
      (str ''morse'', str ''Display morse error message''),
      (str ''halt_timeout'', str ''Timeout (ms) to wait until Cortex-M is halted: (Default 2000)''),
      (str ''connect_srst'', str ''Configure connect under SRST: (enable|disable)''),
      (str ''hard_srst'', str ''Force a pulse on the hard SRST line - disconnects target''),
      (str ''tpwr'', str ''Supplies power to the target: (enable|disable)''),
      (str ''heapinfo'', str ''Set semihosting heapinfo''),
      (str ''debug_bmp'', str ''Output BMP '' @ [34] @ str ''debug'' @ [34] @ str '' strings to the second vcom: (enable|disable)'')]"

text \<open>A handler gets the controller, whose address is \<open>argv[0]\<close>, its current target and \<open>argv\<close>; the first word of
  the line is \<open>argv[1]\<close>. Most handlers drop \<open>argv[0]\<close> first, so that the word is their \<open>argv[0]\<close>; those that do
  not still count their arguments from one.\<close>

type_synonym 'w cmd_fun = "nat \<Rightarrow> nat option \<Rightarrow> u8 list list \<Rightarrow> 'w probe \<Rightarrow> (bool \<times> 'w probe) option"

subsection \<open>The commands\<close>

definition cmd_version :: "'w cmd_env \<Rightarrow> 'w cmd_fun" where
  "cmd_version E tc t argv p =
     do { p \<leftarrow> say E (ce_ident E) p;
          p \<leftarrow> sayf E (str '', Hardware Version '' @ fmt_d (ce_hwversion E) @ [10]) p;
          p \<leftarrow> say E (str ''Copyright (C) 2015  Black Sphere Technologies Ltd.'' @ [10]) p;
          p \<leftarrow> say E (str ''License GPLv3+: GNU GPL version 3 or later <http://gnu.org/licenses/gpl.html>'' @ [10, 10]) p;
          Some (True, p) }"

fun help_lines :: "'w cmd_env \<Rightarrow> (u8 list \<times> u8 list) list \<Rightarrow> 'w probe \<Rightarrow> 'w probe option" where
  "help_lines E [] p = Some p"
| "help_lines E ((c, h) # cs) p = do { p \<leftarrow> sayf E (9 # c @ str '' -- '' @ h @ [10]) p; help_lines E cs p }"

text \<open>The \<open>-1\<close> that is returned without a target is true as a \<open>bool\<close>.\<close>

definition monitor_help :: "'w cmd_env \<Rightarrow> 'w cmd_fun" where
  "monitor_help E tc t argv p =
     do { general \<leftarrow> (case t of
            None \<Rightarrow> Some True
          | Some a \<Rightarrow> do { s \<leftarrow> p_targets p a; c \<leftarrow> t_tc s; k \<leftarrow> p_ctls p c; Some (destroy_callback k) });
          p \<leftarrow> (if general then do { p \<leftarrow> say E (str ''General commands:'' @ [10]) p; help_lines E cmd_texts p } else Some p);
          case t of
            None \<Rightarrow> Some (True, p)
          | Some a \<Rightarrow> do { p \<leftarrow> target_command_help (e_io (ce_env E)) (e_heap (ce_env E)) t p; Some (True, p) } }"

definition display_target :: "'w cmd_env \<Rightarrow> nat \<Rightarrow> nat \<Rightarrow> 'w probe \<Rightarrow> 'w probe option" where
  "display_target E i a p =
     do { t \<leftarrow> p_targets p a;
          if target_driver_name t = [] then None
          else if target_driver_name t = str ''ARM Cortex-M'' then
            sayf E (str ''***'' @ fmt_2d (int i) @ (if target_attached t then str '' * '' else str '' '') @ str ''Unknown '' @
              target_driver_name t @ str '' Designer '' @ fmt_3x (ucast (target_designer t)) @ str '' Partno '' @
              fmt_3x (ucast (target_idcode t)) @ str '' '' @ target_core_name t @ [10]) p
          else
            sayf E (fmt_2d (int i) @ str ''   '' @ (if target_attached t then str ''*'' else str '' '') @ str ''  '' @
              target_driver_name t @ str '' '' @ target_core_name t @ [10]) p }"

definition cmd_targets :: "'w cmd_env \<Rightarrow> 'w cmd_fun" where
  "cmd_targets E tc t argv p =
     do { p \<leftarrow> say E (str ''Available Targets:'' @ [10]) p;
          p \<leftarrow> say E (str ''No. Att Driver'' @ [10]) p;
          k \<leftarrow> p_ctls p tc;
          (n, p) \<leftarrow> target_foreach (target_list k) (display_target E) p;
          if n = 0 then do { p \<leftarrow> say E (str ''No usable targets found.'' @ [10]) p; Some (False, p) }
          else Some (True, p) }"

text \<open>What \<open>cmd_jtag_scan\<close> and \<open>cmd_swdp_scan\<close> share: before the scan, the report of a caught exception, and
  what follows the scan.\<close>

definition before_scan :: "'w cmd_env \<Rightarrow> nat \<Rightarrow> 'w probe \<Rightarrow> 'w probe option" where
  "before_scan E tc p =
     do { p \<leftarrow> (case ce_voltage E tc of
                  None \<Rightarrow> Some p
                | Some f \<Rightarrow> case ask f p of (v, p) \<Rightarrow> sayf E (str ''Target voltage: '' @ v @ [10]) p);
          k \<leftarrow> p_ctls p tc;
          Some (if connect_assert_srst k then do_world (ce_srst E tc True) p else p) }"

definition report_exn :: "'w cmd_env \<Rightarrow> exn option \<Rightarrow> 'w probe \<Rightarrow> 'w probe option" where
  "report_exn E e p =
     (case e of
        None \<Rightarrow> Some p
      | Some (Exn ty msg) \<Rightarrow>
          if ty = EXCEPTION_TIMEOUT then sayf E (str ''Timeout during scan. Is target stuck in WFI?'' @ [10]) p
          else if ty = EXCEPTION_ERROR then sayf E (str ''Exception: '' @ str msg @ [10]) p
          else Some p)"

definition after_scan :: "'w cmd_env \<Rightarrow> u8 list \<Rightarrow> nat \<Rightarrow> u8 list list \<Rightarrow> ('w probe, int) outcome \<Rightarrow> (bool \<times> 'w probe) option" where
  "after_scan E failed tc argv scan =
     (case try_catch EXCEPTION_ALL scan (\<lambda>e devs p. Some (Inr (e, devs), p)) of
        Some (Inr (e, devs), p) \<Rightarrow>
          do { p \<leftarrow> report_exn E e p;
               if (case devs of None \<Rightarrow> -1 | Some n \<Rightarrow> n) \<le> 0
               then do { p \<leftarrow> say E failed (do_world (ce_srst E tc False) p); Some (False, p) }
               else do { (ok, p) \<leftarrow> cmd_targets E tc None argv p;
                         Some (True, morse_off (ce_env E) p) } }
      | _ \<Rightarrow> None)"

definition cmd_jtag_scan :: "'w cmd_env \<Rightarrow> 'w cmd_fun" where
  "cmd_jtag_scan E tc t argv p =
     (let args = drop 1 argv;
          irlens = (if length args > 1 then Some (map (\<lambda>a. word_of_int (atoi a)) (tl args) @ [0]) else None)
      in do { p \<leftarrow> before_scan E tc p;
              after_scan E (str ''JTAG device scan failed!'' @ [10]) tc argv (ce_jtag_scan E tc irlens p) })"

definition cmd_swdp_scan :: "'w cmd_env \<Rightarrow> 'w cmd_fun" where
  "cmd_swdp_scan E tc t argv p =
     (let args = drop 1 argv;
          targetid = (if length args > 1 then word_of_int (strtol_auto (args ! 1)) else 0)
      in do { p \<leftarrow> before_scan E tc p;
              after_scan E (str ''SW-DP scan failed!'' @ [10]) tc argv (ce_swdp_scan E tc targetid p) })"

definition frequency_arg :: "u8 list \<Rightarrow> u32" where
  "frequency_arg s =
     (let f = word_of_int (atoi s); p = strtol_end s
      in if p = ch CHR ''k'' then f * 1000 else if p = ch CHR ''M'' then f * 1000000 else f)"

definition cmd_frequency :: "'w cmd_env \<Rightarrow> 'w cmd_fun" where
  "cmd_frequency E tc t argv p =
     (let args = drop 1 argv;
          p = (if length args = 2 then do_world (ce_freq_set E tc (frequency_arg (args ! 1))) p else p)
      in case ask (ce_freq_get E tc) p of (freq, p) \<Rightarrow>
         do { p \<leftarrow> sayf E (if freq = FREQ_FIXED then str ''SWJ frequency is fixed'' @ [10]
                else str ''Max SWJ frequency is '' @
                  (if freq \<ge> 1000000 then ce_fixed2 E freq 1000000 @ str '' MHz''
                   else if freq \<ge> 1000 then ce_fixed2 E freq 1000 @ str '' kHz''
                   else ce_fixed2 E freq 1 @ str '' Hz'') @ [10]) p;
              Some (True, p) })"

definition cmd_morse :: "'w cmd_env \<Rightarrow> 'w cmd_fun" where
  "cmd_morse E tc t argv p =
     do { msg \<leftarrow> ce_morse_msg E (p_world p);
          p \<leftarrow> (case msg of None \<Rightarrow> Some p | Some m \<Rightarrow> sayf E (cstr m @ [10]) p);
          Some (True, p) }"

text \<open>\<open>parse_enable_or_disable\<close> of \<open>Cortexm\<close>, with an output that may not return.\<close>

definition enable_or_disable :: "'w cmd_env \<Rightarrow> u8 list \<Rightarrow> 'w probe \<Rightarrow> (bool option \<times> 'w probe) option" where
  "enable_or_disable E a p =
     (case parse_enable_or_disable (\<lambda>q txt. Option.bind q (sayf E txt)) a (Some p) of (r, q) \<Rightarrow> map_option (Pair r) q)"

definition cmd_connect_srst :: "'w cmd_env \<Rightarrow> 'w cmd_fun" where
  "cmd_connect_srst E tc t argv p =
     (let args = drop 1 argv
      in do { (print_status, p) \<leftarrow>
                (if length args = 1 then Some (True, p)
                 else if length args = 2 then
                   do { (r, p) \<leftarrow> enable_or_disable E (args ! 1) p;
                        Some (case r of None \<Rightarrow> (False, p) | Some b \<Rightarrow> (True, set_ctl tc (\<lambda>k. k\<lparr>connect_assert_srst := b\<rparr>) p)) }
                 else do { p \<leftarrow> sayf E (str ''Unrecognized command format'' @ [10]) p; Some (False, p) });
              k \<leftarrow> p_ctls p tc;
              p \<leftarrow> (if print_status then sayf E (str ''Assert SRST during connect: '' @
                      (if connect_assert_srst k then str ''enabled'' else str ''disabled'') @ [10]) p else Some p);
              Some (True, p) })"

text \<open>\<open>argc > 1\<close> always holds here, and \<open>argv[1]\<close> is the name of the command.\<close>

definition cmd_halt_timeout :: "'w cmd_env \<Rightarrow> 'w cmd_fun" where
  "cmd_halt_timeout E tc t argv p =
     do { a \<leftarrow> t; s \<leftarrow> p_targets p a; c \<leftarrow> t_tc s;
          let p = (if length argv > 1 then set_ctl c (\<lambda>k. k\<lparr>cortexm_wait_timeout := word_of_int (atoi (argv ! 1))\<rparr>) p else p);
          k \<leftarrow> p_ctls p c;
          p \<leftarrow> sayf E (str ''Cortex-M timeout to wait for device haltes: '' @ fmt_d (sint (cortexm_wait_timeout k)) @ [10]) p;
          Some (True, p) }"

definition cmd_hard_srst :: "'w cmd_env \<Rightarrow> 'w cmd_fun" where
  "cmd_hard_srst E tc t argv p =
     do { p \<leftarrow> target_list_free (e_heap (ce_env E)) tc p;
          Some (True, do_world (ce_srst E tc False) (do_world (ce_srst E tc True) p)) }"

text \<open>To switch on a target whose voltage is sensed already is refused.\<close>

definition set_target_power :: "'w cmd_env \<Rightarrow> nat \<Rightarrow> bool \<Rightarrow> 'w probe \<Rightarrow> 'w probe option" where
  "set_target_power E tc want_enable p =
     (case (if want_enable then
              (case ask (ce_power_get E tc) p of (on, p) \<Rightarrow>
                 if on then (False, p)
                 else (case ask (ce_voltage_sense E tc) p of (v, p) \<Rightarrow> (v > POWER_CONFLICT_THRESHOLD, p)))
            else (False, p)) of (conflict, p) \<Rightarrow>
        if conflict then
          (case ce_voltage E tc of None \<Rightarrow> None
           | Some f \<Rightarrow> case ask f p of (v, p) \<Rightarrow> sayf E (str ''Target already powered ('' @ v @ str '')'' @ [10]) p)
        else sayf E ((if want_enable then str ''Enabling'' else str ''Disabling'') @ str '' target power'' @ [10])
               (do_world (ce_power_set E tc want_enable) p))"

definition cmd_target_power :: "'w cmd_env \<Rightarrow> 'w cmd_fun" where
  "cmd_target_power E tc t argv p =
     (let args = drop 1 argv
      in do { p \<leftarrow> (if length args = 1 then
                       (case ask (ce_power_get E tc) p of (on, p) \<Rightarrow>
                          sayf E (str ''Target Power: '' @ (if on then str ''enabled'' else str ''disabled'') @ [10]) p)
                     else if length args = 2 then
                       do { (r, p) \<leftarrow> enable_or_disable E (args ! 1) p;
                            case r of None \<Rightarrow> Some p | Some b \<Rightarrow> set_target_power E tc b p }
                     else sayf E (str ''Unrecognized command format'' @ [10]) p);
              Some (True, p) })"

definition cmd_heapinfo :: "'w cmd_env \<Rightarrow> 'w cmd_fun" where
  "cmd_heapinfo E tc t argv p =
     do { p \<leftarrow> (case t of
            None \<Rightarrow> say E (str ''not attached'' @ [10]) p
          | Some a \<Rightarrow>
              if length argv = 5 then
                let heap_base = strtoul_hex (argv ! 1); heap_limit = strtoul_hex (argv ! 2);
                    stack_base = strtoul_hex (argv ! 3); stack_limit = strtoul_hex (argv ! 4)
                in do { p \<leftarrow> sayf E (str ''heapinfo heap_base: '' @ fmt_p heap_base @ str '' heap_limit: '' @ fmt_p heap_limit @
                          str '' stack_base: '' @ fmt_p stack_base @ str '' stack_limit: '' @ fmt_p stack_limit @ [10]) p;
                        s \<leftarrow> target_set_heapinfo heap_base heap_limit stack_base stack_limit (p_targets p a);
                        Some (set_target a s p) }
              else sayf E (str ''heapinfo heap_base heap_limit stack_base stack_limit'' @ [10]) p);
          Some (True, p) }"

definition cmd_debug_bmp :: "'w cmd_env \<Rightarrow> 'w cmd_fun" where
  "cmd_debug_bmp E tc t argv p =
     do { (print_status, p) \<leftarrow>
            (if length argv = 1 then Some (True, p)
             else if length argv = 2 then
               do { (r, p) \<leftarrow> enable_or_disable E (argv ! 1) p;
                    Some (case r of None \<Rightarrow> (False, p) | Some b \<Rightarrow> (True, do_world (ce_debug_set E b) p)) }
             else do { p \<leftarrow> sayf E (str ''Unrecognized command format'' @ [10]) p; Some (False, p) });
          p \<leftarrow> (if print_status then sayf E (str ''Debug mode is '' @
                  (if ce_debug_get E (p_world p) then str ''enabled'' else str ''disabled'') @ [10]) p else Some p);
          Some (True, p) }"

definition cmd_handlers :: "'w cmd_env \<Rightarrow> 'w cmd_fun list" where
  "cmd_handlers E =
     [cmd_version E, monitor_help E, cmd_jtag_scan E, cmd_swdp_scan E, cmd_frequency E, cmd_targets E, cmd_morse E,
      cmd_halt_timeout E, cmd_connect_srst E, cmd_hard_srst E, cmd_target_power E, cmd_heapinfo E, cmd_debug_bmp E]"

definition cmd_list :: "'w cmd_env \<Rightarrow> ((u8 list \<times> u8 list) \<times> 'w cmd_fun) list" where
  "cmd_list E = zip cmd_texts (cmd_handlers E)"

subsection \<open>The interpreter\<close>

definition blank :: "u8 \<Rightarrow> bool" where
  "blank c \<longleftrightarrow> c = ch CHR '' '' \<or> c = 9"

text \<open>All the words that \<open>strtok(cmd, " \t")\<close> finds.\<close>

function strtok_words :: "u8 list \<Rightarrow> u8 list list" where
  "strtok_words s =
     (let s = dropWhile blank s
      in if s = [] then [] else takeWhile (\<lambda>c. \<not> blank c) s # strtok_words (dropWhile (\<lambda>c. \<not> blank c) s))"
  by pat_completeness auto
termination
proof (relation "measure length")
  fix s x :: "u8 list"
  assume x: "x = dropWhile blank s" "x \<noteq> []"
  then have "\<not> blank (hd x)" using hd_dropWhile by blast
  then have "length (dropWhile (\<lambda>c. \<not> blank c) x) < length x"
    using x(2) length_dropWhile_le [of "\<lambda>c. \<not> blank c" "tl x"] by (cases x) simp_all
  then show "(dropWhile (\<lambda>c. \<not> blank c) x, s) \<in> measure length"
    using length_dropWhile_le [of blank s] x(1) by simp
qed simp

declare strtok_words.simps [simp del]

text \<open>The number of pointers for which \<open>argv\<close> has room.\<close>

definition argc_estimate :: "u8 list \<Rightarrow> nat" where
  "argc_estimate line = 2 + length (filter blank line)"

text \<open>Without a current target \<open>argv\<close> is not freed.\<close>

definition command_process :: "'w cmd_env \<Rightarrow> 'w command_handler" where
  "command_process E tc line p =
     (case mm_alloc (e_heap (ce_env E)) (4 * argc_estimate line) (p_world p) of
        (None, w) \<Rightarrow> None
      | (Some q, w) \<Rightarrow>
          let p = p\<lparr>p_world := w\<rparr>;
              argv = ce_tc_bytes E tc # strtok_words line;
              free_argv = do_world (mm_free (e_heap (ce_env E)) (Some q))
          in if length argv < 2 \<or> argc_estimate line < length argv then None
             else do {
               k \<leftarrow> p_ctls p tc;
               case find (\<lambda>((c, h), f). strncmp_eq (argv ! 1) c (length (argv ! 1))) (cmd_list E) of
                 Some ((c, h), f) \<Rightarrow>
                   do { (ok, p) \<leftarrow> f tc (cur_target k) argv p; Some (if ok then 0 else 1, free_argv p) }
               | None \<Rightarrow>
                   (case cur_target k of
                      None \<Rightarrow> Some (-1, p)
                    | Some a \<Rightarrow>
                        do { (r, p) \<leftarrow> Target_List.on_target (Some a) (\<lambda>t. target_command t argv) p; Some (r, free_argv p) }) })"

subsection \<open>Words of a line\<close>

definition word :: "u8 list \<Rightarrow> bool" where
  "word w \<longleftrightarrow> w \<noteq> [] \<and> list_all (Not \<circ> blank) w"

lemma strtok_words_blank: "list_all blank b \<Longrightarrow> strtok_words (b @ s) = strtok_words s"
proof (induction b)
  case (Cons c b)
  then have "dropWhile blank ((c # b) @ s) = dropWhile blank (b @ s)" by simp
  then have "strtok_words ((c # b) @ s) = strtok_words (b @ s)"
    by (subst (1 2) strtok_words.simps) simp
  with Cons show ?case by simp
qed simp

lemma strtok_words_Nil [simp]: "strtok_words [] = []"
  by (simp add: strtok_words.simps)

lemma strtok_words_word:
  assumes "word w" and "s = [] \<or> blank (hd s)"
  shows "strtok_words (w @ s) = w # strtok_words s"
proof -
  obtain c w' where w: "w = c # w'" using assms(1) by (cases w) (auto simp: word_def)
  have "dropWhile blank (w @ s) = w @ s" using assms(1) by (simp add: w word_def)
  moreover have "takeWhile (\<lambda>c. \<not> blank c) (w @ s) = w @ takeWhile (\<lambda>c. \<not> blank c) s"
    "dropWhile (\<lambda>c. \<not> blank c) (w @ s) = dropWhile (\<lambda>c. \<not> blank c) s"
    using assms(1) by (simp_all add: word_def takeWhile_append dropWhile_append list_all_iff)
  moreover have "takeWhile (\<lambda>c. \<not> blank c) s = []" "dropWhile (\<lambda>c. \<not> blank c) s = s"
    using assms(2) by (cases s; simp)+
  ultimately show ?thesis by (subst strtok_words.simps) (simp add: w)
qed

text \<open>Words with blanks before each of them: at least one between two words.\<close>

definition spaced :: "(u8 list \<times> u8 list) list \<Rightarrow> u8 list" where
  "spaced bws = concat (map (\<lambda>(b, w). b @ w) bws)"

definition spacing_ok :: "(u8 list \<times> u8 list) list \<Rightarrow> bool" where
  "spacing_ok bws \<longleftrightarrow> list_all (\<lambda>(b, w). list_all blank b \<and> word w) bws \<and> list_all (\<lambda>(b, w). b \<noteq> []) (tl bws)"

lemma strtok_words_spaced:
  assumes "spacing_ok bws" and "list_all blank trail"
  shows "strtok_words (spaced bws @ trail) = map snd bws"
  using assms(1)
proof (induction bws)
  case Nil
  then show ?case using strtok_words_blank [OF assms(2), of "[]"] by (simp add: spaced_def)
next
  case (Cons bw bws)
  obtain b w where bw: "bw = (b, w)" by (cases bw)
  have b: "list_all blank b" "word w" and rest: "spacing_ok bws"
    using Cons.prems by (cases bws; auto simp: spacing_ok_def bw)+
  let ?s = "spaced bws @ trail"
  have "?s = [] \<or> blank (hd ?s)"
  proof (cases bws)
    case Nil
    then show ?thesis using assms(2) by (cases trail) (simp_all add: spaced_def)
  next
    case (Cons bw' bws')
    then show ?thesis using Cons.prems
      by (cases bw'; cases "fst bw'") (auto simp: spaced_def spacing_ok_def)
  qed
  then have "strtok_words (w @ ?s) = w # strtok_words ?s" by (rule strtok_words_word [OF b(2)])
  moreover have "spaced (bw # bws) @ trail = b @ w @ ?s" by (simp add: spaced_def bw)
  ultimately show ?case using strtok_words_blank [OF b(1), of "w @ ?s"] Cons.IH [OF rest] by (simp add: bw)
qed

text \<open>\<open>argv\<close> is large enough for every line.\<close>

lemma strtok_words_step:
  "dropWhile blank s \<noteq> [] \<Longrightarrow> strtok_words s =
     takeWhile (\<lambda>c. \<not> blank c) (dropWhile blank s) # strtok_words (dropWhile (\<lambda>c. \<not> blank c) (dropWhile blank s))"
  by (subst strtok_words.simps) (simp only: Let_def if_False)

lemma filter_dropWhile_le: "length (filter P (dropWhile Q xs)) \<le> length (filter P xs)"
  by (metis filter_append length_append le_add2 takeWhile_dropWhile_id)

lemma strtok_words_few:
  "length (strtok_words s) \<le> length (filter blank s) + (if s \<noteq> [] \<and> \<not> blank (hd s) then 1 else 0)"
proof (induction s rule: strtok_words.induct)
  case (1 s)
  let ?s = "dropWhile blank s" and ?r = "dropWhile (\<lambda>c. \<not> blank c) (dropWhile blank s)"
  show ?case
  proof (cases "?s = []")
    case True
    then show ?thesis by (subst strtok_words.simps) simp
  next
    case False
    have "length (strtok_words ?r) \<le> length (filter blank ?r)"
      using "1.IH" [OF refl False] hd_dropWhile [of "\<lambda>c. \<not> blank c" ?s] by (simp split: if_splits)
    then have w: "length (strtok_words s) \<le> length (filter blank ?s) + 1"
      using filter_dropWhile_le [of blank "\<lambda>c. \<not> blank c" ?s] by (simp add: strtok_words_step [OF False])
    show ?thesis
    proof (cases "blank (hd s)")
      case True
      then obtain c t where s: "s = c # t" "blank c" using False by (cases s) auto
      then show ?thesis using w filter_dropWhile_le [of blank blank t] by simp
    next
      case b: False
      then have "?s = s" "s \<noteq> []" using False by (cases s; simp)+
      then show ?thesis using w b by simp
    qed
  qed
qed

lemma argv_fits: "length (x # strtok_words s) \<le> argc_estimate s"
  using strtok_words_few [of s] by (simp add: argc_estimate_def split: if_splits)

subsection \<open>Which command a line runs\<close>

text \<open>\<open>w\<close> selects the entry \<open>i\<close> of the list: it is the beginning of that name and of no earlier one.\<close>

definition names :: "u8 list \<Rightarrow> nat \<Rightarrow> bool" where
  "names w i \<longleftrightarrow> i < length cmd_texts \<and> (\<exists>rest. fst (cmd_texts ! i) = w @ rest) \<and>
     (\<forall>j < i. \<nexists>rest. fst (cmd_texts ! j) = w @ rest)"

lemma strncmp_prefix: "strncmp_eq w c (length w) \<longleftrightarrow> (\<exists>rest. c = w @ rest)"
  by (auto simp: strncmp_eq_def) (metis append_take_drop_id)

lemma length_cmd_list [simp]: "length (cmd_handlers E) = length cmd_texts" "length (cmd_list E) = length cmd_texts"
  by (simp_all add: cmd_list_def cmd_handlers_def cmd_texts_def del: str_Cons)

lemma find_first:
  assumes "i < length xs" "P (xs ! i)" "\<And>j. j < i \<Longrightarrow> \<not> P (xs ! j)"
  shows "find P xs = Some (xs ! i)"
  using assms by (auto simp: find_Some_iff)

lemma find_names:
  assumes "names w i"
  shows "find (\<lambda>((c, h), f). strncmp_eq w c (length w)) (cmd_list E) = Some (cmd_texts ! i, cmd_handlers E ! i)"
proof -
  have n: "cmd_list E ! j = (cmd_texts ! j, cmd_handlers E ! j)" if "j < length cmd_texts" for j
    using that by (simp add: cmd_list_def)
  have i: "i < length cmd_texts" using assms by (simp add: names_def)
  have "find (\<lambda>((c, h), f). strncmp_eq w c (length w)) (cmd_list E) = Some (cmd_list E ! i)"
  proof (rule find_first)
    show "i < length (cmd_list E)" using i by simp
    show "(\<lambda>((c, h), f). strncmp_eq w c (length w)) (cmd_list E ! i)"
      using assms i by (auto simp: n names_def strncmp_prefix split: prod.split)
    fix j assume "j < i"
    then show "\<not> (\<lambda>((c, h), f). strncmp_eq w c (length w)) (cmd_list E ! j)"
      using assms i by (auto simp: n names_def strncmp_prefix split: prod.split)
  qed
  then show ?thesis using i by (simp add: n)
qed

text \<open>Every full name selects its own entry.\<close>

lemma full_names:
  assumes "i < length cmd_texts"
  shows "names (fst (cmd_texts ! i)) i"
proof -
  let ?abbr = "map (take 3 \<circ> fst) cmd_texts"
  have l: "\<forall>x \<in> set cmd_texts. 3 \<le> length (fst x)" by (simp add: cmd_texts_def del: str_Cons)
  have d: "distinct ?abbr" by (simp add: cmd_texts_def)
  have "fst (cmd_texts ! j) \<noteq> fst (cmd_texts ! i) @ rest" if "j < i" for j rest
  proof
    assume "fst (cmd_texts ! j) = fst (cmd_texts ! i) @ rest"
    moreover have "3 \<le> length (fst (cmd_texts ! i))" using l assms by simp
    ultimately have "?abbr ! j = ?abbr ! i" using that assms by simp
    then show False using nth_eq_iff_index_eq [OF d, of j i] that assms by simp
  qed
  then show ?thesis using assms by (simp add: names_def)
qed

lemma command_process_eq:
  assumes "strtok_words line = ws" "ws \<noteq> []" "p_ctls p tc = Some k"
    and "mm_alloc (e_heap (ce_env E)) (4 * argc_estimate line) (p_world p) = (Some q, w)"
  shows "command_process E tc line p =
     (case find (\<lambda>((c, h), f). strncmp_eq (hd ws) c (length (hd ws))) (cmd_list E) of
        Some ((c, h), f) \<Rightarrow>
          do { (ok, p) \<leftarrow> f tc (cur_target k) (ce_tc_bytes E tc # ws) (p\<lparr>p_world := w\<rparr>);
               Some (if ok then 0 else 1, do_world (mm_free (e_heap (ce_env E)) (Some q)) p) }
      | None \<Rightarrow>
          (case cur_target k of
             None \<Rightarrow> Some (-1, p\<lparr>p_world := w\<rparr>)
           | Some a \<Rightarrow>
               do { (r, p) \<leftarrow> Target_List.on_target (Some a) (\<lambda>t. target_command t (ce_tc_bytes E tc # ws)) (p\<lparr>p_world := w\<rparr>);
                    Some (r, do_world (mm_free (e_heap (ce_env E)) (Some q)) p) }))"
proof -
  have a: "\<not> (length (ce_tc_bytes E tc # ws) < 2 \<or> argc_estimate line < length (ce_tc_bytes E tc # ws))"
    using argv_fits [of "ce_tc_bytes E tc" line] assms(1,2) by (cases ws) simp_all
  have h: "(ce_tc_bytes E tc # ws) ! 1 = hd ws" using assms(2) by (cases ws) simp_all
  show ?thesis
    unfolding command_process_def assms(4) prod.case option.case Let_def assms(1) if_not_P [OF a] h using assms(3) by simp
qed

text \<open>A command is found by any beginning of its name that no earlier name of the list has, and gets exactly the
  words of the line, however they are spaced.\<close>

lemma monitor_command_runs:
  assumes "spacing_ok ((b, name) # bws)" and "list_all blank trail" and "names name i"
    and "line = spaced ((b, name) # bws) @ trail"
    and "p_ctls p tc = Some k"
    and "mm_alloc (e_heap (ce_env E)) (4 * argc_estimate line) (p_world p) = (Some q, w)"
    and "(cmd_handlers E ! i) tc (cur_target k) (ce_tc_bytes E tc # name # map snd bws) (p\<lparr>p_world := w\<rparr>) = Some (ok, p')"
  shows "command_process E tc line p = Some (if ok then 0 else 1, do_world (mm_free (e_heap (ce_env E)) (Some q)) p')"
proof -
  have ws: "strtok_words line = name # map snd bws"
    using strtok_words_spaced [OF assms(1,2)] by (simp add: assms(4))
  obtain c h where t: "cmd_texts ! i = (c, h)" by (cases "cmd_texts ! i")
  have "find (\<lambda>((c, h), f). strncmp_eq name c (length name)) (cmd_list E) = Some ((c, h), cmd_handlers E ! i)"
    using find_names [OF assms(3), of E] t by simp
  then show ?thesis using command_process_eq [OF ws _ assms(5,6)] assms(7) by simp
qed

text \<open>
  C20. A monitor command typed into the debugger: the packet \<open>qRcmd\<close> with the digits of a line runs the command
  whose name begins with the first word (and no earlier name does), on exactly the words of the line, however
  they are spaced; the array for the words is large enough for every line, and it and the decoded line are
  given back. The reply is \<open>OK\<close> when the command succeeded and the digits of \<open>Failed\<close> when it did not.
\<close>

theorem monitor_packet_runs:
  assumes "spacing_ok ((b, name) # bws)" and "list_all blank trail" and "names name i"
    and "line = spaced ((b, name) # bws) @ trail" and "0 \<notin> set line"
    and "p_pbuf p = str ''qRcmd,'' @ hexify_loop line @ rest"
    and "p_ctls p tc = Some k"
    and "mm_alloc (e_heap (ce_env E)) (length line + 1) (p_world p) = (Some d, w1)"
    and "mm_alloc (e_heap (ce_env E)) (4 * argc_estimate line) w1 = (Some q, w2)"
    and "(cmd_handlers E ! i) tc (cur_target k) (ce_tc_bytes E tc # name # map snd bws) (p\<lparr>p_world := w2\<rparr>) = Some (ok, p')"
  shows "handle_q_packet (ce_env E) (command_process E) tc (6 + 2 * length line) p =
     (let p = do_world (mm_free (e_heap (ce_env E)) (Some q)) p'
      in do { p \<leftarrow> (if ok then putz (ce_env E) ''OK'' p else put_hex (ce_env E) (str ''Failed'' @ [10]) p);
              Some (do_world (mm_free (e_heap (ce_env E)) (Some d)) p) })"
proof -
  have s: "starts_with ''qRcmd,'' (p_pbuf p)" by (simp add: starts_with_def assms(6) strncmp_eq_def)
  have u: "unhexify (drop 6 (p_pbuf p)) (length line) = Some line" by (simp add: assms(6) unhexify_hexify_loop)
  have c: "cstr line = line" using assms(5) by (rule cstr_id)
  have r: "command_process E tc line (p\<lparr>p_world := w1\<rparr>) = Some (if ok then 0 else 1, do_world (mm_free (e_heap (ce_env E)) (Some q)) p')"
    by (rule monitor_command_runs [OF assms(1-4)]) (use assms(7,9,10) in simp_all)
  have n: "(6 + 2 * length line - 6) div 2 = length line" by simp
  show ?thesis
    unfolding handle_q_packet_def Let_def if_P [OF s] q_Rcmd_def n assms(8) prod.case option.case u c bind.bind_lunit r
    by (simp add: do_world_def del: str_Cons)
qed

subsection \<open>The pointers after a command\<close>

text \<open>What a function of the probe may do to it: every state it reaches from a well-formed one is well formed.\<close>

definition keeps_wf :: "('w probe \<Rightarrow> ('a \<times> 'w probe) option) \<Rightarrow> bool" where
  "keeps_wf f \<longleftrightarrow> (\<forall>p x p'. tc_wf p \<longrightarrow> f p = Some (x, p') \<longrightarrow> tc_wf p')"

named_theorems wf_dests \<comment> \<open>output and platform calls change the rest of the world only\<close>

lemma say_wf [wf_dests]: "say E txt p = Some p' \<Longrightarrow> tc_wf p \<Longrightarrow> tc_wf p'"
  by (auto simp: say_def bind_eq_Some_conv tc_wf_world)

lemma sayf_wf [wf_dests]: "sayf E txt p = Some p' \<Longrightarrow> tc_wf p \<Longrightarrow> tc_wf p'"
  by (auto simp: sayf_def bind_eq_Some_conv tc_wf_world)

lemma ask_wf [wf_dests]: "ask f p = (x, p') \<Longrightarrow> tc_wf p \<Longrightarrow> tc_wf p'"
  by (auto simp: ask_def tc_wf_world split: prod.splits)

lemma do_world_wf [simp]: "tc_wf (do_world f p) \<longleftrightarrow> tc_wf p"
  by (simp add: do_world_def tc_wf_world)

lemma morse_off_wf [simp]: "tc_wf (morse_off e p) \<longleftrightarrow> tc_wf p"
  by (simp add: morse_off_def tc_wf_world)

lemma tc_wf_set_other:
  assumes "\<And>k. destroy_callback (f k) = destroy_callback k \<and> target_list (f k) = target_list k \<and>
      cur_target (f k) = cur_target k \<and> last_target (f k) = last_target k"
  shows "tc_wf p \<Longrightarrow> tc_wf (set_ctl c f p)"
  using assms by (intro tc_wf_set_ctl) (auto dest: tc_wfD)

lemma tc_printf_wf [wf_dests]: "tc_printf io hp tp txt p = Some p' \<Longrightarrow> tc_wf p \<Longrightarrow> tc_wf p'"
  by (auto simp: tc_printf_def bind_eq_Some_conv tc_wf_world split: option.splits if_splits)

lemma print_all_wf [wf_dests]: "print_all io hp tp txts p = Some p' \<Longrightarrow> tc_wf p \<Longrightarrow> tc_wf p'"
  by (induction txts arbitrary: p) (auto simp: bind_eq_Some_conv dest: tc_printf_wf)

lemma target_command_help_wf [wf_dests]: "target_command_help io hp tp p = Some p' \<Longrightarrow> tc_wf p \<Longrightarrow> tc_wf p'"
  by (auto simp: target_command_help_def bind_eq_Some_conv dest: print_all_wf)

lemma help_lines_wf [wf_dests]: "help_lines E cs p = Some p' \<Longrightarrow> tc_wf p \<Longrightarrow> tc_wf p'"
  by (induction E cs p rule: help_lines.induct) (auto simp: bind_eq_Some_conv dest: wf_dests)

lemma display_target_wf [wf_dests]: "display_target E i a p = Some p' \<Longrightarrow> tc_wf p \<Longrightarrow> tc_wf p'"
  by (auto simp: display_target_def bind_eq_Some_conv dest: wf_dests split: if_splits)

lemma foreach_wf [wf_dests]: "target_foreach_from (display_target E) i as p = Some (n, p') \<Longrightarrow> tc_wf p \<Longrightarrow> tc_wf p'"
  by (induction as arbitrary: i p) (auto simp: bind_eq_Some_conv dest: wf_dests)

lemma enable_or_disable_wf [wf_dests]: "enable_or_disable E a p = Some (r, p') \<Longrightarrow> tc_wf p \<Longrightarrow> tc_wf p'"
  by (auto simp: enable_or_disable_def parse_enable_or_disable_def bind_eq_Some_conv dest: wf_dests split: if_splits)

lemma keeps_wfI: "(\<And>p x p'. tc_wf p \<Longrightarrow> f p = Some (x, p') \<Longrightarrow> tc_wf p') \<Longrightarrow> keeps_wf f"
  by (auto simp: keeps_wf_def)

lemma keeps_wfD: "keeps_wf f \<Longrightarrow> f p = Some (x, p') \<Longrightarrow> tc_wf p \<Longrightarrow> tc_wf p'"
  by (auto simp: keeps_wf_def)

lemma version_wf: "keeps_wf (cmd_version E tc t argv)"
  by (rule keeps_wfI) (auto simp: cmd_version_def bind_eq_Some_conv simp del: str_Cons; blast dest: wf_dests)

lemma help_wf: "keeps_wf (monitor_help E tc t argv)"
  by (rule keeps_wfI) (auto simp: monitor_help_def bind_eq_Some_conv simp del: str_Cons split: option.splits if_splits; blast dest: wf_dests)

lemma targets_wf: "keeps_wf (cmd_targets E tc t argv)"
  by (rule keeps_wfI) (auto simp: cmd_targets_def target_foreach_def bind_eq_Some_conv simp del: str_Cons split: if_splits; blast dest: wf_dests)

lemma before_scan_wf [wf_dests]: "before_scan E tc p = Some p' \<Longrightarrow> tc_wf p \<Longrightarrow> tc_wf p'"
  by (auto simp: before_scan_def bind_eq_Some_conv simp del: str_Cons split: option.splits if_splits prod.splits; blast dest: wf_dests)

lemma report_exn_wf [wf_dests]: "report_exn E e p = Some p' \<Longrightarrow> tc_wf p \<Longrightarrow> tc_wf p'"
  by (auto simp: report_exn_def simp del: str_Cons split: option.splits exn.splits if_splits; blast dest: wf_dests)

lemma after_scan_wf:
  assumes "after_scan E failed tc argv scan = Some (ok, p')" and "\<And>r q. scan = Some (r, q) \<Longrightarrow> tc_wf q"
  shows "tc_wf p'"
proof -
  obtain r q where scan: "scan = Some (r, q)" using assms(1) by (cases scan) (auto simp: after_scan_def try_catch_def)
  have q: "tc_wf q" using assms(2) [OF scan] .
  show ?thesis
  proof (cases r)
    case (Inl x)
    with assms(1) scan obtain p1 p2 where "report_exn E (Some x) q = Some p1" "say E failed (do_world (ce_srst E tc False) p1) = Some p2" "p' = p2"
      by (auto simp: after_scan_def try_catch_def bind_eq_Some_conv split: if_splits)
    then show ?thesis using q report_exn_wf say_wf do_world_wf by metis
  next
    case (Inr n)
    show ?thesis
    proof (cases "n \<le> 0")
      case True
      with assms(1) scan Inr obtain p2 where "say E failed (do_world (ce_srst E tc False) q) = Some p2" "p' = p2"
        by (auto simp: after_scan_def try_catch_def report_exn_def bind_eq_Some_conv)
      then show ?thesis using q say_wf do_world_wf by metis
    next
      case False
      with assms(1) scan Inr obtain x p2 where "cmd_targets E tc None argv q = Some (x, p2)" "p' = morse_off (ce_env E) p2"
        by (auto simp: after_scan_def try_catch_def report_exn_def bind_eq_Some_conv)
      then show ?thesis using q keeps_wfD [OF targets_wf] by fastforce
    qed
  qed
qed

text \<open>The scans of the environment keep the pointers well formed, also when they raise an exception.\<close>

definition scans_keep_wf :: "'w cmd_env \<Rightarrow> bool" where
  "scans_keep_wf E \<longleftrightarrow> (\<forall>c irlens. keeps_wf (ce_jtag_scan E c irlens)) \<and> (\<forall>c targetid. keeps_wf (ce_swdp_scan E c targetid))"

lemma jtag_scan_wf:
  assumes "scans_keep_wf E"
  shows "keeps_wf (cmd_jtag_scan E tc t argv)"
proof (rule keeps_wfI)
  fix p x p'
  assume wf: "tc_wf p" and "cmd_jtag_scan E tc t argv p = Some (x, p')"
  then obtain q irlens failed where b: "before_scan E tc p = Some q"
    and a: "after_scan E failed tc argv (ce_jtag_scan E tc irlens q) = Some (x, p')"
    unfolding cmd_jtag_scan_def Let_def bind_eq_Some_conv by blast
  have "keeps_wf (ce_jtag_scan E tc irlens)" using assms by (simp add: scans_keep_wf_def)
  from after_scan_wf [OF a] keeps_wfD [OF this] before_scan_wf [OF b wf] show "tc_wf p'" by blast
qed

lemma swdp_scan_wf:
  assumes "scans_keep_wf E"
  shows "keeps_wf (cmd_swdp_scan E tc t argv)"
proof (rule keeps_wfI)
  fix p x p'
  assume wf: "tc_wf p" and "cmd_swdp_scan E tc t argv p = Some (x, p')"
  then obtain q targetid failed where b: "before_scan E tc p = Some q"
    and a: "after_scan E failed tc argv (ce_swdp_scan E tc targetid q) = Some (x, p')"
    unfolding cmd_swdp_scan_def Let_def bind_eq_Some_conv by blast
  have "keeps_wf (ce_swdp_scan E tc targetid)" using assms by (simp add: scans_keep_wf_def)
  from after_scan_wf [OF a] keeps_wfD [OF this] before_scan_wf [OF b wf] show "tc_wf p'" by blast
qed

lemma frequency_wf: "keeps_wf (cmd_frequency E tc t argv)"
proof (rule keeps_wfI)
  fix p x p'
  define q where "q = (if length (drop 1 argv) = 2 then do_world (ce_freq_set E tc (frequency_arg (drop 1 argv ! 1))) p else p)"
  obtain freq p1 where a: "ask (ce_freq_get E tc) q = (freq, p1)" by (cases "ask (ce_freq_get E tc) q")
  assume wf: "tc_wf p" and r: "cmd_frequency E tc t argv p = Some (x, p')"
  from r obtain tx where "sayf E tx p1 = Some p'"
    unfolding cmd_frequency_def Let_def q_def [symmetric] a prod.case bind_eq_Some_conv by blast
  moreover have "tc_wf q" using wf by (simp add: q_def)
  ultimately show "tc_wf p'" using ask_wf [OF a] sayf_wf by blast
qed

lemma morse_wf: "keeps_wf (cmd_morse E tc t argv)"
  by (rule keeps_wfI) (auto simp: cmd_morse_def bind_eq_Some_conv simp del: str_Cons split: option.splits; blast dest: wf_dests)

lemma halt_timeout_wf: "keeps_wf (cmd_halt_timeout E tc t argv)"
proof (rule keeps_wfI)
  fix p x p'
  assume wf: "tc_wf p" and "cmd_halt_timeout E tc t argv p = Some (x, p')"
  moreover have "tc_wf (set_ctl c (\<lambda>k. k\<lparr>cortexm_wait_timeout := v\<rparr>) p)" for c v
    using wf by (rule tc_wf_set_other [rotated]) simp
  ultimately show "tc_wf p'"
    by (auto simp: cmd_halt_timeout_def Let_def bind_eq_Some_conv simp del: str_Cons split: if_splits; blast dest: wf_dests)
qed

lemma connect_srst_wf: "keeps_wf (cmd_connect_srst E tc t argv)"
proof (rule keeps_wfI)
  fix p x p'
  assume "tc_wf p" and "cmd_connect_srst E tc t argv p = Some (x, p')"
  moreover have "tc_wf (set_ctl c (\<lambda>k. k\<lparr>connect_assert_srst := v\<rparr>) q)" if "tc_wf q" for c v q
    using that by (rule tc_wf_set_other [rotated]) simp
  ultimately show "tc_wf p'"
    by (auto simp: cmd_connect_srst_def Let_def bind_eq_Some_conv simp del: One_nat_def str_Cons split: if_splits option.splits; blast dest: wf_dests)
qed

lemma hard_srst_wf: "keeps_wf (cmd_hard_srst E tc t argv)"
proof (rule keeps_wfI)
  fix p x p'
  assume "tc_wf p" and h: "cmd_hard_srst E tc t argv p = Some (x, p')"
  moreover from h obtain k where "p_ctls p tc = Some k"
    by (auto simp: cmd_hard_srst_def target_list_free_def bind_eq_Some_conv)
  ultimately show "tc_wf p'" using target_list_free_wf(1) by (auto simp: cmd_hard_srst_def bind_eq_Some_conv)
qed

lemma set_target_power_wf [wf_dests]: "set_target_power E tc b p = Some p' \<Longrightarrow> tc_wf p \<Longrightarrow> tc_wf p'"
proof -
  let ?r = "if b then (case ask (ce_power_get E tc) p of (on, p) \<Rightarrow> if on then (False, p)
      else (case ask (ce_voltage_sense E tc) p of (v, p) \<Rightarrow> (v > POWER_CONFLICT_THRESHOLD, p))) else (False, p)"
  obtain conflict q where r: "?r = (conflict, q)" by (cases ?r)
  assume "set_target_power E tc b p = Some p'" and wf: "tc_wf p"
  moreover have "tc_wf q" using r wf by (auto split: if_splits prod.splits; blast dest: wf_dests)
  ultimately show "tc_wf p'"
    unfolding set_target_power_def r prod.case
    using sayf_wf [of E _ "do_world (ce_power_set E tc b) q" p']
    by (auto split: if_splits option.splits prod.splits; blast dest: wf_dests)
qed

lemma bind_wf:
  assumes "do { (r, p) \<leftarrow> m; f r p } = Some (x, p')" and "\<And>r q. m = Some (r, q) \<Longrightarrow> tc_wf q"
    and "\<And>r q. tc_wf q \<Longrightarrow> f r q = Some (x, p') \<Longrightarrow> tc_wf p'"
  shows "tc_wf p'"
  using assms by (cases m) auto

lemma target_power_wf: "keeps_wf (cmd_target_power E tc t argv)"
proof (rule keeps_wfI)
  fix p x p'
  assume wf: "tc_wf p" and r: "cmd_target_power E tc t argv p = Some (x, p')"
  obtain on q where a: "ask (ce_power_get E tc) p = (on, q)" by (cases "ask (ce_power_get E tc) p")
  from r consider tx where "sayf E tx q = Some p'" | tx where "sayf E tx p = Some p'"
    | "do { (r, p) \<leftarrow> enable_or_disable E (argv ! 2) p; map_option (Pair True) (case r of None \<Rightarrow> Some p | Some b \<Rightarrow> set_target_power E tc b p) } = Some (True, p')"
    unfolding cmd_target_power_def Let_def a prod.case
    by (cases "enable_or_disable E (argv ! 2) p") (auto simp: bind_eq_Some_conv simp del: str_Cons One_nat_def split: if_splits)
  then show "tc_wf p'"
  proof cases
    case 3
    then show ?thesis
      by (rule bind_wf) (use wf in \<open>auto dest: enable_or_disable_wf set_target_power_wf split: option.splits\<close>)
  qed (use wf ask_wf [OF a wf] sayf_wf in blast)+
qed

lemma heapinfo_wf: "keeps_wf (cmd_heapinfo E tc t argv)"
proof (rule keeps_wfI)
  fix p x p'
  have s: "tc_wf (set_target a s' q)" if "tc_wf q" "target_set_heapinfo v1 v2 v3 v4 (p_targets q a) = Some s'" for a s' q v1 v2 v3 v4
    using that tc_wf_same_tc [OF that(1)] by (cases "p_targets q a") (auto simp: target_set_heapinfo_def)
  assume "tc_wf p" and "cmd_heapinfo E tc t argv p = Some (x, p')"
  then show "tc_wf p'"
    by (auto simp: cmd_heapinfo_def Let_def bind_eq_Some_conv simp del: str_Cons split: if_splits option.splits; blast intro: s dest: wf_dests)
qed

lemma status_wf: "do { p \<leftarrow> (if st then sayf E tx q else Some q); Some (True, p) } = Some (x, p') \<Longrightarrow> tc_wf q \<Longrightarrow> tc_wf p'"
  by (cases st) (auto simp: bind_eq_Some_conv dest: sayf_wf)

lemma unrecognized_wf: "do { p \<leftarrow> sayf E tx p; Some (False, p) } = Some (x, p') \<Longrightarrow> tc_wf p \<Longrightarrow> tc_wf p'"
  by (auto simp: bind_eq_Some_conv dest: sayf_wf)

lemma set_flag_wf:
  assumes "do { (r, p) \<leftarrow> enable_or_disable E a p; Some (case r of None \<Rightarrow> (False, p) | Some b \<Rightarrow> (True, g b p)) } = Some (x, p')"
    and "\<And>b q. tc_wf q \<Longrightarrow> tc_wf (g b q)" and "tc_wf p"
  shows "tc_wf p'"
proof -
  from assms(1) obtain r q where q: "enable_or_disable E a p = Some (r, q)" "p' = (case r of None \<Rightarrow> q | Some b \<Rightarrow> g b q)"
    by (auto simp: bind_eq_Some_conv split: option.splits)
  from enable_or_disable_wf [OF q(1) assms(3)] assms(2) q(2) show ?thesis by (cases r) simp_all
qed

lemma debug_bmp_wf: "keeps_wf (cmd_debug_bmp E tc t argv)"
proof (rule keeps_wfI)
  fix p x p'
  assume wf: "tc_wf p" and r: "cmd_debug_bmp E tc t argv p = Some (x, p')"
  from r [unfolded cmd_debug_bmp_def] show "tc_wf p'"
  proof (rule bind_wf)
    fix st q
    assume a: "(if length argv = 1 then Some (True, p)
      else if length argv = 2 then
        do { (r, p) \<leftarrow> enable_or_disable E (argv ! 1) p;
             Some (case r of None \<Rightarrow> (False, p) | Some b \<Rightarrow> (True, do_world (ce_debug_set E b) p)) }
      else do { p \<leftarrow> sayf E (str ''Unrecognized command format'' @ [10]) p; Some (False, p) }) = Some (st, q)"
    consider "length argv = 1" | "length argv \<noteq> 1" "length argv = 2" | "length argv \<noteq> 1" "length argv \<noteq> 2" by blast
    then show "tc_wf q"
    proof cases
      case 1
      with a wf show ?thesis by simp
    next
      case 2
      from a [unfolded if_not_P [OF 2(1)] if_P [OF 2(2)]] show ?thesis
        by (rule set_flag_wf) (simp_all add: wf)
    next
      case 3
      from a [unfolded if_not_P [OF 3(1)] if_not_P [OF 3(2)]] show ?thesis by (rule unrecognized_wf [OF _ wf])
    qed
  next
    fix st q
    assume "tc_wf q" and "do { p \<leftarrow> (if st then sayf E (str ''Debug mode is '' @
        (if ce_debug_get E (p_world q) then str ''enabled'' else str ''disabled'') @ [10]) q else Some q); Some (True, p) } = Some (x, p')"
    then show "tc_wf p'" by (blast intro: status_wf)
  qed
qed

lemma handlers_wf: "scans_keep_wf E \<Longrightarrow> f \<in> set (cmd_handlers E) \<Longrightarrow> keeps_wf (f tc t argv)"
  using version_wf help_wf jtag_scan_wf swdp_scan_wf frequency_wf targets_wf morse_wf halt_timeout_wf connect_srst_wf
    hard_srst_wf target_power_wf heapinfo_wf debug_bmp_wf
  by (auto simp: cmd_handlers_def)

lemma find_handler: "find P (cmd_list E) = Some ((c, h), f) \<Longrightarrow> f \<in> set (cmd_handlers E)"
  by (auto simp: find_Some_iff cmd_list_def in_set_conv_nth)


subsection \<open>Commands that cannot do what their help says\<close>

text \<open>The commands of a driver are looked for by the bytes of the controller, not by the word of the user.\<close>

definition no_command :: "u8 list \<Rightarrow> 'w target_s \<Rightarrow> bool" where
  "no_command name t \<longleftrightarrow> list_all (\<lambda>c. \<not> strncmp_eq name (cmd c) (length name)) (concat (map (cmds \<circ> snd) (t_commands t)))"

lemma target_command_none: "no_command name t \<Longrightarrow> target_command t (name # argv) w = Some (-1, w)"
proof -
  assume "no_command name t"
  then have "find (\<lambda>c. strncmp_eq name (cmd c) (length name)) (concat (map (cmds \<circ> snd) (t_commands t))) = None"
    unfolding find_None_iff no_command_def list_all_iff by blast
  then show ?thesis by (simp add: target_command_def)
qed

lemma find_unnamed:
  assumes "\<nexists>i. names w i"
  shows "find (\<lambda>((c, h), f). strncmp_eq w c (length w)) (cmd_list E) = None"
proof (rule ccontr)
  assume "find (\<lambda>((c, h), f). strncmp_eq w c (length w)) (cmd_list E) \<noteq> None"
  then obtain x where "find (\<lambda>((c, h), f). strncmp_eq w c (length w)) (cmd_list E) = Some x" by blast
  then obtain i where i: "i < length cmd_texts" "(\<lambda>((c, h), f). strncmp_eq w c (length w)) (cmd_list E ! i)"
    "\<forall>j < i. \<not> (\<lambda>((c, h), f). strncmp_eq w c (length w)) (cmd_list E ! j)"
    unfolding find_Some_iff by auto
  have "cmd_list E ! j = (cmd_texts ! j, cmd_handlers E ! j)" if "j \<le> i" for j
    using that i(1) by (simp add: cmd_list_def)
  then have "names w i" using i by (auto simp: names_def strncmp_prefix case_prod_beta)
  then show False using assms by blast
qed

text \<open>
  C22. A command that a driver has registered cannot be run: when the first word of the line is no monitor
  command, the commands of the target are looked for by the bytes of the controller in memory, which is
  what \<open>argv[0]\<close> points to, and not by the word. When those bytes are not the beginning of a name, the reply
  is -1 whatever was typed, and nothing but the array of the words has been allocated and given back.
\<close>

theorem driver_commands_out_of_reach:
  assumes "spacing_ok ((b, name) # bws)" and "list_all blank trail" and "\<nexists>i. names name i"
    and "line = spaced ((b, name) # bws) @ trail"
    and "p_ctls p tc = Some k" and "cur_target k = Some a" and "p_targets p a = Some t" and "no_command (ce_tc_bytes E tc) t"
    and "mm_alloc (e_heap (ce_env E)) (4 * argc_estimate line) (p_world p) = (Some q, w)"
  shows "command_process E tc line p = Some (-1, p\<lparr>p_world := mm_free (e_heap (ce_env E)) (Some q) w\<rparr>)"
proof -
  have ws: "strtok_words line = name # map snd bws"
    using strtok_words_spaced [OF assms(1,2)] by (simp add: assms(4))
  show ?thesis
    unfolding command_process_eq [OF ws _ assms(5,9), simplified list.sel, simplified]
    using find_unnamed [OF assms(3), of E] assms(6,7) target_command_none [OF assms(8), of "name # map snd bws" w]
    by (simp add: Target_List.on_target_def do_world_def)
qed

text \<open>The documented four addresses of \<open>heapinfo\<close> print the usage and change no target; three are taken, one
  place late.\<close>

lemma say_targets: "say E txt p = Some p' \<Longrightarrow> p_targets p' = p_targets p" "sayf E txt p = Some p' \<Longrightarrow> p_targets p' = p_targets p"
  by (auto simp: say_def sayf_def bind_eq_Some_conv)

lemma heapinfo_documented:
  assumes "cmd_heapinfo E tc (Some a) [x, str ''heapinfo'', heap_base, heap_limit, stack_base, stack_limit] p = Some (ok, p')"
  shows "p_targets p' = p_targets p"
  using assms by (auto simp: cmd_heapinfo_def bind_eq_Some_conv simp del: str_Cons dest: say_targets)

lemma strtoul_heapinfo: "strtoul_hex (str ''heapinfo'') = 0"
  by (simp add: strtoul_hex_def scan_hex_def scan_sign_def scan_0x_def isspace_def isxdigit_def isdigit_def)

lemma heapinfo_three:
  assumes "cmd_heapinfo E tc (Some a) [x, y, heap_base, heap_limit, stack_base] p = Some (ok, p')" and "y = str ''heapinfo''"
  shows "\<exists>t. p_targets p a = Some t \<and>
    p_targets p' = (p_targets p)(a \<mapsto> t\<lparr>t_heapinfo := [0, strtoul_hex heap_base, strtoul_hex heap_limit, strtoul_hex stack_base]\<rparr>)"
proof -
  define tx where "tx = str ''heapinfo heap_base: '' @ fmt_p (strtoul_hex y) @ str '' heap_limit: '' @ fmt_p (strtoul_hex heap_base) @
    str '' stack_base: '' @ fmt_p (strtoul_hex heap_limit) @ str '' stack_limit: '' @ fmt_p (strtoul_hex stack_base) @ [10]"
  have "cmd_heapinfo E tc (Some a) [x, y, heap_base, heap_limit, stack_base] p =
      do { p \<leftarrow> sayf E tx p;
           s \<leftarrow> target_set_heapinfo (strtoul_hex y) (strtoul_hex heap_base) (strtoul_hex heap_limit) (strtoul_hex stack_base) (p_targets p a);
           Some (True, set_target a s p) }"
    by (simp add: cmd_heapinfo_def tx_def Let_def del: str_Cons)
  with assms(1) obtain q s where "sayf E tx p = Some q"
    "target_set_heapinfo (strtoul_hex y) (strtoul_hex heap_base) (strtoul_hex heap_limit) (strtoul_hex stack_base) (p_targets q a) = Some s"
    "p' = set_target a s q"
    by (auto simp: bind_eq_Some_conv)
  with say_targets(2) [OF this(1)] show ?thesis
    by (auto simp: target_set_heapinfo_def assms(2) strtoul_heapinfo simp del: str_Cons split: option.splits)
qed

text \<open>\<open>debug_bmp\<close> never switches the messages on: what the function that stores the flag does for true does
  not matter, whatever words follow a beginning of the name.\<close>

lemma debug_never_on:
  assumes "names d 12" and "\<And>u. f False u = g False u"
  shows "cmd_debug_bmp (E\<lparr>ce_debug_set := f\<rparr>) tc tp (x # d # ds) p = cmd_debug_bmp (E\<lparr>ce_debug_set := g\<rparr>) tc tp (x # d # ds) p"
proof -
  have n: "cmd_texts ! 12 = (str ''debug_bmp'', str ''Output BMP '' @ [34] @ str ''debug'' @ [34] @ str '' strings to the second vcom: (enable|disable)'')"
    by (simp add: cmd_texts_def del: str_Cons)
  from assms(1) obtain rest where d: "str ''debug_bmp'' = d @ rest" by (auto simp: names_def n simp del: str_Cons)
  have "\<not> strncmp_eq d (str ''enable'') (length d)" if "d \<noteq> []"
    using that d by (cases d) (auto simp: strncmp_eq_def)
  then have no: "r \<noteq> Some True" if "enable_or_disable H d p = Some (r, q)" for H :: "'a cmd_env" and r q
    using that by (cases "d = []") (auto simp: enable_or_disable_def parse_enable_or_disable_def simp del: str_Cons split: if_splits)
  have s: "sayf (E\<lparr>ce_debug_set := h\<rparr>) = sayf E" for h by (intro ext) (simp add: sayf_def)
  have e: "enable_or_disable (E\<lparr>ce_debug_set := h\<rparr>) = enable_or_disable E" for h by (intro ext) (simp add: enable_or_disable_def s)
  show ?thesis
  proof (cases "enable_or_disable E d p")
    case None
    then show ?thesis by (simp add: cmd_debug_bmp_def s e del: str_Cons)
  next
    case (Some rq)
    obtain r q where rq: "rq = (r, q)" by (cases rq)
    with no Some have "r \<noteq> Some True" by blast
    then have "r = None \<or> r = Some False" by (cases r) auto
    moreover have "do_world (f False) q = do_world (g False) q" by (simp add: do_world_def assms(2))
    ultimately show ?thesis using Some rq by (auto simp: cmd_debug_bmp_def s e simp del: str_Cons)
  qed
qed

subsection \<open>Runs\<close>

definition demo_cmd_env :: "(nat \<Rightarrow> u8) cmd_env" where
  "demo_cmd_env = \<lparr>ce_env = demo_env, ce_tc_bytes = (\<lambda>c. [0x35, 0x12]), ce_ident = str ''probe'', ce_hwversion = 0,
     ce_voltage = (\<lambda>c. Some (\<lambda>w. (str ''not supported'', w))), ce_srst = (\<lambda>c b w. w), ce_freq_set = (\<lambda>c f w. w),
     ce_freq_get = (\<lambda>c w. (1000000, w)), ce_power_get = (\<lambda>c w. (False, w)), ce_power_set = (\<lambda>c b w. w),
     ce_voltage_sense = (\<lambda>c w. (0, w)), ce_jtag_scan = (\<lambda>c irlens p. Some (Inr 0, p)),
     ce_swdp_scan = (\<lambda>c targetid p. Some (Inl (Exn EXCEPTION_TIMEOUT ''SWDP''), p)), ce_morse_msg = (\<lambda>w. Some None),
     ce_debug_get = (\<lambda>w. False), ce_debug_set = (\<lambda>b w. w), ce_fixed2 = (\<lambda>f d. [])\<rparr>"

lemma demo_out:
  "gdb_out quiet_io ram_heap tx w = Some w" "gdb_outf quiet_io ram_heap tx w = Some w"
proof -
  show out: "gdb_out quiet_io ram_heap tx w = Some w" for tx
    by (simp add: gdb_out_def Let_def ram_heap_def quiet_io_put hexify_def)
  show "gdb_outf quiet_io ram_heap tx w = Some w"
    using out by (simp add: gdb_outf_def gdb_voutf_def ram_heap_def)
qed

lemma demo_say: "say demo_cmd_env txt p = Some p" "sayf demo_cmd_env txt p = Some p"
  by (simp_all add: say_def sayf_def demo_cmd_env_def demo_env_def demo_out)

lemma names_eval:
  "names w i \<longleftrightarrow> i < length cmd_texts \<and> strncmp_eq w (fst (cmd_texts ! i)) (length w) \<and>
     list_all (\<lambda>j. \<not> strncmp_eq w (fst (cmd_texts ! j)) (length w)) [0..<i]"
  by (auto simp: names_def list_all_iff strncmp_prefix)

lemma demo_fields [simp]:
  "ce_env demo_cmd_env = demo_env" "e_heap demo_env = ram_heap" "ce_tc_bytes demo_cmd_env c = [0x35, 0x12]"
  "mm_alloc ram_heap n m = (Some 7, m)" "mm_free ram_heap q m = m"
  by (simp_all add: demo_cmd_env_def demo_env_def ram_heap_def)

text \<open>Set-up under reset is switched on by an abbreviated command.\<close>

theorem monitor_packet_runs_witness:
  "handle_q_packet demo_env (command_process demo_cmd_env) 0 30 (demo_probe ram_target (str ''qRcmd,'' @ hexify_loop (str ''con  enable ''))) =
     putz demo_env ''OK'' (set_ctl 0 (\<lambda>k. k\<lparr>connect_assert_srst := True\<rparr>)
       (demo_probe ram_target (str ''qRcmd,'' @ hexify_loop (str ''con  enable ''))))"
proof -
  let ?p = "demo_probe ram_target (str ''qRcmd,'' @ hexify_loop (str ''con  enable ''))" and ?bws = "[(str ''  '', str ''enable'')]"
  let ?p' = "set_ctl 0 (\<lambda>k. k\<lparr>connect_assert_srst := True\<rparr>) ?p"
  have s: "spacing_ok (([], str ''con'') # ?bws)" "list_all blank (str '' '')"
    by (simp_all add: spacing_ok_def blank_def word_def)
  have n: "names (str ''con'') 8" by (simp add: names_eval cmd_texts_def strncmp_eq_def upt_rec)
  have l: "str ''con  enable '' = spaced (([], str ''con'') # ?bws) @ str '' ''" by (simp add: spaced_def)
  have k: "p_ctls ?p 0 = Some (gdb_main_init_target_controller\<lparr>target_list := [100], cur_target := Some 100\<rparr>)"
    by (simp add: demo_probe_def)
  have m: "mm_alloc (e_heap (ce_env demo_cmd_env)) n (p_world ?p) = (Some 7, p_world ?p)" for n by simp
  have z: "0 \<notin> set (str ''con  enable '')" by simp
  have b: "p_pbuf ?p = str ''qRcmd,'' @ hexify_loop (str ''con  enable '') @
      replicate (BUF_SIZE + 1 - length (str ''qRcmd,'' @ hexify_loop (str ''con  enable ''))) 0"
    by (simp add: demo_probe_def del: str_Cons hexify_loop.simps)
  have h: "cmd_handlers demo_cmd_env ! 8 = cmd_connect_srst demo_cmd_env" by (simp add: cmd_handlers_def)
  have e: "enable_or_disable demo_cmd_env (str ''enable'') ?p = Some (Some True, ?p)"
    by (simp add: enable_or_disable_def parse_enable_or_disable_def strncmp_eq_def)
  have r: "(cmd_handlers demo_cmd_env ! 8) 0 (cur_target (gdb_main_init_target_controller\<lparr>target_list := [100], cur_target := Some 100\<rparr>))
      (ce_tc_bytes demo_cmd_env 0 # str ''con'' # map snd ?bws) (?p\<lparr>p_world := p_world ?p\<rparr>) = Some (True, ?p')"
    unfolding h using e k by (simp add: cmd_connect_srst_def demo_say del: str_Cons)
  have f: "do_world (mm_free ram_heap (Some 7)) p = p" for p by (simp add: do_world_def)
  have len: "6 + 2 * length (str ''con  enable '') = 30" by simp
  from monitor_packet_runs [OF s n l z b k m m r] show ?thesis
    by (simp only: len demo_fields f Let_def if_True Option.bind_runit)
qed

text \<open>A scan that runs into a timeout is reported as failed and leaves the pointers as they were.\<close>

lemma demo_scans: "scans_keep_wf demo_cmd_env"
  by (auto simp: scans_keep_wf_def keeps_wf_def demo_cmd_env_def)

lemma demo_probe_wf: "tc_wf (demo_probe t tx)"
  by (auto simp: tc_wf_def demo_probe_def gdb_main_init_target_controller_def split: if_splits)

lemma demo_process:
  assumes "strtok_words line = ws" "ws \<noteq> []"
  shows "command_process demo_cmd_env 0 line (demo_probe t []) =
     (case find (\<lambda>((c, h), f). strncmp_eq (hd ws) c (length (hd ws))) (cmd_list demo_cmd_env) of
        Some ((c, h), f) \<Rightarrow> do { (ok, p) \<leftarrow> f 0 (Some 100) ([0x35, 0x12] # ws) (demo_probe t []); Some (if ok then 0 else 1, p) }
      | None \<Rightarrow> do { (r, p) \<leftarrow> Target_List.on_target (Some 100) (\<lambda>t. target_command t ([0x35, 0x12] # ws)) (demo_probe t []); Some (r, p) })"
proof -
  have k: "p_ctls (demo_probe t []) 0 = Some (gdb_main_init_target_controller\<lparr>target_list := [100], cur_target := Some 100\<rparr>)"
    by (simp add: demo_probe_def)
  have m: "mm_alloc (e_heap (ce_env demo_cmd_env)) (4 * argc_estimate line) (p_world (demo_probe t [])) = (Some 7, p_world (demo_probe t []))" by simp
  have f: "do_world (mm_free ram_heap (Some 7)) = (\<lambda>p. p)" by (intro ext) (simp add: do_world_def)
  show ?thesis by (simp add: command_process_eq [OF assms k m] f split: option.split)
qed


text \<open>The command that the driver of the nRF51 registers first.\<close>

definition demo_commands :: "(nat \<Rightarrow> u8) command_s list" where
  "demo_commands = [\<lparr>cmd = str ''erase_mass'', cmd_handler = (\<lambda>argv w. Some (True, w)), cmd_help = []\<rparr>]"

theorem driver_commands_out_of_reach_witness:
  "command_process demo_cmd_env 0 (str ''erase_mass'')
     (demo_probe (ram_target\<lparr>t_commands := [(0, \<lparr>specific_name = [], cmds = demo_commands\<rparr>)]\<rparr>) []) =
   Some (-1, demo_probe (ram_target\<lparr>t_commands := [(0, \<lparr>specific_name = [], cmds = demo_commands\<rparr>)]\<rparr>) [])"
proof -
  let ?t = "ram_target\<lparr>t_commands := [(0, \<lparr>specific_name = [], cmds = demo_commands\<rparr>)]\<rparr>"
  let ?p = "demo_probe ?t []"
  have s: "spacing_ok [([], str ''erase_mass'')]" "list_all blank []"
    by (simp_all add: spacing_ok_def blank_def word_def)
  have "list_all (\<lambda>i. \<not> strncmp_eq (str ''erase_mass'') (fst (cmd_texts ! i)) (length (str ''erase_mass''))) [0..<length cmd_texts]" by (simp add: cmd_texts_def strncmp_eq_def upt_rec)
  then have n: "\<nexists>i. names (str ''erase_mass'') i" unfolding names_eval list_all_iff by (auto simp del: str_Cons length_str)
  have l: "str ''erase_mass'' = spaced [([], str ''erase_mass'')] @ []" by (simp add: spaced_def)
  have k: "p_ctls ?p 0 = Some (gdb_main_init_target_controller\<lparr>target_list := [100], cur_target := Some 100\<rparr>)"
    "p_targets ?p 100 = Some (?t\<lparr>t_tc := Some 0\<rparr>)"
    by (simp_all add: demo_probe_def)
  have c: "cur_target (gdb_main_init_target_controller\<lparr>target_list := [100], cur_target := Some 100\<rparr>) = Some 100" by simp
  have nc: "no_command (ce_tc_bytes demo_cmd_env 0) (?t\<lparr>t_tc := Some 0\<rparr>)"
    by (simp add: no_command_def demo_commands_def strncmp_eq_def)
  have m: "mm_alloc (e_heap (ce_env demo_cmd_env)) (4 * argc_estimate (str ''erase_mass'')) (p_world ?p) = (Some 7, p_world ?p)" by simp
  from driver_commands_out_of_reach [OF s n l k(1) c k(2) nc m] show ?thesis by (simp del: str_Cons)
qed

end
