(* ===== verification/Spec2Isabelle.thy ===== *)
theory Spec2Isabelle
  imports Hex_Utils Gdb_If Mem_Manager Gdb_Packet Target Target_Flash Target_Access Crc32 Stdio
    Target_List Gdb_Main Gdb_Session Gdb_Hostio Exception Word_Bits Tap_Generic Adiv5_Swdp Jtag_Scan
    Adiv5_Mem Swd_Memory Adiv5_Ap Cortexm Cortexm_Halt Cortexm_Core Cortexm_Units Cortexm_Probe
    Chip Nrf51 Stm32f1 Adiv5_Jtagdp Jtag_Memory Remote Lpc_Common Morse Tasks Command
begin

text \<open>
  Verification of the Miyako-Link debug probe firmware: the program that a host debugger (GDB) talks to
  over a byte stream, and that talks to the debug port of a target chip over two or four wires.

  \<^bold>\<open>Parts and how they interact.\<close> Bytes from GDB arrive through the channel of \<open>src/src/main.c\<close>
  (\<open>Gdb_If\<close>) and are assembled to packets by \<open>gdb_packet.c\<close> (\<open>Gdb_Packet\<close>); the interpreter of
  \<open>gdb_main.c\<close> (\<open>Gdb_Main\<close>) decodes them (\<open>Hex_Utils\<close>, \<open>Stdio\<close>) and calls the generic target layer of
  \<open>target.c\<close>: the methods of one target object (\<open>Target\<close>) and the lists of targets and controllers
  (\<open>Target_List\<close>). The monitor commands that the
  user types go through \<open>command.c\<close> (\<open>Command\<close>). While a program on the target makes a semihosting call, \<open>gdb_hostio.c\<close> (\<open>Gdb_Hostio\<close>)
  asks the host. The driver of Cortex-M cores, \<open>cortexm.c\<close> (\<open>Cortexm\<close>, \<open>Cortexm_Halt\<close>, \<open>Cortexm_Probe\<close>),
  provides the methods of a target; it accesses the core through the memory access port of \<open>adiv5.c\<close>
  (\<open>Adiv5_Mem\<close>, \<open>Adiv5_Ap\<close>), which the debug port of \<open>adiv5_swdp.c\<close> (\<open>Adiv5_Swdp\<close>) reaches over the bit
  sequences of \<open>swdptap_generic.c\<close> (\<open>Tap_Generic\<close>). The four-wire transport has its scan of the chain in
  \<open>jtag_scan.c\<close> (\<open>Jtag_Scan\<close>) and its debug port in \<open>adiv5_jtagdp.c\<close> (\<open>Adiv5_Jtagdp\<close>). The drivers of chips
  add the regions of flash and the routines that program them: \<open>nrf51.c\<close> (\<open>Nrf51\<close>) and \<open>stm32f1.c\<close>
  (\<open>Stm32f1\<close>) work the flash controller, \<open>lpc_common.c\<close> (\<open>Lpc_Common\<close>) calls the ROM of the chip. The packets of \<open>remote.c\<close> (\<open>Remote\<close>) come over the same channel as those of GDB and work the
  debug port without the target layer. Below all of it: the pool allocator of \<open>mem_manager.c\<close> (\<open>Mem_Manager\<close>),
  exceptions and timeouts of \<open>exception.c\<close> and \<open>timing.c\<close> (\<open>Exception\<close>), \<open>crc32.c\<close> (\<open>Crc32\<close>).

  \<^bold>\<open>Style.\<close> A C struct is a record with the same fields, an enum a datatype, an integer a word of its
  width, a buffer the list of its bytes. A function is a definition of the same name that takes the state
  it changes and returns it. \<open>None\<close> is ``does not return'' (it blocks, faults or accesses memory outside an
  object); code that may leave by an exception of \<open>exception.c\<close> returns an \<open>outcome\<close>, where \<open>Inl\<close> is the
  raised exception. What is behind a component is a parameter: a record of the functions it calls
  (\<open>stream_ops\<close>, \<open>queue_ops\<close>, \<open>env\<close>, \<open>swd_ops\<close>, \<open>jtag_ops\<close>, \<open>dp_ops\<close>, \<open>ap_env\<close>, \<open>cm_env\<close>, \<open>tc_host\<close>,
  \<open>probe_env\<close>) over the rest of the world, a type variable. Where a property needs to know more of it,
  the documented behaviour is a named hypothesis or the \<open>assumes\<close> of a locale; the witness of the property
  instantiates it. A loop that need not end is a \<open>partial_function\<close>; that it ends is then a theorem. No
  fuel is used. The firmware is modelled as it is built: \<open>PC_HOSTED\<close> is 0, \<open>ENABLE_DEBUG\<close> is 1 (the
  accesses that log lines make are modelled, their text is not), blocks of the allocator are zero.

  \<^bold>\<open>Theories.\<close>
  \<^item> \<open>Prelude\<close>, \<open>Word_Bits\<close>: integer types, C strings, byte images of integers, lemmas on words.
  \<^item> \<open>Hex_Utils\<close>: \<open>hexify\<close> and \<open>unhexify\<close> are inverse, upper-case digits are accepted.
  \<^item> \<open>Gdb_If\<close>: \<open>gdb_if_putchar\<close>, \<open>gdb_if_getchar\<close> and \<open>gdb_if_getchar_to\<close> with their buffers; the locale
    \<open>stream_buffer\<close> says what FreeRTOS promises, \<open>gdb_channel\<close> what the packet layer needs; the buffering
    code implements the abstract channel of byte streams (a refinement).
  \<^item> \<open>Mem_Manager\<close>: \<open>MemManager_Init\<close>, \<open>_Alloc\<close>, \<open>_Realloc\<close>, \<open>_Free\<close>; blocks are disjoint, large enough and zero,
    when an allocation succeeds; the locale \<open>allocator\<close>.
  \<^item> \<open>Gdb_Packet\<close>: \<open>gdb_getpacket\<close>, \<open>gdb_putpacket\<close> and the text output; reception undoes framing, checksum and
    escapes and stays in its buffer, transmission ends with the acknowledgement.
  \<^item> \<open>Target\<close>, \<open>Target_Flash\<close>, \<open>Target_Access\<close>: the operations of \<open>target.c\<close> on one object; buffered flash
    programming writes exactly the data however it is cut into pieces, erasing covers the range, the list
    of break- and watchpoints, the register file, the memory map for GDB.
  \<^item> \<open>Target_List\<close>: targets, controllers and the pointers between them; no operation leaves a dangling one.
  \<^item> \<open>Stdio\<close>, \<open>Crc32\<close>: the parts of \<open>sscanf\<close> and \<open>printf\<close> in use; the table-driven checksum against
    division of polynomials.
  \<^item> \<open>Gdb_Main\<close>, \<open>Gdb_Session\<close>: one definition for each packet; compositions of packets (memory, registers,
    documents in pieces, the command line of \<open>vRun\<close>), and the defects of the second controller.
  \<^item> \<open>Gdb_Hostio\<close>: requests to the host and the loop that waits for the reply.
  \<^item> \<open>Exception\<close>: the chain of frames and \<open>raise_exception\<close>, refined by the \<open>outcome\<close> monad; timeouts.
  \<^item> \<open>Tap_Generic\<close>, \<open>Adiv5_Swdp\<close>, \<open>Jtag_Scan\<close>: bit sequences with parity; the transactions of the two-wire
    port with their retries and errors; the layout of a scan chain and the shift through it.
  \<^item> \<open>Adiv5_Mem\<close>, \<open>Swd_Memory\<close>: memory access through \<open>CSW\<close>, \<open>TAR\<close> and \<open>DRW\<close>. \<open>port_step\<close> is the behaviour of
    the port from the architecture's description; the code transfers exactly the bytes of the range, for every
    alignment and across the 10-bit address counter; \<open>Swd_Memory\<close> joins it with the two-wire transport.
  \<^item> \<open>Adiv5_Ap\<close>: references to ports, ROM tables, the initialisation of a debug port; the count of references
    agrees with the access ports in existence.
  \<^item> \<open>Cortexm\<close>, \<open>Cortexm_Halt\<close>, \<open>Cortexm_Probe\<close>: the whole core driver. \<open>Cortexm_Core\<close> describes a core behind a
    debug port (\<open>core_step\<close>) and gives each access its total-correctness rule (\<open>runs\<close>); \<open>Cortexm_Units\<close> proves
    with them that registers written are registers read, and that the comparators of the break- and watchpoint
    units are those of the live break- and watchpoints under every sequence of operations.
  \<^item> \<open>Chip\<close>, \<open>Nrf51\<close>, \<open>Stm32f1\<close>: the drivers of two families. \<open>Chip\<close> has what they share: polling loops, writes of
    words, and the locale \<open>page_device\<close> of a flash that is erased by pages. Each driver is an interpretation on
    its own registers; erasing and programming leaves the data, the erased bytes around them and nothing else.
  \<^item> \<open>Adiv5_Jtagdp\<close>, \<open>Jtag_Memory\<close>: the debug port on a scan chain. \<open>Jtag_Memory\<close> describes the chain as the shift
    registers of the standard and shows that every access of the code is one of the port on it, whatever the
    other devices are; hence memory access, and through the abstract port of a core every result over it,
    hold down to the four wires.
  \<^item> \<open>Remote\<close>: the remote-control packets; numbers are read as they are printed, a packet has one response,
    memory over packets; the file's own debug port is never given a controller.
  \<^item> \<open>Lpc_Common\<close>: calls of the routine in the ROM of LPC chips, over the target object of \<open>Target\<close>. A call restores
    registers and memory; with a ROM that does what the manuals promise, flash is erased and programmed.
  \<^item> \<open>Morse\<close>, \<open>Tasks\<close>: the signal of the LED against the international code; the numbers of tasks and interfaces.
  \<^item> \<open>Command\<close>: the monitor commands and their interpreter. A packet \<open>qRcmd\<close> runs the command it names on the words
    of its line; no command leaves a dangling pointer; what some commands can never do.

  \<^bold>\<open>Not modelled.\<close> The other platforms under \<open>platforms/\<close> and the hosted build, which are not compiled for
  this probe; the vendored or generated code (SystemView, the W5500 driver, DHCP, SVD files); the FreeRTOS
  tasks, USB and UART glue of \<open>platforms/RubyLink\<close>, which only move data between libraries; the PIO
  programs; the drivers of the other chips under \<open>target/\<close>, which are variations of the modelled ones;
  \<open>cortexa.c\<close>. The manifest lists them with the reason.
\<close>

end
